(* ===== verification/Prelude.thy ===== *)
theory Prelude
  imports Main "HOL-Library.AList"
begin

text \<open>
  Shared vocabulary of the development.

  \<^item> JavaScript numbers that the code uses as integers are \<open>int\<close>; \<open>Number.isSafeInteger\<close>
    is \<open>is_safe_integer\<close>.
  \<^item> A call that can throw is a function into \<open>'e + 'a\<close> (\<open>Inl\<close> the thrown error).
  \<^item> A call that can throw and changes state is a \<open>prog\<close>: from a state to an outcome and a
    state. \<open>try ... catch\<close> is \<open>catch_prog\<close>, a \<open>for\<close> loop whose body is awaited is \<open>for_each\<close>.
    \<open>triple\<close> is the Hoare triple with one postcondition for normal return and one for throwing;
    its rules are collected in \<open>triple_rules\<close>.
  \<^item> A JavaScript \<open>Map\<close> keeps insertion order, so it is an association list with \<open>map_of\<close>,
    \<open>AList.update\<close> and \<open>AList.delete\<close> (an update keeps the position of its key).
  \<^item> Strings are \<open>string\<close>, the code's identifiers and protocol words being ASCII.
\<close>

named_theorems triple_rules \<open>rules of the Hoare triple for programs with exceptions\<close>

section \<open>Numbers and times\<close>

type_synonym millis = int

definition max_safe_integer :: int where
  "max_safe_integer = 9007199254740991"

definition is_safe_integer :: "int \<Rightarrow> bool" where
  "is_safe_integer n \<longleftrightarrow> - max_safe_integer \<le> n \<and> n \<le> max_safe_integer"

lemma is_safe_integer_mono:
  "is_safe_integer n \<Longrightarrow> 0 \<le> m \<Longrightarrow> m \<le> n \<Longrightarrow> is_safe_integer m"
  by (simp add: is_safe_integer_def max_safe_integer_def)

section \<open>Calls that may throw\<close>

definition throw_if :: "bool \<Rightarrow> 'e \<Rightarrow> 'e + 'a \<Rightarrow> 'e + 'a" where
  "throw_if c e k = (if c then Inl e else k)"

lemma throw_if_Inr [simp]: "throw_if c e k = Inr x \<longleftrightarrow> \<not> c \<and> k = Inr x"
  by (simp add: throw_if_def)

lemma throw_if_False [simp]: "throw_if False e k = k"
  by (simp add: throw_if_def)

lemma throw_if_True [simp]: "throw_if True e k = Inl e"
  by (simp add: throw_if_def)

section \<open>Programs: state and exceptions\<close>

type_synonym ('s, 'e, 'a) prog = "'s \<Rightarrow> ('e + 'a) \<times> 's"

definition ret :: "'a \<Rightarrow> ('s, 'e, 'a) prog" where
  "ret x = (\<lambda>s. (Inr x, s))"

definition throw :: "'e \<Rightarrow> ('s, 'e, 'a) prog" where
  "throw e = (\<lambda>s. (Inl e, s))"

definition gets :: "('s \<Rightarrow> 'a) \<Rightarrow> ('s, 'e, 'a) prog" where
  "gets f = (\<lambda>s. (Inr (f s), s))"

definition modify :: "('s \<Rightarrow> 's) \<Rightarrow> ('s, 'e, unit) prog" where
  "modify f = (\<lambda>s. (Inr (), f s))"

definition bind_prog ::
  "('s, 'e, 'a) prog \<Rightarrow> ('a \<Rightarrow> ('s, 'e, 'b) prog) \<Rightarrow> ('s, 'e, 'b) prog" where
  "bind_prog m k = (\<lambda>s. case m s of (Inl e, s') \<Rightarrow> (Inl e, s') | (Inr x, s') \<Rightarrow> k x s')"

definition then_prog ::
  "('s, 'e, 'a) prog \<Rightarrow> ('s, 'e, 'b) prog \<Rightarrow> ('s, 'e, 'b) prog" where
  "then_prog m k = bind_prog m (\<lambda>_. k)"

definition catch_prog ::
  "('s, 'e, 'a) prog \<Rightarrow> ('e \<Rightarrow> ('s, 'e, 'a) prog) \<Rightarrow> ('s, 'e, 'a) prog" where
  "catch_prog m h = (\<lambda>s. case m s of (Inl e, s') \<Rightarrow> h e s' | (Inr x, s') \<Rightarrow> (Inr x, s'))"

text \<open>\<open>try { m } finally { f }\<close>, where \<open>f\<close> itself does not throw.\<close>

definition finally_prog ::
  "('s, 'e, 'a) prog \<Rightarrow> ('s \<Rightarrow> 's) \<Rightarrow> ('s, 'e, 'a) prog" where
  "finally_prog m f = (\<lambda>s. case m s of (r, s') \<Rightarrow> (r, f s'))"

text \<open>A transaction of the database: what throws leaves the tables as they were.\<close>

definition in_transaction :: "('s, 'e, 'a) prog \<Rightarrow> ('s, 'e, 'a) prog" where
  "in_transaction m s = (case m s of (Inl e, _) \<Rightarrow> (Inl e, s) | (Inr x, s') \<Rightarrow> (Inr x, s'))"

lemma in_transaction_cases:
  assumes "in_transaction m s = (r, s')"
  obtains (rolled_back) e t where "m s = (Inl e, t)" "r = Inl e" "s' = s"
  | (committed) x where "m s = (Inr x, s')" "r = Inr x"
  using assms by (auto simp: in_transaction_def split: prod.splits sum.splits)

definition when_prog :: "bool \<Rightarrow> ('s, 'e, unit) prog \<Rightarrow> ('s, 'e, unit) prog" where
  "when_prog c m = (if c then m else ret ())"

fun for_each :: "'x list \<Rightarrow> ('x \<Rightarrow> ('s, 'e, 'a) prog) \<Rightarrow> ('s, 'e, unit) prog" where
  "for_each [] f = ret ()"
| "for_each (x # xs) f = then_prog (f x) (for_each xs f)"

subsection \<open>Hoare triples\<close>

definition triple ::
  "('s \<Rightarrow> bool) \<Rightarrow> ('s, 'e, 'a) prog \<Rightarrow> ('a \<Rightarrow> 's \<Rightarrow> bool) \<Rightarrow> ('e \<Rightarrow> 's \<Rightarrow> bool) \<Rightarrow> bool" where
  "triple P m Q E \<longleftrightarrow>
     (\<forall>s. P s \<longrightarrow> (case m s of (Inr x, s') \<Rightarrow> Q x s' | (Inl e, s') \<Rightarrow> E e s'))"

lemma tripleI:
  "(\<And>s. P s \<Longrightarrow> (case m s of (Inr x, s') \<Rightarrow> Q x s' | (Inl e, s') \<Rightarrow> E e s')) \<Longrightarrow> triple P m Q E"
  by (simp add: triple_def)

lemma triple_returns: "triple P m Q E \<Longrightarrow> P s \<Longrightarrow> m s = (Inr x, s') \<Longrightarrow> Q x s'"
  by (auto simp: triple_def split: prod.splits sum.splits)

lemma triple_throws: "triple P m Q E \<Longrightarrow> P s \<Longrightarrow> m s = (Inl e, s') \<Longrightarrow> E e s'"
  by (auto simp: triple_def split: prod.splits sum.splits)

lemma triple_weaken:
  assumes "triple P' m Q' E'"
    and "\<And>s. P s \<Longrightarrow> P' s"
    and "\<And>x s. Q' x s \<Longrightarrow> Q x s"
    and "\<And>e s. E' e s \<Longrightarrow> E e s"
  shows "triple P m Q E"
proof (rule tripleI)
  fix s
  assume "P s"
  then have "case m s of (Inr x, s') \<Rightarrow> Q' x s' | (Inl e, s') \<Rightarrow> E' e s'"
    using assms(1,2) by (auto simp: triple_def)
  then show "case m s of (Inr x, s') \<Rightarrow> Q x s' | (Inl e, s') \<Rightarrow> E e s'"
    using assms(3,4) by (auto split: prod.splits sum.splits)
qed

lemma triple_any: "triple P m (\<lambda>_ _. True) (\<lambda>_ _. True)"
  by (auto simp: triple_def split: prod.splits sum.splits)

lemma triple_assume: "(A \<Longrightarrow> triple P m Q E) \<Longrightarrow> triple (\<lambda>s. A \<and> P s) m Q E"
  by (auto simp: triple_def)

lemma triple_ret [triple_rules]: "(\<And>s. P s \<Longrightarrow> Q x s) \<Longrightarrow> triple P (ret x) Q E"
  by (simp add: triple_def ret_def)

lemma triple_throw [triple_rules]: "(\<And>s. P s \<Longrightarrow> E e s) \<Longrightarrow> triple P (throw e) Q E"
  by (simp add: triple_def throw_def)

lemma triple_gets: "(\<And>s. P s \<Longrightarrow> Q (f s) s) \<Longrightarrow> triple P (gets f) Q E"
  by (simp add: triple_def gets_def)

lemma triple_modify: "(\<And>s. P s \<Longrightarrow> Q () (f s)) \<Longrightarrow> triple P (modify f) Q E"
  by (simp add: triple_def modify_def)

lemma triple_bind:
  assumes "triple P m R E" and "\<And>x. triple (R x) (k x) Q E"
  shows "triple P (bind_prog m k) Q E"
  using assms by (fastforce simp: triple_def bind_prog_def split: prod.splits sum.splits)

lemma triple_then:
  assumes "triple P m (\<lambda>_. R) E" and "triple R k Q E"
  shows "triple P (then_prog m k) Q E"
  unfolding then_prog_def using assms by (rule triple_bind)

lemma triple_catch:
  assumes "triple P m Q R" and "\<And>e. triple (R e) (h e) Q E"
  shows "triple P (catch_prog m h) Q E"
  using assms by (fastforce simp: triple_def catch_prog_def split: prod.splits sum.splits)

lemma triple_when:
  assumes "c \<Longrightarrow> triple P m (\<lambda>_. Q) E" and "\<And>s. \<not> c \<Longrightarrow> P s \<Longrightarrow> Q s"
  shows "triple P (when_prog c m) (\<lambda>_. Q) E"
  using assms by (auto simp: when_prog_def intro: triple_ret)

lemma triple_for_each:
  assumes "\<And>x. x \<in> set xs \<Longrightarrow> triple I (f x) (\<lambda>_. I) E"
  shows "triple I (for_each xs f) (\<lambda>_. I) E"
  using assms
proof (induction xs)
  case Nil
  show ?case by (simp add: triple_ret)
next
  case (Cons x xs)
  then show ?case by (auto intro: triple_then)
qed

subsection \<open>Invariants of a program\<close>

text \<open>\<open>keeps I m\<close>: the program keeps \<open>I\<close>, whether it returns or throws.\<close>

definition keeps :: "('s \<Rightarrow> bool) \<Rightarrow> ('s, 'e, 'a) prog \<Rightarrow> bool" where
  "keeps I m \<longleftrightarrow> (\<forall>s. I s \<longrightarrow> I (snd (m s)))"

named_theorems keeps_intros \<open>introduction rules for invariants of programs\<close>

lemma keepsD: "keeps I m \<Longrightarrow> I s \<Longrightarrow> m s = (r, s') \<Longrightarrow> I s'"
  by (force simp: keeps_def)

lemma keeps_triple: "keeps I m \<Longrightarrow> triple I m (\<lambda>_. I) (\<lambda>_. I)"
  by (force simp: keeps_def triple_def split: prod.splits sum.splits)

lemma triple_keeps:
  assumes "triple I m (\<lambda>_. I) (\<lambda>_. I)"
  shows "keeps I m"
  unfolding keeps_def
proof (intro allI impI)
  fix s
  assume "I s"
  then have "case m s of (Inr x, s') \<Rightarrow> I s' | (Inl e, s') \<Rightarrow> I s'"
    using assms by (auto simp: triple_def)
  then show "I (snd (m s))"
    by (cases "m s") (auto split: sum.splits)
qed

lemma keeps_ret [keeps_intros]: "keeps I (ret x)"
  by (simp add: keeps_def ret_def)

lemma keeps_throw [keeps_intros]: "keeps I (throw e)"
  by (simp add: keeps_def throw_def)

lemma keeps_gets [keeps_intros]: "keeps I (gets f)"
  by (simp add: keeps_def gets_def)

lemma keeps_modify: "(\<And>s. I s \<Longrightarrow> I (f s)) \<Longrightarrow> keeps I (modify f)"
  by (simp add: keeps_def modify_def)

lemma keeps_bind [keeps_intros]:
  "keeps I m \<Longrightarrow> (\<And>x. keeps I (k x)) \<Longrightarrow> keeps I (bind_prog m k)"
  by (force simp: keeps_def bind_prog_def split: prod.splits sum.splits)

lemma keeps_then [keeps_intros]: "keeps I m \<Longrightarrow> keeps I k \<Longrightarrow> keeps I (then_prog m k)"
  by (simp add: then_prog_def keeps_bind)

lemma keeps_catch [keeps_intros]:
  "keeps I m \<Longrightarrow> (\<And>e. keeps I (h e)) \<Longrightarrow> keeps I (catch_prog m h)"
  by (force simp: keeps_def catch_prog_def split: prod.splits sum.splits)

lemma keeps_finally:
  "keeps I m \<Longrightarrow> (\<And>s. I s \<Longrightarrow> I (f s)) \<Longrightarrow> keeps I (finally_prog m f)"
  by (force simp: keeps_def finally_prog_def split: prod.splits)

lemma keeps_for_each [keeps_intros]:
  "(\<And>x. x \<in> set xs \<Longrightarrow> keeps I (f x)) \<Longrightarrow> keeps I (for_each xs f)"
  by (induction xs) (auto intro: keeps_intros)

lemma keeps_if [keeps_intros]:
  "(c \<Longrightarrow> keeps I m) \<Longrightarrow> (\<not> c \<Longrightarrow> keeps I m') \<Longrightarrow> keeps I (if c then m else m')"
  by simp

lemma keeps_case_option [keeps_intros]:
  "keeps I m \<Longrightarrow> (\<And>x. opt = Some x \<Longrightarrow> keeps I (k x)) \<Longrightarrow>
     keeps I (case opt of None \<Rightarrow> m | Some x \<Rightarrow> k x)"
  by (cases opt) auto

lemma keeps_case_sum [keeps_intros]:
  "(\<And>x. keeps I (k x)) \<Longrightarrow> (\<And>x. keeps I (k' x)) \<Longrightarrow>
     keeps I (case v of Inl x \<Rightarrow> k x | Inr x \<Rightarrow> k' x)"
  by (cases v) auto

lemma keeps_case_prod [keeps_intros]:
  "(\<And>x y. keeps I (k x y)) \<Longrightarrow> keeps I (case v of (x, y) \<Rightarrow> k x y)"
  by (cases v) auto

section \<open>Strings\<close>

definition starts_with :: "string \<Rightarrow> string \<Rightarrow> bool" where
  "starts_with p s \<longleftrightarrow> take (length p) s = p"

definition ends_with :: "string \<Rightarrow> string \<Rightarrow> bool" where
  "ends_with p s \<longleftrightarrow> length p \<le> length s \<and> drop (length s - length p) s = p"

fun contains_str :: "string \<Rightarrow> string \<Rightarrow> bool" where
  "contains_str p [] = (p = [])"
| "contains_str p (c # s) = (starts_with p (c # s) \<or> contains_str p s)"

fun join :: "string \<Rightarrow> string list \<Rightarrow> string" where
  "join sep [] = []"
| "join sep [x] = x"
| "join sep (x # y # xs) = x @ sep @ join sep (y # xs)"

definition to_lower_char :: "char \<Rightarrow> char" where
  "to_lower_char c =
     (if 65 \<le> (of_char c :: nat) \<and> (of_char c :: nat) \<le> 90 then char_of ((of_char c :: nat) + 32) else c)"

definition to_lower :: "string \<Rightarrow> string" where
  "to_lower s = map to_lower_char s"

definition is_digit :: "char \<Rightarrow> bool" where
  "is_digit c \<longleftrightarrow> 48 \<le> (of_char c :: nat) \<and> (of_char c :: nat) \<le> 57"

definition is_lower :: "char \<Rightarrow> bool" where
  "is_lower c \<longleftrightarrow> 97 \<le> (of_char c :: nat) \<and> (of_char c :: nat) \<le> 122"

definition is_upper :: "char \<Rightarrow> bool" where
  "is_upper c \<longleftrightarrow> 65 \<le> (of_char c :: nat) \<and> (of_char c :: nat) \<le> 90"

definition is_alnum :: "char \<Rightarrow> bool" where
  "is_alnum c \<longleftrightarrow> is_digit c \<or> is_lower c \<or> is_upper c"

text \<open>White space of the first 256 code points, as \<open>trim\<close> and \<open>\s\<close> see it.\<close>

definition white :: "char \<Rightarrow> bool" where
  "white c \<longleftrightarrow> (of_char c :: nat) \<in> {9, 10, 11, 12, 13, 32, 160}"

definition js_trim :: "string \<Rightarrow> string" where
  "js_trim s = rev (dropWhile white (rev (dropWhile white s)))"

text \<open>\<open>if (value)\<close> of an optional text: the empty text counts as absent.\<close>

definition truthy :: "string option \<Rightarrow> string option" where
  "truthy x = (case x of Some [] \<Rightarrow> None | _ \<Rightarrow> x)"

text \<open>The decimal text of a number, as in a template literal.\<close>

function string_of_nat :: "nat \<Rightarrow> string" where
  "string_of_nat n =
     (if n < 10 then [char_of (48 + n)]
      else string_of_nat (n div 10) @ [char_of (48 + n mod 10)])"
  by pat_completeness auto
termination
  by (relation "measure id") auto

declare string_of_nat.simps [simp del]

definition string_of_int :: "int \<Rightarrow> string" where
  "string_of_int i = (if i < 0 then ''-'' @ string_of_nat (nat (- i)) else string_of_nat (nat i))"

text \<open>Reading the digits back shows that different numbers have different texts.\<close>

definition nat_of_digits :: "string \<Rightarrow> nat" where
  "nat_of_digits s = foldl (\<lambda>v c. 10 * v + (of_char c - 48)) 0 s"

lemma digit_value: "d < 10 \<Longrightarrow> of_char (char_of (48 + d :: nat)) - 48 = d"
  by (simp add: of_char_of)

lemma nat_of_digits_string_of_nat [simp]: "nat_of_digits (string_of_nat n) = n"
proof (induction n rule: string_of_nat.induct)
  case (1 n)
  show ?case
  proof (cases "n < 10")
    case True
    then have "string_of_nat n = [char_of (48 + n)]" by (simp add: string_of_nat.simps)
    with True show ?thesis by (simp add: nat_of_digits_def digit_value)
  next
    case False
    then have "string_of_nat n = string_of_nat (n div 10) @ [char_of (48 + n mod 10)]"
      by (subst string_of_nat.simps) simp
    moreover have "nat_of_digits (string_of_nat (n div 10)) = n div 10"
      using False 1 by simp
    ultimately show ?thesis
      using digit_value [of "n mod 10"] by (simp add: nat_of_digits_def)
  qed
qed

lemma string_of_nat_inject [simp]: "string_of_nat m = string_of_nat n \<longleftrightarrow> m = n"
  by (metis nat_of_digits_string_of_nat)

lemma starts_with_append [simp]: "starts_with p (p @ s)"
  by (simp add: starts_with_def)

lemma starts_with_iff: "starts_with p s \<longleftrightarrow> (\<exists>r. s = p @ r)"
  by (metis append_eq_conv_conj append_take_drop_id starts_with_def)

lemma includes_iff: "contains_str p s \<longleftrightarrow> (\<exists>a b. s = a @ p @ b)"
proof (induction s)
  case Nil
  show ?case by simp
next
  case (Cons c s)
  have "(\<exists>a b. c # s = a @ p @ b) \<longleftrightarrow> (\<exists>b. c # s = p @ b) \<or> (\<exists>a b. s = a @ p @ b)"
    by (metis append_Cons append_Nil append_eq_Cons_conv)
  then show ?case using Cons by (simp add: starts_with_iff)
qed

section \<open>Searching lists\<close>

lemma filter_unique_key:
  "distinct (map f xs) \<Longrightarrow> x \<in> set xs \<Longrightarrow> filter (\<lambda>y. f y = f x) xs = [x]"
proof (induction xs)
  case (Cons a xs)
  then show ?case
  proof (cases "a = x")
    case True
    with Cons.prems(1) have "\<forall>y \<in> set xs. f y \<noteq> f x" by (metis distinct.simps(2) image_eqI list.simps(9) set_map)
    then have "filter (\<lambda>y. f y = f x) xs = []" by (simp add: filter_empty_conv)
    with True show ?thesis by simp
  next
    case False
    with Cons show ?thesis by (auto simp: image_iff)
  qed
qed simp

lemma find_none_image:
  "a \<notin> f ` set xs \<Longrightarrow> b \<notin> g ` set xs \<Longrightarrow> find (\<lambda>x. f x = a \<or> g x = b) xs = None"
  by (induction xs) auto

lemma find_append_none: "find P xs = None \<Longrightarrow> find P (xs @ ys) = find P ys"
  by (induction xs) (auto split: if_splits)

lemma image_set_map: "map f xs = ys \<Longrightarrow> f ` set xs = set ys"
  by auto

section \<open>Insertion-ordered maps\<close>

lemma keys_update: "fst ` set (AList.update k v m) = insert k (fst ` set m)"
  by (induction m) auto

lemma distinct_keys_update:
  "distinct (map fst m) \<Longrightarrow> distinct (map fst (AList.update k v m))"
  by (rule distinct_update)

lemma length_update_fresh:
  "map_of m k = None \<Longrightarrow> length (AList.update k v m) = Suc (length m)"
  by (induction m) (auto split: if_splits)

lemma update_fresh: "map_of m k = None \<Longrightarrow> AList.update k v m = m @ [(k, v)]"
  by (induction m) (auto split: if_splits)


section \<open>Runs of a step relation\<close>

inductive op_run :: "('op \<Rightarrow> 's \<Rightarrow> 's \<Rightarrow> bool) \<Rightarrow> 'op list \<Rightarrow> 's \<Rightarrow> 's \<Rightarrow> bool" for step where
  run_nothing: "op_run step [] s s"
| run_more: "op_run step ops s t \<Longrightarrow> step op t u \<Longrightarrow> op_run step (ops @ [op]) s u"

lemma op_run_invariant:
  assumes "op_run step ops s t" and "I s" and "\<And>op u v. I u \<Longrightarrow> step op u v \<Longrightarrow> I v"
  shows "I t"
  using assms(1,2) by (induction rule: op_run.induct) (auto intro: assms(3))

text \<open>
  A contract of tokens that can be spent once: \<open>spends op\<close> names the token an operation spends,
  \<open>spent i\<close> is a state in which token \<open>i\<close> is gone.
\<close>

locale one_time_token =
  fixes valid :: "'s \<Rightarrow> bool"
    and step :: "'op \<Rightarrow> 's \<Rightarrow> 's \<Rightarrow> bool"
    and spends :: "'op \<Rightarrow> 'i option"
    and spent :: "'i \<Rightarrow> 's \<Rightarrow> bool"
  assumes valid_step: "valid s \<Longrightarrow> step op s t \<Longrightarrow> valid t"
    and spent_step: "valid s \<Longrightarrow> spent i s \<Longrightarrow> step op s t \<Longrightarrow> spent i t"
    and spends_spent: "valid s \<Longrightarrow> step op s t \<Longrightarrow> spends op = Some i \<Longrightarrow> spent i t"
    and spent_refuses: "valid s \<Longrightarrow> spent i s \<Longrightarrow> step op s t \<Longrightarrow> spends op \<noteq> Some i"
begin

lemma valid_run: "op_run step ops s t \<Longrightarrow> valid s \<Longrightarrow> valid t"
  by (erule op_run_invariant [where I = valid]) (auto intro: valid_step)

lemma spent_after:
  "op_run step ops s t \<Longrightarrow> valid s \<Longrightarrow> \<exists>op \<in> set ops. spends op = Some i \<Longrightarrow> spent i t"
proof (induction rule: op_run.induct)
  case (run_more ops s t op u)
  have v: "valid t" using run_more.hyps(1) run_more.prems(1) by (rule valid_run)
  show ?case
  proof (cases "spends op = Some i")
    case True
    with v run_more.hyps(2) show ?thesis by (rule spends_spent)
  next
    case False
    with run_more.prems(2) have "\<exists>op \<in> set ops. spends op = Some i" by auto
    with run_more.IH run_more.prems(1) have "spent i t" by blast
    with v show ?thesis using run_more.hyps(2) by (rule spent_step)
  qed
qed simp

lemma spent_once:
  "op_run step ops s t \<Longrightarrow> valid s \<Longrightarrow> length (filter (\<lambda>op. spends op = Some i) ops) \<le> 1"
proof (induction rule: op_run.induct)
  case (run_more ops s t op u)
  have v: "valid t" using run_more.hyps(1) run_more.prems by (rule valid_run)
  have "filter (\<lambda>op. spends op = Some i) ops = []" if "spends op = Some i"
    using spent_refuses [OF v _ run_more.hyps(2)] spent_after [OF run_more.hyps(1) run_more.prems] that
    by (auto simp: filter_empty_conv)
  with run_more.IH [OF run_more.prems] show ?case by auto
qed simp

end

end
