(* ===== verification/Lifecycle.thy ===== *)
theory Lifecycle
  imports Prelude
begin

text \<open>
  The interface of a life cycle: a finite set of states, a table of the states each may move to,
  and the terminal states. The change record of the operations API
  (apps/api/src/modules/variables/changeStateMachine.ts) and the run of the configuration agent
  (apps/config-agent/src/changes/applyStateMachine.ts) both promise it; what follows from the
  promise is proved here once.
\<close>

text \<open>A path follows the table: each state of the list is a legal move from the one before.\<close>

fun path_from :: "('s \<Rightarrow> 's list) \<Rightarrow> 's \<Rightarrow> 's list \<Rightarrow> bool" where
  "path_from moves s [] = True"
| "path_from moves s (t # ts) = (t \<in> set (moves s) \<and> path_from moves t ts)"

lemma path_from_append:
  "path_from moves s (xs @ ys) \<longleftrightarrow>
     path_from moves s xs \<and> path_from moves (last (s # xs)) ys"
  by (induction xs arbitrary: s) auto

lemma path_from_snoc:
  "path_from moves s (xs @ [t]) \<longleftrightarrow> path_from moves s xs \<and> t \<in> set (moves (last (s # xs)))"
  by (simp add: path_from_append)

locale lifecycle =
  fixes moves :: "'s \<Rightarrow> 's list"
    and is_terminal :: "'s \<Rightarrow> bool"
    and rank :: "'s \<Rightarrow> nat"
  assumes terminal_iff: "is_terminal s \<longleftrightarrow> moves s = []"
    and rank_decreases: "t \<in> set (moves s) \<Longrightarrow> rank t < rank s"
begin

lemma path_rank: "path_from moves s ts \<Longrightarrow> rank (last (s # ts)) + length ts \<le> rank s"
proof (induction ts arbitrary: s)
  case Nil
  then show ?case by simp
next
  case (Cons t ts)
  then have "rank t < rank s" and "rank (last (t # ts)) + length ts \<le> rank t"
    by (auto intro: rank_decreases)
  then show ?case by auto
qed

lemma path_length: "path_from moves s ts \<Longrightarrow> length ts \<le> rank s"
  using path_rank by fastforce

lemma path_rank_bound: "path_from moves s ts \<Longrightarrow> t \<in> set ts \<Longrightarrow> rank t < rank s"
proof (induction ts arbitrary: s)
  case Nil
  then show ?case by simp
next
  case (Cons u ts)
  then have "rank u < rank s"
    by (auto intro: rank_decreases)
  with Cons show ?case by (fastforce intro: less_trans)
qed

lemma path_distinct: "path_from moves s ts \<Longrightarrow> distinct (s # ts)"
proof (induction ts arbitrary: s)
  case Nil
  then show ?case by simp
next
  case (Cons t ts)
  have "s \<notin> set (t # ts)"
    using path_rank_bound [OF Cons.prems] by blast
  moreover have "distinct (t # ts)"
    using Cons.prems Cons.IH [of t] by simp
  ultimately show ?case by simp
qed

lemma path_stops: "path_from moves s ts \<Longrightarrow> is_terminal s \<Longrightarrow> ts = []"
  by (cases ts) (auto simp: terminal_iff)

lemma terminal_only_last:
  assumes "path_from moves s ts" and "t \<in> set (butlast (s # ts))"
  shows "\<not> is_terminal t"
  using assms
proof (induction ts arbitrary: s)
  case Nil
  then show ?case by simp
next
  case (Cons u ts)
  then show ?case
    by (cases "t = s") (auto simp: terminal_iff)
qed

end

end
