(* ===== verification/ChangeMachine.thy ===== *)
theory ChangeMachine
  imports Lifecycle
begin

text \<open>
  The life of a configuration change as the operations API records it:
  apps/api/src/modules/variables/changeStateMachine.ts.

  A change is a snapshot (\<open>change_snapshot\<close>): its state, a version and the events that led there.
  \<open>transition_change\<close> appends one event under an optimistic version check, and replays an event
  already recorded under the same identifiers. The values of the union types are the constructors
  of datatypes, so the membership tests of the code are kept but always pass. \<open>Date.parse\<close> is the
  argument \<open>date_ok\<close>, which says whether the text of a time parses.
\<close>

section \<open>States, events and snapshots\<close>

datatype change_state =
    DRAFT | VALIDATING | INVALID | READY | SAVED | APPLYING | SNAPSHOTTED | WRITTEN
  | ACTION_RUNNING | HEALTH_CHECKING | COMPLETED | ROLLING_BACK | ROLLED_BACK
  | ROLLBACK_FAILED | CANCELLED | EXPIRED

definition change_states :: "change_state list" where
  "change_states =
     [DRAFT, VALIDATING, INVALID, READY, SAVED, APPLYING, SNAPSHOTTED, WRITTEN,
      ACTION_RUNNING, HEALTH_CHECKING, COMPLETED, ROLLING_BACK, ROLLED_BACK,
      ROLLBACK_FAILED, CANCELLED, EXPIRED]"

definition terminal_change_states :: "change_state list" where
  "terminal_change_states =
     [INVALID, COMPLETED, ROLLED_BACK, ROLLBACK_FAILED, EXPIRED, CANCELLED]"

fun legal_transitions :: "change_state \<Rightarrow> change_state list" where
  "legal_transitions DRAFT = [VALIDATING, CANCELLED, EXPIRED]"
| "legal_transitions VALIDATING = [INVALID, READY]"
| "legal_transitions INVALID = []"
| "legal_transitions READY = [SAVED, CANCELLED, EXPIRED]"
| "legal_transitions SAVED = [APPLYING, CANCELLED, EXPIRED]"
| "legal_transitions APPLYING = [SNAPSHOTTED, ROLLING_BACK]"
| "legal_transitions SNAPSHOTTED = [WRITTEN, ROLLING_BACK]"
| "legal_transitions WRITTEN = [ACTION_RUNNING, ROLLING_BACK]"
| "legal_transitions ACTION_RUNNING = [HEALTH_CHECKING, ROLLING_BACK]"
| "legal_transitions HEALTH_CHECKING = [COMPLETED, ROLLING_BACK]"
| "legal_transitions COMPLETED = []"
| "legal_transitions ROLLING_BACK = [ROLLED_BACK, ROLLBACK_FAILED]"
| "legal_transitions ROLLED_BACK = []"
| "legal_transitions ROLLBACK_FAILED = []"
| "legal_transitions CANCELLED = []"
| "legal_transitions EXPIRED = []"

record change_event =
  ev_transition_id :: string
  ev_event_id :: string
  ev_from :: change_state
  ev_to :: change_state
  ev_sequence :: int
  ev_actor :: string
  ev_occurred_at :: string

record change_snapshot =
  change_id :: string
  application_id :: string
  ch_state :: change_state
  ch_version :: int
  ch_events :: "change_event list"
  supersedes_change_id :: "string option"
  actor_user_id :: "string option"

datatype change_error =
    CHANGE_TRANSITION_ID_INVALID | CHANGE_VERSION_INVALID | CHANGE_STATE_INVALID
  | CHANGE_TRANSITION_ID_DUPLICATE | CHANGE_EVENT_ID_DUPLICATE | CHANGE_SEQUENCE_NOT_MONOTONIC
  | CHANGE_EVENT_TRANSITION_INVALID | CHANGE_SEQUENCE_INVALID | CHANGE_EVENT_CHAIN_INVALID
  | CHANGE_STATE_EVENT_MISMATCH | CHANGE_VERSION_EXHAUSTED | CHANGE_IDEMPOTENCY_CONFLICT
  | CHANGE_VERSION_CONFLICT | CHANGE_TRANSITION_TERMINAL | CHANGE_TRANSITION_ILLEGAL
  | CHANGE_TRANSITION_INPUT_INVALID | CHANGE_TIMESTAMP_INVALID | CHANGE_ID_INVALID
  | CHANGE_SUPERSEDES_SELF | CHANGE_SUPERSEDES_APPLICATION_MISMATCH
  | CHANGE_SUPERSEDES_STATE_INVALID | CHANGE_APPLICATION_INVALID | CHANGE_ACTOR_INVALID

section \<open>Identifiers\<close>

text \<open>
  \<open>uuidPattern\<close>, with its flag for ignoring case: eight, four, four, four and twelve hexadecimal
  digits between hyphens, the third group starting with 4 and the fourth with 8, 9, a or b.
\<close>

definition is_hex :: "char \<Rightarrow> bool" where
  "is_hex c \<longleftrightarrow> to_lower_char c \<in> set ''0123456789abcdef''"

definition uuid_pattern :: "string \<Rightarrow> bool" where
  "uuid_pattern s \<longleftrightarrow>
     length s = 36 \<and>
     list_all (\<lambda>(i, c). if i \<in> {8, 13, 18, 23} then c = CHR ''-''
                        else if i = 14 then c = CHR ''4''
                        else if i = 19 then to_lower_char c \<in> set ''89ab''
                        else is_hex c)
              (zip [0..<36] s)"

definition create_transition_id :: "string \<Rightarrow> change_error + string" where
  "create_transition_id value =
     (if \<not> uuid_pattern value then Inl CHANGE_TRANSITION_ID_INVALID else Inr value)"

section \<open>Operations\<close>

definition same_event :: "change_event \<Rightarrow> change_event \<Rightarrow> bool" where
  "same_event left right \<longleftrightarrow>
     ev_transition_id left = ev_transition_id right \<and> ev_event_id left = ev_event_id right \<and>
     ev_from left = ev_from right \<and> ev_to left = ev_to right \<and>
     ev_actor left = ev_actor right \<and> ev_occurred_at left = ev_occurred_at right"

text \<open>The loop of \<open>validateSnapshot\<close>, with its two sets, previous sequence and previous state.\<close>

fun validate_events ::
  "int \<Rightarrow> string list \<Rightarrow> string list \<Rightarrow> int \<Rightarrow> change_state option \<Rightarrow> change_event list
     \<Rightarrow> change_error + unit" where
  "validate_events ver tids eids prev_seq prev_state [] = Inr ()"
| "validate_events ver tids eids prev_seq prev_state (e # es) =
     (if ev_transition_id e \<in> set tids then Inl CHANGE_TRANSITION_ID_DUPLICATE
      else if ev_event_id e \<in> set eids then Inl CHANGE_EVENT_ID_DUPLICATE
      else if \<not> is_safe_integer (ev_sequence e) \<or> ev_sequence e \<le> prev_seq
        then Inl CHANGE_SEQUENCE_NOT_MONOTONIC
      else if ev_from e \<notin> set change_states \<or> ev_to e \<notin> set change_states
        then Inl CHANGE_STATE_INVALID
      else if ev_to e \<notin> set (legal_transitions (ev_from e))
        then Inl CHANGE_EVENT_TRANSITION_INVALID
      else if ev_sequence e > ver then Inl CHANGE_SEQUENCE_INVALID
      else if prev_state \<noteq> None \<and> Some (ev_from e) \<noteq> prev_state
        then Inl CHANGE_EVENT_CHAIN_INVALID
      else validate_events ver (ev_transition_id e # tids) (ev_event_id e # eids)
             (ev_sequence e) (Some (ev_to e)) es)"

definition validate_snapshot :: "change_snapshot \<Rightarrow> change_error + unit" where
  "validate_snapshot s =
     (if \<not> is_safe_integer (ch_version s) \<or> ch_version s < 0 then Inl CHANGE_VERSION_INVALID
      else if ch_state s \<notin> set change_states then Inl CHANGE_STATE_INVALID
      else case validate_events (ch_version s) [] [] 0 None (ch_events s) of
        Inl e \<Rightarrow> Inl e
      | Inr _ \<Rightarrow>
          if ch_events s \<noteq> [] \<and> ev_to (last (ch_events s)) \<noteq> ch_state s
            then Inl CHANGE_STATE_EVENT_MISMATCH
          else if ch_version s = max_safe_integer then Inl CHANGE_VERSION_EXHAUSTED
          else Inr ())"

record change_request =
  req_to :: change_state
  expected_version :: int
  req_transition_id :: string
  req_event_id :: string
  req_actor :: string
  req_occurred_at :: string

definition requested_event :: "change_request \<Rightarrow> change_event \<Rightarrow> change_event" where
  "requested_event r old =
     \<lparr> ev_transition_id = req_transition_id r, ev_event_id = req_event_id r, ev_from = ev_from old,
       ev_to = req_to r, ev_sequence = ev_sequence old, ev_actor = req_actor r,
       ev_occurred_at = req_occurred_at r \<rparr>"

definition next_event :: "change_snapshot \<Rightarrow> change_request \<Rightarrow> change_event" where
  "next_event s r =
     \<lparr> ev_transition_id = req_transition_id r, ev_event_id = req_event_id r, ev_from = ch_state s,
       ev_to = req_to r, ev_sequence = ch_version s + 1, ev_actor = req_actor r,
       ev_occurred_at = req_occurred_at r \<rparr>"

definition transition_change ::
  "(string \<Rightarrow> bool) \<Rightarrow> change_snapshot \<Rightarrow> change_request \<Rightarrow> change_error + change_snapshot" where
  "transition_change date_ok s r =
     (if \<not> uuid_pattern (req_transition_id r) \<or> \<not> uuid_pattern (req_event_id r)
        then Inl CHANGE_TRANSITION_ID_INVALID
      else case validate_snapshot s of
        Inl e \<Rightarrow> Inl e
      | Inr _ \<Rightarrow>
          (case find (\<lambda>e. ev_transition_id e = req_transition_id r \<or> ev_event_id e = req_event_id r)
                  (ch_events s) of
            Some old \<Rightarrow>
              if ev_to old \<noteq> req_to r \<or>
                 (ev_transition_id old = req_transition_id r \<and>
                  \<not> same_event old (requested_event r old))
                then Inl CHANGE_IDEMPOTENCY_CONFLICT
              else Inr s
          | None \<Rightarrow>
              if expected_version r \<noteq> ch_version s then Inl CHANGE_VERSION_CONFLICT
              else if ch_state s \<in> set terminal_change_states then Inl CHANGE_TRANSITION_TERMINAL
              else if req_to r \<notin> set (legal_transitions (ch_state s))
                then Inl CHANGE_TRANSITION_ILLEGAL
              else if req_actor r = [] \<or> \<not> is_safe_integer (expected_version r)
                then Inl CHANGE_TRANSITION_INPUT_INVALID
              else if \<not> date_ok (req_occurred_at r) then Inl CHANGE_TIMESTAMP_INVALID
              else Inr (s\<lparr>ch_state := req_to r, ch_version := ch_version s + 1,
                          ch_events := ch_events s @ [next_event s r]\<rparr>)))"

definition create_superseding_draft ::
  "string \<Rightarrow> change_snapshot \<Rightarrow> string \<Rightarrow> string \<Rightarrow> change_error + change_snapshot" where
  "create_superseding_draft new_id source app actor =
     (if \<not> uuid_pattern new_id then Inl CHANGE_ID_INVALID
      else if new_id = change_id source then Inl CHANGE_SUPERSEDES_SELF
      else if app \<noteq> application_id source then Inl CHANGE_SUPERSEDES_APPLICATION_MISMATCH
      else if ch_state source \<notin> set [INVALID, READY, SAVED]
        then Inl CHANGE_SUPERSEDES_STATE_INVALID
      else if application_id source = [] then Inl CHANGE_APPLICATION_INVALID
      else if actor = [] then Inl CHANGE_ACTOR_INVALID
      else Inr \<lparr> change_id = new_id, application_id = app, ch_state = DRAFT, ch_version = 0,
                 ch_events = [], supersedes_change_id = Some (change_id source),
                 actor_user_id = Some actor \<rparr>)"


section \<open>The life cycle of a change\<close>

fun change_rank :: "change_state \<Rightarrow> nat" where
  "change_rank DRAFT = 10"
| "change_rank VALIDATING = 9"
| "change_rank READY = 8"
| "change_rank SAVED = 7"
| "change_rank APPLYING = 6"
| "change_rank SNAPSHOTTED = 5"
| "change_rank WRITTEN = 4"
| "change_rank ACTION_RUNNING = 3"
| "change_rank HEALTH_CHECKING = 2"
| "change_rank ROLLING_BACK = 1"
| "change_rank _ = 0"

definition change_terminal :: "change_state \<Rightarrow> bool" where
  "change_terminal s \<longleftrightarrow> s \<in> set terminal_change_states"

lemma in_change_states [simp]: "s \<in> set change_states"
  by (cases s) (simp_all add: change_states_def)

interpretation change_cycle: lifecycle legal_transitions change_terminal change_rank
proof unfold_locales
  fix s t :: change_state
  show "change_terminal s \<longleftrightarrow> legal_transitions s = []"
    by (cases s) (simp_all add: change_terminal_def terminal_change_states_def)
  show "t \<in> set (legal_transitions s) \<Longrightarrow> change_rank t < change_rank s"
    by (cases s) auto
qed

text \<open>The only way from a state to \<open>COMPLETED\<close>, if there is one.\<close>

fun completion_route :: "change_state \<Rightarrow> change_state list option" where
  "completion_route DRAFT =
     Some [VALIDATING, READY, SAVED, APPLYING, SNAPSHOTTED, WRITTEN, ACTION_RUNNING,
           HEALTH_CHECKING, COMPLETED]"
| "completion_route VALIDATING =
     Some [READY, SAVED, APPLYING, SNAPSHOTTED, WRITTEN, ACTION_RUNNING, HEALTH_CHECKING, COMPLETED]"
| "completion_route READY =
     Some [SAVED, APPLYING, SNAPSHOTTED, WRITTEN, ACTION_RUNNING, HEALTH_CHECKING, COMPLETED]"
| "completion_route SAVED =
     Some [APPLYING, SNAPSHOTTED, WRITTEN, ACTION_RUNNING, HEALTH_CHECKING, COMPLETED]"
| "completion_route APPLYING =
     Some [SNAPSHOTTED, WRITTEN, ACTION_RUNNING, HEALTH_CHECKING, COMPLETED]"
| "completion_route SNAPSHOTTED = Some [WRITTEN, ACTION_RUNNING, HEALTH_CHECKING, COMPLETED]"
| "completion_route WRITTEN = Some [ACTION_RUNNING, HEALTH_CHECKING, COMPLETED]"
| "completion_route ACTION_RUNNING = Some [HEALTH_CHECKING, COMPLETED]"
| "completion_route HEALTH_CHECKING = Some [COMPLETED]"
| "completion_route COMPLETED = Some []"
| "completion_route _ = None"

lemma completion_route_step:
  "t \<in> set (legal_transitions s) \<Longrightarrow> completion_route t = Some ts \<Longrightarrow>
     completion_route s = Some (t # ts)"
  by (cases s) auto

lemma completion_route_unique:
  "path_from legal_transitions s ts \<Longrightarrow> last (s # ts) = COMPLETED \<Longrightarrow>
     completion_route s = Some ts"
proof (induction ts arbitrary: s)
  case Nil
  then show ?case by simp
next
  case (Cons t ts)
  then have "completion_route t = Some ts" by simp
  with Cons.prems show ?case by (auto intro: completion_route_step)
qed

section \<open>Validated snapshots\<close>

text \<open>What the loop of \<open>validateSnapshot\<close> accepts, without its accumulators.\<close>

definition events_ok :: "int \<Rightarrow> int \<Rightarrow> change_state option \<Rightarrow> change_event list \<Rightarrow> bool" where
  "events_ok ver prev_seq prev_state es \<longleftrightarrow>
     distinct (map ev_transition_id es) \<and> distinct (map ev_event_id es) \<and>
     sorted_wrt (<) (prev_seq # map ev_sequence es) \<and>
     (\<forall>e \<in> set es. is_safe_integer (ev_sequence e) \<and> ev_sequence e \<le> ver \<and>
                   ev_to e \<in> set (legal_transitions (ev_from e))) \<and>
     (case prev_state of
        None \<Rightarrow> es = [] \<or> map ev_from (tl es) = map ev_to (butlast es)
      | Some p \<Rightarrow> map ev_from es = butlast (p # map ev_to es))"

lemma events_ok_Cons:
  "events_ok ver prev_seq prev_state (e # es) \<longleftrightarrow>
     ev_transition_id e \<notin> ev_transition_id ` set es \<and> ev_event_id e \<notin> ev_event_id ` set es \<and>
     prev_seq < ev_sequence e \<and> is_safe_integer (ev_sequence e) \<and> ev_sequence e \<le> ver \<and>
     ev_to e \<in> set (legal_transitions (ev_from e)) \<and>
     (prev_state = None \<or> prev_state = Some (ev_from e)) \<and>
     events_ok ver (ev_sequence e) (Some (ev_to e)) es"
  by (cases es; cases prev_state)
    (auto simp: events_ok_def map_butlast)

lemma validate_events_iff:
  "validate_events ver tids eids prev_seq prev_state es = Inr () \<longleftrightarrow>
     events_ok ver prev_seq prev_state es \<and>
     ev_transition_id ` set es \<inter> set tids = {} \<and> ev_event_id ` set es \<inter> set eids = {}"
proof (induction es arbitrary: tids eids prev_seq prev_state)
  case Nil
  show ?case by (simp add: events_ok_def split: option.splits)
next
  case (Cons e es)
  show ?case
    by (cases prev_state) (auto simp: Cons.IH events_ok_Cons)
qed


definition snapshot_ok :: "change_snapshot \<Rightarrow> bool" where
  "snapshot_ok s \<longleftrightarrow>
     0 \<le> ch_version s \<and> ch_version s < max_safe_integer \<and>
     events_ok (ch_version s) 0 None (ch_events s) \<and>
     (ch_events s = [] \<or> ev_to (last (ch_events s)) = ch_state s)"

lemma validate_snapshot_iff: "validate_snapshot s = Inr () \<longleftrightarrow> snapshot_ok s"
proof -
  have "is_safe_integer (ch_version s) \<and> 0 \<le> ch_version s \<and> ch_version s \<noteq> max_safe_integer \<longleftrightarrow>
        0 \<le> ch_version s \<and> ch_version s < max_safe_integer"
    by (auto simp: is_safe_integer_def max_safe_integer_def)
  then show ?thesis
    using validate_events_iff [of "ch_version s" "[]" "[]" 0 None "ch_events s"]
    by (auto simp: validate_snapshot_def snapshot_ok_def split: sum.splits)
qed

lemma sorted_wrt_less_snoc:
  "sorted_wrt (<) (xs @ [x :: int]) \<longleftrightarrow> sorted_wrt (<) xs \<and> (\<forall>y \<in> set xs. y < x)"
  by (auto simp: sorted_wrt_append)

lemma events_ok_snoc:
  assumes "events_ok ver 0 None es"
    and "ev_transition_id e \<notin> ev_transition_id ` set es" and "ev_event_id e \<notin> ev_event_id ` set es"
    and "ev_sequence e = ver + 1" and "0 \<le> ver" and "ver + 1 \<le> max_safe_integer"
    and "ev_to e \<in> set (legal_transitions (ev_from e))"
    and "es = [] \<or> ev_to (last es) = ev_from e"
  shows "events_ok (ver + 1) 0 None (es @ [e])"
proof -
  have safe: "is_safe_integer (ver + 1)"
    using assms(5,6) by (simp add: is_safe_integer_def max_safe_integer_def)
  have chain: "map ev_from (tl (es @ [e])) = map ev_to (butlast (es @ [e]))"
  proof (cases "es = []")
    case True
    then show ?thesis by simp
  next
    case False
    then have "map ev_from (tl es) = map ev_to (butlast es)" and "ev_to (last es) = ev_from e"
      using assms(1,8) by (auto simp: events_ok_def)
    moreover have "map ev_to es = map ev_to (butlast es) @ [ev_to (last es)]"
      using False by (metis append_butlast_last_id list.simps(8,9) map_append)
    ultimately show ?thesis using False by simp
  qed
  have "sorted_wrt (<) (0 # map ev_sequence (es @ [e]))"
    using assms(1,4,5) sorted_wrt_less_snoc [of "0 # map ev_sequence es" "ver + 1"]
    by (force simp: events_ok_def)
  with assms chain safe show ?thesis
    by (force simp: events_ok_def)
qed

text \<open>Every accepted request is a replay, which changes nothing, or appends its event.\<close>

lemma transition_change_cases:
  assumes "transition_change date_ok s r = Inr s'"
  obtains (replay) e where "e \<in> set (ch_events s)" and "s' = s" and "snapshot_ok s"
      and "ev_to e = req_to r"
      and "ev_transition_id e = req_transition_id r \<or> ev_event_id e = req_event_id r"
  | (fresh) "s' = s\<lparr>ch_state := req_to r, ch_version := ch_version s + 1,
                     ch_events := ch_events s @ [next_event s r]\<rparr>"
      and "snapshot_ok s"
      and "req_transition_id r \<notin> ev_transition_id ` set (ch_events s)"
      and "req_event_id r \<notin> ev_event_id ` set (ch_events s)"
      and "expected_version r = ch_version s"
      and "req_to r \<in> set (legal_transitions (ch_state s))"
      and "req_actor r \<noteq> []" and "date_ok (req_occurred_at r)"
      and "\<not> change_terminal (ch_state s)"
proof -
  let ?m = "\<lambda>e. ev_transition_id e = req_transition_id r \<or> ev_event_id e = req_event_id r"
  have ok: "snapshot_ok s"
    using assms
    by (auto simp: transition_change_def validate_snapshot_iff [symmetric]
        split: if_splits sum.splits)
  then have valid: "validate_snapshot s = Inr ()" by (simp add: validate_snapshot_iff)
  show ?thesis
  proof (cases "find ?m (ch_events s)")
    case (Some e)
    then have "e \<in> set (ch_events s)" and "?m e" by (auto simp: find_Some_iff)
    moreover from Some assms valid have "s' = s" and "ev_to e = req_to r"
      by (auto simp: transition_change_def split: if_splits)
    ultimately show ?thesis using ok by (intro replay) auto
  next
    case None
    then have "req_transition_id r \<notin> ev_transition_id ` set (ch_events s)"
      and "req_event_id r \<notin> ev_event_id ` set (ch_events s)"
      by (auto simp: find_None_iff)
    with None assms valid ok show ?thesis
      by (intro fresh) (auto simp: transition_change_def change_terminal_def split: if_splits)
  qed
qed

lemma transition_snapshot_ok:
  assumes "transition_change date_ok s r = Inr s'" and "ch_version s' < max_safe_integer"
  shows "snapshot_ok s'"
  using assms(1)
proof (cases rule: transition_change_cases)
  case (replay e)
  then show ?thesis by simp
next
  case fresh
  then have "events_ok (ch_version s + 1) 0 None (ch_events s @ [next_event s r])"
    using assms(2)
    by (intro events_ok_snoc) (auto simp: snapshot_ok_def next_event_def)
  with fresh assms(2) show ?thesis
    by (simp add: snapshot_ok_def next_event_def)
qed

section \<open>Changes reachable from a draft\<close>

inductive change_reachable :: "(string \<Rightarrow> bool) \<Rightarrow> change_snapshot \<Rightarrow> bool" for date_ok where
  draft: "ch_state s = DRAFT \<Longrightarrow> ch_version s = 0 \<Longrightarrow> ch_events s = [] \<Longrightarrow> change_reachable date_ok s"
| step: "change_reachable date_ok s \<Longrightarrow> transition_change date_ok s r = Inr s' \<Longrightarrow>
     change_reachable date_ok s'"

definition change_inv :: "change_snapshot \<Rightarrow> bool" where
  "change_inv s \<longleftrightarrow>
     path_from legal_transitions DRAFT (map ev_to (ch_events s)) \<and>
     ch_state s = last (DRAFT # map ev_to (ch_events s)) \<and>
     map ev_sequence (ch_events s) = [1 .. ch_version s] \<and> 0 \<le> ch_version s \<and>
     length (ch_events s) = nat (ch_version s)"

lemma upto_snoc: "0 \<le> n \<Longrightarrow> [1 .. n + 1] = [1 .. n] @ [n + 1 :: int]"
  by (simp add: upto_rec2)

lemma change_reachable_inv: "change_reachable date_ok s \<Longrightarrow> change_inv s"
proof (induction rule: change_reachable.induct)
  case (draft s)
  then show ?case by (simp add: change_inv_def)
next
  case (step s r s')
  from step.hyps(2) show ?case
  proof (cases rule: transition_change_cases)
    case (replay e)
    with step.IH show ?thesis by simp
  next
    case fresh
    with step.IH show ?thesis
      by (simp add: change_inv_def path_from_snoc next_event_def upto_snoc nat_add_distrib)
  qed
qed

lemma change_inv_version: "change_inv s \<Longrightarrow> ch_version s \<le> 10"
  using change_cycle.path_length [of DRAFT "map ev_to (ch_events s)"]
  by (simp add: change_inv_def)

lemma change_reachable_ok: "change_reachable date_ok s \<Longrightarrow> snapshot_ok s"
proof (induction rule: change_reachable.induct)
  case (draft s)
  then show ?case
    by (simp add: snapshot_ok_def events_ok_def max_safe_integer_def)
next
  case (step s r s')
  then have "change_inv s'"
    by (blast intro: change_reachable_inv change_reachable.step)
  then have "ch_version s' < max_safe_integer"
    using change_inv_version by (fastforce simp: max_safe_integer_def)
  with step.hyps(2) show ?case by (rule transition_snapshot_ok)
qed


section \<open>Example data for the witnesses\<close>

definition sample_uuid :: "char \<Rightarrow> string" where
  "sample_uuid c = ''00000000-0000-4000-8000-00000000000'' @ [c]"

definition sample_request :: "char \<Rightarrow> change_state \<Rightarrow> int \<Rightarrow> change_request" where
  "sample_request c target ver =
     \<lparr> req_to = target, expected_version = ver, req_transition_id = sample_uuid c,
       req_event_id = sample_uuid c, req_actor = ''owner'',
       req_occurred_at = ''2026-09-01T00:00:00.000Z'' \<rparr>"

definition sample_draft :: change_snapshot where
  "sample_draft =
     \<lparr> change_id = sample_uuid (CHR ''0''), application_id = ''edutrack'', ch_state = DRAFT,
       ch_version = 0, ch_events = [], supersedes_change_id = None, actor_user_id = None \<rparr>"

fun transition_all ::
  "(string \<Rightarrow> bool) \<Rightarrow> change_snapshot \<Rightarrow> change_request list \<Rightarrow> change_error + change_snapshot" where
  "transition_all date_ok s [] = Inr s"
| "transition_all date_ok s (r # rs) =
     (case transition_change date_ok s r of
        Inl e \<Rightarrow> Inl e | Inr s' \<Rightarrow> transition_all date_ok s' rs)"

lemma reachable_transition_all:
  "change_reachable date_ok s \<Longrightarrow> transition_all date_ok s rs = Inr s' \<Longrightarrow>
     change_reachable date_ok s'"
  by (induction rs arbitrary: s) (auto split: sum.splits intro: change_reachable.step)

lemma reachable_sample_draft: "change_reachable date_ok sample_draft"
  by (rule change_reachable.draft) (simp_all add: sample_draft_def)

definition sample_requests :: "change_request list" where
  "sample_requests =
     [sample_request (CHR ''1'') VALIDATING 0, sample_request (CHR ''2'') READY 1,
      sample_request (CHR ''3'') SAVED 2, sample_request (CHR ''4'') APPLYING 3,
      sample_request (CHR ''5'') SNAPSHOTTED 4, sample_request (CHR ''6'') WRITTEN 5,
      sample_request (CHR ''7'') ACTION_RUNNING 6, sample_request (CHR ''8'') HEALTH_CHECKING 7,
      sample_request (CHR ''9'') COMPLETED 8]"

lemma sample_run_completes:
  "\<exists>s. transition_all (\<lambda>_. True) sample_draft sample_requests = Inr s \<and> ch_state s = COMPLETED"
proof -
  have "(case transition_all (\<lambda>_. True) sample_draft sample_requests of
           Inl e \<Rightarrow> False | Inr s \<Rightarrow> ch_state s = COMPLETED)"
    by code_simp
  then show ?thesis by (auto split: sum.splits)
qed

section \<open>Properties\<close>

text \<open>
  A change that starts as a draft and is \<open>COMPLETED\<close> has been through validation, saving,
  the snapshot, the write, the action and the health check, each exactly once and in this order,
  whatever requests were sent to \<open>transitionChange\<close> on the way (replays, conflicts and illegal
  moves included).
\<close>
theorem change_completed_history:
  assumes "change_reachable date_ok s" and "ch_state s = COMPLETED"
  shows "map ev_to (ch_events s) =
    [VALIDATING, READY, SAVED, APPLYING, SNAPSHOTTED, WRITTEN, ACTION_RUNNING,
     HEALTH_CHECKING, COMPLETED]"
proof -
  have "change_inv s" using assms(1) by (rule change_reachable_inv)
  then have "completion_route DRAFT = Some (map ev_to (ch_events s))"
    using assms(2) by (intro completion_route_unique) (simp_all add: change_inv_def)
  then show ?thesis by simp
qed

theorem change_completed_history_witness:
  "\<exists>s. change_reachable (\<lambda>_. True) s \<and> ch_state s = COMPLETED \<and> length (ch_events s) = 9"
proof -
  obtain s where run: "transition_all (\<lambda>_. True) sample_draft sample_requests = Inr s"
    and completed: "ch_state s = COMPLETED"
    using sample_run_completes by blast
  have reach: "change_reachable (\<lambda>_. True) s"
    using reachable_sample_draft run by (rule reachable_transition_all)
  have "length (map ev_to (ch_events s)) = 9"
    by (simp add: change_completed_history [OF reach completed])
  with reach completed show ?thesis by auto
qed

text \<open>
  Every change reachable from a draft passes \<open>validateSnapshot\<close>, its events are numbered
  1, 2, 3, ... up to its version, its event list is a legal path from \<open>DRAFT\<close> to its state that
  visits no state twice, and it has at most ten events: no change can be kept moving for ever.
\<close>
theorem change_reachable_well_formed:
  assumes "change_reachable date_ok s"
  shows "validate_snapshot s = Inr () \<and>
    map ev_sequence (ch_events s) = [1 .. ch_version s] \<and>
    path_from legal_transitions DRAFT (map ev_to (ch_events s)) \<and>
    distinct (DRAFT # map ev_to (ch_events s)) \<and> ch_version s \<le> 10"
proof -
  have inv: "change_inv s" using assms by (rule change_reachable_inv)
  then have path: "path_from legal_transitions DRAFT (map ev_to (ch_events s))"
    by (simp add: change_inv_def)
  then have "distinct (DRAFT # map ev_to (ch_events s))"
    by (rule change_cycle.path_distinct)
  with inv path show ?thesis
    using assms change_inv_version [OF inv]
    by (simp add: change_inv_def validate_snapshot_iff change_reachable_ok)
qed

theorem change_reachable_well_formed_witness:
  "validate_snapshot sample_draft = Inr () \<and> ch_version sample_draft \<le> 10"
  using change_reachable_well_formed [OF reachable_sample_draft [of "\<lambda>_. True"]] by simp

text \<open>
  Sending an accepted request again is harmless: applied to the snapshot it produced,
  the same request (now with a stale expected version) returns that snapshot unchanged, instead
  of a version conflict or a second event.
\<close>
theorem transition_replay:
  assumes "transition_change date_ok s r = Inr s'" and "ch_version s' < max_safe_integer"
  shows "transition_change date_ok s' r = Inr s'"
  using assms(1)
proof (cases rule: transition_change_cases)
  case (replay e)
  with assms(1) show ?thesis by simp
next
  case fresh
  have valid: "validate_snapshot s' = Inr ()"
    using assms by (simp add: validate_snapshot_iff transition_snapshot_ok)
  have uuids: "uuid_pattern (req_transition_id r)" "uuid_pattern (req_event_id r)"
    using assms(1) by (auto simp: transition_change_def split: if_splits)
  let ?m = "\<lambda>e. ev_transition_id e = req_transition_id r \<or> ev_event_id e = req_event_id r"
  have "find ?m (ch_events s) = None"
    using fresh(3,4) by (rule find_none_image)
  then have "find ?m (ch_events s') = Some (next_event s r)"
    by (simp add: fresh(1) next_event_def find_append_none)
  then show ?thesis
    using valid uuids
    by (simp add: transition_change_def next_event_def requested_event_def same_event_def)
qed

theorem transition_replay_witness:
  "\<exists>s'. transition_change (\<lambda>_. True) sample_draft (sample_request (CHR ''1'') VALIDATING 0) = Inr s' \<and>
        transition_change (\<lambda>_. True) s' (sample_request (CHR ''1'') VALIDATING 0) = Inr s'"
proof -
  have "(case transition_change (\<lambda>_. True) sample_draft (sample_request (CHR ''1'') VALIDATING 0) of
           Inl e \<Rightarrow> False | Inr s' \<Rightarrow> ch_version s' < max_safe_integer)"
    by code_simp
  then obtain s' where
    "transition_change (\<lambda>_. True) sample_draft (sample_request (CHR ''1'') VALIDATING 0) = Inr s'"
    and "ch_version s' < max_safe_integer"
    by (auto split: sum.splits)
  then show ?thesis using transition_replay by blast
qed

text \<open>
  No update is lost: of two different requests prepared against the same version, the one
  applied second fails with \<open>CHANGE_VERSION_CONFLICT\<close>.
\<close>
theorem concurrent_transition_conflicts:
  assumes "transition_change date_ok s r1 = Inr s1" and "s1 \<noteq> s"
    and "ch_version s1 < max_safe_integer"
    and "expected_version r2 = expected_version r1"
    and "uuid_pattern (req_transition_id r2)" and "uuid_pattern (req_event_id r2)"
    and "req_transition_id r2 \<notin> ev_transition_id ` set (ch_events s1)"
    and "req_event_id r2 \<notin> ev_event_id ` set (ch_events s1)"
  shows "transition_change date_ok s1 r2 = Inl CHANGE_VERSION_CONFLICT"
  using assms(1)
proof (cases rule: transition_change_cases)
  case (replay e)
  with assms(2) show ?thesis by simp
next
  case fresh
  have "validate_snapshot s1 = Inr ()"
    using assms(1,3) by (simp add: validate_snapshot_iff transition_snapshot_ok)
  moreover have "find (\<lambda>e. ev_transition_id e = req_transition_id r2 \<or> ev_event_id e = req_event_id r2)
                      (ch_events s1) = None"
    using assms(7,8) by (rule find_none_image)
  moreover have "expected_version r2 \<noteq> ch_version s1"
    using fresh(1,5) assms(4) by simp
  ultimately show ?thesis
    using assms(5,6) by (simp add: transition_change_def)
qed

theorem concurrent_transition_conflicts_witness:
  "\<exists>s1. transition_change (\<lambda>_. True) sample_draft (sample_request (CHR ''1'') VALIDATING 0) = Inr s1 \<and>
        transition_change (\<lambda>_. True) s1 (sample_request (CHR ''2'') CANCELLED 0) =
          Inl CHANGE_VERSION_CONFLICT"
proof -
  let ?r2 = "sample_request (CHR ''2'') CANCELLED 0"
  have "(case transition_change (\<lambda>_. True) sample_draft (sample_request (CHR ''1'') VALIDATING 0) of
           Inl e \<Rightarrow> False
         | Inr s1 \<Rightarrow> ch_version s1 = 1 \<and> map ev_transition_id (ch_events s1) = [sample_uuid (CHR ''1'')] \<and>
             map ev_event_id (ch_events s1) = [sample_uuid (CHR ''1'')])"
    by code_simp
  then obtain s1 where s1:
    "transition_change (\<lambda>_. True) sample_draft (sample_request (CHR ''1'') VALIDATING 0) = Inr s1"
    "ch_version s1 = 1" "map ev_transition_id (ch_events s1) = [sample_uuid (CHR ''1'')]"
    "map ev_event_id (ch_events s1) = [sample_uuid (CHR ''1'')]"
    by (auto split: sum.splits)
  have ids: "ev_transition_id ` set (ch_events s1) = {sample_uuid (CHR ''1'')}"
    "ev_event_id ` set (ch_events s1) = {sample_uuid (CHR ''1'')}"
    using image_set_map [OF s1(3)] image_set_map [OF s1(4)] by simp_all
  have uuid: "uuid_pattern (sample_uuid (CHR ''2''))" by code_simp
  have other: "sample_uuid (CHR ''2'') \<noteq> sample_uuid (CHR ''1'')" by (simp add: sample_uuid_def)
  have r2: "req_transition_id ?r2 = sample_uuid (CHR ''2'')"
    "req_event_id ?r2 = sample_uuid (CHR ''2'')" "expected_version ?r2 = 0"
    by (simp_all add: sample_request_def)
  have "transition_change (\<lambda>_. True) s1 ?r2 = Inl CHANGE_VERSION_CONFLICT"
  proof (rule concurrent_transition_conflicts [OF s1(1)])
    show "s1 \<noteq> sample_draft" using s1(2) by (auto simp: sample_draft_def)
    show "ch_version s1 < max_safe_integer" using s1(2) by (simp add: max_safe_integer_def)
    show "expected_version ?r2 = expected_version (sample_request (CHR ''1'') VALIDATING 0)"
      by (simp add: sample_request_def)
  qed (use ids uuid other r2 in simp_all)
  with s1(1) show ?thesis by blast
qed

end
