(* ===== verification/ApplyMachine.thy ===== *)
theory ApplyMachine
  imports ChangeMachine
begin

text \<open>
  One run of a change in the configuration agent:
  apps/config-agent/src/changes/applyStateMachine.ts.

  The closure state of \<open>createApplyStateMachine\<close> (\<open>current\<close>, \<open>sequence\<close> and the \<open>Map\<close> of the
  events already seen) is a record; \<open>transition\<close> returns the new record, the state it answers
  being \<open>am_current\<close> of it. Its states are a part of the states of a change
  (theory ChangeMachine); \<open>to_change\<close> is the inclusion.
\<close>

section \<open>The machine\<close>

datatype apply_state =
    Applying | Snapshotted | Written | Action_running | Health_checking | Completed
  | Rolling_back | Rolled_back | Rollback_failed

datatype apply_machine_error =
    APPLY_STATE_INVALID | APPLY_STATE_TERMINAL | APPLY_TRANSITION_INVALID
  | APPLY_EVENT_REPLAY_CONFLICT | MACHINE_ALREADY_RUNNING

fun apply_moves :: "apply_state \<Rightarrow> apply_state list" where
  "apply_moves Applying = [Snapshotted, Rolling_back]"
| "apply_moves Snapshotted = [Written, Rolling_back]"
| "apply_moves Written = [Action_running, Rolling_back]"
| "apply_moves Action_running = [Health_checking, Rolling_back]"
| "apply_moves Health_checking = [Completed, Rolling_back]"
| "apply_moves Completed = []"
| "apply_moves Rolling_back = [Rolled_back, Rollback_failed]"
| "apply_moves Rolled_back = []"
| "apply_moves Rollback_failed = []"

definition apply_terminal :: "apply_state \<Rightarrow> bool" where
  "apply_terminal s \<longleftrightarrow> s \<in> set [Completed, Rolled_back, Rollback_failed]"

record apply_machine =
  am_application :: "string option"
  am_current :: apply_state
  am_sequence :: nat
  am_event_states :: "(string \<times> apply_state) list"

definition create_apply_machine :: "apply_state \<Rightarrow> string option \<Rightarrow> apply_machine" where
  "create_apply_machine initial app =
     \<lparr> am_application = app, am_current = initial, am_sequence = 0, am_event_states = [] \<rparr>"

definition apply_transition ::
  "apply_machine \<Rightarrow> apply_state \<Rightarrow> string \<Rightarrow> apply_machine_error + apply_machine" where
  "apply_transition m nxt eid =
     (if eid = [] then Inl APPLY_STATE_INVALID
      else case map_of (am_event_states m) eid of
        Some replayed \<Rightarrow>
          if replayed \<noteq> nxt then Inl APPLY_EVENT_REPLAY_CONFLICT else Inr m
      | None \<Rightarrow>
          if apply_terminal (am_current m) then Inl APPLY_STATE_TERMINAL
          else if nxt \<notin> set (apply_moves (am_current m)) then Inl APPLY_TRANSITION_INVALID
          else Inr (m\<lparr>am_current := nxt, am_sequence := Suc (am_sequence m),
                      am_event_states := AList.update eid nxt (am_event_states m)\<rparr>))"

definition assert_application_available ::
  "apply_machine \<Rightarrow> string \<Rightarrow> apply_machine_error + unit" where
  "assert_application_available m app =
     (if am_application m \<noteq> None \<and> am_application m \<noteq> Some [] \<and> am_application m = Some app \<and>
         \<not> apply_terminal (am_current m)
      then Inl MACHINE_ALREADY_RUNNING else Inr ())"

section \<open>Its life cycle\<close>

fun apply_rank :: "apply_state \<Rightarrow> nat" where
  "apply_rank Applying = 6"
| "apply_rank Snapshotted = 5"
| "apply_rank Written = 4"
| "apply_rank Action_running = 3"
| "apply_rank Health_checking = 2"
| "apply_rank Rolling_back = 1"
| "apply_rank _ = 0"

interpretation apply_cycle: lifecycle apply_moves apply_terminal apply_rank
proof unfold_locales
  fix s t :: apply_state
  show "apply_terminal s \<longleftrightarrow> apply_moves s = []"
    by (cases s) (simp_all add: apply_terminal_def)
  show "t \<in> set (apply_moves s) \<Longrightarrow> apply_rank t < apply_rank s"
    by (cases s) auto
qed

lemma apply_transition_cases:
  assumes "apply_transition m nxt eid = Inr m'"
  obtains (replay) "map_of (am_event_states m) eid = Some nxt" and "m' = m"
  | (fresh) "map_of (am_event_states m) eid = None" and "nxt \<in> set (apply_moves (am_current m))"
      and "\<not> apply_terminal (am_current m)" and "eid \<noteq> []"
      and "m' = m\<lparr>am_current := nxt, am_sequence := Suc (am_sequence m),
                  am_event_states := am_event_states m @ [(eid, nxt)]\<rparr>"
  using assms
  by (auto simp: apply_transition_def update_fresh split: if_splits option.splits)

text \<open>A run: any calls of \<open>transition\<close>, those that throw leaving the machine as it was.\<close>

fun apply_run :: "apply_machine \<Rightarrow> (apply_state \<times> string) list \<Rightarrow> apply_machine" where
  "apply_run m [] = m"
| "apply_run m ((nxt, eid) # calls) =
     apply_run (case apply_transition m nxt eid of Inl _ \<Rightarrow> m | Inr m' \<Rightarrow> m') calls"

definition apply_inv :: "apply_state \<Rightarrow> apply_machine \<Rightarrow> bool" where
  "apply_inv initial m \<longleftrightarrow>
     path_from apply_moves initial (map snd (am_event_states m)) \<and>
     am_current m = last (initial # map snd (am_event_states m)) \<and>
     am_sequence m = length (am_event_states m) \<and>
     distinct (map fst (am_event_states m))"

lemma apply_inv_create: "apply_inv initial (create_apply_machine initial app)"
  by (simp add: apply_inv_def create_apply_machine_def)

lemma apply_inv_transition:
  assumes "apply_inv initial m" and "apply_transition m nxt eid = Inr m'"
  shows "apply_inv initial m'"
  using assms(2)
proof (cases rule: apply_transition_cases)
  case replay
  with assms(1) show ?thesis by simp
next
  case fresh
  then have "eid \<notin> fst ` set (am_event_states m)"
    by (simp add: map_of_eq_None_iff)
  with fresh assms(1) show ?thesis
    by (simp add: apply_inv_def path_from_snoc)
qed

lemma apply_inv_run: "apply_inv initial m \<Longrightarrow> apply_inv initial (apply_run m calls)"
proof (induction m calls rule: apply_run.induct)
  case (1 m)
  then show ?case by simp
next
  case (2 m nxt eid calls)
  then show ?case
    by (cases "apply_transition m nxt eid") (auto dest: apply_inv_transition)
qed

fun to_change :: "apply_state \<Rightarrow> change_state" where
  "to_change Applying = APPLYING"
| "to_change Snapshotted = SNAPSHOTTED"
| "to_change Written = WRITTEN"
| "to_change Action_running = ACTION_RUNNING"
| "to_change Health_checking = HEALTH_CHECKING"
| "to_change Completed = COMPLETED"
| "to_change Rolling_back = ROLLING_BACK"
| "to_change Rolled_back = ROLLED_BACK"
| "to_change Rollback_failed = ROLLBACK_FAILED"

lemma legal_transitions_to_change:
  "legal_transitions (to_change s) = map to_change (apply_moves s)"
  by (cases s) simp_all

lemma change_terminal_to_change: "change_terminal (to_change s) = apply_terminal s"
  by (cases s) (simp_all add: change_terminal_def terminal_change_states_def apply_terminal_def)

section \<open>Properties\<close>

text \<open>
  Whatever calls a run receives, its state is the end of a legal path from the state it was
  created in, \<open>sequence\<close> counts the accepted events, no event identifier is counted twice, and
  there are at most six events (so a run always ends or stays put).
\<close>
theorem apply_run_well_formed:
  "path_from apply_moves initial
      (map snd (am_event_states (apply_run (create_apply_machine initial app) calls))) \<and>
   am_current (apply_run (create_apply_machine initial app) calls) =
      last (initial # map snd (am_event_states (apply_run (create_apply_machine initial app) calls))) \<and>
   am_sequence (apply_run (create_apply_machine initial app) calls) =
      length (am_event_states (apply_run (create_apply_machine initial app) calls)) \<and>
   distinct (map fst (am_event_states (apply_run (create_apply_machine initial app) calls))) \<and>
   am_sequence (apply_run (create_apply_machine initial app) calls) \<le> 6"
proof -
  let ?m = "apply_run (create_apply_machine initial app) calls"
  have inv: "apply_inv initial ?m"
    by (intro apply_inv_run apply_inv_create)
  then have "length (map snd (am_event_states ?m)) \<le> apply_rank initial"
    by (intro apply_cycle.path_length) (simp add: apply_inv_def)
  also have "apply_rank initial \<le> 6" by (cases initial) simp_all
  finally show ?thesis using inv by (simp add: apply_inv_def)
qed

text \<open>
  C40. The agent's machine refines the API's: when the API's record of the change is in the
  matching state, every move the agent accepts as new is accepted by \<open>transitionChange\<close> for a
  request with the current version and fresh identifiers, and leads to the matching state again.
\<close>
theorem apply_refines_change:
  assumes "apply_transition m nxt eid = Inr m'" and "m' \<noteq> m"
    and "snapshot_ok s" and "ch_state s = to_change (am_current m)"
    and "req_to r = to_change nxt" and "expected_version r = ch_version s"
    and "uuid_pattern (req_transition_id r)" and "uuid_pattern (req_event_id r)"
    and "req_transition_id r \<notin> ev_transition_id ` set (ch_events s)"
    and "req_event_id r \<notin> ev_event_id ` set (ch_events s)"
    and "req_actor r \<noteq> []" and "date_ok (req_occurred_at r)"
  shows "\<exists>s'. transition_change date_ok s r = Inr s' \<and> ch_state s' = to_change (am_current m')"
  using assms(1)
proof (cases rule: apply_transition_cases)
  case replay
  with assms(2) show ?thesis by simp
next
  case fresh
  have "find (\<lambda>e. ev_transition_id e = req_transition_id r \<or> ev_event_id e = req_event_id r)
             (ch_events s) = None"
    using assms(9,10) by (rule find_none_image)
  moreover have "ch_state s \<notin> set terminal_change_states"
    using fresh(3) assms(4) change_terminal_to_change by (simp add: change_terminal_def)
  moreover have "req_to r \<in> set (legal_transitions (ch_state s))"
    using fresh(2) assms(4,5) by (simp add: legal_transitions_to_change)
  moreover have "is_safe_integer (ch_version s)"
    using assms(3) by (simp add: snapshot_ok_def is_safe_integer_def max_safe_integer_def)
  moreover have "validate_snapshot s = Inr ()"
    using assms(3) by (simp add: validate_snapshot_iff)
  ultimately show ?thesis
    using assms(5-8,11,12) fresh(5) by (simp add: transition_change_def)
qed

theorem apply_refines_change_witness:
  "\<exists>s'. transition_change (\<lambda>_. True) (sample_draft\<lparr>ch_state := APPLYING\<rparr>)
          (sample_request (CHR ''1'') SNAPSHOTTED 0) = Inr s' \<and> ch_state s' = SNAPSHOTTED"
proof -
  let ?m = "create_apply_machine Applying None"
  let ?m' = "?m\<lparr>am_current := Snapshotted, am_sequence := 1, am_event_states := [(''e'', Snapshotted)]\<rparr>"
  let ?s = "sample_draft\<lparr>ch_state := APPLYING\<rparr>"
  have tr: "apply_transition ?m Snapshotted ''e'' = Inr ?m'"
    by (simp add: apply_transition_def create_apply_machine_def apply_terminal_def)
  have ok: "snapshot_ok ?s"
    by (simp add: snapshot_ok_def sample_draft_def events_ok_def max_safe_integer_def)
  have uuid: "uuid_pattern (sample_uuid (CHR ''1''))" by code_simp
  have "\<exists>s'. transition_change (\<lambda>_. True) ?s (sample_request (CHR ''1'') SNAPSHOTTED 0) = Inr s' \<and>
             ch_state s' = to_change (am_current ?m')"
    by (rule apply_refines_change [OF tr _ ok])
      (use uuid in \<open>simp_all add: sample_request_def sample_draft_def create_apply_machine_def\<close>)
  then show ?thesis by simp
qed

end
