(* ===== verification/ApplyCoordinator.thy ===== *)
theory ApplyCoordinator
  imports ApplyMachine
begin

text \<open>
  The apply coordinator of the configuration agent:
  apps/config-agent/src/changes/applyCoordinator.ts.

  Everything the coordinator reaches through its \<open>dependencies\<close> is a program over a world of
  type \<open>'w\<close> that may throw; an absent optional dependency is \<open>None\<close>. A lock answers the program
  that releases it. The local variables of \<open>performApply\<close> and the set \<open>activeApplications\<close> are
  the record \<open>run_state\<close>, so that the \<open>catch\<close> block sees the assignments the \<open>try\<close> block made
  before it threw. Each dependency call is recorded in \<open>r_log\<close> with whether it returned; the log
  is not read by any definition of the model. A time is its milliseconds, and \<open>None\<close> where
  \<open>Date.parse\<close> answers NaN (every comparison with NaN is false). The calls of
  \<open>captureOpsException\<close> report to telemetry and are left out.
\<close>

section \<open>Data\<close>

datatype item_operation = SetValue | DeleteValue

record staged_item =
  it_source_id :: string
  it_name :: string
  it_ordinal :: int
  it_operation :: item_operation
  it_required :: bool
  it_value :: "string option"
  it_fingerprint :: string

record staged_change =
  sc_change_id :: string
  sc_app_id :: string
  sc_catalog_version :: string
  sc_manifest_version :: string
  sc_digest :: string
  sc_expires_at :: "millis option"
  sc_source_ids :: "string list"
  sc_action_ids :: "string list"
  sc_check_ids :: "string list"
  sc_items :: "staged_item list"

record snapshot_source =
  ss_source_id :: string
  ss_bytes :: string
  ss_uid :: nat
  ss_gid :: nat
  ss_mode :: nat

type_synonym snapshot_payload = "snapshot_source list"

record apply_event =
  ae_change_id :: string
  ae_run_id :: string
  ae_state :: apply_state
  ae_sequence :: nat
  ae_reason :: string

datatype coordinator_code =
    STAGED_CHANGE_NOT_FOUND | CHANGE_DIGEST_MISMATCH | STAGED_CHANGE_EXPIRED
  | APPLY_ALREADY_RUNNING | APPLY_PRECONDITION_FAILED | CONFIG_SOURCE_CHANGED | APPLY_FAILED

text \<open>
  What can be thrown: the coordinator's own error, an error of a dependency whose code is
  \<open>CONFIG_SOURCE_CHANGED\<close>, an error of the state machine, or any other error.
\<close>

datatype apply_exn =
    CoordinatorError coordinator_code bool
  | SourceChangedError
  | MachineError apply_machine_error
  | OtherError string

definition error_code :: "apply_exn \<Rightarrow> coordinator_code" where
  "error_code e =
     (case e of
        CoordinatorError c _ \<Rightarrow> c
      | SourceChangedError \<Rightarrow> CONFIG_SOURCE_CHANGED
      | _ \<Rightarrow> APPLY_FAILED)"

datatype apply_outcome = Outcome_completed | Outcome_rolled_back | Outcome_rollback_failed

record apply_result =
  ar_change_id :: string
  ar_run_id :: string
  ar_state :: apply_state
  ar_outcome :: apply_outcome

record apply_input =
  in_change_id :: string
  in_run_id :: string
  in_digest :: string

section \<open>Grouping the items by source\<close>

record write_operation =
  wo_name :: string
  wo_ordinal :: int
  wo_operation :: item_operation
  wo_required :: bool
  wo_value :: "string option"

record write_group =
  wg_fingerprint :: string
  wg_operations :: "write_operation list"

definition item_write :: "staged_item \<Rightarrow> write_operation" where
  "item_write i =
     \<lparr> wo_name = it_name i, wo_ordinal = it_ordinal i, wo_operation = it_operation i,
       wo_required = it_required i, wo_value = it_value i \<rparr>"

fun group_items ::
  "(string \<times> write_group) list \<Rightarrow> staged_item list \<Rightarrow> apply_exn + (string \<times> write_group) list" where
  "group_items groups [] = Inr groups"
| "group_items groups (i # items) =
     (let g = (case map_of groups (it_source_id i) of
                 Some g \<Rightarrow> g
               | None \<Rightarrow> \<lparr> wg_fingerprint = it_fingerprint i, wg_operations = [] \<rparr>)
      in if wg_fingerprint g \<noteq> it_fingerprint i
         then Inl (CoordinatorError CONFIG_SOURCE_CHANGED False)
         else group_items
                (AList.update (it_source_id i)
                   (g\<lparr>wg_operations := wg_operations g @ [item_write i]\<rparr>) groups)
                items)"

definition source_operations ::
  "staged_change \<Rightarrow> apply_exn + (string \<times> write_group) list" where
  "source_operations change = group_items [] (sc_items change)"

section \<open>Dependencies\<close>

type_synonym ('w, 'a) dep = "('w, apply_exn, 'a) prog"

record 'w snapshot_store =
  st_create :: "string \<Rightarrow> staged_change \<Rightarrow> snapshot_payload \<Rightarrow> ('w, unit) dep"
  st_mark_rollback_failed :: "string \<Rightarrow> ('w, unit) dep"

record 'w dependencies =
  d_now :: "'w \<Rightarrow> millis"
  d_read_staged :: "string \<Rightarrow> ('w, staged_change option) dep"
  d_capture_snapshot :: "staged_change \<Rightarrow> string \<Rightarrow> ('w, snapshot_payload) dep"
  d_persist_snapshot :: "(string \<Rightarrow> staged_change \<Rightarrow> snapshot_payload \<Rightarrow> ('w, unit) dep) option"
  d_snapshot_store :: "'w snapshot_store option"
  d_application_lock :: "(string \<Rightarrow> ('w, ('w, unit) dep) dep) option"
  d_source_lock :: "(string \<Rightarrow> ('w, ('w, unit) dep) dep) option"
  d_action_lock :: "(string \<Rightarrow> ('w, ('w, unit) dep) dep) option"
  d_write_source :: "string \<Rightarrow> write_group \<Rightarrow> ('w, unit) dep"
  d_run_action :: "string \<Rightarrow> string \<Rightarrow> ('w, unit) dep"
  d_rollback_action :: "(string \<Rightarrow> string \<Rightarrow> ('w, unit) dep) option"
  d_run_health :: "string \<Rightarrow> string list \<Rightarrow> ('w, bool) dep"
  d_restore_snapshot :: "staged_change \<Rightarrow> string \<Rightarrow> snapshot_payload \<Rightarrow> ('w, unit) dep"
  d_rollback_health :: "(string \<Rightarrow> string list \<Rightarrow> ('w, bool) dep) option"
  d_persist_event :: "apply_event \<Rightarrow> ('w, unit) dep"
  d_on_rollback_failed :: "(string \<Rightarrow> string \<Rightarrow> string \<Rightarrow> ('w, unit) dep) option"

datatype lock_name = Application_lock string | Source_lock string | Action_lock string

datatype dep_call =
    ReadStaged string | Acquire lock_name | Release lock_name
  | CaptureSnapshot | PersistSnapshot string | CreateSnapshot string
  | WriteSource string write_group | RunAction string | RunHealth
  | RestoreSnapshot snapshot_payload | RollbackAction string | RollbackHealth
  | PersistEvent apply_event | MarkRollbackFailed string | OnRollbackFailed

record 'w run_state =
  r_world :: 'w
  r_active :: "string list"
  r_log :: "(dep_call \<times> bool) list"
  r_snapshot :: "snapshot_payload option"
  r_write_started :: bool
  r_machine :: "apply_machine option"
  r_change :: "staged_change option"
  r_releases :: "(lock_name \<times> ('w, unit) dep) list"

type_synonym ('w, 'a) run_prog = "('w run_state, apply_exn, 'a) prog"

definition invoke :: "dep_call \<Rightarrow> ('w, 'a) dep \<Rightarrow> ('w, 'a) run_prog" where
  "invoke c f = (\<lambda>s. case f (r_world s) of
     (Inl e, w) \<Rightarrow> (Inl e, s\<lparr>r_world := w, r_log := r_log s @ [(c, False)]\<rparr>)
   | (Inr x, w) \<Rightarrow> (Inr x, s\<lparr>r_world := w, r_log := r_log s @ [(c, True)]\<rparr>))"

definition if_present :: "'x option \<Rightarrow> ('x \<Rightarrow> ('s, 'e, unit) prog) \<Rightarrow> ('s, 'e, unit) prog" where
  "if_present opt f = (case opt of None \<Rightarrow> ret () | Some x \<Rightarrow> f x)"

section \<open>Events\<close>

fun state_name :: "apply_state \<Rightarrow> string" where
  "state_name Applying = ''APPLYING''"
| "state_name Snapshotted = ''SNAPSHOTTED''"
| "state_name Written = ''WRITTEN''"
| "state_name Action_running = ''ACTION_RUNNING''"
| "state_name Health_checking = ''HEALTH_CHECKING''"
| "state_name Completed = ''COMPLETED''"
| "state_name Rolling_back = ''ROLLING_BACK''"
| "state_name Rolled_back = ''ROLLED_BACK''"
| "state_name Rollback_failed = ''ROLLBACK_FAILED''"

definition event_name :: "string \<Rightarrow> apply_state \<Rightarrow> nat \<Rightarrow> string" where
  "event_name rid st n = rid @ '':'' @ state_name st @ '':'' @ string_of_nat n"

text \<open>\<open>emit\<close>: it is called with the machine of the run, which is in \<open>r_machine\<close>.\<close>

definition emit ::
  "'w dependencies \<Rightarrow> string \<Rightarrow> string \<Rightarrow> apply_state \<Rightarrow> string \<Rightarrow> ('w, unit) run_prog" where
  "emit d cid rid st reason =
     bind_prog (gets r_machine) (\<lambda>mo.
       case mo of
         None \<Rightarrow> throw (OtherError ''machine'')
       | Some m \<Rightarrow>
           (case apply_transition m st (event_name rid st (am_sequence m + 1)) of
              Inl e \<Rightarrow> throw (MachineError e)
            | Inr m' \<Rightarrow>
                let ev = \<lparr> ae_change_id = cid, ae_run_id = rid, ae_state = st,
                           ae_sequence = am_sequence m', ae_reason = reason \<rparr>
                in then_prog (modify (\<lambda>s. s\<lparr>r_machine := Some m'\<rparr>))
                             (invoke (PersistEvent ev) (d_persist_event d ev))))"


section \<open>performApply\<close>

text \<open>
  The \<open>try\<close> block, in the order of the code. \<open>admit\<close> reads the staged change, checks it and
  enters the application in \<open>activeApplications\<close>; \<open>acquire\<close> pushes the release of a lock.
\<close>

definition acquire ::
  "(string \<Rightarrow> lock_name) \<Rightarrow> (string \<Rightarrow> ('w, ('w, unit) dep) dep) option \<Rightarrow> string
     \<Rightarrow> ('w, unit) run_prog" where
  "acquire name locks x =
     if_present locks (\<lambda>lock.
       bind_prog (invoke (Acquire (name x)) (lock x)) (\<lambda>release.
         modify (\<lambda>s. s\<lparr>r_releases := r_releases s @ [(name x, release)]\<rparr>)))"

definition expired :: "millis option \<Rightarrow> millis \<Rightarrow> bool" where
  "expired expires_at now = (case expires_at of None \<Rightarrow> False | Some t \<Rightarrow> t \<le> now)"

definition admit ::
  "'w dependencies \<Rightarrow> apply_input \<Rightarrow> ('w, staged_change) run_prog" where
  "admit d inp =
     bind_prog (invoke (ReadStaged (in_change_id inp)) (d_read_staged d (in_change_id inp)))
       (\<lambda>read. then_prog (modify (\<lambda>s. s\<lparr>r_change := read\<rparr>))
         (case read of
            None \<Rightarrow> throw (CoordinatorError STAGED_CHANGE_NOT_FOUND False)
          | Some change \<Rightarrow>
              bind_prog (gets (\<lambda>s. (d_now d (r_world s), r_active s))) (\<lambda>(now, active).
                if sc_digest change \<noteq> in_digest inp
                  then throw (CoordinatorError CHANGE_DIGEST_MISMATCH False)
                else if expired (sc_expires_at change) now
                  then throw (CoordinatorError STAGED_CHANGE_EXPIRED False)
                else if sc_app_id change \<in> set active
                  then throw (CoordinatorError APPLY_ALREADY_RUNNING False)
                else then_prog (modify (\<lambda>s. s\<lparr>r_active := sc_app_id change # r_active s\<rparr>))
                       (then_prog (acquire Application_lock (d_application_lock d) (sc_app_id change))
                         (ret change)))))"

definition applying_event :: "staged_change \<Rightarrow> string \<Rightarrow> apply_event" where
  "applying_event change rid =
     \<lparr> ae_change_id = sc_change_id change, ae_run_id = rid, ae_state = Applying,
       ae_sequence = 0, ae_reason = ''APPLY_STARTED'' \<rparr>"

definition start_machine :: "'w dependencies \<Rightarrow> apply_input \<Rightarrow> staged_change \<Rightarrow> ('w, unit) run_prog" where
  "start_machine d inp change =
     then_prog
       (modify (\<lambda>s. s\<lparr>r_machine := Some (create_apply_machine Applying (Some (sc_app_id change)))\<rparr>))
       (invoke (PersistEvent (applying_event change (in_run_id inp)))
          (d_persist_event d (applying_event change (in_run_id inp))))"

definition acquire_locks :: "'w dependencies \<Rightarrow> staged_change \<Rightarrow> ('w, unit) run_prog" where
  "acquire_locks d change =
     then_prog (for_each (sc_source_ids change) (acquire Source_lock (d_source_lock d)))
       (for_each (sc_action_ids change) (acquire Action_lock (d_action_lock d)))"

definition snapshot_id :: "apply_input \<Rightarrow> string" where
  "snapshot_id inp = ''SNAP_'' @ in_run_id inp"

definition take_snapshot ::
  "'w dependencies \<Rightarrow> apply_input \<Rightarrow> staged_change \<Rightarrow> ('w, unit) run_prog" where
  "take_snapshot d inp change =
     bind_prog (invoke CaptureSnapshot (d_capture_snapshot d change (in_run_id inp))) (\<lambda>snap.
       then_prog (modify (\<lambda>s. s\<lparr>r_snapshot := Some snap\<rparr>))
       (then_prog
         (case d_persist_snapshot d of
            Some persist \<Rightarrow>
              invoke (PersistSnapshot (snapshot_id inp)) (persist (snapshot_id inp) change snap)
          | None \<Rightarrow>
              if_present (d_snapshot_store d) (\<lambda>store.
                invoke (CreateSnapshot (snapshot_id inp))
                  (st_create store (snapshot_id inp) change snap)))
         (emit d (sc_change_id change) (in_run_id inp) Snapshotted ''SNAPSHOT_RECORDED'')))"

definition write_sources ::
  "'w dependencies \<Rightarrow> apply_input \<Rightarrow> staged_change \<Rightarrow> ('w, unit) run_prog" where
  "write_sources d inp change =
     then_prog
       (case source_operations change of
          Inl e \<Rightarrow> throw e
        | Inr groups \<Rightarrow>
            for_each groups (\<lambda>(src, g).
              then_prog (modify (\<lambda>s. s\<lparr>r_write_started := True\<rparr>))
                (invoke (WriteSource src g) (d_write_source d src g))))
       (emit d (sc_change_id change) (in_run_id inp) Written ''SOURCES_WRITTEN'')"

definition run_actions ::
  "'w dependencies \<Rightarrow> apply_input \<Rightarrow> staged_change \<Rightarrow> ('w, unit) run_prog" where
  "run_actions d inp change =
     then_prog (emit d (sc_change_id change) (in_run_id inp) Action_running ''ACTIONS_STARTED'')
       (for_each (sc_action_ids change) (\<lambda>a. invoke (RunAction a) (d_run_action d (in_run_id inp) a)))"

definition check_health ::
  "'w dependencies \<Rightarrow> apply_input \<Rightarrow> staged_change \<Rightarrow> ('w, unit) run_prog" where
  "check_health d inp change =
     then_prog (emit d (sc_change_id change) (in_run_id inp) Health_checking ''HEALTH_CHECKS_STARTED'')
       (bind_prog (invoke RunHealth (d_run_health d (in_run_id inp) (sc_check_ids change)))
          (\<lambda>passed. if \<not> passed then throw (CoordinatorError APPLY_FAILED False)
             else emit d (sc_change_id change) (in_run_id inp) Completed ''HEALTH_CHECKS_PASSED''))"

definition result_of ::
  "staged_change \<Rightarrow> apply_input \<Rightarrow> apply_state \<Rightarrow> apply_outcome \<Rightarrow> apply_result" where
  "result_of change inp st oc =
     \<lparr> ar_change_id = sc_change_id change, ar_run_id = in_run_id inp, ar_state = st,
       ar_outcome = oc \<rparr>"

definition try_block ::
  "'w dependencies \<Rightarrow> apply_input \<Rightarrow> ('w, apply_result) run_prog" where
  "try_block d inp =
     bind_prog (admit d inp) (\<lambda>change.
       then_prog (start_machine d inp change)
       (then_prog (acquire_locks d change)
       (then_prog (take_snapshot d inp change)
       (then_prog (write_sources d inp change)
       (then_prog (run_actions d inp change)
       (then_prog (check_health d inp change)
         (ret (result_of change inp Completed Outcome_completed))))))))"

text \<open>
  The \<open>catch\<close> block. \<open>ignore_error\<close> is a \<open>catch\<close> that does nothing; the two branches differ in
  whether something was written.
\<close>

definition ignore_error :: "('s, 'e, unit) prog \<Rightarrow> ('s, 'e, unit) prog" where
  "ignore_error m = catch_prog m (\<lambda>_. ret ())"

definition give_up ::
  "'w dependencies \<Rightarrow> apply_input \<Rightarrow> staged_change \<Rightarrow> ('w, apply_result) run_prog" where
  "give_up d inp change =
     then_prog
       (ignore_error (emit d (sc_change_id change) (in_run_id inp) Rollback_failed ''ROLLBACK_FAILED''))
       (then_prog
         (if_present (d_on_rollback_failed d) (\<lambda>notify.
            invoke OnRollbackFailed
              (notify (sc_change_id change) (in_run_id inp) (snapshot_id inp))))
         (ret (result_of change inp Rollback_failed Outcome_rollback_failed)))"

definition close_unwritten ::
  "'w dependencies \<Rightarrow> apply_input \<Rightarrow> staged_change \<Rightarrow> ('w, apply_result) run_prog" where
  "close_unwritten d inp change =
     catch_prog
       (then_prog (emit d (sc_change_id change) (in_run_id inp) Rolling_back ''ROLLBACK_NOT_REQUIRED'')
       (then_prog (emit d (sc_change_id change) (in_run_id inp) Rolled_back ''NO_WRITE_TO_ROLL_BACK'')
         (ret (result_of change inp Rolled_back Outcome_rolled_back))))
       (\<lambda>_. give_up d inp change)"

definition roll_back ::
  "'w dependencies \<Rightarrow> apply_input \<Rightarrow> staged_change \<Rightarrow> snapshot_payload \<Rightarrow> ('w, apply_result) run_prog" where
  "roll_back d inp change snap =
     catch_prog
       (then_prog (emit d (sc_change_id change) (in_run_id inp) Rolling_back ''ROLLBACK_STARTED'')
       (then_prog (invoke (RestoreSnapshot snap) (d_restore_snapshot d change (in_run_id inp) snap))
       (then_prog (for_each (sc_action_ids change) (\<lambda>a.
          if_present (d_rollback_action d) (\<lambda>undo.
            invoke (RollbackAction a) (undo (in_run_id inp) a))))
       (bind_prog
         (case d_rollback_health d of
            Some check \<Rightarrow> invoke RollbackHealth (check (in_run_id inp) (sc_check_ids change))
          | None \<Rightarrow> ret True)
         (\<lambda>passed. if \<not> passed then throw (CoordinatorError APPLY_FAILED False)
            else then_prog
              (emit d (sc_change_id change) (in_run_id inp) Rolled_back ''ROLLBACK_HEALTH_PASSED'')
              (ret (result_of change inp Rolled_back Outcome_rolled_back)))))))
       (\<lambda>_. then_prog
          (ignore_error (if_present (d_snapshot_store d) (\<lambda>store.
             invoke (MarkRollbackFailed (snapshot_id inp))
               (st_mark_rollback_failed store (snapshot_id inp)))))
          (give_up d inp change))"

definition catch_block ::
  "'w dependencies \<Rightarrow> apply_input \<Rightarrow> apply_exn \<Rightarrow> ('w, apply_result) run_prog" where
  "catch_block d inp e =
     bind_prog (gets (\<lambda>s. (r_change s, r_machine s, r_snapshot s, r_write_started s)))
       (\<lambda>(change, machine, snapshot, write_started).
         case change of
           None \<Rightarrow> throw (case e of CoordinatorError _ _ \<Rightarrow> e
                    | _ \<Rightarrow> CoordinatorError (if error_code e = CONFIG_SOURCE_CHANGED
                             then CONFIG_SOURCE_CHANGED else APPLY_PRECONDITION_FAILED) False)
         | Some c \<Rightarrow>
             if machine = None
             then throw (case e of CoordinatorError _ _ \<Rightarrow> e
                    | _ \<Rightarrow> CoordinatorError (if error_code e = CONFIG_SOURCE_CHANGED
                             then CONFIG_SOURCE_CHANGED else APPLY_PRECONDITION_FAILED) False)
             else (case snapshot of
                 None \<Rightarrow> close_unwritten d inp c
               | Some snap \<Rightarrow>
                   if \<not> write_started then close_unwritten d inp c
                   else roll_back d inp c snap))"

text \<open>The \<open>finally\<close> block: the locks are released last first, then the application leaves.\<close>

definition release_all :: "'w run_state \<Rightarrow> 'w run_state" where
  "release_all s =
     snd (for_each (rev (r_releases s))
            (\<lambda>(name, release). ignore_error (invoke (Release name) release)) s)"

definition leave :: "'w run_state \<Rightarrow> 'w run_state" where
  "leave s =
     (case r_change s of
        None \<Rightarrow> s
      | Some change \<Rightarrow> s\<lparr>r_active := removeAll (sc_app_id change) (r_active s)\<rparr>)"

definition perform_apply ::
  "'w dependencies \<Rightarrow> apply_input \<Rightarrow> ('w, apply_result) run_prog" where
  "perform_apply d inp =
     finally_prog (catch_prog (try_block d inp) (catch_block d inp)) (\<lambda>s. leave (release_all s))"

definition begin_run :: "'w \<Rightarrow> string list \<Rightarrow> 'w run_state" where
  "begin_run w active =
     \<lparr> r_world = w, r_active = active, r_log = [], r_snapshot = None, r_write_started = False,
       r_machine = None, r_change = None, r_releases = [] \<rparr>"

section \<open>apply and resume\<close>

text \<open>
  The closure state of \<open>createApplyCoordinator\<close> between runs: the applications that are active and
  the results by run. A run that threw leaves no result, so it can be tried again. (\<open>runs\<close> holds
  the runs in flight, which a call finds only while another is suspended.)
\<close>

record 'w coordinator =
  co_world :: 'w
  co_active :: "string list"
  co_results :: "(string \<times> apply_result) list"

definition apply_change ::
  "'w dependencies \<Rightarrow> apply_input \<Rightarrow> ('w coordinator, apply_exn, apply_result) prog" where
  "apply_change d inp c =
     (case map_of (co_results c) (in_run_id inp) of
        Some prior \<Rightarrow> (Inr prior, c)
      | None \<Rightarrow>
          (case perform_apply d inp (begin_run (co_world c) (co_active c)) of
             (Inl e, s) \<Rightarrow> (Inl e, c\<lparr>co_world := r_world s, co_active := r_active s\<rparr>)
           | (Inr res, s) \<Rightarrow>
               (Inr res, c\<lparr>co_world := r_world s, co_active := r_active s,
                           co_results := AList.update (in_run_id inp) res (co_results c)\<rparr>)))"

definition resume_change ::
  "'w dependencies \<Rightarrow> apply_input \<Rightarrow> ('w coordinator, apply_exn, apply_result) prog" where
  "resume_change d inp = apply_change d inp"


section \<open>Rules for dependency calls\<close>

lemma triple_invoke:
  assumes "\<And>s w x. P s \<Longrightarrow> Q x (s\<lparr>r_world := w, r_log := r_log s @ [(c, True)]\<rparr>)"
    and "\<And>s w e. P s \<Longrightarrow> E e (s\<lparr>r_world := w, r_log := r_log s @ [(c, False)]\<rparr>)"
  shows "triple P (invoke c f) Q E"
  using assms by (auto simp: triple_def invoke_def split: prod.splits sum.splits)

lemma keeps_invoke:
  assumes "\<And>s w ok. I s \<Longrightarrow> I (s\<lparr>r_world := w, r_log := r_log s @ [(c, ok)]\<rparr>)"
  shows "keeps I (invoke c f)"
  using assms by (auto simp: keeps_def invoke_def split: prod.splits sum.splits)

lemma keeps_if_present [keeps_intros]:
  "(\<And>x. opt = Some x \<Longrightarrow> keeps I (f x)) \<Longrightarrow> keeps I (if_present opt f)"
  by (simp add: if_present_def keeps_intros)

lemma keeps_ignore_error [keeps_intros]: "keeps I m \<Longrightarrow> keeps I (ignore_error m)"
  by (simp add: ignore_error_def keeps_intros)

lemmas run_defs =
  admit_def start_machine_def acquire_locks_def acquire_def take_snapshot_def write_sources_def
  run_actions_def check_health_def give_up_def close_unwritten_def roll_back_def

section \<open>Nothing is written before the snapshot is safe\<close>

fun is_write :: "dep_call \<Rightarrow> bool" where
  "is_write (WriteSource _ _) = True"
| "is_write _ = False"

definition snapshot_recorded :: "(dep_call \<times> bool) list \<Rightarrow> bool" where
  "snapshot_recorded log \<longleftrightarrow>
     (CaptureSnapshot, True) \<in> set log \<and>
     (\<exists>ev. ae_state ev = Snapshotted \<and> (PersistEvent ev, True) \<in> set log)"

definition writes_guarded :: "(dep_call \<times> bool) list \<Rightarrow> bool" where
  "writes_guarded log \<longleftrightarrow>
     (\<forall>pre c ok post. log = pre @ (c, ok) # post \<and> is_write c \<longrightarrow> snapshot_recorded pre)"

lemma writes_guarded_Nil [simp]: "writes_guarded []"
  by (simp add: writes_guarded_def)

lemma snoc_eq_append_Cons:
  "log @ [y] = pre @ x # post \<longleftrightarrow>
     (post = [] \<and> log = pre \<and> y = x) \<or> (\<exists>post'. post = post' @ [y] \<and> log = pre @ x # post')"
  by (cases post rule: rev_cases) auto

lemma writes_guarded_snoc [simp]:
  "writes_guarded (log @ [(c, ok)]) \<longleftrightarrow>
     writes_guarded log \<and> (is_write c \<longrightarrow> snapshot_recorded log)"
  unfolding writes_guarded_def snoc_eq_append_Cons by blast

lemma snapshot_recorded_snoc [intro]: "snapshot_recorded log \<Longrightarrow> snapshot_recorded (log @ [x])"
  by (auto simp: snapshot_recorded_def)

definition guarded_state :: "'w run_state \<Rightarrow> bool" where
  "guarded_state s \<longleftrightarrow> writes_guarded (r_log s)"

definition recorded_state :: "'w run_state \<Rightarrow> bool" where
  "recorded_state s \<longleftrightarrow> guarded_state s \<and> snapshot_recorded (r_log s)"

lemma keeps_guarded_invoke: "\<not> is_write c \<Longrightarrow> keeps guarded_state (invoke c f)"
  by (rule keeps_invoke) (simp add: guarded_state_def)

lemma keeps_recorded_invoke: "keeps recorded_state (invoke c f)"
  by (rule keeps_invoke) (auto simp: recorded_state_def guarded_state_def)

lemma keeps_guarded_modify:
  "(\<And>s. r_log (f s) = r_log s) \<Longrightarrow> keeps guarded_state (modify f)"
  by (rule keeps_modify) (simp add: guarded_state_def)

lemma keeps_recorded_modify:
  "(\<And>s. r_log (f s) = r_log s) \<Longrightarrow> keeps recorded_state (modify f)"
  by (rule keeps_modify) (simp add: recorded_state_def guarded_state_def)

lemma keeps_guarded_emit: "keeps guarded_state (emit d cid rid st reason)"
  by (auto simp: emit_def Let_def intro!: keeps_intros keeps_guarded_invoke keeps_guarded_modify)

lemma keeps_recorded_emit: "keeps recorded_state (emit d cid rid st reason)"
  by (auto simp: emit_def Let_def intro!: keeps_intros keeps_recorded_invoke keeps_recorded_modify)

lemmas guarded_keeps = keeps_intros keeps_guarded_invoke keeps_guarded_modify keeps_guarded_emit
lemmas recorded_keeps = keeps_intros keeps_recorded_invoke keeps_recorded_modify keeps_recorded_emit

lemma guarded_admit: "keeps guarded_state (admit d inp)"
  by (auto simp: run_defs intro!: guarded_keeps)

lemma guarded_start: "keeps guarded_state (start_machine d inp change)"
  by (auto simp: run_defs intro!: guarded_keeps)

lemma guarded_locks: "keeps guarded_state (acquire_locks d change)"
  by (auto simp: run_defs intro!: guarded_keeps)

lemma guarded_close: "keeps guarded_state (close_unwritten d inp change)"
  by (auto simp: run_defs intro!: guarded_keeps)

lemma guarded_roll_back: "keeps guarded_state (roll_back d inp change snap)"
  by (auto simp: run_defs intro!: guarded_keeps)

lemma guarded_catch: "keeps guarded_state (catch_block d inp e)"
  by (auto simp: catch_block_def intro!: keeps_intros guarded_close guarded_roll_back)

lemma recorded_write: "keeps recorded_state (write_sources d inp change)"
  by (auto simp: run_defs intro!: recorded_keeps)

lemma recorded_actions: "keeps recorded_state (run_actions d inp change)"
  by (auto simp: run_defs intro!: recorded_keeps)

lemma recorded_health: "keeps recorded_state (check_health d inp change)"
  by (auto simp: run_defs intro!: recorded_keeps)


definition captured_state :: "'w run_state \<Rightarrow> bool" where
  "captured_state s \<longleftrightarrow> guarded_state s \<and> (CaptureSnapshot, True) \<in> set (r_log s)"

lemma captured_emit:
  "triple captured_state (emit d cid rid Snapshotted reason) (\<lambda>_. recorded_state) (\<lambda>_. guarded_state)"
proof (rule tripleI)
  fix s :: "'a run_state"
  assume "captured_state s"
  then show "case emit d cid rid Snapshotted reason s of
      (Inl e, s') \<Rightarrow> guarded_state s' | (Inr x, s') \<Rightarrow> recorded_state s'"
    by (auto simp: emit_def bind_prog_def then_prog_def gets_def throw_def modify_def invoke_def
        Let_def captured_state_def guarded_state_def recorded_state_def snapshot_recorded_def
        split: option.splits sum.splits prod.splits)
      (metis (no_types, lifting) apply_event.select_convs(3))+
qed

lemma take_snapshot_recorded:
  "triple guarded_state (take_snapshot d inp change) (\<lambda>_. recorded_state) (\<lambda>_. guarded_state)"
proof -
  have capture: "triple guarded_state (invoke CaptureSnapshot f) (\<lambda>_. captured_state) (\<lambda>_. guarded_state)"
    for f :: "('a, snapshot_payload) dep"
    by (rule triple_invoke) (simp_all add: captured_state_def guarded_state_def)
  have set_snapshot: "triple captured_state (modify (\<lambda>s. s\<lparr>r_snapshot := Some snap\<rparr>))
      (\<lambda>_. captured_state) (\<lambda>_. guarded_state)" for snap :: snapshot_payload
    by (rule triple_modify) (simp add: captured_state_def guarded_state_def)
  have "keeps captured_state (invoke c f)" if "\<not> is_write c" for c and f :: "('a, unit) dep"
    using that by (intro keeps_invoke) (simp add: captured_state_def guarded_state_def)
  then have "keeps captured_state
     (case d_persist_snapshot d of
        Some persist \<Rightarrow>
          invoke (PersistSnapshot (snapshot_id inp)) (persist (snapshot_id inp) change snap)
      | None \<Rightarrow>
          if_present (d_snapshot_store d) (\<lambda>store.
            invoke (CreateSnapshot (snapshot_id inp))
              (st_create store (snapshot_id inp) change snap)))" for snap
    by (auto intro!: keeps_intros)
  then have stored: "triple captured_state
     (case d_persist_snapshot d of
        Some persist \<Rightarrow>
          invoke (PersistSnapshot (snapshot_id inp)) (persist (snapshot_id inp) change snap)
      | None \<Rightarrow>
          if_present (d_snapshot_store d) (\<lambda>store.
            invoke (CreateSnapshot (snapshot_id inp))
              (st_create store (snapshot_id inp) change snap))) (\<lambda>_. captured_state) (\<lambda>_. guarded_state)"
    for snap
    by (rule triple_weaken [OF keeps_triple]) (auto simp: captured_state_def)
  show ?thesis
    unfolding take_snapshot_def
    by (rule triple_bind [OF capture], rule triple_then [OF set_snapshot],
        rule triple_then [OF stored], rule captured_emit)
qed

lemma keeps_weaken:
  "keeps I m \<Longrightarrow> (\<And>s. P s \<Longrightarrow> I s) \<Longrightarrow> (\<And>s. I s \<Longrightarrow> R s) \<Longrightarrow>
     triple P m (\<lambda>_. I) (\<lambda>_. R)"
  by (rule triple_weaken [where P' = I and Q' = "\<lambda>_. I" and E' = "\<lambda>_. I"])
    (auto intro: keeps_triple)

lemma guarded_try:
  "triple guarded_state (try_block d inp) (\<lambda>_. guarded_state) (\<lambda>_. guarded_state)"
  unfolding try_block_def
proof (rule triple_bind [OF keeps_triple [OF guarded_admit]], rule triple_then, rule keeps_triple,
    rule guarded_start, rule triple_then, rule keeps_triple, rule guarded_locks, rule triple_then,
    rule take_snapshot_recorded)
  fix change
  have rec: "recorded_state s \<Longrightarrow> guarded_state s" for s :: "'a run_state"
    by (simp add: recorded_state_def)
  show "triple recorded_state
     (then_prog (write_sources d inp change)
       (then_prog (run_actions d inp change)
         (then_prog (check_health d inp change)
           (ret (result_of change inp Completed Outcome_completed)))))
     (\<lambda>_. guarded_state) (\<lambda>_. guarded_state)"
    by (rule triple_then [OF keeps_weaken [OF recorded_write]], assumption, erule rec,
        rule triple_then [OF keeps_weaken [OF recorded_actions]], assumption, erule rec,
        rule triple_then [OF keeps_weaken [OF recorded_health]], assumption, erule rec,
        rule triple_ret, erule rec)
qed

lemma keeps_release_all:
  assumes "\<And>name f. keeps I (invoke (Release name) (f :: ('w, unit) dep))"
  shows "I s \<Longrightarrow> I (release_all s)"
proof -
  have "keeps I (for_each (rev (r_releases s))
      (\<lambda>(name, release). ignore_error (invoke (Release name) release)))"
    by (auto intro!: keeps_intros assms)
  then show "I s \<Longrightarrow> I (release_all s)"
    by (simp add: keeps_def release_all_def)
qed

lemma leave_simps [simp]:
  "r_log (leave s) = r_log s" "r_change (leave s) = r_change s"
  "r_snapshot (leave s) = r_snapshot s" "r_write_started (leave s) = r_write_started s"
  "r_machine (leave s) = r_machine s" "r_releases (leave s) = r_releases s"
  "r_world (leave s) = r_world s"
  by (simp_all add: leave_def split: option.splits)

lemma guarded_perform: "keeps guarded_state (perform_apply d inp)"
  unfolding perform_apply_def
proof (rule keeps_finally)
  have "keeps guarded_state (try_block d inp)"
    by (rule triple_keeps, rule guarded_try)
  then show "keeps guarded_state (catch_prog (try_block d inp) (catch_block d inp))"
    by (intro keeps_catch guarded_catch)
next
  fix s :: "'a run_state"
  assume "guarded_state s"
  then have "guarded_state (release_all s)"
    by (rule keeps_release_all [rotated]) (simp add: keeps_guarded_invoke)
  then show "guarded_state (leave (release_all s))"
    by (simp add: guarded_state_def)
qed

section \<open>Example data for the witnesses\<close>

text \<open>Dependencies that succeed; \<open>healthy\<close> is what the health check answers.\<close>

definition sample_deps :: "bool \<Rightarrow> staged_change option \<Rightarrow> unit dependencies" where
  "sample_deps healthy change =
     \<lparr> d_now = (\<lambda>_. 0), d_read_staged = (\<lambda>_. ret change), d_capture_snapshot = (\<lambda>_ _. ret []),
       d_persist_snapshot = None, d_snapshot_store = None,
       d_application_lock = Some (\<lambda>_. ret (ret ())), d_source_lock = None, d_action_lock = None,
       d_write_source = (\<lambda>_ _. ret ()), d_run_action = (\<lambda>_ _. ret ()), d_rollback_action = None,
       d_run_health = (\<lambda>_ _. ret healthy), d_restore_snapshot = (\<lambda>_ _ _. ret ()),
       d_rollback_health = None, d_persist_event = (\<lambda>_. ret ()), d_on_rollback_failed = None \<rparr>"

definition sample_item :: staged_item where
  "sample_item =
     \<lparr> it_source_id = ''env'', it_name = ''PORT'', it_ordinal = 0, it_operation = SetValue,
       it_required = True, it_value = Some ''3000'', it_fingerprint = ''fp'' \<rparr>"

definition sample_change :: staged_change where
  "sample_change =
     \<lparr> sc_change_id = ''c'', sc_app_id = ''app'', sc_catalog_version = ''1'', sc_manifest_version = ''1'',
       sc_digest = ''d'', sc_expires_at = Some 10, sc_source_ids = [''env''], sc_action_ids = [''a''],
       sc_check_ids = [''h''], sc_items = [sample_item] \<rparr>"

definition sample_input :: apply_input where
  "sample_input = \<lparr> in_change_id = ''c'', in_run_id = ''r'', in_digest = ''d'' \<rparr>"

definition sample_run :: "bool \<Rightarrow> (apply_exn + apply_result) \<times> unit run_state" where
  "sample_run healthy =
     perform_apply (sample_deps healthy (Some sample_change)) sample_input (begin_run () [])"

definition sample_event :: "apply_state \<Rightarrow> nat \<Rightarrow> string \<Rightarrow> dep_call" where
  "sample_event st n reason =
     PersistEvent \<lparr> ae_change_id = ''c'', ae_run_id = ''r'', ae_state = st, ae_sequence = n,
                    ae_reason = reason \<rparr>"

definition sample_group :: write_group where
  "sample_group = \<lparr> wg_fingerprint = ''fp'', wg_operations = [item_write sample_item] \<rparr>"

lemma sample_log_healthy:
  "r_log (snd (sample_run True)) =
    [(ReadStaged ''c'', True), (Acquire (Application_lock ''app''), True),
     (sample_event Applying 0 ''APPLY_STARTED'', True), (CaptureSnapshot, True),
     (sample_event Snapshotted 1 ''SNAPSHOT_RECORDED'', True),
     (WriteSource ''env'' sample_group, True),
     (sample_event Written 2 ''SOURCES_WRITTEN'', True),
     (sample_event Action_running 3 ''ACTIONS_STARTED'', True), (RunAction ''a'', True),
     (sample_event Health_checking 4 ''HEALTH_CHECKS_STARTED'', True), (RunHealth, True),
     (sample_event Completed 5 ''HEALTH_CHECKS_PASSED'', True),
     (Release (Application_lock ''app''), True)]"
  by code_simp

lemma sample_log_unhealthy:
  "r_log (snd (sample_run False)) =
    [(ReadStaged ''c'', True), (Acquire (Application_lock ''app''), True),
     (sample_event Applying 0 ''APPLY_STARTED'', True), (CaptureSnapshot, True),
     (sample_event Snapshotted 1 ''SNAPSHOT_RECORDED'', True),
     (WriteSource ''env'' sample_group, True),
     (sample_event Written 2 ''SOURCES_WRITTEN'', True),
     (sample_event Action_running 3 ''ACTIONS_STARTED'', True), (RunAction ''a'', True),
     (sample_event Health_checking 4 ''HEALTH_CHECKS_STARTED'', True), (RunHealth, True),
     (sample_event Rolling_back 5 ''ROLLBACK_STARTED'', True), (RestoreSnapshot [], True),
     (sample_event Rolled_back 6 ''ROLLBACK_HEALTH_PASSED'', True),
     (Release (Application_lock ''app''), True)]"
  by code_simp

text \<open>
  C1. No source is written unless the snapshot has been captured and the event \<open>SNAPSHOTTED\<close> is
  in the journal: in the log of any run, whatever the dependencies answer or throw, every call
  of \<open>writeSource\<close> comes after a snapshot that was captured and recorded.
\<close>
theorem no_write_before_snapshot:
  assumes "perform_apply d inp (begin_run w active) = (r, s)"
    and "r_log s = pre @ (WriteSource src g, ok) # post"
  shows "(CaptureSnapshot, True) \<in> set pre \<and>
    (\<exists>ev. ae_state ev = Snapshotted \<and> (PersistEvent ev, True) \<in> set pre)"
proof -
  have "guarded_state (begin_run w active)"
    by (simp add: guarded_state_def begin_run_def)
  then have "guarded_state s"
    using guarded_perform assms(1) by (blast intro: keepsD)
  then show ?thesis
    using assms(2) by (fastforce simp: guarded_state_def writes_guarded_def snapshot_recorded_def)
qed


theorem no_write_before_snapshot_witness:
  "\<exists>pre src g ok post. r_log (snd (sample_run True)) = pre @ (WriteSource src g, ok) # post \<and>
     (CaptureSnapshot, True) \<in> set pre"
proof -
  obtain pre post where
    log: "r_log (snd (sample_run True)) = pre @ (WriteSource ''env'' sample_group, True) # post"
    unfolding sample_log_healthy
    by (rule that [of "take 5 (r_log (snd (sample_run True)))" "drop 6 (r_log (snd (sample_run True)))"])
      (simp add: sample_log_healthy)
  obtain r s where run: "sample_run True = (r, s)" by fastforce
  have "(CaptureSnapshot, True) \<in> set pre"
    using no_write_before_snapshot [OF run [unfolded sample_run_def]] log run by auto
  with log show ?thesis by blast
qed

end
