(* ===== verification/ApplyJournal.thy ===== *)
theory ApplyJournal
  imports ApplyCoordinator
begin

text \<open>
  The journal of a run of the apply coordinator: which events
  apps/config-agent/src/changes/applyCoordinator.ts hands to \<open>persistEvent\<close>, in which order and
  under which numbers, in every run, whatever the dependencies answer or throw.
\<close>

section \<open>Event identifiers\<close>

lemma state_name_no_colon: "CHR '':'' \<notin> set (state_name st)"
  by (cases st) simp_all

lemma state_name_inject: "state_name a = state_name b \<longleftrightarrow> a = b"
  by (cases a; cases b) simp_all

lemma split_at:
  "c \<notin> set a \<Longrightarrow> c \<notin> set b \<Longrightarrow> a @ c # x = b @ c # y \<longleftrightarrow> a = b \<and> x = y"
proof (induction a arbitrary: b)
  case Nil
  then show ?case by (cases b) auto
next
  case (Cons h a)
  then show ?case by (cases b) auto
qed

lemma event_name_inject:
  "event_name rid st n = event_name rid st' n' \<longleftrightarrow> st = st' \<and> n = n'"
  using split_at [of "CHR '':''" "state_name st" "state_name st'" "string_of_nat n" "string_of_nat n'"]
    state_name_no_colon
  by (auto simp: event_name_def state_name_inject)

section \<open>The journal of a run\<close>

fun persisted :: "(dep_call \<times> bool) list \<Rightarrow> apply_event list" where
  "persisted [] = []"
| "persisted ((c, ok) # log) =
     (case c of PersistEvent ev \<Rightarrow> ev # persisted log | _ \<Rightarrow> persisted log)"

lemma persisted_append [simp]: "persisted (xs @ ys) = persisted xs @ persisted ys"
  by (induction xs rule: persisted.induct) (auto split: dep_call.splits)

definition journal_ok :: "string \<Rightarrow> 'w run_state \<Rightarrow> bool" where
  "journal_ok rid s \<longleftrightarrow>
     (case r_machine s of
        None \<Rightarrow> persisted (r_log s) = []
      | Some m \<Rightarrow>
          apply_inv Applying m \<and>
          map ae_state (persisted (r_log s)) = Applying # map snd (am_event_states m) \<and>
          map ae_sequence (persisted (r_log s)) = [0 ..< Suc (am_sequence m)] \<and>
          (\<forall>ev \<in> set (persisted (r_log s)). ae_run_id ev = rid) \<and>
          (\<forall>k \<in> fst ` set (am_event_states m). \<exists>st. \<exists>j \<le> am_sequence m. k = event_name rid st j))"

definition not_started :: "'w run_state \<Rightarrow> bool" where
  "not_started s \<longleftrightarrow> r_machine s = None \<and> persisted (r_log s) = []"

definition same_journal :: "'w run_state \<Rightarrow> 'w run_state \<Rightarrow> bool" where
  "same_journal s t \<longleftrightarrow> r_machine t = r_machine s \<and> persisted (r_log t) = persisted (r_log s)"

lemma journal_ok_same: "same_journal s t \<Longrightarrow> journal_ok rid s \<Longrightarrow> journal_ok rid t"
  by (simp add: journal_ok_def same_journal_def split: option.splits)

lemma not_started_same: "same_journal s t \<Longrightarrow> not_started s \<Longrightarrow> not_started t"
  by (simp add: not_started_def same_journal_def)

lemma not_started_ok: "not_started s \<Longrightarrow> journal_ok rid s"
  by (simp add: not_started_def journal_ok_def)

fun is_event :: "dep_call \<Rightarrow> bool" where
  "is_event (PersistEvent _) = True"
| "is_event _ = False"

lemma persisted_other [simp]: "\<not> is_event c \<Longrightarrow> persisted [(c, ok)] = []"
  by (cases c) simp_all

lemma keeps_journal_invoke: "\<not> is_event c \<Longrightarrow> keeps (journal_ok rid) (invoke c f)"
  by (rule keeps_invoke, erule journal_ok_same [rotated], cases c) (simp_all add: same_journal_def)

lemma keeps_not_started_invoke: "\<not> is_event c \<Longrightarrow> keeps not_started (invoke c f)"
  by (rule keeps_invoke, erule not_started_same [rotated], cases c) (simp_all add: same_journal_def)

lemma keeps_journal_modify: "(\<And>s. same_journal s (f s)) \<Longrightarrow> keeps (journal_ok rid) (modify f)"
  by (rule keeps_modify) (rule journal_ok_same)

lemma keeps_not_started_modify: "(\<And>s. same_journal s (f s)) \<Longrightarrow> keeps not_started (modify f)"
  by (rule keeps_modify) (rule not_started_same)

text \<open>An identifier built for the next number is new, so \<open>emit\<close> is never a replay.\<close>

lemma next_event_name_fresh:
  assumes "\<forall>k \<in> fst ` set (am_event_states m). \<exists>st. \<exists>j \<le> am_sequence m. k = event_name rid st j"
  shows "map_of (am_event_states m) (event_name rid st (Suc (am_sequence m))) = None"
  using assms by (force simp: map_of_eq_None_iff event_name_inject)

definition next_apply_event ::
  "string \<Rightarrow> string \<Rightarrow> apply_machine \<Rightarrow> apply_state \<Rightarrow> string \<Rightarrow> apply_event" where
  "next_apply_event cid rid m st reason =
     \<lparr> ae_change_id = cid, ae_run_id = rid, ae_state = st, ae_sequence = Suc (am_sequence m),
       ae_reason = reason \<rparr>"

definition advance :: "string \<Rightarrow> apply_machine \<Rightarrow> apply_state \<Rightarrow> apply_machine" where
  "advance rid m st =
     m\<lparr>am_current := st, am_sequence := Suc (am_sequence m),
       am_event_states := am_event_states m @ [(event_name rid st (Suc (am_sequence m)), st)]\<rparr>"

text \<open>What \<open>emit\<close> does in a run: move and persist one event, or throw and change nothing.\<close>

lemma emit_cases:
  assumes "journal_ok rid s" and "r_machine s = Some m"
  shows "emit d cid rid st reason s =
    (if apply_terminal (am_current m) then (Inl (MachineError APPLY_STATE_TERMINAL), s)
     else if st \<notin> set (apply_moves (am_current m)) then (Inl (MachineError APPLY_TRANSITION_INVALID), s)
     else invoke (PersistEvent (next_apply_event cid rid m st reason))
            (d_persist_event d (next_apply_event cid rid m st reason))
            (s\<lparr>r_machine := Some (advance rid m st)\<rparr>))"
proof -
  have fresh: "map_of (am_event_states m) (event_name rid st (Suc (am_sequence m))) = None"
    using assms by (intro next_event_name_fresh) (simp add: journal_ok_def)
  have "event_name rid st (Suc (am_sequence m)) \<noteq> []"
    by (simp add: event_name_def)
  then show ?thesis
    using assms(2) fresh
    by (simp add: emit_def bind_prog_def then_prog_def gets_def throw_def modify_def Let_def
        apply_transition_def update_fresh next_apply_event_def advance_def)
qed

lemma journal_ok_advance:
  assumes "journal_ok rid s" and "r_machine s = Some m" and "st \<in> set (apply_moves (am_current m))"
  shows "journal_ok rid (s\<lparr>r_machine := Some (advance rid m st), r_world := w,
           r_log := r_log s @ [(PersistEvent (next_apply_event cid rid m st reason), ok)]\<rparr>)"
proof -
  have fresh: "event_name rid st (Suc (am_sequence m)) \<notin> fst ` set (am_event_states m)"
    using assms(1,2) next_event_name_fresh [of m rid st]
    by (simp add: journal_ok_def map_of_eq_None_iff)
  have inv: "apply_inv Applying (advance rid m st)"
    using assms fresh by (simp add: journal_ok_def apply_inv_def advance_def path_from_snoc)
  have keys: "\<forall>k \<in> fst ` set (am_event_states (advance rid m st)).
      \<exists>st'. \<exists>j \<le> am_sequence (advance rid m st). k = event_name rid st' j"
  proof
    fix k
    assume "k \<in> fst ` set (am_event_states (advance rid m st))"
    then consider "k \<in> fst ` set (am_event_states m)" | "k = event_name rid st (Suc (am_sequence m))"
      by (auto simp: advance_def)
    then show "\<exists>st'. \<exists>j \<le> am_sequence (advance rid m st). k = event_name rid st' j"
    proof cases
      case 1
      then obtain st' j where "j \<le> am_sequence m" and "k = event_name rid st' j"
        using assms(1,2) by (auto simp: journal_ok_def)
      then show ?thesis by (intro exI [of _ st'] exI [of _ j]) (simp add: advance_def)
    next
      case 2
      then show ?thesis
        by (intro exI [of _ st] exI [of _ "Suc (am_sequence m)"]) (simp add: advance_def)
    qed
  qed
  from assms(1,2) have
    "map ae_state (persisted (r_log s)) = Applying # map snd (am_event_states m)"
    "map ae_sequence (persisted (r_log s)) = [0 ..< Suc (am_sequence m)]"
    "\<forall>ev \<in> set (persisted (r_log s)). ae_run_id ev = rid"
    by (simp_all add: journal_ok_def)
  with inv keys show ?thesis
    by (simp add: journal_ok_def next_apply_event_def) (simp add: advance_def)
qed

lemma keeps_journal_emit: "keeps (journal_ok rid) (emit d cid rid st reason)"
  unfolding keeps_def
proof (intro allI impI)
  fix s :: "'a run_state"
  assume ok: "journal_ok rid s"
  show "journal_ok rid (snd (emit d cid rid st reason s))"
  proof (cases "r_machine s")
    case None
    then show ?thesis
      using ok by (simp add: emit_def bind_prog_def gets_def throw_def)
  next
    case (Some m)
    show ?thesis
      using ok Some journal_ok_advance [OF ok Some]
      by (auto simp: emit_cases invoke_def split: prod.splits sum.splits)
  qed
qed


section \<open>Every phase keeps the journal\<close>

lemma same_journal_simps [simp]:
  "same_journal s (s\<lparr>r_change := c\<rparr>)" "same_journal s (s\<lparr>r_active := a\<rparr>)"
  "same_journal s (s\<lparr>r_releases := l\<rparr>)" "same_journal s (s\<lparr>r_snapshot := x\<rparr>)"
  "same_journal s (s\<lparr>r_write_started := b\<rparr>)"
  by (simp_all add: same_journal_def)

lemmas journal_keeps = keeps_intros keeps_journal_invoke keeps_journal_modify keeps_journal_emit
lemmas not_started_keeps = keeps_intros keeps_not_started_invoke keeps_not_started_modify

lemma not_started_admit: "keeps not_started (admit d inp)"
  by (auto simp: run_defs intro!: not_started_keeps)

lemma journal_start:
  "triple not_started (start_machine d inp change) (\<lambda>_. journal_ok (in_run_id inp))
     (\<lambda>_. journal_ok (in_run_id inp))"
  by (auto simp: triple_def start_machine_def then_prog_def bind_prog_def modify_def invoke_def
      not_started_def journal_ok_def create_apply_machine_def applying_event_def apply_inv_def
      split: prod.splits sum.splits)

lemma journal_locks: "keeps (journal_ok rid) (acquire_locks d change)"
  by (auto simp: run_defs intro!: journal_keeps)

lemma journal_snapshot: "keeps (journal_ok (in_run_id inp)) (take_snapshot d inp change)"
  by (auto simp: run_defs intro!: journal_keeps)

lemma journal_write: "keeps (journal_ok (in_run_id inp)) (write_sources d inp change)"
  by (auto simp: run_defs intro!: journal_keeps)

lemma journal_actions: "keeps (journal_ok (in_run_id inp)) (run_actions d inp change)"
  by (auto simp: run_defs intro!: journal_keeps)

lemma journal_health: "keeps (journal_ok (in_run_id inp)) (check_health d inp change)"
  by (auto simp: run_defs intro!: journal_keeps)

lemma journal_close: "keeps (journal_ok (in_run_id inp)) (close_unwritten d inp change)"
  by (auto simp: run_defs intro!: journal_keeps)

lemma journal_roll_back: "keeps (journal_ok (in_run_id inp)) (roll_back d inp change snap)"
  by (auto simp: run_defs intro!: journal_keeps)

lemma journal_catch: "keeps (journal_ok (in_run_id inp)) (catch_block d inp e)"
  by (auto simp: catch_block_def intro!: keeps_intros journal_close journal_roll_back)

lemma journal_try:
  "triple not_started (try_block d inp) (\<lambda>_. journal_ok (in_run_id inp))
     (\<lambda>_. journal_ok (in_run_id inp))"
proof -
  let ?I = "journal_ok (in_run_id inp)"
  have admit: "triple not_started (admit d inp) (\<lambda>_. not_started) (\<lambda>_. ?I)"
    by (rule triple_weaken [OF keeps_triple [OF not_started_admit]]) (auto intro: not_started_ok)
  have rest: "keeps ?I
      (then_prog (acquire_locks d change)
       (then_prog (take_snapshot d inp change)
       (then_prog (write_sources d inp change)
       (then_prog (run_actions d inp change)
       (then_prog (check_health d inp change)
         (ret (result_of change inp Completed Outcome_completed)))))))" for change
    by (intro keeps_intros journal_locks journal_snapshot journal_write journal_actions journal_health)
  show ?thesis
    unfolding try_block_def
    by (rule triple_bind [OF admit], rule triple_then [OF journal_start], rule keeps_triple, rule rest)
qed

lemma journal_release_all: "journal_ok rid s \<Longrightarrow> journal_ok rid (release_all s)"
  by (rule keeps_release_all) (auto intro: keeps_journal_invoke)

lemma journal_perform:
  assumes "perform_apply d inp (begin_run w active) = (r, s)"
  shows "journal_ok (in_run_id inp) s"
proof -
  have "triple not_started (catch_prog (try_block d inp) (catch_block d inp))
      (\<lambda>_. journal_ok (in_run_id inp)) (\<lambda>_. journal_ok (in_run_id inp))"
    by (rule triple_catch [OF journal_try]) (rule keeps_triple [OF journal_catch])
  moreover have "not_started (begin_run w active)"
    by (simp add: not_started_def begin_run_def)
  moreover obtain r' s' where body:
    "catch_prog (try_block d inp) (catch_block d inp) (begin_run w active) = (r', s')"
    by fastforce
  ultimately have "journal_ok (in_run_id inp) s'"
    by (cases r') (auto dest: triple_returns triple_throws)
  then have "journal_ok (in_run_id inp) (release_all s')"
    by (rule journal_release_all)
  moreover have "s = leave (release_all s')"
    using assms body by (simp add: perform_apply_def finally_prog_def)
  ultimately show ?thesis
    by (auto intro: journal_ok_same simp: same_journal_def)
qed

section \<open>Properties\<close>

text \<open>
  C4. The journal of every run is well formed. The events handed to \<open>persistEvent\<close>, successfully or
  not, carry the run's identifier and the numbers 0, 1, 2, ...; their states start at \<open>APPLYING\<close>
  and follow the table of the state machine; and there are at most seven.
\<close>
theorem run_journal_well_formed:
  assumes "perform_apply d inp (begin_run w active) = (r, s)"
  shows "persisted (r_log s) = [] \<or>
    (\<exists>states. map ae_state (persisted (r_log s)) = Applying # states \<and>
       path_from apply_moves Applying states \<and>
       map ae_sequence (persisted (r_log s)) = [0 ..< length (persisted (r_log s))] \<and>
       (\<forall>ev \<in> set (persisted (r_log s)). ae_run_id ev = in_run_id inp) \<and>
       length (persisted (r_log s)) \<le> 7)"
proof (cases "r_machine s")
  case None
  then show ?thesis
    using journal_perform [OF assms] by (simp add: journal_ok_def)
next
  case (Some m)
  let ?states = "map snd (am_event_states m)"
  have ok: "apply_inv Applying m" "map ae_state (persisted (r_log s)) = Applying # ?states"
    "map ae_sequence (persisted (r_log s)) = [0 ..< Suc (am_sequence m)]"
    "\<forall>ev \<in> set (persisted (r_log s)). ae_run_id ev = in_run_id inp"
    using journal_perform [OF assms] Some by (simp_all add: journal_ok_def)
  have path: "path_from apply_moves Applying ?states"
    using ok(1) by (simp add: apply_inv_def)
  then have "length ?states \<le> 6"
    using apply_cycle.path_length by fastforce
  moreover have len: "length (persisted (r_log s)) = Suc (length ?states)"
    using arg_cong [OF ok(2), of length] by simp
  moreover have "Suc (am_sequence m) = length (persisted (r_log s))"
    using arg_cong [OF ok(3), of length] by simp
  ultimately show ?thesis using ok path by auto
qed


theorem run_journal_well_formed_witness:
  "persisted (r_log (snd (sample_run True))) \<noteq> [] \<and>
   length (persisted (r_log (snd (sample_run True)))) \<le> 7"
proof -
  obtain r s where run: "sample_run True = (r, s)" by fastforce
  have "persisted (r_log (snd (sample_run True))) \<noteq> []"
    unfolding sample_log_healthy by (simp add: sample_event_def)
  then show ?thesis
    using run_journal_well_formed [OF run [unfolded sample_run_def]] run by auto
qed

end
