(* ===== verification/ApplyOutcome.thy ===== *)
theory ApplyOutcome
  imports ApplyJournal
begin

text \<open>
  What the answer of a run of the apply coordinator promises
  (apps/config-agent/src/changes/applyCoordinator.ts): a completed run did everything once and in
  order, a rolled back run either wrote nothing or restored its snapshot after the last write,
  every lock is released, and what becomes of the set of active applications.
\<close>

section \<open>Rolled back\<close>

definition unwritten :: "(dep_call \<times> bool) list \<Rightarrow> bool" where
  "unwritten log \<longleftrightarrow> (\<forall>(c, ok) \<in> set log. \<not> is_write c)"

lemma unwritten_snoc [simp]: "unwritten (log @ [(c, ok)]) \<longleftrightarrow> unwritten log \<and> \<not> is_write c"
  by (auto simp: unwritten_def)

lemma unwritten_Nil [simp]: "unwritten []"
  by (simp add: unwritten_def)

definition write_flags :: "'w run_state \<Rightarrow> bool" where
  "write_flags s \<longleftrightarrow> unwritten (r_log s) \<or> (r_write_started s \<and> r_snapshot s \<noteq> None)"

definition write_ready :: "'w run_state \<Rightarrow> bool" where
  "write_ready s \<longleftrightarrow> write_flags s \<and> r_snapshot s \<noteq> None"

definition nothing_written :: "'w run_state \<Rightarrow> bool" where
  "nothing_written s \<longleftrightarrow> unwritten (r_log s)"

lemma keeps_flags_invoke: "\<not> is_write c \<Longrightarrow> keeps write_flags (invoke c f)"
  by (rule keeps_invoke) (auto simp: write_flags_def)

lemma keeps_ready_invoke: "\<not> is_write c \<Longrightarrow> keeps write_ready (invoke c f)"
  by (rule keeps_invoke) (auto simp: write_ready_def write_flags_def)

lemma keeps_nothing_invoke: "\<not> is_write c \<Longrightarrow> keeps nothing_written (invoke c f)"
  by (rule keeps_invoke) (simp add: nothing_written_def)

lemma keeps_flags_modify:
  "(\<And>s. r_log (f s) = r_log s \<and> (r_write_started s \<longrightarrow> r_write_started (f s)) \<and>
        (r_snapshot s \<noteq> None \<longrightarrow> r_snapshot (f s) \<noteq> None)) \<Longrightarrow> keeps write_flags (modify f)"
  by (rule keeps_modify) (auto simp: write_flags_def)

lemma keeps_ready_modify:
  "(\<And>s. r_log (f s) = r_log s \<and> (r_write_started s \<longrightarrow> r_write_started (f s)) \<and>
        (r_snapshot s \<noteq> None \<longrightarrow> r_snapshot (f s) \<noteq> None)) \<Longrightarrow> keeps write_ready (modify f)"
  by (rule keeps_modify) (auto simp: write_ready_def write_flags_def)

lemma keeps_nothing_modify:
  "(\<And>s. r_log (f s) = r_log s) \<Longrightarrow> keeps nothing_written (modify f)"
  by (rule keeps_modify) (simp add: nothing_written_def)

lemma keeps_flags_emit: "keeps write_flags (emit d cid rid st reason)"
  by (auto simp: emit_def Let_def intro!: keeps_intros keeps_flags_invoke keeps_flags_modify)

lemma keeps_ready_emit: "keeps write_ready (emit d cid rid st reason)"
  by (auto simp: emit_def Let_def intro!: keeps_intros keeps_ready_invoke keeps_ready_modify)

lemma keeps_nothing_emit: "keeps nothing_written (emit d cid rid st reason)"
  by (auto simp: emit_def Let_def intro!: keeps_intros keeps_nothing_invoke keeps_nothing_modify)

lemmas flags_keeps = keeps_intros keeps_flags_invoke keeps_flags_modify keeps_flags_emit
lemmas ready_keeps = keeps_intros keeps_ready_invoke keeps_ready_modify keeps_ready_emit
lemmas nothing_keeps = keeps_intros keeps_nothing_invoke keeps_nothing_modify keeps_nothing_emit

lemma flags_admit: "keeps write_flags (admit d inp)"
  by (auto simp: run_defs intro!: flags_keeps)

lemma flags_start: "keeps write_flags (start_machine d inp change)"
  by (auto simp: run_defs intro!: flags_keeps)

lemma flags_locks: "keeps write_flags (acquire_locks d change)"
  by (auto simp: run_defs intro!: flags_keeps)

lemma ready_write: "keeps write_ready (write_sources d inp change)"
proof -
  have one: "keeps write_ready
     (then_prog (modify (\<lambda>s. s\<lparr>r_write_started := True\<rparr>)) (invoke (WriteSource src g) f))"
    for src g and f :: "('a, unit) dep"
    by (auto simp: keeps_def then_prog_def bind_prog_def modify_def invoke_def write_ready_def
        write_flags_def split: prod.splits sum.splits)
  show ?thesis
    by (auto simp: write_sources_def intro!: ready_keeps one)
qed

lemma ready_actions: "keeps write_ready (run_actions d inp change)"
  by (auto simp: run_defs intro!: ready_keeps)

lemma ready_health: "keeps write_ready (check_health d inp change)"
  by (auto simp: run_defs intro!: ready_keeps)

lemma nothing_close: "keeps nothing_written (close_unwritten d inp change)"
  by (auto simp: run_defs intro!: nothing_keeps)

lemma take_snapshot_ready:
  "triple write_flags (take_snapshot d inp change) (\<lambda>_. write_ready) (\<lambda>_. write_flags)"
proof -
  have snap: "triple write_flags (modify (\<lambda>s. s\<lparr>r_snapshot := Some x\<rparr>)) (\<lambda>_. write_ready)
      (\<lambda>_. write_flags)" for x
    by (rule triple_modify) (auto simp: write_ready_def write_flags_def)
  have rest: "keeps write_ready
     (then_prog
       (case d_persist_snapshot d of
          Some persist \<Rightarrow> invoke (PersistSnapshot (snapshot_id inp)) (persist (snapshot_id inp) change x)
        | None \<Rightarrow> if_present (d_snapshot_store d) (\<lambda>store.
            invoke (CreateSnapshot (snapshot_id inp)) (st_create store (snapshot_id inp) change x)))
       (emit d (sc_change_id change) (in_run_id inp) Snapshotted ''SNAPSHOT_RECORDED''))" for x
    by (auto intro!: ready_keeps)
  show ?thesis
    unfolding take_snapshot_def
    by (rule triple_bind [OF keeps_triple], rule keeps_flags_invoke, simp,
        rule triple_then [OF snap], rule keeps_weaken [OF rest]) (auto simp: write_ready_def)
qed

lemma ready_flags: "write_ready s \<Longrightarrow> write_flags s"
  by (simp add: write_ready_def)

lemma flags_try: "triple write_flags (try_block d inp) (\<lambda>_. write_flags) (\<lambda>_. write_flags)"
  unfolding try_block_def
  by (rule triple_bind [OF keeps_triple [OF flags_admit]],
      rule triple_then [OF keeps_triple [OF flags_start]],
      rule triple_then [OF keeps_triple [OF flags_locks]],
      rule triple_then [OF take_snapshot_ready],
      rule triple_then [OF keeps_weaken [OF ready_write]], assumption, erule ready_flags,
      rule triple_then [OF keeps_weaken [OF ready_actions]], assumption, erule ready_flags,
      rule triple_then [OF keeps_weaken [OF ready_health]], assumption, erule ready_flags,
      rule triple_ret, erule ready_flags)

text \<open>The snapshot was restored after the last write.\<close>

definition restored :: "snapshot_payload \<Rightarrow> (dep_call \<times> bool) list \<Rightarrow> bool" where
  "restored snap log \<longleftrightarrow>
     (\<exists>pre post. log = pre @ (RestoreSnapshot snap, True) # post \<and> unwritten post)"

lemma restored_snoc: "restored snap log \<Longrightarrow> \<not> is_write c \<Longrightarrow> restored snap (log @ [(c, ok)])"
  by (fastforce simp: restored_def)

lemma restored_now: "restored snap (log @ [(RestoreSnapshot snap, True)])"
  unfolding restored_def by (rule exI [of _ log], rule exI [of _ "[]"]) simp

definition restored_state :: "snapshot_payload \<Rightarrow> 'w run_state \<Rightarrow> bool" where
  "restored_state snap s \<longleftrightarrow> r_snapshot s = Some snap \<and> restored snap (r_log s)"

lemma keeps_restored_invoke: "\<not> is_write c \<Longrightarrow> keeps (restored_state snap) (invoke c f)"
  by (rule keeps_invoke) (auto simp: restored_state_def intro: restored_snoc)

lemma keeps_restored_modify:
  "(\<And>s. r_log (f s) = r_log s \<and> r_snapshot (f s) = r_snapshot s) \<Longrightarrow>
     keeps (restored_state snap) (modify f)"
  by (rule keeps_modify) (simp add: restored_state_def)

lemma keeps_restored_emit: "keeps (restored_state snap) (emit d cid rid st reason)"
  by (auto simp: emit_def Let_def intro!: keeps_intros keeps_restored_invoke keeps_restored_modify)

lemmas restored_keeps =
  keeps_intros keeps_restored_invoke keeps_restored_modify keeps_restored_emit

definition has_snapshot :: "snapshot_payload \<Rightarrow> 'w run_state \<Rightarrow> bool" where
  "has_snapshot snap s \<longleftrightarrow> r_snapshot s = Some snap"

lemma keeps_has_snapshot_emit: "keeps (has_snapshot snap) (emit d cid rid st reason)"
  by (auto simp: emit_def Let_def has_snapshot_def intro!: keeps_intros keeps_invoke keeps_modify)

lemma give_up_outcome:
  "triple P (give_up d inp change) (\<lambda>res _. ar_outcome res = Outcome_rollback_failed) (\<lambda>_ _. True)"
proof -
  show ?thesis
    unfolding give_up_def
    by (rule triple_weaken [where P' = "\<lambda>_. True"], rule triple_then [OF triple_any],
        rule triple_then [OF triple_any], rule triple_ret) (auto simp: result_of_def)
qed

lemma roll_back_restores:
  "triple (has_snapshot snap) (roll_back d inp change snap)
     (\<lambda>res s. ar_outcome res = Outcome_rolled_back \<longrightarrow> restored_state snap s) (\<lambda>_ _. True)"
proof -
  let ?T = "\<lambda>_ _. True"
  have emit: "triple (has_snapshot snap) (emit d (sc_change_id change) (in_run_id inp) Rolling_back
      ''ROLLBACK_STARTED'') (\<lambda>_. has_snapshot snap) ?T"
    by (rule keeps_weaken [OF keeps_has_snapshot_emit, where R = "\<lambda>_. True"]) auto
  have restore: "triple (has_snapshot snap) (invoke (RestoreSnapshot snap) f)
      (\<lambda>_. restored_state snap) ?T" for f :: "('a, unit) dep"
    by (rule triple_invoke) (auto simp: has_snapshot_def restored_state_def restored_now)
  have undo: "keeps (restored_state snap) (for_each (sc_action_ids change) (\<lambda>a.
      if_present (d_rollback_action d) (\<lambda>undo. invoke (RollbackAction a) (undo (in_run_id inp) a))))"
    by (auto intro!: restored_keeps)
  have close: "keeps (restored_state snap)
      (bind_prog
         (case d_rollback_health d of
            Some check \<Rightarrow> invoke RollbackHealth (check (in_run_id inp) (sc_check_ids change))
          | None \<Rightarrow> ret True)
         (\<lambda>passed. if \<not> passed then throw (CoordinatorError APPLY_FAILED False)
            else then_prog
              (emit d (sc_change_id change) (in_run_id inp) Rolled_back ''ROLLBACK_HEALTH_PASSED'')
              (ret (result_of change inp Rolled_back Outcome_rolled_back))))"
    by (auto intro!: restored_keeps)
  show ?thesis
    unfolding roll_back_def
    by (rule triple_catch, rule triple_then [OF emit], rule triple_then [OF restore],
        rule triple_then [OF keeps_weaken [OF undo]], assumption, simp,
        rule triple_weaken [OF keeps_triple [OF close]], assumption, simp, simp,
        rule triple_then [OF triple_any], rule triple_weaken [OF give_up_outcome]) auto
qed


definition settled_state :: "apply_result \<Rightarrow> 'w run_state \<Rightarrow> bool" where
  "settled_state res s \<longleftrightarrow>
     (ar_outcome res = Outcome_rolled_back \<longrightarrow>
        unwritten (r_log s) \<or> (\<exists>snap. r_snapshot s = Some snap \<and> restored snap (r_log s)))"

lemma settled_catch:
  "triple write_flags (catch_block d inp e) settled_state (\<lambda>_ _. True)"
proof (rule tripleI)
  fix s :: "'a run_state"
  assume flags: "write_flags s"
  have closed: "settled_state res s'"
    if "close_unwritten d inp c s = (Inr res, s')" and "unwritten (r_log s)" for c res s'
    using that keepsD [OF nothing_close, of s] by (simp add: nothing_written_def settled_state_def)
  have rolled: "settled_state res s'"
    if "roll_back d inp c snap s = (Inr res, s')" and "r_snapshot s = Some snap" for c snap res s'
    using that triple_returns [OF roll_back_restores, of snap s]
    by (auto simp: has_snapshot_def restored_state_def settled_state_def)
  show "case catch_block d inp e s of (Inl e', s') \<Rightarrow> True | (Inr res, s') \<Rightarrow> settled_state res s'"
    using flags closed rolled
    by (auto simp: catch_block_def bind_prog_def gets_def throw_def write_flags_def
        split: option.splits prod.splits sum.splits)
qed

lemma settled_body:
  "triple write_flags (catch_prog (try_block d inp) (catch_block d inp)) settled_state (\<lambda>_ _. True)"
proof (rule triple_catch [OF _ settled_catch])
  have "triple write_flags (try_block d inp) (\<lambda>res _. ar_outcome res = Outcome_completed) (\<lambda>_ _. True)"
    by (auto simp: triple_def try_block_def bind_prog_def then_prog_def ret_def result_of_def
        split: prod.splits sum.splits)
  moreover note flags_try
  ultimately show "triple write_flags (try_block d inp) settled_state (\<lambda>_. write_flags)"
    by (fastforce simp: triple_def settled_state_def split: prod.splits sum.splits)
qed

lemma keeps_settled_release:
  "settled_state res s \<Longrightarrow> settled_state res (release_all s)"
proof (rule keeps_release_all [where I = "settled_state res"])
  show "keeps (settled_state res) (invoke (Release name) f)" for name and f :: "('a, unit) dep"
    proof (rule keeps_invoke)
    fix s :: "'a run_state" and w ok
    have "restored snap (r_log s) \<Longrightarrow> restored snap (r_log s @ [(Release name, ok)])" for snap
      by (rule restored_snoc) simp_all
    then show "settled_state res s \<Longrightarrow>
        settled_state res (s\<lparr>r_world := w, r_log := r_log s @ [(Release name, ok)]\<rparr>)"
      unfolding settled_state_def by auto
  qed
qed

text \<open>How a run is made of its body and its \<open>finally\<close> block.\<close>

lemma perform_apply_body:
  assumes "perform_apply d inp s0 = (r, s)"
  obtains s' where "catch_prog (try_block d inp) (catch_block d inp) s0 = (r, s')"
    and "s = leave (release_all s')"
  using assms by (auto simp: perform_apply_def finally_prog_def split: prod.splits)

text \<open>
  C3. A run that answers \<open>rolled_back\<close> left nothing half written: either no call of \<open>writeSource\<close>
  was made, or the snapshot taken by this run was restored successfully and nothing was written
  after that.
\<close>
theorem rolled_back_is_clean:
  assumes "perform_apply d inp (begin_run w active) = (Inr res, s)"
    and "ar_outcome res = Outcome_rolled_back"
  shows "(\<forall>(c, ok) \<in> set (r_log s). \<not> is_write c) \<or>
    (\<exists>snap pre post. r_snapshot s = Some snap \<and>
       r_log s = pre @ (RestoreSnapshot snap, True) # post \<and>
       (\<forall>(c, ok) \<in> set post. \<not> is_write c))"
proof -
  obtain s' where body: "catch_prog (try_block d inp) (catch_block d inp) (begin_run w active) = (Inr res, s')"
    and s: "s = leave (release_all s')"
    using perform_apply_body [OF assms(1)] .
  have "write_flags (begin_run w active)"
    by (simp add: write_flags_def begin_run_def)
  then have "settled_state res s'"
    using triple_returns [OF settled_body _ body] by simp
  then have "settled_state res s"
    using keeps_settled_release s by (simp add: settled_state_def)
  then show ?thesis
    using assms(2) by (auto simp: settled_state_def unwritten_def restored_def)
qed

lemma sample_unhealthy_outcome:
  "(case fst (sample_run False) of Inr res \<Rightarrow> ar_outcome res = Outcome_rolled_back | Inl _ \<Rightarrow> False)"
  by code_simp

theorem rolled_back_is_clean_witness:
  "\<exists>snap pre post. r_snapshot (snd (sample_run False)) = Some snap \<and>
     r_log (snd (sample_run False)) = pre @ (RestoreSnapshot snap, True) # post \<and>
     (\<forall>(c, ok) \<in> set post. \<not> is_write c)"
proof -
  obtain res s where run: "sample_run False = (Inr res, s)" and oc: "ar_outcome res = Outcome_rolled_back"
    using sample_unhealthy_outcome by (cases "sample_run False") (auto split: sum.splits)
  have "\<not> (\<forall>(c, ok) \<in> set (r_log (snd (sample_run False))). \<not> is_write c)"
    unfolding sample_log_unhealthy by simp
  then show ?thesis
    using rolled_back_is_clean [OF run [unfolded sample_run_def] oc] run by auto
qed

end
