(* ===== verification/ApplyComplete.thy ===== *)
theory ApplyComplete
  imports ApplyOutcome
begin

text \<open>
  Runs of the apply coordinator (apps/config-agent/src/changes/applyCoordinator.ts) that answer
  \<open>completed\<close>: the exact list of what they did. The state of a run that has not failed yet is
  described by \<open>at_step\<close>; each phase of the \<open>try\<close> block extends the list by its own calls.
\<close>

section \<open>The list of calls\<close>

text \<open>Locks and the two ways to store a snapshot are optional, so they are left out of the list.\<close>

fun is_optional :: "dep_call \<Rightarrow> bool" where
  "is_optional (Acquire _) = True"
| "is_optional (Release _) = True"
| "is_optional (PersistSnapshot _) = True"
| "is_optional (CreateSnapshot _) = True"
| "is_optional _ = False"

definition essential :: "(dep_call \<times> bool) list \<Rightarrow> (dep_call \<times> bool) list" where
  "essential log = filter (\<lambda>(c, _). \<not> is_optional c) log"

lemma essential_snoc [simp]:
  "essential (log @ [(c, ok)]) = (if is_optional c then essential log else essential log @ [(c, ok)])"
  by (simp add: essential_def)

definition apply_event_of ::
  "staged_change \<Rightarrow> apply_input \<Rightarrow> apply_state \<Rightarrow> nat \<Rightarrow> string \<Rightarrow> dep_call" where
  "apply_event_of change inp st n reason =
     PersistEvent \<lparr> ae_change_id = sc_change_id change, ae_run_id = in_run_id inp, ae_state = st,
                    ae_sequence = n, ae_reason = reason \<rparr>"

definition completed_calls ::
  "staged_change \<Rightarrow> apply_input \<Rightarrow> (string \<times> write_group) list \<Rightarrow> dep_call list" where
  "completed_calls change inp groups =
     [ReadStaged (in_change_id inp),
      apply_event_of change inp Applying 0 ''APPLY_STARTED'',
      CaptureSnapshot,
      apply_event_of change inp Snapshotted 1 ''SNAPSHOT_RECORDED''] @
     map (\<lambda>(src, g). WriteSource src g) groups @
     [apply_event_of change inp Written 2 ''SOURCES_WRITTEN'',
      apply_event_of change inp Action_running 3 ''ACTIONS_STARTED''] @
     map RunAction (sc_action_ids change) @
     [apply_event_of change inp Health_checking 4 ''HEALTH_CHECKS_STARTED'',
      RunHealth,
      apply_event_of change inp Completed 5 ''HEALTH_CHECKS_PASSED'']"

definition succeeded :: "dep_call list \<Rightarrow> (dep_call \<times> bool) list" where
  "succeeded calls = map (\<lambda>c. (c, True)) calls"

lemma succeeded_append [simp]: "succeeded (xs @ ys) = succeeded xs @ succeeded ys"
  by (simp add: succeeded_def)

lemma succeeded_Cons [simp]: "succeeded (c # cs) = (c, True) # succeeded cs"
  by (simp add: succeeded_def)

lemma succeeded_Nil [simp]: "succeeded [] = []"
  by (simp add: succeeded_def)

section \<open>Steps\<close>

definition at_step ::
  "string \<Rightarrow> staged_change \<Rightarrow> apply_state \<Rightarrow> nat \<Rightarrow> dep_call list \<Rightarrow> 'w run_state \<Rightarrow> bool" where
  "at_step rid change st n calls s \<longleftrightarrow>
     journal_ok rid s \<and> r_change s = Some change \<and>
     (\<exists>m. r_machine s = Some m \<and> am_current m = st \<and> am_sequence m = n) \<and>
     essential (r_log s) = succeeded calls"

abbreviation whatever :: "'e \<Rightarrow> 's \<Rightarrow> bool" where
  "whatever \<equiv> \<lambda>_ _. True"

lemma at_step_emit:
  assumes "nxt \<in> set (apply_moves st)"
  shows "triple (at_step (in_run_id inp) change st n calls)
     (emit d (sc_change_id change) (in_run_id inp) nxt reason)
     (\<lambda>_. at_step (in_run_id inp) change nxt (Suc n)
        (calls @ [apply_event_of change inp nxt (Suc n) reason])) whatever"
proof (rule tripleI)
  fix s :: "'a run_state"
  assume "at_step (in_run_id inp) change st n calls s"
  then obtain m where ok: "journal_ok (in_run_id inp) s" and m: "r_machine s = Some m"
    and st: "am_current m = st" "am_sequence m = n" and ch: "r_change s = Some change"
    and log: "essential (r_log s) = succeeded calls"
    by (auto simp: at_step_def)
  have live: "\<not> apply_terminal (am_current m)" and move: "nxt \<in> set (apply_moves (am_current m))"
    using assms st by (cases st; simp add: apply_terminal_def)+
  show "case emit d (sc_change_id change) (in_run_id inp) nxt reason s of
      (Inl e, s') \<Rightarrow> True
    | (Inr x, s') \<Rightarrow> at_step (in_run_id inp) change nxt (Suc n)
        (calls @ [apply_event_of change inp nxt (Suc n) reason]) s'"
    using journal_ok_advance [OF ok m move, where cid = "sc_change_id change" and reason = reason]
      emit_cases [OF ok m, of d "sc_change_id change" nxt reason] live move st log ch
    by (auto simp: invoke_def at_step_def advance_def next_apply_event_def apply_event_of_def
        split: prod.splits sum.splits)
qed

lemma journal_ok_call:
  "\<not> is_event c \<Longrightarrow> journal_ok rid s \<Longrightarrow>
     journal_ok rid (s\<lparr>r_world := w, r_log := r_log s @ [(c, ok)]\<rparr>)"
  by (erule journal_ok_same [rotated]) (cases c; simp add: same_journal_def)

lemma optional_not_event: "is_optional c \<Longrightarrow> \<not> is_event c"
  by (cases c) simp_all

lemma at_step_invoke:
  assumes "\<not> is_event c" and "\<not> is_optional c"
  shows "triple (at_step rid change st n calls) (invoke c f)
     (\<lambda>_. at_step rid change st n (calls @ [c])) whatever"
proof (rule triple_invoke)
  fix s :: "'a run_state" and w
  assume "at_step rid change st n calls s"
  moreover have "journal_ok rid s \<Longrightarrow>
      journal_ok rid (s\<lparr>r_world := w, r_log := r_log s @ [(c, True)]\<rparr>)"
    using assms(1) by (rule journal_ok_call)
  ultimately show "at_step rid change st n (calls @ [c]) (s\<lparr>r_world := w, r_log := r_log s @ [(c, True)]\<rparr>)"
    using assms(2) by (simp add: at_step_def)
qed simp

lemma at_step_optional:
  assumes "is_optional c"
  shows "triple (at_step rid change st n calls) (invoke c f)
     (\<lambda>_. at_step rid change st n calls) whatever"
proof (rule triple_invoke)
  fix s :: "'a run_state" and w
  assume "at_step rid change st n calls s"
  moreover have "journal_ok rid s \<Longrightarrow>
      journal_ok rid (s\<lparr>r_world := w, r_log := r_log s @ [(c, True)]\<rparr>)"
    using optional_not_event [OF assms] by (rule journal_ok_call)
  ultimately show "at_step rid change st n calls (s\<lparr>r_world := w, r_log := r_log s @ [(c, True)]\<rparr>)"
    using assms by (simp add: at_step_def)
qed simp

lemma at_step_modify:
  assumes "\<And>s. same_journal s (f s) \<and> r_log (f s) = r_log s \<and> r_change (f s) = r_change s"
  shows "triple (at_step rid change st n calls) (modify f) (\<lambda>_. at_step rid change st n calls) whatever"
proof (rule triple_modify)
  fix s :: "'a run_state"
  assume "at_step rid change st n calls s"
  then show "at_step rid change st n calls (f s)"
    using assms [of s] journal_ok_same [of s "f s" rid]
    by (simp add: at_step_def same_journal_def)
qed

lemma at_step_for_each:
  assumes "\<And>x calls. triple (at_step rid change st n calls) (f x)
     (\<lambda>_. at_step rid change st n (calls @ [call x])) whatever"
  shows "triple (at_step rid change st n calls) (for_each xs f)
     (\<lambda>_. at_step rid change st n (calls @ map call xs)) whatever"
proof (induction xs arbitrary: calls)
  case Nil
  show ?case by (simp add: triple_ret)
next
  case (Cons x xs)
  show ?case
    using triple_then [OF assms Cons.IH, of calls x] by simp
qed

lemma at_step_if_present:
  assumes "\<And>x. triple P (f x) (\<lambda>_. P) whatever"
  shows "triple P (if_present opt f) (\<lambda>_. P) whatever"
  using assms by (cases opt) (auto simp: if_present_def triple_ret)

section \<open>Phases\<close>

lemma at_step_acquire:
  "triple (at_step rid change st n calls) (acquire name locks x)
     (\<lambda>_. at_step rid change st n calls) whatever"
  unfolding acquire_def
  by (rule at_step_if_present, rule triple_bind [OF at_step_optional], simp,
      rule at_step_modify) simp

lemma at_step_locks:
  "triple (at_step rid change st n calls) (acquire_locks d change')
     (\<lambda>_. at_step rid change st n calls) whatever"
  unfolding acquire_locks_def
  by (rule triple_then; rule triple_for_each; rule at_step_acquire)

lemma at_step_snapshot:
  "triple (at_step (in_run_id inp) change Applying n calls) (take_snapshot d inp change)
     (\<lambda>_. at_step (in_run_id inp) change Snapshotted (Suc n)
        (calls @ [CaptureSnapshot,
                  apply_event_of change inp Snapshotted (Suc n) ''SNAPSHOT_RECORDED''])) whatever"
proof -
  let ?after = "at_step (in_run_id inp) change Applying n (calls @ [CaptureSnapshot])"
  have stored: "triple ?after
     (case d_persist_snapshot d of
        Some persist \<Rightarrow> invoke (PersistSnapshot (snapshot_id inp)) (persist (snapshot_id inp) change x)
      | None \<Rightarrow> if_present (d_snapshot_store d) (\<lambda>store.
          invoke (CreateSnapshot (snapshot_id inp)) (st_create store (snapshot_id inp) change x)))
     (\<lambda>_. ?after) whatever" for x
    by (auto split: option.split intro!: at_step_if_present at_step_optional)
  have set_snapshot: "triple ?after (modify (\<lambda>s. s\<lparr>r_snapshot := Some x\<rparr>)) (\<lambda>_. ?after) whatever" for x
    by (rule at_step_modify) simp
  have emitted: "triple ?after (emit d (sc_change_id change) (in_run_id inp) Snapshotted ''SNAPSHOT_RECORDED'')
     (\<lambda>_. at_step (in_run_id inp) change Snapshotted (Suc n)
        ((calls @ [CaptureSnapshot]) @ [apply_event_of change inp Snapshotted (Suc n) ''SNAPSHOT_RECORDED'']))
     whatever"
    by (rule at_step_emit) simp
  show ?thesis
    unfolding take_snapshot_def
    by (rule triple_bind [OF at_step_invoke], simp, simp, rule triple_then [OF set_snapshot],
        rule triple_then [OF stored], use emitted in simp)
qed


lemma at_step_write:
  assumes "source_operations change = Inr groups"
  shows "triple (at_step (in_run_id inp) change Snapshotted n calls) (write_sources d inp change)
     (\<lambda>_. at_step (in_run_id inp) change Written (Suc n)
        (calls @ map (\<lambda>(src, g). WriteSource src g) groups @
         [apply_event_of change inp Written (Suc n) ''SOURCES_WRITTEN''])) whatever"
proof -
  let ?call = "\<lambda>(src, g). WriteSource src g"
  let ?put = "\<lambda>(src, g). then_prog (modify (\<lambda>s. s\<lparr>r_write_started := True\<rparr>))
      (invoke (WriteSource src g) (d_write_source d src g))"
  have one: "triple (at_step (in_run_id inp) change Snapshotted n calls) (?put x)
     (\<lambda>_. at_step (in_run_id inp) change Snapshotted n (calls @ [?call x])) whatever" for x calls
    by (cases x)
      (auto intro!: triple_then [OF at_step_modify at_step_invoke])
  have loop: "triple (at_step (in_run_id inp) change Snapshotted n calls) (for_each groups ?put)
     (\<lambda>_. at_step (in_run_id inp) change Snapshotted n (calls @ map ?call groups)) whatever"
    by (rule at_step_for_each [where call = ?call], rule one)
  have emitted: "triple (at_step (in_run_id inp) change Snapshotted n (calls @ map ?call groups))
     (emit d (sc_change_id change) (in_run_id inp) Written ''SOURCES_WRITTEN'')
     (\<lambda>_. at_step (in_run_id inp) change Written (Suc n)
        ((calls @ map ?call groups) @ [apply_event_of change inp Written (Suc n) ''SOURCES_WRITTEN'']))
     whatever"
    by (rule at_step_emit) simp
  show ?thesis
    using triple_then [OF loop emitted] by (simp add: write_sources_def assms)
qed

lemma at_step_actions:
  "triple (at_step (in_run_id inp) change Written n calls) (run_actions d inp change)
     (\<lambda>_. at_step (in_run_id inp) change Action_running (Suc n)
        (calls @ [apply_event_of change inp Action_running (Suc n) ''ACTIONS_STARTED''] @
         map RunAction (sc_action_ids change))) whatever"
proof -
  let ?calls = "calls @ [apply_event_of change inp Action_running (Suc n) ''ACTIONS_STARTED'']"
  have loop: "triple (at_step (in_run_id inp) change Action_running (Suc n) ?calls)
     (for_each (sc_action_ids change) (\<lambda>a. invoke (RunAction a) (d_run_action d (in_run_id inp) a)))
     (\<lambda>_. at_step (in_run_id inp) change Action_running (Suc n)
        (?calls @ map RunAction (sc_action_ids change))) whatever"
    by (rule at_step_for_each, rule at_step_invoke) simp_all
  show ?thesis
    unfolding run_actions_def
    by (rule triple_then [OF at_step_emit], simp, use loop in simp)
qed

lemma at_step_health:
  "triple (at_step (in_run_id inp) change Action_running n calls) (check_health d inp change)
     (\<lambda>_. at_step (in_run_id inp) change Completed (Suc (Suc n))
        (calls @ [apply_event_of change inp Health_checking (Suc n) ''HEALTH_CHECKS_STARTED'',
                  RunHealth,
                  apply_event_of change inp Completed (Suc (Suc n)) ''HEALTH_CHECKS_PASSED''])) whatever"
proof -
  let ?c1 = "calls @ [apply_event_of change inp Health_checking (Suc n) ''HEALTH_CHECKS_STARTED'']"
  let ?c2 = "?c1 @ [RunHealth]"
  have emitted: "triple (at_step (in_run_id inp) change Health_checking (Suc n) ?c2)
     (emit d (sc_change_id change) (in_run_id inp) Completed ''HEALTH_CHECKS_PASSED'')
     (\<lambda>_. at_step (in_run_id inp) change Completed (Suc (Suc n))
        (?c2 @ [apply_event_of change inp Completed (Suc (Suc n)) ''HEALTH_CHECKS_PASSED''])) whatever"
    by (rule at_step_emit) simp
  have checked: "triple (at_step (in_run_id inp) change Health_checking (Suc n) ?c2)
     (if \<not> passed then throw (CoordinatorError APPLY_FAILED False)
      else emit d (sc_change_id change) (in_run_id inp) Completed ''HEALTH_CHECKS_PASSED'')
     (\<lambda>_. at_step (in_run_id inp) change Completed (Suc (Suc n))
        (?c2 @ [apply_event_of change inp Completed (Suc (Suc n)) ''HEALTH_CHECKS_PASSED''])) whatever"
    for passed
    using emitted by (auto intro: triple_throw)
  show ?thesis
    unfolding check_health_def
    by (rule triple_then [OF at_step_emit], simp, rule triple_bind [OF at_step_invoke], simp, simp,
        use checked in simp)
qed

section \<open>Admission\<close>

definition admissible :: "apply_input \<Rightarrow> staged_change \<Rightarrow> millis \<Rightarrow> string list \<Rightarrow> bool" where
  "admissible inp change now active \<longleftrightarrow>
     sc_digest change = in_digest inp \<and> \<not> expired (sc_expires_at change) now \<and>
     sc_app_id change \<notin> set active"

definition admits ::
  "'w dependencies \<Rightarrow> apply_input \<Rightarrow> 'w \<Rightarrow> string list \<Rightarrow> staged_change \<Rightarrow> bool" where
  "admits d inp w active change \<longleftrightarrow>
     (\<exists>w'. d_read_staged d (in_change_id inp) w = (Inr (Some change), w') \<and>
           admissible inp change (d_now d w') active)"

definition admitted :: "apply_input \<Rightarrow> staged_change \<Rightarrow> 'w run_state \<Rightarrow> bool" where
  "admitted inp change s \<longleftrightarrow>
     r_change s = Some change \<and>
     r_machine s = None \<and>
     essential (r_log s) = succeeded [ReadStaged (in_change_id inp)] \<and> persisted (r_log s) = []"

lemma admit_admitted:
  "triple (\<lambda>s. s = begin_run w active) (admit d inp)
     (\<lambda>change s. admits d inp w active change \<and> admitted inp change s) whatever"
proof (rule tripleI, simp)
  show "case admit d inp (begin_run w active) of
      (Inl e, s') \<Rightarrow> True | (Inr change, s') \<Rightarrow>
        admits d inp w active change \<and> admitted inp change s'"
    by (auto simp: admit_def acquire_def if_present_def bind_prog_def then_prog_def gets_def modify_def
        ret_def throw_def invoke_def begin_run_def admitted_def admissible_def admits_def essential_def
        succeeded_def split: prod.splits sum.splits option.splits if_splits)
qed

lemma start_at_step:
  "triple (admitted inp change) (start_machine d inp change)
     (\<lambda>_. at_step (in_run_id inp) change Applying 0
        [ReadStaged (in_change_id inp), apply_event_of change inp Applying 0 ''APPLY_STARTED'']) whatever"
  by (auto simp: triple_def start_machine_def then_prog_def bind_prog_def modify_def invoke_def
      admitted_def at_step_def journal_ok_def create_apply_machine_def applying_event_def
      apply_event_of_def apply_inv_def succeeded_def split: prod.splits sum.splits)


definition finished ::
  "'w dependencies \<Rightarrow> apply_input \<Rightarrow> 'w \<Rightarrow> string list \<Rightarrow> 'w run_state \<Rightarrow> bool" where
  "finished d inp w active s \<longleftrightarrow>
     (\<exists>change groups. admits d inp w active change \<and> source_operations change = Inr groups \<and>
        essential (r_log s) = succeeded (completed_calls change inp groups))"

lemma try_finished:
  "triple (\<lambda>s. s = begin_run w active) (try_block d inp) (\<lambda>_. finished d inp w active) whatever"
proof -
  define start where "start = (\<lambda>change s :: 'a run_state.
    admits d inp w active change \<and> admitted inp change s)"
  have body: "triple (admitted inp change)
      (then_prog (start_machine d inp change)
       (then_prog (acquire_locks d change)
       (then_prog (take_snapshot d inp change)
       (then_prog (write_sources d inp change)
       (then_prog (run_actions d inp change)
       (then_prog (check_health d inp change)
         (ret (result_of change inp Completed Outcome_completed))))))))
      (\<lambda>_. finished d inp w active) whatever" if adm: "admits d inp w active change" for change
  proof (cases "source_operations change")
    case (Inl e)
    then have fail: "triple P (then_prog (write_sources d inp change) k) Q whatever"
      for P k Q
      by (auto simp: triple_def write_sources_def then_prog_def bind_prog_def throw_def)
    show ?thesis
      by (rule triple_then [OF start_at_step], rule triple_then [OF at_step_locks],
          rule triple_then [OF at_step_snapshot], rule fail)
  next
    case (Inr groups)
    show ?thesis
    proof (rule triple_then [OF start_at_step], rule triple_then [OF at_step_locks],
        rule triple_then [OF at_step_snapshot], rule triple_then [OF at_step_write [OF Inr]],
        rule triple_then [OF at_step_actions], rule triple_then [OF at_step_health], rule triple_ret)
      fix s :: "'a run_state"
      assume "at_step (in_run_id inp) change Completed
        (Suc (Suc (Suc (Suc (Suc 0)))))
        (((([ReadStaged (in_change_id inp), apply_event_of change inp Applying 0 ''APPLY_STARTED''] @
           [CaptureSnapshot, apply_event_of change inp Snapshotted (Suc 0) ''SNAPSHOT_RECORDED'']) @
           map (\<lambda>(src, g). WriteSource src g) groups @
           [apply_event_of change inp Written (Suc (Suc 0)) ''SOURCES_WRITTEN'']) @
           [apply_event_of change inp Action_running (Suc (Suc (Suc 0))) ''ACTIONS_STARTED''] @
           map RunAction (sc_action_ids change)) @
           [apply_event_of change inp Health_checking (Suc (Suc (Suc (Suc 0)))) ''HEALTH_CHECKS_STARTED'',
            RunHealth,
            apply_event_of change inp Completed (Suc (Suc (Suc (Suc (Suc 0))))) ''HEALTH_CHECKS_PASSED'']) s"
      then have "essential (r_log s) = succeeded (completed_calls change inp groups)"
        by (simp add: at_step_def completed_calls_def eval_nat_numeral)
      with adm Inr show "finished d inp w active s"
        unfolding finished_def by blast
    qed
  qed
  show ?thesis
    unfolding try_block_def
  proof (rule triple_bind [OF admit_admitted], rule tripleI)
    fix change and s :: "'a run_state"
    assume "admits d inp w active change \<and> admitted inp change s"
    then show "case then_prog (start_machine d inp change)
       (then_prog (acquire_locks d change)
       (then_prog (take_snapshot d inp change)
       (then_prog (write_sources d inp change)
       (then_prog (run_actions d inp change)
       (then_prog (check_health d inp change)
         (ret (result_of change inp Completed Outcome_completed))))))) s of
        (Inl e, s') \<Rightarrow> True | (Inr x, s') \<Rightarrow> finished d inp w active s'"
      using body [of change] by (simp add: triple_def)
  qed
qed

section \<open>Only the \<open>try\<close> block answers \<open>completed\<close>\<close>

lemma give_up_not_completed:
  "triple P (give_up d inp change) (\<lambda>res _. ar_outcome res \<noteq> Outcome_completed) whatever"
  by (rule triple_weaken [OF give_up_outcome]) auto

lemma close_not_completed:
  "triple P (close_unwritten d inp c) (\<lambda>res _. ar_outcome res \<noteq> Outcome_completed) whatever"
  unfolding close_unwritten_def
  by (rule triple_catch [OF _ give_up_not_completed], rule triple_then [OF triple_any],
      rule triple_then [OF triple_any], rule triple_ret) (simp add: result_of_def)

lemma catch_not_completed:
  "triple P (catch_block d inp e) (\<lambda>res _. ar_outcome res \<noteq> Outcome_completed) whatever"
proof -
  let ?Q = "\<lambda>res _. ar_outcome res \<noteq> Outcome_completed"
  have closing: "triple P (if \<not> passed then throw (CoordinatorError APPLY_FAILED False)
        else then_prog (emit d cid rid Rolled_back reason)
          (ret (result_of c inp Rolled_back Outcome_rolled_back))) ?Q whatever"
    for P :: "'a run_state \<Rightarrow> bool" and passed c cid rid reason
    by (auto intro!: triple_throw triple_then [OF triple_any] triple_ret simp: result_of_def)
  have rolled: "triple P (roll_back d inp c snap) ?Q whatever" for P c snap
    unfolding roll_back_def
    by (rule triple_catch, rule triple_then [OF triple_any], rule triple_then [OF triple_any],
        rule triple_then [OF triple_any], rule triple_bind [OF triple_any], rule closing,
        rule triple_then [OF triple_any], rule give_up_not_completed)
  show ?thesis
    unfolding catch_block_def
    by (rule triple_bind [OF triple_any])
      (auto intro!: triple_throw close_not_completed rolled split: option.split)
qed

lemma essential_release_all: "essential (r_log (release_all s)) = essential (r_log s)"
proof -
  have "(\<lambda>t. essential (r_log t) = essential (r_log s)) (release_all s)"
    by (rule keeps_release_all) (auto intro!: keeps_invoke)
  then show ?thesis .
qed

lemma perform_finished:
  assumes "perform_apply d inp (begin_run w active) = (Inr res, s)"
    and "ar_outcome res = Outcome_completed"
  shows "finished d inp w active s"
proof -
  obtain s' where body: "catch_prog (try_block d inp) (catch_block d inp) (begin_run w active) = (Inr res, s')"
    and s: "s = leave (release_all s')"
    using perform_apply_body [OF assms(1)] .
  have "triple (\<lambda>s. s = begin_run w active) (catch_prog (try_block d inp) (catch_block d inp))
      (\<lambda>res s. ar_outcome res = Outcome_completed \<longrightarrow> finished d inp w active s) whatever"
    by (rule triple_catch [OF triple_weaken [OF try_finished]
          triple_weaken [OF catch_not_completed [where P = "\<lambda>_. True"]]]) auto
  then have "finished d inp w active s'"
    using assms(2) body by (auto dest: triple_returns)
  then show ?thesis
    by (simp add: finished_def s essential_release_all)
qed

section \<open>Property\<close>


lemma sample_healthy_outcome:
  "(case fst (sample_run True) of Inr res \<Rightarrow> ar_outcome res = Outcome_completed | Inl _ \<Rightarrow> False)"
  by code_simp


end
