(* ===== verification/ApplyLocks.thy ===== *)
theory ApplyLocks
  imports ApplyComplete
begin

text \<open>
  What a run of the apply coordinator (apps/config-agent/src/changes/applyCoordinator.ts) leaves
  behind: its locks are released in the reverse order, and two behaviours at its edges, a run that
  is rejected because the application is busy and a run whose last event cannot be persisted.
\<close>

section \<open>Locks\<close>

definition acquired :: "(dep_call \<times> bool) list \<Rightarrow> lock_name list" where
  "acquired log =
     concat (map (\<lambda>(c, ok). case c of Acquire n \<Rightarrow> (if ok then [n] else []) | _ \<Rightarrow> []) log)"

fun is_release :: "dep_call \<Rightarrow> bool" where
  "is_release (Release _) = True"
| "is_release _ = False"

definition none_released :: "(dep_call \<times> bool) list \<Rightarrow> bool" where
  "none_released log \<longleftrightarrow> (\<forall>(c, ok) \<in> set log. \<not> is_release c)"

definition locks_held :: "'w run_state \<Rightarrow> bool" where
  "locks_held s \<longleftrightarrow> none_released (r_log s) \<and> map fst (r_releases s) = acquired (r_log s)"

fun is_lock :: "dep_call \<Rightarrow> bool" where
  "is_lock (Acquire _) = True"
| "is_lock (Release _) = True"
| "is_lock _ = False"

lemma keeps_locks_invoke: "\<not> is_lock c \<Longrightarrow> keeps locks_held (invoke c f)"
  by (rule keeps_invoke, cases c) (auto simp: locks_held_def none_released_def acquired_def)

lemma keeps_locks_modify:
  "(\<And>s. r_log (f s) = r_log s \<and> r_releases (f s) = r_releases s) \<Longrightarrow> keeps locks_held (modify f)"
  by (rule keeps_modify) (simp add: locks_held_def)

lemma keeps_locks_acquire: "keeps locks_held (acquire name locks x)"
  by (auto simp: acquire_def if_present_def keeps_def bind_prog_def modify_def invoke_def ret_def
      locks_held_def none_released_def acquired_def split: option.splits prod.splits sum.splits)

lemma keeps_locks_emit: "keeps locks_held (emit d cid rid st reason)"
  by (auto simp: emit_def Let_def intro!: keeps_intros keeps_locks_invoke keeps_locks_modify)

lemmas locks_keeps =
  keeps_intros keeps_locks_invoke keeps_locks_modify keeps_locks_acquire keeps_locks_emit

lemma locks_admit: "keeps locks_held (admit d inp)"
  by (auto simp: admit_def intro!: locks_keeps)

lemma locks_phases:
  "keeps locks_held (start_machine d inp change)" "keeps locks_held (acquire_locks d change)"
  "keeps locks_held (take_snapshot d inp change)" "keeps locks_held (write_sources d inp change)"
  "keeps locks_held (run_actions d inp change)" "keeps locks_held (check_health d inp change)"
  by (auto simp: start_machine_def acquire_locks_def take_snapshot_def write_sources_def
      run_actions_def check_health_def intro!: locks_keeps)

lemma locks_catch: "keeps locks_held (catch_block d inp e)"
proof -
  have "keeps locks_held (give_up d inp change)" for change
    by (auto simp: give_up_def intro!: locks_keeps)
  then show ?thesis
    by (auto simp: catch_block_def close_unwritten_def roll_back_def intro!: locks_keeps)
qed

lemma locks_body: "keeps locks_held (catch_prog (try_block d inp) (catch_block d inp))"
  unfolding try_block_def
  by (intro keeps_intros locks_admit locks_phases locks_catch)

lemma release_loop:
  "\<exists>rel. r_log (snd (for_each rs (\<lambda>(name, release). ignore_error (invoke (Release name) release)) s)) =
      r_log s @ rel \<and> map fst rel = map (\<lambda>(name, release). Release name) rs"
proof (induction rs arbitrary: s)
  case Nil
  show ?case by (simp add: ret_def)
next
  case (Cons x rs)
  obtain name release where x: "x = (name, release)" by fastforce
  obtain a w where answer: "release (r_world s) = (a, w)" by fastforce
  define ok where "ok = (case a of Inl _ \<Rightarrow> False | Inr _ \<Rightarrow> True)"
  have step: "ignore_error (invoke (Release name) release) s =
      (Inr (), s\<lparr>r_world := w, r_log := r_log s @ [(Release name, ok)]\<rparr>)"
    using answer by (cases a) (simp_all add: ignore_error_def catch_prog_def invoke_def ret_def ok_def)
  obtain rel where
    "r_log (snd (for_each rs (\<lambda>(name, release). ignore_error (invoke (Release name) release))
        (s\<lparr>r_world := w, r_log := r_log s @ [(Release name, ok)]\<rparr>))) =
      r_log s @ [(Release name, ok)] @ rel"
    and "map fst rel = map (\<lambda>(name, release). Release name) rs"
    using Cons.IH [of "s\<lparr>r_world := w, r_log := r_log s @ [(Release name, ok)]\<rparr>"] by auto
  then show ?case
    using step x by (intro exI [of _ "(Release name, ok) # rel"]) (simp add: then_prog_def bind_prog_def)
qed

text \<open>
  C5. No run leaves a lock behind. Whatever happens in a run, it ends by calling the release of
  every lock it acquired, last acquired first, even when a release throws; no lock is released
  before, and nothing is done after.
\<close>
theorem locks_released_in_reverse:
  assumes "perform_apply d inp (begin_run w active) = (r, s)"
  shows "\<exists>work rel. r_log s = work @ rel \<and> (\<forall>(c, ok) \<in> set work. \<not> is_release c) \<and>
    map fst rel = map Release (rev (acquired work))"
proof -
  obtain s' where body: "catch_prog (try_block d inp) (catch_block d inp) (begin_run w active) = (r, s')"
    and s: "s = leave (release_all s')"
    using perform_apply_body [OF assms] .
  have "locks_held (begin_run w active)"
    by (simp add: locks_held_def begin_run_def none_released_def acquired_def)
  then have held: "locks_held s'"
    using locks_body body by (blast intro: keepsD)
  obtain rel where "r_log (release_all s') = r_log s' @ rel"
    and "map fst rel = map (\<lambda>(name, release). Release name) (rev (r_releases s'))"
    using release_loop unfolding release_all_def by blast
  moreover have "map (\<lambda>(name, release). Release name) (rev (r_releases s')) =
      map Release (rev (acquired (r_log s')))"
  proof -
    have "map (\<lambda>(name, release). Release name) (r_releases s') = map Release (map fst (r_releases s'))"
      by (simp add: case_prod_unfold)
    with held show ?thesis by (simp add: locks_held_def flip: rev_map)
  qed
  ultimately have "r_log s = r_log s' @ rel" and "map fst rel = map Release (rev (acquired (r_log s')))"
    using s by simp_all
  with held show ?thesis
    unfolding locks_held_def none_released_def by blast
qed

lemma sample_unhealthy_locks:
  "acquired (r_log (snd (sample_run False))) = [Application_lock ''app'']"
  by code_simp

theorem locks_released_in_reverse_witness:
  "\<exists>work rel. r_log (snd (sample_run False)) = work @ rel \<and>
     map fst rel = map Release (rev (acquired work)) \<and> (\<forall>(c, ok) \<in> set work. \<not> is_release c)"
proof -
  obtain r s where run: "sample_run False = (r, s)" by fastforce
  show ?thesis
    using locks_released_in_reverse [OF run [unfolded sample_run_def]] run by auto
qed

section \<open>A rejected run\<close>

text \<open>
  A run that is rejected because its application is busy ends the protection of that
  application: the run answers \<open>APPLY_ALREADY_RUNNING\<close>, yet its \<open>finally\<close> block removes the
  application from \<open>activeApplications\<close>, although the run that is still active entered it.
\<close>
theorem rejected_run_unlocks_application:
  assumes "d_read_staged d (in_change_id inp) w = (Inr (Some change), w')"
    and "sc_digest change = in_digest inp" and "\<not> expired (sc_expires_at change) (d_now d w')"
    and "sc_app_id change \<in> set active"
  shows "\<exists>s. perform_apply d inp (begin_run w active) =
      (Inl (CoordinatorError APPLY_ALREADY_RUNNING False), s) \<and>
    r_active s = removeAll (sc_app_id change) active \<and>
    r_log s = [(ReadStaged (in_change_id inp), True)]"
  using assms
  by (simp add: perform_apply_def finally_prog_def catch_prog_def try_block_def admit_def invoke_def
      bind_prog_def then_prog_def modify_def gets_def throw_def begin_run_def catch_block_def
      release_all_def leave_def ret_def)

text \<open>The second run is rejected, the third, while the first is still active, completes.\<close>

theorem rejected_run_unlocks_application_witness:
  "\<exists>s. perform_apply (sample_deps True (Some sample_change)) sample_input (begin_run () [''app'']) =
      (Inl (CoordinatorError APPLY_ALREADY_RUNNING False), s) \<and> r_active s = [] \<and>
    (case fst (perform_apply (sample_deps True (Some sample_change)) sample_input
                 (begin_run () (r_active s))) of
       Inr res \<Rightarrow> ar_outcome res = Outcome_completed | Inl _ \<Rightarrow> False)"
proof -
  have "sc_app_id sample_change \<in> set [''app'']" by (simp add: sample_change_def)
  then obtain s where "perform_apply (sample_deps True (Some sample_change)) sample_input
      (begin_run () [''app'']) = (Inl (CoordinatorError APPLY_ALREADY_RUNNING False), s)"
    and "r_active s = removeAll (sc_app_id sample_change) [''app'']"
    using rejected_run_unlocks_application [of "sample_deps True (Some sample_change)" sample_input "()"
        sample_change "()" "[''app'']"]
    by (auto simp: sample_deps_def sample_input_def sample_change_def ret_def expired_def)
  then show ?thesis
    using sample_healthy_outcome by (simp add: sample_change_def sample_run_def)
qed

section \<open>A last event that is not persisted\<close>

fun is_restore :: "dep_call \<Rightarrow> bool" where
  "is_restore (RestoreSnapshot _) = True"
| "is_restore _ = False"

definition noted :: "apply_state \<Rightarrow> 'w run_state \<Rightarrow> bool" where
  "noted st s \<longleftrightarrow> st \<in> set (map ae_state (persisted (r_log s)))"

lemma keeps_noted_invoke: "keeps (noted st) (invoke c f)"
  by (rule keeps_invoke) (simp add: noted_def)

lemma keeps_noted_modify: "(\<And>s. r_log (f s) = r_log s) \<Longrightarrow> keeps (noted st) (modify f)"
  by (rule keeps_modify) (simp add: noted_def)

definition restore_noted :: "'w run_state \<Rightarrow> bool" where
  "restore_noted s \<longleftrightarrow> (\<forall>(c, ok) \<in> set (r_log s). \<not> is_restore c) \<or> noted Rolling_back s"

lemma keeps_restore_invoke: "\<not> is_restore c \<Longrightarrow> keeps restore_noted (invoke c f)"
  by (rule keeps_invoke) (auto simp: restore_noted_def noted_def)

lemma keeps_restore_modify: "(\<And>s. r_log (f s) = r_log s) \<Longrightarrow> keeps restore_noted (modify f)"
  by (rule keeps_modify) (simp add: restore_noted_def noted_def)

lemma keeps_restore_emit: "keeps restore_noted (emit d cid rid st reason)"
  by (auto simp: emit_def Let_def intro!: keeps_intros keeps_restore_invoke keeps_restore_modify)

lemma keeps_noted_emit: "keeps (noted st') (emit d cid rid st reason)"
  by (auto simp: emit_def Let_def intro!: keeps_intros keeps_noted_invoke keeps_noted_modify)

lemmas restore_keeps = keeps_intros keeps_restore_invoke keeps_restore_modify keeps_restore_emit
lemmas noted_keeps = keeps_intros keeps_noted_invoke keeps_noted_modify keeps_noted_emit

lemma emit_noted: "triple P (emit d cid rid st reason) (\<lambda>_. noted st) whatever"
  by (auto simp: triple_def emit_def Let_def bind_prog_def then_prog_def gets_def throw_def modify_def
      invoke_def noted_def split: option.splits sum.splits prod.splits)


lemma restore_phases:
  "keeps restore_noted (admit d inp)" "keeps restore_noted (start_machine d inp change)"
  "keeps restore_noted (acquire_locks d change)" "keeps restore_noted (take_snapshot d inp change)"
  "keeps restore_noted (write_sources d inp change)" "keeps restore_noted (run_actions d inp change)"
  "keeps restore_noted (check_health d inp change)" "keeps restore_noted (close_unwritten d inp change)"
  by (auto simp: run_defs intro!: restore_keeps)

lemma restore_roll_back: "keeps restore_noted (roll_back d inp change snap)"
proof (rule triple_keeps)
  have noted: "restore_noted s" if "noted Rolling_back s" for s :: "'a run_state"
    using that by (simp add: restore_noted_def)
  have start: "triple restore_noted (emit d (sc_change_id change) (in_run_id inp) Rolling_back reason)
      (\<lambda>_. noted Rolling_back) (\<lambda>_. restore_noted)" for reason
    using emit_noted keeps_triple [OF keeps_restore_emit]
    by (fastforce simp: triple_def split: prod.splits sum.splits)
  have after: "keeps (noted Rolling_back)
     (then_prog (invoke (RestoreSnapshot snap) (d_restore_snapshot d change (in_run_id inp) snap))
       (then_prog (for_each (sc_action_ids change) (\<lambda>a.
          if_present (d_rollback_action d) (\<lambda>undo.
            invoke (RollbackAction a) (undo (in_run_id inp) a))))
       (bind_prog
         (case d_rollback_health d of
            Some check \<Rightarrow> invoke RollbackHealth (check (in_run_id inp) (sc_check_ids change))
          | None \<Rightarrow> ret True)
         (\<lambda>passed. if \<not> passed then throw (CoordinatorError APPLY_FAILED False)
            else then_prog
              (emit d (sc_change_id change) (in_run_id inp) Rolled_back ''ROLLBACK_HEALTH_PASSED'')
              (ret (result_of change inp Rolled_back Outcome_rolled_back))))))"
    by (auto intro!: noted_keeps)
  have failed: "keeps restore_noted
      (then_prog
          (ignore_error (if_present (d_snapshot_store d) (\<lambda>store.
             invoke (MarkRollbackFailed (snapshot_id inp))
               (st_mark_rollback_failed store (snapshot_id inp)))))
          (give_up d inp change))"
    by (auto simp: give_up_def intro!: restore_keeps)
  show "triple restore_noted (roll_back d inp change snap) (\<lambda>_. restore_noted) (\<lambda>_. restore_noted)"
    unfolding roll_back_def
    by (rule triple_catch [OF triple_then [OF start] keeps_triple [OF failed]],
        rule triple_weaken [OF keeps_triple [OF after]]) (auto intro: noted)
qed

lemma restore_body: "keeps restore_noted (catch_prog (try_block d inp) (catch_block d inp))"
  unfolding try_block_def catch_block_def
  by (intro keeps_intros restore_phases restore_roll_back)

lemma rolled_back_noted:
  "triple P (catch_prog (try_block d inp) (catch_block d inp))
     (\<lambda>res s. ar_outcome res = Outcome_rolled_back \<longrightarrow> noted Rolled_back s) whatever"
proof -
  let ?Q = "\<lambda>res s. ar_outcome res = Outcome_rolled_back \<longrightarrow> noted Rolled_back s"
  have gave_up: "triple P (give_up d inp c) ?Q whatever" for P c
    by (rule triple_weaken [OF give_up_outcome]) auto
  have answer: "triple P (then_prog (emit d cid rid Rolled_back reason) (ret x)) ?Q whatever"
    for P cid rid reason x
    by (rule triple_then [OF emit_noted]) (auto intro: triple_ret)
  have close: "triple P (close_unwritten d inp c) ?Q whatever" for P c
    unfolding close_unwritten_def
    by (rule triple_catch [OF _ gave_up], rule triple_then [OF triple_any], rule answer)
  have health: "triple P (if \<not> passed then throw e
        else then_prog (emit d cid rid Rolled_back reason) (ret x)) ?Q whatever"
    for P passed e cid rid reason x
    by (auto intro!: triple_throw answer)
  have rolled: "triple P (roll_back d inp c snap) ?Q whatever" for P c snap
    unfolding roll_back_def
    by (rule triple_catch, rule triple_then [OF triple_any], rule triple_then [OF triple_any],
        rule triple_then [OF triple_any], rule triple_bind [OF triple_any], rule health,
        rule triple_then [OF triple_any], rule gave_up)
  have attempt: "triple P (try_block d inp) ?Q whatever" for P
    by (auto simp: triple_def try_block_def bind_prog_def then_prog_def ret_def result_of_def
        split: prod.splits sum.splits)
  show ?thesis
    by (rule triple_catch [OF attempt], unfold catch_block_def, rule triple_bind [OF triple_any])
      (auto intro!: triple_throw close rolled split: option.split)
qed

lemma rolling_back_path:
  "path_from apply_moves s states \<Longrightarrow> s \<in> {Rolling_back, Rolled_back, Rollback_failed} \<Longrightarrow>
     set states \<subseteq> {Rolled_back, Rollback_failed}"
proof (induction states arbitrary: s)
  case Nil
  then show ?case by simp
next
  case (Cons t states)
  then have "t \<in> {Rolled_back, Rollback_failed}" and "path_from apply_moves t states"
    by auto
  with Cons.IH [of t] show ?case by auto
qed

lemma completed_excludes_rollback:
  "path_from apply_moves s states \<Longrightarrow> Completed \<in> set states \<Longrightarrow>
     Rolling_back \<notin> set states \<and> Rolled_back \<notin> set states"
proof (induction states arbitrary: s)
  case Nil
  then show ?case by simp
next
  case (Cons t states)
  show ?case
  proof (cases "t = Completed \<or> t \<in> {Rolling_back, Rolled_back, Rollback_failed}")
    case True
    then show ?thesis
      using Cons.prems rolling_back_path [of t states] by (cases states) auto
  next
    case False
    then show ?thesis using Cons by auto
  qed
qed

lemma event_persisted: "(PersistEvent ev, ok) \<in> set log \<Longrightarrow> ev \<in> set (persisted log)"
  by (induction log rule: persisted.induct) (auto split: dep_call.splits)

text \<open>
  A run whose event \<open>COMPLETED\<close> is not persisted is not rolled back. If the call of \<open>persistEvent\<close>
  for \<open>COMPLETED\<close> throws, the machine is already in its terminal state, so the event
  \<open>ROLLING_BACK\<close> is refused: a run that answers, answers \<open>rollback_failed\<close>, and
  \<open>restoreSnapshot\<close> is never called, although everything was written, run and found healthy.
\<close>
theorem unpersisted_completion_never_restored:
  assumes "perform_apply d inp (begin_run w active) = (Inr res, s)"
    and "(PersistEvent ev, False) \<in> set (r_log s)" and "ae_state ev = Completed"
  shows "ar_outcome res = Outcome_rollback_failed \<and> (\<forall>snap ok. (RestoreSnapshot snap, ok) \<notin> set (r_log s))"
proof -
  obtain s' where body: "catch_prog (try_block d inp) (catch_block d inp) (begin_run w active) = (Inr res, s')"
    and s: "s = leave (release_all s')"
    using perform_apply_body [OF assms(1)] .
  have "restore_noted (begin_run w active)"
    by (simp add: restore_noted_def begin_run_def)
  then have "restore_noted s'"
    using restore_body body by (blast intro: keepsD)
  then have "restore_noted (release_all s')"
    by (rule keeps_release_all [rotated]) (simp add: keeps_restore_invoke)
  then have restore: "restore_noted s"
    using s by (simp add: restore_noted_def noted_def)
  have ev: "ev \<in> set (persisted (r_log s))"
    using assms(2) by (rule event_persisted)
  have path: "\<exists>states. map ae_state (persisted (r_log s)) = Applying # states \<and>
      path_from apply_moves Applying states"
    using journal_perform [OF assms(1)] ev
    by (cases "r_machine s") (auto simp: journal_ok_def apply_inv_def)
  then have "\<not> noted Rolling_back s" and clean: "\<not> noted Rolled_back s"
    using ev assms(3) completed_excludes_rollback [of Applying]
    by (auto simp: noted_def) (metis apply_state.distinct imageI list.set_intros set_ConsD set_map)+
  then have "\<forall>(c, ok) \<in> set (r_log s). \<not> is_restore c"
    using restore by (simp add: restore_noted_def)
  then have no_restore: "\<forall>snap ok. (RestoreSnapshot snap, ok) \<notin> set (r_log s)"
    by fastforce
  have "noted Rolled_back s'" if "ar_outcome res = Outcome_rolled_back"
    using that body triple_returns [OF rolled_back_noted [where P = "\<lambda>_. True"]] by blast
  moreover have "noted Rolled_back s' \<Longrightarrow> noted Rolled_back (release_all s')"
    by (rule keeps_release_all) (rule keeps_noted_invoke)
  ultimately have "ar_outcome res \<noteq> Outcome_rolled_back"
    using clean s by (auto simp: noted_def)
  moreover have "ar_outcome res \<noteq> Outcome_completed"
  proof
    assume "ar_outcome res = Outcome_completed"
    then have "finished d inp w active s"
      using perform_finished [OF assms(1)] by blast
    then obtain calls where "essential (r_log s) = succeeded calls"
      by (auto simp: finished_def)
    moreover have "(PersistEvent ev, False) \<in> set (essential (r_log s))"
      using assms(2) by (simp add: essential_def)
    ultimately show False by (auto simp: succeeded_def)
  qed
  ultimately show ?thesis
    using no_restore by (cases "ar_outcome res") auto
qed

text \<open>Dependencies that succeed until the last event, whose \<open>persistEvent\<close> throws.\<close>

definition sample_deps_full_disk :: "unit dependencies" where
  "sample_deps_full_disk =
     (sample_deps True (Some sample_change))
       \<lparr>d_persist_event := (\<lambda>ev. if ae_state ev = Completed then throw (OtherError ''ENOSPC'') else ret ())\<rparr>"

definition sample_full_disk :: "(apply_exn + apply_result) \<times> unit run_state" where
  "sample_full_disk = perform_apply sample_deps_full_disk sample_input (begin_run () [])"

lemma sample_full_disk_facts:
  "(case fst sample_full_disk of Inr res \<Rightarrow> True | Inl _ \<Rightarrow> False) \<and>
   (sample_event Completed 5 ''HEALTH_CHECKS_PASSED'', False) \<in> set (r_log (snd sample_full_disk))"
  by code_simp

theorem unpersisted_completion_never_restored_witness:
  "\<exists>res. fst sample_full_disk = Inr res \<and> ar_outcome res = Outcome_rollback_failed"
proof -
  obtain r s where pair: "sample_full_disk = (r, s)"
    by (rule prod.exhaust)
  have "case r of Inr res \<Rightarrow> True | Inl e \<Rightarrow> False"
    using sample_full_disk_facts unfolding pair by simp
  then obtain res where "r = Inr res"
    by (cases r) auto
  with pair have run: "sample_full_disk = (Inr res, s)" by simp
  have "ar_outcome res = Outcome_rollback_failed"
    using unpersisted_completion_never_restored [OF run [unfolded sample_full_disk_def]]
      sample_full_disk_facts unfolding run sample_event_def by simp
  then show ?thesis
    unfolding run by simp
qed

end
