(* ===== verification/RuntimeJournal.thy ===== *)
theory RuntimeJournal
  imports ApplyLocks
begin

text \<open>
  The journal of the configuration agent and the state of its changes:
  apps/config-agent/src/changes/runtimeHandlers.ts, the functions \<open>journalRecords\<close>,
  \<open>writeJournal\<close>, \<open>persistRunMetadata\<close>, \<open>stateFor\<close>, \<open>record\<close> and \<open>persistEvent\<close>.

  The maps and sets that the closure of \<open>createRuntimeMutationHandlers\<close> keeps are the record
  \<open>runtime\<close>; the file apply-journal.json is its field \<open>rt_journal\<close>, a JSON value, since
  \<open>JSON.parse\<close> reads back what \<open>JSON.stringify\<close> wrote. Everything else the handlers reach (stores,
  adapters, processes, the clock) is a program over a world, collected in \<open>runtime_env\<close>.
\<close>

section \<open>JSON\<close>

text \<open>A number is an integer or, as text, any other number.\<close>

datatype json =
    JNull | JBool bool | JNum int | JFloat string | JStr string | JArr "json list"
  | JObj "(string \<times> json) list"

section \<open>Recovery records\<close>

record recovery_record =
  rr_change_id :: string
  rr_run_id :: string
  rr_app_id :: string
  rr_state :: apply_state
  rr_has_writes :: bool
  rr_sequence :: "int option"
  rr_digest :: "string option"
  rr_build_release :: "string option"
  rr_previous_release :: "string option"

definition all_apply_states :: "apply_state list" where
  "all_apply_states =
     [Applying, Snapshotted, Written, Action_running, Health_checking, Rolling_back, Completed,
      Rolled_back, Rollback_failed]"

definition state_of_name :: "string \<Rightarrow> apply_state option" where
  "state_of_name s = find (\<lambda>st. state_name st = s) all_apply_states"

text \<open>\<open>JSON.stringify\<close> leaves out the members that are \<open>undefined\<close>.\<close>

definition member :: "string \<Rightarrow> 'a option \<Rightarrow> ('a \<Rightarrow> json) \<Rightarrow> (string \<times> json) list" where
  "member k opt f = (case opt of None \<Rightarrow> [] | Some x \<Rightarrow> [(k, f x)])"

definition record_json :: "recovery_record \<Rightarrow> json" where
  "record_json r =
     JObj ([(''changeId'', JStr (rr_change_id r)), (''runId'', JStr (rr_run_id r)),
            (''appId'', JStr (rr_app_id r)), (''state'', JStr (state_name (rr_state r))),
            (''hasWrites'', JBool (rr_has_writes r))]
           @ member ''sequence'' (rr_sequence r) JNum
           @ member ''changeDigest'' (rr_digest r) JStr
           @ member ''buildReleaseId'' (rr_build_release r) JStr
           @ member ''previousReleaseId'' (rr_previous_release r) JStr)"

definition journal_invalid :: apply_exn where
  "journal_invalid = OtherError ''CONFIG_AGENT_JOURNAL_INVALID''"

text \<open>One entry of the journal, in the order of the checks of \<open>journalRecords\<close>.\<close>

definition optional_string :: "json option \<Rightarrow> string option" where
  "optional_string v = (case v of Some (JStr s) \<Rightarrow> Some s | _ \<Rightarrow> None)"

definition sequence_ok :: "json option \<Rightarrow> bool" where
  "sequence_ok v =
     (case v of None \<Rightarrow> True | Some (JNum n) \<Rightarrow> is_safe_integer n \<and> 1 \<le> n | _ \<Rightarrow> False)"

definition sequence_of :: "json option \<Rightarrow> int option" where
  "sequence_of v = (case v of Some (JNum n) \<Rightarrow> Some n | _ \<Rightarrow> None)"

definition nonempty :: "string option \<Rightarrow> string option" where
  "nonempty v = (if v = Some [] then None else v)"

definition parse_record :: "json \<Rightarrow> apply_exn + recovery_record" where
  "parse_record entry =
     (case entry of
        JObj m \<Rightarrow>
          (case (map_of m ''changeId'', map_of m ''runId'', map_of m ''appId'', map_of m ''state'',
                 map_of m ''hasWrites'') of
             (Some (JStr cid), Some (JStr rid), Some (JStr app), Some (JStr st), Some (JBool hw)) \<Rightarrow>
               (case state_of_name st of
                  None \<Rightarrow> Inl journal_invalid
                | Some state \<Rightarrow>
                    if \<not> sequence_ok (map_of m ''sequence'') \<or>
                       (map_of m ''changeDigest'' \<noteq> None \<and>
                        optional_string (map_of m ''changeDigest'') = None)
                    then Inl journal_invalid
                    else Inr \<lparr> rr_change_id = cid, rr_run_id = rid, rr_app_id = app,
                               rr_state = state, rr_has_writes = hw,
                               rr_sequence = sequence_of (map_of m ''sequence''),
                               rr_digest = nonempty (optional_string (map_of m ''changeDigest'')),
                               rr_build_release = optional_string (map_of m ''buildReleaseId''),
                               rr_previous_release = optional_string (map_of m ''previousReleaseId'') \<rparr>)
           | _ \<Rightarrow> Inl journal_invalid)
      | _ \<Rightarrow> Inl journal_invalid)"

section \<open>The state of the handlers\<close>

datatype journal_file = No_file | Unparsable | Contents json

record runtime_event =
  re_event_id :: string
  re_change_id :: string
  re_sequence :: int
  re_state :: change_state
  re_reason :: string
  re_occurred_at :: string

record runtime_change =
  rc_change_id :: string
  rc_app_id :: string
  rc_state :: change_state
  rc_sequence :: int
  rc_digest :: "string option"
  rc_impact_plan :: "string option"
  rc_events :: "runtime_event list"

record build_identity =
  bi_source_sha :: string
  bi_config_digest :: string
  bi_release_id :: string

record active_release =
  rel_source_sha :: string
  rel_release_id :: "string option"

record 'w runtime =
  rt_world :: 'w
  rt_journal :: journal_file
  rt_changes :: "(string \<times> runtime_change) list"
  rt_run_changes :: "(string \<times> string) list"
  rt_builds :: "(string \<times> build_identity) list"
  rt_previous :: "(string \<times> active_release option) list"
  rt_blocked :: "string list"
  rt_drawn :: nat

type_synonym ('w, 'a) runtime_prog = "('w runtime, apply_exn, 'a) prog"

record validated =
  va_change_id :: string
  va_state :: change_state
  va_digest :: string
  va_impact_plan :: string

text \<open>
  What the handlers reach outside of their closure. \<open>en_write_file\<close> and \<open>en_sync_directory\<close> are the
  file system calls of \<open>writeJournal\<close> before and after the rename; \<open>en_event_id n\<close> is the
  identifier drawn as the n-th.
\<close>

record 'w runtime_env =
  en_event_id :: "nat \<Rightarrow> string"
  en_clock :: "'w \<Rightarrow> string"
  en_now :: "'w \<Rightarrow> millis"
  en_write_file :: "('w, unit) dep"
  en_sync_directory :: "('w, unit) dep"
  en_read_draft :: "string \<Rightarrow> ('w, staged_change option) dep"
  en_read_staged :: "string \<Rightarrow> ('w, staged_change option) dep"
  en_seal_draft :: "string \<Rightarrow> ('w, unit) dep"
  en_delete_draft :: "string \<Rightarrow> ('w, unit) dep"
  en_delete_staged :: "string \<Rightarrow> ('w, unit) dep"
  en_validate :: "string \<Rightarrow> ('w, validated) dep"
  en_source_ids :: "string list"
  en_read_current :: "string \<Rightarrow> ('w, snapshot_source) dep"
  en_fingerprint :: "string \<Rightarrow> string \<Rightarrow> string"
  en_snapshot_store :: "'w snapshot_store"
  en_read_snapshot :: "string \<Rightarrow> ('w, snapshot_payload option) dep"
  en_write_source :: "string \<Rightarrow> write_group \<Rightarrow> ('w, unit) dep"
  en_restore_source :: "snapshot_source \<Rightarrow> ('w, unit) dep"
  en_action_ids :: "string list"
  en_build_inputs :: "staged_change \<Rightarrow> ('w, build_identity) dep"
  en_current_release :: "('w, active_release) dep"
  en_run_action :: "string \<Rightarrow> string \<Rightarrow> build_identity option \<Rightarrow> ('w, unit) dep"
  en_rollback_build :: "string \<Rightarrow> string \<Rightarrow> build_identity \<Rightarrow> ('w, unit) dep"
  en_run_health :: "string \<Rightarrow> string list \<Rightarrow> (string \<times> string) option \<Rightarrow> ('w, bool) dep"
  en_lock :: "string \<Rightarrow> ('w, ('w, unit) dep) dep"

definition outside :: "('w, 'a) dep \<Rightarrow> ('w, 'a) runtime_prog" where
  "outside f = (\<lambda>rt. case f (rt_world rt) of (r, w) \<Rightarrow> (r, rt\<lparr>rt_world := w\<rparr>))"

section \<open>Reading and writing the journal\<close>

text \<open>
  Each entry that parses is remembered at once, so entries before a bad one have had their effect
  when the error is thrown.
\<close>

definition remember :: "recovery_record \<Rightarrow> 'w runtime \<Rightarrow> 'w runtime" where
  "remember r rt =
     rt\<lparr>rt_run_changes := AList.update (rr_run_id r) (rr_change_id r) (rt_run_changes rt),
        rt_blocked := (if rr_state r = Rollback_failed then List.insert (rr_app_id r) (rt_blocked rt)
                       else rt_blocked rt)\<rparr>"

fun read_entries :: "json list \<Rightarrow> ('w, recovery_record list) runtime_prog" where
  "read_entries [] = ret []"
| "read_entries (j # js) =
     (case parse_record j of
        Inl e \<Rightarrow> throw e
      | Inr r \<Rightarrow> then_prog (modify (remember r))
                 (bind_prog (read_entries js) (\<lambda>rs. ret (r # rs))))"

definition journal_records :: "('w, recovery_record list) runtime_prog" where
  "journal_records =
     bind_prog (gets rt_journal) (\<lambda>file.
       case file of
         No_file \<Rightarrow> ret []
       | Unparsable \<Rightarrow> throw journal_invalid
       | Contents j \<Rightarrow> (case j of JArr js \<Rightarrow> read_entries js | _ \<Rightarrow> throw journal_invalid))"

definition write_journal :: "'w runtime_env \<Rightarrow> recovery_record list \<Rightarrow> ('w, unit) runtime_prog" where
  "write_journal env rs =
     then_prog (outside (en_write_file env))
       (then_prog (modify (\<lambda>rt. rt\<lparr>rt_journal := Contents (JArr (map record_json rs))\<rparr>))
         (outside (en_sync_directory env)))"

section \<open>Recording the states of a change\<close>

definition state_for :: "string \<Rightarrow> string \<Rightarrow> 'w runtime \<Rightarrow> runtime_change" where
  "state_for cid app rt =
     (case map_of (rt_changes rt) cid of
        Some c \<Rightarrow> c
      | None \<Rightarrow> \<lparr> rc_change_id = cid, rc_app_id = app, rc_state = DRAFT, rc_sequence = 0,
                  rc_digest = None, rc_impact_plan = None, rc_events = [] \<rparr>)"

record record_input =
  ri_change_id :: string
  ri_app_id :: string
  ri_state :: change_state
  ri_reason :: string
  ri_sequence :: "int option"
  ri_impact_plan :: "string option"
  ri_digest :: "string option"

text \<open>An empty digest is not truthy, so it does not replace the digest of the change.\<close>

definition record_event :: "'w runtime_env \<Rightarrow> record_input \<Rightarrow> 'w runtime \<Rightarrow> 'w runtime" where
  "record_event env i rt =
     (let c = state_for (ri_change_id i) (ri_app_id i) rt;
          n = max (rc_sequence c + 1) (case ri_sequence i of None \<Rightarrow> 0 | Some k \<Rightarrow> k);
          ev = \<lparr> re_event_id = en_event_id env (rt_drawn rt), re_change_id = ri_change_id i,
                 re_sequence = n, re_state = ri_state i, re_reason = to_lower (ri_reason i),
                 re_occurred_at = en_clock env (rt_world rt) \<rparr>;
          c' = c\<lparr>rc_state := ri_state i, rc_sequence := n,
                 rc_impact_plan := (if ri_impact_plan i = None then rc_impact_plan c else ri_impact_plan i),
                 rc_digest := (if nonempty (ri_digest i) = None then rc_digest c else ri_digest i),
                 rc_events := rc_events c @ [ev]\<rparr>
      in rt\<lparr>rt_changes := AList.update (ri_change_id i) c' (rt_changes rt),
            rt_drawn := Suc (rt_drawn rt)\<rparr>)"

definition write_states :: "apply_state list" where
  "write_states =
     [Written, Action_running, Health_checking, Completed, Rolling_back, Rolled_back, Rollback_failed]"

definition previous_name :: "active_release \<Rightarrow> string" where
  "previous_name rel = (case rel_release_id rel of Some r \<Rightarrow> r | None \<Rightarrow> rel_source_sha rel)"

definition next_record ::
  "'w runtime \<Rightarrow> runtime_change \<Rightarrow> apply_event \<Rightarrow> recovery_record option \<Rightarrow> recovery_record" where
  "next_record rt c ev existing =
     \<lparr> rr_change_id = ae_change_id ev, rr_run_id = ae_run_id ev, rr_app_id = rc_app_id c,
       rr_state = ae_state ev,
       rr_has_writes = ((case existing of None \<Rightarrow> False | Some r \<Rightarrow> rr_has_writes r) \<or>
                        ae_state ev \<in> set write_states),
       rr_sequence = Some (int (ae_sequence ev)),
       rr_digest = nonempty (rc_digest c),
       rr_build_release =
         (case map_of (rt_builds rt) (ae_run_id ev) of
            Some b \<Rightarrow> Some (bi_release_id b)
          | None \<Rightarrow> (case existing of None \<Rightarrow> None | Some r \<Rightarrow> nonempty (rr_build_release r))),
       rr_previous_release =
         (case map_of (rt_previous rt) (ae_run_id ev) of
            Some (Some rel) \<Rightarrow> Some (previous_name rel)
          | _ \<Rightarrow> (case existing of None \<Rightarrow> None | Some r \<Rightarrow> nonempty (rr_previous_release r))) \<rparr>"

definition event_input :: "runtime_change \<Rightarrow> apply_event \<Rightarrow> record_input" where
  "event_input c ev =
     \<lparr> ri_change_id = ae_change_id ev, ri_app_id = rc_app_id c, ri_state = to_change (ae_state ev),
       ri_reason = ae_reason ev, ri_sequence = Some (int (ae_sequence ev)), ri_impact_plan = None,
       ri_digest = None \<rparr>"

definition forget_build :: "string \<Rightarrow> 'w runtime \<Rightarrow> 'w runtime" where
  "forget_build rid rt =
     rt\<lparr>rt_builds := AList.delete rid (rt_builds rt), rt_previous := AList.delete rid (rt_previous rt)\<rparr>"

definition persist_event :: "'w runtime_env \<Rightarrow> apply_event \<Rightarrow> ('w, unit) runtime_prog" where
  "persist_event env ev =
     bind_prog (gets (\<lambda>rt. map_of (rt_changes rt) (ae_change_id ev))) (\<lambda>known.
       case known of
         None \<Rightarrow> ret ()
       | Some c0 \<Rightarrow>
           then_prog (modify (record_event env (event_input c0 ev)))
           (bind_prog journal_records (\<lambda>rs.
            bind_prog (gets (\<lambda>rt. next_record rt (state_for (ae_change_id ev) (rc_app_id c0) rt) ev
                                     (find (\<lambda>r. rr_run_id r = ae_run_id ev) rs))) (\<lambda>next_r.
            then_prog (write_journal env (filter (\<lambda>r. rr_run_id r \<noteq> ae_run_id ev) rs @ [next_r]))
              (when_prog (apply_terminal (ae_state ev)) (modify (forget_build (ae_run_id ev))))))))"

definition persist_run_metadata :: "'w runtime_env \<Rightarrow> string \<Rightarrow> ('w, unit) runtime_prog" where
  "persist_run_metadata env rid =
     bind_prog journal_records (\<lambda>rs.
       case find (\<lambda>r. rr_run_id r = rid) rs of
         None \<Rightarrow> ret ()
       | Some existing \<Rightarrow>
           bind_prog (gets (\<lambda>rt. (map_of (rt_builds rt) rid, map_of (rt_previous rt) rid)))
             (\<lambda>(build, previous).
               write_journal env (filter (\<lambda>r. rr_run_id r \<noteq> rid) rs @
                 [existing\<lparr>rr_build_release := (case build of Some b \<Rightarrow> Some (bi_release_id b)
                                                 | None \<Rightarrow> rr_build_release existing),
                           rr_previous_release := (case previous of Some (Some rel) \<Rightarrow> Some (previous_name rel)
                                                 | _ \<Rightarrow> rr_previous_release existing)\<rparr>])))"

end
