(* ===== verification/RuntimeHandlers.thy ===== *)
theory RuntimeHandlers
  imports RuntimeJournal
begin

text \<open>
  The operations of the configuration agent: the start, the dependencies it gives to the apply
  coordinator, the recovery of interrupted runs and the request handlers
  (apps/config-agent/src/changes/runtimeHandlers.ts, function \<open>createRuntimeMutationHandlers\<close>), and
  apps/config-agent/src/changes/changeRecovery.ts.
\<close>

section \<open>Start\<close>

definition load_change :: "recovery_record \<Rightarrow> 'w runtime \<Rightarrow> 'w runtime" where
  "load_change r rt =
     (let c = state_for (rr_change_id r) (rr_app_id r) rt;
          c' = c\<lparr>rc_state := to_change (rr_state r),
                 rc_sequence := (case rr_sequence r of None \<Rightarrow> rc_sequence c | Some n \<Rightarrow> n),
                 rc_digest := (case rr_digest r of None \<Rightarrow> rc_digest c | Some d \<Rightarrow> Some d)\<rparr>
      in rt\<lparr>rt_changes := AList.update (rr_change_id r) c' (rt_changes rt)\<rparr>)"

definition start_runtime :: "('w, unit) runtime_prog" where
  "start_runtime =
     bind_prog journal_records (\<lambda>rs. for_each rs (\<lambda>r. modify (load_change r)))"

definition begin_runtime :: "'w \<Rightarrow> journal_file \<Rightarrow> 'w runtime" where
  "begin_runtime w file =
     \<lparr> rt_world = w, rt_journal = file, rt_changes = [], rt_run_changes = [], rt_builds = [],
       rt_previous = [], rt_blocked = [], rt_drawn = 0 \<rparr>"

section \<open>The dependencies of the coordinator\<close>

definition build_action :: string where
  "build_action = ''release.build_redeploy''"

definition capture_one ::
  "'w runtime_env \<Rightarrow> staged_change \<Rightarrow> string \<Rightarrow> ('w, snapshot_source) runtime_prog" where
  "capture_one env change src =
     (if src \<notin> set (en_source_ids env) then throw (OtherError ''SOURCE_NOT_FOUND'')
      else bind_prog (outside (en_read_current env src)) (\<lambda>current.
        let expected = map_option it_fingerprint (find (\<lambda>i. it_source_id i = src) (sc_items change))
        in if nonempty expected \<noteq> None \<and>
              Some (en_fingerprint env src (ss_bytes current)) \<noteq> expected
           then throw SourceChangedError
           else ret (current\<lparr>ss_source_id := src\<rparr>)))"

fun capture_all ::
  "'w runtime_env \<Rightarrow> staged_change \<Rightarrow> string list \<Rightarrow> ('w, snapshot_payload) runtime_prog" where
  "capture_all env change [] = ret []"
| "capture_all env change (src # srcs) =
     bind_prog (capture_one env change src) (\<lambda>x.
       bind_prog (capture_all env change srcs) (\<lambda>xs. ret (x # xs)))"

definition runtime_run_action :: "'w runtime_env \<Rightarrow> string \<Rightarrow> string \<Rightarrow> ('w, unit) runtime_prog" where
  "runtime_run_action env rid aid =
     bind_prog (gets (\<lambda>rt. map_of (rt_run_changes rt) rid)) (\<lambda>cid.
       bind_prog (case cid of None \<Rightarrow> ret None
                  | Some c \<Rightarrow> if c = [] then ret None else outside (en_read_staged env c)) (\<lambda>change.
         case change of
           None \<Rightarrow> outside (en_run_action env rid aid None)
         | Some ch \<Rightarrow>
             if aid \<in> set (en_action_ids env) \<and> aid = build_action
             then bind_prog (outside (en_build_inputs env ch)) (\<lambda>identity.
                  then_prog (modify (\<lambda>rt. rt\<lparr>rt_builds := AList.update rid identity (rt_builds rt)\<rparr>))
                  (bind_prog (outside (en_current_release env)) (\<lambda>rel.
                   then_prog (modify (\<lambda>rt. rt\<lparr>rt_previous := AList.update rid (Some rel) (rt_previous rt)\<rparr>))
                   (then_prog (persist_run_metadata env rid)
                     (outside (en_run_action env rid aid (Some identity)))))))
             else outside (en_run_action env rid aid None)))"

definition runtime_rollback_action ::
  "'w runtime_env \<Rightarrow> string \<Rightarrow> string \<Rightarrow> ('w, unit) runtime_prog" where
  "runtime_rollback_action env rid aid =
     (if aid \<noteq> build_action then ret ()
      else bind_prog (gets (\<lambda>rt. map_of (rt_builds rt) rid)) (\<lambda>build.
        case build of
          None \<Rightarrow> throw (OtherError ''BUILD_IDENTITY_MISSING'')
        | Some identity \<Rightarrow> outside (en_rollback_build env rid aid identity)))"

definition runtime_health ::
  "'w runtime_env \<Rightarrow> string \<Rightarrow> string list \<Rightarrow> ('w, bool) runtime_prog" where
  "runtime_health env rid checks =
     bind_prog (gets (\<lambda>rt. map_of (rt_builds rt) rid)) (\<lambda>build.
       outside (en_run_health env rid checks
         (map_option (\<lambda>b. (bi_release_id b, bi_config_digest b)) build)))"

text \<open>
  The release names: 40 hexadecimal digits of the source, then -cfg- and 64 of the configuration.
  \<open>derived_release\<close> answers the two parts of a name that has both.
\<close>

definition is_low_hex :: "char \<Rightarrow> bool" where
  "is_low_hex c \<longleftrightarrow> is_digit c \<or> c \<in> set ''abcdef''"

definition hex_run :: "nat \<Rightarrow> string \<Rightarrow> bool" where
  "hex_run n s \<longleftrightarrow> length s = n \<and> list_all is_low_hex s"

definition derived_release :: "string \<Rightarrow> (string \<times> string) option" where
  "derived_release name =
     (if hex_run 40 (take 40 name) \<and> take 5 (drop 40 name) = ''-cfg-'' \<and> hex_run 64 (drop 45 name)
      then Some (take 40 name, drop 45 name) else None)"

definition source_release :: "string \<Rightarrow> active_release option" where
  "source_release name =
     (if hex_run 40 name then Some \<lparr> rel_source_sha = name, rel_release_id = None \<rparr>
      else case derived_release name of
             None \<Rightarrow> None
           | Some (sha, _) \<Rightarrow> Some \<lparr> rel_source_sha = sha, rel_release_id = Some name \<rparr>)"

definition runtime_rollback_health ::
  "'w runtime_env \<Rightarrow> string \<Rightarrow> string list \<Rightarrow> ('w, bool) runtime_prog" where
  "runtime_rollback_health env rid checks =
     bind_prog (gets (\<lambda>rt. map_of (rt_previous rt) rid)) (\<lambda>previous.
       let release = (case previous of Some (Some rel) \<Rightarrow> nonempty (rel_release_id rel) | _ \<Rightarrow> None);
           expected = (case release of None \<Rightarrow> None
                       | Some name \<Rightarrow> map_option (\<lambda>(_, digest). (name, digest)) (derived_release name))
       in outside (en_run_health env rid
            (if expected \<noteq> None then checks else filter (\<lambda>c. c \<noteq> ''release.identity'') checks)
            expected))"

definition block_application :: "string \<Rightarrow> 'w runtime \<Rightarrow> 'w runtime" where
  "block_application app rt = rt\<lparr>rt_blocked := List.insert app (rt_blocked rt)\<rparr>"

definition on_rollback_failed :: "string \<Rightarrow> ('w, unit) runtime_prog" where
  "on_rollback_failed cid =
     modify (\<lambda>rt. case map_of (rt_changes rt) cid of
                   None \<Rightarrow> rt
                 | Some c \<Rightarrow> block_application (rc_app_id c) rt)"

definition runtime_lock ::
  "'w runtime_env \<Rightarrow> string \<Rightarrow> string \<Rightarrow> ('w runtime, ('w runtime, unit) dep) dep" where
  "runtime_lock env kind name =
     bind_prog (outside (en_lock env (kind @ '':'' @ name))) (\<lambda>release. ret (outside release))"

definition runtime_snapshot_store :: "'w runtime_env \<Rightarrow> 'w runtime snapshot_store" where
  "runtime_snapshot_store env =
     \<lparr> st_create = (\<lambda>sid change snap. outside (st_create (en_snapshot_store env) sid change snap)),
       st_mark_rollback_failed =
         (\<lambda>sid. outside (st_mark_rollback_failed (en_snapshot_store env) sid)) \<rparr>"

definition runtime_deps :: "'w runtime_env \<Rightarrow> 'w runtime dependencies" where
  "runtime_deps env =
     \<lparr> d_now = (\<lambda>rt. en_now env (rt_world rt)),
       d_read_staged = (\<lambda>cid. outside (en_read_staged env cid)),
       d_capture_snapshot = (\<lambda>change _. capture_all env change (sc_source_ids change)),
       d_persist_snapshot = None,
       d_snapshot_store = Some (runtime_snapshot_store env),
       d_application_lock = Some (runtime_lock env ''application''),
       d_source_lock = Some (runtime_lock env ''source''),
       d_action_lock = Some (runtime_lock env ''action''),
       d_write_source = (\<lambda>src g. outside (en_write_source env src g)),
       d_run_action = runtime_run_action env,
       d_rollback_action = Some (runtime_rollback_action env),
       d_run_health = runtime_health env,
       d_restore_snapshot =
         (\<lambda>_ _ snap. for_each snap (\<lambda>src. outside (en_restore_source env src))),
       d_rollback_health = Some (runtime_rollback_health env),
       d_persist_event = persist_event env,
       d_on_rollback_failed = Some (\<lambda>cid _ _. on_rollback_failed cid) \<rparr>"

section \<open>Recovery\<close>

text \<open>\<open>reconcile\<close>: the first unfinished record of each run, in the order of the journal.\<close>

fun unfinished :: "(string \<times> recovery_record) list \<Rightarrow> recovery_record list
    \<Rightarrow> (string \<times> recovery_record) list" where
  "unfinished seen [] = seen"
| "unfinished seen (r # rs) =
     (if \<not> apply_terminal (rr_state r) \<and> map_of seen (rr_run_id r) = None
      then unfinished (AList.update (rr_run_id r) r seen) rs
      else unfinished seen rs)"

type_synonym ('s, 'e) observation = "(recovery_record \<Rightarrow> ('s, 'e, string option) prog) option"

definition observe :: "('s, 'e) observation \<Rightarrow> recovery_record \<Rightarrow> ('s, 'e, string option) prog" where
  "observe obs r = (case obs of None \<Rightarrow> ret None | Some f \<Rightarrow> f r)"

definition same_run :: "string option \<Rightarrow> recovery_record \<Rightarrow> bool" where
  "same_run seen r \<longleftrightarrow> (case seen of None \<Rightarrow> True | Some rid \<Rightarrow> rid = rr_run_id r)"

fun resume_all ::
  "('s, 'e) observation \<Rightarrow> ('s, 'e) observation \<Rightarrow> (recovery_record \<Rightarrow> ('s, 'e, apply_state) prog)
     \<Rightarrow> recovery_record list \<Rightarrow> ('s, 'e, (string \<times> string \<times> apply_state) list) prog" where
  "resume_all agent fixed resume [] = ret []"
| "resume_all agent fixed resume (r # rs) =
     bind_prog (observe agent r) (\<lambda>a. bind_prog (observe fixed r) (\<lambda>f.
       if \<not> same_run a r \<or> \<not> same_run f r then resume_all agent fixed resume rs
       else bind_prog (resume r) (\<lambda>st.
         bind_prog (resume_all agent fixed resume rs) (\<lambda>out.
           ret ((rr_change_id r, rr_run_id r, st) # out)))))"

definition reconcile ::
  "('s, 'e, recovery_record list) prog \<Rightarrow> ('s, 'e) observation \<Rightarrow> ('s, 'e) observation
     \<Rightarrow> (recovery_record \<Rightarrow> ('s, 'e, apply_state) prog)
     \<Rightarrow> ('s, 'e, (string \<times> string \<times> apply_state) list) prog" where
  "reconcile read agent fixed resume =
     bind_prog read (\<lambda>journal. resume_all agent fixed resume (map snd (unfinished [] journal)))"

text \<open>\<open>coordinator.resume\<close> of the recovery, for a record with writes.\<close>

definition recovery_event :: "recovery_record \<Rightarrow> apply_state \<Rightarrow> int \<Rightarrow> string \<Rightarrow> apply_event" where
  "recovery_event r st k reason =
     \<lparr> ae_change_id = rr_change_id r, ae_run_id = rr_run_id r, ae_state = st,
       ae_sequence = nat ((case rr_sequence r of None \<Rightarrow> 0 | Some n \<Rightarrow> n) + k), ae_reason = reason \<rparr>"

definition remember_builds :: "recovery_record \<Rightarrow> 'w runtime \<Rightarrow> 'w runtime" where
  "remember_builds r rt =
     (let rid = rr_run_id r;
          builds = (case nonempty (rr_build_release r) of None \<Rightarrow> rt_builds rt
            | Some name \<Rightarrow> (case derived_release name of None \<Rightarrow> rt_builds rt
                | Some (sha, digest) \<Rightarrow> AList.update rid
                    \<lparr> bi_source_sha = sha, bi_config_digest = digest, bi_release_id = name \<rparr>
                    (rt_builds rt)));
          previous = (case nonempty (rr_previous_release r) of None \<Rightarrow> rt_previous rt
            | Some name \<Rightarrow> (case source_release name of None \<Rightarrow> rt_previous rt
                | Some rel \<Rightarrow> AList.update rid (Some rel) (rt_previous rt)))
      in rt\<lparr>rt_run_changes := AList.update rid (rr_change_id r) (rt_run_changes rt),
            rt_builds := builds, rt_previous := previous\<rparr>)"

definition undo_run ::
  "'w runtime_env \<Rightarrow> recovery_record \<Rightarrow> staged_change \<Rightarrow> snapshot_payload
     \<Rightarrow> ('w, apply_state) runtime_prog" where
  "undo_run env r change snap =
     catch_prog
       (then_prog (persist_event env (recovery_event r Rolling_back 1 ''RECOVERY_ROLLBACK_STARTED''))
       (then_prog (for_each snap (\<lambda>src. outside (en_restore_source env src)))
       (then_prog (for_each (sc_action_ids change) (runtime_rollback_action env (rr_run_id r)))
       (then_prog (persist_event env (recovery_event r Rolled_back 2 ''RECOVERY_ROLLBACK_COMPLETED''))
         (ret Rolled_back)))))
       (\<lambda>_. then_prog
          (ignore_error
            (persist_event env (recovery_event r Rollback_failed 2 ''RECOVERY_ROLLBACK_FAILED'')))
          (then_prog (modify (block_application (sc_app_id change))) (ret Rollback_failed)))"

definition resume_record ::
  "'w runtime_env \<Rightarrow> (apply_input \<Rightarrow> ('w, apply_result) runtime_prog) \<Rightarrow> recovery_record
     \<Rightarrow> ('w, apply_state) runtime_prog" where
  "resume_record env resume r =
     (if \<not> rr_has_writes r
      then bind_prog (resume \<lparr> in_change_id = rr_change_id r, in_run_id = rr_run_id r,
                              in_digest = (case rr_digest r of None \<Rightarrow> [] | Some d \<Rightarrow> d) \<rparr>)
             (\<lambda>res. ret (ar_state res))
      else bind_prog (outside (en_read_staged env (rr_change_id r))) (\<lambda>change.
           bind_prog (outside (en_read_snapshot env (''SNAP_'' @ rr_run_id r))) (\<lambda>snap.
             case (change, snap) of
               (Some ch, Some sn) \<Rightarrow>
                 then_prog (modify (remember_builds r)) (undo_run env r ch sn)
             | _ \<Rightarrow> throw (OtherError ''CONFIG_AGENT_RECOVERY_SNAPSHOT_MISSING''))))"


section \<open>The request handlers\<close>

text \<open>
  \<open>awaiting\<close> is \<open>awaitRecovery\<close>: every handler throws while the recovery of the start has failed.
  The answers that only repeat the request are left out of the model's results.
\<close>

definition awaiting :: "bool \<Rightarrow> ('w, 'a) runtime_prog \<Rightarrow> ('w, 'a) runtime_prog" where
  "awaiting recovered m =
     (if recovered then m else throw (OtherError ''CONFIG_AGENT_RECOVERY_FAILED''))"

definition handle_validate ::
  "'w runtime_env \<Rightarrow> bool \<Rightarrow> string \<Rightarrow> string \<Rightarrow> ('w, validated) runtime_prog" where
  "handle_validate env recovered app request =
     awaiting recovered
       (bind_prog (outside (en_validate env request)) (\<lambda>v.
         then_prog (modify (record_event env
           \<lparr> ri_change_id = va_change_id v, ri_app_id = app, ri_state = va_state v,
             ri_reason = ''VALIDATION_READY'', ri_sequence = None,
             ri_impact_plan = Some (va_impact_plan v), ri_digest = Some (va_digest v) \<rparr>))
           (ret v)))"

definition handle_save ::
  "'w runtime_env \<Rightarrow> bool \<Rightarrow> string \<Rightarrow> string \<Rightarrow> ('w, staged_change) runtime_prog" where
  "handle_save env recovered cid digest =
     awaiting recovered
       (bind_prog (outside (en_read_draft env cid)) (\<lambda>draft.
         if draft = None \<or> map_option sc_digest draft \<noteq> Some digest
         then throw (OtherError ''CONFIG_CHANGE_INVALID_STATE'')
         else then_prog (outside (en_seal_draft env cid))
           (bind_prog (outside (en_read_staged env cid)) (\<lambda>staged.
             case staged of
               None \<Rightarrow> throw (OtherError ''CONFIG_CHANGE_NOT_FOUND'')
             | Some ch \<Rightarrow>
                 then_prog (modify (record_event env
                   \<lparr> ri_change_id = cid, ri_app_id = sc_app_id ch, ri_state = SAVED,
                     ri_reason = ''CHANGE_SAVED'', ri_sequence = None, ri_impact_plan = None,
                     ri_digest = Some (sc_digest ch) \<rparr>))
                   (ret ch)))))"

definition handle_apply ::
  "'w runtime_env \<Rightarrow> bool \<Rightarrow> apply_input \<Rightarrow> ('w, unit) runtime_prog" where
  "handle_apply env recovered inp =
     awaiting recovered
       (bind_prog (outside (en_read_staged env (in_change_id inp))) (\<lambda>staged.
         case staged of
           None \<Rightarrow> throw (OtherError ''CONFIG_CHANGE_INVALID_STATE'')
         | Some ch \<Rightarrow>
             if sc_digest ch \<noteq> in_digest inp then throw (OtherError ''CONFIG_CHANGE_INVALID_STATE'')
             else bind_prog (gets rt_blocked) (\<lambda>blocked.
               if sc_app_id ch \<in> set blocked
               then throw (OtherError ''CONFIG_APPLICATION_BLOCKED'')
               else then_prog (modify (\<lambda>rt. rt\<lparr>rt_run_changes :=
                        AList.update (in_run_id inp) (in_change_id inp) (rt_run_changes rt)\<rparr>))
                      (modify (record_event env
                        \<lparr> ri_change_id = sc_change_id ch, ri_app_id = sc_app_id ch,
                          ri_state = APPLYING, ri_reason = ''APPLY_STARTED'', ri_sequence = None,
                          ri_impact_plan = None, ri_digest = Some (sc_digest ch) \<rparr>)))))"

definition handle_cancel ::
  "'w runtime_env \<Rightarrow> bool \<Rightarrow> string \<Rightarrow> ('w, unit) runtime_prog" where
  "handle_cancel env recovered cid =
     awaiting recovered
       (bind_prog (outside (en_read_draft env cid)) (\<lambda>draft.
        bind_prog (outside (en_read_staged env cid)) (\<lambda>staged.
          case (case draft of Some ch \<Rightarrow> Some ch | None \<Rightarrow> staged) of
            None \<Rightarrow> throw (OtherError ''CONFIG_CHANGE_NOT_FOUND'')
          | Some current \<Rightarrow>
              then_prog (when_prog (staged \<noteq> None) (outside (en_delete_staged env cid)))
              (then_prog (when_prog (draft \<noteq> None) (outside (en_delete_draft env cid)))
                (modify (record_event env
                  \<lparr> ri_change_id = cid, ri_app_id = sc_app_id current, ri_state = CANCELLED,
                    ri_reason = ''CHANGE_CANCELLED'', ri_sequence = None, ri_impact_plan = None,
                    ri_digest = None \<rparr>))))))"

text \<open>\<open>events_after\<close>: \<open>slice\<close> from the place after the event, or from the start if it is unknown.\<close>

fun find_index :: "('a \<Rightarrow> bool) \<Rightarrow> 'a list \<Rightarrow> nat option" where
  "find_index P [] = None"
| "find_index P (x # xs) = (if P x then Some 0 else map_option Suc (find_index P xs))"

definition events_after :: "string option \<Rightarrow> runtime_event list \<Rightarrow> runtime_event list" where
  "events_after after evs =
     (case nonempty after of
        None \<Rightarrow> evs
      | Some eid \<Rightarrow>
          drop (case find_index (\<lambda>e. re_event_id e = eid) evs of None \<Rightarrow> 0 | Some i \<Rightarrow> i + 1) evs)"

definition handle_status ::
  "bool \<Rightarrow> string \<Rightarrow> string option \<Rightarrow> ('w, runtime_change \<times> runtime_event list) runtime_prog" where
  "handle_status recovered cid after =
     awaiting recovered
       (bind_prog (gets (\<lambda>rt. map_of (rt_changes rt) cid)) (\<lambda>known.
         case known of
           None \<Rightarrow> throw (OtherError ''CONFIG_CHANGE_NOT_FOUND'')
         | Some c \<Rightarrow> ret (c, events_after after (rc_events c))))"

definition handle_clear_block ::
  "bool \<Rightarrow> string \<Rightarrow> string \<Rightarrow> ('w, unit) runtime_prog" where
  "handle_clear_block recovered app role =
     awaiting recovered
       (bind_prog (gets rt_blocked) (\<lambda>blocked.
         if role \<noteq> ''ops_owner'' \<or> app \<notin> set blocked
         then throw (OtherError ''CONFIG_APPLICATION_BLOCKED'')
         else modify (\<lambda>rt. rt\<lparr>rt_blocked := removeAll app (rt_blocked rt)\<rparr>)))"

end
