(* ===== verification/ApplyWorld.thy ===== *)
theory ApplyWorld
  imports ApplyLocks
begin

text \<open>
  Invariants of the world of an apply run: what every dependency of the coordinator keeps, every run
  keeps (apps/config-agent/src/changes/applyCoordinator.ts).
\<close>

definition lock_keeps :: "('w \<Rightarrow> bool) \<Rightarrow> (string \<Rightarrow> ('w, ('w, unit) dep) dep) \<Rightarrow> bool" where
  "lock_keeps I lock \<longleftrightarrow>
     (\<forall>x. triple I (lock x) (\<lambda>release w. I w \<and> keeps I release) (\<lambda>_. I))"

definition world_ok :: "('w \<Rightarrow> bool) \<Rightarrow> 'w run_state \<Rightarrow> bool" where
  "world_ok I s \<longleftrightarrow> I (r_world s) \<and> (\<forall>(n, f) \<in> set (r_releases s). keeps I f)"

lemma keeps_world_invoke: "keeps I f \<Longrightarrow> keeps (world_ok I) (invoke c f)"
  by (force simp: keeps_def invoke_def world_ok_def split: prod.splits sum.splits)

lemma keeps_world_modify:
  "(\<And>s. r_world (f s) = r_world s \<and> r_releases (f s) = r_releases s) \<Longrightarrow>
     keeps (world_ok I) (modify f)"
  by (rule keeps_modify) (simp add: world_ok_def)

lemma keeps_world_acquire:
  assumes "\<And>lock. locks = Some lock \<Longrightarrow> lock_keeps I lock"
  shows "keeps (world_ok I) (acquire name locks x)"
proof (cases locks)
  case None
  then show ?thesis by (simp add: acquire_def if_present_def keeps_ret)
next
  case (Some lock)
  have lock: "lock_keeps I lock" using Some assms by blast
  show ?thesis
    unfolding keeps_def
  proof (intro allI impI)
    fix s :: "'a run_state"
    assume ok: "world_ok I s"
    obtain a w where answer: "lock x (r_world s) = (a, w)" by fastforce
    have "\<forall>v. I v \<longrightarrow> (case lock x v of (Inr release, w) \<Rightarrow> I w \<and> keeps I release | (Inl e, w) \<Rightarrow> I w)"
      using lock unfolding lock_keeps_def triple_def by (rule spec)
    moreover have "I (r_world s)"
      using ok by (simp add: world_ok_def)
    ultimately have "case a of Inr release \<Rightarrow> I w \<and> keeps I release | Inl e \<Rightarrow> I w"
      using answer by fastforce
    then show "world_ok I (snd (acquire name locks x s))"
      using ok answer Some
      by (cases a) (auto simp: acquire_def if_present_def bind_prog_def invoke_def modify_def world_ok_def)
  qed
qed

text \<open>The interface: an invariant of the world that every dependency keeps.\<close>

locale apply_environment =
  fixes I :: "'w \<Rightarrow> bool" and d :: "'w dependencies"
  assumes read_staged: "keeps I (d_read_staged d cid)"
    and capture: "keeps I (d_capture_snapshot d change rid)"
    and persist_snapshot: "d_persist_snapshot d = Some f \<Longrightarrow> keeps I (f sid change snap)"
    and create_snapshot: "d_snapshot_store d = Some st \<Longrightarrow> keeps I (st_create st sid change snap)"
    and mark_failed: "d_snapshot_store d = Some st \<Longrightarrow> keeps I (st_mark_rollback_failed st sid)"
    and application_lock: "d_application_lock d = Some lock \<Longrightarrow> lock_keeps I lock"
    and source_lock: "d_source_lock d = Some lock \<Longrightarrow> lock_keeps I lock"
    and action_lock: "d_action_lock d = Some lock \<Longrightarrow> lock_keeps I lock"
    and write_source: "keeps I (d_write_source d src g)"
    and run_action: "keeps I (d_run_action d rid aid)"
    and rollback_action: "d_rollback_action d = Some undo \<Longrightarrow> keeps I (undo rid aid)"
    and run_health: "keeps I (d_run_health d rid checks)"
    and restore: "keeps I (d_restore_snapshot d change rid snap)"
    and rollback_health: "d_rollback_health d = Some check \<Longrightarrow> keeps I (check rid checks)"
    and persist_event: "keeps I (d_persist_event d ev)"
    and on_rollback_failed: "d_on_rollback_failed d = Some notify \<Longrightarrow> keeps I (notify cid rid sid)"
begin

lemma emit_keeps: "keeps (world_ok I) (emit d cid rid st reason)"
  by (auto simp: emit_def Let_def intro!: keeps_intros keeps_world_invoke keeps_world_modify persist_event)

lemma admit_keeps: "keeps (world_ok I) (admit d inp)"
  by (auto simp: admit_def intro!: keeps_intros keeps_world_invoke keeps_world_modify
      keeps_world_acquire read_staged application_lock)

lemma start_keeps: "keeps (world_ok I) (start_machine d inp change)"
  by (auto simp: start_machine_def intro!: keeps_intros keeps_world_invoke keeps_world_modify persist_event)

lemma locks_keep: "keeps (world_ok I) (acquire_locks d change)"
  by (auto simp: acquire_locks_def intro!: keeps_intros keeps_world_acquire intro: source_lock action_lock)

lemma snapshot_keeps: "keeps (world_ok I) (take_snapshot d inp change)"
  by (auto simp: take_snapshot_def
      intro!: keeps_intros keeps_world_invoke keeps_world_modify emit_keeps capture persist_snapshot
        create_snapshot)

lemma write_keeps: "keeps (world_ok I) (write_sources d inp change)"
  by (auto simp: write_sources_def
      intro!: keeps_intros keeps_world_invoke keeps_world_modify emit_keeps write_source)

lemma actions_keep: "keeps (world_ok I) (run_actions d inp change)"
  by (auto simp: run_actions_def intro!: keeps_intros keeps_world_invoke emit_keeps run_action)

lemma health_keeps: "keeps (world_ok I) (check_health d inp change)"
  by (auto simp: check_health_def intro!: keeps_intros keeps_world_invoke emit_keeps run_health)

lemma give_up_keeps: "keeps (world_ok I) (give_up d inp change)"
  by (auto simp: give_up_def
      intro!: keeps_intros keeps_world_invoke emit_keeps on_rollback_failed)

lemma close_keeps: "keeps (world_ok I) (close_unwritten d inp change)"
  by (auto simp: close_unwritten_def intro!: keeps_intros emit_keeps give_up_keeps)

lemma roll_back_keeps: "keeps (world_ok I) (roll_back d inp change snap)"
  by (auto simp: roll_back_def
      intro!: keeps_intros keeps_world_invoke emit_keeps give_up_keeps restore rollback_action
        rollback_health mark_failed)

lemma try_keeps: "keeps (world_ok I) (try_block d inp)"
  unfolding try_block_def
  by (intro keeps_intros admit_keeps start_keeps locks_keep snapshot_keeps write_keeps actions_keep
      health_keeps)

lemma body_keeps: "keeps (world_ok I) (catch_prog (try_block d inp) (catch_block d inp))"
  by (auto simp: catch_block_def intro!: keeps_intros try_keeps close_keeps roll_back_keeps)

lemma release_all_keeps: "world_ok I s \<Longrightarrow> I (r_world (release_all s))"
proof -
  assume ok: "world_ok I s"
  have "keeps (world_ok I) (for_each (rev (r_releases s))
      (\<lambda>(name, release). ignore_error (invoke (Release name) release)))"
    using ok by (intro keeps_for_each) (auto simp: world_ok_def intro!: keeps_intros keeps_world_invoke)
  with ok have "world_ok I (release_all s)"
    by (simp add: keeps_def release_all_def)
  then show ?thesis by (simp add: world_ok_def)
qed

lemma perform_keeps:
  assumes "perform_apply d inp (begin_run w active) = (r, s)" and "I w"
  shows "I (r_world s)"
proof -
  obtain s' where body: "catch_prog (try_block d inp) (catch_block d inp) (begin_run w active) = (r, s')"
    and s: "s = leave (release_all s')"
    using perform_apply_body [OF assms(1)] .
  have "world_ok I (begin_run w active)"
    using assms(2) by (simp add: world_ok_def begin_run_def)
  then have "world_ok I s'"
    using body_keeps body by (blast intro: keepsD)
  then show ?thesis
    using release_all_keeps s by simp
qed

end

end
