(* ===== verification/RuntimeInvariants.thy ===== *)
theory RuntimeInvariants
  imports RuntimeHandlers ApplyWorld
begin

text \<open>
  Invariants of the configuration agent (apps/config-agent/src/changes/runtimeHandlers.ts): what the
  few elementary updates of its state keep, every handler, every apply run and every recovery keeps.
  Two invariants are instances: the events of a change, and the blocked applications.
\<close>

lemma keeps_outside: "(\<And>rt w. I rt \<Longrightarrow> I (rt\<lparr>rt_world := w\<rparr>)) \<Longrightarrow> keeps I (outside f)"
  by (auto simp: keeps_def outside_def split: prod.splits)

lemma keeps_when [keeps_intros]: "(c \<Longrightarrow> keeps I m) \<Longrightarrow> keeps I (when_prog c m)"
  by (simp add: when_prog_def keeps_ret)

text \<open>The interface: an invariant that the elementary updates keep.\<close>

locale runtime_invariant =
  fixes env :: "'w runtime_env" and I :: "'w runtime \<Rightarrow> bool"
  assumes world: "I rt \<Longrightarrow> I (rt\<lparr>rt_world := w\<rparr>)"
    and journal: "I rt \<Longrightarrow> I (rt\<lparr>rt_journal := j\<rparr>)"
    and run_changes: "I rt \<Longrightarrow> I (rt\<lparr>rt_run_changes := m\<rparr>)"
    and builds: "I rt \<Longrightarrow> I (rt\<lparr>rt_builds := b\<rparr>)"
    and previous: "I rt \<Longrightarrow> I (rt\<lparr>rt_previous := p\<rparr>)"
    and blocked: "I rt \<Longrightarrow> I (rt\<lparr>rt_blocked := List.insert app (rt_blocked rt)\<rparr>)"
    and recorded: "I rt \<Longrightarrow> I (record_event env i rt)"
begin

lemma outside_keeps: "keeps I (outside f)"
  by (rule keeps_outside) (rule world)

lemma remember_keeps: "keeps I (modify (remember r))"
proof (rule keeps_modify)
  fix rt :: "'w runtime"
  assume "I rt"
  then have both: "I (rt\<lparr>rt_run_changes := AList.update (rr_run_id r) (rr_change_id r) (rt_run_changes rt)\<rparr>)"
    by (rule run_changes)
  show "I (remember r rt)"
    using both blocked [OF both, of "rr_app_id r"] by (simp add: remember_def)
qed

lemma read_entries_keeps: "keeps I (read_entries js)"
  by (induction js) (auto intro!: keeps_intros remember_keeps)

lemma journal_records_keeps: "keeps I journal_records"
  unfolding journal_records_def
  by (intro keeps_intros) (auto intro!: keeps_intros read_entries_keeps split: journal_file.split json.split)

lemma write_journal_keeps: "keeps I (write_journal env rs)"
  unfolding write_journal_def
  by (intro keeps_intros outside_keeps keeps_modify) (erule journal)

lemma persist_event_keeps: "keeps I (persist_event env ev)"
  unfolding persist_event_def
proof (intro keeps_intros journal_records_keeps write_journal_keeps keeps_modify)
  show "I rt \<Longrightarrow> I (record_event env (event_input c ev) rt)" for rt c
    by (rule recorded)
  show "I rt \<Longrightarrow> I (forget_build (ae_run_id ev) rt)" for rt
    unfolding forget_build_def by (intro previous builds)
qed

lemma metadata_keeps: "keeps I (persist_run_metadata env rid)"
  unfolding persist_run_metadata_def
  by (intro keeps_intros journal_records_keeps write_journal_keeps)

lemma capture_keeps: "keeps I (capture_all env change srcs)"
  by (induction srcs)
    (auto simp: capture_one_def Let_def intro!: keeps_intros outside_keeps)

lemma run_action_keeps: "keeps I (runtime_run_action env rid aid)"
  by (auto simp: runtime_run_action_def
      intro!: keeps_intros outside_keeps metadata_keeps keeps_modify builds previous)

lemma rollback_action_keeps: "keeps I (runtime_rollback_action env rid aid)"
  by (auto simp: runtime_rollback_action_def intro!: keeps_intros outside_keeps)

lemma health_keeps: "keeps I (runtime_health env rid checks)"
  by (auto simp: runtime_health_def intro!: keeps_intros outside_keeps)

lemma rollback_health_keeps: "keeps I (runtime_rollback_health env rid checks)"
  by (auto simp: runtime_rollback_health_def Let_def intro!: keeps_intros outside_keeps)

lemma block_keeps: "keeps I (modify (block_application app))"
  by (rule keeps_modify) (simp add: block_application_def blocked)

lemma on_rollback_failed_keeps: "keeps I (on_rollback_failed cid)"
  unfolding on_rollback_failed_def
  by (rule keeps_modify) (auto simp: block_application_def split: option.split intro: blocked)

lemma lock_keeps: "lock_keeps I (runtime_lock env kind)"
  using outside_keeps
  by (auto simp: lock_keeps_def triple_def runtime_lock_def bind_prog_def ret_def outside_def
      split: prod.splits sum.splits intro: world)

lemma restore_keeps: "keeps I (for_each snap (\<lambda>src. outside (en_restore_source env src)))"
  by (intro keeps_intros outside_keeps)

lemma undo_keeps: "keeps I (undo_run env r change snap)"
  by (auto simp: undo_run_def intro!: keeps_intros persist_event_keeps restore_keeps
      rollback_action_keeps block_keeps)

lemma remember_builds_keeps: "keeps I (modify (remember_builds r))"
proof (rule keeps_modify)
  fix rt :: "'w runtime"
  assume "I rt"
  then have "I (rt\<lparr>rt_run_changes := m, rt_builds := b, rt_previous := p\<rparr>)" for m b p
    by (intro run_changes builds previous)
  then show "I (remember_builds r rt)"
    by (simp add: remember_builds_def Let_def)
qed

lemma resume_keeps:
  assumes "\<And>inp. keeps I (resume inp)"
  shows "keeps I (resume_record env resume r)"
  unfolding resume_record_def
  by (intro keeps_intros assms outside_keeps) (auto split: option.split
      intro!: keeps_intros remember_builds_keeps undo_keeps)

lemma handlers_keep:
  "keeps I (handle_validate env b app request)" "keeps I (handle_save env b cid digest)"
  "keeps I (handle_apply env b inp)" "keeps I (handle_cancel env b cid)"
  "keeps I (handle_status b cid after)"
  by (auto simp: handle_validate_def handle_save_def handle_apply_def handle_cancel_def
      handle_status_def awaiting_def
      intro!: keeps_intros outside_keeps keeps_modify recorded run_changes split: option.split)

end

sublocale runtime_invariant \<subseteq> run: apply_environment I "runtime_deps env"
  by unfold_locales
    (auto simp: runtime_deps_def runtime_snapshot_store_def intro: outside_keeps capture_keeps
      run_action_keeps rollback_action_keeps health_keeps rollback_health_keeps persist_event_keeps
      on_rollback_failed_keeps lock_keeps restore_keeps)

section \<open>What the agent does\<close>

datatype agent_label =
    Validating string | Saving string | Accepting apply_input | Cancelling string
  | Clearing string string | Running apply_input | Undoing recovery_record

inductive agent_step :: "'w runtime_env \<Rightarrow> agent_label \<Rightarrow> 'w runtime \<Rightarrow> 'w runtime \<Rightarrow> bool"
  for env where
  step_validate: "handle_validate env b app request rt = (res, rt') \<Longrightarrow>
    agent_step env (Validating request) rt rt'"
| step_save: "handle_save env b cid digest rt = (res, rt') \<Longrightarrow> agent_step env (Saving cid) rt rt'"
| step_accept: "handle_apply env b inp rt = (res, rt') \<Longrightarrow> agent_step env (Accepting inp) rt rt'"
| step_cancel: "handle_cancel env b cid rt = (res, rt') \<Longrightarrow> agent_step env (Cancelling cid) rt rt'"
| step_clear: "handle_clear_block b app role rt = (res, rt') \<Longrightarrow>
    agent_step env (Clearing app role) rt rt'"
| step_run: "perform_apply (runtime_deps env) inp (begin_run rt active) = (res, s) \<Longrightarrow>
    agent_step env (Running inp) rt (r_world s)"
| step_undo: "undo_run env r change snap rt = (res, rt') \<Longrightarrow> agent_step env (Undoing r) rt rt'"

lemma clear_block_effect:
  "handle_clear_block b app role rt = (res, rt') \<Longrightarrow>
     rt' = rt \<or> (role = ''ops_owner'' \<and> rt' = rt\<lparr>rt_blocked := removeAll app (rt_blocked rt)\<rparr>)"
  by (auto simp: handle_clear_block_def awaiting_def bind_prog_def gets_def throw_def modify_def
      split: if_splits)

context runtime_invariant begin

lemma step_keeps:
  assumes "agent_step env l rt rt'" and "I rt"
  shows "I rt' \<or> (\<exists>app. l = Clearing app ''ops_owner'' \<and>
    rt' = rt\<lparr>rt_blocked := removeAll app (rt_blocked rt)\<rparr>)"
  using assms
proof (cases rule: agent_step.cases)
  case (step_validate b app request res)
  then show ?thesis using keepsD [OF handlers_keep(1)] assms(2) by blast
next
  case (step_save b cid digest res)
  then show ?thesis using keepsD [OF handlers_keep(2)] assms(2) by blast
next
  case (step_accept b inp res)
  then show ?thesis using keepsD [OF handlers_keep(3)] assms(2) by blast
next
  case (step_cancel b cid res)
  then show ?thesis using keepsD [OF handlers_keep(4)] assms(2) by blast
next
  case (step_clear b app role res)
  then show ?thesis using clear_block_effect assms(2) by blast
next
  case (step_run inp active res s)
  then show ?thesis using run.perform_keeps assms(2) by blast
next
  case (step_undo r change snap res)
  then show ?thesis using keepsD [OF undo_keeps] assms(2) by blast
qed

end

inductive agent_reachable :: "'w runtime_env \<Rightarrow> 'w runtime \<Rightarrow> bool" for env where
  agent_started: "start_runtime (begin_runtime w jf) = (Inr (), rt) \<Longrightarrow> agent_reachable env rt"
| agent_stepped: "agent_reachable env rt \<Longrightarrow> agent_step env l rt rt' \<Longrightarrow> agent_reachable env rt'"


end
