(* ===== verification/RuntimeProps.thy ===== *)
theory RuntimeProps
  imports RuntimeInvariants
begin

text \<open>
  Properties of the configuration agent's journal and of its handlers
  (apps/config-agent/src/changes/runtimeHandlers.ts and changeRecovery.ts): reading the journal
  back, which runs are recovered, the events of a change, blocked applications, and what becomes of
  an apply run whose events go to this journal.
\<close>

section \<open>Reading the journal back\<close>

definition journalable :: "recovery_record \<Rightarrow> bool" where
  "journalable r \<longleftrightarrow>
     (case rr_sequence r of None \<Rightarrow> True | Some n \<Rightarrow> is_safe_integer n \<and> 1 \<le> n)"

definition read_back :: "recovery_record \<Rightarrow> recovery_record" where
  "read_back r = r\<lparr>rr_digest := nonempty (rr_digest r)\<rparr>"

lemma state_of_name_state_name [simp]: "state_of_name (state_name st) = Some st"
  by (cases st) (simp_all add: state_of_name_def all_apply_states_def)

lemma record_members:
  fixes r :: recovery_record
  defines "m \<equiv> member ''sequence'' (rr_sequence r) JNum
           @ member ''changeDigest'' (rr_digest r) JStr
           @ member ''buildReleaseId'' (rr_build_release r) JStr
           @ member ''previousReleaseId'' (rr_previous_release r) JStr"
  shows "map_of m ''sequence'' = map_option JNum (rr_sequence r)"
    and "map_of m ''changeDigest'' = map_option JStr (rr_digest r)"
    and "map_of m ''buildReleaseId'' = map_option JStr (rr_build_release r)"
    and "map_of m ''previousReleaseId'' = map_option JStr (rr_previous_release r)"
  by (simp_all add: m_def member_def split: option.split)

lemma json_options [simp]:
  "optional_string (map_option JStr x) = x" "sequence_of (map_option JNum y) = y"
  by (cases x; simp add: optional_string_def) (cases y; simp add: sequence_of_def)

lemma sequence_ok_journalable: "sequence_ok (map_option JNum (rr_sequence r)) = journalable r"
  by (cases "rr_sequence r") (simp_all add: sequence_ok_def journalable_def)

lemma parse_record_json:
  "parse_record (record_json r) = (if journalable r then Inr (read_back r) else Inl journal_invalid)"
  by (simp add: parse_record_def record_json_def record_members sequence_ok_journalable
      read_back_def del: map_of_append) auto

lemma read_entries_json:
  "fst (read_entries (map record_json rs) rt) =
     (if list_all journalable rs then Inr (map read_back rs) else Inl journal_invalid)"
proof (induction rs arbitrary: rt)
  case Nil
  show ?case by (simp add: ret_def)
next
  case (Cons r rs)
  then show ?case
    using Cons.IH [of "remember (read_back r) rt"]
    by (cases "read_entries (map record_json rs) (remember (read_back r) rt)")
      (auto simp: ret_def throw_def then_prog_def bind_prog_def modify_def parse_record_json
        split: sum.splits if_splits)
qed

text \<open>
  Reading the journal gives back what was written, exactly when every record has no sequence or
  a safe one of at least 1; a single record outside of that makes the whole journal unreadable.
\<close>
theorem journal_reads_back:
  "fst (journal_records (rt\<lparr>rt_journal := Contents (JArr (map record_json rs))\<rparr>)) =
     (if list_all journalable rs then Inr (map read_back rs) else Inl journal_invalid)"
  by (simp add: journal_records_def bind_prog_def gets_def read_entries_json)

section \<open>Which runs are recovered\<close>

definition unfinished_of :: "string \<Rightarrow> recovery_record list \<Rightarrow> recovery_record option" where
  "unfinished_of rid journal =
     find (\<lambda>r. \<not> apply_terminal (rr_state r) \<and> rr_run_id r = rid) journal"

lemma unfinished_map:
  "map_of (unfinished seen rs) rid =
     (case map_of seen rid of Some r \<Rightarrow> Some r | None \<Rightarrow> unfinished_of rid rs)"
  by (induction seen rs rule: unfinished.induct)
    (auto simp: unfinished_of_def update_conv' split: option.splits)

lemma unfinished_distinct:
  "distinct (map fst seen) \<Longrightarrow> distinct (map fst (unfinished seen rs))"
  by (induction seen rs rule: unfinished.induct) (auto simp: distinct_update)

lemma unfinished_keys:
  "(\<forall>(k, r) \<in> set seen. k = rr_run_id r) \<Longrightarrow> (\<forall>(k, r) \<in> set (unfinished seen rs). k = rr_run_id r)"
proof (induction seen rs rule: unfinished.induct)
  case (1 seen)
  then show ?case by simp
next
  case (2 seen r rs)
  then show ?case by (auto simp: update_fresh)
qed

text \<open>
  The recovery resumes each interrupted run once. The records handed to \<open>resume\<close> belong to
  different runs, are the first unfinished record of their run in the journal, and every run that
  has an unfinished record is among them.
\<close>
theorem reconcile_each_run_once:
  "distinct (map rr_run_id (map snd (unfinished [] journal))) \<and>
   (\<forall>r. r \<in> set (map snd (unfinished [] journal)) \<longleftrightarrow>
        find (\<lambda>x. \<not> apply_terminal (rr_state x) \<and> rr_run_id x = rr_run_id r) journal = Some r)"
proof -
  have keys: "\<forall>(k, r) \<in> set (unfinished [] journal). k = rr_run_id r"
    by (rule unfinished_keys) simp
  have names: "map rr_run_id (map snd (unfinished [] journal)) = map fst (unfinished [] journal)"
    using keys by auto
  have dist: "distinct (map fst (unfinished [] journal))"
    by (rule unfinished_distinct) simp
  have "r \<in> set (map snd (unfinished [] journal)) \<longleftrightarrow> map_of (unfinished [] journal) (rr_run_id r) = Some r"
    for r
  proof
    assume "r \<in> set (map snd (unfinished [] journal))"
    then obtain k where "(k, r) \<in> set (unfinished [] journal)" by auto
    with keys have "(rr_run_id r, r) \<in> set (unfinished [] journal)" by auto
    with dist show "map_of (unfinished [] journal) (rr_run_id r) = Some r"
      by (simp add: map_of_is_SomeI)
  next
    assume "map_of (unfinished [] journal) (rr_run_id r) = Some r"
    then show "r \<in> set (map snd (unfinished [] journal))"
      by (force dest: map_of_SomeD)
  qed
  moreover have "distinct (map rr_run_id (map snd (unfinished [] journal)))"
    unfolding names by (rule dist)
  ultimately show ?thesis
    by (simp add: unfinished_map unfinished_of_def del: map_map)
qed


section \<open>Example data for the witnesses\<close>

text \<open>An agent whose stores hold one staged change and whose adapters succeed.\<close>

definition sample_env :: "unit runtime_env" where
  "sample_env =
     \<lparr> en_event_id = (\<lambda>n. ''EVT_'' @ string_of_nat n), en_clock = (\<lambda>_. ''now''), en_now = (\<lambda>_. 0),
       en_write_file = ret (), en_sync_directory = ret (),
       en_read_draft = (\<lambda>_. ret None), en_read_staged = (\<lambda>_. ret (Some sample_change)),
       en_seal_draft = (\<lambda>_. ret ()), en_delete_draft = (\<lambda>_. ret ()), en_delete_staged = (\<lambda>_. ret ()),
       en_validate = (\<lambda>_. throw (OtherError ''validation'')), en_source_ids = [''env''],
       en_read_current = (\<lambda>src. ret \<lparr> ss_source_id = src, ss_bytes = ''A=1'', ss_uid = 0, ss_gid = 0,
                                     ss_mode = 384 \<rparr>),
       en_fingerprint = (\<lambda>_ _. ''fp''),
       en_snapshot_store = \<lparr> st_create = (\<lambda>_ _ _. ret ()), st_mark_rollback_failed = (\<lambda>_. ret ()) \<rparr>,
       en_read_snapshot = (\<lambda>_. ret None), en_write_source = (\<lambda>_ _. ret ()),
       en_restore_source = (\<lambda>_. ret ()), en_action_ids = [],
       en_build_inputs = (\<lambda>_. throw (OtherError ''build'')),
       en_current_release = throw (OtherError ''release''), en_run_action = (\<lambda>_ _ _. ret ()),
       en_rollback_build = (\<lambda>_ _ _. ret ()), en_run_health = (\<lambda>_ _ _. ret True),
       en_lock = (\<lambda>_. ret (ret ())) \<rparr>"

definition sample_accepted :: "unit runtime" where
  "sample_accepted = snd (handle_apply sample_env True sample_input (begin_runtime () No_file))"

definition sample_accepted_twice :: "unit runtime" where
  "sample_accepted_twice = snd (handle_apply sample_env True sample_input sample_accepted)"

lemma sample_ids: "inj (en_event_id sample_env)" "en_event_id sample_env n \<noteq> []"
  by (simp_all add: sample_env_def inj_def)

lemma sample_reachable: "agent_reachable sample_env sample_accepted_twice"
proof -
  have start: "start_runtime (begin_runtime () No_file) = (Inr (), begin_runtime () No_file)"
    by (simp add: start_runtime_def journal_records_def begin_runtime_def bind_prog_def gets_def ret_def)
  show ?thesis
    unfolding sample_accepted_twice_def sample_accepted_def
    by (rule agent_stepped [OF agent_stepped [OF agent_started [OF start]]];
        rule step_accept [OF surjective_pairing])
qed

lemma sample_events:
  "map_of (rt_changes sample_accepted_twice) ''c'' \<noteq> None \<and>
   map re_sequence (rc_events (the (map_of (rt_changes sample_accepted_twice) ''c''))) = [1, 2]"
  by code_simp

section \<open>Blocked applications\<close>

lemma runtime_blocked: "runtime_invariant env (\<lambda>rt. app \<in> set (rt_blocked rt))"
  by unfold_locales (auto simp: record_event_def Let_def)

interpretation blocked: runtime_invariant env "\<lambda>rt. app \<in> set (rt_blocked rt)"
  for env :: "'w runtime_env" and app
  by (rule runtime_blocked)

text \<open>
  Only an owner ends the block of an application. Once an application is blocked, because a
  rollback failed, no validation, save, apply, cancellation, apply run or recovery unblocks it, and
  \<open>clearApplyBlock\<close> does only for that application and the role \<open>ops_owner\<close>.
\<close>
theorem block_ends_by_owner_only:
  assumes "agent_step env l rt rt'" and "app \<in> set (rt_blocked rt)" and "app \<notin> set (rt_blocked rt')"
  shows "l = Clearing app ''ops_owner''"
  using blocked.step_keeps [OF assms(1,2)] assms(2,3) by auto

theorem block_ends_by_owner_only_witness:
  "\<exists>l rt rt'. agent_step sample_env l rt rt' \<and> ''app'' \<in> set (rt_blocked rt) \<and>
     ''app'' \<notin> set (rt_blocked rt') \<and> l = Clearing ''app'' ''ops_owner''"
proof -
  let ?rt = "block_application ''app'' (begin_runtime () No_file)"
  have "handle_clear_block True ''app'' ''ops_owner'' ?rt = (Inr (), ?rt\<lparr>rt_blocked := []\<rparr>)"
    by (simp add: handle_clear_block_def awaiting_def bind_prog_def gets_def modify_def
        block_application_def begin_runtime_def)
  then have step: "agent_step sample_env (Clearing ''app'' ''ops_owner'') ?rt (?rt\<lparr>rt_blocked := []\<rparr>)"
    by (rule step_clear)
  moreover have "''app'' \<in> set (rt_blocked ?rt)"
    by (simp add: block_application_def)
  moreover have "''app'' \<notin> set (rt_blocked (?rt\<lparr>rt_blocked := []\<rparr>))"
    by simp
  ultimately show ?thesis
    using block_ends_by_owner_only [OF step] by blast
qed

section \<open>The events of a change\<close>

definition change_events_ok :: "'w runtime_env \<Rightarrow> nat \<Rightarrow> runtime_change \<Rightarrow> bool" where
  "change_events_ok env n c \<longleftrightarrow>
     sorted_wrt (<) (map re_sequence (rc_events c)) \<and>
     (\<forall>e \<in> set (rc_events c). re_sequence e \<le> rc_sequence c) \<and>
     distinct (map re_event_id (rc_events c)) \<and>
     (\<forall>e \<in> set (rc_events c). \<exists>k < n. re_event_id e = en_event_id env k)"

definition events_ok :: "'w runtime_env \<Rightarrow> 'w runtime \<Rightarrow> bool" where
  "events_ok env rt \<longleftrightarrow>
     (\<forall>cid c. map_of (rt_changes rt) cid = Some c \<longrightarrow> change_events_ok env (rt_drawn rt) c)"

lemma change_events_ok_more: "change_events_ok env n c \<Longrightarrow> change_events_ok env (Suc n) c"
  unfolding change_events_ok_def by (metis less_SucI)

lemma events_ok_record:
  assumes inj: "inj (en_event_id env)" and ok: "events_ok env rt"
  shows "events_ok env (record_event env i rt)"
proof -
  let ?c = "state_for (ri_change_id i) (ri_app_id i) rt"
  have c: "change_events_ok env (rt_drawn rt) ?c"
    using ok by (auto simp: events_ok_def state_for_def change_events_ok_def split: option.split)
  define n where "n = max (rc_sequence ?c + 1) (case ri_sequence i of None \<Rightarrow> 0 | Some k \<Rightarrow> k)"
  define ev where "ev = \<lparr> re_event_id = en_event_id env (rt_drawn rt), re_change_id = ri_change_id i,
      re_sequence = n, re_state = ri_state i, re_reason = to_lower (ri_reason i),
      re_occurred_at = en_clock env (rt_world rt) \<rparr>"
  have later: "re_sequence e < n" if "e \<in> set (rc_events ?c)" for e
    using that c by (force simp: change_events_ok_def n_def)
  have fresh: "re_event_id e \<noteq> en_event_id env (rt_drawn rt)" if "e \<in> set (rc_events ?c)" for e
    using that c inj by (force simp: change_events_ok_def inj_def)
  define c' where "c' = ?c\<lparr>rc_state := ri_state i, rc_sequence := n,
      rc_impact_plan := (if ri_impact_plan i = None then rc_impact_plan ?c else ri_impact_plan i),
      rc_digest := (if nonempty (ri_digest i) = None then rc_digest ?c else ri_digest i),
      rc_events := rc_events ?c @ [ev]\<rparr>"
  have "change_events_ok env (Suc (rt_drawn rt)) c'"
    using change_events_ok_more [OF c] later fresh
    by (auto simp: change_events_ok_def c'_def ev_def sorted_wrt_append less_imp_le)
  moreover have "change_events_ok env (Suc (rt_drawn rt)) c''"
    if "map_of (rt_changes rt) cid = Some c''" for cid c''
    using that ok by (simp add: events_ok_def change_events_ok_more)
  moreover have "record_event env i rt =
      rt\<lparr>rt_changes := AList.update (ri_change_id i) c' (rt_changes rt), rt_drawn := Suc (rt_drawn rt)\<rparr>"
    by (simp add: record_event_def Let_def c'_def n_def ev_def)
  ultimately show ?thesis
    by (simp add: events_ok_def update_conv')
qed

lemma runtime_events: "runtime_invariant env (\<lambda>rt. inj (en_event_id env) \<longrightarrow> events_ok env rt)"
  by unfold_locales (auto intro: events_ok_record, auto simp: events_ok_def)

interpretation events: runtime_invariant env "\<lambda>rt. inj (en_event_id env) \<longrightarrow> events_ok env rt"
  for env :: "'w runtime_env"
  by (rule runtime_events)

lemma started_events: "start_runtime (begin_runtime w jf) = (Inr (), rt) \<Longrightarrow> events_ok env rt"
proof -
  let ?none = "\<lambda>rt :: 'w runtime. \<forall>cid c. map_of (rt_changes rt) cid = Some c \<longrightarrow> rc_events c = []"
  have loaded: "keeps ?none (modify (load_change r))" for r
    by (rule keeps_modify) (auto simp: load_change_def Let_def update_conv' state_for_def
        split: option.splits if_splits)
  have "keeps ?none (read_entries js)" for js
    by (induction js) (auto intro!: keeps_intros keeps_modify simp: remember_def)
  then have "keeps ?none start_runtime"
    unfolding start_runtime_def journal_records_def
    by (intro keeps_intros loaded) (auto split: journal_file.split json.split intro!: keeps_intros)
  moreover have "?none (begin_runtime w jf)"
    by (simp add: begin_runtime_def)
  moreover assume "start_runtime (begin_runtime w jf) = (Inr (), rt)"
  ultimately have "?none rt"
    by (rule keepsD)
  then show "events_ok env rt"
    by (simp add: events_ok_def change_events_ok_def)
qed

lemma reachable_events:
  assumes "inj (en_event_id env)" and "agent_reachable env rt"
  shows "events_ok env rt"
  using assms(2)
proof (induction rule: agent_reachable.induct)
  case (agent_started w jf rt)
  then show ?case by (rule started_events)
next
  case (agent_stepped rt l rt')
  then show ?case
    using events.step_keeps [of env l rt rt'] assms(1) by (auto simp: events_ok_def)
qed

lemma later_events:
  assumes "sorted_wrt (<) (map re_sequence evs)" and "distinct (map re_event_id evs)" and "e \<in> set evs"
  shows "drop (case find_index (\<lambda>x. re_event_id x = re_event_id e) evs of None \<Rightarrow> 0 | Some i \<Rightarrow> i + 1) evs
      = filter (\<lambda>x. re_sequence e < re_sequence x) evs"
  using assms
proof (induction evs)
  case Nil
  then show ?case by simp
next
  case (Cons x evs)
  show ?case
  proof (cases "x = e")
    case True
    then show ?thesis using Cons.prems by (auto simp: filter_id_conv)
  next
    case False
    then have e: "e \<in> set evs" using Cons.prems by simp
    then have "re_event_id x \<noteq> re_event_id e" and "\<not> re_sequence e < re_sequence x"
      using Cons.prems by force+
    moreover have "find_index (\<lambda>x. re_event_id x = re_event_id e) evs \<noteq> None"
      using e by (induction evs) auto
    ultimately show ?thesis using Cons e by auto
  qed
qed

text \<open>
  A client that polls with the last event it has seen misses nothing and sees nothing twice. In
  every reachable state of the agent, if the drawn identifiers are different and not empty, the
  events that \<open>status\<close> answers after an event of the change are those with a greater sequence, and
  the sequences of the answer increase strictly.
\<close>
theorem status_resumes_exactly:
  assumes "agent_reachable env rt" and "inj (en_event_id env)" and "\<And>n. en_event_id env n \<noteq> []"
    and "map_of (rt_changes rt) cid = Some c" and "e \<in> set (rc_events c)"
  shows "handle_status True cid (Some (re_event_id e)) rt =
      (Inr (c, filter (\<lambda>x. re_sequence e < re_sequence x) (rc_events c)), rt) \<and>
    sorted_wrt (<) (map re_sequence (rc_events c))"
proof -
  have ok: "change_events_ok env (rt_drawn rt) c"
    using reachable_events [OF assms(2,1)] assms(4) by (simp add: events_ok_def)
  then have "re_event_id e \<noteq> []"
    using assms(3,5) by (force simp: change_events_ok_def)
  then show ?thesis
    using ok later_events [of "rc_events c" e] assms(4,5)
    by (simp add: handle_status_def awaiting_def bind_prog_def gets_def ret_def events_after_def
        nonempty_def change_events_ok_def)
qed


theorem status_resumes_exactly_witness:
  "\<exists>c e. map_of (rt_changes sample_accepted_twice) ''c'' = Some c \<and> e \<in> set (rc_events c) \<and>
     handle_status True ''c'' (Some (re_event_id e)) sample_accepted_twice =
       (Inr (c, filter (\<lambda>x. re_sequence e < re_sequence x) (rc_events c)), sample_accepted_twice)"
proof -
  obtain c where c: "map_of (rt_changes sample_accepted_twice) ''c'' = Some c"
    and seqs: "map re_sequence (rc_events c) = [1, 2]"
    using sample_events by auto
  then obtain e es where "rc_events c = e # es" by auto
  then have e: "e \<in> set (rc_events c)" by simp
  show ?thesis
    using status_resumes_exactly [OF sample_reachable sample_ids c e] c e by blast
qed

end
