(* ===== verification/RuntimeApply.thy ===== *)
theory RuntimeApply
  imports RuntimeProps
begin

text \<open>
  An apply run whose events go to the agent's own journal: the coordinator of
  apps/config-agent/src/changes/applyCoordinator.ts with the dependencies of
  apps/config-agent/src/changes/runtimeHandlers.ts. The first event of a run has the sequence 0,
  which \<open>journalRecords\<close> refuses to read back; what follows from that is proved here.
\<close>

section \<open>A journal that cannot be read\<close>

definition broken :: "'w runtime \<Rightarrow> bool" where
  "broken rt \<longleftrightarrow>
     (\<exists>js. rt_journal rt = Contents (JArr js) \<and> (\<exists>j \<in> set js. \<forall>r. parse_record j \<noteq> Inr r))"

definition registered :: "string \<Rightarrow> 'w runtime \<Rightarrow> bool" where
  "registered cid rt \<longleftrightarrow> map_of (rt_changes rt) cid \<noteq> None"

definition stuck :: "string \<Rightarrow> 'w runtime \<Rightarrow> bool" where
  "stuck cid rt \<longleftrightarrow> broken rt \<and> registered cid rt"

lemma remember_simps [simp]:
  "rt_journal (remember r rt) = rt_journal rt" "rt_changes (remember r rt) = rt_changes rt"
  by (simp_all add: remember_def)

lemma read_entries_broken:
  "(\<exists>j \<in> set js. \<forall>r. parse_record j \<noteq> Inr r) \<Longrightarrow> \<exists>e. fst (read_entries js rt) = Inl e"
proof (induction js arbitrary: rt)
  case Nil
  then show ?case by simp
next
  case (Cons j js)
  show ?case
  proof (cases "parse_record j")
    case (Inl e)
    then show ?thesis by (simp add: throw_def)
  next
    case (Inr r)
    then have "\<exists>e. fst (read_entries js (remember r rt)) = Inl e"
      using Cons by auto
    then show ?thesis
      using Inr by (auto simp: then_prog_def bind_prog_def modify_def split: prod.splits)
  qed
qed

lemma read_entries_frame:
  "rt_journal (snd (read_entries js rt)) = rt_journal rt \<and>
   rt_changes (snd (read_entries js rt)) = rt_changes rt"
proof (induction js arbitrary: rt)
  case Nil
  show ?case by (simp add: ret_def)
next
  case (Cons j js)
  show ?case
  proof (cases "parse_record j")
    case (Inl e)
    then show ?thesis by (simp add: throw_def)
  next
    case (Inr r)
    then show ?thesis
      using Cons.IH [of "remember r rt"]
      by (auto simp: then_prog_def bind_prog_def modify_def ret_def split: prod.splits sum.splits)
  qed
qed

lemma journal_records_frame:
  "rt_journal (snd (journal_records rt)) = rt_journal rt \<and>
   rt_changes (snd (journal_records rt)) = rt_changes rt"
  using read_entries_frame
  by (auto simp: journal_records_def bind_prog_def gets_def ret_def throw_def
      split: journal_file.split json.split)

lemma stuck_read:
  "triple (stuck cid) journal_records (\<lambda>_ _. False) (\<lambda>_. stuck cid)"
proof (rule tripleI)
  fix rt :: "'a runtime"
  assume s: "stuck cid rt"
  then have "\<exists>e. fst (journal_records rt) = Inl e"
    using read_entries_broken
    by (force simp: stuck_def broken_def journal_records_def bind_prog_def gets_def)
  moreover have "stuck cid (snd (journal_records rt))"
    using s journal_records_frame [of rt] by (simp add: stuck_def broken_def registered_def)
  ultimately show "case journal_records rt of (Inl e, rt') \<Rightarrow> stuck cid rt' | (Inr x, rt') \<Rightarrow> False"
    by (auto split: prod.splits sum.splits)
qed

lemma stuck_updates [simp]:
  "stuck cid (rt\<lparr>rt_world := w\<rparr>) = stuck cid rt" "stuck cid (rt\<lparr>rt_builds := b\<rparr>) = stuck cid rt"
  "stuck cid (rt\<lparr>rt_previous := p\<rparr>) = stuck cid rt" "stuck cid (rt\<lparr>rt_blocked := l\<rparr>) = stuck cid rt"
  by (simp_all add: stuck_def broken_def registered_def)

lemma stuck_record: "stuck cid rt \<Longrightarrow> stuck cid (record_event env i rt)"
  by (simp add: stuck_def broken_def registered_def record_event_def Let_def update_conv')

lemma stuck_persist:
  "triple (stuck cid) (persist_event env ev) (\<lambda>_ rt. stuck cid rt \<and> ae_change_id ev \<noteq> cid)
     (\<lambda>_. stuck cid)"
proof (rule tripleI)
  fix rt :: "'a runtime"
  assume s: "stuck cid rt"
  show "case persist_event env ev rt of (Inl e, rt') \<Rightarrow> stuck cid rt'
      | (Inr x, rt') \<Rightarrow> stuck cid rt' \<and> ae_change_id ev \<noteq> cid"
  proof (cases "map_of (rt_changes rt) (ae_change_id ev)")
    case None
    then show ?thesis
      using s by (auto simp: persist_event_def bind_prog_def gets_def ret_def stuck_def registered_def)
  next
    case (Some c)
    let ?rt = "record_event env (event_input c ev) rt"
    have "stuck cid ?rt" using s by (rule stuck_record)
    moreover obtain r rt' where read: "journal_records ?rt = (r, rt')" by (rule prod.exhaust)
    ultimately obtain e where "r = Inl e" and "stuck cid rt'"
      using triple_throws [OF stuck_read, of cid ?rt] triple_returns [OF stuck_read, of cid ?rt]
      by (cases r) auto
    with read have "journal_records ?rt = (Inl e, rt')" and "stuck cid rt'" by simp_all
    with Some show ?thesis
      by (simp add: persist_event_def bind_prog_def then_prog_def gets_def modify_def)
  qed
qed

lemma stuck_persist_keeps: "keeps (stuck cid) (persist_event env ev)"
  by (rule triple_keeps, rule triple_weaken [OF stuck_persist]) auto

lemma stuck_metadata: "keeps (stuck cid) (persist_run_metadata env rid)"
  unfolding persist_run_metadata_def
  by (rule triple_keeps, rule triple_bind [OF stuck_read]) (simp add: triple_def)

lemma stuck_outside: "keeps (stuck cid) (outside f)"
  by (rule keeps_outside) simp

lemma stuck_capture: "keeps (stuck cid) (capture_all env change srcs)"
  by (induction srcs) (auto simp: capture_one_def Let_def intro!: keeps_intros stuck_outside)

lemma stuck_run_action: "keeps (stuck cid) (runtime_run_action env rid aid)"
  by (auto simp: runtime_run_action_def
      intro!: keeps_intros stuck_outside stuck_metadata keeps_modify)

lemma stuck_lock: "lock_keeps (stuck cid) (runtime_lock env kind)"
  using stuck_outside
  by (auto simp: lock_keeps_def triple_def runtime_lock_def bind_prog_def ret_def outside_def
      split: prod.splits sum.splits)

lemma stuck_on_failed: "keeps (stuck cid) (on_rollback_failed c)"
  unfolding on_rollback_failed_def
  by (rule keeps_modify) (auto simp: block_application_def split: option.split)

interpretation stuck: apply_environment "stuck cid" "runtime_deps env"
  for cid and env :: "'w runtime_env"
  by unfold_locales
    (auto simp: runtime_deps_def runtime_snapshot_store_def runtime_rollback_action_def
      runtime_health_def runtime_rollback_health_def Let_def
      intro!: stuck_outside stuck_capture stuck_run_action stuck_persist_keeps stuck_lock
        stuck_on_failed keeps_intros)

lemma runtime_registered: "runtime_invariant env (registered cid)"
  by unfold_locales (auto simp: registered_def record_event_def Let_def update_conv')

interpretation registered: runtime_invariant env "registered cid"
  for env :: "'w runtime_env" and cid
  by (rule runtime_registered)

text \<open>The first event of a run makes the journal unreadable, or is not written.\<close>

lemma zero_unreadable: "rr_sequence r = Some 0 \<Longrightarrow> parse_record (record_json r) \<noteq> Inr r'"
  by (simp add: parse_record_json journalable_def)

lemma first_event_breaks:
  assumes "ae_change_id ev = cid" and "ae_sequence ev = 0"
  shows "triple (registered cid) (persist_event env ev) (\<lambda>_. stuck cid) (\<lambda>_. registered cid)"
proof (rule tripleI)
  fix rt :: "'a runtime"
  assume reg: "registered cid rt"
  have kept: "registered cid rt'" if "persist_event env ev rt = (r, rt')" for r rt'
    using registered.persist_event_keeps reg that by (rule keepsD)
  have "stuck cid rt'" if run: "persist_event env ev rt = (Inr x, rt')" for x rt'
  proof -
    obtain c where c: "map_of (rt_changes rt) (ae_change_id ev) = Some c"
      using reg assms(1) by (auto simp: registered_def)
    obtain rs rt1 where "journal_records (record_event env (event_input c ev) rt) = (Inr rs, rt1)"
      using run c by (auto simp: persist_event_def bind_prog_def then_prog_def gets_def modify_def
          split: prod.splits sum.splits)
    with run c have "rt_journal rt' = Contents (JArr
        (map record_json (filter (\<lambda>r. rr_run_id r \<noteq> ae_run_id ev) rs) @
         [record_json (next_record rt1 (state_for (ae_change_id ev) (rc_app_id c) rt1) ev
            (find (\<lambda>r. rr_run_id r = ae_run_id ev) rs))]))"
      by (auto simp: persist_event_def bind_prog_def then_prog_def gets_def modify_def
          write_journal_def outside_def when_prog_def ret_def forget_build_def
          split: prod.splits sum.splits if_splits)
    moreover have "rr_sequence (next_record rt0 c0 ev ex) = Some 0" for rt0 c0 ex
      using assms(2) by (simp add: next_record_def)
    then have "\<forall>r. parse_record (record_json (next_record rt0 c0 ev ex)) \<noteq> Inr r" for rt0 c0 ex
      using zero_unreadable by blast
    ultimately have "broken rt'"
      unfolding broken_def by (intro exI conjI) (assumption, force)
    with kept [OF run] show ?thesis by (simp add: stuck_def)
  qed
  with kept show "case persist_event env ev rt of (Inl e, rt') \<Rightarrow> registered cid rt'
      | (Inr x, rt') \<Rightarrow> stuck cid rt'"
    by (auto split: prod.splits sum.splits)
qed


section \<open>The run\<close>

text \<open>
  \<open>calm cid\<close>: nothing has been written and the change read is \<open>cid\<close>; \<open>phase cid W\<close>: and the agent's
  state and the releases of the locks keep \<open>W\<close>.
\<close>

definition calm :: "string \<Rightarrow> 'w runtime run_state \<Rightarrow> bool" where
  "calm cid s \<longleftrightarrow> unwritten (r_log s) \<and> \<not> r_write_started s \<and>
     (\<forall>ch. r_change s = Some ch \<longrightarrow> sc_change_id ch = cid) \<and>
     (\<forall>(n, f) \<in> set (r_releases s). \<exists>g. f = outside g)"

definition phase :: "string \<Rightarrow> ('w runtime \<Rightarrow> bool) \<Rightarrow> 'w runtime run_state \<Rightarrow> bool" where
  "phase cid W s \<longleftrightarrow> calm cid s \<and> W (r_world s)"

lemma phase_world:
  assumes "phase cid W s" and "\<And>g :: ('w, unit) dep. keeps W (outside g)"
  shows "world_ok W s"
  using assms by (fastforce simp: phase_def calm_def world_ok_def)

lemma keeps_phase:
  assumes "keeps (calm cid) m" and "keeps (world_ok W) m" and "\<And>g :: ('w, unit) dep. keeps W (outside g)"
  shows "keeps (phase cid W) m"
  unfolding keeps_def
proof (intro allI impI)
  fix s :: "'w runtime run_state"
  assume "phase cid W s"
  then have "calm cid s" and "world_ok W s"
    using phase_world assms(3) by (auto simp: phase_def)
  then have "calm cid (snd (m s))" and "world_ok W (snd (m s))"
    using assms(1,2) by (simp_all add: keeps_def)
  then show "phase cid W (snd (m s))"
    by (simp add: phase_def world_ok_def)
qed

lemma calm_invoke: "\<not> is_write c \<Longrightarrow> keeps (calm cid) (invoke c f)"
  by (rule keeps_invoke) (simp add: calm_def)

lemma calm_modify:
  "(\<And>s. r_log (f s) = r_log s \<and> r_write_started (f s) = r_write_started s \<and>
        r_change (f s) = r_change s \<and> r_releases (f s) = r_releases s)
     \<Longrightarrow> keeps (calm cid) (modify f)"
  by (rule keeps_modify) (simp add: calm_def)

lemma calm_emit: "keeps (calm cid) (emit d c rid st reason)"
  by (auto simp: emit_def Let_def intro!: keeps_intros calm_invoke calm_modify)

lemma calm_acquire: "keeps (calm cid) (acquire name (Some (runtime_lock env kind)) x)"
  by (auto simp: keeps_def acquire_def if_present_def runtime_lock_def bind_prog_def invoke_def
      modify_def ret_def calm_def split: prod.splits sum.splits)

lemmas calm_keeps = keeps_intros calm_invoke calm_modify calm_emit

lemma calm_start: "keeps (calm cid) (start_machine d inp change)"
  by (auto simp: start_machine_def intro!: calm_keeps)

lemma calm_locks: "keeps (calm cid) (acquire_locks (runtime_deps env) change)"
  by (auto simp: acquire_locks_def runtime_deps_def intro!: calm_keeps calm_acquire)

lemma calm_give_up: "keeps (calm cid) (give_up d inp change)"
  by (auto simp: give_up_def intro!: calm_keeps)

lemma calm_close: "keeps (calm cid) (close_unwritten d inp change)"
  by (auto simp: close_unwritten_def intro!: calm_keeps calm_give_up)

text \<open>In a stuck agent an event of the change is never persisted.\<close>

lemma stuck_emit:
  "triple (phase cid (stuck cid)) (emit (runtime_deps env) cid rid st reason)
     (\<lambda>_ _. False) (\<lambda>_. phase cid (stuck cid))"
proof (rule tripleI)
  fix s :: "'a runtime run_state"
  assume s: "phase cid (stuck cid) s"
  obtain r s' where run: "emit (runtime_deps env) cid rid st reason s = (r, s')" by fastforce
  have "phase cid (stuck cid) s'"
    using keeps_phase [OF calm_emit stuck.emit_keeps stuck_outside] s run by (rule keepsD)
  moreover have never: "persist_event env ev rt \<noteq> (Inr (), rt')"
    if "stuck cid rt" and "ae_change_id ev = cid" for ev rt rt'
    using that triple_returns [OF stuck_persist, of cid rt env ev "()" rt'] by blast
  have "r \<noteq> Inr x" for x
    using run s never
    by (auto simp: emit_def Let_def bind_prog_def then_prog_def gets_def throw_def modify_def
        invoke_def runtime_deps_def phase_def world_ok_def
        split: option.splits sum.splits prod.splits)
  ultimately show "case emit (runtime_deps env) cid rid st reason s of
      (Inl e, s') \<Rightarrow> phase cid (stuck cid) s' | (Inr x, s') \<Rightarrow> False"
    using run by (cases r) auto
qed


definition id_kept :: "'w runtime_env \<Rightarrow> string \<Rightarrow> bool" where
  "id_kept env cid \<longleftrightarrow>
     (\<forall>w ch w'. en_read_staged env cid w = (Inr (Some ch), w') \<longrightarrow> sc_change_id ch = cid)"

lemma admit_phase:
  assumes "id_kept env (in_change_id inp)"
  shows "triple (\<lambda>s. \<exists>rt active. s = begin_run rt active \<and> registered (in_change_id inp) rt)
     (admit (runtime_deps env) inp)
     (\<lambda>change s. sc_change_id change = in_change_id inp \<and>
        phase (in_change_id inp) (registered (in_change_id inp)) s \<and> r_snapshot s = None)
     (\<lambda>_ s. phase (in_change_id inp) (registered (in_change_id inp)) s \<and> r_snapshot s = None)"
proof (rule tripleI, elim exE conjE)
  fix s :: "'a runtime run_state" and rt active
  assume s: "s = begin_run rt active" and reg: "registered (in_change_id inp) rt"
  have staged_id: "en_read_staged env (in_change_id inp) w = (Inr (Some ch), w') \<Longrightarrow>
      sc_change_id ch = in_change_id inp" for w ch w'
    using assms unfolding id_kept_def by blast
  obtain r s' where run: "admit (runtime_deps env) inp s = (r, s')" by fastforce
  have "world_ok (registered (in_change_id inp)) s"
    using s reg by (simp add: world_ok_def begin_run_def)
  then have "world_ok (registered (in_change_id inp)) s'"
    using registered.run.admit_keeps run by (blast intro: keepsD)
  then have "registered (in_change_id inp) (r_world s')"
    by (simp add: world_ok_def)
  moreover have "calm (in_change_id inp) s' \<and> r_snapshot s' = None \<and> r_machine s' = None \<and>
      (\<forall>ch. r = Inr ch \<longrightarrow> sc_change_id ch = in_change_id inp)"
    using run s
    by (auto simp: admit_def acquire_def if_present_def bind_prog_def then_prog_def gets_def
        modify_def ret_def throw_def invoke_def begin_run_def calm_def runtime_deps_def outside_def
        runtime_lock_def unwritten_def
        intro: staged_id split: prod.splits sum.splits option.splits if_splits)
  ultimately show "case admit (runtime_deps env) inp s of
      (Inl e, s') \<Rightarrow> phase (in_change_id inp) (registered (in_change_id inp)) s' \<and> r_snapshot s' = None
    | (Inr change, s') \<Rightarrow> sc_change_id change = in_change_id inp \<and>
        phase (in_change_id inp) (registered (in_change_id inp)) s' \<and> r_snapshot s' = None"
    using run by (cases r) (auto simp: phase_def)
qed


definition before :: "string \<Rightarrow> ('w runtime \<Rightarrow> bool) \<Rightarrow> 'w runtime run_state \<Rightarrow> bool" where
  "before cid W s \<longleftrightarrow> phase cid W s \<and> r_snapshot s = None"

lemma start_phase:
  assumes "sc_change_id change = in_change_id inp"
  shows "triple (before (in_change_id inp) (registered (in_change_id inp)))
     (start_machine (runtime_deps env) inp change)
     (\<lambda>_. before (in_change_id inp) (stuck (in_change_id inp)))
     (\<lambda>_. before (in_change_id inp) (registered (in_change_id inp)))"
proof (rule tripleI)
  fix s :: "'a runtime run_state"
  assume s: "before (in_change_id inp) (registered (in_change_id inp)) s"
  let ?ev = "applying_event change (in_run_id inp)"
  have "triple (registered (in_change_id inp)) (persist_event env ?ev)
      (\<lambda>_. stuck (in_change_id inp)) (\<lambda>_. registered (in_change_id inp))"
    by (rule first_event_breaks) (simp_all add: applying_event_def assms)
  then have "registered (in_change_id inp) (r_world s) \<longrightarrow>
      (case persist_event env ?ev (r_world s) of
      (Inr x, rt') \<Rightarrow> stuck (in_change_id inp) rt' | (Inl e, rt') \<Rightarrow> registered (in_change_id inp) rt')"
    unfolding triple_def by (rule spec)
  then show "case start_machine (runtime_deps env) inp change s of
      (Inl e, s') \<Rightarrow> before (in_change_id inp) (registered (in_change_id inp)) s'
    | (Inr x, s') \<Rightarrow> before (in_change_id inp) (stuck (in_change_id inp)) s'"
    using s
    by (auto simp: start_machine_def then_prog_def bind_prog_def modify_def invoke_def
        runtime_deps_def before_def phase_def calm_def split: prod.splits sum.splits)
qed

lemma locks_before:
  "triple (before cid (stuck cid)) (acquire_locks (runtime_deps env) change)
     (\<lambda>_. before cid (stuck cid)) (\<lambda>_. before cid (stuck cid))"
proof (rule keeps_triple)
  have "keeps (\<lambda>s. r_snapshot s = None) (acquire_locks (runtime_deps env) change)"
    unfolding acquire_locks_def acquire_def
    by (intro keeps_intros keeps_invoke keeps_modify) auto
  moreover have "keeps (phase cid (stuck cid)) (acquire_locks (runtime_deps env) change)"
    by (rule keeps_phase [OF calm_locks stuck.locks_keep stuck_outside])
  ultimately show "keeps (before cid (stuck cid)) (acquire_locks (runtime_deps env) change)"
    unfolding keeps_def before_def by blast
qed

lemma snapshot_phase:
  assumes "sc_change_id change = in_change_id inp"
  shows "triple (before (in_change_id inp) (stuck (in_change_id inp)))
     (take_snapshot (runtime_deps env) inp change) (\<lambda>_ _. False)
     (\<lambda>_. phase (in_change_id inp) (stuck (in_change_id inp)))"
proof -
  let ?W = "phase (in_change_id inp) (stuck (in_change_id inp))"
  have capture: "keeps ?W (invoke CaptureSnapshot (d_capture_snapshot (runtime_deps env) change (in_run_id inp)))"
    by (rule keeps_phase [OF calm_invoke keeps_world_invoke [OF stuck.capture] stuck_outside]) simp
  have set_snapshot: "keeps ?W (modify (\<lambda>s. s\<lparr>r_snapshot := Some x\<rparr>))" for x
    by (rule keeps_modify) (simp add: phase_def calm_def)
  have create: "keeps ?W (invoke (CreateSnapshot (snapshot_id inp))
      (st_create (runtime_snapshot_store env) (snapshot_id inp) change x))" for x
    by (rule keeps_phase [OF calm_invoke keeps_world_invoke stuck_outside])
      (simp_all add: runtime_snapshot_store_def stuck_outside)
  have store: "d_persist_snapshot (runtime_deps env) = None"
    "d_snapshot_store (runtime_deps env) = Some (runtime_snapshot_store env)"
    by (simp_all add: runtime_deps_def)
  have "triple ?W (take_snapshot (runtime_deps env) inp change) (\<lambda>_ _. False) (\<lambda>_. ?W)"
    unfolding take_snapshot_def store if_present_def option.case assms
    by (rule triple_bind [OF keeps_triple [OF capture]],
        rule triple_then [OF keeps_triple [OF set_snapshot]],
        rule triple_then [OF keeps_triple [OF create]], rule stuck_emit)
  then show ?thesis
    by (rule triple_weaken) (simp_all add: before_def)
qed

text \<open>How the \<open>try\<close> block ends: never normally.\<close>

definition ended :: "string \<Rightarrow> 'w runtime run_state \<Rightarrow> bool" where
  "ended cid s \<longleftrightarrow> phase cid (if r_snapshot s = None then registered cid else stuck cid) s"

lemma stuck_ended: "phase cid (stuck cid) s \<Longrightarrow> ended cid s"
  by (simp add: ended_def phase_def stuck_def)

lemma before_ended: "before cid (registered cid) s \<Longrightarrow> ended cid s"
  by (simp add: ended_def before_def)

lemma try_ends:
  assumes "id_kept env (in_change_id inp)"
  shows "triple (\<lambda>s. \<exists>rt active. s = begin_run rt active \<and> registered (in_change_id inp) rt)
     (try_block (runtime_deps env) inp) (\<lambda>_ _. False) (\<lambda>_. ended (in_change_id inp))"
proof -
  let ?cid = "in_change_id inp"
  have rest: "triple (before ?cid (registered ?cid))
     (then_prog (start_machine (runtime_deps env) inp change)
     (then_prog (acquire_locks (runtime_deps env) change)
     (then_prog (take_snapshot (runtime_deps env) inp change) k)))
     (\<lambda>_ _. False) (\<lambda>_. ended ?cid)" if "sc_change_id change = ?cid"
    for change and k :: "('a runtime, 'b) run_prog"
  proof -
    have start: "triple (before ?cid (registered ?cid)) (start_machine (runtime_deps env) inp change)
        (\<lambda>_. before ?cid (stuck ?cid)) (\<lambda>_. ended ?cid)"
      by (rule triple_weaken [OF start_phase [OF that]]) (auto intro: before_ended)
    have locks: "triple (before ?cid (stuck ?cid)) (acquire_locks (runtime_deps env) change)
        (\<lambda>_. before ?cid (stuck ?cid)) (\<lambda>_. ended ?cid)"
      by (rule triple_weaken [OF locks_before]) (auto simp: before_def intro: stuck_ended)
    have snap: "triple (before ?cid (stuck ?cid)) (take_snapshot (runtime_deps env) inp change)
        (\<lambda>_ _. False) (\<lambda>_. ended ?cid)"
      by (rule triple_weaken [OF snapshot_phase [OF that]]) (auto intro: stuck_ended)
    have never: "triple (\<lambda>_. False) k (\<lambda>_ _. False) (\<lambda>_. ended ?cid)"
      by (simp add: triple_def)
    show ?thesis
      by (rule triple_then [OF start], rule triple_then [OF locks], rule triple_then [OF snap never])
  qed
  have admitted: "triple (\<lambda>s. \<exists>rt active. s = begin_run rt active \<and> registered ?cid rt)
      (admit (runtime_deps env) inp)
      (\<lambda>change s. sc_change_id change = ?cid \<and> before ?cid (registered ?cid) s) (\<lambda>_. ended ?cid)"
    by (rule triple_weaken [OF admit_phase [OF assms]]) (auto simp: before_def ended_def)
  show ?thesis
    unfolding try_block_def
    by (rule triple_bind [OF admitted], rule triple_assume, rule rest)
qed

text \<open>How the run ends after that.\<close>

definition blocked_change :: "string \<Rightarrow> 'w runtime \<Rightarrow> bool" where
  "blocked_change cid rt \<longleftrightarrow>
     (\<exists>c. map_of (rt_changes rt) cid = Some c \<and> rc_app_id c \<in> set (rt_blocked rt))"

definition fate :: "string \<Rightarrow> apply_result \<Rightarrow> 'w runtime run_state \<Rightarrow> bool" where
  "fate cid res s \<longleftrightarrow>
     calm cid s \<and> ar_outcome res \<noteq> Outcome_completed \<and>
     (r_snapshot s \<noteq> None \<longrightarrow>
        ar_outcome res = Outcome_rollback_failed \<and> stuck cid (r_world s) \<and>
        blocked_change cid (r_world s))"

lemma give_up_fate:
  assumes "sc_change_id change = cid"
  shows "triple (phase cid (stuck cid)) (give_up (runtime_deps env) inp change) (fate cid) (\<lambda>_ _. True)"
proof -
  let ?notify = "invoke OnRollbackFailed (on_rollback_failed cid :: ('a, unit) runtime_prog)"
  have quiet: "triple (phase cid (stuck cid))
      (ignore_error (emit (runtime_deps env) cid (in_run_id inp) Rollback_failed reason))
      (\<lambda>_. phase cid (stuck cid)) (\<lambda>_ _. True)" for reason
    unfolding ignore_error_def
  proof (rule triple_catch)
    show "triple (phase cid (stuck cid))
        (emit (runtime_deps env) cid (in_run_id inp) Rollback_failed reason)
        (\<lambda>_. phase cid (stuck cid)) (\<lambda>_. phase cid (stuck cid))"
      by (rule triple_weaken [OF stuck_emit]) auto
  qed (rule triple_ret)
  have notify: "triple (phase cid (stuck cid)) ?notify
      (\<lambda>_ s. phase cid (stuck cid) s \<and> blocked_change cid (r_world s)) (\<lambda>_ _. True)"
  proof (rule tripleI)
    fix s :: "'a runtime run_state"
    assume "phase cid (stuck cid) s"
    then show "case ?notify s of (Inl e, s') \<Rightarrow> True
        | (Inr x, s') \<Rightarrow> phase cid (stuck cid) s' \<and> blocked_change cid (r_world s')"
      by (auto simp: invoke_def on_rollback_failed_def modify_def phase_def calm_def
          block_application_def stuck_def registered_def broken_def blocked_change_def
          split: option.splits)
  qed
  have answer: "triple (\<lambda>s. phase cid (stuck cid) s \<and> blocked_change cid (r_world s))
      (ret (result_of change inp Rollback_failed Outcome_rollback_failed)) (fate cid) (\<lambda>_ _. True)"
    by (rule triple_ret) (simp add: fate_def phase_def result_of_def)
  show ?thesis
    unfolding give_up_def assms
    by (rule triple_then [OF quiet])
      (simp add: if_present_def runtime_deps_def, rule triple_then [OF notify answer])
qed

lemma close_fate:
  assumes "sc_change_id change = cid"
  shows "triple (ended cid) (close_unwritten (runtime_deps env) inp change) (fate cid) (\<lambda>_ _. True)"
proof (rule tripleI)
  fix s :: "'a runtime run_state"
  assume s: "ended cid s"
  let ?close = "close_unwritten (runtime_deps env) inp change"
  obtain r s' where run: "?close s = (r, s')" by fastforce
  have "calm cid s" using s by (simp add: ended_def phase_def)
  then have calm: "calm cid s'"
    using keepsD [OF calm_close _ run] by blast
  have "keeps (\<lambda>s. r_snapshot s = None) ?close"
    unfolding close_unwritten_def give_up_def emit_def Let_def
    by (auto intro!: keeps_intros keeps_invoke keeps_modify)
  then have "r_snapshot s = None \<Longrightarrow> r_snapshot s' = None"
    using keepsD [of "\<lambda>s. r_snapshot s = None" ?close s r s'] run by blast
  moreover have "ar_outcome res \<noteq> Outcome_completed" if "r = Inr res" for res
    using triple_returns [OF close_not_completed [where P = "\<lambda>_. True"]] run that by blast
  moreover have "fate cid res s'" if "r = Inr res" and "r_snapshot s \<noteq> None" for res
  proof -
    have "triple (phase cid (stuck cid)) ?close (fate cid) (\<lambda>_ _. True)"
      unfolding close_unwritten_def assms
      by (rule triple_catch [OF triple_then [OF stuck_emit] give_up_fate [OF assms]])
        (simp add: triple_def)
    moreover have "phase cid (stuck cid) s"
      using s that(2) by (simp add: ended_def)
    ultimately show ?thesis
      using run that(1) by (blast intro: triple_returns)
  qed
  ultimately have "fate cid res s'" if "r = Inr res" for res
    using that calm by (cases "r_snapshot s = None") (auto simp: fate_def)
  then show "case ?close s of (Inl e, s') \<Rightarrow> True | (Inr res, s') \<Rightarrow> fate cid res s'"
    using run by (auto split: sum.splits)
qed

lemma catch_fate:
  "triple (ended cid) (catch_block (runtime_deps env) inp e) (fate cid) (\<lambda>_ _. True)"
proof (rule tripleI)
  fix s :: "'a runtime run_state"
  assume s: "ended cid s"
  then have calm: "\<not> r_write_started s" "\<And>ch. r_change s = Some ch \<Longrightarrow> sc_change_id ch = cid"
    by (auto simp: ended_def phase_def calm_def)
  have "fate cid res s'" if "close_unwritten (runtime_deps env) inp ch s = (Inr res, s')"
    and "r_change s = Some ch" for ch res s'
    using triple_returns [OF close_fate [OF calm(2) [OF that(2)]] s that(1)] .
  then show "case catch_block (runtime_deps env) inp e s of (Inl e, s') \<Rightarrow> True
      | (Inr res, s') \<Rightarrow> fate cid res s'"
    using calm(1)
    by (auto simp: catch_block_def bind_prog_def gets_def throw_def split: option.splits prod.splits
        sum.splits)
qed

lemma fate_finally:
  fixes s :: "'a runtime run_state"
  assumes "fate cid res s"
  shows "fate cid res (leave (release_all s))"
proof -
  have calm: "calm cid s" using assms by (simp add: fate_def)
  have rel: "keeps P (for_each (rev (r_releases s)) (\<lambda>(name, release). ignore_error (invoke (Release name) release)))"
    if "\<And>name (g :: ('a, unit) dep). keeps P (invoke (Release name) (outside g))" for P
  proof (rule keeps_for_each)
    fix x
    assume "x \<in> set (rev (r_releases s))"
    then obtain name g where "x = (name, outside g)"
      using calm by (cases x) (auto simp: calm_def)
    then show "keeps P (case x of (name, release) \<Rightarrow> ignore_error (invoke (Release name) release))"
      using that by (simp add: keeps_ignore_error)
  qed
  have "keeps (calm cid) (for_each (rev (r_releases s))
      (\<lambda>(name, release). ignore_error (invoke (Release name) release)))"
    by (rule rel) (simp add: calm_invoke)
  then have "calm cid (release_all s)"
    using calm by (simp add: keeps_def release_all_def)
  moreover have "keeps (\<lambda>t. r_snapshot t = r_snapshot s) (invoke (Release name) (outside g))" for name and g :: "('a, unit) dep"
    by (rule keeps_invoke) simp
  then have "r_snapshot (release_all s) = r_snapshot s"
    using rel [of "\<lambda>t. r_snapshot t = r_snapshot s"] by (simp add: keeps_def release_all_def)
  moreover have "stuck cid (r_world (release_all s)) \<and> blocked_change cid (r_world (release_all s))"
    if "stuck cid (r_world s)" and "blocked_change cid (r_world s)"
  proof -
    let ?P = "\<lambda>t. stuck cid (r_world t) \<and> blocked_change cid (r_world t)"
    have "keeps ?P (invoke (Release name) (outside g))" for name and g :: "('a, unit) dep"
      by (auto simp: keeps_def invoke_def outside_def blocked_change_def split: prod.splits sum.splits)
    then show ?thesis
      using rel [of ?P] that by (simp add: keeps_def release_all_def)
  qed
  ultimately show ?thesis
    using assms by (auto simp: fate_def calm_def leave_def split: option.splits)
qed

text \<open>
  C8. No apply run succeeds with the agent's own journal. For a change that the agent knows (the
  handler records it before it starts the run), a run never answers \<open>completed\<close> and writes no
  source, whatever the stores, the adapters and the file system do. If the run gets as far as
  capturing its snapshot, it answers \<open>rollback_failed\<close>, its application is blocked, and the journal
  can no longer be read, so that the next start of the agent throws: the event \<open>APPLYING\<close> is
  persisted with the sequence 0, and the journal's reader refuses a sequence below 1.
\<close>
theorem runtime_apply_never_completes:
  assumes "perform_apply (runtime_deps env) inp (begin_run rt active) = (Inr res, s)"
    and "map_of (rt_changes rt) (in_change_id inp) \<noteq> None"
    and "\<forall>w ch w'. en_read_staged env (in_change_id inp) w = (Inr (Some ch), w') \<longrightarrow>
      sc_change_id ch = in_change_id inp"
  shows "ar_outcome res \<noteq> Outcome_completed \<and> (\<forall>(c, ok) \<in> set (r_log s). \<not> is_write c) \<and>
    (r_snapshot s = None \<or>
      (ar_outcome res = Outcome_rollback_failed \<and>
       (\<exists>c. map_of (rt_changes (r_world s)) (in_change_id inp) = Some c \<and>
            rc_app_id c \<in> set (rt_blocked (r_world s))) \<and>
       (\<exists>e. fst (start_runtime (begin_runtime w (rt_journal (r_world s)))) = Inl e)))"
proof -
  let ?cid = "in_change_id inp"
  obtain s' where body: "catch_prog (try_block (runtime_deps env) inp) (catch_block (runtime_deps env) inp)
      (begin_run rt active) = (Inr res, s')"
    and s: "s = leave (release_all s')"
    using perform_apply_body [OF assms(1)] .
  have "id_kept env ?cid" using assms(3) by (auto simp: id_kept_def)
  then have "triple (\<lambda>s. \<exists>rt active. s = begin_run rt active \<and> registered ?cid rt)
      (catch_prog (try_block (runtime_deps env) inp) (catch_block (runtime_deps env) inp))
      (fate ?cid) (\<lambda>_ _. True)"
    by (intro triple_catch [OF triple_weaken [OF try_ends] catch_fate]) auto
  then have "fate ?cid res s'"
    using triple_returns body assms(2) by (fastforce simp: registered_def)
  then have fate: "fate ?cid res s"
    unfolding s by (rule fate_finally)
  have "\<exists>e. fst (start_runtime (begin_runtime w (rt_journal (r_world s)))) = Inl e"
    if "broken (r_world s)"
  proof -
    have "\<exists>e. fst (journal_records (begin_runtime w (rt_journal (r_world s)))) = Inl e"
      using that read_entries_broken
      by (force simp: broken_def journal_records_def bind_prog_def gets_def begin_runtime_def)
    then show ?thesis
      by (auto simp: start_runtime_def bind_prog_def split: prod.splits sum.splits)
  qed
  with fate show ?thesis
    by (auto simp: fate_def calm_def unwritten_def stuck_def blocked_change_def)
qed


definition sample_runtime_run :: "(apply_exn + apply_result) \<times> unit runtime run_state" where
  "sample_runtime_run = perform_apply (runtime_deps sample_env) sample_input (begin_run sample_accepted [])"

lemma sample_runtime_facts:
  "(case fst sample_runtime_run of Inr res \<Rightarrow> True | Inl _ \<Rightarrow> False) \<and>
   r_snapshot (snd sample_runtime_run) \<noteq> None \<and>
   map_of (rt_changes sample_accepted) (in_change_id sample_input) \<noteq> None"
  by code_simp

theorem runtime_apply_never_completes_witness:
  "\<exists>res s. sample_runtime_run = (Inr res, s) \<and> ar_outcome res = Outcome_rollback_failed"
proof -
  obtain r s where pair: "sample_runtime_run = (r, s)"
    by (rule prod.exhaust)
  have "case r of Inr res \<Rightarrow> True | Inl e \<Rightarrow> False" and snap: "r_snapshot s \<noteq> None"
    using sample_runtime_facts unfolding pair by simp_all
  then obtain res where r: "r = Inr res"
    by (cases r) auto
  have staged: "\<forall>w ch w'. en_read_staged sample_env (in_change_id sample_input) w = (Inr (Some ch), w') \<longrightarrow>
      sc_change_id ch = in_change_id sample_input"
    by (auto simp: sample_env_def ret_def sample_change_def sample_input_def)
  have "ar_outcome res = Outcome_rollback_failed"
    using runtime_apply_never_completes [OF pair [unfolded sample_runtime_run_def r]
        conjunct2 [OF conjunct2 [OF sample_runtime_facts]] staged, of "()"] snap by simp
  with pair r show ?thesis by blast
qed

end
