(* ===== verification/Framing.thy ===== *)
theory Framing
  imports Prelude "HOL-Library.Word"
begin

text \<open>
  The two frame decoders: apps/sql-worker/src/protocol/framing.ts (prefix \<open>worker_\<close>) and
  packages/config-contracts/src/framing.ts (prefix \<open>config_\<close>).

  A \<open>Buffer\<close> is a list of bytes; the field \<open>buffer\<close> of a decoder is the state of \<open>push\<close>, which is
  returned also when \<open>push\<close> throws. \<open>stringify\<close> and \<open>parse\<close> are \<open>JSON.stringify\<close> to UTF-8 and
  \<open>JSON.parse\<close>, where \<open>None\<close> is a \<open>SyntaxError\<close>.
\<close>

type_synonym byte = "8 word"
type_synonym bytes = "byte list"

datatype frame_error =
    WORKER_FRAME_TOO_LARGE | WORKER_FRAME_INVALID_JSON
  | Frame_exceeds_maximum | Frame_syntax_error | Frame_buffer_exceeds | Frame_trailing_bytes

definition max_frame_bytes :: nat where
  "max_frame_bytes = 1048576"

section \<open>The header\<close>

definition write_uint32_be :: "nat \<Rightarrow> bytes" where
  "write_uint32_be n =
     [word_of_nat (n div 16777216), word_of_nat (n div 65536), word_of_nat (n div 256), word_of_nat n]"

definition read_uint32_be :: "bytes \<Rightarrow> nat" where
  "read_uint32_be b =
     unat (b ! 0) * 16777216 + unat (b ! 1) * 65536 + unat (b ! 2) * 256 + unat (b ! 3)"

lemma length_header [simp]: "length (write_uint32_be n) = 4"
  by (simp add: write_uint32_be_def)

lemma read_write_uint32:
  assumes "n \<le> max_frame_bytes"
  shows "read_uint32_be (write_uint32_be n @ rest) = n"
proof -
  have "unat (word_of_nat k :: byte) = k mod 256" for k
    by (simp add: unat_of_nat take_bit_eq_mod)
  then have "read_uint32_be (write_uint32_be n @ rest) =
      (n div 16777216 mod 256) * 16777216 + (n div 65536 mod 256) * 65536 +
      (n div 256 mod 256) * 256 + n mod 256"
    by (simp add: read_uint32_be_def write_uint32_be_def)
  also have "\<dots> = n"
  proof -
    define a b c where "a = n div 256" and "b = a div 256" and "c = b div 256"
    have quotients: "n div 65536 = b" "n div 16777216 = c"
      by (simp_all add: a_def b_def c_def flip: div_mult2_eq)
    have "n = a * 256 + n mod 256" "a = b * 256 + a mod 256" "b = c * 256 + b mod 256"
      by (simp_all add: a_def b_def c_def)
    moreover have "c < 256"
      using assms by (simp add: a_def b_def c_def max_frame_bytes_def flip: div_mult2_eq)
    ultimately show ?thesis
      unfolding quotients a_def [symmetric] by simp
  qed
  finally show ?thesis .
qed

section \<open>The worker's decoder\<close>

definition worker_encode :: "('v \<Rightarrow> bytes) \<Rightarrow> 'v \<Rightarrow> frame_error + bytes" where
  "worker_encode stringify v =
     (let body = stringify v
      in if length body > max_frame_bytes then Inl WORKER_FRAME_TOO_LARGE
         else Inr (write_uint32_be (length body) @ body))"

function worker_loop :: "(bytes \<Rightarrow> 'v option) \<Rightarrow> bytes \<Rightarrow> (frame_error + 'v list) \<times> bytes" where
  "worker_loop parse buf =
     (if length buf < 4 then (Inr [], buf)
      else let size = read_uint32_be buf
           in if size > max_frame_bytes then (Inl WORKER_FRAME_TOO_LARGE, buf)
              else if length buf < size + 4 then (Inr [], buf)
              else case parse (take size (drop 4 buf)) of
                     None \<Rightarrow> (Inl WORKER_FRAME_INVALID_JSON, drop (size + 4) buf)
                   | Some v \<Rightarrow>
                       (case worker_loop parse (drop (size + 4) buf) of
                          (Inl e, b) \<Rightarrow> (Inl e, b)
                        | (Inr vs, b) \<Rightarrow> (Inr (v # vs), b)))"
  by pat_completeness auto
termination
  by (relation "measure (\<lambda>(_, buf). length buf)") auto

declare worker_loop.simps [simp del]

definition worker_push ::
  "(bytes \<Rightarrow> 'v option) \<Rightarrow> bytes \<Rightarrow> bytes \<Rightarrow> (frame_error + 'v list) \<times> bytes" where
  "worker_push parse buf chunk = worker_loop parse (buf @ chunk)"

section \<open>The decoder of the configuration agent\<close>

definition max_buffer_bytes :: nat where
  "max_buffer_bytes = max_frame_bytes * 4"

definition config_encode :: "('v \<Rightarrow> bytes) \<Rightarrow> 'v \<Rightarrow> frame_error + bytes" where
  "config_encode stringify v =
     (let payload = stringify v
      in if length payload > max_frame_bytes then Inl Frame_exceeds_maximum
         else Inr (write_uint32_be (length payload) @ payload))"

text \<open>A frame whose JSON is bad is not removed from the buffer.\<close>

function config_loop :: "(bytes \<Rightarrow> 'v option) \<Rightarrow> bytes \<Rightarrow> (frame_error + 'v list) \<times> bytes" where
  "config_loop parse buf =
     (if length buf < 4 then (Inr [], buf)
      else let size = read_uint32_be buf
           in if size > max_frame_bytes then (Inl Frame_exceeds_maximum, buf)
              else if length buf < 4 + size then (Inr [], buf)
              else case parse (take size (drop 4 buf)) of
                     None \<Rightarrow> (Inl Frame_syntax_error, buf)
                   | Some v \<Rightarrow>
                       (case config_loop parse (drop (4 + size) buf) of
                          (Inl e, b) \<Rightarrow> (Inl e, b)
                        | (Inr vs, b) \<Rightarrow> (Inr (v # vs), b)))"
  by pat_completeness auto
termination
  by (relation "measure (\<lambda>(_, buf). length buf)") auto

declare config_loop.simps [simp del]

definition config_push ::
  "(bytes \<Rightarrow> 'v option) \<Rightarrow> bytes \<Rightarrow> bytes \<Rightarrow> (frame_error + 'v list) \<times> bytes" where
  "config_push parse buf chunk =
     (if length buf + length chunk > max_buffer_bytes then (Inl Frame_buffer_exceeds, buf)
      else config_loop parse (buf @ chunk))"

definition config_finish :: "bytes \<Rightarrow> frame_error + 'v list" where
  "config_finish buf = (if length buf \<noteq> 0 then Inl Frame_trailing_bytes else Inr [])"

definition decode_frames :: "(bytes \<Rightarrow> 'v option) \<Rightarrow> bytes \<Rightarrow> frame_error + 'v list" where
  "decode_frames parse buf =
     (case config_push parse [] buf of
        (Inl e, _) \<Rightarrow> Inl e
      | (Inr vs, b) \<Rightarrow> (case config_finish b :: frame_error + 'v list of
                         Inl e \<Rightarrow> Inl e | Inr _ \<Rightarrow> Inr vs))"

section \<open>The interface of a frame decoder\<close>

text \<open>A stream is fed chunk by chunk; the first throw ends it.\<close>

fun feed :: "(bytes \<Rightarrow> bytes \<Rightarrow> (frame_error + 'v list) \<times> bytes) \<Rightarrow> bytes \<Rightarrow> bytes list
    \<Rightarrow> (frame_error + 'v list) \<times> bytes" where
  "feed push buf [] = (Inr [], buf)"
| "feed push buf (c # cs) =
     (case push buf c of
        (Inl e, b) \<Rightarrow> (Inl e, b)
      | (Inr vs, b) \<Rightarrow>
          (case feed push b cs of (Inl e, b') \<Rightarrow> (Inl e, b') | (Inr ws, b') \<Rightarrow> (Inr (vs @ ws), b')))"

locale frame_decoder =
  fixes push :: "bytes \<Rightarrow> bytes \<Rightarrow> (frame_error + 'v list) \<times> bytes"
    and encode :: "'v \<Rightarrow> frame_error + bytes"
    and settled :: "bytes \<Rightarrow> bool"
    and fits :: "bytes \<Rightarrow> bool"
  assumes settled_Nil: "settled []"
    and push_nothing: "settled b \<Longrightarrow> push b [] = (Inr [], b)"
    and push_split: "push b (c1 @ c2) = (Inr vs, b') \<Longrightarrow>
      \<exists>vs1 vs2 b1. push b c1 = (Inr vs1, b1) \<and> push b1 c2 = (Inr vs2, b') \<and> vs = vs1 @ vs2 \<and> settled b1"
    and push_encoded: "map encode vs = map Inr fs \<Longrightarrow> fits (concat fs) \<Longrightarrow>
      push [] (concat fs) = (Inr vs, [])"
begin

lemma chunks_do_not_matter:
  "push b (concat cs) = (Inr vs, b') \<Longrightarrow> settled b \<Longrightarrow> feed push b cs = (Inr vs, b')"
proof (induction cs arbitrary: b vs)
  case Nil
  then show ?case by (simp add: push_nothing)
next
  case (Cons c cs)
  from Cons.prems(1) obtain vs1 vs2 b1 where "push b c = (Inr vs1, b1)"
    and "push b1 (concat cs) = (Inr vs2, b')" and "vs = vs1 @ vs2" and "settled b1"
    using push_split [of b c "concat cs"] by auto
  with Cons.IH [of b1 vs2] show ?case by simp
qed

lemma stream_decodes:
  assumes "map encode vs = map Inr fs" and "concat cs = concat fs" and "fits (concat fs)"
  shows "feed push [] cs = (Inr vs, [])"
  using chunks_do_not_matter [of "[]" cs vs "[]"] push_encoded [OF assms(1,3)] assms(2) settled_Nil
  by simp

end

section \<open>Both decoders promise it\<close>

text \<open>A buffer that \<open>push\<close> left: no complete frame, and no header that is too large.\<close>

definition incomplete :: "bytes \<Rightarrow> bool" where
  "incomplete b \<longleftrightarrow>
     length b < 4 \<or> (read_uint32_be b \<le> max_frame_bytes \<and> length b < read_uint32_be b + 4)"

lemma read_append: "4 \<le> length b \<Longrightarrow> read_uint32_be (b @ c) = read_uint32_be b"
  by (auto simp: read_uint32_be_def nth_append)

lemma worker_loop_split:
  "worker_loop parse (b @ c) = (Inr vs, b') \<Longrightarrow>
     \<exists>vs1 vs2 b1. worker_loop parse b = (Inr vs1, b1) \<and> worker_loop parse (b1 @ c) = (Inr vs2, b') \<and>
       vs = vs1 @ vs2 \<and> incomplete b1"
proof (induction b arbitrary: vs rule: length_induct)
  case (1 b)
  show ?case
  proof (cases "incomplete b")
    case True
    then have "worker_loop parse b = (Inr [], b)"
      by (subst worker_loop.simps) (auto simp: incomplete_def Let_def)
    with 1 True show ?thesis by (intro exI [of _ "[]"] exI [of _ vs] exI [of _ b]) simp
  next
    case False
    let ?size = "read_uint32_be b"
    have len: "4 \<le> length b" and size: "read_uint32_be (b @ c) = ?size"
      using False by (auto simp: incomplete_def read_append)
    have fits: "?size \<le> max_frame_bytes"
      using 1(2) len size by (subst (asm) worker_loop.simps) (auto simp: Let_def split: if_splits)
    then have whole: "?size + 4 \<le> length b"
      using False by (auto simp: incomplete_def)
    obtain v where parse: "parse (take ?size (drop 4 b)) = Some v"
      using 1(2) len size fits whole
      by (subst (asm) worker_loop.simps) (auto simp: Let_def split: option.splits)
    have step: "worker_loop parse (b @ x) =
        (case worker_loop parse (drop (?size + 4) b @ x) of
           (Inl e, b) \<Rightarrow> (Inl e, b) | (Inr vs, b) \<Rightarrow> (Inr (v # vs), b))" for x
      using len fits whole parse
      by (subst worker_loop.simps) (simp add: Let_def read_append)
    obtain ws where rest: "worker_loop parse (drop (?size + 4) b @ c) = (Inr ws, b')" and vs: "vs = v # ws"
      using 1(2) step [of c] by (auto split: prod.splits sum.splits)
    have "length (drop (?size + 4) b) < length b" using len by simp
    with 1(1) rest obtain vs1 vs2 b1 where
      "worker_loop parse (drop (?size + 4) b) = (Inr vs1, b1)"
      "worker_loop parse (b1 @ c) = (Inr vs2, b')" "ws = vs1 @ vs2" "incomplete b1"
      by blast
    with step [of "[]"] vs show ?thesis
      by (intro exI [of _ "v # vs1"] exI [of _ vs2] exI [of _ b1]) simp
  qed
qed

text \<open>As long as nothing is thrown, the two loops are the same.\<close>

lemma worker_loop_step:
  "\<not> length b < 4 \<Longrightarrow> worker_loop parse b =
     (if read_uint32_be b > max_frame_bytes then (Inl WORKER_FRAME_TOO_LARGE, b)
      else if length b < read_uint32_be b + 4 then (Inr [], b)
      else case parse (take (read_uint32_be b) (drop 4 b)) of
             None \<Rightarrow> (Inl WORKER_FRAME_INVALID_JSON, drop (read_uint32_be b + 4) b)
           | Some v \<Rightarrow>
               (case worker_loop parse (drop (read_uint32_be b + 4) b) of
                  (Inl e, b) \<Rightarrow> (Inl e, b) | (Inr vs, b) \<Rightarrow> (Inr (v # vs), b)))"
  by (subst worker_loop.simps) (simp add: Let_def)

lemma config_loop_step:
  "\<not> length b < 4 \<Longrightarrow> config_loop parse b =
     (if read_uint32_be b > max_frame_bytes then (Inl Frame_exceeds_maximum, b)
      else if length b < read_uint32_be b + 4 then (Inr [], b)
      else case parse (take (read_uint32_be b) (drop 4 b)) of
             None \<Rightarrow> (Inl Frame_syntax_error, b)
           | Some v \<Rightarrow>
               (case config_loop parse (drop (read_uint32_be b + 4) b) of
                  (Inl e, b) \<Rightarrow> (Inl e, b) | (Inr vs, b) \<Rightarrow> (Inr (v # vs), b)))"
  by (subst config_loop.simps)
    (simp add: Let_def add.commute [of 4 "read_uint32_be b"] cong: option.case_cong)

definition agree :: "(frame_error + 'v list) \<times> bytes \<Rightarrow> (frame_error + 'v list) \<times> bytes \<Rightarrow> bool" where
  "agree x y \<longleftrightarrow>
     (case fst x of Inr vs \<Rightarrow> y = x | Inl e \<Rightarrow> (case fst y of Inr vs \<Rightarrow> False | Inl e' \<Rightarrow> True))"

lemma agree_cons:
  "agree x y \<Longrightarrow>
     agree (case x of (Inl e, b) \<Rightarrow> (Inl e, b) | (Inr vs, b) \<Rightarrow> (Inr (v # vs), b))
           (case y of (Inl e, b) \<Rightarrow> (Inl e, b) | (Inr vs, b) \<Rightarrow> (Inr (v # vs), b))"
  by (cases x; cases y; cases "fst x"; cases "fst y") (simp_all add: agree_def)

lemma agree_refl [simp]: "agree x x"
  by (simp add: agree_def split: sum.split)

lemma config_loop_same: "agree (worker_loop parse b) (config_loop parse b)"
proof (induction b rule: length_induct)
  case (1 b)
  show ?case
  proof (cases "length b < 4")
    case True
    then show ?thesis by (subst config_loop.simps, subst worker_loop.simps) simp
  next
    case False
    have "length (drop (read_uint32_be b + 4) b) < length b"
      using False by simp
    with 1 have "agree (worker_loop parse (drop (read_uint32_be b + 4) b))
        (config_loop parse (drop (read_uint32_be b + 4) b))"
      by blast
    then show ?thesis
      unfolding worker_loop_step [OF False] config_loop_step [OF False]
      by (cases "parse (take (read_uint32_be b) (drop 4 b))")
        (simp_all add: agree_cons, simp_all add: agree_def)
  qed
qed

lemma config_loop_worker:
  "config_loop parse b = (Inr vs, b') \<longleftrightarrow> worker_loop parse b = (Inr vs, b')"
  using config_loop_same [of parse b]
  by (cases "worker_loop parse b"; cases "config_loop parse b") (auto simp: agree_def split: sum.splits)

lemma encoded_step:
  assumes "length body \<le> max_frame_bytes" and "parse body = Some v"
  shows "worker_loop parse ((write_uint32_be (length body) @ body) @ rest) =
    (case worker_loop parse rest of (Inl e, b) \<Rightarrow> (Inl e, b) | (Inr vs, b) \<Rightarrow> (Inr (v # vs), b))"
  using assms
  by (subst worker_loop.simps) (simp add: Let_def read_write_uint32)

lemma worker_encoded:
  "map (worker_encode stringify) vs = map Inr fs \<Longrightarrow> \<forall>v \<in> set vs. parse (stringify v) = Some v \<Longrightarrow>
    worker_loop parse (concat fs) = (Inr vs, [])"
proof (induction vs arbitrary: fs)
  case Nil
  then show ?case by (subst worker_loop.simps) simp
next
  case (Cons v vs)
  then obtain f gs where fs: "fs = f # gs" and f: "worker_encode stringify v = Inr f"
    and "worker_loop parse (concat gs) = (Inr vs, [])"
    by (cases fs) auto
  moreover from f have "length (stringify v) \<le> max_frame_bytes"
    and "f = write_uint32_be (length (stringify v)) @ stringify v"
    by (auto simp: worker_encode_def Let_def split: if_splits)
  ultimately show ?case
    using encoded_step [of "stringify v" parse v "concat gs"] Cons.prems by simp
qed

lemma config_encode_worker:
  "config_encode stringify v = Inr f \<longleftrightarrow> worker_encode stringify v = Inr f"
  by (auto simp: config_encode_def worker_encode_def Let_def)

lemma incomplete_push: "incomplete b \<Longrightarrow> worker_loop parse b = (Inr [], b)"
  by (subst worker_loop.simps) (auto simp: incomplete_def Let_def)

text \<open>What is sent: values whose text \<open>JSON.parse\<close> reads back.\<close>

definition sent :: "('v \<Rightarrow> frame_error + bytes) \<Rightarrow> ('v \<Rightarrow> bytes) \<Rightarrow> (bytes \<Rightarrow> 'v option) \<Rightarrow> 'v
    \<Rightarrow> frame_error + bytes" where
  "sent encode stringify parse v =
     (if parse (stringify v) = Some v then encode v else Inl Frame_syntax_error)"

lemma map_sent:
  "map (sent encode stringify parse) vs = map Inr fs \<longleftrightarrow>
     (\<forall>v \<in> set vs. parse (stringify v) = Some v) \<and> map encode vs = map Inr fs"
proof (induction vs arbitrary: fs)
  case Nil
  then show ?case by simp
next
  case (Cons v vs)
  then show ?case by (cases fs) (auto simp: sent_def)
qed

interpretation worker: frame_decoder "worker_push parse" "sent (worker_encode stringify) stringify parse"
  incomplete "\<lambda>_. True"
  for parse :: "bytes \<Rightarrow> 'v option" and stringify
proof unfold_locales
  show "incomplete []" by (simp add: incomplete_def)
  show "incomplete b \<Longrightarrow> worker_push parse b [] = (Inr [], b)" for b
    by (simp add: worker_push_def incomplete_push)
  show "\<exists>vs1 vs2 b1. worker_push parse b c1 = (Inr vs1, b1) \<and> worker_push parse b1 c2 = (Inr vs2, b') \<and>
      vs = vs1 @ vs2 \<and> incomplete b1"
    if "worker_push parse b (c1 @ c2) = (Inr vs, b')" for b c1 c2 vs b'
    using worker_loop_split [of parse "b @ c1" c2 vs b'] that by (simp add: worker_push_def)
  show "worker_push parse [] (concat fs) = (Inr vs, [])"
    if "map (sent (worker_encode stringify) stringify parse) vs = map Inr fs" for vs fs
    using worker_encoded [of stringify vs fs parse] that by (simp add: worker_push_def map_sent)
qed

lemma incomplete_length: "incomplete b \<Longrightarrow> length b < max_frame_bytes + 4"
  by (auto simp: incomplete_def max_frame_bytes_def)

lemma worker_loop_length: "worker_loop parse b = (r, b') \<Longrightarrow> length b' \<le> length b"
proof (induction b arbitrary: r rule: length_induct)
  case (1 b)
  show ?case
  proof (cases "length b < 4")
    case True
    with 1(2) show ?thesis by (subst (asm) worker_loop.simps) simp
  next
    case False
    have "length (drop (read_uint32_be b + 4) b) < length b" using False by simp
    with 1(1) have "worker_loop parse (drop (read_uint32_be b + 4) b) = (r', b') \<Longrightarrow>
        length b' \<le> length b" for r'
      by fastforce
    then show ?thesis
      using 1(2) False
      by (subst (asm) worker_loop.simps) (auto simp: Let_def split: if_splits option.splits prod.splits sum.splits)
  qed
qed

interpretation config: frame_decoder "config_push parse" "sent (config_encode stringify) stringify parse"
  "\<lambda>b. incomplete b \<and> length b \<le> max_buffer_bytes" "\<lambda>b. length b \<le> max_buffer_bytes"
  for parse :: "bytes \<Rightarrow> 'v option" and stringify
proof unfold_locales
  show "incomplete [] \<and> length ([] :: bytes) \<le> max_buffer_bytes" by (simp add: incomplete_def)
  show "config_push parse b [] = (Inr [], b)" if "incomplete b \<and> length b \<le> max_buffer_bytes" for b
    using that by (simp add: config_push_def config_loop_worker incomplete_push)
  show "\<exists>vs1 vs2 b1. config_push parse b c1 = (Inr vs1, b1) \<and> config_push parse b1 c2 = (Inr vs2, b') \<and>
      vs = vs1 @ vs2 \<and> incomplete b1 \<and> length b1 \<le> max_buffer_bytes"
    if push: "config_push parse b (c1 @ c2) = (Inr vs, b')" for b c1 c2 vs b'
  proof -
    have len: "length b + length c1 + length c2 \<le> max_buffer_bytes"
      and loop: "worker_loop parse ((b @ c1) @ c2) = (Inr vs, b')"
      using push by (auto simp: config_push_def config_loop_worker split: if_splits)
    obtain vs1 vs2 b1 where split: "worker_loop parse (b @ c1) = (Inr vs1, b1)"
      "worker_loop parse (b1 @ c2) = (Inr vs2, b')" "vs = vs1 @ vs2" "incomplete b1"
      using worker_loop_split [OF loop] by blast
    have "length b1 \<le> length b + length c1"
      using worker_loop_length [OF split(1)] by simp
    with split len show ?thesis
      by (intro exI [of _ vs1] exI [of _ vs2] exI [of _ b1])
        (simp add: config_push_def config_loop_worker)
  qed
  show "config_push parse [] (concat fs) = (Inr vs, [])"
    if "map (sent (config_encode stringify) stringify parse) vs = map Inr fs"
      and "length (concat fs) \<le> max_buffer_bytes" for vs fs
  proof -
    have "map (worker_encode stringify) vs = map Inr fs"
      using that(1) by (auto simp: sent_def list_eq_iff_nth_eq config_encode_worker split: if_splits)
    then show ?thesis
      using worker_encoded [of stringify vs fs parse] that
      by (simp add: config_push_def config_loop_worker map_sent)
  qed
qed


section \<open>Properties\<close>

text \<open>
  The stream of the SQL worker does not depend on how it is cut. However the frames of some
  values are cut into chunks, the decoder answers exactly those values, in order, and keeps nothing,
  provided that \<open>JSON.parse\<close> reads back the texts of these values.
\<close>
theorem worker_stream_decodes:
  assumes "\<forall>v \<in> set vs. parse (stringify v) = Some v"
    and "map (worker_encode stringify) vs = map Inr fs" and "concat chunks = concat fs"
  shows "feed (worker_push parse) [] chunks = (Inr vs, [])"
  using worker.stream_decodes [of stringify parse vs fs chunks] assms by (simp add: map_sent)

text \<open>Values that are bytes, with the text of one byte, for the witnesses.\<close>

definition one_byte :: "byte \<Rightarrow> bytes" where
  "one_byte v = [v]"

definition parse_byte :: "bytes \<Rightarrow> byte option" where
  "parse_byte b = (case b of [v] \<Rightarrow> Some v | _ \<Rightarrow> None)"

theorem worker_stream_decodes_witness:
  "feed (worker_push parse_byte) [] [[0, 0], [0, 1, 7, 0], [0, 0, 1, 9]] = (Inr [7, 9], [])"
proof (rule worker_stream_decodes [where stringify = one_byte and fs = "[[0, 0, 0, 1, 7], [0, 0, 0, 1, 9]]"])
  show "\<forall>v \<in> set [7, 9 :: byte]. parse_byte (one_byte v) = Some v"
    by (simp add: parse_byte_def one_byte_def)
  show "map (worker_encode one_byte) [7, 9] = map Inr [[0, 0, 0, 1, 7], [0, 0, 0, 1, 9]]"
    by (simp add: worker_encode_def one_byte_def write_uint32_be_def max_frame_bytes_def)
qed simp

text \<open>
  The decoder of the configuration agent agrees with the one of the SQL worker on every stream
  that fits its buffer of 4 MiB: a stream of frames cut anywhere gives exactly the values sent, and
  \<open>decodeFrames\<close> of the whole stream gives the same.
\<close>
theorem config_stream_decodes:
  assumes "\<forall>v \<in> set vs. parse (stringify v) = Some v"
    and "map (config_encode stringify) vs = map Inr fs" and "concat chunks = concat fs"
    and "length (concat fs) \<le> max_buffer_bytes"
  shows "feed (config_push parse) [] chunks = (Inr vs, []) \<and> decode_frames parse (concat fs) = Inr vs"
  using config.stream_decodes [of stringify parse vs fs chunks]
    config.push_encoded [of stringify parse vs fs] assms
  by (simp add: map_sent decode_frames_def config_finish_def)

theorem config_stream_decodes_witness:
  "feed (config_push parse_byte) [] [[0], [0, 0, 1, 7, 0, 0, 0], [1, 9]] = (Inr [7, 9], [])"
proof -
  have "\<forall>v \<in> set [7, 9 :: byte]. parse_byte (one_byte v) = Some v"
    by (simp add: parse_byte_def one_byte_def)
  moreover have "map (config_encode one_byte) [7, 9] = map Inr [[0, 0, 0, 1, 7], [0, 0, 0, 1, 9]]"
    by (simp add: config_encode_def one_byte_def write_uint32_be_def max_frame_bytes_def)
  ultimately show ?thesis
    using config_stream_decodes [of "[7, 9]" parse_byte one_byte "[[0, 0, 0, 1, 7], [0, 0, 0, 1, 9]]"
        "[[0], [0, 0, 1, 7, 0, 0, 0], [1, 9]]"]
    by (simp add: max_buffer_bytes_def max_frame_bytes_def)
qed

end
