(* ===== verification/WorkerGate.thy ===== *)
theory WorkerGate
  imports Prelude
begin

text \<open>
  The gate of the SQL worker: the store of nonces (apps/sql-worker/src/runtime/nonceStore.ts) and
  the authentication of a command (apps/sql-worker/src/protocol/authenticateCommand.ts).

  The signature of a command (\<open>signWorkerCommand\<close>, an HMAC of its JSON) is a parameter \<open>sign\<close>. The
  clock is read once per call; its value is an argument.
\<close>

section \<open>The nonce store\<close>

definition nonce_char :: "char \<Rightarrow> bool" where
  "nonce_char c \<longleftrightarrow> is_alnum c \<or> c = CHR ''_'' \<or> c = CHR ''-''"

definition nonce_pattern :: "string \<Rightarrow> bool" where
  "nonce_pattern s \<longleftrightarrow> 16 \<le> length s \<and> length s \<le> 200 \<and> list_all nonce_char s"

record nonce_config =
  nc_ttl :: int
  nc_maximum :: int

definition nonce_config_ok :: "nonce_config \<Rightarrow> bool" where
  "nonce_config_ok cfg \<longleftrightarrow>
     1000 \<le> nc_ttl cfg \<and> nc_ttl cfg \<le> 600000 \<and> 1 \<le> nc_maximum cfg \<and> nc_maximum cfg \<le> 100000"

definition default_nonce_config :: nonce_config where
  "default_nonce_config = \<lparr> nc_ttl = 120000, nc_maximum = 10000 \<rparr>"

type_synonym nonces = "(string \<times> millis) list"

definition create_nonce_store :: "nonce_config \<Rightarrow> string + nonces" where
  "create_nonce_store cfg =
     (if \<not> nonce_config_ok cfg then Inl ''SQL worker nonce store configuration is invalid'' else Inr [])"

definition consume_nonce :: "nonce_config \<Rightarrow> millis \<Rightarrow> string \<Rightarrow> nonces \<Rightarrow> bool \<times> nonces" where
  "consume_nonce cfg now nonce entries =
     (if \<not> nonce_pattern nonce then (False, entries)
      else let live = filter (\<lambda>(_, expires). \<not> expires \<le> now) entries
           in if nonce \<in> fst ` set live \<or> nc_maximum cfg \<le> int (length live) then (False, live)
              else (True, AList.update nonce (now + nc_ttl cfg) live))"

section \<open>Authentication\<close>

datatype worker_kind = Schema_read | Database_targets | Database_schema | Other_kind string

record worker_command =
  wc_kind :: worker_kind
  wc_role :: string
  wc_nonce :: string
  wc_issued_at :: "millis option"
  wc_body :: string
  wc_signature :: string

definition is_schema_read :: "worker_command \<Rightarrow> bool" where
  "is_schema_read c \<longleftrightarrow>
     wc_kind c = Schema_read \<or> wc_kind c = Database_targets \<or> wc_kind c = Database_schema"

definition is_maintainer :: "worker_command \<Rightarrow> bool" where
  "is_maintainer c \<longleftrightarrow> wc_role c = ''ops_maintainer'' \<or> wc_role c = ''ops_owner''"

definition authenticate ::
  "(worker_command \<Rightarrow> string) \<Rightarrow> (millis \<Rightarrow> string \<Rightarrow> 's \<Rightarrow> bool \<times> 's) \<Rightarrow> millis \<Rightarrow> worker_command
     \<Rightarrow> 's \<Rightarrow> bool \<times> 's" where
  "authenticate sign consume now c s =
     (if \<not> is_schema_read c \<and> \<not> is_maintainer c then (False, s)
      else case wc_issued_at c of
        None \<Rightarrow> (False, s)
      | Some issued \<Rightarrow>
          if \<bar>now - issued\<bar> > 60000 \<or> wc_signature c \<noteq> sign (c\<lparr>wc_signature := []\<rparr>) then (False, s)
          else consume now (wc_nonce c) s)"

section \<open>The interface of a nonce store\<close>

text \<open>
  \<open>remembers s n e\<close>: the store refuses the nonce \<open>n\<close> until the time \<open>e\<close>. A consumed nonce is
  remembered for \<open>ttl\<close>, and remembered through every later call.
\<close>

locale nonce_store =
  fixes consume :: "millis \<Rightarrow> string \<Rightarrow> 's \<Rightarrow> bool \<times> 's"
    and remembers :: "'s \<Rightarrow> string \<Rightarrow> millis \<Rightarrow> bool"
    and ttl :: int
  assumes consumed: "consume now n s = (True, s') \<Longrightarrow> remembers s' n (now + ttl)"
    and refused: "remembers s n e \<Longrightarrow> now < e \<Longrightarrow> \<not> fst (consume now n s)"
    and kept: "remembers s n e \<Longrightarrow> now < e \<Longrightarrow> remembers (snd (consume now m s)) n e"
begin

text \<open>Several commands, each with the time at which it arrives.\<close>

fun authenticate_all ::
  "(worker_command \<Rightarrow> string) \<Rightarrow> (millis \<times> worker_command) list \<Rightarrow> 's \<Rightarrow> bool list \<times> 's" where
  "authenticate_all sign [] s = ([], s)"
| "authenticate_all sign ((now, c) # rest) s =
     (case authenticate sign consume now c s of (ok, s') \<Rightarrow>
        (case authenticate_all sign rest s' of (oks, s'') \<Rightarrow> (ok # oks, s'')))"

lemma authenticate_kept:
  "remembers s n e \<Longrightarrow> now < e \<Longrightarrow> remembers (snd (authenticate sign consume now c s)) n e"
  by (auto simp: authenticate_def kept split: option.split)

lemma authenticate_accepts:
  "fst (authenticate sign consume now c s) \<Longrightarrow>
     \<exists>issued. wc_issued_at c = Some issued \<and> \<bar>now - issued\<bar> \<le> 60000 \<and>
       authenticate sign consume now c s = consume now (wc_nonce c) s"
  by (auto simp: authenticate_def split: if_splits option.splits)

lemma later_refused:
  assumes "remembers s n e" and "sorted (map fst rest)" and "now < e"
    and "((now, c), True) \<in> set (zip rest (fst (authenticate_all sign rest s)))"
  shows "wc_nonce c \<noteq> n"
  using assms
proof (induction rest arbitrary: s)
  case Nil
  then show ?case by simp
next
  case (Cons x rest)
  obtain t d where x: "x = (t, d)" by fastforce
  obtain ok s' where step: "authenticate sign consume t d s = (ok, s')" by fastforce
  obtain oks s'' where others: "authenticate_all sign rest s' = (oks, s'')" by fastforce
  have mem: "((now, c), True) \<in> set (zip (x # rest) (ok # oks))"
    using Cons.prems(4) x step others by simp
  then have "t \<le> now"
    using Cons.prems(2) x by (auto dest!: set_zip_leftD)
  then have "t < e" using Cons.prems(3) by simp
  show ?case
  proof (cases "((now, c), True) \<in> set (zip rest oks)")
    case True
    have "remembers s' n e"
      using authenticate_kept [OF Cons.prems(1) \<open>t < e\<close>, of sign d] step by simp
    then show ?thesis
      using Cons.IH [of s'] Cons.prems(2,3) True others by simp
  next
    case False
    then have "c = d" and "ok"
      using mem x by auto
    then have "consume t (wc_nonce c) s = (True, s')"
      using authenticate_accepts [of sign t d s] step by auto
    then show ?thesis
      using refused [OF Cons.prems(1) \<open>t < e\<close>] by (metis fst_conv)
  qed
qed

text \<open>
  A command accepted once is accepted again only at the two ends of its freshness: the first time a minute
  before it says it was issued, the second time a minute after, and only by a store that forgets a nonce
  after exactly these two minutes.
\<close>

lemma accepted_again:
  assumes "authenticate sign consume t c s = (True, s')" and "120000 \<le> ttl"
    and "sorted (map fst rest)"
    and again: "((now, c), True) \<in> set (zip rest (fst (authenticate_all sign rest s')))"
  shows "ttl = 120000 \<and> wc_issued_at c = Some (t + 60000) \<and> now = t + 120000"
proof -
  obtain issued where issued: "wc_issued_at c = Some issued" "\<bar>t - issued\<bar> \<le> 60000"
    and consume: "consume t (wc_nonce c) s = (True, s')"
    using authenticate_accepts [of sign t c s] assms(1) by auto
  have fresh: "\<bar>now - issued\<bar> \<le> 60000"
    using again
  proof (induction rest arbitrary: s')
    case Nil
    then show ?case by simp
  next
    case (Cons x rest)
    obtain u d where x: "x = (u, d)" by fastforce
    obtain ok s1 where step: "authenticate sign consume u d s' = (ok, s1)" by fastforce
    show ?case
    proof (cases "((now, c), True) \<in> set (zip rest (fst (authenticate_all sign rest s1)))")
      case True
      then show ?thesis by (rule Cons.IH)
    next
      case False
      then have "u = now" "d = c" "ok"
        using Cons.prems x step by (auto split: prod.splits)
      then show ?thesis
        using authenticate_accepts [of sign u d s'] step issued(1) by auto
    qed
  qed
  have "remembers s' (wc_nonce c) (t + ttl)"
    using consume by (rule consumed)
  then have "\<not> now < t + ttl"
    using later_refused [OF _ assms(3) _ again] by blast
  then have "ttl = 120000" "issued = t + 60000" "now = t + 120000"
    using fresh issued(2) assms(2) by linarith+
  then show ?thesis using issued(1) by simp
qed

end

section \<open>The store promises it\<close>

definition nonce_remembered :: "nonces \<Rightarrow> string \<Rightarrow> millis \<Rightarrow> bool" where
  "nonce_remembered entries n e \<longleftrightarrow> (n, e) \<in> set entries"

interpretation gate: nonce_store "consume_nonce cfg" nonce_remembered "nc_ttl cfg"
  for cfg
proof unfold_locales
  show "nonce_remembered s' n (now + nc_ttl cfg)" if "consume_nonce cfg now n s = (True, s')" for now n s s'
  proof -
    have "map_of (AList.update n (now + nc_ttl cfg) m) n = Some (now + nc_ttl cfg)" for m
      by (simp add: update_conv')
    then have "(n, now + nc_ttl cfg) \<in> set (AList.update n (now + nc_ttl cfg) m)" for m
      by (rule map_of_SomeD)
    with that show ?thesis
      by (auto simp: consume_nonce_def Let_def nonce_remembered_def split: if_splits)
  qed
  show "\<not> fst (consume_nonce cfg now n s)" if "nonce_remembered s n e" and "now < e" for s n e now
  proof -
    have "n \<in> fst ` set (filter (\<lambda>(_, expires). \<not> expires \<le> now) s)"
      using that by (force simp: nonce_remembered_def)
    then show ?thesis by (simp add: consume_nonce_def Let_def)
  qed
  show "nonce_remembered (snd (consume_nonce cfg now m s)) n e"
    if "nonce_remembered s n e" and "now < e" for s n e now m
  proof -
    let ?live = "filter (\<lambda>(_, expires). \<not> expires \<le> now) s"
    have live: "(n, e) \<in> set ?live"
      using that by (simp add: nonce_remembered_def)
    have "(n, e) \<in> set (AList.update m v ?live)" if "m \<notin> fst ` set ?live" for v
      using live that by (simp add: update_fresh map_of_eq_None_iff)
    with live that(1) show ?thesis
      by (auto simp: consume_nonce_def Let_def nonce_remembered_def)
  qed
qed

section \<open>Properties\<close>

text \<open>Authenticating the commands of a list with the worker's store.\<close>

definition gate_all ::
  "(worker_command \<Rightarrow> string) \<Rightarrow> nonce_config \<Rightarrow> (millis \<times> worker_command) list \<Rightarrow> nonces
     \<Rightarrow> bool list \<times> nonces" where
  "gate_all sign cfg = nonce_store.authenticate_all (consume_nonce cfg) sign"

lemma gate_all_simps [simp]:
  "gate_all sign cfg [] s = ([], s)"
  "gate_all sign cfg ((now, c) # rest) s =
     (case authenticate sign (consume_nonce cfg) now c s of (ok, s') \<Rightarrow>
        (case gate_all sign cfg rest s' of (oks, s'') \<Rightarrow> (ok # oks, s'')))"
  by (simp_all add: gate_all_def)

definition sample_command :: worker_command where
  "sample_command =
     \<lparr> wc_kind = Schema_read, wc_role = ''ops_viewer'', wc_nonce = ''0123456789abcdef'',
       wc_issued_at = Some 60000, wc_body = ''{}'', wc_signature = ''ok'' \<rparr>"

text \<open>
  C39. The worker accepts a command once, except at one instant. The worker keeps nonces for the default two
  minutes. After it accepted a command at the time \<open>t\<close>, it accepts the same command again, whatever
  commands arrive in between, only if it was first accepted exactly one minute before it says it was issued,
  and then only in the millisecond exactly one minute after. The clock does not go back between arrivals.
\<close>
theorem command_accepted_once:
  assumes "authenticate sign (consume_nonce default_nonce_config) t c s = (True, s')"
    and "sorted (map fst rest)"
    and "((now, c), True) \<in> set (zip rest (fst (gate_all sign default_nonce_config rest s')))"
  shows "wc_issued_at c = Some (t + 60000) \<and> now = t + 120000"
  using gate.accepted_again [OF assms(1) _ assms(2)] assms(3)
  by (simp add: gate_all_def default_nonce_config_def)

theorem command_accepted_once_witness:
  "wc_issued_at sample_command = Some (0 + 60000) \<and> (120000 :: int) = 0 + 120000"
proof (rule command_accepted_once)
  let ?s = "snd (authenticate (\<lambda>_. ''ok'') (consume_nonce default_nonce_config) 0 sample_command [])"
  show "authenticate (\<lambda>_. ''ok'') (consume_nonce default_nonce_config) 0 sample_command [] = (True, ?s)"
    by code_simp
  show "sorted (map fst [(120000 :: int, sample_command)])" by simp
  show "((120000 :: int, sample_command), True) \<in>
      set (zip [(120000, sample_command)] (fst (gate_all (\<lambda>_. ''ok'') default_nonce_config
        [(120000, sample_command)] ?s)))"
    unfolding gate_all_simps by code_simp
qed

text \<open>
  With the default configuration, which keeps a nonce for exactly two minutes, the same command
  is accepted a second time: once a minute before it says it was issued, and once a minute after,
  when \<open>consume\<close> has just dropped its nonce (\<open>expiresAt <= currentTime\<close>) and the command is still
  fresh.
\<close>
theorem default_nonces_replay_at_boundary:
  assumes "wc_issued_at c = Some issued" and "is_schema_read c \<or> is_maintainer c"
    and "nonce_pattern (wc_nonce c)" and "wc_signature c = sign (c\<lparr>wc_signature := []\<rparr>)"
  shows "fst (gate_all sign default_nonce_config [(issued - 60000, c), (issued + 60000, c)] []) =
    [True, True]"
  using assms
  by (simp add: authenticate_def consume_nonce_def default_nonce_config_def Let_def)

theorem default_nonces_replay_at_boundary_witness:
  "fst (gate_all (\<lambda>_. ''ok'') default_nonce_config [(0, sample_command), (120000, sample_command)] []) =
     [True, True]"
proof -
  have "nonce_pattern (wc_nonce sample_command)" by code_simp
  then show ?thesis
    using default_nonces_replay_at_boundary [of sample_command 60000 "\<lambda>_. ''ok''"]
    by (simp add: sample_command_def is_schema_read_def)
qed

end
