(* ===== verification/SqlRisk.thy ===== *)
theory SqlRisk
  imports Prelude
begin

text \<open>
  The risk gate of production SQL: packages/contracts/src/sqlRisk.ts, classifyRisk of
  apps/sql-worker/src/classifier/riskPolicy.ts and the confirmation receipt of
  apps/api/src/modules/sql/confirmationPolicy.ts.

  Row counts are integers; the quotient \<open>affectedRows / tableRows\<close> is compared with a fraction by
  multiplying, which is exact, as the division of doubles is for tables of less than 2^50 rows.
\<close>

section \<open>Risks\<close>

datatype sql_risk = LOW | MEDIUM | HIGH | CRITICAL

fun risk_rank :: "sql_risk \<Rightarrow> nat" where
  "risk_rank LOW = 0"
| "risk_rank MEDIUM = 1"
| "risk_rank HIGH = 2"
| "risk_rank CRITICAL = 3"

instantiation sql_risk :: linorder
begin

definition less_eq_sql_risk :: "sql_risk \<Rightarrow> sql_risk \<Rightarrow> bool" where
  "a \<le> b \<longleftrightarrow> risk_rank a \<le> risk_rank b"

definition less_sql_risk :: "sql_risk \<Rightarrow> sql_risk \<Rightarrow> bool" where
  "a < b \<longleftrightarrow> risk_rank a < risk_rank b"

instance
proof
  fix a b c :: sql_risk
  show "a < b \<longleftrightarrow> a \<le> b \<and> \<not> b \<le> a"
    by (auto simp: less_eq_sql_risk_def less_sql_risk_def)
  show "a \<le> a"
    by (simp add: less_eq_sql_risk_def)
  show "a \<le> b \<Longrightarrow> b \<le> c \<Longrightarrow> a \<le> c"
    by (simp add: less_eq_sql_risk_def)
  show "a \<le> b \<Longrightarrow> b \<le> a \<Longrightarrow> a = b"
    by (cases a; cases b) (simp_all add: less_eq_sql_risk_def)
  show "a \<le> b \<or> b \<le> a"
    by (auto simp: less_eq_sql_risk_def)
qed

end

datatype sql_recoverability = REVERSIBLE | PITR_ONLY | NO_AUTOMATIC_UNDO

datatype sql_category =
    DML | TRANSACTIONAL_DDL | NON_TRANSACTIONAL | TRUNCATE | DROP | JOURNAL_BYPASS | UNPARSED | CLUSTER

record execution_gate =
  eg_risk :: sql_risk
  eg_recoverability :: sql_recoverability
  eg_recent_mfa :: bool
  eg_restore_point :: bool
  eg_phrase :: string
  eg_warnings :: "string list"
  eg_owner_only :: bool

record risk_input =
  rk_key :: string
  rk_category :: sql_category
  rk_registered :: bool
  rk_has_where :: "bool option"
  rk_affected :: int
  rk_table_rows :: "int option"
  rk_cascade :: "int option"

definition confirmation_phrase :: "string \<Rightarrow> sql_risk \<Rightarrow> string" where
  "confirmation_phrase key risk =
     (if risk = CRITICAL then ''BREAK GLASS '' @ key
      else if risk = HIGH then ''EXECUTE PRODUCTION '' @ key
      else ''EXECUTE '' @ key)"

section \<open>classifyRisk\<close>

text \<open>\<open>affects_more_than i p q\<close>: more than \<open>p / q\<close> of the table.\<close>

definition affects_more_than :: "risk_input \<Rightarrow> int \<Rightarrow> int \<Rightarrow> bool" where
  "affects_more_than i p q =
     (case rk_table_rows i of None \<Rightarrow> False | Some t \<Rightarrow> 0 < t \<and> p * t < q * rk_affected i)"

definition gate :: "risk_input \<Rightarrow> sql_risk \<Rightarrow> sql_recoverability \<Rightarrow> bool \<Rightarrow> string list \<Rightarrow> bool
    \<Rightarrow> execution_gate" where
  "gate i risk rec guarded warnings owner =
     \<lparr> eg_risk = risk, eg_recoverability = rec, eg_recent_mfa = guarded, eg_restore_point = guarded,
       eg_phrase = confirmation_phrase (rk_key i) risk, eg_warnings = warnings,
       eg_owner_only = owner \<rparr>"

definition critical_input :: "risk_input \<Rightarrow> bool" where
  "critical_input i \<longleftrightarrow>
     rk_category i \<in> {TRUNCATE, DROP, JOURNAL_BYPASS, UNPARSED, CLUSTER} \<or>
     (rk_category i = DML \<and> \<not> rk_registered i) \<or>
     1000 < max 0 (rk_affected i) \<or> affects_more_than i 1 4"

definition broad_table :: "risk_input \<Rightarrow> bool" where
  "broad_table i \<longleftrightarrow> 100 < max 0 (rk_affected i) \<or> affects_more_than i 1 10"

definition classify_risk :: "risk_input \<Rightarrow> execution_gate" where
  "classify_risk i =
     (let cascades = max 0 (case rk_cascade i of None \<Rightarrow> 0 | Some c \<Rightarrow> c);
          broad_dml = (rk_category i = DML \<and> (rk_has_where i = Some False \<or> broad_table i));
          broad_cascade = 100 < cascades;
          schema_change = (rk_category i = TRANSACTIONAL_DDL \<or> rk_category i = NON_TRANSACTIONAL);
          unknown_impact = (rk_category i = DML \<and> rk_table_rows i = None)
      in if critical_input i
         then gate i CRITICAL PITR_ONLY True
           [if rk_category i = DML \<and> \<not> rk_registered i
            then ''The target table is not registered for complete row journaling.''
            else ''This operation requires verified point-in-time recovery evidence.'']
           True
         else if broad_dml \<or> broad_cascade \<or> schema_change \<or> unknown_impact
         then gate i HIGH (if rk_category i = DML then REVERSIBLE else PITR_ONLY) True
           ((if rk_has_where i = Some False
             then [''No WHERE clause; preview must prove the affected row set.''] else []) @
            (if broad_table i then [''The change has broad table impact.''] else []) @
            (if broad_cascade then [''The change cascades to more than 100 rows.''] else []) @
            (if schema_change
             then [''Schema changes require a restore point and post-change verification.''] else []) @
            (if unknown_impact then [''The full table impact could not be measured.''] else []))
           False
         else gate i LOW REVERSIBLE False [] False)"

section \<open>Confirmation receipts\<close>

text \<open>
  A date is its milliseconds, \<open>None\<close> one that does not parse; \<open>nfkc\<close> is the Unicode
  normalisation NFKC.
\<close>

record receipt =
  re_key :: string
  re_checksum :: string
  re_user :: string
  re_session :: string
  re_phrase :: string
  re_issued_at :: millis
  re_expires_at :: "millis option"

definition confirmation_lifetime :: int where
  "confirmation_lifetime = 5 * 60 * 1000"

definition create_receipt :: "string \<Rightarrow> string \<Rightarrow> string \<Rightarrow> string \<Rightarrow> sql_risk \<Rightarrow> millis \<Rightarrow> receipt" where
  "create_receipt key checksum user session risk issued =
     \<lparr> re_key = key, re_checksum = checksum, re_user = user, re_session = session,
       re_phrase = confirmation_phrase key risk, re_issued_at = issued,
       re_expires_at = Some (issued + confirmation_lifetime) \<rparr>"

definition verify_receipt ::
  "(string \<Rightarrow> string) \<Rightarrow> receipt \<Rightarrow> string \<Rightarrow> string \<Rightarrow> string \<Rightarrow> string \<Rightarrow> string \<Rightarrow> millis \<Rightarrow> bool" where
  "verify_receipt nfkc r key checksum user session phrase now =
     (let same = (re_key r = key \<and> re_checksum r = checksum \<and> re_user r = user \<and> re_session r = session);
          valid = (case re_expires_at r of None \<Rightarrow> False | Some t \<Rightarrow> now < t);
          exact = (nfkc phrase = nfkc (re_phrase r))
      in \<not> (\<not> same \<or> \<not> valid \<or> \<not> exact))"

section \<open>Lemmas\<close>

lemma gate_simps [simp]:
  "eg_risk (gate i risk rec g ws ow) = risk" "eg_recent_mfa (gate i risk rec g ws ow) = g"
  "eg_restore_point (gate i risk rec g ws ow) = g" "eg_owner_only (gate i risk rec g ws ow) = ow"
  "eg_phrase (gate i risk rec g ws ow) = confirmation_phrase (rk_key i) risk"
  "eg_recoverability (gate i risk rec g ws ow) = rec" "eg_warnings (gate i risk rec g ws ow) = ws"
  by (simp_all add: gate_def)

definition high_input :: "risk_input \<Rightarrow> bool" where
  "high_input i \<longleftrightarrow>
     (rk_category i = DML \<and> (rk_has_where i = Some False \<or> broad_table i \<or> rk_table_rows i = None)) \<or>
     (case rk_cascade i of None \<Rightarrow> False | Some c \<Rightarrow> 100 < c) \<or>
     rk_category i = TRANSACTIONAL_DDL \<or> rk_category i = NON_TRANSACTIONAL"

lemma classify_risk_level:
  "eg_risk (classify_risk i) =
     (if critical_input i then CRITICAL else if high_input i then HIGH else LOW)"
  by (auto simp: classify_risk_def Let_def high_input_def split: option.split)

definition worse :: "risk_input \<Rightarrow> risk_input \<Rightarrow> bool" where
  "worse i j \<longleftrightarrow>
     rk_category j = rk_category i \<and> rk_registered j = rk_registered i \<and>
     rk_has_where j = rk_has_where i \<and> rk_table_rows j = rk_table_rows i \<and>
     rk_affected i \<le> rk_affected j \<and>
     (case rk_cascade i of None \<Rightarrow> True
      | Some c \<Rightarrow> (case rk_cascade j of None \<Rightarrow> False | Some d \<Rightarrow> c \<le> d))"

lemma affects_mono:
  assumes "worse i j" and "0 < q" and "affects_more_than i p q"
  shows "affects_more_than j p q"
proof -
  have "q * rk_affected i \<le> q * rk_affected j"
    using assms(1,2) by (simp add: worse_def)
  with assms(1,3) show ?thesis
    by (auto simp: affects_more_than_def worse_def split: option.splits)
qed

lemma critical_mono: "worse i j \<Longrightarrow> critical_input i \<Longrightarrow> critical_input j"
  using affects_mono [of i j 4 1] by (auto simp: critical_input_def worse_def)

lemma broad_mono: "worse i j \<Longrightarrow> broad_table i \<Longrightarrow> broad_table j"
  using affects_mono [of i j 10 1] by (auto simp: broad_table_def worse_def)

lemma high_mono: "worse i j \<Longrightarrow> high_input i \<Longrightarrow> high_input j"
  using broad_mono [of i j] by (auto simp: high_input_def worse_def split: option.splits)

section \<open>Properties\<close>

text \<open>
  The gate follows the measured impact. More affected rows or more cascaded rows never lower the
  risk; a statement is for owners only exactly when it is critical; and the recent second factor and
  the restore point are required exactly from the risk \<open>HIGH\<close> on.
\<close>
theorem risk_monotone:
  assumes "worse i j"
  shows "eg_risk (classify_risk i) \<le> eg_risk (classify_risk j) \<and>
    eg_owner_only (classify_risk j) = (eg_risk (classify_risk j) = CRITICAL) \<and>
    eg_recent_mfa (classify_risk j) = (HIGH \<le> eg_risk (classify_risk j)) \<and>
    eg_restore_point (classify_risk j) = (HIGH \<le> eg_risk (classify_risk j))"
proof -
  have "eg_risk (classify_risk i) \<le> eg_risk (classify_risk j)"
    using critical_mono [OF assms] high_mono [OF assms]
    by (auto simp: classify_risk_level less_eq_sql_risk_def)
  then show ?thesis
    by (simp add: classify_risk_def Let_def less_eq_sql_risk_def)
qed

definition sample_risk :: "int \<Rightarrow> risk_input" where
  "sample_risk n =
     \<lparr> rk_key = ''E1'', rk_category = DML, rk_registered = True, rk_has_where = Some True,
       rk_affected = n, rk_table_rows = Some 10000, rk_cascade = None \<rparr>"

theorem risk_monotone_witness:
  "eg_risk (classify_risk (sample_risk 10)) = LOW \<and> eg_risk (classify_risk (sample_risk 2000)) = CRITICAL \<and>
   eg_owner_only (classify_risk (sample_risk 2000))"
proof -
  have "worse (sample_risk 10) (sample_risk 2000)"
    by (simp add: worse_def sample_risk_def)
  moreover have "eg_risk (classify_risk (sample_risk 10)) = LOW"
    and "eg_risk (classify_risk (sample_risk 2000)) = CRITICAL"
    by code_simp+
  ultimately show ?thesis
    using risk_monotone [of "sample_risk 10" "sample_risk 2000"] by simp
qed

text \<open>
  A confirmation is bound to its statement. The receipt made for a statement is accepted exactly
  for the same execution, preview, user and session, with the phrase of the statement's risk up to
  Unicode normalisation, and in the five minutes after it was issued.
\<close>
theorem receipt_accepts_iff:
  "verify_receipt nfkc (create_receipt key checksum user session risk issued)
     key' checksum' user' session' phrase now \<longleftrightarrow>
   key' = key \<and> checksum' = checksum \<and> user' = user \<and> session' = session \<and>
   now < issued + 300000 \<and> nfkc phrase = nfkc (confirmation_phrase key risk)"
  by (auto simp: verify_receipt_def create_receipt_def confirmation_lifetime_def)

end
