(* ===== verification/StepUp.thy ===== *)
theory StepUp
  imports Prelude
begin

text \<open>
  Step-up grants of the operations API: the service
  (apps/api/src/modules/auth/stepUpService.ts) over its repository in PostgreSQL
  (apps/api/src/modules/auth/postgresStepUpRepository.ts).

  The table ops_secret_elevations is a list of rows; each method of the repository is one SQL
  statement, which PostgreSQL executes atomically. A statement \<open>UPDATE ... WHERE ... RETURNING\<close> is
  \<open>update_where\<close>, which answers the updated rows that matched. \<open>now\<close> is the clock of the database
  in a repository function and the clock of the service in a service function. Passwords, one-time
  codes and the other tables are parameters (\<open>grant_env\<close>).
\<close>

section \<open>Data\<close>

datatype capability = Accounts_write | Variables_secret | Variables_apply | Database_pii

record grant =
  g_id :: string
  g_capability :: capability
  g_user :: string
  g_session :: string
  g_ip :: string
  g_agent :: string
  g_subject :: "string option"
  g_granted_at :: millis
  g_expires_at :: millis
  g_last_used :: "millis option"
  g_consumed :: "millis option"
  g_revoked :: "millis option"
  g_reusable :: bool

text \<open>A row of the table has the column audit_completed_at besides.\<close>

record grant_row =
  row_grant :: grant
  row_audit :: "millis option"

type_synonym elevations = "grant_row list"

record binding =
  b_grant_id :: string
  b_capability :: capability
  b_user :: string
  b_session :: string
  b_ip :: string
  b_agent :: string
  b_subject :: "string option"

datatype step_up_error = STEP_UP_REQUIRED | STEP_UP_EXPIRED | STEP_UP_REVOKED | STEP_UP_INVALID
  | DATABASE_ERROR

definition policy_lifetime :: "capability \<Rightarrow> int" where
  "policy_lifetime c =
     (case c of
        Accounts_write \<Rightarrow> 5 * 60 * 1000
      | Variables_secret \<Rightarrow> 10 * 60 * 1000
      | Variables_apply \<Rightarrow> 5 * 60 * 1000
      | Database_pii \<Rightarrow> 10 * 60 * 1000)"

definition policy_reusable :: "capability \<Rightarrow> bool" where
  "policy_reusable c \<longleftrightarrow> (case c of Variables_secret \<Rightarrow> True | Database_pii \<Rightarrow> True | _ \<Rightarrow> False)"

section \<open>The repository\<close>

definition coalesce :: "string option \<Rightarrow> string" where
  "coalesce x = (case x of None \<Rightarrow> [] | Some s \<Rightarrow> s)"

definition update_where ::
  "(grant_row \<Rightarrow> bool) \<Rightarrow> (grant_row \<Rightarrow> grant_row) \<Rightarrow> elevations \<Rightarrow> grant_row list \<times> elevations" where
  "update_where p f t = (map f (filter p t), map (\<lambda>r. if p r then f r else r) t)"

definition set_revoked :: "millis \<Rightarrow> grant_row \<Rightarrow> grant_row" where
  "set_revoked now r = r\<lparr>row_grant := (row_grant r)\<lparr>g_revoked := Some now\<rparr>\<rparr>"

definition set_consumed :: "millis \<Rightarrow> grant_row \<Rightarrow> grant_row" where
  "set_consumed now r = r\<lparr>row_grant := (row_grant r)\<lparr>g_consumed := Some now\<rparr>\<rparr>"

definition set_last_used :: "millis \<Rightarrow> grant_row \<Rightarrow> grant_row" where
  "set_last_used now r = r\<lparr>row_grant := (row_grant r)\<lparr>g_last_used := Some now\<rparr>\<rparr>"

definition set_audited :: "millis \<Rightarrow> grant_row \<Rightarrow> grant_row" where
  "set_audited now r = r\<lparr>row_audit := Some now\<rparr>"

definition open_grant :: "millis \<Rightarrow> grant \<Rightarrow> bool" where
  "open_grant now g \<longleftrightarrow> g_revoked g = None \<and> g_consumed g = None \<and> now < g_expires_at g"

definition bound_to :: "binding \<Rightarrow> grant \<Rightarrow> bool" where
  "bound_to b g \<longleftrightarrow>
     g_id g = b_grant_id b \<and> g_capability g = b_capability b \<and> g_user g = b_user b \<and>
     g_session g = b_session b \<and> g_ip g = b_ip b \<and> g_agent g = b_agent b"

definition repo_replace_older ::
  "millis \<Rightarrow> string \<Rightarrow> string \<Rightarrow> capability \<Rightarrow> string option \<Rightarrow> elevations \<Rightarrow> elevations" where
  "repo_replace_older now user session cap subject t =
     snd (update_where
       (\<lambda>r. let g = row_grant r
            in g_user g = user \<and> g_session g = session \<and> g_capability g = cap \<and>
               g_revoked g = None \<and> g_consumed g = None \<and>
               coalesce (g_subject g) = coalesce subject)
       (set_revoked now) t)"

text \<open>The column id is the primary key: inserting an identifier again is an error.\<close>

definition repo_insert :: "grant \<Rightarrow> elevations \<Rightarrow> elevations option" where
  "repo_insert g t =
     (if g_id g \<in> (\<lambda>r. g_id (row_grant r)) ` set t then None
      else Some (t @ [\<lparr> row_grant = g, row_audit = None \<rparr>]))"

definition repo_authorize :: "millis \<Rightarrow> binding \<Rightarrow> elevations \<Rightarrow> grant option \<times> elevations" where
  "repo_authorize now b t =
     (case update_where
        (\<lambda>r. bound_to b (row_grant r) \<and>
             coalesce (g_subject (row_grant r)) = coalesce (b_subject b) \<and>
             (b_capability b \<noteq> Database_pii \<or> row_audit r \<noteq> None) \<and> open_grant now (row_grant r))
        (set_last_used now) t of
        (rows, t') \<Rightarrow>
          (case rows of
             [] \<Rightarrow> (None, t')
           | r # _ \<Rightarrow> (Some ((row_grant r)\<lparr>g_reusable :=
                         g_capability (row_grant r) \<in> {Variables_secret, Database_pii}\<rparr>), t')))"

definition pii_row :: "millis \<Rightarrow> binding \<Rightarrow> grant_row \<Rightarrow> bool" where
  "pii_row now b r \<longleftrightarrow>
     (let g = row_grant r
      in g_capability g = b_capability b \<and> g_user g = b_user b \<and> g_session g = b_session b \<and>
         g_ip g = b_ip b \<and> g_agent g = b_agent b \<and> b_subject b \<noteq> None \<and> g_subject g = b_subject b \<and>
         g_reusable g \<and> open_grant now g)"

definition repo_find_pii :: "millis \<Rightarrow> binding \<Rightarrow> elevations \<Rightarrow> grant option \<times> elevations" where
  "repo_find_pii now b t =
     (case update_where (\<lambda>r. pii_row now b r \<and> row_audit r \<noteq> None) (set_last_used now) t of
        (rows, t') \<Rightarrow> (case rows of [] \<Rightarrow> (None, t') | r # _ \<Rightarrow> (Some (row_grant r), t')))"

definition repo_activate_pii :: "millis \<Rightarrow> binding \<Rightarrow> elevations \<Rightarrow> bool \<times> elevations" where
  "repo_activate_pii now b t =
     (case update_where
        (\<lambda>r. g_id (row_grant r) = b_grant_id b \<and> pii_row now b r \<and> row_audit r = None)
        (set_audited now) t of
        (rows, t') \<Rightarrow> (rows \<noteq> [], t'))"

definition repo_revoke_pii :: "millis \<Rightarrow> binding \<Rightarrow> elevations \<Rightarrow> nat \<times> elevations" where
  "repo_revoke_pii now b t =
     (case update_where
        (\<lambda>r. let g = row_grant r
             in g_capability g = b_capability b \<and> g_user g = b_user b \<and> g_session g = b_session b \<and>
                g_ip g = b_ip b \<and> g_agent g = b_agent b \<and>
                (b_subject b = None \<or> g_subject g = b_subject b) \<and>
                g_reusable g \<and> g_consumed g = None \<and> g_revoked g = None)
        (set_revoked now) t of
        (rows, t') \<Rightarrow> (length rows, t'))"

definition repo_revoke_session :: "millis \<Rightarrow> string \<Rightarrow> elevations \<Rightarrow> elevations" where
  "repo_revoke_session now session t =
     snd (update_where
       (\<lambda>r. let g = row_grant r
            in g_session g = session \<and> g_capability g = Database_pii \<and> g_reusable g \<and>
               g_consumed g = None \<and> g_revoked g = None)
       (set_revoked now) t)"

definition repo_consume :: "millis \<Rightarrow> binding \<Rightarrow> elevations \<Rightarrow> bool \<times> elevations" where
  "repo_consume now b t =
     (case update_where
        (\<lambda>r. bound_to b (row_grant r) \<and>
             coalesce (g_subject (row_grant r)) = coalesce (b_subject b) \<and>
             open_grant now (row_grant r) \<and>
             g_capability (row_grant r) \<in> {Accounts_write, Variables_apply})
        (set_consumed now) t of
        (rows, t') \<Rightarrow> (rows \<noteq> [], t'))"

definition repo_revoke :: "millis \<Rightarrow> binding \<Rightarrow> elevations \<Rightarrow> elevations" where
  "repo_revoke now b t =
     snd (update_where (\<lambda>r. bound_to b (row_grant r) \<and> g_revoked (row_grant r) = None)
            (set_revoked now) t)"

section \<open>The service\<close>

text \<open>
  \<open>ge_proof\<close> is \<open>findProof\<close>; a verification answers \<open>None\<close> where it throws; \<open>ge_parent\<close> is
  \<open>findParentSession\<close>, whose date is \<open>None\<close> where it does not parse.
\<close>

record grant_env =
  ge_proof :: "string \<Rightarrow> string \<Rightarrow> (string \<times> string) option"
  ge_password :: "string \<Rightarrow> string \<Rightarrow> bool option"
  ge_totp :: "string \<Rightarrow> string \<Rightarrow> millis \<Rightarrow> bool option"
  ge_parent :: "string \<Rightarrow> string \<Rightarrow> millis option option"

record grant_request =
  gr_capability :: capability
  gr_user :: string
  gr_session :: string
  gr_password :: string
  gr_factor :: string
  gr_token :: string
  gr_ip :: string
  gr_agent :: string
  gr_subject :: "string option"
  gr_parent_expires :: "millis option option"

definition proof_valid :: "grant_env \<Rightarrow> millis \<Rightarrow> grant_request \<Rightarrow> bool" where
  "proof_valid env now q =
     (case ge_proof env (gr_user q) (gr_factor q) of
        None \<Rightarrow> False
      | Some (password_hash, secret) \<Rightarrow>
          ge_password env password_hash (gr_password q) = Some True \<and>
          ge_totp env secret (gr_token q) now = Some True)"

definition parent_expiry :: "grant_env \<Rightarrow> grant_request \<Rightarrow> step_up_error + millis option" where
  "parent_expiry env q =
     (case gr_parent_expires q of
        Some t \<Rightarrow> Inr t
      | None \<Rightarrow>
          (case ge_parent env (gr_user q) (gr_session q) of
             None \<Rightarrow> Inl STEP_UP_REQUIRED
           | Some t \<Rightarrow> Inr t))"

text \<open>\<open>issued\<close> is the identifier drawn by \<open>issueId\<close>; a violated primary key rejects with the error of the database.\<close>

definition service_grant ::
  "grant_env \<Rightarrow> millis \<Rightarrow> string \<Rightarrow> grant_request \<Rightarrow> elevations \<Rightarrow> (step_up_error + grant) \<times> elevations" where
  "service_grant env now issued q t =
     (if gr_user q = [] \<or> gr_session q = [] \<or> gr_password q = [] \<or> gr_factor q = [] \<or>
         \<not> (length (gr_token q) = 6 \<and> list_all is_digit (gr_token q))
      then (Inl STEP_UP_INVALID, t)
      else if \<not> proof_valid env now q then (Inl STEP_UP_INVALID, t)
      else case parent_expiry env q of
        Inl e \<Rightarrow> (Inl e, t)
      | Inr None \<Rightarrow> (Inl STEP_UP_EXPIRED, t)
      | Inr (Some parent) \<Rightarrow>
          let expires = min (now + policy_lifetime (gr_capability q)) parent
          in if expires \<le> now then (Inl STEP_UP_EXPIRED, t)
             else let t1 = repo_replace_older now (gr_user q) (gr_session q) (gr_capability q)
                             (gr_subject q) t;
                      g = \<lparr> g_id = issued, g_capability = gr_capability q, g_user = gr_user q,
                            g_session = gr_session q, g_ip = gr_ip q, g_agent = gr_agent q,
                            g_subject = gr_subject q, g_granted_at = now, g_expires_at = expires,
                            g_last_used = None, g_consumed = None, g_revoked = None,
                            g_reusable = policy_reusable (gr_capability q) \<rparr>
                  in case repo_insert g t1 of
                       None \<Rightarrow> (Inl DATABASE_ERROR, t1)
                     | Some t2 \<Rightarrow> (Inr g, t2))"

definition binding_ok :: "binding \<Rightarrow> bool" where
  "binding_ok b \<longleftrightarrow>
     b_grant_id b \<noteq> [] \<and> b_user b \<noteq> [] \<and> b_session b \<noteq> [] \<and> b_ip b \<noteq> [] \<and> b_agent b \<noteq> []"

text \<open>
  \<open>Date.parse(grant.expiresAt)\<close>: the driver hands over a \<open>Date\<close>, whose text has no milliseconds.
\<close>

definition parsed_time :: "millis \<Rightarrow> millis" where
  "parsed_time t = t - t mod 1000"

lemma parsed_time_le: "parsed_time t \<le> t"
  by (simp add: parsed_time_def)

definition check_grant :: "millis \<Rightarrow> bool \<Rightarrow> grant \<Rightarrow> step_up_error + grant" where
  "check_grant now same g =
     (if g_revoked g \<noteq> None then Inl STEP_UP_REVOKED
      else if g_consumed g \<noteq> None \<or> \<not> g_reusable g then Inl STEP_UP_REQUIRED
      else if parsed_time (g_expires_at g) \<le> now then Inl STEP_UP_EXPIRED
      else if \<not> same then Inl STEP_UP_REQUIRED
      else Inr g)"

definition same_binding :: "binding \<Rightarrow> grant \<Rightarrow> bool" where
  "same_binding b g \<longleftrightarrow>
     g_capability g = b_capability b \<and> g_user g = b_user b \<and> g_session g = b_session b \<and>
     g_ip g = b_ip b \<and> g_agent g = b_agent b \<and> g_subject g = b_subject b"

definition service_authorize ::
  "millis \<Rightarrow> millis \<Rightarrow> binding \<Rightarrow> elevations \<Rightarrow> (step_up_error + grant) \<times> elevations" where
  "service_authorize now db_now b t =
     (if \<not> binding_ok b then (Inl STEP_UP_REQUIRED, t)
      else case repo_authorize db_now b t of
        (None, t') \<Rightarrow> (Inl STEP_UP_REQUIRED, t')
      | (Some g, t') \<Rightarrow> (check_grant now (same_binding b g) g, t'))"

definition service_consume :: "millis \<Rightarrow> binding \<Rightarrow> elevations \<Rightarrow> (step_up_error + bool) \<times> elevations" where
  "service_consume db_now b t =
     (if \<not> binding_ok b then (Inl STEP_UP_REQUIRED, t)
      else case repo_consume db_now b t of (ok, t') \<Rightarrow> (Inr ok, t'))"

definition pii_binding_ok :: "binding \<Rightarrow> bool" where
  "pii_binding_ok b \<longleftrightarrow>
     b_capability b = Database_pii \<and> b_user b \<noteq> [] \<and> b_session b \<noteq> [] \<and> b_ip b \<noteq> [] \<and>
     b_agent b \<noteq> [] \<and> b_subject b \<noteq> None \<and> b_subject b \<noteq> Some []"

definition service_authorize_pii ::
  "millis \<Rightarrow> millis \<Rightarrow> binding \<Rightarrow> elevations \<Rightarrow> (step_up_error + grant) \<times> elevations" where
  "service_authorize_pii now db_now b t =
     (if \<not> pii_binding_ok b then (Inl STEP_UP_REQUIRED, t)
      else case repo_find_pii db_now b t of
        (None, t') \<Rightarrow> (Inl STEP_UP_REQUIRED, t')
      | (Some g, t') \<Rightarrow> (check_grant now (same_binding b g) g, t'))"

definition service_activate_pii ::
  "millis \<Rightarrow> binding \<Rightarrow> elevations \<Rightarrow> (step_up_error + bool) \<times> elevations" where
  "service_activate_pii db_now b t =
     (if b_grant_id b = [] \<or> \<not> pii_binding_ok b then (Inl STEP_UP_REQUIRED, t)
      else case repo_activate_pii db_now b t of (ok, t') \<Rightarrow> (Inr ok, t'))"

definition service_revoke_pii ::
  "millis \<Rightarrow> binding \<Rightarrow> elevations \<Rightarrow> (step_up_error + nat) \<times> elevations" where
  "service_revoke_pii db_now b t =
     (if b_user b = [] \<or> b_session b = [] \<or> b_ip b = [] \<or> b_agent b = [] then (Inl STEP_UP_REQUIRED, t)
      else case repo_revoke_pii db_now b t of (n, t') \<Rightarrow> (Inr n, t'))"

definition service_revoke_session ::
  "millis \<Rightarrow> string \<Rightarrow> elevations \<Rightarrow> (step_up_error + unit) \<times> elevations" where
  "service_revoke_session db_now session t =
     (if session = [] then (Inl STEP_UP_REQUIRED, t)
      else (Inr (), repo_revoke_session db_now session t))"

definition service_revoke :: "millis \<Rightarrow> binding \<Rightarrow> elevations \<Rightarrow> (step_up_error + unit) \<times> elevations" where
  "service_revoke db_now b t =
     (if \<not> binding_ok b then (Inl STEP_UP_REQUIRED, t) else (Inr (), repo_revoke db_now b t))"


section \<open>How the table evolves\<close>

datatype step_up_op =
    Op_grant string | Op_authorize string | Op_consume string bool | Op_authorize_pii
  | Op_activate string bool | Op_revoke_pii | Op_revoke_session string | Op_revoke string

inductive step_up_step :: "grant_env \<Rightarrow> step_up_op \<Rightarrow> elevations \<Rightarrow> elevations \<Rightarrow> bool" for env where
  granting: "service_grant env now issued q t = (res, t') \<Longrightarrow> step_up_step env (Op_grant issued) t t'"
| authorizing: "service_authorize now db_now b t = (res, t') \<Longrightarrow>
    step_up_step env (Op_authorize (b_grant_id b)) t t'"
| consuming: "service_consume db_now b t = (res, t') \<Longrightarrow>
    step_up_step env (Op_consume (b_grant_id b) (res = Inr True)) t t'"
| authorizing_pii: "service_authorize_pii now db_now b t = (res, t') \<Longrightarrow>
    step_up_step env Op_authorize_pii t t'"
| activating: "service_activate_pii db_now b t = (res, t') \<Longrightarrow>
    step_up_step env (Op_activate (b_grant_id b) (res = Inr True)) t t'"
| revoking_pii: "service_revoke_pii db_now b t = (res, t') \<Longrightarrow> step_up_step env Op_revoke_pii t t'"
| revoking_session: "service_revoke_session db_now session t = (res, t') \<Longrightarrow>
    step_up_step env (Op_revoke_session session) t t'"
| revoking: "service_revoke db_now b t = (res, t') \<Longrightarrow>
    step_up_step env (Op_revoke (b_grant_id b)) t t'"

text \<open>
  \<open>tame f\<close>: an update changes no identity, binding or expiry, and undoes no consumption and no
  revocation; it completes the audit only of the rows in \<open>A\<close>.
\<close>

definition core :: "grant \<Rightarrow> grant" where
  "core g = g\<lparr>g_last_used := None, g_consumed := None, g_revoked := None\<rparr>"

definition tame :: "string set \<Rightarrow> (grant_row \<Rightarrow> grant_row) \<Rightarrow> bool" where
  "tame A f \<longleftrightarrow>
     (\<forall>r. core (row_grant (f r)) = core (row_grant r) \<and>
          (g_consumed (row_grant r) \<noteq> None \<longrightarrow> g_consumed (row_grant (f r)) \<noteq> None) \<and>
          (g_revoked (row_grant r) \<noteq> None \<longrightarrow> g_revoked (row_grant (f r)) \<noteq> None) \<and>
          (row_audit (f r) \<noteq> row_audit r \<longrightarrow> g_id (row_grant r) \<in> A))"

definition row_ids :: "elevations \<Rightarrow> string list" where
  "row_ids t = map (\<lambda>r. g_id (row_grant r)) t"

definition within_policy :: "grant \<Rightarrow> bool" where
  "within_policy g \<longleftrightarrow>
     g_granted_at g < g_expires_at g \<and>
     g_expires_at g \<le> g_granted_at g + policy_lifetime (g_capability g) \<and>
     g_reusable g = policy_reusable (g_capability g)"

definition evolves :: "string set \<Rightarrow> elevations \<Rightarrow> elevations \<Rightarrow> bool" where
  "evolves A t t' \<longleftrightarrow>
     (\<exists>f new. t' = map f t @ new \<and> tame A f \<and> distinct (row_ids new) \<and>
        set (row_ids new) \<inter> set (row_ids t) = {} \<and>
        (\<forall>r \<in> set new. row_audit r = None \<and> within_policy (row_grant r)))"

lemma core_id: "core g = core h \<Longrightarrow> g_id g = g_id h"
  unfolding core_def by (cases g; cases h) simp

lemma evolves_update: "tame A f \<Longrightarrow> evolves A t (map (\<lambda>r. if p r then f r else r) t)"
  unfolding evolves_def
  by (intro exI [of _ "\<lambda>r. if p r then f r else r"] exI [of _ "[]"]) (auto simp: tame_def row_ids_def)

lemma evolves_refl: "evolves A t t"
  using evolves_update [of A id t "\<lambda>_. False"] by (simp add: tame_def)

lemma tame_updates:
  "tame A (set_revoked now)" "tame A (set_consumed now)" "tame A (set_last_used now)"
  by (simp_all add: tame_def set_revoked_def set_consumed_def set_last_used_def core_def)

lemma evolves_update_where:
  "tame A f \<Longrightarrow> evolves A t (snd (update_where p f t))"
  by (simp add: update_where_def evolves_update)

lemma evolves_repo:
  "evolves A t (repo_replace_older now u s c sub t)" "evolves A t (snd (repo_authorize now b t))"
  "evolves A t (snd (repo_find_pii now b t))" "evolves A t (snd (repo_revoke_pii now b t))"
  "evolves A t (repo_revoke_session now s t)" "evolves A t (snd (repo_consume now b t))"
  "evolves A t (repo_revoke now b t)"
  by (auto simp: repo_replace_older_def repo_authorize_def repo_find_pii_def repo_revoke_pii_def
      repo_revoke_session_def repo_consume_def repo_revoke_def update_where_def Let_def
      intro!: evolves_update tame_updates split: list.splits)

fun activated :: "step_up_op \<Rightarrow> string set" where
  "activated (Op_activate i True) = {i}"
| "activated _ = {}"

lemma tame_row_ids: "tame A f \<Longrightarrow> row_ids (map f t) = row_ids t"
  by (auto simp: row_ids_def tame_def dest: core_id)

lemma evolves_insert:
  assumes "evolves A t t1" and "repo_insert g t1 = Some t2" and "within_policy g"
  shows "evolves A t t2"
proof -
  from assms(1) obtain f new where f: "t1 = map f t @ new" "tame A f" "distinct (row_ids new)"
      "set (row_ids new) \<inter> set (row_ids t) = {}"
      "\<forall>r \<in> set new. row_audit r = None \<and> within_policy (row_grant r)"
    unfolding evolves_def by blast
  let ?r = "\<lparr> row_grant = g, row_audit = None \<rparr>"
  from assms(2) have t2: "t2 = t1 @ [?r]" and fresh: "g_id g \<notin> set (row_ids t1)"
    by (auto simp: repo_insert_def row_ids_def split: if_splits)
  have ids: "set (row_ids t1) = set (row_ids t) \<union> set (row_ids new)"
    using tame_row_ids [OF f(2), of t] f(1) by (auto simp: row_ids_def)
  show ?thesis unfolding evolves_def
    by (rule exI [of _ f], rule exI [of _ "new @ [?r]"])
       (use f t2 fresh ids assms(3) in \<open>auto simp: row_ids_def\<close>)
qed

lemma service_grant_cases:
  assumes "service_grant env now issued q t = (res, t')"
  obtains (refused) e where "res = Inl e" "t' = t"
  | (clash) "res = Inl DATABASE_ERROR"
      "t' = repo_replace_older now (gr_user q) (gr_session q) (gr_capability q) (gr_subject q) t"
  | (granted) g parent where "res = Inr g" "parent_expiry env q = Inr (Some parent)" "proof_valid env now q"
      "repo_insert g (repo_replace_older now (gr_user q) (gr_session q) (gr_capability q)
         (gr_subject q) t) = Some t'"
      "g = \<lparr> g_id = issued, g_capability = gr_capability q, g_user = gr_user q,
             g_session = gr_session q, g_ip = gr_ip q, g_agent = gr_agent q,
             g_subject = gr_subject q, g_granted_at = now,
             g_expires_at = min (now + policy_lifetime (gr_capability q)) parent,
             g_last_used = None, g_consumed = None, g_revoked = None,
             g_reusable = policy_reusable (gr_capability q) \<rparr>"
      "\<not> g_expires_at g \<le> now"
  using assms unfolding service_grant_def Let_def
  by (auto split: if_splits sum.splits option.splits)

lemma grant_evolves:
  assumes "service_grant env now issued q t = (res, t')" shows "evolves A t t'"
  using assms
proof (cases rule: service_grant_cases)
  case (granted g parent)
  have "within_policy g" using granted(5,6) by (auto simp: within_policy_def)
  with evolves_repo(1) granted(4) show ?thesis by (rule evolves_insert)
qed (simp_all add: evolves_refl evolves_repo)

lemma activate_evolves:
  assumes "service_activate_pii db_now b t = (res, t')"
  shows "evolves (if res = Inr True then {b_grant_id b} else {}) t t'"
proof -
  let ?p = "\<lambda>r. g_id (row_grant r) = b_grant_id b \<and> pii_row db_now b r \<and> row_audit r = None"
  have new: "evolves {b_grant_id b} t (map (\<lambda>r. if ?p r then set_audited db_now r else r) t)"
    unfolding evolves_def
    by (intro exI [of _ "\<lambda>r. if ?p r then set_audited db_now r else r"] exI [of _ "[]"])
       (auto simp: tame_def row_ids_def set_audited_def)
  have old: "map (\<lambda>r. if ?p r then set_audited db_now r else r) t = t" if "filter ?p t = []"
    using that by (intro map_idI) (auto simp: filter_empty_conv)
  show ?thesis using assms new old evolves_refl
    by (auto simp: service_activate_pii_def repo_activate_pii_def update_where_def split: if_splits)
qed

lemma step_evolves: "step_up_step env op t t' \<Longrightarrow> evolves (activated op) t t'"
proof (induction rule: step_up_step.induct)
  case (granting now issued q t res t')
  then show ?case by (simp add: grant_evolves)
next
  case (authorizing now db_now b t res t')
  then show ?case using evolves_repo(2) [of "{}" t db_now b]
    by (auto simp: service_authorize_def evolves_refl split: if_splits prod.splits option.splits)
next
  case (consuming db_now b t res t')
  then show ?case using evolves_repo(6) [of "{}" t db_now b]
    by (auto simp: service_consume_def evolves_refl split: if_splits prod.splits)
next
  case (authorizing_pii now db_now b t res t')
  then show ?case using evolves_repo(3) [of "{}" t db_now b]
    by (auto simp: service_authorize_pii_def evolves_refl split: if_splits prod.splits option.splits)
next
  case (activating db_now b t res t')
  from activate_evolves [OF this] show ?case by (auto split: if_splits)
next
  case (revoking_pii db_now b t res t')
  then show ?case using evolves_repo(4) [of "{}" t db_now b]
    by (auto simp: service_revoke_pii_def evolves_refl split: if_splits prod.splits)
next
  case (revoking_session db_now session t res t')
  then show ?case by (auto simp: service_revoke_session_def evolves_refl evolves_repo split: if_splits)
next
  case (revoking db_now b t res t')
  then show ?case by (auto simp: service_revoke_def evolves_refl evolves_repo split: if_splits)
qed

section \<open>A user without open grants\<close>

text \<open>Every grant of the user is revoked.\<close>

definition closed_for :: "string \<Rightarrow> elevations \<Rightarrow> bool" where
  "closed_for user t \<longleftrightarrow> (\<forall>r \<in> set t. g_user (row_grant r) = user \<longrightarrow> g_revoked (row_grant r) \<noteq> None)"

lemma core_user: "core g = core h \<Longrightarrow> g_user g = g_user h"
  unfolding core_def by (cases g; cases h) simp

lemma closed_update_where:
  assumes "tame UNIV f" "closed_for user t" shows "closed_for user (snd (update_where p f t))"
proof -
  have "g_user (row_grant (f r)) = g_user (row_grant r)" for r
    using assms(1) by (intro core_user) (simp add: tame_def)
  moreover have "g_revoked (row_grant r) \<noteq> None \<Longrightarrow> g_revoked (row_grant (f r)) \<noteq> None" for r
    using assms(1) by (simp add: tame_def)
  ultimately show ?thesis using assms(2) by (auto simp: closed_for_def update_where_def)
qed

lemma tame_audited: "tame UNIV (set_audited now)"
  by (simp add: tame_def set_audited_def)

lemma closed_repo:
  assumes "closed_for user t"
  shows "closed_for user (repo_replace_older now u s c sub t)" "closed_for user (snd (repo_authorize now b t))"
    "closed_for user (snd (repo_find_pii now b t))" "closed_for user (snd (repo_revoke_pii now b t))"
    "closed_for user (repo_revoke_session now s t)" "closed_for user (snd (repo_consume now b t))"
    "closed_for user (repo_revoke now b t)" "closed_for user (snd (repo_activate_pii now b t))"
  unfolding repo_replace_older_def repo_authorize_def repo_find_pii_def repo_revoke_pii_def
      repo_revoke_session_def repo_consume_def repo_revoke_def repo_activate_pii_def
  using assms tame_updates tame_audited
  by (simp_all add: split_beta closed_update_where split: list.split)

lemma no_proof_no_grant:
  assumes "\<And>f. ge_proof env (gr_user q) f = None"
  shows "\<exists>e. service_grant env now issued q t = (Inl e, t)"
  using assms by (auto simp: service_grant_def proof_valid_def)

text \<open>It stays so as long as the user has no valid proof of identity.\<close>

lemma closed_step:
  assumes "step_up_step env op t t'" and "\<And>f. ge_proof env user f = None" and "closed_for user t"
  shows "closed_for user t'"
  using assms(1,3)
proof (induction rule: step_up_step.induct)
  case (granting now issued q t res t')
  from granting(1) show ?case
  proof (cases rule: service_grant_cases)
    case (granted g parent)
    then have "gr_user q \<noteq> user" using assms(2) by (auto simp: proof_valid_def)
    then show ?thesis
      using granted(4,5) closed_repo(1) [OF granting(2)]
      by (auto simp: repo_insert_def closed_for_def split: if_splits)
  qed (use granting(2) closed_repo(1) in auto)
next
  case (authorizing now db_now b t res t')
  then show ?case using closed_repo(2) [of user t db_now b]
    by (auto simp: service_authorize_def split: if_splits prod.splits option.splits)
next
  case (consuming db_now b t res t')
  then show ?case using closed_repo(6) [of user t db_now b]
    by (auto simp: service_consume_def split: if_splits prod.splits)
next
  case (authorizing_pii now db_now b t res t')
  then show ?case using closed_repo(3) [of user t db_now b]
    by (auto simp: service_authorize_pii_def split: if_splits prod.splits option.splits)
next
  case (activating db_now b t res t')
  then show ?case using closed_repo(8) [of user t db_now b]
    by (auto simp: service_activate_pii_def split: if_splits prod.splits)
next
  case (revoking_pii db_now b t res t')
  then show ?case using closed_repo(4) [of user t db_now b]
    by (auto simp: service_revoke_pii_def split: if_splits prod.splits)
next
  case (revoking_session db_now session t res t')
  then show ?case by (auto simp: service_revoke_session_def closed_repo split: if_splits)
next
  case (revoking db_now b t res t')
  then show ?case by (auto simp: service_revoke_def closed_repo split: if_splits)
qed

section \<open>A grant is spent at most once\<close>

definition ids_distinct :: "elevations \<Rightarrow> bool" where
  "ids_distinct t \<longleftrightarrow> distinct (row_ids t)"

fun grant_spent_by :: "step_up_op \<Rightarrow> string option" where
  "grant_spent_by (Op_consume i True) = Some i"
| "grant_spent_by _ = None"

definition grant_spent :: "string \<Rightarrow> elevations \<Rightarrow> bool" where
  "grant_spent i t \<longleftrightarrow> (\<exists>r \<in> set t. g_id (row_grant r) = i \<and> g_consumed (row_grant r) \<noteq> None)"

lemma evolves_ids_distinct: "evolves A t t' \<Longrightarrow> ids_distinct t \<Longrightarrow> ids_distinct t'"
proof -
  assume e: "evolves A t t'" and d: "ids_distinct t"
  from e obtain f new where f: "t' = map f t @ new" "tame A f" "distinct (row_ids new)"
      "set (row_ids new) \<inter> set (row_ids t) = {}"
    unfolding evolves_def by blast
  have "row_ids t' = row_ids t @ row_ids new"
    using tame_row_ids [OF f(2), of t] f(1) by (simp add: row_ids_def)
  then show "ids_distinct t'" using d f(3,4) by (auto simp: ids_distinct_def)
qed

lemma evolves_row:
  assumes "evolves A t t'" and "r \<in> set t"
  shows "\<exists>r' \<in> set t'. core (row_grant r') = core (row_grant r) \<and>
           (g_consumed (row_grant r) \<noteq> None \<longrightarrow> g_consumed (row_grant r') \<noteq> None) \<and>
           (g_revoked (row_grant r) \<noteq> None \<longrightarrow> g_revoked (row_grant r') \<noteq> None)"
proof -
  from assms(1) obtain f new where f: "t' = map f t @ new" "tame A f"
    unfolding evolves_def by blast
  then have "f r \<in> set t'" using assms(2) by simp
  then show ?thesis using f(2) unfolding tame_def by blast
qed

lemma evolves_back:
  assumes "evolves A t t'" and "r' \<in> set t'"
  shows "(\<exists>r \<in> set t. core (row_grant r') = core (row_grant r) \<and>
            (row_audit r' \<noteq> row_audit r \<longrightarrow> g_id (row_grant r) \<in> A)) \<or>
         (row_audit r' = None \<and> within_policy (row_grant r'))"
proof -
  from assms(1) obtain f new where f: "t' = map f t @ new" "tame A f"
      "\<forall>r \<in> set new. row_audit r = None \<and> within_policy (row_grant r)"
    unfolding evolves_def by blast
  from assms(2) f(1) consider r where "r \<in> set t" "r' = f r" | "r' \<in> set new" by auto
  then show ?thesis
  proof cases
    case 1
    with f(2) show ?thesis unfolding tame_def by blast
  next
    case 2
    with f(3) show ?thesis by blast
  qed
qed

lemma evolves_spent: "evolves A t t' \<Longrightarrow> grant_spent i t \<Longrightarrow> grant_spent i t'"
  unfolding grant_spent_def using evolves_row core_id by metis

lemma same_row: "ids_distinct t \<Longrightarrow> r \<in> set t \<Longrightarrow> s \<in> set t \<Longrightarrow>
    g_id (row_grant r) = g_id (row_grant s) \<Longrightarrow> r = s"
  unfolding ids_distinct_def row_ids_def by (auto simp: distinct_map dest: inj_onD)

lemma repo_consume_true:
  assumes "repo_consume now b t = (True, t')"
  obtains r where "r \<in> set t" "bound_to b (row_grant r)" "open_grant now (row_grant r)"
    "g_capability (row_grant r) \<in> {Accounts_write, Variables_apply}" "set_consumed now r \<in> set t'"
  using assms by (fastforce simp: repo_consume_def update_where_def filter_empty_conv)

lemma service_consume_true:
  assumes "service_consume now b t = (Inr True, t')"
  shows "repo_consume now b t = (True, t')"
  using assms by (auto simp: service_consume_def split: if_splits prod.splits)

lemma grant_spent_by_consume: "grant_spent_by op = Some i \<longleftrightarrow> op = Op_consume i True"
  by (cases op rule: grant_spent_by.cases) auto

inductive_cases consume_stepE: "step_up_step env (Op_consume i True) t t'"

lemma consume_step:
  assumes "step_up_step env op t t'" and "grant_spent_by op = Some i"
  obtains now b where "repo_consume now b t = (True, t')" "b_grant_id b = i"
  using assms by (auto simp: grant_spent_by_consume elim!: consume_stepE dest: service_consume_true)

interpretation grants: one_time_token ids_distinct "step_up_step env" grant_spent_by grant_spent for env
proof unfold_locales
  show "ids_distinct t'" if "ids_distinct t" "step_up_step env op t t'" for t op t'
    using that step_evolves evolves_ids_distinct by blast
next
  show "grant_spent i t'" if "ids_distinct t" "grant_spent i t" "step_up_step env op t t'" for t op t' i
    using that step_evolves evolves_spent by blast
next
  show "grant_spent i t'"
    if "ids_distinct t" "step_up_step env op t t'" "grant_spent_by op = Some i" for t op t' i
  proof -
    from that(2,3) obtain now b where c: "repo_consume now b t = (True, t')" "b_grant_id b = i"
      by (rule consume_step)
    from c(1) obtain r where "bound_to b (row_grant r)" "set_consumed now r \<in> set t'"
      by (rule repo_consume_true)
    with c(2) show ?thesis
      unfolding grant_spent_def
      by (intro bexI [of _ "set_consumed now r"]) (simp_all add: bound_to_def set_consumed_def)
  qed
next
  show "grant_spent_by op \<noteq> Some i"
    if v: "ids_distinct t" and s: "grant_spent i t" and st: "step_up_step env op t t'" for t op t' i
  proof
    assume "grant_spent_by op = Some i"
    with st obtain now b where c: "repo_consume now b t = (True, t')" "b_grant_id b = i"
      by (rule consume_step)
    from c(1) obtain r where r: "r \<in> set t" "bound_to b (row_grant r)" "open_grant now (row_grant r)"
      by (rule repo_consume_true)
    from s obtain r' where r': "r' \<in> set t" "g_id (row_grant r') = i" "g_consumed (row_grant r') \<noteq> None"
      unfolding grant_spent_def by blast
    from r(2) c(2) have "g_id (row_grant r) = i" by (simp add: bound_to_def)
    then have "r = r'" using same_row [OF v r(1) r'(1)] r'(2) by simp
    with r(3) r'(3) show False by (simp add: open_grant_def)
  qed
qed

section \<open>Access needs a live, audited grant\<close>

text \<open>What the runs from the empty table make of each row.\<close>

definition accounted :: "step_up_op list \<Rightarrow> elevations \<Rightarrow> bool" where
  "accounted ops t \<longleftrightarrow>
     ids_distinct t \<and>
     (\<forall>r \<in> set t. within_policy (row_grant r) \<and>
        (row_audit r \<noteq> None \<longrightarrow> Op_activate (g_id (row_grant r)) True \<in> set ops))"

lemma core_policy: "core g = core h \<Longrightarrow> within_policy g = within_policy h"
  unfolding core_def within_policy_def by (cases g; cases h) simp

lemma activated_iff: "i \<in> activated op \<longleftrightarrow> op = Op_activate i True"
  by (cases op rule: activated.cases) auto

lemma accounted_step:
  assumes "accounted ops t" and "step_up_step env op t t'"
  shows "accounted (ops @ [op]) t'"
proof -
  have e: "evolves (activated op) t t'" using assms(2) by (rule step_evolves)
  have "within_policy (row_grant r') \<and>
      (row_audit r' \<noteq> None \<longrightarrow> Op_activate (g_id (row_grant r')) True \<in> set (ops @ [op]))"
    if r': "r' \<in> set t'" for r'
    using evolves_back [OF e r']
  proof
    assume "\<exists>r \<in> set t. core (row_grant r') = core (row_grant r) \<and>
      (row_audit r' \<noteq> row_audit r \<longrightarrow> g_id (row_grant r) \<in> activated op)"
    then obtain r where r: "r \<in> set t" "core (row_grant r') = core (row_grant r)"
        "row_audit r' \<noteq> row_audit r \<longrightarrow> g_id (row_grant r) \<in> activated op" by blast
    with assms(1) have "within_policy (row_grant r)"
        "row_audit r \<noteq> None \<longrightarrow> Op_activate (g_id (row_grant r)) True \<in> set ops"
      unfolding accounted_def by blast+
    with r(3) core_id [OF r(2)] core_policy [OF r(2)] show ?thesis
      by (auto simp: activated_iff)
  qed simp
  with assms(1) evolves_ids_distinct [OF e] show ?thesis unfolding accounted_def by blast
qed

lemma accounted_run: "op_run (step_up_step env) ops s t \<Longrightarrow> s = [] \<Longrightarrow> accounted ops t"
proof (induction rule: op_run.induct)
  case run_nothing
  then show ?case by (simp add: accounted_def ids_distinct_def row_ids_def)
qed (blast intro: accounted_step)

lemma repo_find_pii_some:
  assumes "repo_find_pii now b t = (Some g, t')"
  obtains r where "r \<in> set t" "pii_row now b r" "row_audit r \<noteq> None"
    "g = (row_grant r)\<lparr>g_last_used := Some now\<rparr>"
proof -
  let ?p = "\<lambda>r. pii_row now b r \<and> row_audit r \<noteq> None"
  from assms obtain r rs where r: "filter ?p t = r # rs" "g = row_grant (set_last_used now r)"
    by (auto simp: repo_find_pii_def update_where_def split: list.splits)
  then have "r \<in> set (filter ?p t)" by simp
  with r(2) that [of r] show ?thesis by (simp add: set_last_used_def)
qed

lemma service_authorize_pii_some:
  assumes "service_authorize_pii now db_now b t = (Inr g, t')"
  shows "repo_find_pii db_now b t = (Some g, t') \<and> check_grant now (same_binding b g) g = Inr g \<and>
    pii_binding_ok b"
  using assms
  by (auto simp: service_authorize_pii_def check_grant_def split: if_splits prod.splits option.splits)

lemma check_grant_ok:
  "check_grant now same g = Inr h \<longleftrightarrow>
     h = g \<and> g_revoked g = None \<and> g_consumed g = None \<and> g_reusable g \<and> now < parsed_time (g_expires_at g) \<and> same"
  by (auto simp: check_grant_def)

text \<open>Then no request of the user is accepted.\<close>

lemma closed_refuses:
  assumes "closed_for (b_user b) t"
  shows "fst (service_consume db_now b t) \<noteq> Inr True" "fst (service_authorize now db_now b t) \<noteq> Inr g"
    "fst (service_authorize_pii now db_now b t) \<noteq> Inr g" "fst (service_activate_pii db_now b t) \<noteq> Inr True"
proof -
  have shut: "\<not> open_grant n (row_grant r)" if "r \<in> set t" "g_user (row_grant r) = b_user b" for r n
    using that assms by (auto simp: closed_for_def open_grant_def)
  then have none: "filter (\<lambda>r. bound_to b (row_grant r) \<and> P r \<and> open_grant db_now (row_grant r) \<and> Q r) t = []"
    "filter (\<lambda>r. bound_to b (row_grant r) \<and> P r \<and> Q r \<and> open_grant db_now (row_grant r)) t = []"
    "filter (\<lambda>r. pii_row db_now b r \<and> P r) t = []" "filter (\<lambda>r. Q r \<and> pii_row db_now b r \<and> P r) t = []" for P Q
    by (auto simp: filter_empty_conv bound_to_def pii_row_def Let_def)
  show "fst (service_consume db_now b t) \<noteq> Inr True"
    by (simp add: service_consume_def repo_consume_def update_where_def none)
  show "fst (service_authorize now db_now b t) \<noteq> Inr g"
    by (simp add: service_authorize_def repo_authorize_def update_where_def none)
  show "fst (service_authorize_pii now db_now b t) \<noteq> Inr g"
    by (simp add: service_authorize_pii_def repo_find_pii_def update_where_def none)
  show "fst (service_activate_pii db_now b t) \<noteq> Inr True"
    by (simp add: service_activate_pii_def repo_activate_pii_def update_where_def none)
qed

section \<open>Properties\<close>

text \<open>
  C16. Over any sequence of step-up requests starting from an empty table, a grant is spent at most
  once: two consumptions of the same grant never both answer true.
\<close>

theorem grant_spent_once:
  assumes "op_run (step_up_step env) ops [] t"
  shows "length (filter (\<lambda>op. op = Op_consume i True) ops) \<le> 1"
proof -
  have "ids_distinct []" by (simp add: ids_distinct_def row_ids_def)
  with grants.spent_once [OF assms, of i] show ?thesis by (simp add: grant_spent_by_consume)
qed

text \<open>
  C17. A request for personal data is authorised only by a grant whose audit was completed by an earlier
  activation in the same history; the grant is bound to the user, session, address, agent and
  subject of the request, is neither revoked nor consumed, lives on both clocks, and was issued for
  at most ten minutes.
\<close>

theorem pii_access_was_audited:
  assumes "op_run (step_up_step env) ops [] t"
    and "service_authorize_pii now db_now b t = (Inr g, t')"
  shows "Op_activate (g_id g) True \<in> set ops \<and>
    g_capability g = Database_pii \<and> g_user g = b_user b \<and> g_session g = b_session b \<and>
    g_ip g = b_ip b \<and> g_agent g = b_agent b \<and> g_subject g = b_subject b \<and> b_subject b \<noteq> None \<and>
    g_revoked g = None \<and> g_consumed g = None \<and> now < g_expires_at g \<and> db_now < g_expires_at g \<and>
    g_expires_at g \<le> g_granted_at g + 600000"
proof -
  from service_authorize_pii_some [OF assms(2)]
  have f: "repo_find_pii db_now b t = (Some g, t')" "pii_binding_ok b"
    and c: "check_grant now (same_binding b g) g = Inr g" by auto
  from f(1) obtain r where r: "r \<in> set t" "pii_row db_now b r" "row_audit r \<noteq> None"
      "g = (row_grant r)\<lparr>g_last_used := Some db_now\<rparr>" by (rule repo_find_pii_some)
  have "accounted ops t" using assms(1) by (rule accounted_run) simp
  with r(1,3) have "Op_activate (g_id (row_grant r)) True \<in> set ops" "within_policy (row_grant r)"
    unfolding accounted_def by auto
  with r c f(2) parsed_time_le [of "g_expires_at g"] show ?thesis
    by (auto simp: check_grant_ok pii_row_def Let_def same_binding_def pii_binding_ok_def within_policy_def
        policy_lifetime_def open_grant_def)
qed

text \<open>
  A grant is issued only for a valid password and one-time code; it expires within the lifetime of its
  capability and within its parent session, and every older grant for the same user, session,
  capability and subject is revoked by the same request.
\<close>

theorem grant_supersedes_older:
  assumes "service_grant env now issued q t = (Inr g, t')"
  shows "proof_valid env now q \<and> now < g_expires_at g \<and>
    g_expires_at g \<le> now + policy_lifetime (gr_capability q) \<and>
    (\<exists>parent. parent_expiry env q = Inr (Some parent) \<and> g_expires_at g \<le> parent) \<and>
    g \<in> row_grant ` set t' \<and>
    (\<forall>h \<in> row_grant ` set t'.
       g_user h = gr_user q \<and> g_session h = gr_session q \<and> g_capability h = gr_capability q \<and>
       coalesce (g_subject h) = coalesce (gr_subject q) \<and> open_grant now h \<longrightarrow> h = g)"
  using assms
proof (cases rule: service_grant_cases)
  case (granted g' parent)
  let ?t1 = "repo_replace_older now (gr_user q) (gr_session q) (gr_capability q) (gr_subject q) t"
  have eq: "g' = g" using granted(1) by simp
  have t': "t' = ?t1 @ [\<lparr> row_grant = g, row_audit = None \<rparr>]"
    using granted(4) eq by (auto simp: repo_insert_def split: if_splits)
  have old: "\<not> (g_user h = gr_user q \<and> g_session h = gr_session q \<and> g_capability h = gr_capability q \<and>
       coalesce (g_subject h) = coalesce (gr_subject q) \<and> open_grant now h)" if "h \<in> row_grant ` set ?t1" for h
    using that
    by (auto simp: repo_replace_older_def update_where_def Let_def set_revoked_def open_grant_def
        split: if_splits)
  show ?thesis using granted(2,3,5,6) eq t' old by (auto simp: not_le)
qed simp_all

text \<open>
  A revoked grant stays revoked: after any further requests it authorises nothing, reads no personal data and
  cannot be consumed.
\<close>

theorem revoked_grant_is_final:
  assumes "ids_distinct s" and "r \<in> set s" and "g_revoked (row_grant r) \<noteq> None"
    and "op_run (step_up_step env) ops s t" and "b_grant_id b = g_id (row_grant r)"
  shows "(\<exists>e. fst (service_authorize now db_now b t) = Inl e) \<and>
    fst (service_consume db_now b t) \<noteq> Inr True \<and>
    (\<forall>c g. fst (service_authorize_pii now db_now c t) = Inr g \<longrightarrow> g_id g \<noteq> g_id (row_grant r))"
proof -
  let ?i = "g_id (row_grant r)"
  have e: "ids_distinct t \<and> (\<exists>r' \<in> set t. g_id (row_grant r') = ?i \<and> g_revoked (row_grant r') \<noteq> None)"
    using assms(4)
  proof (rule op_run_invariant)
    show "ids_distinct s \<and> (\<exists>r' \<in> set s. g_id (row_grant r') = ?i \<and> g_revoked (row_grant r') \<noteq> None)"
      using assms(1-3) by blast
  qed (metis step_evolves evolves_ids_distinct evolves_row core_id)
  then obtain r' where r': "ids_distinct t" "r' \<in> set t" "g_id (row_grant r') = ?i"
      "g_revoked (row_grant r') \<noteq> None" by blast
  have closed: "\<not> open_grant db_now (row_grant q)" if "q \<in> set t" "g_id (row_grant q) = ?i" for q
    using same_row [OF r'(1,2) that(1)] that(2) r'(3,4) by (simp add: open_grant_def)
  have "fst (repo_authorize db_now b t) = None"
    using closed assms(5)
    by (auto simp: repo_authorize_def update_where_def bound_to_def filter_empty_conv split: list.splits)
  then have authorize: "\<exists>e. fst (service_authorize now db_now b t) = Inl e"
    by (auto simp: service_authorize_def split: prod.splits option.splits)
  have consume: "fst (service_consume db_now b t) \<noteq> Inr True"
  proof
    assume "fst (service_consume db_now b t) = Inr True"
    then obtain t' where "service_consume db_now b t = (Inr True, t')" by (metis prod.collapse)
    from repo_consume_true [OF service_consume_true [OF this]] closed assms(5)
    show False by (metis bound_to_def)
  qed
  have "g_id g \<noteq> ?i" if "fst (service_authorize_pii now db_now c t) = Inr g" for c g
  proof
    assume i: "g_id g = ?i"
    from that obtain t' where "service_authorize_pii now db_now c t = (Inr g, t')" by (metis prod.collapse)
    then have "repo_find_pii db_now c t = (Some g, t')" by (simp add: service_authorize_pii_some)
    then obtain q where "q \<in> set t" "pii_row db_now c q" "g = (row_grant q)\<lparr>g_last_used := Some db_now\<rparr>"
      by (rule repo_find_pii_some)
    with closed [of q] i show False by (simp add: pii_row_def Let_def)
  qed
  with authorize consume show ?thesis by blast
qed

section \<open>Witnesses\<close>

definition sample_grant_env :: grant_env where
  "sample_grant_env =
     \<lparr> ge_proof = (\<lambda>user factor. if user = ''u'' then Some (''hash'', ''secret'') else None),
       ge_password = (\<lambda>hash pw. Some (pw = ''pw'')),
       ge_totp = (\<lambda>secret token now. Some (token = ''123456'')),
       ge_parent = (\<lambda>user session. Some (Some 900000)) \<rparr>"

definition sample_request :: "capability \<Rightarrow> grant_request" where
  "sample_request c =
     \<lparr> gr_capability = c, gr_user = ''u'', gr_session = ''s'', gr_password = ''pw'', gr_factor = ''f'',
       gr_token = ''123456'', gr_ip = ''ip'', gr_agent = ''ua'', gr_subject = Some ''d'',
       gr_parent_expires = None \<rparr>"

definition sample_binding :: "string \<Rightarrow> capability \<Rightarrow> binding" where
  "sample_binding i c =
     \<lparr> b_grant_id = i, b_capability = c, b_user = ''u'', b_session = ''s'', b_ip = ''ip'',
       b_agent = ''ua'', b_subject = Some ''d'' \<rparr>"

definition sample_granted :: "string \<Rightarrow> capability \<Rightarrow> grant" where
  "sample_granted i c =
     \<lparr> g_id = i, g_capability = c, g_user = ''u'', g_session = ''s'', g_ip = ''ip'', g_agent = ''ua'',
       g_subject = Some ''d'', g_granted_at = 0, g_expires_at = policy_lifetime c,
       g_last_used = None, g_consumed = None, g_revoked = None, g_reusable = policy_reusable c \<rparr>"

lemmas sample_defs =
  sample_grant_env_def sample_request_def sample_binding_def sample_granted_def

lemma sample_grant:
  "service_grant sample_grant_env 0 i (sample_request c) [] =
     (Inr (sample_granted i c), [\<lparr> row_grant = sample_granted i c, row_audit = None \<rparr>])"
  by (cases c)
     (simp_all add: service_grant_def sample_defs proof_valid_def parent_expiry_def policy_lifetime_def
      repo_replace_older_def repo_insert_def update_where_def is_digit_def Let_def)

lemma sample_granting:
  "op_run (step_up_step sample_grant_env) [Op_grant i] []
     [\<lparr> row_grant = sample_granted i c, row_audit = None \<rparr>]"
  using op_run.run_more [OF op_run.run_nothing, of "step_up_step sample_grant_env" "Op_grant i" "[]"]
    step_up_step.granting [OF sample_grant [of i c]] by simp

lemma sample_consume:
  "service_consume 1 (sample_binding ''g'' Accounts_write)
     [\<lparr> row_grant = sample_granted ''g'' Accounts_write, row_audit = None \<rparr>] =
   (Inr True, [\<lparr> row_grant = (sample_granted ''g'' Accounts_write)\<lparr>g_consumed := Some 1\<rparr>, row_audit = None \<rparr>])"
  by (simp add: service_consume_def binding_ok_def repo_consume_def update_where_def sample_defs bound_to_def
      open_grant_def set_consumed_def policy_lifetime_def)

theorem grant_spent_once_witness:
  "length (filter (\<lambda>op. op = Op_consume ''g'' True) [Op_grant ''g'', Op_consume ''g'' True]) \<le> 1"
proof -
  have "step_up_step sample_grant_env (Op_consume ''g'' True)
      [\<lparr> row_grant = sample_granted ''g'' Accounts_write, row_audit = None \<rparr>]
      [\<lparr> row_grant = (sample_granted ''g'' Accounts_write)\<lparr>g_consumed := Some 1\<rparr>, row_audit = None \<rparr>]"
    using step_up_step.consuming [OF sample_consume] by (simp add: sample_binding_def)
  then have "op_run (step_up_step sample_grant_env) ([Op_grant ''g''] @ [Op_consume ''g'' True]) []
      [\<lparr> row_grant = (sample_granted ''g'' Accounts_write)\<lparr>g_consumed := Some 1\<rparr>, row_audit = None \<rparr>]"
    by (rule op_run.run_more [OF sample_granting])
  from grant_spent_once [OF this, of "''g''"]
  show ?thesis by (simp only: append_Cons append_Nil)
qed

lemma sample_activate:
  "service_activate_pii 1 (sample_binding ''g'' Database_pii)
     [\<lparr> row_grant = sample_granted ''g'' Database_pii, row_audit = None \<rparr>] =
   (Inr True, [\<lparr> row_grant = sample_granted ''g'' Database_pii, row_audit = Some 1 \<rparr>])"
  by (simp add: service_activate_pii_def pii_binding_ok_def repo_activate_pii_def update_where_def sample_defs
      pii_row_def open_grant_def set_audited_def policy_lifetime_def policy_reusable_def)

lemma sample_authorize_pii:
  "service_authorize_pii 2 2 (sample_binding [] Database_pii)
     [\<lparr> row_grant = sample_granted ''g'' Database_pii, row_audit = Some 1 \<rparr>] =
   (Inr ((sample_granted ''g'' Database_pii)\<lparr>g_last_used := Some 2\<rparr>),
    [\<lparr> row_grant = (sample_granted ''g'' Database_pii)\<lparr>g_last_used := Some 2\<rparr>, row_audit = Some 1 \<rparr>])"
  by (simp add: service_authorize_pii_def pii_binding_ok_def repo_find_pii_def update_where_def sample_defs
      pii_row_def open_grant_def set_last_used_def policy_lifetime_def policy_reusable_def check_grant_def
      same_binding_def parsed_time_def)

theorem pii_access_was_audited_witness:
  "g_user ((sample_granted ''g'' Database_pii)\<lparr>g_last_used := Some 2\<rparr>) = ''u''"
proof -
  have "step_up_step sample_grant_env (Op_activate ''g'' True)
      [\<lparr> row_grant = sample_granted ''g'' Database_pii, row_audit = None \<rparr>]
      [\<lparr> row_grant = sample_granted ''g'' Database_pii, row_audit = Some 1 \<rparr>]"
    using step_up_step.activating [OF sample_activate] by (simp add: sample_binding_def)
  then have "op_run (step_up_step sample_grant_env) ([Op_grant ''g''] @ [Op_activate ''g'' True]) []
      [\<lparr> row_grant = sample_granted ''g'' Database_pii, row_audit = Some 1 \<rparr>]"
    by (rule op_run.run_more [OF sample_granting])
  from pii_access_was_audited [OF this sample_authorize_pii]
  show ?thesis by (simp add: sample_binding_def)
qed

theorem grant_supersedes_older_witness:
  "g_expires_at (sample_granted ''g'' Variables_apply) \<le> 0 + policy_lifetime Variables_apply"
  using grant_supersedes_older [OF sample_grant [of "''g''" Variables_apply]]
  by (simp add: sample_request_def)

theorem revoked_grant_is_final_witness:
  "fst (service_consume 2 (sample_binding ''g'' Accounts_write)
     [\<lparr> row_grant = (sample_granted ''g'' Accounts_write)\<lparr>g_revoked := Some 1\<rparr>, row_audit = None \<rparr>])
   \<noteq> Inr True"
proof -
  let ?row = "\<lparr> row_grant = (sample_granted ''g'' Accounts_write)\<lparr>g_revoked := Some 1\<rparr>, row_audit = None \<rparr>"
  have run: "op_run (step_up_step sample_grant_env) [] [?row] [?row]" by (rule op_run.run_nothing)
  from revoked_grant_is_final [OF _ _ _ this, of ?row "sample_binding ''g'' Accounts_write" 2 2]
  show ?thesis by (simp add: ids_distinct_def row_ids_def sample_binding_def sample_granted_def)
qed

end
