(* ===== verification/Sessions.thy ===== *)
theory Sessions
  imports Prelude
begin

text \<open>
  Roles, permissions, sessions and the elevation for production SQL
  (packages/security/src/sessions.ts). Random bytes, SHA-256 and HMAC are parameters; a date is its
  milliseconds, \<open>None\<close> one that does not parse.
\<close>

section \<open>Roles and permissions\<close>

datatype ops_role = Ops_viewer | Ops_maintainer | Ops_owner

datatype ops_permission =
    Health_read | Issues_read | Issues_write | Audit_read | Sql_read | Sql_workspace
  | Variables_read | Variables_write | Variables_apply_p | Accounts_write_p | Alerts_write | Audit_anchor
  | Database_schema_read | Database_data_read | Database_pii_reveal

fun role_permissions :: "ops_role \<Rightarrow> ops_permission list" where
  "role_permissions Ops_viewer =
     [Health_read, Issues_read, Audit_read, Sql_read, Variables_read, Variables_write,
      Variables_apply_p, Database_schema_read]"
| "role_permissions Ops_maintainer =
     [Health_read, Issues_read, Issues_write, Audit_read, Sql_read, Sql_workspace, Variables_read,
      Variables_write, Variables_apply_p, Database_schema_read, Database_data_read, Database_pii_reveal]"
| "role_permissions Ops_owner =
     [Health_read, Issues_read, Issues_write, Audit_read, Sql_read, Sql_workspace, Accounts_write_p,
      Alerts_write, Audit_anchor, Variables_read, Variables_write, Variables_apply_p,
      Database_schema_read, Database_data_read, Database_pii_reveal]"

definition assert_permission :: "ops_role \<Rightarrow> ops_permission \<Rightarrow> ops_permission + unit" where
  "assert_permission role p = (if p \<notin> set (role_permissions role) then Inl p else Inr ())"

fun role_rank :: "ops_role \<Rightarrow> nat" where
  "role_rank Ops_viewer = 0"
| "role_rank Ops_maintainer = 1"
| "role_rank Ops_owner = 2"

instantiation ops_role :: linorder
begin

definition less_eq_ops_role :: "ops_role \<Rightarrow> ops_role \<Rightarrow> bool" where
  "a \<le> b \<longleftrightarrow> role_rank a \<le> role_rank b"

definition less_ops_role :: "ops_role \<Rightarrow> ops_role \<Rightarrow> bool" where
  "a < b \<longleftrightarrow> role_rank a < role_rank b"

instance
proof
  fix a b c :: ops_role
  show "a < b \<longleftrightarrow> a \<le> b \<and> \<not> b \<le> a"
    by (auto simp: less_eq_ops_role_def less_ops_role_def)
  show "a \<le> a"
    by (simp add: less_eq_ops_role_def)
  show "a \<le> b \<Longrightarrow> b \<le> c \<Longrightarrow> a \<le> c"
    by (simp add: less_eq_ops_role_def)
  show "a \<le> b \<Longrightarrow> b \<le> a \<Longrightarrow> a = b"
    by (cases a; cases b) (simp_all add: less_eq_ops_role_def)
  show "a \<le> b \<or> b \<le> a"
    by (auto simp: less_eq_ops_role_def)
qed

end

text \<open>A higher role keeps every permission of a lower one.\<close>

lemma permissions_grow:
  "r \<le> r' \<Longrightarrow> assert_permission r p = Inr () \<Longrightarrow> assert_permission r' p = Inr ()"
  by (cases r; cases r') (auto simp: assert_permission_def less_eq_ops_role_def split: if_splits)

lemma owner_permissions:
  "p \<in> {Accounts_write_p, Alerts_write, Audit_anchor} \<Longrightarrow>
     assert_permission r p = Inr () \<longleftrightarrow> r = Ops_owner"
  by (cases r) (auto simp: assert_permission_def)

section \<open>Sessions and their secrets\<close>

record issued_session =
  is_token :: string
  is_csrf_secret :: string
  is_idle_expires :: millis
  is_absolute_expires :: millis

text \<open>\<open>random n\<close> is the text of the next \<open>n\<close> random bytes and the source that is left.\<close>

definition issue_session :: "(nat \<Rightarrow> 'r \<Rightarrow> string \<times> 'r) \<Rightarrow> millis \<Rightarrow> 'r \<Rightarrow> issued_session \<times> 'r" where
  "issue_session random now r =
     (case random 48 r of (token, r') \<Rightarrow>
        (case random 32 r' of (secret, r'') \<Rightarrow>
           (\<lparr> is_token = token, is_csrf_secret = secret, is_idle_expires = now + 30 * 60 * 1000,
              is_absolute_expires = now + 12 * 60 * 60 * 1000 \<rparr>, r'')))"

definition hash_session_token :: "(string \<Rightarrow> string) \<Rightarrow> string \<Rightarrow> string \<Rightarrow> string option" where
  "hash_session_token sha256 token pepper =
     (if token = [] \<or> pepper = [] then None else Some (sha256 (token @ pepper)))"

definition derive_csrf_secret :: "(string \<Rightarrow> string \<Rightarrow> string) \<Rightarrow> string \<Rightarrow> string \<Rightarrow> string option" where
  "derive_csrf_secret hmac token pepper =
     (if token = [] \<or> pepper = [] then None else Some (hmac pepper (''ops-csrf-v1:'' @ token)))"

definition hash_csrf_secret :: "(string \<Rightarrow> string) \<Rightarrow> string \<Rightarrow> string option" where
  "hash_csrf_secret sha256 secret = (if secret = [] then None else Some (sha256 secret))"

definition create_csrf_token :: "(string \<Rightarrow> string \<Rightarrow> string) \<Rightarrow> string \<Rightarrow> string \<Rightarrow> string" where
  "create_csrf_token hmac session secret = hmac secret session"

definition verify_csrf_token :: "(string \<Rightarrow> string \<Rightarrow> string) \<Rightarrow> string \<Rightarrow> string \<Rightarrow> string \<Rightarrow> bool" where
  "verify_csrf_token hmac session secret token \<longleftrightarrow>
     (let expected = create_csrf_token hmac session secret
      in length expected = length token \<and> expected = token)"

section \<open>The elevation for production SQL\<close>

definition is_sql_elevation_active :: "millis option \<Rightarrow> millis option \<Rightarrow> millis \<Rightarrow> bool" where
  "is_sql_elevation_active granted expires now =
     (case (granted, expires) of
        (Some g, Some e) \<Rightarrow> e - g \<le> 30 * 60 * 1000 \<and> g \<le> now \<and> now < e
      | _ \<Rightarrow> False)"

text \<open>
  An elevation for production SQL ends: two moments at which the same elevation is active are less than
  half an hour apart, and it is active at every moment between them.
\<close>

theorem sql_elevation_window:
  assumes "is_sql_elevation_active granted expires t" and "is_sql_elevation_active granted expires u"
    and "t \<le> u"
  shows "u - t < 1800000 \<and> (\<forall>v. t \<le> v \<and> v \<le> u \<longrightarrow> is_sql_elevation_active granted expires v)"
  using assms by (auto simp: is_sql_elevation_active_def split: option.splits)

theorem sql_elevation_window_witness:
  "is_sql_elevation_active (Some 0) (Some 1800000) 900000"
  using sql_elevation_window [of "Some 0" "Some 1800000" 0 1799999]
  by (simp add: is_sql_elevation_active_def)

end
