(* ===== verification/Accounts.thy ===== *)
theory Accounts
  imports StepUp Sessions
begin

text \<open>
  Administration of the operations accounts: the service
  (apps/api/src/modules/accounts/accountService.ts) over its repository in PostgreSQL
  (apps/api/src/modules/accounts/postgresAccountRepository.ts), and the codes the router answers
  with (apps/api/src/modules/accounts/accountRoutes.ts).

  The tables are lists of rows in one record. A transaction of the repository locks the rows it
  reads (\<open>FOR UPDATE\<close>), so it is one step; when a statement violates a constraint the
  transaction is rolled back and rejects. \<open>now()\<close> of the database and the clock of the service are
  arguments. Parameters (\<open>account_env\<close>): the case folding of the unique indexes, the trimming of
  text, the building of the enrolment address, and whether the audit ledger accepts an entry. The
  columns that neither the service nor the repository reads (mfaEnrolled, lastLoginAt, the random
  keys of the events) are left out.
\<close>

section \<open>Data\<close>

datatype account_status = Pending_mfa | Active | Locked | Revoked

record account =
  ac_id :: string
  ac_username :: string
  ac_email :: string
  ac_display :: string
  ac_role :: ops_role
  ac_status :: account_status
  ac_created :: millis
  ac_locked :: "(millis \<times> string \<times> string) option"
  ac_login_blocked :: "millis option"
  ac_revoked :: "(millis \<times> string) option"

record session_row =
  sr_user :: string
  sr_revoked :: "(millis \<times> string) option"

record challenge_row =
  cr_user :: string
  cr_used :: "millis option"

record token_row =
  tk_user :: string
  tk_hash :: string
  tk_purpose :: string
  tk_expires :: millis
  tk_issuer :: string
  tk_used :: "millis option"

datatype account_event = Account_event string string string

text \<open>An event has its account, its actor and its type.\<close>

record account_db =
  db_users :: "account list"
  db_sessions :: "session_row list"
  db_challenges :: "challenge_row list"
  db_elevations :: elevations
  db_tokens :: "token_row list"
  db_events :: "account_event list"
  db_audit :: "(string \<times> string \<times> string) list"

datatype account_code =
    ACCOUNT_SELF_PROTECTED | ACCOUNT_FINAL_OWNER_PROTECTED | ACCOUNT_NOT_FOUND | ACCOUNT_NOT_OWNER
  | ACCOUNT_USERNAME_CONFIRMATION_REQUIRED | ACCOUNT_MUTATION_DENIED | ACCOUNT_STEP_UP_REQUIRED

text \<open>What a call rejects with: an error with a code, a step-up error, a plain \<open>Error\<close>.\<close>

datatype account_exn =
    Account_error account_code | Step_up_exn step_up_error | Plain_error string | Database_exn

record account_env =
  ae_lower :: "string \<Rightarrow> string"
  ae_trim :: "string \<Rightarrow> string"
  ae_enrollment_url :: "string \<Rightarrow> string \<Rightarrow> string"
  ae_audit_ok :: "string \<times> string \<times> string \<Rightarrow> bool"

section \<open>The repository\<close>

definition find_by_id :: "string \<Rightarrow> account_db \<Rightarrow> account option" where
  "find_by_id i db = find (\<lambda>a. ac_id a = i) (db_users db)"

definition active_owner :: "account \<Rightarrow> bool" where
  "active_owner a \<longleftrightarrow> ac_status a = Active \<and> ac_role a = Ops_owner"

definition count_active_owners :: "account_db \<Rightarrow> nat" where
  "count_active_owners db = length (filter active_owner (db_users db))"

text \<open>An update that answers whether it changed exactly one row.\<close>

definition update_users ::
  "(account \<Rightarrow> bool) \<Rightarrow> (account \<Rightarrow> account) \<Rightarrow> account_db \<Rightarrow> bool \<times> account_db" where
  "update_users p f db =
     (length (filter p (db_users db)) = 1,
      db\<lparr>db_users := map (\<lambda>a. if p a then f a else a) (db_users db)\<rparr>)"

definition known :: "string \<Rightarrow> account_db \<Rightarrow> bool" where
  "known i db \<longleftrightarrow> i \<in> ac_id ` set (db_users db)"

text \<open>The event refers to its account and to its actor, which must exist.\<close>

definition append_event ::
  "string \<Rightarrow> string \<Rightarrow> string \<Rightarrow> account_db \<Rightarrow> (account_exn + bool) \<times> account_db" where
  "append_event user actor kind db =
     (if \<not> known user db \<or> \<not> known actor db then (Inl Database_exn, db)
      else (Inr True, db\<lparr>db_events := db_events db @ [Account_event user actor kind]\<rparr>))"

definition insert_token :: "token_row \<Rightarrow> account_db \<Rightarrow> account_db option" where
  "insert_token tk db =
     (if tk_hash tk \<in> tk_hash ` set (db_tokens db) \<or> \<not> known (tk_user tk) db \<or> \<not> known (tk_issuer tk) db
      then None
      else Some (db\<lparr>db_tokens := db_tokens db @ [tk]\<rparr>))"

definition user_insertable :: "account_env \<Rightarrow> account \<Rightarrow> account_db \<Rightarrow> bool" where
  "user_insertable env a db \<longleftrightarrow>
     \<not> known (ac_id a) db \<and>
     ae_lower env (ac_username a) \<notin> (\<lambda>b. ae_lower env (ac_username b)) ` set (db_users db) \<and>
     ae_lower env (ac_email a) \<notin> (\<lambda>b. ae_lower env (ac_email b)) ` set (db_users db) \<and>
     length (ac_username a) \<in> {3..80} \<and> length (ac_email a) \<in> {3..320} \<and> length (ac_display a) \<in> {1..160}"

definition repo_create_pending ::
  "account_env \<Rightarrow> account \<Rightarrow> token_row \<Rightarrow> account_db \<Rightarrow> (account_exn + bool) \<times> account_db" where
  "repo_create_pending env a tk =
     in_transaction (\<lambda>db.
       if \<not> user_insertable env a db then (Inl Database_exn, db)
       else case insert_token tk (db\<lparr>db_users := db_users db @ [a\<lparr>ac_status := Pending_mfa\<rparr>]\<rparr>) of
              None \<Rightarrow> (Inl Database_exn, db)
            | Some db' \<Rightarrow> append_event (ac_id a) (tk_issuer tk) ''created'' db')"

text \<open>\<open>lockActorAndTarget\<close> locks two rows and answers the target.\<close>

definition lock_actor_and_target :: "string \<Rightarrow> string \<Rightarrow> account_db \<Rightarrow> account option" where
  "lock_actor_and_target actor target db = find_by_id target db"

definition repo_change_role ::
  "string \<Rightarrow> string \<Rightarrow> ops_role \<Rightarrow> account_db \<Rightarrow> (account_exn + bool) \<times> account_db" where
  "repo_change_role actor target role =
     in_transaction (\<lambda>db.
       case lock_actor_and_target actor target db of
         None \<Rightarrow> (Inr False, db)
       | Some a \<Rightarrow>
           if actor = target then (Inr False, db)
           else let owners = count_active_owners db
                in if ac_role a = Ops_owner \<and> ac_status a = Active \<and> role \<noteq> Ops_owner \<and> owners \<le> 1
                   then (Inr False, db)
                   else case update_users
                          (\<lambda>b. ac_id b = target \<and> actor \<noteq> target \<and> ac_status b \<noteq> Revoked)
                          (\<lambda>b. b\<lparr>ac_role := role\<rparr>) db of
                          (one, db') \<Rightarrow>
                            if \<not> one then (Inr False, db')
                            else append_event target actor ''role_changed'' db')"

definition revoke_access :: "millis \<Rightarrow> string \<Rightarrow> string \<Rightarrow> account_db \<Rightarrow> account_db" where
  "revoke_access now user reason db =
     db\<lparr> db_sessions := map (\<lambda>r. if sr_user r = user \<and> sr_revoked r = None
                                then r\<lparr>sr_revoked := Some (now, reason)\<rparr> else r) (db_sessions db),
         db_challenges := map (\<lambda>r. if cr_user r = user \<and> cr_used r = None
                                  then r\<lparr>cr_used := Some now\<rparr> else r) (db_challenges db),
         db_elevations := snd (update_where
                            (\<lambda>r. g_user (row_grant r) = user \<and> g_revoked (row_grant r) = None)
                            (set_revoked now) (db_elevations db)),
         db_tokens := map (\<lambda>r. if tk_user r = user \<and> tk_used r = None
                              then r\<lparr>tk_used := Some now\<rparr> else r) (db_tokens db) \<rparr>"

definition final_owner :: "account \<Rightarrow> account_db \<Rightarrow> bool" where
  "final_owner a db \<longleftrightarrow> ac_role a = Ops_owner \<and> ac_status a = Active \<and> count_active_owners db \<le> 1"

definition repo_lock ::
  "millis \<Rightarrow> string \<Rightarrow> string \<Rightarrow> string \<Rightarrow> account_db \<Rightarrow> (account_exn + bool) \<times> account_db" where
  "repo_lock now actor target reason =
     in_transaction (\<lambda>db.
       case lock_actor_and_target actor target db of
         None \<Rightarrow> (Inr False, db)
       | Some a \<Rightarrow>
           if actor = target then (Inr False, db)
           else if final_owner a db then (Inr False, db)
           else case update_users (\<lambda>b. ac_id b = target \<and> ac_status b \<noteq> Revoked)
                       (\<lambda>b. b\<lparr>ac_status := Locked, ac_locked := Some (now, actor, reason),
                              ac_login_blocked := None\<rparr>) db of
                  (one, db') \<Rightarrow>
                    if \<not> one then (Inr False, db')
                    else append_event target actor ''administratively_locked''
                           (revoke_access now target ''ACCOUNT_LOCKED'' db'))"

definition repo_recover ::
  "millis \<Rightarrow> string \<Rightarrow> string \<Rightarrow> string \<Rightarrow> millis \<Rightarrow> account_db \<Rightarrow> (account_exn + bool) \<times> account_db" where
  "repo_recover now actor target token_hash expires =
     in_transaction (\<lambda>db.
       case lock_actor_and_target actor target db of
         None \<Rightarrow> (Inr False, db)
       | Some a \<Rightarrow>
           if ac_status a \<noteq> Locked then (Inr False, db)
           else case update_users (\<lambda>b. ac_id b = target \<and> ac_status b = Locked)
                       (\<lambda>b. b\<lparr>ac_status := Pending_mfa, ac_locked := None, ac_login_blocked := None\<rparr>) db of
                  (one, db') \<Rightarrow>
                    if \<not> one then (Inr False, db')
                    else case insert_token
                                \<lparr> tk_user = target, tk_hash = token_hash, tk_purpose = ''recovery'',
                                  tk_expires = expires, tk_issuer = actor, tk_used = None \<rparr>
                                (revoke_access now target ''ACCOUNT_RECOVERY'' db') of
                           None \<Rightarrow> (Inl Database_exn, db')
                         | Some db'' \<Rightarrow> append_event target actor ''recovery_issued'' db'')"

definition repo_revoke_account ::
  "millis \<Rightarrow> string \<Rightarrow> string \<Rightarrow> account_db \<Rightarrow> (account_exn + bool) \<times> account_db" where
  "repo_revoke_account now actor target =
     in_transaction (\<lambda>db.
       case lock_actor_and_target actor target db of
         None \<Rightarrow> (Inr False, db)
       | Some a \<Rightarrow>
           if actor = target then (Inr False, db)
           else if final_owner a db then (Inr False, db)
           else case update_users (\<lambda>b. ac_id b = target \<and> ac_status b \<noteq> Revoked)
                       (\<lambda>b. b\<lparr>ac_status := Revoked, ac_revoked := Some (now, actor)\<rparr>) db of
                  (one, db') \<Rightarrow>
                    if \<not> one then (Inr False, db')
                    else append_event target actor ''revoked''
                           (revoke_access now target ''ACCOUNT_REVOKED'' db'))"

section \<open>The service\<close>

type_synonym 'a account_prog = "(account_db, account_exn, 'a) prog"

definition consume_step_up :: "millis \<Rightarrow> binding \<Rightarrow> unit account_prog" where
  "consume_step_up now b = (\<lambda>db.
     case service_consume now b (db_elevations db) of
       (Inl e, t) \<Rightarrow> (Inl (Step_up_exn e), db\<lparr>db_elevations := t\<rparr>)
     | (Inr ok, t) \<Rightarrow>
         (if \<not> ok then Inl (Account_error ACCOUNT_STEP_UP_REQUIRED) else Inr (), db\<lparr>db_elevations := t\<rparr>))"

definition audit :: "account_env \<Rightarrow> string \<Rightarrow> string \<Rightarrow> string \<Rightarrow> unit account_prog" where
  "audit env actor action subject = (\<lambda>db.
     if ae_audit_ok env (actor, action, subject)
     then (Inr (), db\<lparr>db_audit := db_audit db @ [(actor, action, subject)]\<rparr>)
     else (Inl Database_exn, db))"

definition authorize_owner :: "millis \<Rightarrow> string \<Rightarrow> binding \<Rightarrow> unit account_prog" where
  "authorize_owner now actor b =
     bind_prog (gets (find_by_id actor)) (\<lambda>found.
       case found of
         None \<Rightarrow> throw (Account_error ACCOUNT_NOT_OWNER)
       | Some a \<Rightarrow>
           if ac_status a \<noteq> Active \<or> ac_role a \<noteq> Ops_owner then throw (Account_error ACCOUNT_NOT_OWNER)
           else consume_step_up now b)"

definition require_protected_target :: "string \<Rightarrow> string \<Rightarrow> account account_prog" where
  "require_protected_target actor target =
     (if actor = target then throw (Account_error ACCOUNT_SELF_PROTECTED)
      else bind_prog (gets (find_by_id target)) (\<lambda>found.
        case found of
          None \<Rightarrow> throw (Account_error ACCOUNT_NOT_FOUND)
        | Some a \<Rightarrow> ret a))"

definition assert_identifier :: "account_env \<Rightarrow> string \<Rightarrow> string \<Rightarrow> unit account_prog" where
  "assert_identifier env value code =
     when_prog (value = [] \<or> ae_trim env value \<noteq> value \<or> length value > 320) (throw (Plain_error code))"

text \<open>\<open>if (!(await repository.m())) throw new AccountServiceError('ACCOUNT_MUTATION_DENIED')\<close>.\<close>

definition must :: "bool account_prog \<Rightarrow> unit account_prog" where
  "must m = bind_prog m (\<lambda>done_it. when_prog (\<not> done_it) (throw (Account_error ACCOUNT_MUTATION_DENIED)))"

record new_account =
  na_username :: string
  na_email :: string
  na_display :: string
  na_role :: "ops_role option"

record enrollment =
  en_user :: string
  en_url :: string
  en_expires :: millis

definition day :: int where
  "day = 24 * 60 * 60 * 1000"

text \<open>\<open>issued\<close> is \<open>issueId()\<close>, \<open>(plain, hash)\<close> is \<open>createToken()\<close>.\<close>

definition create_account ::
  "account_env \<Rightarrow> millis \<Rightarrow> millis \<Rightarrow> string \<Rightarrow> string \<Rightarrow> string \<Rightarrow> string \<Rightarrow> new_account \<Rightarrow> binding
     \<Rightarrow> enrollment account_prog" where
  "create_account env now db_now issued plain hash actor n b =
     then_prog (authorize_owner db_now actor b)
    (then_prog (assert_identifier env (na_username n) ''ACCOUNT_USERNAME_INVALID'')
    (then_prog (assert_identifier env (na_email n) ''ACCOUNT_EMAIL_INVALID'')
    (then_prog (assert_identifier env (na_display n) ''ACCOUNT_DISPLAY_NAME_INVALID'')
       (let role = (case na_role n of None \<Rightarrow> Ops_maintainer | Some r \<Rightarrow> r);
            expires = now + day
        in then_prog
             (must (repo_create_pending env
                \<lparr> ac_id = issued, ac_username = na_username n, ac_email = na_email n,
                  ac_display = na_display n, ac_role = role, ac_status = Pending_mfa, ac_created = now,
                  ac_locked = None, ac_login_blocked = None, ac_revoked = None \<rparr>
                \<lparr> tk_user = issued, tk_hash = hash, tk_purpose = ''invite'', tk_expires = expires,
                  tk_issuer = actor, tk_used = None \<rparr>))
          (then_prog (audit env actor ''account.create'' issued)
             (ret \<lparr> en_user = issued, en_url = ae_enrollment_url env issued plain,
                    en_expires = expires \<rparr>))))))"

definition protect_final_owner :: "bool \<Rightarrow> unit account_prog" where
  "protect_final_owner target_owner =
     bind_prog (gets count_active_owners) (\<lambda>owners.
       when_prog (target_owner \<and> owners \<le> 1) (throw (Account_error ACCOUNT_FINAL_OWNER_PROTECTED)))"

definition change_role ::
  "account_env \<Rightarrow> millis \<Rightarrow> string \<Rightarrow> string \<Rightarrow> ops_role \<Rightarrow> binding \<Rightarrow> unit account_prog" where
  "change_role env db_now actor target role b =
     bind_prog (require_protected_target actor target) (\<lambda>a.
       then_prog (protect_final_owner (ac_role a = Ops_owner \<and> role \<noteq> Ops_owner))
      (then_prog (consume_step_up db_now b)
      (then_prog (must (repo_change_role actor target role))
         (audit env actor ''account.role_changed'' target))))"

definition lock_account ::
  "account_env \<Rightarrow> millis \<Rightarrow> string \<Rightarrow> string \<Rightarrow> string option \<Rightarrow> binding \<Rightarrow> unit account_prog" where
  "lock_account env db_now actor target reason b =
     bind_prog (require_protected_target actor target) (\<lambda>a.
       then_prog (protect_final_owner (ac_role a = Ops_owner))
      (then_prog (consume_step_up db_now b)
         (let trimmed = (case reason of None \<Rightarrow> [] | Some r \<Rightarrow> ae_trim env r);
              r = (if trimmed = [] then ''OWNER_LOCK'' else trimmed)
          in then_prog (must (repo_lock db_now actor target r))
               (audit env actor ''account.lock'' target))))"

definition recover_account ::
  "account_env \<Rightarrow> millis \<Rightarrow> millis \<Rightarrow> string \<Rightarrow> string \<Rightarrow> string \<Rightarrow> string \<Rightarrow> binding
     \<Rightarrow> enrollment account_prog" where
  "recover_account env now db_now plain hash actor target b =
     then_prog (authorize_owner db_now actor b)
       (bind_prog (gets (find_by_id target)) (\<lambda>found.
          case found of
            None \<Rightarrow> throw (Account_error ACCOUNT_NOT_FOUND)
          | Some a \<Rightarrow>
              if ac_status a \<noteq> Locked then throw (Account_error ACCOUNT_MUTATION_DENIED)
              else let expires = now + day
                   in then_prog (must (repo_recover db_now actor target hash expires))
                     (then_prog (audit env actor ''account.recovery_issued'' target)
                        (ret \<lparr> en_user = target, en_url = ae_enrollment_url env target plain,
                               en_expires = expires \<rparr>))))"

definition revoke_account ::
  "account_env \<Rightarrow> millis \<Rightarrow> string \<Rightarrow> string \<Rightarrow> string \<Rightarrow> binding \<Rightarrow> unit account_prog" where
  "revoke_account env db_now actor target confirmation b =
     bind_prog (require_protected_target actor target) (\<lambda>a.
       then_prog (when_prog (ac_username a \<noteq> confirmation)
                    (throw (Plain_error ''ACCOUNT_USERNAME_CONFIRMATION_REQUIRED'')))
      (then_prog (protect_final_owner (ac_role a = Ops_owner))
      (then_prog (consume_step_up db_now b)
      (then_prog (must (repo_revoke_account db_now actor target))
         (audit env actor ''account.revoke'' target)))))"

section \<open>The router\<close>

text \<open>The mutations of the router, each a call of the service; \<open>subject\<close> is the account it is about.\<close>

datatype account_op =
    Create string string string new_account | Change_role string ops_role | Lock string "string option"
  | Recover string string string | Revoke string string

fun subject :: "account_op \<Rightarrow> string" where
  "subject (Create issued plain hash n) = issued"
| "subject (Change_role t role) = t"
| "subject (Lock t reason) = t"
| "subject (Recover plain hash t) = t"
| "subject (Revoke t confirmation) = t"

fun action :: "account_op \<Rightarrow> string" where
  "action (Create issued plain hash n) = ''account.create''"
| "action (Change_role t role) = ''account.role_changed''"
| "action (Lock t reason) = ''account.lock''"
| "action (Recover plain hash t) = ''account.recovery_issued''"
| "action (Revoke t confirmation) = ''account.revoke''"

fun perform ::
  "account_env \<Rightarrow> millis \<Rightarrow> millis \<Rightarrow> string \<Rightarrow> binding \<Rightarrow> account_op \<Rightarrow> unit account_prog" where
  "perform env now db_now actor b (Create issued plain hash n) =
     then_prog (create_account env now db_now issued plain hash actor n b) (ret ())"
| "perform env now db_now actor b (Change_role t role) = change_role env db_now actor t role b"
| "perform env now db_now actor b (Lock t reason) = lock_account env db_now actor t reason b"
| "perform env now db_now actor b (Recover plain hash t) =
     then_prog (recover_account env now db_now plain hash actor t b) (ret ())"
| "perform env now db_now actor b (Revoke t confirmation) = revoke_account env db_now actor t confirmation b"

datatype answer_code = Account_code account_code | Step_up_code step_up_error | ACCOUNT_MUTATION_FAILED
  | Other_code

text \<open>\<open>errorCode\<close> reads the property \<open>code\<close>; an error of the database has one of its own.\<close>

fun error_code :: "account_exn \<Rightarrow> answer_code" where
  "error_code (Account_error c) = Account_code c"
| "error_code (Step_up_exn e) = Step_up_code e"
| "error_code (Plain_error m) = ACCOUNT_MUTATION_FAILED"
| "error_code Database_exn = Other_code"

definition status_for :: "answer_code \<Rightarrow> nat" where
  "status_for c =
     (if c = Account_code ACCOUNT_NOT_FOUND then 404
      else if c = Account_code ACCOUNT_STEP_UP_REQUIRED \<or> c = Step_up_code STEP_UP_REQUIRED then 401
      else if c = Account_code ACCOUNT_NOT_OWNER \<or> c = Account_code ACCOUNT_FINAL_OWNER_PROTECTED then 403
      else if c = Account_code ACCOUNT_USERNAME_CONFIRMATION_REQUIRED then 400
      else 409)"

section \<open>The last active owner\<close>

definition keys_ok :: "account_db \<Rightarrow> bool" where
  "keys_ok db \<longleftrightarrow> distinct (map ac_id (db_users db))"

definition has_owner :: "account_db \<Rightarrow> bool" where
  "has_owner db \<longleftrightarrow> (\<exists>a \<in> set (db_users db). active_owner a)"

lemma has_owner_count: "has_owner db \<longleftrightarrow> 1 \<le> count_active_owners db"
proof -
  have "filter active_owner (db_users db) = [] \<longleftrightarrow> \<not> has_owner db"
    by (auto simp: has_owner_def filter_empty_conv)
  then show ?thesis by (cases "filter active_owner (db_users db)") (auto simp: count_active_owners_def)
qed

lemma other_owner:
  assumes "keys_ok db" and "1 < count_active_owners db"
  shows "\<exists>a \<in> set (db_users db). active_owner a \<and> ac_id a \<noteq> i"
proof -
  obtain x y zs where f: "filter active_owner (db_users db) = x # y # zs"
    using assms(2) unfolding count_active_owners_def
    by (cases "filter active_owner (db_users db)"; cases "tl (filter active_owner (db_users db))") auto
  have "distinct (map ac_id (filter active_owner (db_users db)))"
    using assms(1) by (simp add: keys_ok_def distinct_map_filter)
  then have "ac_id x \<noteq> ac_id y" by (simp add: f)
  moreover have "{x, y} \<subseteq> {a \<in> set (db_users db). active_owner a}"
    using arg_cong [OF f, of set] by auto
  ultimately show ?thesis by (metis (lifting) insert_subset mem_Collect_eq)
qed

lemma find_by_id_some:
  "find_by_id i db = Some a \<Longrightarrow> a \<in> set (db_users db) \<and> ac_id a = i"
  by (auto simp: find_by_id_def find_Some_iff)

lemma same_account: "keys_ok db \<Longrightarrow> a \<in> set (db_users db) \<Longrightarrow> b \<in> set (db_users db) \<Longrightarrow>
    ac_id a = ac_id b \<Longrightarrow> a = b"
  by (auto simp: keys_ok_def distinct_map dest: inj_onD)

lemma keys_ok_unique:
  assumes "keys_ok db" and "\<And>a. p a \<Longrightarrow> ac_id a = i"
  shows "length (filter p (db_users db)) \<le> 1"
proof (rule ccontr)
  assume "\<not> ?thesis"
  then obtain x y zs where f: "filter p (db_users db) = x # y # zs"
    by (cases "filter p (db_users db)"; cases "tl (filter p (db_users db))") auto
  have "distinct (map ac_id (filter p (db_users db)))"
    using assms(1) by (simp add: keys_ok_def distinct_map_filter)
  moreover have "p x" "p y" using arg_cong [OF f, of set] by auto
  ultimately show False using assms(2) by (simp add: f)
qed

text \<open>
  What a transaction on \<open>target\<close> does to the tables: it keeps the keys, the audit ledger and the accounts
  of everybody else, undoes no spent grant, and changes the accounts only when it answers true.
\<close>

definition touches :: "string \<Rightarrow> account_db \<Rightarrow> account_exn + bool \<Rightarrow> account_db \<Rightarrow> bool" where
  "touches target db r db' \<longleftrightarrow>
     keys_ok db' \<and> db_audit db' = db_audit db \<and>
     (\<forall>a. ac_id a \<noteq> target \<longrightarrow> a \<in> set (db_users db') \<longleftrightarrow> a \<in> set (db_users db)) \<and>
     (\<forall>i. grant_spent i (db_elevations db) \<longrightarrow> grant_spent i (db_elevations db')) \<and>
     (r \<noteq> Inr True \<longrightarrow> db_users db' = db_users db)"

definition same_tables :: "account_db \<Rightarrow> account_db \<Rightarrow> bool" where
  "same_tables db db' \<longleftrightarrow> db_users db' = db_users db \<and> db_audit db' = db_audit db \<and>
     (\<forall>i. grant_spent i (db_elevations db) \<longrightarrow> grant_spent i (db_elevations db'))"

lemma same_tables_refl: "same_tables db db"
  by (simp add: same_tables_def)

lemma same_tables_trans: "same_tables a b \<Longrightarrow> same_tables b c \<Longrightarrow> same_tables a c"
  by (simp add: same_tables_def)

lemma append_event_same: "append_event u a k db = (r, db') \<Longrightarrow> same_tables db db' \<and> r \<noteq> Inr False"
  by (auto simp: append_event_def same_tables_def split: if_splits)

lemma insert_token_same: "insert_token tk db = Some db' \<Longrightarrow> same_tables db db'"
  by (auto simp: insert_token_def same_tables_def split: if_splits)

lemma revoke_access_same: "same_tables db (revoke_access now u reason db)"
  using evolves_spent [OF evolves_update_where [OF tame_updates(1)]]
  by (auto simp: same_tables_def revoke_access_def)

lemma update_users_touches:
  assumes "update_users p f db = (one, db')" and "keys_ok db"
    and "\<And>a. p a \<Longrightarrow> ac_id a = target" and "\<And>a. ac_id (f a) = ac_id a"
  shows "keys_ok db'" "db_audit db' = db_audit db" "db_elevations db' = db_elevations db"
    "\<not> one \<Longrightarrow> db' = db"
    "ac_id a \<noteq> target \<Longrightarrow> a \<in> set (db_users db') \<longleftrightarrow> a \<in> set (db_users db)"
proof -
  have db': "db' = db\<lparr>db_users := map (\<lambda>a. if p a then f a else a) (db_users db)\<rparr>"
    and one: "one \<longleftrightarrow> length (filter p (db_users db)) = 1"
    using assms(1) by (auto simp: update_users_def)
  have ids: "map ac_id (map (\<lambda>a. if p a then f a else a) (db_users db)) = map ac_id (db_users db)"
    using assms(4) by simp
  then show "keys_ok db'" using assms(2) by (simp add: keys_ok_def db' del: map_map)
  show "db_audit db' = db_audit db" "db_elevations db' = db_elevations db" by (simp_all add: db')
  show "db' = db" if "\<not> one"
  proof -
    from that one keys_ok_unique [OF assms(2,3)] have "length (filter p (db_users db)) = 0"
      by (metis le_neq_implies_less less_one)
    then have "map (\<lambda>a. if p a then f a else a) (db_users db) = db_users db"
      by (intro map_idI) (auto simp: filter_empty_conv)
    then show ?thesis by (simp add: db')
  qed
  show "a \<in> set (db_users db') \<longleftrightarrow> a \<in> set (db_users db)" if "ac_id a \<noteq> target"
    using that assms(3,4) by (force simp: db')
qed

lemma touches_refl: "keys_ok db \<Longrightarrow> touches target db r db"
  by (simp add: touches_def)

lemma transaction_touches:
  assumes "in_transaction m db = (r, db')" and "keys_ok db"
    and "\<And>x. m db = (Inr x, db') \<Longrightarrow> touches target db (Inr x) db'"
  shows "touches target db r db'"
  using assms by (auto simp: in_transaction_def touches_refl split: prod.splits sum.splits)

lemma update_event_touches:
  assumes "(case update_users p f db of (one, db1) \<Rightarrow> if \<not> one then (Inr False, db1) else k db1) = (Inr x, db')"
    and "keys_ok db" and "\<And>a. p a \<Longrightarrow> ac_id a = target" and "\<And>a. ac_id (f a) = ac_id a"
    and "\<And>db1. k db1 = (Inr x, db') \<Longrightarrow> same_tables db1 db' \<and> x"
  shows "touches target db (Inr x) db'"
proof -
  obtain one db1 where u: "update_users p f db = (one, db1)" by fastforce
  note t = update_users_touches [OF u assms(2,3,4)]
  show ?thesis
  proof (cases one)
    case True
    with assms(1) u have "k db1 = (Inr x, db')" by simp
    then have "same_tables db1 db'" and x using assms(5) by blast+
    with t show ?thesis by (auto simp: touches_def same_tables_def keys_ok_def)
  next
    case False
    with assms(1) u t(4) assms(2) show ?thesis by (simp add: touches_refl)
  qed
qed

lemma change_role_touches:
  assumes "repo_change_role actor target role db = (r, db')" and "keys_ok db"
  shows "touches target db r db'"
  using assms(1) unfolding repo_change_role_def
proof (rule transaction_touches [OF _ assms(2)], goal_cases)
  case (1 x)
  show ?case
    using 1 assms(2)
    by (auto simp: touches_refl Let_def split: option.splits if_splits
        elim!: update_event_touches dest: append_event_same)
qed

lemma revoked_event_same:
  "append_event u a k (revoke_access now t reason db) = (Inr x, db') \<Longrightarrow> same_tables db db' \<and> x"
  using append_event_same same_tables_trans [OF revoke_access_same] by (cases x) blast+

lemma lock_touches:
  assumes "repo_lock now actor target reason db = (r, db')" and "keys_ok db"
  shows "touches target db r db'"
  using assms(1) unfolding repo_lock_def
proof (rule transaction_touches [OF _ assms(2)], goal_cases)
  case (1 x)
  show ?case
    using 1 assms(2)
    by (auto simp: touches_refl split: option.splits if_splits
        elim!: update_event_touches dest: revoked_event_same)
qed

lemma revoke_touches:
  assumes "repo_revoke_account now actor target db = (r, db')" and "keys_ok db"
  shows "touches target db r db'"
  using assms(1) unfolding repo_revoke_account_def
proof (rule transaction_touches [OF _ assms(2)], goal_cases)
  case (1 x)
  show ?case
    using 1 assms(2)
    by (auto simp: touches_refl split: option.splits if_splits
        elim!: update_event_touches dest: revoked_event_same)
qed

lemma recover_touches:
  assumes "repo_recover now actor target hash expires db = (r, db')" and "keys_ok db"
  shows "touches target db r db'"
proof -
  have k: "same_tables db1 db' \<and> x"
    if "(case insert_token tk (revoke_access now target w db1) of
           None \<Rightarrow> (Inl Database_exn, db1) | Some db2 \<Rightarrow> append_event target actor e db2) = (Inr x, db')"
    for db1 x tk e w
    using that append_event_same [of target actor e _ "Inr x" db']
    by (cases x)
       (auto split: option.splits intro: same_tables_trans
         dest!: insert_token_same same_tables_trans [OF revoke_access_same])
  show ?thesis
    using assms(1) unfolding repo_recover_def
  proof (rule transaction_touches [OF _ assms(2)], goal_cases)
    case (1 x)
    show ?case
      using 1 assms(2)
      by (auto simp: touches_refl split: option.splits if_splits elim!: update_event_touches dest: k)
  qed
qed

lemma create_touches:
  assumes "repo_create_pending env a tk db = (r, db')" and "keys_ok db"
  shows "touches (ac_id a) db r db'"
  using assms(1) unfolding repo_create_pending_def
proof (rule transaction_touches [OF _ assms(2)], goal_cases)
  case (1 x)
  let ?db = "db\<lparr>db_users := db_users db @ [a\<lparr>ac_status := Pending_mfa\<rparr>]\<rparr>"
  from 1 obtain db1 where i: "insert_token tk ?db = Some db1" "user_insertable env a db"
    and e: "append_event (ac_id a) (tk_issuer tk) ''created'' db1 = (Inr x, db')"
    by (auto split: option.splits if_splits)
  have "same_tables ?db db'" using insert_token_same [OF i(1)] append_event_same [OF e] same_tables_trans by blast
  moreover have x using append_event_same [OF e] by (cases x) auto
  moreover have "keys_ok ?db" using assms(2) i(2) by (auto simp: keys_ok_def user_insertable_def known_def)
  ultimately show ?case by (auto simp: touches_def same_tables_def keys_ok_def)
qed

inductive account_step :: "account_env \<Rightarrow> string \<Rightarrow> account_db \<Rightarrow> account_db \<Rightarrow> bool" for env where
  creating: "repo_create_pending env a tk db = (r, db') \<Longrightarrow> account_step env (ac_id a) db db'"
| changing_role: "repo_change_role actor target role db = (r, db') \<Longrightarrow> account_step env target db db'"
| locking: "repo_lock now actor target reason db = (r, db') \<Longrightarrow> account_step env target db db'"
| recovering: "repo_recover now actor target hash expires db = (r, db') \<Longrightarrow> account_step env target db db'"
| revoking_account: "repo_revoke_account now actor target db = (r, db') \<Longrightarrow> account_step env target db db'"
| elsewhere: "db_users db' = db_users db \<Longrightarrow> account_step env [] db db'"

lemma step_keys: "account_step env t db db' \<Longrightarrow> keys_ok db \<Longrightarrow> keys_ok db'"
  by (cases rule: account_step.cases)
     (auto simp: touches_def keys_ok_def
       dest: create_touches change_role_touches lock_touches recover_touches revoke_touches)

text \<open>Who else is an active owner stays one, since only the target changes.\<close>

lemma touches_owner:
  assumes "touches target db r db'" and "a \<in> set (db_users db)" and "active_owner a" and "ac_id a \<noteq> target"
  shows "has_owner db'"
  using assms by (auto simp: touches_def has_owner_def)

lemma touches_guarded:
  assumes "touches target db r db'" and "keys_ok db" and "has_owner db"
    and "r = Inr True \<Longrightarrow> \<exists>a. find_by_id target db = Some a \<and>
           (active_owner a \<longrightarrow> 1 < count_active_owners db \<or> has_owner db')"
  shows "has_owner db'"
proof (cases "r = Inr True")
  case True
  with assms(4) obtain a where a: "find_by_id target db = Some a"
      "active_owner a \<longrightarrow> 1 < count_active_owners db \<or> has_owner db'" by blast
  note a' = find_by_id_some [OF a(1)]
  from assms(3) obtain b where b: "b \<in> set (db_users db)" "active_owner b" unfolding has_owner_def by blast
  show ?thesis
  proof (cases "ac_id b = target")
    case True
    with same_account [OF assms(2)] a' b(1) have "b = a" by blast
    with a(2) b(2) consider "1 < count_active_owners db" | "has_owner db'" by blast
    then show ?thesis
      using other_owner [OF assms(2)] touches_owner [OF assms(1)] by cases blast+
  next
    case False
    then show ?thesis using touches_owner [OF assms(1) b] by blast
  qed
next
  case False
  with assms(1,3) show ?thesis by (auto simp: touches_def has_owner_def)
qed

lemma transaction_true:
  "in_transaction m (db :: account_db) = (Inr True, db') \<Longrightarrow> m db = (Inr True, db')"
  by (auto simp: in_transaction_def split: prod.splits sum.splits)

lemma step_owner:
  assumes "account_step env t db db'" and k: "keys_ok db" and o: "has_owner db"
  shows "has_owner db'"
  using assms(1)
proof (cases rule: account_step.cases)
  case (creating a tk r)
  from o obtain b where b: "b \<in> set (db_users db)" "active_owner b" unfolding has_owner_def by blast
  show ?thesis
  proof (cases "r = Inr True")
    case True
    with creating have "user_insertable env a db"
      by (auto simp: repo_create_pending_def dest!: transaction_true split: if_splits)
    with b(1) have "ac_id b \<noteq> ac_id a" by (metis user_insertable_def known_def imageI)
    then show ?thesis using touches_owner [OF create_touches [OF creating(2) k] b] by simp
  next
    case False
    with create_touches [OF creating(2) k] o show ?thesis by (auto simp: touches_def has_owner_def)
  qed
next
  case (changing_role actor role r)
  show ?thesis
  proof (rule touches_guarded [OF change_role_touches [OF changing_role(1) k] k o])
    assume "r = Inr True"
    with changing_role have m: "repo_change_role actor t role db = (Inr True, db')" by simp
    then obtain a where a: "find_by_id t db = Some a"
      and g: "\<not> (ac_role a = Ops_owner \<and> ac_status a = Active \<and> role \<noteq> Ops_owner \<and> count_active_owners db \<le> 1)"
      by (auto simp: repo_change_role_def lock_actor_and_target_def Let_def dest!: transaction_true
          split: option.splits if_splits)
    have "has_owner db'" if own: "active_owner a" and role: "role = Ops_owner"
    proof -
      obtain db1 where e: "append_event t actor ''role_changed'' db1 = (Inr True, db')"
        and u: "db_users db1 = map (\<lambda>b. if ac_id b = t \<and> actor \<noteq> t \<and> ac_status b \<noteq> Revoked
                  then b\<lparr>ac_role := role\<rparr> else b) (db_users db)"
        using m a by (auto simp: repo_change_role_def lock_actor_and_target_def Let_def update_users_def
            dest!: transaction_true split: if_splits)
      have "db_users db' = db_users db1" using append_event_same [OF e] by (simp add: same_tables_def)
      moreover have "a\<lparr>ac_role := role\<rparr> = a" using own role by (simp add: active_owner_def)
      moreover have "a \<in> set (db_users db)" using find_by_id_some [OF a] by simp
      ultimately have "a \<in> set (db_users db')" by (force simp: u)
      with own show ?thesis by (auto simp: has_owner_def)
    qed
    then show "\<exists>a. find_by_id t db = Some a \<and>
        (active_owner a \<longrightarrow> 1 < count_active_owners db \<or> has_owner db')"
      using a g by (auto simp: active_owner_def)
  qed
next
  case (locking now actor reason r)
  show ?thesis
    by (rule touches_guarded [OF lock_touches [OF locking(1) k] k o])
       (use locking in \<open>auto simp: repo_lock_def lock_actor_and_target_def final_owner_def active_owner_def
         dest!: transaction_true split: option.splits if_splits\<close>)
next
  case (recovering now actor hash expires r)
  show ?thesis
    by (rule touches_guarded [OF recover_touches [OF recovering(1) k] k o])
       (use recovering in \<open>auto simp: repo_recover_def lock_actor_and_target_def active_owner_def
         dest!: transaction_true split: option.splits if_splits\<close>)
next
  case (revoking_account now actor r)
  show ?thesis
    by (rule touches_guarded [OF revoke_touches [OF revoking_account(1) k] k o])
       (use revoking_account in \<open>auto simp: repo_revoke_account_def lock_actor_and_target_def
         final_owner_def active_owner_def dest!: transaction_true split: option.splits if_splits\<close>)
next
  case elsewhere
  with o show ?thesis by (simp add: has_owner_def)
qed

text \<open>
  C20. The last active owner cannot be removed. Whatever accounts are created, locked, recovered, revoked or given
  another role, in any order and by whomever, an active owner remains when there was one.
\<close>

theorem active_owner_remains:
  assumes "op_run (account_step env) ops db db'" and "keys_ok db" and "1 \<le> count_active_owners db"
  shows "1 \<le> count_active_owners db'"
proof -
  have "keys_ok db' \<and> has_owner db'"
    using assms(1)
  proof (rule op_run_invariant)
    show "keys_ok db \<and> has_owner db" using assms(2,3) by (simp add: has_owner_count)
  qed (blast intro: step_keys step_owner)
  then show ?thesis by (simp add: has_owner_count)
qed

section \<open>Access ends with the account\<close>

definition no_access :: "string \<Rightarrow> account_db \<Rightarrow> bool" where
  "no_access u db \<longleftrightarrow>
     (\<forall>a \<in> set (db_users db). ac_id a = u \<longrightarrow> ac_status a \<noteq> Active) \<and>
     (\<forall>r \<in> set (db_sessions db). sr_user r = u \<longrightarrow> sr_revoked r \<noteq> None) \<and>
     (\<forall>r \<in> set (db_challenges db). cr_user r = u \<longrightarrow> cr_used r \<noteq> None) \<and>
     closed_for u (db_elevations db) \<and>
     (\<forall>r \<in> set (db_tokens db). tk_user r = u \<longrightarrow> tk_used r \<noteq> None)"

lemma revoke_access_ends:
  "\<forall>a \<in> set (db_users db). ac_id a = u \<longrightarrow> ac_status a \<noteq> Active \<Longrightarrow> no_access u (revoke_access now u reason db)"
  by (simp add: no_access_def revoke_access_def closed_for_def update_where_def set_revoked_def ball_Un)

lemma revoke_after_update:
  assumes "update_users (\<lambda>b. ac_id b = u \<and> ac_status b \<noteq> Revoked) f db = (one, db')"
    and "\<And>b. ac_status (f b) \<noteq> Active"
  shows "no_access u (revoke_access now u reason db')"
  using assms by (intro revoke_access_ends) (auto simp: update_users_def)

lemma append_event_tables:
  "append_event u a k db = (r, db') \<Longrightarrow> no_access v db' = no_access v db"
  by (auto simp: append_event_def no_access_def split: if_splits)

lemma repo_lock_ends:
  assumes "repo_lock now actor target reason db = (Inr True, db')" shows "no_access target db'"
proof -
  obtain db1 one where "update_users (\<lambda>b. ac_id b = target \<and> ac_status b \<noteq> Revoked)
        (\<lambda>b. b\<lparr>ac_status := Locked, ac_locked := Some (now, actor, reason), ac_login_blocked := None\<rparr>) db = (one, db1)"
      "append_event target actor ''administratively_locked'' (revoke_access now target ''ACCOUNT_LOCKED'' db1) =
         (Inr True, db')"
    using assms by (auto simp: repo_lock_def dest!: transaction_true split: option.splits if_splits prod.splits)
  then show ?thesis
    using revoke_after_update [where now = now and reason = "''ACCOUNT_LOCKED''"] append_event_tables by fastforce
qed

lemma repo_revoke_ends:
  assumes "repo_revoke_account now actor target db = (Inr True, db')" shows "no_access target db'"
proof -
  obtain db1 one where "update_users (\<lambda>b. ac_id b = target \<and> ac_status b \<noteq> Revoked)
        (\<lambda>b. b\<lparr>ac_status := Revoked, ac_revoked := Some (now, actor)\<rparr>) db = (one, db1)"
      "append_event target actor ''revoked'' (revoke_access now target ''ACCOUNT_REVOKED'' db1) = (Inr True, db')"
    using assms by (auto simp: repo_revoke_account_def dest!: transaction_true split: option.splits if_splits prod.splits)
  then show ?thesis
    using revoke_after_update [where now = now and reason = "''ACCOUNT_REVOKED''"] append_event_tables by fastforce
qed

section \<open>The service over the repository\<close>

lemma bind_okE:
  assumes "bind_prog m k s = (Inr x, s'')"
  obtains y s' where "m s = (Inr y, s')" "k y s' = (Inr x, s'')"
  using assms by (auto simp: bind_prog_def split: prod.splits sum.splits)

lemma then_okE:
  assumes "then_prog m k s = (Inr x, s'')"
  obtains y s' where "m s = (Inr y, s')" "k s' = (Inr x, s'')"
  using assms unfolding then_prog_def by (rule bind_okE)

lemma must_ok: "must m db = (Inr u, db') \<Longrightarrow> m db = (Inr True, db')"
  by (auto simp: must_def bind_prog_def when_prog_def throw_def ret_def split: prod.splits sum.splits if_splits)

lemma audit_ok: "audit env a k t db = (Inr u, db') \<Longrightarrow> db' = db\<lparr>db_audit := db_audit db @ [(a, k, t)]\<rparr>"
  by (auto simp: audit_def split: if_splits)

lemma audit_access: "audit env a k t db = (r, db') \<Longrightarrow> no_access v db' = no_access v db"
  by (auto simp: audit_def no_access_def split: if_splits)

lemma lock_account_okE:
  assumes "lock_account env now actor target reason b db = (Inr u, db')"
  obtains db1 db2 r where "repo_lock now actor target r db1 = (Inr True, db2)"
    "audit env actor ''account.lock'' target db2 = (Inr u, db')"
  using assms unfolding lock_account_def Let_def
  by (elim bind_okE then_okE) (rule that, erule must_ok)

lemma revoke_account_okE:
  assumes "revoke_account env now actor target conf b db = (Inr u, db')"
  obtains db1 db2 where "repo_revoke_account now actor target db1 = (Inr True, db2)"
    "audit env actor ''account.revoke'' target db2 = (Inr u, db')"
  using assms unfolding revoke_account_def
  by (elim bind_okE then_okE) (rule that, erule must_ok)

text \<open>
  C30. Locking or revoking an account ends its access. Right after a successful lock or revocation the account is
  not active, its sessions and step-up grants are revoked, and its login challenges and enrolment tokens are
  used up. From then on, through any further step-up requests of anyone and as long as \<open>findProof\<close>, which
  reads active accounts only, finds no proof for it, no step-up request of the account is accepted: none is
  granted, authorised, consumed or activated, for personal data or not.
\<close>

theorem locking_ends_access:
  assumes "lock_account env now actor target reason b db = (Inr (), db') \<or>
           revoke_account env now actor target conf b db = (Inr (), db')"
    and "\<And>f p. ge_proof senv target f = Some p \<Longrightarrow> \<exists>a \<in> set (db_users db'). ac_id a = target \<and> ac_status a = Active"
    and "op_run (step_up_step senv) ops (db_elevations db') t"
    and "b_user c = target" and "gr_user q = target"
  shows "no_access target db' \<and>
    fst (service_grant senv at issued q t) \<noteq> Inr g \<and>
    fst (service_authorize at db_at c t) \<noteq> Inr g \<and>
    fst (service_consume db_at c t) \<noteq> Inr True \<and>
    fst (service_authorize_pii at db_at c t) \<noteq> Inr g \<and>
    fst (service_activate_pii db_at c t) \<noteq> Inr True"
proof -
  have na: "no_access target db'"
    using assms(1)
  proof
    assume "lock_account env now actor target reason b db = (Inr (), db')"
    then obtain d e r where "repo_lock now actor target r d = (Inr True, e)"
        "audit env actor ''account.lock'' target e = (Inr (), db')" by (rule lock_account_okE)
    then show ?thesis using repo_lock_ends audit_access by metis
  next
    assume "revoke_account env now actor target conf b db = (Inr (), db')"
    then obtain d e where "repo_revoke_account now actor target d = (Inr True, e)"
        "audit env actor ''account.revoke'' target e = (Inr (), db')" by (rule revoke_account_okE)
    then show ?thesis using repo_revoke_ends audit_access by metis
  qed
  have unproven: "ge_proof senv target f = None" for f
    using assms(2) [of f] na by (cases "ge_proof senv target f") (auto simp: no_access_def)
  have "closed_for target t"
    using assms(3)
  proof (rule op_run_invariant)
    show "closed_for target (db_elevations db')" using na by (simp add: no_access_def)
  qed (rule closed_step, assumption, rule unproven)
  moreover have "\<exists>e. service_grant senv at issued q t = (Inl e, t)"
    using unproven assms(5) by (intro no_proof_no_grant) simp
  ultimately show ?thesis
    using na closed_refuses [of c t] assms(4) by auto
qed

section \<open>A mutation spends a grant and is audited\<close>

text \<open>
  \<open>mutates\<close>: the effect of the part of an operation that follows the consumption; \<open>spends_grant\<close>: of the
  whole operation.
\<close>

definition mutates ::
  "string \<Rightarrow> string \<times> string \<times> string \<Rightarrow> account_db \<Rightarrow> account_exn + 'a \<Rightarrow> account_db \<Rightarrow> bool" where
  "mutates target entry db r db' \<longleftrightarrow>
     keys_ok db' \<and>
     (\<forall>a. ac_id a \<noteq> target \<longrightarrow> a \<in> set (db_users db') \<longleftrightarrow> a \<in> set (db_users db)) \<and>
     (\<forall>i. grant_spent i (db_elevations db) \<longrightarrow> grant_spent i (db_elevations db')) \<and>
     (isl r \<or> db_audit db' = db_audit db @ [entry])"

definition spends_grant ::
  "millis \<Rightarrow> binding \<Rightarrow> string \<Rightarrow> string \<times> string \<times> string \<Rightarrow> account_db \<Rightarrow> account_exn + 'a \<Rightarrow> account_db
     \<Rightarrow> bool" where
  "spends_grant now b target entry db r db' \<longleftrightarrow>
     keys_ok db' \<and>
     (\<forall>a. ac_id a \<noteq> target \<longrightarrow> a \<in> set (db_users db') \<longleftrightarrow> a \<in> set (db_users db)) \<and>
     (isl r \<and> db_users db' = db_users db \<or>
      fst (repo_consume now b (db_elevations db)) \<and> grant_spent (b_grant_id b) (db_elevations db')) \<and>
     (isl r \<or> db_audit db' = db_audit db @ [entry])"

lemma spends_grant_refused: "keys_ok db \<Longrightarrow> spends_grant now b target entry db (Inl e) db"
  by (simp add: spends_grant_def)

lemma bind_anyE:
  assumes "bind_prog m k s = (r, s'')"
  obtains (threw) e where "m s = (Inl e, s'')" "r = Inl e"
  | (went) y s' where "m s = (Inr y, s')" "k y s' = (r, s'')"
  using assms by (auto simp: bind_prog_def split: prod.splits sum.splits)

lemma then_anyE:
  assumes "then_prog m k s = (r, s'')"
  obtains (threw) e where "m s = (Inl e, s'')" "r = Inl e"
  | (went) y s' where "m s = (Inr y, s')" "k s' = (r, s'')"
  using assms unfolding then_prog_def by (rule bind_anyE)

lemma must_any: "must m db = (r, db') \<Longrightarrow> \<exists>q. m db = (q, db') \<and> (r = Inr () \<longleftrightarrow> q = Inr True)"
  by (auto simp: must_def bind_prog_def when_prog_def throw_def ret_def split: prod.splits sum.splits if_splits)

lemma must_audit_mutates:
  assumes "then_prog (must m) (audit env actor k target) db = (r, db')"
    and "\<And>q d. m db = (q, d) \<Longrightarrow> touches target db q d"
  shows "mutates target (actor, k, target) db r db'"
  using assms(1)
proof (cases rule: then_anyE)
  case (threw e)
  with must_any assms(2) have "\<exists>q. touches target db q db'" by blast
  with threw show ?thesis by (auto simp: touches_def mutates_def)
next
  case (went y s')
  with must_any assms(2) have "\<exists>q. touches target db q s'" by blast
  moreover have "db' = (if isl r then s' else s'\<lparr>db_audit := db_audit s' @ [(actor, k, target)]\<rparr>)"
    using went(2) by (auto simp: audit_def split: if_splits)
  ultimately show ?thesis by (auto simp: touches_def mutates_def keys_ok_def split: if_splits)
qed

lemma mutates_ret:
  assumes "then_prog m (then_prog n (ret x)) db = (r, db')"
    and "\<And>q d. then_prog m n db = (q, d) \<Longrightarrow> mutates target entry db q d"
  shows "mutates target entry db r db'"
proof -
  obtain q d where q: "then_prog m n db = (q, d)" by fastforce
  with assms(1) have "db' = d \<and> isl r = isl q"
    by (auto simp: then_prog_def bind_prog_def ret_def split: prod.splits sum.splits)
  with assms(2) [OF q] show ?thesis by (auto simp: mutates_def)
qed

lemma consume_spends:
  assumes "then_prog (consume_step_up now b) k db = (r, db')" and "keys_ok db"
    and "\<And>d. keys_ok d \<Longrightarrow> db_users d = db_users db \<Longrightarrow> k d = (r, db') \<Longrightarrow> mutates target entry d r db'"
  shows "spends_grant now b target entry db r db'"
  using assms(1)
proof (cases rule: then_anyE)
  case (threw e)
  then have "db_users db' = db_users db"
    by (auto simp: consume_step_up_def split: prod.splits sum.splits if_splits)
  with threw assms(2) show ?thesis by (simp add: spends_grant_def keys_ok_def)
next
  case (went y s')
  then obtain tab where c: "service_consume now b (db_elevations db) = (Inr True, tab)"
    and s': "s' = db\<lparr>db_elevations := tab\<rparr>"
    by (auto simp: consume_step_up_def split: prod.splits sum.splits if_splits)
  from service_consume_true [OF c] have rc: "repo_consume now b (db_elevations db) = (True, tab)" .
  then obtain q where "bound_to b (row_grant q)" "set_consumed now q \<in> set tab" by (rule repo_consume_true)
  then have spent: "grant_spent (b_grant_id b) tab"
    unfolding grant_spent_def
    by (intro bexI [of _ "set_consumed now q"]) (simp_all add: bound_to_def set_consumed_def)
  have "mutates target entry s' r db'"
    using assms(2,3) went(2) by (simp add: s' keys_ok_def)
  with spent rc show ?thesis by (auto simp: mutates_def spends_grant_def s')
qed

text \<open>Programs that only read.\<close>

definition reads :: "'a account_prog \<Rightarrow> bool" where
  "reads m \<longleftrightarrow> (\<forall>db. snd (m db) = db)"

lemma reads_simps [simp]:
  "reads (gets f)" "reads (throw e)" "reads (ret x)" "reads (when_prog c (throw e))"
  by (simp_all add: reads_def gets_def throw_def ret_def when_prog_def)

lemma reads_bind: "reads m \<Longrightarrow> (\<And>x. reads (k x)) \<Longrightarrow> reads (bind_prog m k)"
  unfolding reads_def bind_prog_def by (auto split: prod.splits sum.splits) (metis snd_conv)+

lemma reads_checks [simp]:
  "reads (require_protected_target actor target)" "reads (protect_final_owner c)"
  "reads (assert_identifier env v code)"
  unfolding require_protected_target_def protect_final_owner_def assert_identifier_def
  by (auto intro!: reads_bind split: option.split)

lemma reads_then_mutates:
  assumes "then_prog m k db = (r, db')" and "reads m" and "keys_ok db"
    and "k db = (r, db') \<Longrightarrow> mutates target entry db r db'"
  shows "mutates target entry db r db'"
  using assms(1)
proof (cases rule: then_anyE)
  case (threw e)
  with assms(2,3) show ?thesis unfolding reads_def mutates_def by (metis isl_def snd_conv)
next
  case (went y s')
  with assms(2) have "s' = db" unfolding reads_def by (metis snd_conv)
  with went(2) assms(4) show ?thesis by simp
qed

lemma reads_bind_spends:
  assumes "bind_prog m k db = (r, db')" and "reads m" and "keys_ok db"
    and "\<And>x. k x db = (r, db') \<Longrightarrow> spends_grant now b target entry db r db'"
  shows "spends_grant now b target entry db r db'"
  using assms(1)
proof (cases rule: bind_anyE)
  case (threw e)
  with assms(2,3) show ?thesis unfolding reads_def by (metis snd_conv spends_grant_refused)
next
  case (went y s')
  with assms(2) have "s' = db" unfolding reads_def by (metis snd_conv)
  with went(2) assms(4) show ?thesis by simp
qed

lemmas reads_then_spends = reads_bind_spends [of _ "\<lambda>_. k" for k, folded then_prog_def]

lemma then_throw: "then_prog (throw e) k = throw e"
  by (rule ext) (simp add: then_prog_def bind_prog_def throw_def)

lemma then_assoc: "then_prog (then_prog m n) k = then_prog m (then_prog n k)"
  by (rule ext) (simp add: then_prog_def bind_prog_def split: prod.split sum.split)

lemma then_bind: "then_prog (bind_prog m f) k = bind_prog m (\<lambda>x. then_prog (f x) k)"
  by (rule ext) (simp add: then_prog_def bind_prog_def split: prod.split sum.split)

lemma authorize_spends:
  assumes "then_prog (authorize_owner now actor b) k db = (r, db')" and "keys_ok db"
    and "\<And>d. keys_ok d \<Longrightarrow> db_users d = db_users db \<Longrightarrow> k d = (r, db') \<Longrightarrow> mutates target entry d r db'"
  shows "spends_grant now b target entry db r db'"
proof (cases "find_by_id actor db")
  case None
  with assms(1) have "r = Inl (Account_error ACCOUNT_NOT_OWNER) \<and> db' = db"
    by (simp add: authorize_owner_def then_prog_def bind_prog_def gets_def throw_def)
  with assms(2) show ?thesis by (simp add: spends_grant_refused)
next
  case (Some a)
  show ?thesis
  proof (cases "ac_status a \<noteq> Active \<or> ac_role a \<noteq> Ops_owner")
    case True
    with Some assms(1) have "r = Inl (Account_error ACCOUNT_NOT_OWNER) \<and> db' = db"
      by (simp add: authorize_owner_def then_prog_def bind_prog_def gets_def throw_def)
    with assms(2) show ?thesis by (simp add: spends_grant_refused)
  next
    case False
    with Some assms(1) have "then_prog (consume_step_up now b) k db = (r, db')"
      by (simp add: authorize_owner_def then_prog_def bind_prog_def gets_def)
    then show ?thesis using assms(2,3) by (rule consume_spends)
  qed
qed

lemma change_role_spends:
  assumes "change_role env now actor target role b db = (r, db')" and "keys_ok db"
  shows "spends_grant now b target (actor, ''account.role_changed'', target) db r db'"
  using assms(1) unfolding change_role_def
  by (elim reads_bind_spends reads_then_spends consume_spends must_audit_mutates)
     (auto simp: assms(2) intro: change_role_touches)

lemma lock_account_spends:
  assumes "lock_account env now actor target reason b db = (r, db')" and "keys_ok db"
  shows "spends_grant now b target (actor, ''account.lock'', target) db r db'"
  using assms(1) unfolding lock_account_def Let_def
  by (elim reads_bind_spends reads_then_spends consume_spends must_audit_mutates)
     (auto simp: assms(2) intro: lock_touches)

lemma revoke_account_spends:
  assumes "revoke_account env now actor target conf b db = (r, db')" and "keys_ok db"
  shows "spends_grant now b target (actor, ''account.revoke'', target) db r db'"
  using assms(1) unfolding revoke_account_def
  by (elim reads_bind_spends reads_then_spends consume_spends must_audit_mutates)
     (auto simp: assms(2) intro: revoke_touches)

lemma create_account_spends:
  assumes "create_account env now db_now issued plain hash actor n b db = (r, db')" and "keys_ok db"
  shows "spends_grant db_now b issued (actor, ''account.create'', issued) db r db'"
  using assms(1) unfolding create_account_def Let_def
proof (rule authorize_spends [OF _ assms(2)], goal_cases)
  case (1 d)
  from 1(3) show ?case
    by (elim reads_then_mutates mutates_ret must_audit_mutates)
       (auto simp: 1(1) dest: create_touches)
qed

lemma recover_account_spends:
  assumes "recover_account env now db_now plain hash actor target b db = (r, db')" and "keys_ok db"
  shows "spends_grant db_now b target (actor, ''account.recovery_issued'', target) db r db'"
  using assms(1) unfolding recover_account_def
proof (rule authorize_spends [OF _ assms(2)], goal_cases)
  case (1 d)
  show ?case
  proof (cases "find_by_id target d")
    case None
    with 1(1,3) show ?thesis by (auto simp: bind_prog_def gets_def throw_def mutates_def)
  next
    case (Some a)
    show ?thesis
    proof (cases "ac_status a = Locked")
      case True
      with Some 1(3) have "then_prog (must (repo_recover db_now actor target hash (now + day)))
          (then_prog (audit env actor ''account.recovery_issued'' target)
             (ret \<lparr> en_user = target, en_url = ae_enrollment_url env target plain,
                    en_expires = now + day \<rparr>)) d = (r, db')"
        by (simp add: bind_prog_def gets_def Let_def)
      then show ?thesis
        by (elim mutates_ret must_audit_mutates) (auto simp: 1(1) dest: recover_touches)
    next
      case False
      with Some 1(1,3) show ?thesis by (auto simp: bind_prog_def gets_def throw_def mutates_def)
    qed
  qed
qed

lemma spends_grant_ret:
  assumes "then_prog m (ret ()) db = (r, db')"
    and "\<And>q. m db = (q, db') \<Longrightarrow> spends_grant now b target entry db q db'"
  shows "spends_grant now b target entry db r db'"
  using assms(1)
proof (cases rule: then_anyE)
  case (threw e)
  with assms(2) [of "Inl e"] show ?thesis by (simp add: spends_grant_def)
next
  case (went y s')
  with assms(2) [of "Inr y"] show ?thesis by (auto simp: ret_def spends_grant_def)
qed

lemma perform_spends:
  assumes "perform env now db_now actor b op db = (r, db')" and "keys_ok db"
  shows "spends_grant db_now b (subject op) (actor, action op, subject op) db r db'"
proof (cases op)
  case (Create issued plain hash n)
  with assms show ?thesis by (auto elim!: spends_grant_ret intro: create_account_spends)
next
  case (Change_role t role)
  with assms show ?thesis by (simp add: change_role_spends)
next
  case (Lock t reason)
  with assms show ?thesis by (simp add: lock_account_spends)
next
  case (Recover plain hash t)
  with assms show ?thesis by (auto elim!: spends_grant_ret intro: recover_account_spends)
next
  case (Revoke t confirmation)
  with assms show ?thesis by (simp add: revoke_account_spends)
qed

text \<open>
  C35. A mutation of the accounts changes nobody but its subject. When an account changed, or the operation
  succeeded, the step-up grant of the request was accepted on the tables as they were, and is spent
  now; and an operation that succeeded added its entry to the audit ledger.
\<close>

theorem mutation_spends_grant:
  assumes "keys_ok db" and "perform env now db_now actor b op db = (r, db')"
  shows "(\<forall>a. ac_id a \<noteq> subject op \<longrightarrow> a \<in> set (db_users db') \<longleftrightarrow> a \<in> set (db_users db)) \<and>
    (db_users db' \<noteq> db_users db \<or> r = Inr () \<longrightarrow>
       fst (repo_consume db_now b (db_elevations db)) \<and> grant_spent (b_grant_id b) (db_elevations db')) \<and>
    (r = Inr () \<longrightarrow> db_audit db' = db_audit db @ [(actor, action op, subject op)])"
  using perform_spends [OF assms(2,1)] by (auto simp: spends_grant_def isl_def)

text \<open>
  Two refusals of \<open>revoke\<close>. A wrong confirmation of the user name is a plain error, so the router answers
  409 although it has a code for it that answers 400. And while there is a single active owner, an
  owner account that is locked or still pending is refused as if it were the last one, although the
  repository would revoke it.
\<close>

theorem revoke_refusals:
  assumes "actor \<noteq> target" and "find_by_id target db = Some a" and "keys_ok db"
  shows "(ac_username a \<noteq> confirmation \<longrightarrow>
      (\<exists>e. revoke_account env now actor target confirmation b db = (Inl e, db) \<and> status_for (error_code e) = 409))
    \<and> status_for (Account_code ACCOUNT_USERNAME_CONFIRMATION_REQUIRED) = 400
    \<and> (ac_username a = confirmation \<and> ac_role a = Ops_owner \<and> ac_status a \<noteq> Active \<and>
       ac_status a \<noteq> Revoked \<and> count_active_owners db \<le> 1 \<and> known actor db \<longrightarrow>
         revoke_account env now actor target confirmation b db =
           (Inl (Account_error ACCOUNT_FINAL_OWNER_PROTECTED), db) \<and>
         fst (repo_revoke_account now actor target db) = Inr True)"
proof -
  note run = revoke_account_def require_protected_target_def protect_final_owner_def
    then_prog_def bind_prog_def gets_def when_prog_def throw_def ret_def
  have "length (filter (\<lambda>b. ac_id b = target \<and> ac_status b \<noteq> Revoked) (db_users db)) = 1"
    if "ac_status a \<noteq> Revoked"
  proof -
    have "a \<in> set (filter (\<lambda>b. ac_id b = target \<and> ac_status b \<noteq> Revoked) (db_users db))"
      using find_by_id_some [OF assms(2)] that by simp
    moreover have "length (filter (\<lambda>b. ac_id b = target \<and> ac_status b \<noteq> Revoked) (db_users db)) \<le> 1"
      using assms(3) by (rule keys_ok_unique) simp
    ultimately show ?thesis
      by (metis One_nat_def le_antisym length_pos_if_in_set Suc_leI)
  qed
  moreover have "known target db" using find_by_id_some [OF assms(2)] by (auto simp: known_def)
  moreover have "known i (db\<lparr>db_users := map (\<lambda>c. if p c then c\<lparr>ac_status := st, ac_revoked := w\<rparr> else c)
      (db_users db)\<rparr>) = known i db" for p st w i
  proof -
    have "(\<lambda>c. ac_id (if p c then c\<lparr>ac_status := st, ac_revoked := w\<rparr> else c)) = ac_id" by (rule ext) simp
    moreover have "known i (db\<lparr>db_users := us\<rparr>) \<longleftrightarrow> i \<in> ac_id ` set us" for us
      by (simp add: known_def)
    ultimately show ?thesis by (simp only: known_def list.set_map image_image)
  qed
  moreover have "known i (revoke_access t u w d) = known i d" for t u w d i
    by (simp add: known_def revoke_access_def)
  ultimately show ?thesis
    using assms(1,2)
    by (auto simp: run repo_revoke_account_def in_transaction_def lock_actor_and_target_def final_owner_def
        update_users_def append_event_def status_for_def)
qed

section \<open>Witnesses\<close>

definition sample_account_env :: account_env where
  "sample_account_env =
     \<lparr> ae_lower = to_lower, ae_trim = (\<lambda>s. s), ae_enrollment_url = (\<lambda>u t. u @ t), ae_audit_ok = (\<lambda>_. True) \<rparr>"

definition sample_account :: "string \<Rightarrow> ops_role \<Rightarrow> account_status \<Rightarrow> account" where
  "sample_account i role status =
     \<lparr> ac_id = i, ac_username = i, ac_email = i, ac_display = i, ac_role = role, ac_status = status,
       ac_created = 0, ac_locked = None, ac_login_blocked = None, ac_revoked = None \<rparr>"

definition sample_account_db :: account_db where
  "sample_account_db =
     \<lparr> db_users = [sample_account ''own'' Ops_owner Active, sample_account ''old'' Ops_owner Locked,
                  sample_account ''mnt'' Ops_maintainer Active],
       db_sessions = [\<lparr> sr_user = ''mnt'', sr_revoked = None \<rparr>],
       db_challenges = [],
       db_elevations = [\<lparr> row_grant = sample_granted ''g'' Accounts_write, row_audit = None \<rparr>],
       db_tokens = [], db_events = [], db_audit = [] \<rparr>"

lemma sample_db_keys: "keys_ok sample_account_db"
  by (simp add: keys_ok_def sample_account_db_def sample_account_def)

theorem active_owner_remains_witness:
  "1 \<le> count_active_owners (snd (repo_lock 5 ''mnt'' ''own'' ''why'' sample_account_db))"
proof -
  have "account_step sample_account_env ''own'' sample_account_db
      (snd (repo_lock 5 ''mnt'' ''own'' ''why'' sample_account_db))"
    by (rule account_step.locking [OF prod.collapse [symmetric]])
  then have "op_run (account_step sample_account_env) ([] @ [''own'']) sample_account_db
      (snd (repo_lock 5 ''mnt'' ''own'' ''why'' sample_account_db))"
    by (rule op_run.run_more [OF op_run.run_nothing])
  moreover have "1 \<le> count_active_owners sample_account_db" by code_simp
  ultimately show ?thesis using active_owner_remains sample_db_keys by blast
qed

theorem locking_ends_access_witness:
  "no_access ''mnt'' (snd (lock_account sample_account_env 1 ''own'' ''mnt'' None
     (sample_binding ''g'' Accounts_write) sample_account_db)) \<and>
   fst (service_grant (sample_grant_env\<lparr>ge_proof := \<lambda>_ _. None\<rparr>) 2 ''h''
     ((sample_request Accounts_write)\<lparr>gr_user := ''mnt''\<rparr>) (db_elevations (snd (lock_account sample_account_env 1
       ''own'' ''mnt'' None (sample_binding ''g'' Accounts_write) sample_account_db)))) \<noteq> Inr (sample_granted ''h'' Accounts_write)"
proof -
  let ?run = "lock_account sample_account_env 1 ''own'' ''mnt'' None
     (sample_binding ''g'' Accounts_write) sample_account_db"
  have "fst ?run = Inr ()" by code_simp
  then have run: "?run = (Inr (), snd ?run)" by (metis prod.collapse)
  have nothing: "op_run (step_up_step (sample_grant_env\<lparr>ge_proof := \<lambda>_ _. None\<rparr>)) []
      (db_elevations (snd ?run)) (db_elevations (snd ?run))" by (rule op_run.run_nothing)
  have "no_access ''mnt'' (snd ?run) \<and>
      fst (service_grant (sample_grant_env\<lparr>ge_proof := \<lambda>_ _. None\<rparr>) 2 ''h''
        ((sample_request Accounts_write)\<lparr>gr_user := ''mnt''\<rparr>) (db_elevations (snd ?run))) \<noteq>
        Inr (sample_granted ''h'' Accounts_write) \<and>
      fst (service_authorize 2 2 ((sample_binding ''g'' Accounts_write)\<lparr>b_user := ''mnt''\<rparr>) (db_elevations (snd ?run))) \<noteq>
        Inr (sample_granted ''h'' Accounts_write) \<and>
      fst (service_consume 2 ((sample_binding ''g'' Accounts_write)\<lparr>b_user := ''mnt''\<rparr>) (db_elevations (snd ?run))) \<noteq> Inr True \<and>
      fst (service_authorize_pii 2 2 ((sample_binding ''g'' Accounts_write)\<lparr>b_user := ''mnt''\<rparr>) (db_elevations (snd ?run))) \<noteq>
        Inr (sample_granted ''h'' Accounts_write) \<and>
      fst (service_activate_pii 2 ((sample_binding ''g'' Accounts_write)\<lparr>b_user := ''mnt''\<rparr>) (db_elevations (snd ?run))) \<noteq> Inr True"
    by (rule locking_ends_access [OF disjI1 [OF run]], simp, rule nothing, simp_all)
  then show ?thesis by blast
qed

theorem mutation_spends_grant_witness:
  "grant_spent ''g'' (db_elevations (snd (perform sample_account_env 0 1 ''own''
     (sample_binding ''g'' Accounts_write) (Change_role ''mnt'' Ops_viewer) sample_account_db)))"
proof -
  let ?run = "perform sample_account_env 0 1 ''own'' (sample_binding ''g'' Accounts_write)
     (Change_role ''mnt'' Ops_viewer) sample_account_db"
  have "fst ?run = Inr ()" by code_simp
  then have "?run = (Inr (), snd ?run)" by (metis prod.collapse)
  from mutation_spends_grant [OF sample_db_keys this] show ?thesis
    by (simp add: sample_binding_def)
qed

theorem revoke_refusals_witness:
  "revoke_account sample_account_env 1 ''own'' ''old'' ''old'' (sample_binding ''g'' Accounts_write)
     sample_account_db = (Inl (Account_error ACCOUNT_FINAL_OWNER_PROTECTED), sample_account_db)"
proof -
  have "find_by_id ''old'' sample_account_db = Some (sample_account ''old'' Ops_owner Locked)"
    by (simp add: find_by_id_def sample_account_db_def sample_account_def)
  moreover have "count_active_owners sample_account_db \<le> 1" "known ''own'' sample_account_db" by code_simp+
  ultimately show ?thesis
    using revoke_refusals [of "''own''" "''old''" sample_account_db "sample_account ''old'' Ops_owner Locked"
        "''old''" sample_account_env 1 "sample_binding ''g'' Accounts_write"] sample_db_keys
    by (simp add: sample_account_def)
qed

end
