(* ===== verification/StatusMachine.thy ===== *)
theory StatusMachine
  imports Prelude Complex_Main
begin

text \<open>
  The status machine of the collector (apps/web/src/server/collector/statusMachine.ts) and the history
  it is run over (\<open>remember\<close> of apps/web/src/server/collector/collector.ts).

  \<open>details\<close> is the record of the properties the machine reads: a number is \<open>rat option\<close>, \<open>None\<close> where
  the property is absent or no finite number; quotients are those of rationals. Of the two that the code
  reads with \<open>Number(x ?? 0)\<close> a value that is no number is kept apart from an absent one; infinite ones are
  not modelled. A time is its
  milliseconds, \<open>None\<close> where \<open>Date.parse\<close> gives \<open>NaN\<close>. The order of \<open>localeCompare\<close> is the parameter
  \<open>le\<close>.
\<close>

section \<open>Samples\<close>

datatype monitor_level = Unknown | Healthy | Warning | Critical

datatype monitor = App_liveness | App_health | App_process | Postgres | Backup | Cron | Errors | Collector
  | Host_resources | Host_services | Beszel

datatype transition = Opened | Changed | Recovered

fun monitor_name :: "monitor \<Rightarrow> string" where
  "monitor_name App_liveness = ''app_liveness''"
| "monitor_name App_health = ''app_health''"
| "monitor_name App_process = ''app_process''"
| "monitor_name Postgres = ''postgres''"
| "monitor_name Backup = ''backup''"
| "monitor_name Cron = ''cron''"
| "monitor_name Errors = ''errors''"
| "monitor_name Collector = ''collector''"
| "monitor_name Host_resources = ''host_resources''"
| "monitor_name Host_services = ''host_services''"
| "monitor_name Beszel = ''beszel''"

fun level_name :: "monitor_level \<Rightarrow> string" where
  "level_name Unknown = ''unknown''"
| "level_name Healthy = ''healthy''"
| "level_name Warning = ''warning''"
| "level_name Critical = ''critical''"

text \<open>
  \<open>dt_connections\<close>: the values of \<open>connectionStates\<close>, \<open>None\<close> one that is no number;
  \<open>dt_max\<close>: \<open>settings?.maxConnections ?? maxConnections\<close>.
\<close>

datatype reading = Absent | Not_a_number | Value rat

text \<open>\<open>Number(x ?? 0)\<close>, with None for \<open>NaN\<close>.\<close>

definition reading_number :: "reading \<Rightarrow> rat option" where
  "reading_number x = (case x of Absent \<Rightarrow> Some 0 | Not_a_number \<Rightarrow> None | Value n \<Rightarrow> Some n)"

record details =
  dt_probe_ok :: "bool option"
  dt_effective :: "monitor_level option"
  dt_condition :: "bool option"
  dt_dedupe :: "string option"
  dt_cpu :: "rat option"
  dt_memory :: "rat option"
  dt_disk :: "rat option"
  dt_load5 :: "rat option"
  dt_threads :: "rat option"
  dt_failed_services :: "string list"
  dt_waiting :: reading
  dt_max :: "rat option"
  dt_connections :: "rat option list"
  dt_fingerprint :: "string option"
  dt_fingerprint_count :: reading
  dt_fatal :: bool

record sample =
  sm_monitor :: monitor
  sm_level :: monitor_level
  sm_observed :: "millis option"
  sm_details :: details
  sm_error :: "string option"

record evaluation =
  ev_level :: monitor_level
  ev_transition :: "transition option"
  ev_dedupe :: string
  ev_summary :: string
  ev_condition :: bool

record candidate =
  cd_level :: monitor_level
  cd_reason :: string
  cd_priority :: nat

section \<open>Helpers\<close>

definition alert :: "monitor_level \<Rightarrow> bool" where
  "alert l \<longleftrightarrow> l = Warning \<or> l = Critical"

definition is_healthy :: "sample \<Rightarrow> bool" where
  "is_healthy s \<longleftrightarrow> sm_level s = Healthy \<and> dt_probe_ok (sm_details s) \<noteq> Some False"

definition trailing :: "(sample \<Rightarrow> bool) \<Rightarrow> sample list \<Rightarrow> sample list" where
  "trailing p samples = rev (takeWhile p (rev samples))"

definition sustained :: "(sample \<Rightarrow> bool) \<Rightarrow> int \<Rightarrow> sample list \<Rightarrow> bool" where
  "sustained p ms samples =
     (let matches = trailing p samples
      in if length matches < 2 then False
         else case (sm_observed (hd matches), sm_observed (last matches)) of
                (Some a, Some b) \<Rightarrow> ms \<le> b - a
              | _ \<Rightarrow> False)"

definition effective_level :: "sample option \<Rightarrow> monitor_level" where
  "effective_level s =
     (case s of
        None \<Rightarrow> Unknown
      | Some x \<Rightarrow> (case dt_effective (sm_details x) of Some l \<Rightarrow> l | None \<Rightarrow> sm_level x))"

definition stored_condition :: "sample \<Rightarrow> bool" where
  "stored_condition s = (case dt_condition (sm_details s) of Some c \<Rightarrow> c | None \<Rightarrow> is_healthy s)"

definition better :: "candidate \<Rightarrow> candidate \<Rightarrow> bool" where
  "better a b \<longleftrightarrow>
     (if cd_level a = cd_level b then cd_priority a \<le> cd_priority b else cd_level a = Critical)"

text \<open>The first of a list in a stable sort by \<open>le\<close>.\<close>

fun first_by :: "('a \<Rightarrow> 'a \<Rightarrow> bool) \<Rightarrow> 'a list \<Rightarrow> 'a option" where
  "first_by le [] = None"
| "first_by le (x # xs) = Some (foldl (\<lambda>m y. if le m y then m else y) x xs)"

definition choose_candidate :: "candidate list \<Rightarrow> candidate option" where
  "choose_candidate cs = first_by better cs"

text \<open>\<open>history.at(-1)\<close> and \<open>samples.at(-(n + 1))\<close>.\<close>

definition at_end :: "nat \<Rightarrow> 'a list \<Rightarrow> 'a option" where
  "at_end n xs = (if n < length xs then Some (rev xs ! n) else None)"

definition at_least :: "rat option \<Rightarrow> rat \<Rightarrow> bool" where
  "at_least x bound = (case x of None \<Rightarrow> False | Some v \<Rightarrow> bound \<le> v)"

definition load_ratio :: "details \<Rightarrow> rat option" where
  "load_ratio d =
     (case (dt_load5 d, dt_threads d) of
        (Some l, Some t) \<Rightarrow> if 0 < t then Some (l / t) else None
      | _ \<Rightarrow> None)"

section \<open>Resources, services and Beszel\<close>

definition minutes :: "int \<Rightarrow> int" where
  "minutes n = n * 60000"

definition resource_candidates :: "sample list \<Rightarrow> candidate list" where
  "resource_candidates samples =
     (if sustained (\<lambda>s. at_least (dt_cpu (sm_details s)) 95) (minutes 10) samples
      then [\<lparr> cd_level = Critical, cd_reason = ''cpu_critical'', cd_priority = 2 \<rparr>]
      else if sustained (\<lambda>s. at_least (dt_cpu (sm_details s)) 85) (minutes 10) samples
      then [\<lparr> cd_level = Warning, cd_reason = ''cpu_warning'', cd_priority = 2 \<rparr>]
      else []) @
     (if sustained (\<lambda>s. at_least (dt_memory (sm_details s)) 95) (minutes 5) samples
      then [\<lparr> cd_level = Critical, cd_reason = ''memory_critical'', cd_priority = 1 \<rparr>]
      else if sustained (\<lambda>s. at_least (dt_memory (sm_details s)) 85) (minutes 10) samples
      then [\<lparr> cd_level = Warning, cd_reason = ''memory_warning'', cd_priority = 1 \<rparr>]
      else []) @
     (if 2 \<le> length (trailing (\<lambda>s. at_least (dt_disk (sm_details s)) 90) samples)
      then [\<lparr> cd_level = Critical, cd_reason = ''disk_critical'', cd_priority = 0 \<rparr>]
      else if 2 \<le> length (trailing (\<lambda>s. at_least (dt_disk (sm_details s)) 80) samples)
      then [\<lparr> cd_level = Warning, cd_reason = ''disk_warning'', cd_priority = 0 \<rparr>]
      else []) @
     (if sustained (\<lambda>s. at_least (load_ratio (sm_details s)) (3 / 2)) (minutes 10) samples
      then [\<lparr> cd_level = Critical, cd_reason = ''load_critical'', cd_priority = 3 \<rparr>]
      else if sustained (\<lambda>s. at_least (load_ratio (sm_details s)) 1) (minutes 10) samples
      then [\<lparr> cd_level = Warning, cd_reason = ''load_warning'', cd_priority = 3 \<rparr>]
      else [])"

definition below :: "rat option \<Rightarrow> rat \<Rightarrow> bool" where
  "below x bound = (case x of None \<Rightarrow> False | Some v \<Rightarrow> v < bound)"

definition resources_healthy :: "details \<Rightarrow> bool" where
  "resources_healthy d \<longleftrightarrow>
     below (dt_cpu d) 85 \<and> below (dt_memory d) 85 \<and> below (dt_disk d) 80 \<and> below (load_ratio d) 1"

definition evaluate_resources :: "sample list \<Rightarrow> details \<Rightarrow> candidate option \<times> bool" where
  "evaluate_resources samples d = (choose_candidate (resource_candidates samples), resources_healthy d)"

definition probe_failed :: "sample \<Rightarrow> bool" where
  "probe_failed s \<longleftrightarrow> sm_level s \<noteq> Healthy \<or> dt_probe_ok (sm_details s) = Some False"

definition or_else :: "string option \<Rightarrow> string \<Rightarrow> string" where
  "or_else x d = (case x of None \<Rightarrow> d | Some s \<Rightarrow> s)"

definition evaluate_infrastructure ::
  "(string \<Rightarrow> string \<Rightarrow> bool) \<Rightarrow> sample list \<Rightarrow> sample \<Rightarrow> monitor_level \<times> string \<times> bool" where
  "evaluate_infrastructure le history s =
     (let samples = history @ [s]
      in if sm_monitor s = Host_resources
         then (case evaluate_resources samples (sm_details s) of
                 (Some c, ok) \<Rightarrow> (cd_level c, cd_reason c, ok)
               | (None, ok) \<Rightarrow> (Healthy, ''host_resources_state'', ok))
         else if sm_monitor s = Beszel
         then let failed = probe_failed s;
                  two_failures = (2 \<le> length (trailing probe_failed samples))
              in (if two_failures then Critical else if failed then Unknown else Healthy,
                  if two_failures then ''beszel_unavailable'' else or_else (sm_error s) ''beszel_state'',
                  \<not> failed)
         else let failed = dt_failed_services (sm_details s);
                  previous = (case at_end 0 history of None \<Rightarrow> [] | Some p \<Rightarrow> dt_failed_services (sm_details p));
                  same = filter (\<lambda>v. v \<in> set previous) failed
              in (case first_by le same of
                    None \<Rightarrow> (Healthy, ''host_services_state'', failed = [])
                  | Some v \<Rightarrow> (Critical, ''service_failed:'' @ v, failed = [])))"

definition infrastructure_recovery ::
  "sample list \<Rightarrow> bool \<Rightarrow> monitor_level \<Rightarrow> monitor_level \<times> transition option \<times> string option" where
  "infrastructure_recovery samples condition previous =
     (if \<not> condition \<or> \<not> alert previous then (Healthy, None, None)
      else let clear = trailing stored_condition samples;
               before_level = effective_level (at_end (length clear) samples);
               prior_alert = (alert previous \<or> alert before_level)
           in if \<not> prior_alert then (Healthy, None, None)
              else if length clear < 2 then (previous, None, Some ''awaiting_recovery_baseline'')
              else (Healthy, Some Recovered, None))"

section \<open>The other monitors\<close>

definition waiting_locks :: "details \<Rightarrow> rat option" where
  "waiting_locks d = reading_number (dt_waiting d)"

definition max_connections :: "details \<Rightarrow> rat" where
  "max_connections d = (case dt_max d of None \<Rightarrow> 0 | Some n \<Rightarrow> n)"

text \<open>The count of the current sample skips what is no number; the one of a past sample is \<open>NaN\<close> then.\<close>

definition connection_ratio :: "details \<Rightarrow> rat" where
  "connection_ratio d =
     (if 0 < max_connections d
      then sum_list (map (\<lambda>v. case v of None \<Rightarrow> 0 | Some n \<Rightarrow> n) (dt_connections d)) / max_connections d
      else 0)"

definition connections_above :: "rat \<Rightarrow> sample \<Rightarrow> bool" where
  "connections_above bound s =
     (let d = sm_details s
      in 0 < max_connections d \<and> None \<notin> set (dt_connections d) \<and>
         bound < sum_list (map (\<lambda>v. case v of None \<Rightarrow> 0 | Some n \<Rightarrow> n) (dt_connections d)) / max_connections d)"

definition locks_held :: "sample \<Rightarrow> bool" where
  "locks_held s \<longleftrightarrow> (case waiting_locks (sm_details s) of None \<Rightarrow> False | Some n \<Rightarrow> 0 < n)"

text \<open>The assignments to \<open>level\<close> and \<open>reason\<close>, one function per group of conditions.\<close>

definition base_level ::
  "sample list \<Rightarrow> sample \<Rightarrow> monitor_level \<Rightarrow> monitor_level \<times> string \<Rightarrow> monitor_level \<times> string" where
  "base_level samples s previous lr =
     (if sm_monitor s \<in> {App_liveness, App_health, App_process, Postgres}
      then if 2 \<le> length (trailing probe_failed samples)
           then (Critical, or_else (sm_error s) (monitor_name (sm_monitor s) @ ''_failed''))
           else if previous = Critical \<and> length (trailing is_healthy samples) < 2
           then (Critical, ''awaiting_recovery_baseline'')
           else if sm_level s = Critical \<or> sm_level s = Warning \<or> dt_probe_ok (sm_details s) = Some False
           then (Unknown, snd lr)
           else lr
      else lr)"

definition lock_level :: "sample list \<Rightarrow> sample \<Rightarrow> monitor_level \<times> string \<Rightarrow> monitor_level \<times> string" where
  "lock_level samples s lr =
     (if sm_monitor s = Postgres \<and> locks_held s \<and> sustained locks_held (minutes 5) samples
      then (Critical, ''waiting_locks_critical'')
      else if sm_monitor s = Postgres \<and> locks_held s \<and> 2 \<le> length (trailing locks_held samples)
      then (Warning, ''waiting_locks_warning'')
      else lr)"

definition connection_level :: "sample list \<Rightarrow> sample \<Rightarrow> monitor_level \<times> string \<Rightarrow> monitor_level \<times> string" where
  "connection_level samples s lr =
     (let ratio = connection_ratio (sm_details s)
      in if sm_monitor s = Postgres \<and> 9 / 10 < ratio \<and>
            sustained (connections_above (9 / 10)) (minutes 5) samples
         then (Critical, ''connections_critical'')
         else if sm_monitor s = Postgres \<and> 8 / 10 < ratio \<and>
            sustained (connections_above (8 / 10)) (minutes 5) samples
         then (Warning, ''connections_warning'')
         else lr)"

definition report_level :: "sample \<Rightarrow> monitor_level \<times> string \<Rightarrow> monitor_level \<times> string" where
  "report_level s lr =
     (let d = sm_details s;
          lr1 = (if sm_monitor s \<in> {Backup, Cron, Errors} \<and> sm_level s \<noteq> Healthy
                 then (sm_level s,
                       or_else (sm_error s)
                         (case dt_fingerprint d of
                            Some (c # cs) \<Rightarrow>
                              if sm_monitor s = Errors then ''error_'' @ take 12 (c # cs)
                              else monitor_name (sm_monitor s) @ ''_failure''
                          | _ \<Rightarrow> monitor_name (sm_monitor s) @ ''_failure''))
                 else lr)
      in if sm_monitor s = Errors \<and> (at_least (reading_number (dt_fingerprint_count d)) 10 \<or> dt_fatal d)
         then (Critical, if dt_fatal d then ''fatal_log_line'' else ''error_fingerprint_burst'')
         else lr1)"

definition condition_healthy :: "sample \<Rightarrow> bool" where
  "condition_healthy s \<longleftrightarrow>
     (let d = sm_details s
      in if sm_monitor s = Postgres
         then is_healthy s \<and> (case waiting_locks d of None \<Rightarrow> False | Some n \<Rightarrow> n \<le> 0) \<and> connection_ratio d \<le> 8 / 10
         else if sm_monitor s = Errors
         then is_healthy s \<and> below (reading_number (dt_fingerprint_count d)) 10 \<and> \<not> dt_fatal d
         else is_healthy s)"

section \<open>evaluateMonitor\<close>

definition alert_transition :: "monitor_level \<Rightarrow> monitor_level \<Rightarrow> transition option" where
  "alert_transition level previous =
     (if level \<noteq> previous \<and> alert level
      then if previous = Unknown then Some Opened else Some Changed
      else None)"

definition evaluated :: "monitor \<Rightarrow> monitor_level \<Rightarrow> transition option \<Rightarrow> string \<Rightarrow> bool \<Rightarrow> evaluation" where
  "evaluated m level tr reason condition =
     \<lparr> ev_level = level, ev_transition = tr, ev_dedupe = monitor_name m @ '':'' @ reason,
       ev_summary = take 500 (monitor_name m @ '' '' @ level_name level), ev_condition = condition \<rparr>"

text \<open>\<open>String(key).split(':').slice(1).join(':')\<close>: what follows the first colon.\<close>

definition after_colon :: "string \<Rightarrow> string" where
  "after_colon s = drop 1 (dropWhile (\<lambda>c. c \<noteq> CHR '':'') s)"

definition evaluate_host :: "(string \<Rightarrow> string \<Rightarrow> bool) \<Rightarrow> sample list \<Rightarrow> sample \<Rightarrow> evaluation" where
  "evaluate_host le history s =
     (let samples = history @ [s];
          previous = at_end 0 history;
          previous_level = effective_level previous;
          m = sm_monitor s
      in case evaluate_infrastructure le history s of
           (level, reason, condition) \<Rightarrow>
             if level = Healthy
             then (case infrastructure_recovery samples condition previous_level of
                     (level', tr, r) \<Rightarrow>
                       let reason' = (if tr \<noteq> None
                                      then (case previous of
                                              Some p \<Rightarrow>
                                                (case dt_dedupe (sm_details p) of
                                                   Some (c # cs) \<Rightarrow> after_colon (c # cs)
                                                 | _ \<Rightarrow> ''recovered'')
                                            | None \<Rightarrow> ''recovered'')
                                      else or_else r reason)
                       in evaluated m level' tr reason' condition)
             else evaluated m level (alert_transition level previous_level) reason condition)"

definition evaluate_other :: "sample list \<Rightarrow> sample \<Rightarrow> evaluation" where
  "evaluate_other history s =
     (let samples = history @ [s];
          previous_level = effective_level (at_end 0 history);
          m = sm_monitor s;
          start = (if sm_level s = Healthy then Healthy else Unknown,
                   or_else (sm_error s) (monitor_name m @ ''_state''));
          lr = report_level s (connection_level samples s (lock_level samples s
                 (base_level samples s previous_level start)));
          level = fst lr;
          reason = snd lr;
          condition = condition_healthy s;
          clear = trailing stored_condition samples;
          before_level = effective_level (at_end (length clear) samples);
          was_alert = alert previous_level;
          explicit = list_ex (\<lambda>x. dt_condition (sm_details x) \<noteq> None) samples;
          eligible = (condition \<and>
            ((was_alert \<and> 2 \<le> length clear) \<or>
             (\<not> explicit \<and> alert before_level \<and> length clear = 2)));
          hold = (condition \<and> (was_alert \<or> alert before_level) \<and> length clear < 2)
      in if eligible \<and> level = Healthy then evaluated m Healthy (Some Recovered) reason condition
         else let level' = (if hold \<and> level = Healthy
                            then if was_alert then previous_level else before_level
                            else level);
                  reason' = (if hold \<and> level = Healthy then ''awaiting_recovery_baseline'' else reason)
              in evaluated m level' (alert_transition level' previous_level) reason' condition)"

definition evaluate_monitor :: "(string \<Rightarrow> string \<Rightarrow> bool) \<Rightarrow> sample list \<Rightarrow> sample \<Rightarrow> evaluation" where
  "evaluate_monitor le history s =
     (if sm_monitor s \<in> {Beszel, Host_resources, Host_services} then evaluate_host le history s
      else evaluate_other history s)"

section \<open>The history of the collector\<close>

text \<open>\<open>remember\<close>: the sample joins the history with its evaluation in its details; 120 are kept.\<close>

definition with_evaluation :: "evaluation \<Rightarrow> sample \<Rightarrow> sample" where
  "with_evaluation e s =
     s\<lparr>sm_details := (sm_details s)\<lparr>dt_dedupe := Some (ev_dedupe e), dt_effective := Some (ev_level e),
          dt_condition := Some (ev_condition e)\<rparr>\<rparr>"

definition stored_sample :: "evaluation \<Rightarrow> sample \<Rightarrow> sample" where
  "stored_sample e s = (with_evaluation e s)\<lparr>sm_level := ev_level e\<rparr>"

definition remember_sample ::
  "(string \<Rightarrow> string \<Rightarrow> bool) \<Rightarrow> sample list \<Rightarrow> sample \<Rightarrow> evaluation \<times> sample list" where
  "remember_sample le history s =
     (let e = evaluate_monitor le history s;
          longer = history @ [with_evaluation e s]
      in (e, drop (length longer - 120) longer))"

fun watch :: "(string \<Rightarrow> string \<Rightarrow> bool) \<Rightarrow> sample list \<Rightarrow> sample list \<Rightarrow> evaluation list \<times> sample list" where
  "watch le history [] = ([], history)"
| "watch le history (s # ss) =
     (case remember_sample le history s of (e, h) \<Rightarrow>
        (case watch le h ss of (es, h') \<Rightarrow> (e # es, h')))"

section \<open>Lemmas\<close>

lemma at_end_snoc [simp]: "at_end 0 (xs @ [x]) = Some x" "at_end (Suc n) (xs @ [x]) = at_end n xs"
  by (simp_all add: at_end_def nth_append)

lemma at_end_last: "xs \<noteq> [] \<Longrightarrow> at_end 0 xs = Some (last xs)"
  by (cases xs rule: rev_cases) simp_all

lemma at_end_set: "at_end n xs = Some x \<Longrightarrow> x \<in> set xs"
  by (auto simp: at_end_def split: if_splits) (metis length_rev nth_mem set_rev)

lemma trailing_snoc [simp]: "trailing p (xs @ [x]) = (if p x then trailing p xs @ [x] else [])"
  by (simp add: trailing_def)

lemma trailing_short [simp]: "trailing p [] = []" "trailing p [x] = (if p x then [x] else [])"
  by (simp_all add: trailing_def)

lemma trailing_snoc2 [simp]:
  "trailing p (xs @ [x, y]) = (if p y then trailing p (xs @ [x]) @ [y] else [])"
  by (simp add: trailing_def)

lemma alert_transition_iff:
  "alert_transition l p = Some tr \<longleftrightarrow> l \<noteq> p \<and> alert l \<and> tr = (if p = Unknown then Opened else Changed)"
  by (auto simp: alert_transition_def)

lemma evaluated_simps [simp]:
  "ev_level (evaluated m l t r c) = l" "ev_transition (evaluated m l t r c) = t"
  "ev_condition (evaluated m l t r c) = c"
  by (simp_all add: evaluated_def)

text \<open>What a transition says of the levels before and after.\<close>

definition transition_ok :: "monitor_level \<Rightarrow> evaluation \<Rightarrow> bool" where
  "transition_ok p e \<longleftrightarrow>
     (case ev_transition e of
        None \<Rightarrow> alert (ev_level e) \<longrightarrow> ev_level e = p
      | Some Recovered \<Rightarrow> alert p \<and> ev_level e = Healthy \<and> ev_condition e
      | Some tr \<Rightarrow> alert (ev_level e) \<and> ev_level e \<noteq> p \<and> (tr = Opened \<longleftrightarrow> p = Unknown))"

lemma transition_ok_alert: "transition_ok p (evaluated m l (alert_transition l p) r c)"
  by (auto simp: transition_ok_def alert_transition_def)

lemma host_transition: "transition_ok (effective_level (at_end 0 history)) (evaluate_host le history s)"
proof -
  obtain level reason condition
    where i: "evaluate_infrastructure le history s = (level, reason, condition)" by (metis prod_cases3)
  obtain l t r where rec: "infrastructure_recovery (history @ [s]) condition
      (effective_level (at_end 0 history)) = (l, t, r)" by (metis prod_cases3)
  show ?thesis
  proof (cases "level = Healthy")
    case True
    have "transition_ok (effective_level (at_end 0 history)) (evaluated m l t q condition)" for m q
      using rec
      by (auto simp: infrastructure_recovery_def Let_def transition_ok_def alert_def split: if_splits)
    with True show ?thesis by (simp add: evaluate_host_def Let_def i rec)
  next
    case False
    then show ?thesis by (simp add: evaluate_host_def Let_def i transition_ok_alert)
  qed
qed

lemma other_transition:
  assumes "\<forall>x \<in> set history. dt_condition (sm_details x) \<noteq> None"
  shows "transition_ok (effective_level (at_end 0 history)) (evaluate_other history s)"
proof -
  let ?clear = "trailing stored_condition (history @ [s])"
  have "alert (effective_level (at_end 0 history))"
    if "\<not> list_ex (\<lambda>x. dt_condition (sm_details x) \<noteq> None) (history @ [s])" "length ?clear = 2"
  proof -
    from that(1) assms have "history = []" by (cases history) auto
    with that(2) show ?thesis by (simp split: if_splits)
  qed
  then show ?thesis
    unfolding evaluate_other_def Let_def
    by (auto simp: transition_ok_alert) (auto simp: transition_ok_def)
qed

lemma evaluate_transition:
  assumes "\<forall>x \<in> set history. dt_condition (sm_details x) \<noteq> None"
  shows "transition_ok (effective_level (at_end 0 history)) (evaluate_monitor le history s)"
  using assms host_transition other_transition by (simp add: evaluate_monitor_def)

section \<open>Runs of the collector\<close>

definition remembered :: "sample list \<Rightarrow> bool" where
  "remembered h \<longleftrightarrow> (\<forall>x \<in> set h. dt_condition (sm_details x) \<noteq> None)"

lemma remember_remembered:
  assumes "remember_sample le h s = (e, h')" and "remembered h"
  shows "remembered h'" "effective_level (at_end 0 h') = ev_level e" "e = evaluate_monitor le h s"
    "transition_ok (effective_level (at_end 0 h)) e"
proof -
  let ?w = "with_evaluation (evaluate_monitor le h s) s"
  from assms(1) have e: "e = evaluate_monitor le h s"
    and h': "h' = drop (length (h @ [?w]) - 120) (h @ [?w])"
    by (auto simp: remember_sample_def Let_def)
  let ?k = "drop (length h - 119) h"
  have k: "h' = ?k @ [?w]" "set ?k \<subseteq> set h" by (simp add: h') (rule set_drop_subset)
  have "dt_condition (sm_details ?w) \<noteq> None" by (simp add: with_evaluation_def)
  then show "remembered h'" using k(2) assms(2) unfolding k(1) remembered_def by auto
  show "effective_level (at_end 0 h') = ev_level e"
    unfolding k(1) by (simp add: e effective_level_def with_evaluation_def)
  show "e = evaluate_monitor le h s" by (rule e)
  show "transition_ok (effective_level (at_end 0 h)) e"
    using evaluate_transition assms(2) by (simp add: e remembered_def)
qed

lemma watch_transitions:
  "watch le h ss = (es, h') \<Longrightarrow> remembered h \<Longrightarrow> i < length es \<Longrightarrow>
     transition_ok (if i = 0 then effective_level (at_end 0 h) else ev_level (es ! (i - 1))) (es ! i)"
proof (induction ss arbitrary: h h' es i)
  case (Cons s ss)
  obtain e k where r: "remember_sample le h s = (e, k)" by fastforce
  obtain fs k' where w: "watch le k ss = (fs, k')" by fastforce
  have es: "es = e # fs" using Cons.prems(1) by (simp add: r w)
  note k = remember_remembered [OF r Cons.prems(2)]
  show ?case
  proof (cases i)
    case 0
    with k(4) show ?thesis by (simp add: es)
  next
    case (Suc j)
    with Cons.prems(3) have "j < length fs" by (simp add: es)
    from Cons.IH [OF w k(1) this] k(2) show ?thesis
      by (cases j) (simp_all add: es Suc)
  qed
qed simp

definition openings :: "evaluation list \<Rightarrow> nat" where
  "openings es = length (filter (\<lambda>e. ev_transition e \<in> {Some Opened, Some Changed}) es)"

definition recoveries :: "evaluation list \<Rightarrow> nat" where
  "recoveries es = length (filter (\<lambda>e. ev_transition e = Some Recovered) es)"

lemma watch_counts:
  "watch le h ss = (es, h') \<Longrightarrow> remembered h \<Longrightarrow>
     recoveries (take n es) \<le> openings (take n es) +
       (if alert (effective_level (at_end 0 h)) then 1 else 0)"
proof (induction ss arbitrary: h h' es n)
  case (Cons s ss)
  obtain e k where r: "remember_sample le h s = (e, k)" by fastforce
  obtain fs k' where w: "watch le k ss = (fs, k')" by fastforce
  have es: "es = e # fs" using Cons.prems(1) by (simp add: r w)
  note k = remember_remembered [OF r Cons.prems(2)]
  show ?case
  proof (cases n)
    case 0
    then show ?thesis by (simp add: recoveries_def)
  next
    case (Suc m)
    have "recoveries (take m fs) \<le> openings (take m fs) + (if alert (ev_level e) then 1 else 0)"
      using Cons.IH [OF w k(1), of m] k(2) by simp
    with k(4) show ?thesis
      by (cases "ev_transition e")
         (auto simp: es Suc recoveries_def openings_def transition_ok_def alert_def
           split: transition.splits if_splits)
  qed
qed (simp add: recoveries_def)

text \<open>
  C36. Alerts and recoveries alternate. Along any stream of samples of a monitor a recovery is announced only
  when the sample before left an alert, and then the level is healthy; an alert is opened or changed
  exactly when the level becomes an alert it was not before, and it is opened exactly from the level
  unknown; so no prefix of the stream has more recoveries than openings.
\<close>

theorem alerts_alternate:
  assumes "watch le [] ss = (es, h)" and "i < length es"
  shows "transition_ok (if i = 0 then Unknown else ev_level (es ! (i - 1))) (es ! i) \<and>
    recoveries (take n es) \<le> openings (take n es)"
  using watch_transitions [OF assms(1) _ assms(2)] watch_counts [OF assms(1), of n]
  by (cases i) (simp_all add: remembered_def at_end_def effective_level_def alert_def)

section \<open>One bad sample is no alert\<close>

definition quiet :: "sample \<Rightarrow> bool" where
  "quiet s \<longleftrightarrow>
     is_healthy s \<and> \<not> locks_held s \<and> \<not> connections_above (8 / 10) s \<and>
     \<not> at_least (dt_cpu (sm_details s)) 85 \<and> \<not> at_least (dt_memory (sm_details s)) 85 \<and>
     \<not> at_least (dt_disk (sm_details s)) 80 \<and> \<not> at_least (load_ratio (sm_details s)) 1 \<and>
     dt_failed_services (sm_details s) = []"

definition fresh_start :: "sample list \<Rightarrow> bool" where
  "fresh_start h \<longleftrightarrow> (case at_end 0 h of None \<Rightarrow> True | Some x \<Rightarrow> quiet x \<and> \<not> alert (effective_level (Some x)))"

lemma fresh_trailing:
  assumes "fresh_start h" and "\<And>x. quiet x \<Longrightarrow> \<not> p x"
  shows "length (trailing p (h @ [s])) < 2"
  using assms by (cases h rule: rev_cases) (auto simp: fresh_start_def)

lemma fresh_sustained:
  "fresh_start h \<Longrightarrow> (\<And>x. quiet x \<Longrightarrow> \<not> p x) \<Longrightarrow> \<not> sustained p ms (h @ [s])"
  using fresh_trailing [of h p s] by (simp add: sustained_def Let_def)

lemma at_least_mono: "at_least x b \<Longrightarrow> a \<le> b \<Longrightarrow> at_least x a"
  by (auto simp: at_least_def split: option.splits)

lemma connections_mono: "connections_above b x \<Longrightarrow> a \<le> b \<Longrightarrow> connections_above a x"
  by (auto simp: connections_above_def Let_def)

lemma quiet_resources:
  assumes "quiet x"
  shows "\<not> at_least (dt_cpu (sm_details x)) 95" "\<not> at_least (dt_memory (sm_details x)) 95"
    "\<not> at_least (dt_disk (sm_details x)) 90" "\<not> at_least (load_ratio (sm_details x)) (3 / 2)"
    "\<not> connections_above (9 / 10) x" "\<not> probe_failed x"
  using assms at_least_mono [of _ 95 85] at_least_mono [of _ 90 80] at_least_mono [of _ "3 / 2" 1]
    connections_mono [of "9 / 10" x "8 / 10"]
  by (auto simp: quiet_def probe_failed_def is_healthy_def)

lemma fresh_candidates:
  assumes "fresh_start h"
  shows "resource_candidates (h @ [s]) = []"
proof -
  note f = fresh_sustained [OF assms]
  have "\<not> sustained (\<lambda>x. at_least (dt_cpu (sm_details x)) 95) ms (h @ [s])"
    "\<not> sustained (\<lambda>x. at_least (dt_cpu (sm_details x)) 85) ms (h @ [s])"
    "\<not> sustained (\<lambda>x. at_least (dt_memory (sm_details x)) 95) ms (h @ [s])"
    "\<not> sustained (\<lambda>x. at_least (dt_memory (sm_details x)) 85) ms (h @ [s])"
    "\<not> sustained (\<lambda>x. at_least (load_ratio (sm_details x)) (3 / 2)) ms (h @ [s])"
    "\<not> sustained (\<lambda>x. at_least (load_ratio (sm_details x)) 1) ms (h @ [s])" for ms
    by (rule f, simp add: quiet_resources quiet_def)+
  moreover have "\<not> 2 \<le> length (trailing (\<lambda>x. at_least (dt_disk (sm_details x)) 90) (h @ [s]))"
    "\<not> 2 \<le> length (trailing (\<lambda>x. at_least (dt_disk (sm_details x)) 80) (h @ [s]))"
    using fresh_trailing [OF assms, of "\<lambda>x. at_least (dt_disk (sm_details x)) 90" s]
      fresh_trailing [OF assms, of "\<lambda>x. at_least (dt_disk (sm_details x)) 80" s]
    by (force simp: quiet_resources quiet_def)+
  ultimately show ?thesis by (simp only: resource_candidates_def if_False append.simps)
qed

lemma fresh_infrastructure:
  assumes "fresh_start h"
  shows "\<not> alert (fst (evaluate_infrastructure le h s))"
proof -
  have "\<not> 2 \<le> length (trailing probe_failed (h @ [s]))"
    using fresh_trailing [OF assms, of probe_failed s] quiet_resources(6) by force
  moreover have "first_by le (filter (\<lambda>v. v \<in> set (case at_end 0 h of None \<Rightarrow> [] | Some p \<Rightarrow> dt_failed_services (sm_details p)))
      (dt_failed_services (sm_details s))) = None"
    using assms by (auto simp: fresh_start_def quiet_def split: option.splits)
  ultimately show ?thesis
    using fresh_candidates [OF assms, of s]
    by (simp add: evaluate_infrastructure_def evaluate_resources_def choose_candidate_def alert_def Let_def)
qed

lemma fresh_effective: "fresh_start h \<Longrightarrow> \<not> alert (effective_level (at_end 0 h))"
  by (auto simp: fresh_start_def effective_level_def alert_def split: option.splits)

lemma fresh_host:
  assumes "fresh_start h"
  shows "\<not> alert (ev_level (evaluate_host le h s))"
  using fresh_infrastructure [OF assms, of le s] fresh_effective [OF assms]
  by (auto simp: evaluate_host_def infrastructure_recovery_def Let_def alert_def split: prod.splits)

lemma fresh_other:
  assumes "fresh_start h" and "sm_monitor s \<notin> {Backup, Cron, Errors}" and "dt_condition (sm_details s) = None"
  shows "\<not> alert (ev_level (evaluate_other h s))"
proof -
  let ?samples = "h @ [s]"
  have p: "\<not> alert (effective_level (at_end 0 h))" using assms(1) by (rule fresh_effective)
  have base: "\<not> alert (fst (base_level ?samples s (effective_level (at_end 0 h)) (l, r)))"
    if "\<not> alert l" for l r
  proof -
    have "\<not> 2 \<le> length (trailing probe_failed ?samples)"
      using fresh_trailing [OF assms(1), of probe_failed s] quiet_resources(6) by force
    with p that show ?thesis by (auto simp: base_level_def alert_def)
  qed
  have "\<not> sustained locks_held ms ?samples" "\<not> sustained (connections_above (8 / 10)) ms ?samples"
    "\<not> sustained (connections_above (9 / 10)) ms ?samples" for ms
    by (rule fresh_sustained [OF assms(1)], simp add: quiet_resources quiet_def)+
  moreover have "\<not> 2 \<le> length (trailing locks_held ?samples)"
    using fresh_trailing [OF assms(1), of locks_held s] by (force simp: quiet_def)
  ultimately have lr: "report_level s (connection_level ?samples s (lock_level ?samples s lr)) = lr" for lr
    using assms(2) by (auto simp: report_level_def connection_level_def lock_level_def Let_def)
  have before: "\<not> alert (effective_level (at_end (length (trailing stored_condition ?samples)) ?samples))"
    if "condition_healthy s" "length (trailing stored_condition ?samples) < 2"
  proof -
    have "is_healthy s" using that(1) by (auto simp: condition_healthy_def Let_def split: if_splits)
    then have "stored_condition s" using assms(3) by (simp add: stored_condition_def)
    then have "length (trailing stored_condition ?samples) = 1" using that(2) by simp
    then show ?thesis using p by simp
  qed
  have start: "\<not> alert (if sm_level s = Healthy then Healthy else Unknown)" by (simp add: alert_def)
  show ?thesis
    unfolding evaluate_other_def Let_def lr
    using base [OF start] p before by (auto simp: alert_def)
qed

lemma other_opening:
  "ev_transition (evaluate_other h s) \<in> {Some Opened, Some Changed} \<Longrightarrow> alert (ev_level (evaluate_other h s))"
  unfolding evaluate_other_def Let_def by (auto simp: alert_transition_def split: if_splits)

lemma host_opening:
  "ev_transition (evaluate_host le h s) \<in> {Some Opened, Some Changed} \<Longrightarrow> alert (ev_level (evaluate_host le h s))"
  using host_transition [of h le s] by (auto simp: transition_ok_def)

text \<open>
  One bad sample raises no alert. Of the monitors that probe, a sample that is evaluated first, or after a
  sample with nothing wrong and no alert, never makes an alert, whatever it says. (The monitors backup,
  cron and errors report what happened, and alert at once.)
\<close>

theorem single_sample_no_alert:
  assumes "fresh_start h" and "sm_monitor s \<notin> {Backup, Cron, Errors}" and "dt_condition (sm_details s) = None"
  shows "\<not> alert (ev_level (evaluate_monitor le h s)) \<and>
    ev_transition (evaluate_monitor le h s) \<notin> {Some Opened, Some Changed}"
proof -
  have n: "\<not> alert (ev_level (evaluate_monitor le h s))"
    using fresh_host [OF assms(1)] fresh_other [OF assms] by (simp add: evaluate_monitor_def)
  then show ?thesis
    using other_opening [of h s] host_opening [of le h s] by (auto simp: evaluate_monitor_def)
qed

section \<open>Witnesses\<close>

definition sample_details :: details where
  "sample_details =
     \<lparr> dt_probe_ok = None, dt_effective = None, dt_condition = None, dt_dedupe = None, dt_cpu = None,
       dt_memory = None, dt_disk = Some 85, dt_load5 = None, dt_threads = None, dt_failed_services = [],
       dt_waiting = Absent, dt_max = None, dt_connections = [], dt_fingerprint = None,
       dt_fingerprint_count = Absent, dt_fatal = False \<rparr>"

definition sample_of :: "monitor \<Rightarrow> monitor_level \<Rightarrow> sample" where
  "sample_of m l = \<lparr> sm_monitor = m, sm_level = l, sm_observed = Some 0, sm_details = sample_details, sm_error = None \<rparr>"

definition sample_stream :: "sample list" where
  "sample_stream = map (sample_of App_health) [Critical, Critical, Healthy, Healthy]"

lemma length_watch: "length (fst (watch le h ss)) = length ss"
  by (induction ss arbitrary: h) (auto split: prod.splits dest: arg_cong [of _ _ fst], metis fst_conv)

theorem alerts_alternate_witness:
  "transition_ok (ev_level (fst (watch (\<lambda>_ _. True) [] sample_stream) ! 2))
     (fst (watch (\<lambda>_ _. True) [] sample_stream) ! 3)"
proof -
  have "3 < length (fst (watch (\<lambda>_ _. True) [] sample_stream))"
    unfolding length_watch by (simp add: sample_stream_def)
  from alerts_alternate [OF prod.collapse [symmetric] this] show ?thesis by simp
qed

theorem single_sample_no_alert_witness:
  "\<not> alert (ev_level (evaluate_monitor (\<lambda>_ _. True) [] (sample_of App_health Critical)))"
  using single_sample_no_alert [of "[]" "sample_of App_health Critical" "\<lambda>_ _. True"]
  by (simp add: fresh_start_def at_end_def sample_of_def sample_details_def)

end
