(* ===== verification/ConfigChecks.thy ===== *)
theory ConfigChecks
  imports ChangeMachine
begin

text \<open>
  The data of the repository of configuration changes and the checks on it
  (apps/api/src/modules/variables/postgresConfigChangeRepository.ts, up to \<open>mapChange\<close>).

  An object is a record with, besides its properties, the list of its keys (\<open>Object.keys\<close>) where the
  code checks them. Values have the types of the interfaces, so the tests with \<open>typeof\<close> and
  \<open>Array.isArray\<close> always pass. Text is of characters up to code point 255.
\<close>

section \<open>Errors and sequences of checks\<close>

datatype config_error =
    Metadata_error string | Config_error string | Machine_error change_error | Constraint_error

text \<open>Checks in the order of the code: the first that fails throws.\<close>

type_synonym config_checks = "(bool \<times> config_error) list"

definition run_checks :: "config_checks \<Rightarrow> config_error + unit" where
  "run_checks cs = (case find fst cs of None \<Rightarrow> Inr () | Some (_, e) \<Rightarrow> Inl e)"

lemma run_checks_ok: "run_checks cs = Inr () \<longleftrightarrow> (\<forall>c \<in> set cs. \<not> fst c)"
  by (auto simp: run_checks_def find_None_iff find_Some_iff split: option.split)

section \<open>Patterns\<close>

definition identifier_char :: "char \<Rightarrow> bool" where
  "identifier_char c \<longleftrightarrow> is_alnum c \<or> c \<in> set ''._:-''"

definition identifier_pattern :: "string \<Rightarrow> bool" where
  "identifier_pattern s \<longleftrightarrow>
     s \<noteq> [] \<and> length s \<le> 256 \<and> is_alnum (hd s) \<and> list_all identifier_char (tl s)"

definition lower_hex :: "char \<Rightarrow> bool" where
  "lower_hex c \<longleftrightarrow> c \<in> set ''0123456789abcdef''"

definition fingerprint_pattern :: "string \<Rightarrow> bool" where
  "fingerprint_pattern s \<longleftrightarrow>
     starts_with ''hmac-sha256:v'' s \<and>
     (let rest = drop 13 s;
          digits = takeWhile is_digit rest;
          tail = dropWhile is_digit rest
      in digits \<noteq> [] \<and> length tail = 65 \<and> hd tail = CHR '':'' \<and> list_all lower_hex (tl tail))"

definition upper_code :: "nat \<Rightarrow> string \<Rightarrow> bool" where
  "upper_code shortest s \<longleftrightarrow>
     shortest \<le> length s \<and> length s \<le> 128 \<and> s \<noteq> [] \<and> (is_upper (hd s) \<or> is_digit (hd s)) \<and>
     list_all (\<lambda>c. is_upper c \<or> is_digit c \<or> c \<in> set ''._:-'') (tl s)"

definition event_code :: "string \<Rightarrow> bool" where
  "event_code s \<longleftrightarrow>
     starts_with ''EVT_'' s \<and> length s > 4 \<and> list_all (\<lambda>c. is_alnum c \<or> c = CHR ''_'') (drop 4 s)"

definition sensitive :: "string \<Rightarrow> bool" where
  "sensitive s \<longleftrightarrow>
     list_ex (\<lambda>w. contains_str w (to_lower s))
       [''secret'', ''password'', ''totp'', ''credential'', ''plaintext'', ''cleartext'']"

definition control_char :: "char \<Rightarrow> bool" where
  "control_char c \<longleftrightarrow> (let n = of_char c :: nat in n < 32 \<and> n \<noteq> 9 \<and> n \<noteq> 10 \<and> n \<noteq> 13)"

definition strategies :: "string list" where
  "strategies = [''no_runtime_action'', ''next_job'', ''runtime_restart'', ''credential_restart'',
     ''build_redeploy'']"

definition forbidden_metadata_keys :: "string list" where
  "forbidden_metadata_keys = [''value'', ''newValue'', ''oldValue'', ''plaintext'', ''secret'',
     ''password'', ''totp'', ''credential'', ''token'', ''path'', ''command'', ''url'']"

section \<open>Checks on texts\<close>

definition bad_identifier :: "string \<Rightarrow> string \<Rightarrow> config_checks" where
  "bad_identifier v code = [(\<not> identifier_pattern v, Metadata_error code)]"

definition bad_uuid :: "string \<Rightarrow> string \<Rightarrow> config_checks" where
  "bad_uuid v code = [(\<not> uuid_pattern v, Metadata_error code)]"

definition bad_fingerprint :: "string \<Rightarrow> string \<Rightarrow> config_checks" where
  "bad_fingerprint v code = [(\<not> fingerprint_pattern v, Metadata_error code)]"

definition bad_keys :: "string list \<Rightarrow> string list \<Rightarrow> string \<Rightarrow> config_checks" where
  "bad_keys keys allowed code =
     [(list_ex (\<lambda>k. k \<notin> set allowed \<or> k \<in> set forbidden_metadata_keys) keys, Metadata_error code)]"

definition bad_text :: "string \<Rightarrow> string \<Rightarrow> nat \<Rightarrow> config_checks" where
  "bad_text v code longest =
     [(length v < 1 \<or> length v > longest \<or> list_ex control_char v, Metadata_error code)]"

definition bad_value_free_text :: "string \<Rightarrow> string \<Rightarrow> nat \<Rightarrow> config_checks" where
  "bad_value_free_text v code longest =
     bad_text v code longest @ [(sensitive v, Metadata_error ''CONFIG_METADATA_SENSITIVE_TEXT'')]"

definition when_some :: "'a option \<Rightarrow> ('a \<Rightarrow> config_checks) \<Rightarrow> config_checks" where
  "when_some x f = (case x of None \<Rightarrow> [] | Some v \<Rightarrow> f v)"

text \<open>\<open>if (value)\<close> of a text: absent and empty are the same.\<close>

definition when_truthy :: "string option \<Rightarrow> (string \<Rightarrow> config_checks) \<Rightarrow> config_checks" where
  "when_truthy x f = (case x of None \<Rightarrow> [] | Some v \<Rightarrow> if v = [] then [] else f v)"

section \<open>Impact plans, changes and items\<close>

record impact_counts =
  ic_keys :: "string list"
  ic_items :: int
  ic_sets :: int
  ic_deletes :: int
  ic_sources :: int

record impact_plan =
  ip_keys :: "string list"
  ip_application :: string
  ip_sources :: "string list"
  ip_actions :: "string list"
  ip_checks :: "string list"
  ip_strategies :: "string list"
  ip_counts :: impact_counts
  ip_warnings :: "string list"
  ip_effect :: string

definition impact_plan_checks :: "impact_plan \<Rightarrow> config_checks" where
  "impact_plan_checks p =
     bad_keys (ip_keys p) [''applicationId'', ''sourceIds'', ''actionIds'', ''checkIds'', ''strategies'',
       ''counts'', ''warnings'', ''expectedEffect''] ''CONFIG_IMPACT_METADATA_INVALID'' @
     bad_identifier (ip_application p) ''CONFIG_IMPACT_APPLICATION_INVALID'' @
     concat (map (\<lambda>i. bad_identifier i ''CONFIG_IMPACT_ID_INVALID'')
       (ip_sources p @ ip_actions p @ ip_checks p)) @
     map (\<lambda>s. (s \<notin> set strategies, Metadata_error ''CONFIG_IMPACT_STRATEGY_INVALID'')) (ip_strategies p) @
     [(ip_effect p \<notin> set strategies, Metadata_error ''CONFIG_IMPACT_EFFECT_INVALID'')] @
     bad_keys (ic_keys (ip_counts p)) [''items'', ''sets'', ''deletes'', ''sources'']
       ''CONFIG_IMPACT_COUNTS_INVALID'' @
     map (\<lambda>n. (\<not> is_safe_integer n \<or> n < 0 \<or> n > 10000, Metadata_error ''CONFIG_IMPACT_COUNT_INVALID''))
       [ic_items (ip_counts p), ic_sets (ip_counts p), ic_deletes (ip_counts p), ic_sources (ip_counts p)] @
     [(ic_sets (ip_counts p) + ic_deletes (ip_counts p) \<noteq> ic_items (ip_counts p),
       Metadata_error ''CONFIG_IMPACT_COUNT_INCONSISTENT'')] @
     concat (map (\<lambda>w. bad_text w ''CONFIG_IMPACT_WARNING_INVALID'' 500 @
       [(sensitive w, Metadata_error ''CONFIG_IMPACT_SENSITIVE_TEXT'')]) (ip_warnings p))"

record change_input =
  ci_keys :: "string list"
  ci_id :: string
  ci_supersedes :: "string option"
  ci_actor :: string
  ci_session :: string
  ci_application :: string
  ci_reason :: string
  ci_digest :: "string option"
  ci_catalog :: string
  ci_manifest :: string
  ci_key_version :: string
  ci_plan :: impact_plan
  ci_envelope :: "string option"
  ci_expires :: "millis option"

definition create_input_checks :: "change_input \<Rightarrow> config_checks" where
  "create_input_checks i =
     bad_keys (ci_keys i) [''id'', ''supersedesChangeId'', ''actorUserId'', ''actorSessionId'',
       ''applicationId'', ''reason'', ''changeDigest'', ''catalogVersion'', ''manifestVersion'',
       ''keyVersion'', ''impactPlan'', ''agentEnvelopeId'', ''expiresAt''] ''CONFIG_CHANGE_METADATA_INVALID'' @
     bad_uuid (ci_id i) ''CONFIG_CHANGE_ID_INVALID'' @
     bad_uuid (ci_actor i) ''CONFIG_ACTOR_INVALID'' @
     bad_uuid (ci_session i) ''CONFIG_SESSION_INVALID'' @
     bad_identifier (ci_application i) ''CONFIG_APPLICATION_INVALID'' @
     when_truthy (ci_supersedes i) (\<lambda>s. bad_uuid s ''CONFIG_SUPERSEDES_ID_INVALID'') @
     bad_value_free_text (js_trim (ci_reason i)) ''CONFIG_REASON_INVALID'' 2000 @
     [(length (js_trim (ci_reason i)) < 3, Metadata_error ''CONFIG_REASON_INVALID'')] @
     bad_text (ci_catalog i) ''CONFIG_CATALOG_VERSION_INVALID'' 128 @
     bad_text (ci_manifest i) ''CONFIG_MANIFEST_VERSION_INVALID'' 128 @
     bad_text (ci_key_version i) ''CONFIG_KEY_VERSION_INVALID'' 128 @
     when_some (ci_digest i) (\<lambda>d. bad_fingerprint d ''CONFIG_DIGEST_INVALID'') @
     when_some (ci_envelope i) (\<lambda>e. bad_identifier e ''CONFIG_ENVELOPE_ID_INVALID'') @
     [(ci_expires i = None, Metadata_error ''CONFIG_EXPIRY_INVALID'')] @
     impact_plan_checks (ci_plan i) @
     [(ip_application (ci_plan i) \<noteq> ci_application i, Metadata_error ''CONFIG_IMPACT_APPLICATION_MISMATCH'')]"

record change_item =
  it_keys :: "string list"
  it_catalog :: string
  it_source :: string
  it_operation :: string
  it_requirement :: string
  it_strategy :: string
  it_old :: "string option"
  it_new :: "string option"
  it_observed :: "string option"

definition item_checks :: "change_item \<Rightarrow> config_checks" where
  "item_checks i =
     bad_keys (it_keys i) [''catalogId'', ''sourceId'', ''operation'', ''requirement'', ''strategy'',
       ''oldValueFingerprint'', ''newValueFingerprint'', ''observedSourceFingerprint'']
       ''CONFIG_ITEM_METADATA_INVALID'' @
     bad_identifier (it_catalog i) ''CONFIG_CATALOG_ID_INVALID'' @
     bad_identifier (it_source i) ''CONFIG_SOURCE_ID_INVALID'' @
     [(it_operation i \<noteq> ''set'' \<and> it_operation i \<noteq> ''delete'', Metadata_error ''CONFIG_OPERATION_INVALID''),
      (it_requirement i \<noteq> ''required'' \<and> it_requirement i \<noteq> ''optional'',
       Metadata_error ''CONFIG_REQUIREMENT_INVALID''),
      (it_strategy i \<notin> set strategies, Metadata_error ''CONFIG_STRATEGY_INVALID'')] @
     when_some (it_old i) (\<lambda>f. bad_fingerprint f ''CONFIG_FINGERPRINT_INVALID'') @
     (case it_observed i of
        None \<Rightarrow> [(True, Metadata_error ''CONFIG_SOURCE_FINGERPRINT_INVALID'')]
      | Some f \<Rightarrow> bad_fingerprint f ''CONFIG_SOURCE_FINGERPRINT_INVALID'') @
     (if it_operation i = ''set''
      then (case it_new i of
              None \<Rightarrow> [(True, Metadata_error ''CONFIG_NEW_FINGERPRINT_REQUIRED'')]
            | Some f \<Rightarrow> bad_fingerprint f ''CONFIG_FINGERPRINT_INVALID'')
      else [(it_requirement i \<noteq> ''optional'', Metadata_error ''CONFIG_REQUIRED_DELETE''),
            (it_new i \<noteq> None, Metadata_error ''CONFIG_DELETE_FINGERPRINT_FORBIDDEN'')])"

section \<open>What the checks establish\<close>

lemma run_checks_append:
  "run_checks (as @ bs) = (case run_checks as of Inl e \<Rightarrow> Inl e | Inr _ \<Rightarrow> run_checks bs)"
  by (induction as) (auto simp: run_checks_def)

text \<open>A set item has a new value and a delete item none, as the table requires.\<close>

lemma item_checks_shape:
  assumes "run_checks (item_checks i) = Inr ()"
  shows "it_operation i \<in> {''set'', ''delete''} \<and> it_requirement i \<in> {''required'', ''optional''} \<and>
    it_observed i \<noteq> None \<and> (it_operation i = ''set'' \<longleftrightarrow> it_new i \<noteq> None) \<and>
    (it_operation i = ''delete'' \<longrightarrow> it_requirement i = ''optional'')"
  using assms by (auto simp: run_checks_ok item_checks_def split: if_splits option.splits)

lemma impact_plan_counts:
  assumes "run_checks (impact_plan_checks p) = Inr ()"
  shows "ic_items (ip_counts p) = ic_sets (ip_counts p) + ic_deletes (ip_counts p) \<and>
    0 \<le> ic_sets (ip_counts p) \<and> 0 \<le> ic_deletes (ip_counts p) \<and> ic_items (ip_counts p) \<le> 10000"
  using assms by (auto simp: run_checks_ok impact_plan_checks_def)

end
