(* ===== verification/ConfigRepository.thy ===== *)
theory ConfigRepository
  imports ConfigChecks
begin

text \<open>
  The repository of configuration changes in PostgreSQL
  (apps/api/src/modules/variables/postgresConfigChangeRepository.ts, the class) over the tables of
  packages/db/migrations/0017 and 0018.

  The tables are lists of rows in one record. A transaction is one step, rolled back when it throws;
  a method of several transactions is the composition of its steps, which others may interleave.
  Parameters (\<open>config_env\<close>): whether an actor and a session exist in their tables, and whether an
  incident is resolved. Timestamps that nothing reads (created_at, updated_at, occurred_at) and the
  random keys of runs and items are left out, with the reference of a block to its failed run.
  Identifiers are in the form PostgreSQL answers them (a uuid in lower case), so that equality of
  texts is equality of the column. Of several rows a query with LIMIT 1 could answer, the model
  takes the first.
\<close>

section \<open>Tables\<close>

record change_row =
  cc_id :: string
  cc_supersedes :: "string option"
  cc_actor :: string
  cc_session :: string
  cc_application :: string
  cc_state :: change_state
  cc_reason :: string
  cc_digest :: "string option"
  cc_catalog :: string
  cc_manifest :: string
  cc_key_version :: string
  cc_plan :: impact_plan
  cc_envelope :: "string option"
  cc_expires :: millis
  cc_version :: int

record run_row =
  rr_change :: string
  rr_run :: string
  rr_transition :: string
  rr_event :: string
  rr_sequence :: int
  rr_from :: change_state
  rr_state :: change_state
  rr_actor :: string
  rr_session :: string
  rr_action :: "string option"
  rr_check :: "string option"
  rr_code :: "string option"
  rr_summary :: "string option"
  rr_snapshot :: "string option"
  rr_rollback :: "string option"

record block_row =
  bl_application :: string
  bl_failed_run :: string
  bl_failed_change :: string
  bl_reason :: string
  bl_actor :: string
  bl_cleared :: "(string \<times> string) option"

record config_db =
  cd_changes :: "change_row list"
  cd_items :: "(string \<times> change_item) list"
  cd_runs :: "run_row list"
  cd_blocks :: "block_row list"

record config_env =
  cv_actor_exists :: "string \<Rightarrow> string \<Rightarrow> bool"
  cv_resolved :: "string \<Rightarrow> bool"

type_synonym 'a config_prog = "config_db \<Rightarrow> (config_error + 'a) \<times> config_db"

text \<open>Checks, then the body.\<close>

definition checked :: "config_checks \<Rightarrow> 'a config_prog \<Rightarrow> 'a config_prog" where
  "checked cs m db = (case run_checks cs of Inl e \<Rightarrow> (Inl e, db) | Inr _ \<Rightarrow> m db)"

text \<open>
  The constraints of the tables that an update of a change can violate: the unique index of active applies
  (\<open>ops_config_changes_one_active_apply_idx\<close> of packages/db/migrations/0017_ops_config_changes.sql) and the check of
  the column application_id.
\<close>

definition active_states :: "change_state list" where
  "active_states = [APPLYING, SNAPSHOTTED, WRITTEN, ACTION_RUNNING, HEALTH_CHECKING, ROLLING_BACK]"

definition one_active :: "change_row list \<Rightarrow> bool" where
  "one_active cs \<longleftrightarrow> distinct (map cc_application (filter (\<lambda>c. cc_state c \<in> set active_states) cs))"

definition application_column :: "string \<Rightarrow> bool" where
  "application_column s \<longleftrightarrow>
     s \<noteq> [] \<and> length s \<le> 128 \<and> is_alnum (hd s) \<and> list_all (\<lambda>c. is_alnum c \<or> c \<in> set ''._-'') (tl s)"

definition map_change_checks :: "change_row \<Rightarrow> config_checks" where
  "map_change_checks c =
     impact_plan_checks (cc_plan c) @
     [(\<not> is_safe_integer (cc_version c) \<or> cc_version c < 0, Metadata_error ''CONFIG_VERSION_INVALID'')] @
     when_truthy (cc_digest c) (\<lambda>d. bad_fingerprint d ''CONFIG_DIGEST_INVALID'')"

definition map_change :: "change_row \<Rightarrow> change_row config_prog" where
  "map_change c = checked (map_change_checks c) (\<lambda>db. (Inr c, db))"

definition find_change :: "string \<Rightarrow> config_db \<Rightarrow> change_row option" where
  "find_change i db = find (\<lambda>c. cc_id c = i) (cd_changes db)"

section \<open>Creating and reading\<close>

definition new_change :: "change_input \<Rightarrow> millis \<Rightarrow> change_row" where
  "new_change i expires =
     \<lparr> cc_id = ci_id i, cc_supersedes = ci_supersedes i, cc_actor = ci_actor i, cc_session = ci_session i,
       cc_application = ci_application i, cc_state = DRAFT, cc_reason = js_trim (ci_reason i),
       cc_digest = ci_digest i, cc_catalog = ci_catalog i, cc_manifest = ci_manifest i,
       cc_key_version = ci_key_version i, cc_plan = ci_plan i, cc_envelope = ci_envelope i,
       cc_expires = expires, cc_version = 0 \<rparr>"

definition create_change :: "config_env \<Rightarrow> change_input \<Rightarrow> change_row config_prog" where
  "create_change env i =
     checked (create_input_checks i) (in_transaction (\<lambda>db.
       let superseded = (case ci_supersedes i of
                           None \<Rightarrow> None
                         | Some s \<Rightarrow> if s = [] then None else Some (find_change s db));
           insert =
             (if ci_id i \<in> cc_id ` set (cd_changes db) \<or> \<not> cv_actor_exists env (ci_actor i) (ci_session i) \<or>
                 \<not> application_column (ci_application i) \<or>
                 (case ci_supersedes i of None \<Rightarrow> False | Some s \<Rightarrow> find_change s db = None)
              then (Inl Constraint_error, db)
              else let c = new_change i (the (ci_expires i))
                   in map_change c (db\<lparr>cd_changes := cd_changes db @ [c]\<rparr>))
       in case superseded of
            None \<Rightarrow> insert
          | Some None \<Rightarrow> (Inl (Metadata_error ''CONFIG_SUPERSEDES_APPLICATION_MISMATCH''), db)
          | Some (Some s) \<Rightarrow>
              if cc_application s \<noteq> ci_application i
              then (Inl (Metadata_error ''CONFIG_SUPERSEDES_APPLICATION_MISMATCH''), db)
              else if cc_state s \<notin> {INVALID, READY, SAVED}
              then (Inl (Metadata_error ''CONFIG_SUPERSEDES_STATE_INVALID''), db)
              else insert))"

definition get_change :: "string \<Rightarrow> change_row option config_prog" where
  "get_change i =
     checked (bad_uuid i ''CONFIG_CHANGE_ID_INVALID'') (\<lambda>db.
       case find_change i db of
         None \<Rightarrow> (Inr None, db)
       | Some c \<Rightarrow> (case map_change c db of (Inl e, d) \<Rightarrow> (Inl e, d) | (Inr x, d) \<Rightarrow> (Inr (Some x), d)))"

section \<open>Items and validation\<close>

definition replace_items :: "string \<Rightarrow> change_item list \<Rightarrow> unit config_prog" where
  "replace_items i items =
     checked (bad_uuid i ''CONFIG_CHANGE_ID_INVALID'' @
       [(length items > 10000, Metadata_error ''CONFIG_ITEM_COUNT_INVALID'')] @ concat (map item_checks items))
       (in_transaction (\<lambda>db.
          if items \<noteq> [] \<and> find_change i db = None \<or> \<not> distinct (map it_catalog items)
          then (Inl Constraint_error, db)
          else (Inr (), db\<lparr>cd_items := filter (\<lambda>(c, _). c \<noteq> i) (cd_items db) @ map (Pair i) items\<rparr>)))"

text \<open>\<open>UPDATE ops_config_changes ... WHERE\<close>: the number of updated rows and the table.\<close>

definition update_changes ::
  "(change_row \<Rightarrow> bool) \<Rightarrow> (change_row \<Rightarrow> change_row) \<Rightarrow> config_db \<Rightarrow> nat \<times> config_db" where
  "update_changes p f db =
     (length (filter p (cd_changes db)),
      db\<lparr>cd_changes := map (\<lambda>c. if p c then f c else c) (cd_changes db)\<rparr>)"

text \<open>The three steps of \<open>updateValidation\<close>: reading the change, replacing the items, the update.\<close>

definition begin_validation ::
  "string \<Rightarrow> string \<Rightarrow> impact_plan \<Rightarrow> change_item list \<Rightarrow> unit config_prog" where
  "begin_validation i digest plan items =
     checked (bad_fingerprint digest ''CONFIG_DIGEST_INVALID'' @ impact_plan_checks plan @
              concat (map item_checks items))
       (\<lambda>db. case get_change i db of
           (Inl e, d) \<Rightarrow> (Inl e, d)
         | (Inr None, d) \<Rightarrow> (Inl (Config_error ''CONFIG_CHANGE_NOT_FOUND''), d)
         | (Inr (Some c), d) \<Rightarrow>
             if cc_state c \<notin> {DRAFT, INVALID} then (Inl (Config_error ''CONFIG_CHANGE_INVALID_STATE''), d)
             else (Inr (), d))"

definition finish_validation ::
  "string \<Rightarrow> string \<Rightarrow> impact_plan \<Rightarrow> change_state \<Rightarrow> unit config_prog" where
  "finish_validation i digest plan state =
     in_transaction (\<lambda>db.
       (Inr (), snd (update_changes (\<lambda>c. cc_id c = i \<and> cc_state c \<in> {DRAFT, INVALID})
          (\<lambda>c. c\<lparr>cc_state := state, cc_digest := Some digest, cc_plan := plan, cc_version := cc_version c + 1\<rparr>)
          db)))"

definition update_validation ::
  "string \<Rightarrow> string \<Rightarrow> impact_plan \<Rightarrow> change_item list \<Rightarrow> change_state \<Rightarrow> unit config_prog" where
  "update_validation i digest plan items state db =
     (case begin_validation i digest plan items db of
        (Inl e, d) \<Rightarrow> (Inl e, d)
      | (Inr _, d) \<Rightarrow>
          (case replace_items i items d of
             (Inl e, d') \<Rightarrow> (Inl e, d')
           | (Inr _, d') \<Rightarrow> finish_validation i digest plan state d'))"

definition mark_saved :: "string \<Rightarrow> string \<Rightarrow> string option \<Rightarrow> unit config_prog" where
  "mark_saved i digest envelope =
     checked (bad_fingerprint digest ''CONFIG_DIGEST_INVALID'') (in_transaction (\<lambda>db.
       case update_changes (\<lambda>c. cc_id c = i \<and> cc_state c = READY \<and> cc_digest c = Some digest)
              (\<lambda>c. c\<lparr>cc_state := SAVED, cc_digest := Some digest, cc_envelope := envelope,
                     cc_version := cc_version c + 1\<rparr>) db of
         (n, d) \<Rightarrow> if n = 0 then (Inl (Config_error ''CONFIG_CHANGE_INVALID_STATE''), d) else (Inr (), d)))"

text \<open>\<open>cancel\<close>: a read, then a transaction guarded by the version read.\<close>

definition begin_cancel :: "string \<Rightarrow> string \<Rightarrow> string \<Rightarrow> change_row config_prog" where
  "begin_cancel i actor session db =
     (case get_change i db of
        (Inl e, d) \<Rightarrow> (Inl e, d)
      | (Inr None, d) \<Rightarrow> (Inl (Config_error ''CONFIG_CHANGE_NOT_FOUND''), d)
      | (Inr (Some c), d) \<Rightarrow>
          if cc_actor c \<noteq> actor \<or> cc_session c \<noteq> session then (Inl (Config_error ''CONFIG_CHANGE_NOT_FOUND''), d)
          else if cc_state c \<notin> {DRAFT, READY, SAVED} then (Inl (Config_error ''CONFIG_CHANGE_INVALID_STATE''), d)
          else (Inr c, d))"

definition finish_cancel :: "string \<Rightarrow> change_row \<Rightarrow> unit config_prog" where
  "finish_cancel i current =
     in_transaction (\<lambda>db.
       case update_changes
              (\<lambda>c. cc_id c = i \<and> cc_state c = cc_state current \<and> cc_version c = cc_version current)
              (\<lambda>c. c\<lparr>cc_state := CANCELLED, cc_version := cc_version c + 1\<rparr>) db of
         (n, d) \<Rightarrow> if n = 0 then (Inl (Config_error ''CONFIG_CHANGE_INVALID_STATE''), d) else (Inr (), d))"

definition cancel_change :: "string \<Rightarrow> string \<Rightarrow> string \<Rightarrow> unit config_prog" where
  "cancel_change i actor session db =
     (case begin_cancel i actor session db of
        (Inl e, d) \<Rightarrow> (Inl e, d)
      | (Inr c, d) \<Rightarrow> finish_cancel i c d)"

section \<open>Events\<close>

record event_record =
  er_event :: string
  er_sequence :: int
  er_state :: change_state
  er_reason :: string
  er_action :: "string option"
  er_check :: "string option"

definition runs_of :: "string \<Rightarrow> config_db \<Rightarrow> run_row list" where
  "runs_of i db = filter (\<lambda>r. rr_change r = i) (cd_runs db)"

definition sequence_after :: "string option \<Rightarrow> run_row list \<Rightarrow> int" where
  "sequence_after e rs =
     (case e of
        None \<Rightarrow> 0
      | Some i \<Rightarrow> (case find (\<lambda>r. rr_event r = i) rs of None \<Rightarrow> 0 | Some r \<Rightarrow> rr_sequence r))"

definition list_change_events :: "string \<Rightarrow> string option \<Rightarrow> event_record list config_prog" where
  "list_change_events i after =
     checked (bad_uuid i ''CONFIG_CHANGE_ID_INVALID'' @
         when_some after (\<lambda>e. [(\<not> uuid_pattern e \<and> \<not> event_code e, Metadata_error ''CONFIG_EVENT_ID_INVALID'')]))
       (\<lambda>db.
          let from = (case after of None \<Rightarrow> None | Some e \<Rightarrow> if uuid_pattern e then Some e else None);
              rows = filter (\<lambda>r. from = None \<or> sequence_after from (runs_of i db) < rr_sequence r) (runs_of i db)
          in (Inr (map (\<lambda>r. \<lparr> er_event = rr_event r, er_sequence = rr_sequence r, er_state = rr_state r,
                  er_reason = to_lower (case rr_code r of None \<Rightarrow> ''STATE_TRANSITION'' | Some c \<Rightarrow> c),
                  er_action = rr_action r, er_check = rr_check r \<rparr>)
                (sort_key rr_sequence rows)), db))"

section \<open>Transitions\<close>

record transition_input =
  ti_keys :: "string list"
  ti_change :: string
  ti_application :: string
  ti_transition :: string
  ti_event :: string
  ti_run :: string
  ti_actor :: string
  ti_session :: string
  ti_expected :: int
  ti_to :: change_state
  ti_action :: "string option"
  ti_check :: "string option"
  ti_code :: "string option"
  ti_summary :: "string option"
  ti_snapshot :: "string option"
  ti_rollback :: "string option"

record transition_result =
  tr_change :: string
  tr_application :: string
  tr_state :: change_state
  tr_version :: int
  tr_sequence :: int
  tr_transition :: string
  tr_event :: string
  tr_idempotent :: bool

definition transition_checks :: "transition_input \<Rightarrow> config_checks" where
  "transition_checks i =
     bad_uuid (ti_change i) ''CONFIG_CHANGE_ID_INVALID'' @
     bad_identifier (ti_application i) ''CONFIG_APPLICATION_INVALID'' @
     [(\<not> uuid_pattern (ti_transition i), Machine_error CHANGE_TRANSITION_ID_INVALID),
      (\<not> uuid_pattern (ti_event i), Machine_error CHANGE_TRANSITION_ID_INVALID)] @
     bad_uuid (ti_run i) ''CONFIG_RUN_ID_INVALID'' @
     bad_uuid (ti_actor i) ''CONFIG_ACTOR_INVALID'' @
     bad_uuid (ti_session i) ''CONFIG_SESSION_INVALID'' @
     [(\<not> is_safe_integer (ti_expected i) \<or> ti_expected i < 0, Metadata_error ''CONFIG_VERSION_INVALID'')] @
     bad_keys (ti_keys i) [''changeId'', ''applicationId'', ''transitionId'', ''eventId'', ''runId'',
       ''actorUserId'', ''actorSessionId'', ''expectedVersion'', ''to'', ''actionId'', ''checkId'',
       ''resultCode'', ''resultSummary'', ''snapshotReference'', ''rollbackResult'']
       ''CONFIG_TRANSITION_METADATA_INVALID'' @
     [(ti_to i \<notin> set change_states, Metadata_error ''CONFIG_STATE_INVALID'')] @
     when_truthy (ti_action i) (\<lambda>a. bad_identifier a ''CONFIG_ACTION_ID_INVALID'') @
     when_truthy (ti_check i) (\<lambda>a. bad_identifier a ''CONFIG_CHECK_ID_INVALID'') @
     when_truthy (ti_code i) (\<lambda>c. [(\<not> upper_code 1 c, Metadata_error ''CONFIG_RESULT_CODE_INVALID'')]) @
     when_truthy (ti_summary i) (\<lambda>s. bad_value_free_text s ''CONFIG_RESULT_SUMMARY_INVALID'' 500) @
     when_truthy (ti_snapshot i) (\<lambda>s. bad_identifier s ''CONFIG_SNAPSHOT_REFERENCE_INVALID'')"

definition recorded_run :: "transition_input \<Rightarrow> config_db \<Rightarrow> run_row option" where
  "recorded_run i db =
     find (\<lambda>r. rr_change r = ti_change i \<and> (rr_transition r = ti_transition i \<or> rr_event r = ti_event i)) (cd_runs db)"

definition replayed :: "transition_input \<Rightarrow> run_row \<Rightarrow> config_error + transition_result" where
  "replayed i r =
     (if rr_state r \<noteq> ti_to i \<or>
         (rr_transition r = ti_transition i \<and>
          (rr_event r \<noteq> ti_event i \<or> rr_run r \<noteq> ti_run i \<or> rr_actor r \<noteq> ti_actor i \<or> rr_session r \<noteq> ti_session i))
      then Inl (Machine_error CHANGE_IDEMPOTENCY_CONFLICT)
      else Inr \<lparr> tr_change = ti_change i, tr_application = ti_application i, tr_state = rr_state r,
                 tr_version = rr_sequence r, tr_sequence = rr_sequence r, tr_transition = rr_transition r,
                 tr_event = rr_event r, tr_idempotent = True \<rparr>)"

definition blocked :: "string \<Rightarrow> config_db \<Rightarrow> bool" where
  "blocked a db \<longleftrightarrow> (\<exists>b \<in> set (cd_blocks db). bl_application b = a \<and> bl_cleared b = None)"

definition snapshot_of :: "change_row \<Rightarrow> change_snapshot" where
  "snapshot_of c =
     \<lparr> change_id = cc_id c, application_id = cc_application c, ch_state = cc_state c,
       ch_version = cc_version c, ch_events = [], supersedes_change_id = None, actor_user_id = None \<rparr>"

definition request_of :: "transition_input \<Rightarrow> change_request" where
  "request_of i =
     \<lparr> req_to = ti_to i, expected_version = ti_expected i, req_transition_id = ti_transition i,
       req_event_id = ti_event i, req_actor = ti_actor i, req_occurred_at = [] \<rparr>"

definition run_of :: "transition_input \<Rightarrow> change_row \<Rightarrow> change_snapshot \<Rightarrow> run_row" where
  "run_of i c s =
     \<lparr> rr_change = ti_change i, rr_run = ti_run i, rr_transition = ti_transition i, rr_event = ti_event i,
       rr_sequence = ch_version s, rr_from = cc_state c, rr_state = ch_state s, rr_actor = ti_actor i,
       rr_session = ti_session i, rr_action = ti_action i, rr_check = ti_check i, rr_code = ti_code i,
       rr_summary = ti_summary i, rr_snapshot = ti_snapshot i, rr_rollback = ti_rollback i \<rparr>"

definition insert_run :: "config_env \<Rightarrow> run_row \<Rightarrow> config_db \<Rightarrow> config_db option" where
  "insert_run env r db =
     (if \<not> cv_actor_exists env (rr_actor r) (rr_session r) \<or>
         (\<exists>q \<in> set (cd_runs db). rr_change q = rr_change r \<and>
            (rr_transition q = rr_transition r \<or> rr_event q = rr_event r \<or> rr_sequence q = rr_sequence r))
      then None else Some (db\<lparr>cd_runs := cd_runs db @ [r]\<rparr>))"

text \<open>The time of the transition is the clock's, so it parses.\<close>

definition transition_body :: "config_env \<Rightarrow> transition_input \<Rightarrow> transition_result config_prog" where
  "transition_body env i db =
     (case find (\<lambda>c. cc_id c = ti_change i \<and> cc_application c = ti_application i) (cd_changes db) of
        None \<Rightarrow> (Inl (Config_error ''CONFIG_CHANGE_NOT_FOUND''), db)
      | Some c \<Rightarrow>
          (case recorded_run i db of
             Some r \<Rightarrow> (replayed i r, db)
           | None \<Rightarrow>
               if ti_to i = APPLYING \<and> blocked (ti_application i) db
               then (Inl (Config_error ''CONFIG_APPLICATION_BLOCKED''), db)
               else case run_checks (map_change_checks c) of
                 Inl e \<Rightarrow> (Inl e, db)
               | Inr _ \<Rightarrow>
                   (case transition_change (\<lambda>_. True) (snapshot_of c) (request_of i) of
                      Inl e \<Rightarrow> (Inl (Machine_error e), db)
                    | Inr s \<Rightarrow>
                        (case update_changes
                               (\<lambda>x. cc_id x = ti_change i \<and> cc_application x = ti_application i \<and>
                                    cc_state x = cc_state c \<and> cc_version x = cc_version c)
                               (\<lambda>x. x\<lparr>cc_state := ch_state s, cc_version := ch_version s\<rparr>) db of
                           (n, d) \<Rightarrow>
                             if \<not> one_active (cd_changes d) then (Inl Constraint_error, db)
                             else if n = 0 then (Inl (Machine_error CHANGE_VERSION_CONFLICT), d)
                             else (case insert_run env (run_of i c s) d of
                                     None \<Rightarrow> (Inl Constraint_error, d)
                                   | Some d' \<Rightarrow>
                                       (Inr \<lparr> tr_change = ti_change i, tr_application = ti_application i,
                                              tr_state = ch_state s, tr_version = ch_version s,
                                              tr_sequence = ch_version s, tr_transition = ti_transition i,
                                              tr_event = ti_event i, tr_idempotent = False \<rparr>, d'))))))"

definition transition_row :: "config_env \<Rightarrow> transition_input \<Rightarrow> transition_result config_prog" where
  "transition_row env i = checked (transition_checks i) (in_transaction (transition_body env i))"

section \<open>Blocks\<close>

definition find_active_block :: "string \<Rightarrow> block_row option config_prog" where
  "find_active_block a =
     checked (bad_identifier a ''CONFIG_APPLICATION_INVALID'')
       (\<lambda>db. (Inr (find (\<lambda>b. bl_application b = a \<and> bl_cleared b = None) (cd_blocks db)), db))"

text \<open>\<open>ON CONFLICT ... DO NOTHING\<close> on the unique index of the blocks that are not cleared.\<close>

definition block_application_row ::
  "string \<Rightarrow> string \<Rightarrow> string \<Rightarrow> string \<Rightarrow> string \<Rightarrow> bool config_prog" where
  "block_application_row a failed_run failed_change reason actor =
     checked (bad_identifier a ''CONFIG_APPLICATION_INVALID'' @ bad_uuid failed_run ''CONFIG_RUN_ID_INVALID'' @
         bad_uuid failed_change ''CONFIG_CHANGE_ID_INVALID'' @ bad_uuid actor ''CONFIG_ACTOR_INVALID'' @
         [(\<not> upper_code 3 reason, Metadata_error ''CONFIG_BLOCK_REASON_INVALID'')])
       (\<lambda>db. if blocked a db then (Inr False, db)
              else (Inr True, db\<lparr>cd_blocks := cd_blocks db @
                [\<lparr> bl_application = a, bl_failed_run = failed_run, bl_failed_change = failed_change,
                   bl_reason = reason, bl_actor = actor, bl_cleared = None \<rparr>]\<rparr>))"

definition clear_block_row ::
  "config_env \<Rightarrow> string \<Rightarrow> string \<Rightarrow> string \<Rightarrow> string \<Rightarrow> bool config_prog" where
  "clear_block_row env a actor remediation incident =
     checked (bad_identifier a ''CONFIG_APPLICATION_INVALID'' @ bad_uuid actor ''CONFIG_ACTOR_INVALID'' @
         bad_identifier incident ''CONFIG_INCIDENT_INVALID'' @
         bad_value_free_text (js_trim remediation) ''CONFIG_REMEDIATION_INVALID'' 2000 @
         [(length (js_trim remediation) < 3, Metadata_error ''CONFIG_REMEDIATION_INVALID'')])
       (\<lambda>db. let p = (\<lambda>b. bl_application b = a \<and> bl_cleared b = None \<and> cv_resolved env incident)
              in (Inr (length (filter p (cd_blocks db)) = 1),
                  db\<lparr>cd_blocks := map (\<lambda>b. if p b then b\<lparr>bl_cleared := Some (actor, js_trim remediation)\<rparr> else b)
                       (cd_blocks db)\<rparr>))"

end
