(* ===== verification/ConfigRuns.thy ===== *)
theory ConfigRuns
  imports ConfigRepository
begin

text \<open>
  Histories of the repository of configuration changes: its transactions as steps, in any order and
  interleaving, and what the log of runs says of a change.
\<close>

section \<open>Steps\<close>

datatype config_op =
    Created | Items_replaced | Validated | Saved_change | Cancelled_change | Moved transition_input | Blocks_changed

inductive config_step :: "config_env \<Rightarrow> config_op \<Rightarrow> config_db \<Rightarrow> config_db \<Rightarrow> bool" for env where
  creating: "create_change env i db = (r, db') \<Longrightarrow> config_step env Created db db'"
| replacing: "replace_items i items db = (r, db') \<Longrightarrow> config_step env Items_replaced db db'"
| validating: "finish_validation i digest plan state db = (r, db') \<Longrightarrow> state \<in> {READY, INVALID} \<Longrightarrow>
    config_step env Validated db db'"
| saving: "mark_saved i digest envelope db = (r, db') \<Longrightarrow> config_step env Saved_change db db'"
| cancelling: "finish_cancel i c db = (r, db') \<Longrightarrow> cc_state c \<in> {DRAFT, READY, SAVED} \<Longrightarrow>
    config_step env Cancelled_change db db'"
| moving: "transition_row env i db = (r, db') \<Longrightarrow> config_step env (Moved i) db db'"
| blocking: "block_application_row a run change reason actor db = (r, db') \<Longrightarrow> config_step env Blocks_changed db db'"
| clearing: "clear_block_row env a actor remediation incident db = (r, db') \<Longrightarrow>
    config_step env Blocks_changed db db'"

definition empty_config_db :: config_db where
  "empty_config_db = \<lparr> cd_changes = [], cd_items = [], cd_runs = [], cd_blocks = [] \<rparr>"

section \<open>A transition in detail\<close>

lemma checked_cases:
  assumes "checked cs m db = (r, db')"
  obtains (refused) e where "r = Inl e" "db' = db" | (went) "run_checks cs = Inr ()" "m db = (r, db')"
  using assms by (auto simp: checked_def split: sum.splits)

text \<open>The accepted move of a change \<open>c\<close>, with its new row and the row of the run.\<close>

definition moves :: "config_env \<Rightarrow> transition_input \<Rightarrow> change_row \<Rightarrow> config_db \<Rightarrow> config_db \<Rightarrow> bool" where
  "moves env i c db db' \<longleftrightarrow>
     c \<in> set (cd_changes db) \<and> cc_id c = ti_change i \<and> cc_application c = ti_application i \<and>
     ti_to i \<in> set (legal_transitions (cc_state c)) \<and> ti_expected i = cc_version c \<and> 0 \<le> cc_version c \<and>
     \<not> (ti_to i = APPLYING \<and> blocked (ti_application i) db) \<and>
     (\<exists>r. rr_change r = ti_change i \<and> rr_transition r = ti_transition i \<and> rr_event r = ti_event i \<and>
        rr_sequence r = cc_version c + 1 \<and> rr_from r = cc_state c \<and> rr_state r = ti_to i \<and>
        (\<forall>q \<in> set (cd_runs db). rr_change q = ti_change i \<longrightarrow>
           rr_transition q \<noteq> rr_transition r \<and> rr_event q \<noteq> rr_event r) \<and>
        cd_runs db' = cd_runs db @ [r]) \<and>
     cd_changes db' = map (\<lambda>x. if cc_id x = ti_change i \<and> cc_application x = ti_application i \<and>
                                  cc_state x = cc_state c \<and> cc_version x = cc_version c
                               then x\<lparr>cc_state := ti_to i, cc_version := cc_version c + 1\<rparr> else x)
                          (cd_changes db) \<and>
     one_active (cd_changes db') \<and> cd_items db' = cd_items db \<and> cd_blocks db' = cd_blocks db"

lemma transition_body_ok:
  assumes "transition_body env i db = (Inr x, db')"
  shows "(db' = db \<and> tr_idempotent x) \<or> (\<exists>c. moves env i c db db' \<and> \<not> tr_idempotent x)"
proof -
  from assms obtain c
    where c: "find (\<lambda>c. cc_id c = ti_change i \<and> cc_application c = ti_application i) (cd_changes db) = Some c"
    by (auto simp: transition_body_def split: option.splits)
  then have c': "c \<in> set (cd_changes db)" "cc_id c = ti_change i" "cc_application c = ti_application i"
    by (auto simp: find_Some_iff)
  show ?thesis
  proof (cases "recorded_run i db")
    case (Some r)
    with assms c have "(replayed i r, db) = (Inr x, db')" by (simp add: transition_body_def)
    then show ?thesis by (auto simp: replayed_def split: if_splits)
  next
    case None
    have nb: "\<not> (ti_to i = APPLYING \<and> blocked (ti_application i) db)"
      using assms c None by (auto simp: transition_body_def)
    have rc: "run_checks (map_change_checks c) = Inr ()"
      using assms c None nb by (auto simp: transition_body_def split: sum.splits if_splits)
    then have v: "0 \<le> cc_version c" by (auto simp: run_checks_ok map_change_checks_def)
    obtain s where s: "transition_change (\<lambda>_. True) (snapshot_of c) (request_of i) = Inr s"
      using assms c None nb rc by (auto simp: transition_body_def split: sum.splits if_splits)
    from s have m: "ch_state s = ti_to i" "ch_version s = cc_version c + 1" "ti_expected i = cc_version c"
        "ti_to i \<in> set (legal_transitions (cc_state c))"
      by (cases rule: transition_change_cases, simp_all add: snapshot_of_def request_of_def)+
    let ?p = "\<lambda>x. cc_id x = ti_change i \<and> cc_application x = ti_application i \<and>
                  cc_state x = cc_state c \<and> cc_version x = cc_version c"
    let ?f = "\<lambda>x. x\<lparr>cc_state := ch_state s, cc_version := ch_version s\<rparr>"
    let ?d = "snd (update_changes ?p ?f db)"
    obtain d' where d': "insert_run env (run_of i c s) ?d = Some d'" "one_active (cd_changes ?d)" "db' = d'"
        "\<not> tr_idempotent x"
      using assms c None nb rc s
      by (auto simp: transition_body_def update_changes_def split: sum.splits if_splits option.splits)
    have "moves env i c db db'"
      using c' m v nb d' None
      by (auto simp: moves_def insert_run_def update_changes_def run_of_def recorded_run_def find_None_iff
          split: if_splits)
    with d' show ?thesis by blast
  qed
qed

lemma transition_row_cases:
  assumes "transition_row env i db = (r, db')"
  obtains (same) "db' = db" | (moved) c x where "moves env i c db db'" "r = Inr x"
  using assms unfolding transition_row_def
proof (cases rule: checked_cases)
  case (refused e)
  from refused(2) show ?thesis by (rule same)
next
  case went
  from went(2) show ?thesis
  proof (cases rule: in_transaction_cases)
    case (rolled_back e d)
    from rolled_back(3) show ?thesis by (rule same)
  next
    case (committed x)
    from transition_body_ok [OF committed(1)] committed(2) show ?thesis using same moved by blast
  qed
qed

section \<open>What every step does to a change\<close>

definition run_phase :: "change_state list" where
  "run_phase = active_states @ [COMPLETED, ROLLED_BACK, ROLLBACK_FAILED]"

lemma run_phase_moves:
  "t \<in> set run_phase \<Longrightarrow> t \<in> set (legal_transitions s) \<Longrightarrow> s \<in> set run_phase \<or> (s = SAVED \<and> t = APPLYING)"
  by (cases s) (auto simp: run_phase_def active_states_def)

definition keys_ok :: "config_db \<Rightarrow> bool" where
  "keys_ok db \<longleftrightarrow>
     distinct (map cc_id (cd_changes db)) \<and> rr_change ` set (cd_runs db) \<subseteq> cc_id ` set (cd_changes db)"

text \<open>A row afterwards is a fresh draft, a row that moved outside the run, or a row that moved by a run.\<close>

definition explains :: "config_db \<Rightarrow> config_db \<Rightarrow> change_row \<Rightarrow> bool" where
  "explains db db' c' \<longleftrightarrow>
     (cc_state c' = DRAFT \<and> cc_version c' = 0 \<and> runs_of (cc_id c') db' = []) \<or>
     (\<exists>c \<in> set (cd_changes db). cc_id c = cc_id c' \<and>
        (runs_of (cc_id c) db' = runs_of (cc_id c) db \<and> cc_version c \<le> cc_version c' \<and>
           (c' = c \<or> cc_state c' \<notin> set run_phase) \<or>
         (\<exists>r. runs_of (cc_id c) db' = runs_of (cc_id c) db @ [r] \<and> rr_sequence r = cc_version c + 1 \<and>
            cc_version c' = cc_version c + 1 \<and> 0 \<le> cc_version c \<and>
            rr_from r = cc_state c \<and> rr_state r = cc_state c' \<and>
            rr_state r \<in> set (legal_transitions (rr_from r)) \<and>
            (\<forall>q \<in> set (runs_of (cc_id c) db). rr_transition q \<noteq> rr_transition r \<and> rr_event q \<noteq> rr_event r))))"

definition step_ok :: "config_db \<Rightarrow> config_db \<Rightarrow> bool" where
  "step_ok db db' \<longleftrightarrow> keys_ok db' \<and> (\<forall>c' \<in> set (cd_changes db'). explains db db' c')"

lemma explains_same:
  "c' \<in> set (cd_changes db) \<Longrightarrow> cd_runs db' = cd_runs db \<Longrightarrow> explains db db' c'"
  by (auto simp: explains_def runs_of_def)

lemma step_ok_same:
  "keys_ok db \<Longrightarrow> cd_changes db' = cd_changes db \<Longrightarrow> cd_runs db' = cd_runs db \<Longrightarrow> step_ok db db'"
  by (auto simp: step_ok_def keys_ok_def intro: explains_same)

lemma map_ids: "(\<And>c. cc_id (f c) = cc_id c) \<Longrightarrow> map cc_id (map (\<lambda>c. if p c then f c else c) cs) = map cc_id cs"
  by simp

lemma step_ok_update:
  assumes "keys_ok db" and "cd_changes db' = map (\<lambda>c. if p c then f c else c) (cd_changes db)"
    and "cd_runs db' = cd_runs db"
    and "\<And>c. cc_id (f c) = cc_id c" and "\<And>c. cc_version c \<le> cc_version (f c)"
    and "\<And>c. cc_state (f c) \<notin> set run_phase"
  shows "step_ok db db'"
proof -
  have ids: "map cc_id (cd_changes db') = map cc_id (cd_changes db)"
    using map_ids [of f p] assms(2,4) by simp
  then have "keys_ok db'" using assms(1,3) unfolding keys_ok_def by (metis set_map)
  moreover have "explains db db' c'" if "c' \<in> set (cd_changes db')" for c'
    using that assms(2-6) by (fastforce simp: explains_def runs_of_def)
  ultimately show ?thesis by (simp add: step_ok_def)
qed

lemma same_id: "keys_ok db \<Longrightarrow> c \<in> set (cd_changes db) \<Longrightarrow> d \<in> set (cd_changes db) \<Longrightarrow> cc_id c = cc_id d \<Longrightarrow> c = d"
  by (auto simp: keys_ok_def distinct_map dest: inj_onD)

lemma step_ok_moves:
  assumes "keys_ok db" and "moves env i c db db'"
  shows "step_ok db db'"
proof -
  from assms(2) obtain r where r: "rr_change r = ti_change i" "rr_sequence r = cc_version c + 1"
      "rr_from r = cc_state c" "rr_state r = ti_to i" "cd_runs db' = cd_runs db @ [r]"
      "\<forall>q \<in> set (cd_runs db). rr_change q = ti_change i \<longrightarrow>
         rr_transition q \<noteq> rr_transition r \<and> rr_event q \<noteq> rr_event r"
    unfolding moves_def by blast
  let ?p = "\<lambda>x. cc_id x = ti_change i \<and> cc_application x = ti_application i \<and>
                cc_state x = cc_state c \<and> cc_version x = cc_version c"
  let ?f = "\<lambda>x. x\<lparr>cc_state := ti_to i, cc_version := cc_version c + 1\<rparr>"
  from assms(2) have m: "c \<in> set (cd_changes db)" "cc_id c = ti_change i" "0 \<le> cc_version c"
      "cc_application c = ti_application i"
      "ti_to i \<in> set (legal_transitions (cc_state c))"
      "cd_changes db' = map (\<lambda>x. if ?p x then ?f x else x) (cd_changes db)"
    by (simp_all add: moves_def)
  have ids: "map cc_id (cd_changes db') = map cc_id (cd_changes db)" using m(6) by simp
  have idset: "cc_id ` set (cd_changes db') = cc_id ` set (cd_changes db)"
    using arg_cong [OF ids, of set] by simp
  have "ti_change i \<in> cc_id ` set (cd_changes db)" using m(1,2) by (metis imageI)
  then have "keys_ok db'"
    using assms(1) r(1,5) ids idset unfolding keys_ok_def by auto
  moreover have "explains db db' c'" if c': "c' \<in> set (cd_changes db')" for c'
  proof -
    from c' m(6) obtain x where x: "x \<in> set (cd_changes db)" "c' = (if ?p x then ?f x else x)" by auto
    show ?thesis
    proof (cases "cc_id x = ti_change i")
      case True
      then have "x = c" using same_id [OF assms(1) x(1) m(1)] m(2) by simp
      with x(2) m(2,4) have "c' = ?f c" by simp
      then show ?thesis
        using m r unfolding explains_def
        by (intro disjI2 bexI [of _ c] conjI exI [of _ r]) (auto simp: runs_of_def)
    next
      case False
      with x r(1,5) show ?thesis by (auto simp: explains_def runs_of_def)
    qed
  qed
  ultimately show ?thesis by (simp add: step_ok_def)
qed

text \<open>The four shapes of a step: nothing for the changes, a fresh draft, an update outside the run, a move.\<close>

inductive step_shape :: "config_env \<Rightarrow> config_db \<Rightarrow> config_db \<Rightarrow> bool" for env db where
  same: "cd_changes db' = cd_changes db \<Longrightarrow> cd_runs db' = cd_runs db \<Longrightarrow> step_shape env db db'"
| fresh: "c = new_change i e \<Longrightarrow> cc_id c \<notin> cc_id ` set (cd_changes db) \<Longrightarrow>
    step_shape env db (db\<lparr>cd_changes := cd_changes db @ [c]\<rparr>)"
| updated: "(\<And>c. cc_id (f c) = cc_id c \<and> cc_application (f c) = cc_application c \<and>
       cc_version c \<le> cc_version (f c) \<and> cc_state (f c) \<notin> set run_phase) \<Longrightarrow>
    step_shape env db (db\<lparr>cd_changes := map (\<lambda>c. if p c then f c else c) (cd_changes db)\<rparr>)"
| moved: "moves env i c db db' \<Longrightarrow> step_shape env db db'"

lemma create_shape:
  assumes "create_change env i db = (r, db')"
  shows "step_shape env db db'"
  using assms unfolding create_change_def
proof (cases rule: checked_cases)
  case went
  from went(2) show ?thesis
  proof (cases rule: in_transaction_cases)
    case (committed x)
    then have "ci_id i \<notin> cc_id ` set (cd_changes db)"
      and "db' = db\<lparr>cd_changes := cd_changes db @ [new_change i (the (ci_expires i))]\<rparr>"
      by (auto simp: Let_def map_change_def checked_def split: option.splits if_splits sum.splits)
    then show ?thesis by (auto intro: step_shape.fresh simp: new_change_def)
  qed (simp add: step_shape.same)
qed (simp add: step_shape.same)

lemma update_shape:
  assumes "in_transaction (\<lambda>db. case update_changes p f db of (n, d) \<Rightarrow> if n = 0 then (Inl e, d) else (Inr (), d))
      db = (r, db') \<or> in_transaction (\<lambda>db. (Inr (), snd (update_changes p f db))) db = (r, db')"
    and "\<And>c. cc_id (f c) = cc_id c \<and> cc_application (f c) = cc_application c \<and>
       cc_version c \<le> cc_version (f c) \<and> cc_state (f c) \<notin> set run_phase"
  shows "step_shape env db db'"
proof -
  have "db' = db \<or> db' = db\<lparr>cd_changes := map (\<lambda>c. if p c then f c else c) (cd_changes db)\<rparr>"
    using assms(1) by (auto simp: in_transaction_def update_changes_def split: if_splits)
  then show ?thesis using step_shape.updated [OF assms(2)] by (auto intro: step_shape.same)
qed

lemma outside_run_phase: "st \<in> {DRAFT, READY, INVALID, SAVED, CANCELLED} \<Longrightarrow> st \<notin> set run_phase"
  by (auto simp: run_phase_def active_states_def)

lemma config_step_shape: "config_step env op db db' \<Longrightarrow> step_shape env db db'"
proof (induction rule: config_step.induct)
  case (creating i db r db')
  then show ?case by (rule create_shape)
next
  case (replacing i items db r db')
  then show ?case
    by (intro step_shape.same) (auto simp: replace_items_def checked_def in_transaction_def split: sum.splits if_splits)
next
  case (validating i digest plan state db r db')
  show ?case
    by (rule update_shape [OF disjI2 [OF validating(1) [unfolded finish_validation_def]]])
       (use validating(2) outside_run_phase in auto)
next
  case (saving i digest envelope db r db')
  from saving(1) show ?case unfolding mark_saved_def
  proof (cases rule: checked_cases)
    case went
    show ?thesis by (rule update_shape [OF disjI1 [OF went(2)]]) (use outside_run_phase in auto)
  qed (simp add: step_shape.same)
next
  case (cancelling i c db r db')
  show ?case
    by (rule update_shape [OF disjI1 [OF cancelling(1) [unfolded finish_cancel_def]]]) (use outside_run_phase in auto)
next
  case (moving i db r db')
  then show ?case by (cases rule: transition_row_cases) (auto intro: step_shape.same step_shape.moved)
next
  case (blocking a run change reason actor db r db')
  then show ?case
    by (intro step_shape.same) (auto simp: block_application_row_def checked_def split: sum.splits if_splits)
next
  case (clearing a actor remediation incident db r db')
  then show ?case
    by (intro step_shape.same) (auto simp: clear_block_row_def checked_def Let_def split: sum.splits)
qed

lemma every_step_ok:
  assumes "config_step env op db db'" and "keys_ok db"
  shows "step_ok db db'"
  using config_step_shape [OF assms(1)] assms(2)
proof (induction rule: step_shape.induct)
  case (fresh c i e)
  let ?db = "db\<lparr>cd_changes := cd_changes db @ [c]\<rparr>"
  have "\<forall>q \<in> set (cd_runs db). rr_change q \<noteq> cc_id c"
    using fresh(2,3) unfolding keys_ok_def by (metis image_subset_iff)
  then have "runs_of (cc_id c) ?db = []" by (simp add: runs_of_def filter_empty_conv)
  then have "explains db ?db c" using fresh(1) by (simp add: explains_def new_change_def)
  moreover have "keys_ok ?db" using fresh(2,3) by (auto simp: keys_ok_def)
  ultimately show ?case by (auto simp: step_ok_def intro: explains_same)
next
  case (updated f p)
  show ?case
    by (rule step_ok_update [where p = p and f = f, OF updated(2)]) (simp_all add: updated(1))
qed (simp_all add: step_ok_same step_ok_moves)

section \<open>The log of a change\<close>

definition log_ok :: "config_db \<Rightarrow> change_row \<Rightarrow> bool" where
  "log_ok db c \<longleftrightarrow>
     (let rs = runs_of (cc_id c) db
      in 0 \<le> cc_version c \<and> sorted_wrt (<) (map rr_sequence rs) \<and>
         distinct (map rr_transition rs) \<and> distinct (map rr_event rs) \<and>
         (\<forall>r \<in> set rs. rr_sequence r \<le> cc_version c \<and> rr_state r \<in> set (legal_transitions (rr_from r))) \<and>
         (cc_state c \<in> set run_phase \<longrightarrow>
            (\<exists>before during. map rr_state rs = before @ during \<and> during \<noteq> [] \<and>
               path_from legal_transitions SAVED during \<and> last during = cc_state c)))"

lemma log_ok_step:
  assumes "explains db db' c'" and "\<forall>c \<in> set (cd_changes db). log_ok db c"
  shows "log_ok db' c'"
  using assms(1) unfolding explains_def
proof
  assume "cc_state c' = DRAFT \<and> cc_version c' = 0 \<and> runs_of (cc_id c') db' = []"
  then show ?thesis by (simp add: log_ok_def run_phase_def active_states_def)
next
  assume "\<exists>c \<in> set (cd_changes db). cc_id c = cc_id c' \<and>
        (runs_of (cc_id c) db' = runs_of (cc_id c) db \<and> cc_version c \<le> cc_version c' \<and>
           (c' = c \<or> cc_state c' \<notin> set run_phase) \<or>
         (\<exists>r. runs_of (cc_id c) db' = runs_of (cc_id c) db @ [r] \<and> rr_sequence r = cc_version c + 1 \<and>
            cc_version c' = cc_version c + 1 \<and> 0 \<le> cc_version c \<and>
            rr_from r = cc_state c \<and> rr_state r = cc_state c' \<and>
            rr_state r \<in> set (legal_transitions (rr_from r)) \<and>
            (\<forall>q \<in> set (runs_of (cc_id c) db). rr_transition q \<noteq> rr_transition r \<and> rr_event q \<noteq> rr_event r)))"
  then obtain c where c: "c \<in> set (cd_changes db)" "cc_id c = cc_id c'"
    and cases: "(runs_of (cc_id c) db' = runs_of (cc_id c) db \<and> cc_version c \<le> cc_version c' \<and>
           (c' = c \<or> cc_state c' \<notin> set run_phase) \<or>
         (\<exists>r. runs_of (cc_id c) db' = runs_of (cc_id c) db @ [r] \<and> rr_sequence r = cc_version c + 1 \<and>
            cc_version c' = cc_version c + 1 \<and> 0 \<le> cc_version c \<and>
            rr_from r = cc_state c \<and> rr_state r = cc_state c' \<and>
            rr_state r \<in> set (legal_transitions (rr_from r)) \<and>
            (\<forall>q \<in> set (runs_of (cc_id c) db). rr_transition q \<noteq> rr_transition r \<and> rr_event q \<noteq> rr_event r)))"
    by blast
  have old: "log_ok db c" using assms(2) c(1) by blast
  from cases show ?thesis
  proof (elim disjE conjE exE)
    assume "runs_of (cc_id c) db' = runs_of (cc_id c) db" "c' = c"
    with old show ?thesis by (simp add: log_ok_def)
  next
    assume "runs_of (cc_id c) db' = runs_of (cc_id c) db" "cc_version c \<le> cc_version c'"
      "cc_state c' \<notin> set run_phase"
    with old c(2) show ?thesis by (fastforce simp: log_ok_def Let_def)
  next
    fix r assume r: "runs_of (cc_id c) db' = runs_of (cc_id c) db @ [r]" "rr_sequence r = cc_version c + 1"
        "cc_version c' = cc_version c + 1" "0 \<le> cc_version c" "rr_from r = cc_state c"
        "rr_state r = cc_state c'" "rr_state r \<in> set (legal_transitions (rr_from r))"
        "\<forall>q \<in> set (runs_of (cc_id c) db). rr_transition q \<noteq> rr_transition r \<and> rr_event q \<noteq> rr_event r"
    let ?rs = "runs_of (cc_id c) db"
    from old have o: "sorted_wrt (<) (map rr_sequence ?rs)" "distinct (map rr_transition ?rs)"
        "distinct (map rr_event ?rs)" "\<forall>q \<in> set ?rs. rr_sequence q \<le> cc_version c"
        "\<forall>q \<in> set ?rs. rr_state q \<in> set (legal_transitions (rr_from q))"
      by (auto simp: log_ok_def Let_def)
    have "\<exists>before during. map rr_state (?rs @ [r]) = before @ during \<and> during \<noteq> [] \<and>
        path_from legal_transitions SAVED during \<and> last during = cc_state c'"
      if "cc_state c' \<in> set run_phase"
    proof -
      from that r(5,6,7) run_phase_moves [of "cc_state c'" "cc_state c"]
      consider "cc_state c \<in> set run_phase" | "cc_state c = SAVED" "cc_state c' = APPLYING" by auto
      then show ?thesis
      proof cases
        case 1
        with old obtain before during where d: "map rr_state ?rs = before @ during" "during \<noteq> []"
            "path_from legal_transitions SAVED during" "last during = cc_state c"
          by (auto simp: log_ok_def Let_def)
        with r(5,6,7) show ?thesis
          by (intro exI [of _ before] exI [of _ "during @ [cc_state c']"]) (simp add: path_from_snoc)
      next
        case 2
        with r(6) show ?thesis
          by (intro exI [of _ "map rr_state ?rs"] exI [of _ "[APPLYING]"]) simp
      qed
    qed
    with o r c(2) show ?thesis
      by (auto simp: log_ok_def Let_def sorted_wrt_append)
  qed
qed

lemma run_log:
  assumes "op_run (config_step env) ops empty_config_db db"
  shows "keys_ok db \<and> (\<forall>c \<in> set (cd_changes db). log_ok db c)"
  using assms
proof (rule op_run_invariant)
  show "keys_ok empty_config_db \<and> (\<forall>c \<in> set (cd_changes empty_config_db). log_ok empty_config_db c)"
    by (simp add: keys_ok_def empty_config_db_def)
next
  show "keys_ok v \<and> (\<forall>c \<in> set (cd_changes v). log_ok v c)"
    if "keys_ok u \<and> (\<forall>c \<in> set (cd_changes u). log_ok u c)" "config_step env op u v" for op u v
    using every_step_ok [OF that(2)] that(1) log_ok_step unfolding step_ok_def by blast
qed

text \<open>
  C6. The log of runs tells the story of every change, whatever transactions of the repository run and
  however they interleave. The sequence numbers of a change strictly increase, no two of its runs share a
  transition or event identifier, every run is a legal move of the state machine, and a completed
  change ends its log with the six moves of an apply run.
\<close>

theorem config_log_explains_state:
  assumes "op_run (config_step env) ops empty_config_db db" and "c \<in> set (cd_changes db)"
  shows "sorted_wrt (<) (map rr_sequence (runs_of (cc_id c) db)) \<and>
    distinct (map rr_transition (runs_of (cc_id c) db)) \<and> distinct (map rr_event (runs_of (cc_id c) db)) \<and>
    (\<forall>r \<in> set (runs_of (cc_id c) db).
       rr_sequence r \<le> cc_version c \<and> rr_state r \<in> set (legal_transitions (rr_from r))) \<and>
    (cc_state c = COMPLETED \<longrightarrow>
       (\<exists>before. map rr_state (runs_of (cc_id c) db) =
          before @ [APPLYING, SNAPSHOTTED, WRITTEN, ACTION_RUNNING, HEALTH_CHECKING, COMPLETED]))"
proof -
  have "log_ok db c" using run_log [OF assms(1)] assms(2) by blast
  then show ?thesis
    using completion_route_unique [of SAVED]
    by (fastforce simp: log_ok_def Let_def run_phase_def)
qed

end
