(* ===== verification/ConfigProps.thy ===== *)
theory ConfigProps
  imports ConfigRuns
begin

text \<open>
  Properties of the repository of configuration changes: one apply at a time (the unique index), blocked applications,
  retries of a transition, and a stale validation.
\<close>

section \<open>A sample history\<close>

definition sample_id :: string where "sample_id = ''11111111-1111-4111-8111-111111111111''"

definition sample_digest :: string where
  "sample_digest = ''hmac-sha256:v1:'' @ replicate 64 (CHR ''a'')"

definition sample_plan :: impact_plan where
  "sample_plan =
     \<lparr> ip_keys = [''applicationId''], ip_application = ''crm'', ip_sources = [], ip_actions = [], ip_checks = [],
       ip_strategies = [], ip_counts = \<lparr> ic_keys = [], ic_items = 0, ic_sets = 0, ic_deletes = 0, ic_sources = 0 \<rparr>,
       ip_warnings = [], ip_effect = ''no_runtime_action'' \<rparr>"

definition sample_input :: change_input where
  "sample_input =
     \<lparr> ci_keys = [''id''], ci_id = sample_id, ci_supersedes = None, ci_actor = sample_id, ci_session = sample_id,
       ci_application = ''crm'', ci_reason = '' rotate '', ci_digest = None, ci_catalog = ''c1'', ci_manifest = ''m1'',
       ci_key_version = ''k1'', ci_plan = sample_plan, ci_envelope = None, ci_expires = Some 100 \<rparr>"

definition sample_env :: config_env where
  "sample_env = \<lparr> cv_actor_exists = (\<lambda>_ _. True), cv_resolved = (\<lambda>_. True) \<rparr>"

definition sample_transition :: transition_input where
  "sample_transition =
     \<lparr> ti_keys = [''changeId''], ti_change = sample_id, ti_application = ''crm'', ti_transition = sample_id,
       ti_event = sample_id, ti_run = sample_id, ti_actor = sample_id, ti_session = sample_id, ti_expected = 2,
       ti_to = APPLYING, ti_action = None, ti_check = None, ti_code = None, ti_summary = None,
       ti_snapshot = None, ti_rollback = None \<rparr>"

definition sample_history :: "config_db list" where
  "sample_history =
     (let created = snd (create_change sample_env sample_input empty_config_db);
          ready = snd (finish_validation sample_id sample_digest sample_plan READY created);
          saved = snd (mark_saved sample_id sample_digest None ready);
          applying = snd (transition_row sample_env sample_transition saved)
      in [created, ready, saved, applying])"

lemma sample_run:
  "op_run (config_step sample_env) [Created, Validated, Saved_change, Moved sample_transition]
     empty_config_db (last sample_history)"
proof -
  let ?created = "snd (create_change sample_env sample_input empty_config_db)"
  let ?ready = "snd (finish_validation sample_id sample_digest sample_plan READY ?created)"
  let ?saved = "snd (mark_saved sample_id sample_digest None ?ready)"
  have "config_step sample_env Created empty_config_db ?created"
    by (rule creating [of sample_env sample_input _ "fst (create_change sample_env sample_input empty_config_db)"])
       simp
  then have "op_run (config_step sample_env) ([] @ [Created]) empty_config_db ?created"
    by (rule run_more [OF run_nothing])
  moreover have "config_step sample_env Validated ?created ?ready"
    by (rule validating [OF prod.collapse [symmetric]]) simp
  ultimately have "op_run (config_step sample_env) (([] @ [Created]) @ [Validated]) empty_config_db ?ready"
    by (rule run_more)
  moreover have "config_step sample_env Saved_change ?ready ?saved"
    by (rule saving [OF prod.collapse [symmetric]])
  ultimately have "op_run (config_step sample_env) ((([] @ [Created]) @ [Validated]) @ [Saved_change])
      empty_config_db ?saved"
    by (rule run_more)
  from run_more [OF this moving [OF prod.collapse [symmetric]]] show ?thesis
    by (simp add: sample_history_def Let_def)
qed

text \<open>The tables of the history, evaluated once: the change as it is stored, and its run.\<close>

definition stored_change :: "change_state \<Rightarrow> int \<Rightarrow> change_row" where
  "stored_change st n =
     \<lparr> cc_id = sample_id, cc_supersedes = None, cc_actor = sample_id, cc_session = sample_id, cc_application = ''crm'',
       cc_state = st, cc_reason = ''rotate'', cc_digest = Some sample_digest, cc_catalog = ''c1'', cc_manifest = ''m1'',
       cc_key_version = ''k1'', cc_plan = sample_plan, cc_envelope = None, cc_expires = 100, cc_version = n \<rparr>"

definition stored_run :: run_row where
  "stored_run =
     \<lparr> rr_change = sample_id, rr_run = sample_id, rr_transition = sample_id, rr_event = sample_id, rr_sequence = 3,
       rr_from = SAVED, rr_state = APPLYING, rr_actor = sample_id, rr_session = sample_id, rr_action = None,
       rr_check = None, rr_code = None, rr_summary = None, rr_snapshot = None, rr_rollback = None \<rparr>"

definition stored_db :: "change_state \<Rightarrow> int \<Rightarrow> run_row list \<Rightarrow> config_db" where
  "stored_db st n runs = \<lparr> cd_changes = [stored_change st n], cd_items = [], cd_runs = runs, cd_blocks = [] \<rparr>"

definition sample_saved :: config_db where
  "sample_saved = sample_history ! 2"

lemma sample_saved_db: "sample_saved = stored_db SAVED 2 []"
  by code_simp

lemma sample_moved:
  "case transition_row sample_env sample_transition (stored_db SAVED 2 []) of
     (Inl _, _) \<Rightarrow> False | (Inr _, db) \<Rightarrow> db = stored_db APPLYING 3 [stored_run]"
  by code_simp

lemma sample_last_db: "last sample_history = stored_db APPLYING 3 [stored_run]"
proof -
  have "last sample_history = snd (transition_row sample_env sample_transition sample_saved)"
    by (simp add: sample_history_def sample_saved_def Let_def)
  then show ?thesis using sample_moved by (auto simp: sample_saved_db split: prod.splits sum.splits)
qed

definition sample_change :: change_row where
  "sample_change = hd (cd_changes (last sample_history))"

lemma sample_change_row: "sample_change = stored_change APPLYING 3"
  by (simp add: sample_change_def sample_last_db stored_db_def)

lemma sample_last: "map cc_state (cd_changes (last sample_history)) = [APPLYING]"
  by (simp add: sample_last_db stored_db_def stored_change_def)

lemma sample_change_stored:
  "sample_change \<in> set (cd_changes (last sample_history)) \<and> cc_state sample_change = APPLYING"
  using sample_last by (auto simp: sample_change_def)

lemma config_log_explains_state_witness:
  "sorted_wrt (<) (map rr_sequence (runs_of (cc_id sample_change) (last sample_history)))"
  by (rule conjunct1 [OF config_log_explains_state [OF sample_run]]) (rule conjunct1 [OF sample_change_stored])

section \<open>One apply at a time\<close>

lemma one_active_shrinks:
  assumes "\<And>c. cc_application (f c) = cc_application c \<and> cc_state (f c) \<notin> set active_states"
  shows "one_active cs \<Longrightarrow> one_active (map (\<lambda>c. if p c then f c else c) cs)"
proof (induction cs)
  case (Cons c cs)
  have "cc_application ` {x \<in> (\<lambda>c. if p c then f c else c) ` set cs. cc_state x \<in> set active_states}
      \<subseteq> cc_application ` {x \<in> set cs. cc_state x \<in> set active_states}"
    using assms by auto
  with Cons assms show ?case by (auto simp: one_active_def split: if_splits)
qed (simp add: one_active_def)

lemma active_in_run: "st \<in> set active_states \<Longrightarrow> st \<in> set run_phase"
  by (auto simp: run_phase_def)

lemma moves_one_active: "moves env i c db db' \<Longrightarrow> one_active (cd_changes db')"
  unfolding moves_def by (elim conjE)

lemma one_active_step: "step_shape env db db' \<Longrightarrow> one_active (cd_changes db) \<Longrightarrow> one_active (cd_changes db')"
proof (induction rule: step_shape.induct)
  case (fresh c i e)
  then show ?case by (simp add: one_active_def new_change_def active_states_def)
next
  case (updated f p)
  have "\<And>c. cc_application (f c) = cc_application c \<and> cc_state (f c) \<notin> set active_states"
    using updated(1) active_in_run by blast
  from one_active_shrinks [OF this updated(2)] show ?case by simp
qed (simp_all add: moves_one_active)

lemma one_active_unique:
  "one_active cs \<Longrightarrow> distinct (map cc_id cs) \<Longrightarrow> c \<in> set cs \<Longrightarrow> d \<in> set cs \<Longrightarrow>
   cc_application c = cc_application d \<Longrightarrow> cc_state c \<in> set active_states \<Longrightarrow>
   cc_state d \<in> set active_states \<Longrightarrow> c = d"
  by (auto simp: one_active_def distinct_map dest: inj_onD)

text \<open>
  One apply at a time per application: in every state the transactions of the repository can reach,
  two changes of one application that are both inside an apply run (applying, snapshotted, written,
  running its action, checking health or rolling back) are the same change.
\<close>

theorem one_apply_per_application:
  assumes "op_run (config_step env) ops empty_config_db db"
    and "c \<in> set (cd_changes db)" and "d \<in> set (cd_changes db)"
    and "cc_application c = cc_application d"
    and "cc_state c \<in> set active_states" and "cc_state d \<in> set active_states"
  shows "c = d"
proof -
  have "one_active (cd_changes db)"
    using assms(1)
    by (rule op_run_invariant [where I = "\<lambda>db. one_active (cd_changes db)"])
       (auto simp: empty_config_db_def one_active_def [of "[]"] intro: one_active_step config_step_shape)
  moreover have "distinct (map cc_id (cd_changes db))" using run_log [OF assms(1)] by (simp add: keys_ok_def)
  ultimately show ?thesis using one_active_unique assms(2-6) by blast
qed

lemma one_apply_per_application_witness: "cd_changes (last sample_history) ! 0 = sample_change"
proof (rule one_apply_per_application [OF sample_run])
  have n: "cd_changes (last sample_history) \<noteq> []" using sample_last by auto
  then have "cd_changes (last sample_history) ! 0 = sample_change" by (simp add: sample_change_def hd_conv_nth)
  then show "cd_changes (last sample_history) ! 0 \<in> set (cd_changes (last sample_history))"
    and "cc_application (cd_changes (last sample_history) ! 0) = cc_application sample_change"
    and "cc_state (cd_changes (last sample_history) ! 0) \<in> set active_states"
    using sample_change_stored by (simp_all add: active_states_def)
qed (use sample_change_stored in \<open>simp_all add: active_states_def\<close>)

section \<open>Blocked applications\<close>

lemma moves_unblocked: "moves env i c db db' \<Longrightarrow> \<not> (ti_to i = APPLYING \<and> blocked (ti_application i) db)"
  unfolding moves_def by (elim conjE)

lemma moves_effect:
  "moves env i c db db' \<Longrightarrow>
     cd_changes db' = map (\<lambda>x. if cc_id x = ti_change i \<and> cc_application x = ti_application i \<and>
                                  cc_state x = cc_state c \<and> cc_version x = cc_version c
                               then x\<lparr>cc_state := ti_to i, cc_version := cc_version c + 1\<rparr> else x)
                          (cd_changes db)"
  unfolding moves_def by (elim conjE)

lemma run_phase_entry:
  assumes "step_shape env db db'" and "c' \<in> set (cd_changes db')" and "cc_state c' = APPLYING"
    and "blocked (cc_application c') db"
  shows "c' \<in> set (cd_changes db)"
  using assms
proof (induction rule: step_shape.induct)
  case (updated f p)
  have "cc_state (f c) \<noteq> APPLYING" for c using updated(1) [of c] by (auto simp: run_phase_def active_states_def)
  with updated(2,3) show ?case by auto
next
  case (moved i c db')
  from moves_unblocked [OF moved(1)] moves_effect [OF moved(1)] moved(2-4)
  show ?case by (auto split: if_splits)
qed (auto simp: new_change_def)

lemma blocks_kept:
  assumes "config_step env op db db'" and "op \<noteq> Blocks_changed"
  shows "cd_blocks db' = cd_blocks db"
  using assms
proof (induction rule: config_step.induct)
  case (moving i db r db')
  from moving(1) show ?case by (cases rule: transition_row_cases) (auto simp: moves_def)
next
  case (creating i db r db')
  from creating(1) show ?case unfolding create_change_def
    by (elim checked_cases in_transaction_cases)
       (auto simp: Let_def map_change_def checked_def split: option.splits if_splits sum.splits)
qed (auto simp: replace_items_def finish_validation_def mark_saved_def finish_cancel_def checked_def
       in_transaction_def update_changes_def split: sum.splits if_splits)

text \<open>
  A blocked application waits: while an application is blocked no transaction moves a change of it
  into APPLYING, and the block goes away only through the clearing of a block, with an incident that is
  resolved and a remediation of at least three characters.
\<close>

theorem blocked_application_waits:
  assumes "config_step env op db db'" and "blocked a db"
  shows "(\<forall>c' \<in> set (cd_changes db'). cc_application c' = a \<and> cc_state c' = APPLYING \<longrightarrow> c' \<in> set (cd_changes db)) \<and>
    (blocked a db' \<or>
     (\<exists>actor remediation incident r. op = Blocks_changed \<and> cv_resolved env incident \<and>
        3 \<le> length (js_trim remediation) \<and> clear_block_row env a actor remediation incident db = (Inr r, db')))"
proof (rule conjI)
  show "\<forall>c' \<in> set (cd_changes db'). cc_application c' = a \<and> cc_state c' = APPLYING \<longrightarrow> c' \<in> set (cd_changes db)"
    using run_phase_entry [OF config_step_shape [OF assms(1)]] assms(2) by blast
  show "blocked a db' \<or>
     (\<exists>actor remediation incident r. op = Blocks_changed \<and> cv_resolved env incident \<and>
        3 \<le> length (js_trim remediation) \<and> clear_block_row env a actor remediation incident db = (Inr r, db'))"
    using assms(1)
  proof (cases rule: config_step.cases)
    case (blocking b run change reason actor r)
    with assms(2) show ?thesis
      by (auto simp: block_application_row_def checked_def blocked_def split: sum.splits if_splits)
  next
    case (clearing b actor remediation incident r)
    from clearing(2) [unfolded clear_block_row_def] show ?thesis
    proof (cases rule: checked_cases)
      case went
      show ?thesis
      proof (cases "b = a \<and> cv_resolved env incident")
        case True
        from went(1) have "3 \<le> length (js_trim remediation)" by (simp add: run_checks_ok)
        moreover have "clear_block_row env a actor remediation incident db =
            (Inr (length (filter (\<lambda>b. bl_application b = a \<and> bl_cleared b = None \<and> cv_resolved env incident)
               (cd_blocks db)) = 1), db')"
          using True went by (simp add: clear_block_row_def checked_def Let_def)
        ultimately show ?thesis using True clearing(1) by blast
      next
        case False
        from went(2) have "cd_blocks db' = map (\<lambda>x. if bl_application x = b \<and> bl_cleared x = None \<and>
            cv_resolved env incident then x\<lparr>bl_cleared := Some (actor, js_trim remediation)\<rparr> else x) (cd_blocks db)"
          by (auto simp: Let_def)
        with False assms(2) have "blocked a db'" by (force simp: blocked_def)
        then show ?thesis ..
      qed
    qed (use assms(2) in simp)
  qed (use blocks_kept [OF assms(1)] assms(2) in \<open>auto simp: blocked_def\<close>)
qed

lemma sample_blocked:
  "block_application_row ''crm'' sample_id sample_id ''HEALTH_FAILED'' sample_id empty_config_db =
     (Inr True, snd (block_application_row ''crm'' sample_id sample_id ''HEALTH_FAILED'' sample_id empty_config_db))"
  "blocked ''crm'' (snd (block_application_row ''crm'' sample_id sample_id ''HEALTH_FAILED'' sample_id empty_config_db))"
  by code_simp+

lemma blocked_application_waits_witness:
  "\<exists>db. blocked ''crm'' db \<and>
     filter (\<lambda>c'. cc_application c' = ''crm'' \<and> cc_state c' = APPLYING \<and> c' \<notin> set (cd_changes db))
       (cd_changes (snd (clear_block_row sample_env ''crm'' sample_id ''fixed'' ''inc-1'' db))) = []"
proof -
  let ?db = "snd (block_application_row ''crm'' sample_id sample_id ''HEALTH_FAILED'' sample_id empty_config_db)"
  show ?thesis
    using blocked_application_waits [OF clearing [OF prod.collapse [symmetric]] sample_blocked(2),
        of sample_env "''crm''" sample_id "''fixed''" "''inc-1''"] sample_blocked(2)
    by (intro exI [of _ ?db]) (auto simp: filter_empty_conv)
qed

section \<open>Retries\<close>

text \<open>What every step keeps: the log is only extended, and a change stays with its application.\<close>

definition grows :: "config_db \<Rightarrow> config_db \<Rightarrow> bool" where
  "grows db db' \<longleftrightarrow>
     (\<exists>rs. cd_runs db' = cd_runs db @ rs) \<and>
     (\<lambda>c. (cc_id c, cc_application c)) ` set (cd_changes db) \<subseteq>
       (\<lambda>c. (cc_id c, cc_application c)) ` set (cd_changes db')"

lemma grows_refl: "grows db db"
  by (simp add: grows_def)

lemma grows_trans: "grows a b \<Longrightarrow> grows b c \<Longrightarrow> grows a c"
  by (force simp: grows_def)

lemma grows_step: "step_shape env db db' \<Longrightarrow> grows db db'"
proof (induction rule: step_shape.induct)
  case (updated f p)
  have "(\<lambda>c. (cc_id c, cc_application c)) ` (\<lambda>c. if p c then f c else c) ` set (cd_changes db) =
      (\<lambda>c. (cc_id c, cc_application c)) ` set (cd_changes db)"
    unfolding image_image using updated by (intro image_cong) auto
  then show ?case by (simp add: grows_def)
next
  case (moved i c db')
  have "(\<lambda>c. (cc_id c, cc_application c)) ` set (cd_changes db') =
      (\<lambda>c. (cc_id c, cc_application c)) ` set (cd_changes db)"
    unfolding moves_effect [OF moved] set_map image_image by (intro image_cong) auto
  moreover have "\<exists>r. cd_runs db' = cd_runs db @ [r]" using moved unfolding moves_def by blast
  ultimately show ?case by (auto simp: grows_def)
qed (auto simp: grows_def)

lemma grows_run: "op_run (config_step env) ops db db' \<Longrightarrow> grows db db'"
  by (induction rule: op_run.induct) (auto intro: grows_refl grows_trans grows_step config_step_shape)

lemma find_append: "find P (xs @ ys) = (case find P xs of None \<Rightarrow> find P ys | Some x \<Rightarrow> Some x)"
  by (induction xs) auto

text \<open>Once the log holds the run, the transition answers from it.\<close>

definition settled :: "transition_input \<Rightarrow> run_row \<Rightarrow> config_db \<Rightarrow> bool" where
  "settled i r db \<longleftrightarrow>
     (\<exists>c \<in> set (cd_changes db). cc_id c = ti_change i \<and> cc_application c = ti_application i) \<and>
     recorded_run i db = Some r"

lemma settled_grows:
  assumes "settled i r db" and "grows db db'"
  shows "settled i r db'"
proof -
  have "(ti_change i, ti_application i) \<in> (\<lambda>c. (cc_id c, cc_application c)) ` set (cd_changes db)"
    using assms(1) by (force simp: settled_def)
  with assms(2) have "(ti_change i, ti_application i) \<in> (\<lambda>c. (cc_id c, cc_application c)) ` set (cd_changes db')"
    unfolding grows_def by blast
  moreover have "recorded_run i db' = Some r"
    using assms by (auto simp: settled_def grows_def recorded_run_def find_append)
  ultimately show ?thesis by (auto simp: settled_def)
qed

lemma settled_answers:
  assumes "settled i r db" and "run_checks (transition_checks i) = Inr ()" and "replayed i r = Inr x"
  shows "transition_row env i db = (Inr x, db)"
proof -
  from assms(1) obtain c
    where "find (\<lambda>c. cc_id c = ti_change i \<and> cc_application c = ti_application i) (cd_changes db) = Some c"
    unfolding settled_def
    by (cases "find (\<lambda>c. cc_id c = ti_change i \<and> cc_application c = ti_application i) (cd_changes db)")
       (auto simp: find_None_iff)
  moreover from assms(1) have "recorded_run i db = Some r" by (simp add: settled_def)
  ultimately show ?thesis
    using assms(2,3) by (simp add: transition_row_def checked_def in_transaction_def transition_body_def)
qed

text \<open>An accepted transition settles, and the recorded run says what was answered.\<close>

lemma accepted_settles:
  assumes "transition_body env i db = (Inr x, db')"
  obtains r where "settled i r db'" "replayed i r = Inr (x\<lparr>tr_idempotent := True\<rparr>)"
proof -
  from assms obtain c
    where c: "find (\<lambda>c. cc_id c = ti_change i \<and> cc_application c = ti_application i) (cd_changes db) = Some c"
    by (auto simp: transition_body_def split: option.splits)
  then have c': "c \<in> set (cd_changes db)" "cc_id c = ti_change i" "cc_application c = ti_application i"
    by (auto simp: find_Some_iff)
  show thesis
  proof (cases "recorded_run i db")
    case (Some r)
    with assms c have "replayed i r = Inr x" "db' = db" by (auto simp: transition_body_def)
    moreover from this have "x\<lparr>tr_idempotent := True\<rparr> = x" by (auto simp: replayed_def split: if_splits)
    ultimately show thesis using that [of r] c' Some by (auto simp: settled_def)
  next
    case None
    obtain s where s: "transition_change (\<lambda>_. True) (snapshot_of c) (request_of i) = Inr s"
      using assms c None by (auto simp: transition_body_def split: sum.splits if_splits)
    have to: "ch_state s = ti_to i"
      using s by (cases rule: transition_change_cases) (simp_all add: request_of_def snapshot_of_def)
    have x: "x = \<lparr> tr_change = ti_change i, tr_application = ti_application i,
                   tr_state = ch_state s, tr_version = ch_version s, tr_sequence = ch_version s,
                   tr_transition = ti_transition i, tr_event = ti_event i, tr_idempotent = False \<rparr>"
      and runs: "cd_runs db' = cd_runs db @ [run_of i c s]"
      using assms c None s
      by (auto simp: transition_body_def update_changes_def insert_run_def split: sum.splits if_splits option.splits)
    from transition_body_ok [OF assms] x obtain d where "moves env i d db db'" by auto
    then have "grows db db'" by (intro grows_step step_shape.moved)
    moreover have "(ti_change i, ti_application i) \<in> (\<lambda>c. (cc_id c, cc_application c)) ` set (cd_changes db)"
      using c' by force
    ultimately have "(ti_change i, ti_application i) \<in> (\<lambda>c. (cc_id c, cc_application c)) ` set (cd_changes db')"
      unfolding grows_def by blast
    moreover have "recorded_run i db' = Some (run_of i c s)"
      using None runs by (simp add: recorded_run_def find_append run_of_def)
    ultimately have "settled i (run_of i c s) db'" by (auto simp: settled_def)
    moreover have "replayed i (run_of i c s) = Inr (x\<lparr>tr_idempotent := True\<rparr>)"
      by (simp add: replayed_def run_of_def to x)
    ultimately show thesis by (rule that)
  qed
qed

text \<open>
  C9. A retry of a transition is answered from the log: whatever transactions of the repository ran
  since the transition was accepted, sending it again answers the same state, version, sequence,
  transition and event, marked as idempotent, and changes nothing.
\<close>

theorem retry_answers_recorded_result:
  assumes "transition_row env i db = (Inr x, db')" and "op_run (config_step env) ops db' db''"
  shows "transition_row env i db'' = (Inr (x\<lparr>tr_idempotent := True\<rparr>), db'')"
proof -
  from assms(1) have ok: "run_checks (transition_checks i) = Inr ()"
    by (auto simp: transition_row_def checked_def split: sum.splits)
  with assms(1) have "transition_body env i db = (Inr x, db')"
    by (auto simp: transition_row_def checked_def in_transaction_def split: prod.splits sum.splits)
  then obtain r where "settled i r db'" "replayed i r = Inr (x\<lparr>tr_idempotent := True\<rparr>)"
    by (rule accepted_settles)
  with ok settled_grows [OF _ grows_run [OF assms(2)]] show ?thesis by (blast intro: settled_answers)
qed

lemma sample_accepted:
  "\<not> isl (fst (transition_row sample_env sample_transition sample_saved))"
  using sample_moved by (auto simp: sample_saved_db split: prod.splits sum.splits)

lemma retry_answers_recorded_result_witness:
  "\<exists>x db. transition_row sample_env sample_transition sample_saved = (Inr x, db) \<and>
     transition_row sample_env sample_transition db = (Inr (x\<lparr>tr_idempotent := True\<rparr>), db)"
proof -
  obtain x db where "transition_row sample_env sample_transition sample_saved = (Inr x, db)"
    using sample_accepted
    by (metis prod.collapse sum.collapse(2))
  with retry_answers_recorded_result [OF _ run_nothing, of sample_env sample_transition sample_saved x db]
  show ?thesis by blast
qed

section \<open>A stale validation\<close>

text \<open>
  A stale validation overwrites a saved change. The three steps of \<open>updateValidation\<close> are not one
  transaction: when the change was saved between its read and the rest, the items of the saved change
  are replaced, its row with the digest over the earlier items stays as it is, and the caller is
  answered as if the validation had been stored.
\<close>

theorem stale_validation_replaces_saved_items:
  assumes "\<forall>c \<in> set (cd_changes db). cc_id c = i \<longrightarrow> cc_state c = SAVED"
    and "replace_items i items db = (Inr (), db')"
  shows "finish_validation i digest plan state db' = (Inr (), db') \<and> cd_changes db' = cd_changes db \<and>
    filter (\<lambda>(c, _). c = i) (cd_items db') = map (Pair i) items"
proof -
  from assms(2) have db': "db' = db\<lparr>cd_items := filter (\<lambda>(c, _). c \<noteq> i) (cd_items db) @ map (Pair i) items\<rparr>"
    by (auto simp: replace_items_def checked_def in_transaction_def split: sum.splits if_splits)
  have "map (\<lambda>c. if cc_id c = i \<and> cc_state c \<in> {DRAFT, INVALID}
      then c\<lparr>cc_state := state, cc_digest := Some digest, cc_plan := plan, cc_version := cc_version c + 1\<rparr> else c)
      (cd_changes db) = cd_changes db"
    using assms(1) by (intro map_idI) auto
  then have "finish_validation i digest plan state db' = (Inr (), db')"
    by (simp add: finish_validation_def in_transaction_def update_changes_def db' cong: if_cong)
  moreover have "filter (\<lambda>(c, _). c = i) (cd_items db') = map (Pair i) items"
    by (simp add: db' filter_map comp_def filter_empty_conv case_prod_beta)
  ultimately show ?thesis by (simp add: db')
qed

definition sample_item :: change_item where
  "sample_item =
     \<lparr> it_keys = [''catalogId''], it_catalog = ''key'', it_source = ''env'', it_operation = ''set'',
       it_requirement = ''required'', it_strategy = ''next_job'', it_old = None, it_new = Some sample_digest,
       it_observed = Some sample_digest \<rparr>"

lemma sample_replace:
  "map (\<lambda>c. (cc_id c = sample_id, cc_state c)) (cd_changes sample_saved) = [(True, SAVED)]"
  "cd_items sample_saved = []"
  "fst (replace_items sample_id [sample_item] sample_saved) = Inr ()"
proof -
  have "fst (replace_items sample_id [sample_item] (stored_db SAVED 2 [])) = Inr ()" by code_simp
  then show "fst (replace_items sample_id [sample_item] sample_saved) = Inr ()" by (simp add: sample_saved_db)
qed (simp_all add: sample_saved_db stored_db_def stored_change_def)

lemma stale_validation_replaces_saved_items_witness:
  "filter (\<lambda>(c, _). c = sample_id) (cd_items sample_saved) = [] \<and>
   (\<exists>db'. replace_items sample_id [sample_item] sample_saved = (Inr (), db') \<and>
      cd_changes db' = cd_changes sample_saved \<and>
      filter (\<lambda>(c, _). c = sample_id) (cd_items db') = [(sample_id, sample_item)])"
proof -
  let ?db = "snd (replace_items sample_id [sample_item] sample_saved)"
  have saved: "\<forall>c \<in> set (cd_changes sample_saved). cc_id c = sample_id \<longrightarrow> cc_state c = SAVED"
    using sample_replace(1) by auto
  have replaced: "replace_items sample_id [sample_item] sample_saved = (Inr (), ?db)"
    using sample_replace(3) by (metis prod.collapse)
  from stale_validation_replaces_saved_items [OF saved replaced, of sample_digest sample_plan READY] replaced
  show ?thesis by (intro conjI exI [of _ ?db]) (simp_all add: sample_replace(2))
qed

end
