(* ===== verification/Telemetry.thy ===== *)
theory Telemetry
  imports Prelude
begin

text \<open>
  The tables of error telemetry (packages/db/migrations/0002 to 0005, 0009 and 0020), the acceptance of an
  envelope (apps/api/src/modules/ingest/postgresIngestStore.ts) and the queue of the processor
  (apps/processor/src/queue/postgresProcessorQueue.ts).

  A statement or a transaction is one step on the record of tables; rows are in order of insertion.
  A payload is a record with an optional value where the code checks for presence; values have the
  types of packages/contracts/src/telemetry.ts. Timestamps are milliseconds, and random identifiers
  are arguments. Columns that nothing reads are left out.
\<close>

section \<open>Envelopes\<close>

datatype tel_level = Level_fatal | Level_error | Level_warning

record tel_error =
  te_name :: string
  te_code :: string
  te_message :: string
  te_stack :: "string option"
  te_component :: "string option"

record tel_context =
  tc_request :: "string option"
  tc_trace :: "string option"
  tc_route :: "string option"
  tc_release :: string
  tc_service :: string
  tc_tags :: "(string \<times> string) list option"
  tc_breadcrumbs :: "(string \<times> string \<times> string) list option"

record identity =
  id_user :: string
  id_role :: string
  id_label :: string
  id_session :: string

record envelope =
  el_event_id :: string
  el_key :: string
  el_captured :: string
  el_source :: string
  el_level :: tel_level
  el_error :: tel_error
  el_context :: tel_context

text \<open>A payload as it is stored: what \<open>unpackPayload\<close> has to check.\<close>

record raw_envelope =
  rv_schema :: int
  rv_event_id :: "string option"
  rv_key :: "string option"
  rv_captured :: string
  rv_source :: string
  rv_level :: tel_level
  rv_error :: "tel_error option"
  rv_context :: "tel_context option"

record raw_identity =
  ri_user :: "string option"
  ri_role :: "string option"
  ri_label :: "string option"
  ri_session :: "string option"

record raw_payload =
  rp_envelope :: "raw_envelope option"
  rp_identity :: "raw_identity option"

definition or_empty :: "string option \<Rightarrow> string" where
  "or_empty x = (case x of None \<Rightarrow> [] | Some s \<Rightarrow> s)"

definition unpack_identity :: "raw_identity \<Rightarrow> identity option" where
  "unpack_identity r =
     (let i = \<lparr> id_user = or_empty (ri_user r), id_role = or_empty (ri_role r),
                id_label = or_empty (ri_label r), id_session = or_empty (ri_session r) \<rparr>
      in if id_user i \<noteq> [] \<and> id_role i \<noteq> [] \<and> id_label i \<noteq> [] \<and> id_session i \<noteq> [] then Some i else None)"

definition unpack_payload :: "raw_payload \<Rightarrow> (envelope \<times> identity option) option" where
  "unpack_payload p =
     (case rp_envelope p of
        None \<Rightarrow> None
      | Some e \<Rightarrow>
          if rv_schema e \<noteq> 1 then None
          else case (rv_event_id e, rv_key e, rv_error e, rv_context e) of
                 (Some i, Some k, Some err, Some ctx) \<Rightarrow>
                   Some (\<lparr> el_event_id = i, el_key = k, el_captured = rv_captured e, el_source = rv_source e,
                           el_level = rv_level e, el_error = err, el_context = ctx \<rparr>,
                         Option.bind (rp_identity p) unpack_identity)
               | _ \<Rightarrow> None)"

section \<open>Tables\<close>

datatype processing_state = Pending | Claimed | Processed | Retrying | Dead_lettered

record envelope_row =
  en_id :: string
  en_received :: millis
  en_client :: string
  en_key :: string
  en_event_id :: string
  en_payload :: raw_payload

text \<open>\<open>received_at\<close> and \<open>envelope_received_at\<close> hold the same time.\<close>

record processing_row =
  pr_envelope :: string
  pr_received :: millis
  pr_state :: processing_state
  pr_attempts :: int
  pr_next :: "millis option"
  pr_claimed_at :: "millis option"
  pr_claimed_by :: "string option"
  pr_completed :: "millis option"
  pr_error :: "string option"

record dead_row =
  dl_envelope :: string
  dl_received :: millis
  dl_code :: string
  dl_payload :: "envelope option"
  dl_retries :: int

datatype severity = Sev_critical | Sev_high | Sev_medium | Sev_low

datatype issue_status = New | Acknowledged | Investigating | Resolved | Ignored | Regressed

record issue_row =
  is_id :: string
  is_fingerprint :: string
  is_title :: string
  is_code :: string
  is_type :: string
  is_source :: string
  is_severity :: severity
  is_status :: issue_status
  is_first :: millis
  is_last :: millis
  is_count :: int
  is_users :: int
  is_assigned :: "string option"

record event_row =
  oc_issue :: string
  oc_event_id :: string
  oc_client :: string
  oc_occurred :: millis
  oc_received :: millis
  oc_source :: string
  oc_severity :: severity
  oc_user :: "string option"
  oc_code :: string
  oc_message :: string

datatype activity_type =
    Was_created | Was_acknowledged | Was_investigating | Was_resolved | Was_ignored | Was_regressed
  | Was_assigned | Was_unassigned | Was_commented

record activity_row =
  ay_issue :: string
  ay_type :: activity_type
  ay_at :: millis
  ay_actor :: "string option"
  ay_comment :: "string option"

datatype channel = Zalo | Email

record alert_rule =
  ru_id :: string
  ru_minimum :: severity
  ru_source :: "string option"
  ru_code :: "string option"
  ru_channel :: channel
  ru_recipient :: string

datatype delivery_kind = Kind_new | Kind_digest | Kind_reminder | Kind_escalation | Kind_resolved | Kind_regressed

record delivery_row =
  dv_issue :: string
  dv_rule :: string
  dv_kind :: delivery_kind
  dv_channel :: channel
  dv_requested :: millis
  dv_recipient :: string
  dv_key :: string

text \<open>
  \<open>td_keys\<close> is ingest_idempotency: the event and the hash of the payload by client and key.
  \<open>td_envelope_months\<close> and \<open>td_event_months\<close> are the ranges of the partitions.
\<close>

record telemetry_db =
  td_clients :: "string list"
  td_keys :: "((string \<times> string) \<times> (string \<times> string)) list"
  td_envelopes :: "envelope_row list"
  td_processing :: "processing_row list"
  td_dead :: "dead_row list"
  td_issues :: "issue_row list"
  td_events :: "event_row list"
  td_affected :: "(string \<times> string) list"
  td_activity :: "activity_row list"
  td_rules :: "(alert_rule \<times> bool) list"
  td_deliveries :: "delivery_row list"
  td_envelope_months :: "(millis \<times> millis) list"
  td_event_months :: "(millis \<times> millis) list"

datatype telemetry_error = Idempotency_conflict | Constraint_violation | Other_failure string

type_synonym 'a telemetry_prog = "(telemetry_db, telemetry_error, 'a) prog"

definition has_partition :: "(millis \<times> millis) list \<Rightarrow> millis \<Rightarrow> bool" where
  "has_partition rs t \<longleftrightarrow> (\<exists>(a, b) \<in> set rs. a \<le> t \<and> t < b)"

definition telemetry_sources :: "string list" where
  "telemetry_sources = [''browser'', ''api'', ''database'', ''document_store'', ''job'', ''provider'', ''process'',
     ''deployment'', ''synthetic'']"

section \<open>Accepting an envelope\<close>

record ingest_record =
  ig_id :: string
  ig_received :: millis
  ig_client :: string
  ig_key :: string
  ig_event_id :: string
  ig_source :: string
  ig_payload :: raw_payload
  ig_hash :: string

text \<open>
  \<open>char_length\<close> counts characters; the texts of a row are the bytes of their UTF-8, so it skips the bytes that
  continue a character.
\<close>

definition char_length :: "string \<Rightarrow> nat" where
  "char_length s = length (filter (\<lambda>c. \<not> (128 \<le> (of_char c :: nat) \<and> (of_char c :: nat) < 192)) s)"

definition acceptable :: "ingest_record \<Rightarrow> telemetry_db \<Rightarrow> bool" where
  "acceptable i db \<longleftrightarrow>
     ig_client i \<in> set (td_clients db) \<and> char_length (ig_key i) \<in> {16..255} \<and> char_length (ig_event_id i) \<in> {8..64} \<and>
     ig_event_id i \<notin> fst ` snd ` set (td_keys db) \<and> ig_source i \<in> set telemetry_sources \<and>
     has_partition (td_envelope_months db) (ig_received i) \<and>
     (ig_id i, ig_received i) \<notin> (\<lambda>e. (en_id e, en_received e)) ` set (td_envelopes db)"

definition accepted_envelope :: "ingest_record \<Rightarrow> envelope_row" where
  "accepted_envelope i =
     \<lparr> en_id = ig_id i, en_received = ig_received i, en_client = ig_client i, en_key = ig_key i,
       en_event_id = ig_event_id i, en_payload = ig_payload i \<rparr>"

definition fresh_processing :: "ingest_record \<Rightarrow> processing_row" where
  "fresh_processing i =
     \<lparr> pr_envelope = ig_id i, pr_received = ig_received i, pr_state = Pending, pr_attempts = 0, pr_next = None,
       pr_claimed_at = None, pr_claimed_by = None, pr_completed = None, pr_error = None \<rparr>"

text \<open>The answer is \<open>duplicate\<close>.\<close>

definition insert_raw :: "ingest_record \<Rightarrow> bool telemetry_prog" where
  "insert_raw i db =
     (case map_of (td_keys db) (ig_client i, ig_key i) of
        Some (event, hash) \<Rightarrow>
          if event \<noteq> ig_event_id i \<or> hash \<noteq> ig_hash i then (Inl Idempotency_conflict, db) else (Inr True, db)
      | None \<Rightarrow>
          if \<not> acceptable i db then (Inl Constraint_violation, db)
          else (Inr False,
                db\<lparr>td_keys := td_keys db @ [((ig_client i, ig_key i), (ig_event_id i, ig_hash i))],
                   td_envelopes := td_envelopes db @ [accepted_envelope i],
                   td_processing := td_processing db @ [fresh_processing i]\<rparr>))"

section \<open>The queue\<close>

record claim =
  cl_envelope :: string
  cl_received :: millis
  cl_client :: string
  cl_attempts :: int
  cl_payload :: raw_payload

definition ready :: "millis \<Rightarrow> processing_row \<Rightarrow> bool" where
  "ready now r \<longleftrightarrow>
     pr_state r \<in> {Pending, Retrying} \<and> (case pr_next r of None \<Rightarrow> True | Some t \<Rightarrow> t \<le> now)"

definition envelope_of :: "processing_row \<Rightarrow> telemetry_db \<Rightarrow> envelope_row option" where
  "envelope_of r db = find (\<lambda>e. en_id e = pr_envelope r \<and> en_received e = pr_received r) (td_envelopes db)"

definition update_processing ::
  "(processing_row \<Rightarrow> bool) \<Rightarrow> (processing_row \<Rightarrow> processing_row) \<Rightarrow> telemetry_db \<Rightarrow> telemetry_db" where
  "update_processing p f db =
     db\<lparr>td_processing := map (\<lambda>r. if p r then f r else r) (td_processing db)\<rparr>"

text \<open>The statement of \<open>claimNext\<close>; of rows received at the same time it takes the first.\<close>

definition claim_row :: "string \<Rightarrow> millis \<Rightarrow> telemetry_db \<Rightarrow> claim option \<times> telemetry_db" where
  "claim_row worker now db =
     (case sort_key pr_received (filter (\<lambda>r. ready now r \<and> envelope_of r db \<noteq> None) (td_processing db)) of
        [] \<Rightarrow> (None, db)
      | r # _ \<Rightarrow>
          (case envelope_of r db of
             None \<Rightarrow> (None, db)
           | Some e \<Rightarrow>
               (Some \<lparr> cl_envelope = pr_envelope r, cl_received = en_received e, cl_client = en_client e,
                       cl_attempts = pr_attempts r, cl_payload = en_payload e \<rparr>,
                update_processing (\<lambda>q. pr_envelope q = pr_envelope r \<and> pr_received q = pr_received r)
                  (\<lambda>q. q\<lparr>pr_state := Claimed, pr_claimed_at := Some now, pr_claimed_by := Some worker\<rparr>) db)))"

definition mark_retry :: "int \<Rightarrow> string \<Rightarrow> millis \<Rightarrow> telemetry_db \<Rightarrow> telemetry_db" where
  "mark_retry limit e now =
     update_processing (\<lambda>r. pr_envelope r = e \<and> pr_state r = Claimed)
       (\<lambda>r. let last = limit \<le> pr_attempts r + 1
             in r\<lparr>pr_state := if last then Dead_lettered else Retrying,
                  pr_attempts := pr_attempts r + 1,
                  pr_next := if last then None else Some (now + 60000),
                  pr_claimed_at := None, pr_claimed_by := None,
                  pr_completed := if last then Some now else None,
                  pr_error := Some (if last then ''PROCESSING_RETRY_LIMIT'' else ''PROCESSING_FAILED'')\<rparr>)"

definition release_expired_claims :: "millis \<Rightarrow> telemetry_db \<Rightarrow> telemetry_db" where
  "release_expired_claims now =
     update_processing
       (\<lambda>r. pr_state r = Claimed \<and> (case pr_claimed_at r of None \<Rightarrow> False | Some t \<Rightarrow> t < now - 300000))
       (\<lambda>r. r\<lparr>pr_state := Retrying, pr_next := Some now, pr_claimed_at := None, pr_claimed_by := None,
              pr_error := Some ''CLAIM_TIMEOUT''\<rparr>)"

definition dead_letter_payload ::
  "string \<Rightarrow> envelope option \<Rightarrow> int \<Rightarrow> millis \<Rightarrow> string \<Rightarrow> telemetry_db \<Rightarrow> telemetry_db" where
  "dead_letter_payload e payload attempts now code db =
     (let p = (\<lambda>r. pr_envelope r = e \<and> pr_state r = Claimed)
      in if filter p (td_processing db) = [] then db
         else (update_processing p
                 (\<lambda>r. r\<lparr>pr_state := Dead_lettered, pr_attempts := max (pr_attempts r) attempts, pr_next := None,
                        pr_claimed_at := None, pr_claimed_by := None, pr_completed := Some now,
                        pr_error := Some code\<rparr>) db)
              \<lparr>td_dead := td_dead db @
                 [\<lparr> dl_envelope = e, dl_received = now, dl_code = code, dl_payload = payload,
                    dl_retries = attempts \<rparr>]\<rparr>)"

definition dead_letter :: "string \<Rightarrow> envelope \<Rightarrow> int \<Rightarrow> millis \<Rightarrow> telemetry_db \<Rightarrow> telemetry_db" where
  "dead_letter e envelope attempts now = dead_letter_payload e (Some envelope) attempts now ''PROCESSING_FAILED''"

definition default_queue_limit :: int where
  "default_queue_limit = 10"

definition limit_ok :: "int \<Rightarrow> bool" where
  "limit_ok limit \<longleftrightarrow> 1 \<le> limit \<and> limit \<le> 100"

record claimed_envelope =
  ce_envelope :: string
  ce_received :: millis
  ce_client :: string
  ce_attempts :: int
  ce_content :: envelope
  ce_identity :: "identity option"

definition claim_next ::
  "int \<Rightarrow> string \<Rightarrow> millis \<Rightarrow> telemetry_db \<Rightarrow> claimed_envelope option \<times> telemetry_db" where
  "claim_next limit worker now db =
     (case claim_row worker now db of
        (None, db') \<Rightarrow> (None, db')
      | (Some c, db') \<Rightarrow>
          (case unpack_payload (cl_payload c) of
             None \<Rightarrow>
               (None,
                if limit \<le> cl_attempts c + 1
                then dead_letter_payload (cl_envelope c) None (cl_attempts c + 1) now ''INGEST_PAYLOAD_INVALID'' db'
                else mark_retry limit (cl_envelope c) now db')
           | Some (e, i) \<Rightarrow>
               (Some \<lparr> ce_envelope = cl_envelope c, ce_received = cl_received c, ce_client = cl_client c,
                       ce_attempts = cl_attempts c, ce_content = e, ce_identity = i \<rparr>, db')))"

end
