(* ===== verification/Issues.thy ===== *)
theory Issues
  imports Telemetry
begin

text \<open>
  From an envelope to its issue: normalisation (apps/processor/src/normalize/normalizeEvent.ts), the
  fingerprint (apps/processor/src/issues/fingerprint.ts), the statements of
  apps/processor/src/issues/postgresIssueRepository.ts, the transaction of
  apps/processor/src/issues/processEnvelope.ts, one turn of the processor (apps/processor/src/index.ts)
  and the workflow of an issue (apps/api/src/modules/issues/postgresIssueWorkflow.ts).

  Parameters (\<open>processor_env\<close>): \<open>Date.parse\<close>, SHA-256, the source maps (\<open>None\<close> when there are none;
  \<open>Some None\<close> when they throw) and the users that are active. Text is of the first 256 code points.
\<close>

section \<open>Normalisation\<close>

record event =
  ev_id :: string
  ev_occurred :: millis
  ev_received :: millis
  ev_source :: string
  ev_severity :: severity
  ev_code :: string
  ev_type :: string
  ev_message :: string
  ev_service :: string
  ev_release :: string
  ev_client :: "string option"
  ev_request :: "string option"
  ev_trace :: "string option"
  ev_route :: "string option"
  ev_identity :: "identity option"
  ev_tags :: "(string \<times> string) list"
  ev_breadcrumbs :: "(string \<times> string \<times> string) list"
  ev_frames :: "string list"
  ev_stack :: "string option"
  ev_component :: "string option"

record processor_env =
  pe_parse_date :: "string \<Rightarrow> millis option"
  pe_digest :: "string \<Rightarrow> string"
  pe_source_maps :: "(event \<Rightarrow> string list option) option"
  pe_active_user :: "string \<Rightarrow> bool"

fun split_at_char :: "char \<Rightarrow> string \<Rightarrow> string list" where
  "split_at_char c [] = [[]]"
| "split_at_char c (x # s) =
     (if x = c then [] # split_at_char c s
      else case split_at_char c s of [] \<Rightarrow> [[x]] | y # ys \<Rightarrow> (x # y) # ys)"

definition newline :: char where
  "newline = char_of (10 :: nat)"

definition strip_at :: "string \<Rightarrow> string" where
  "strip_at s =
     (let rest = drop 2 s
      in if starts_with ''at'' s \<and> rest \<noteq> [] \<and> white (hd rest) then dropWhile white rest else s)"

definition kept_frame :: "string \<Rightarrow> bool" where
  "kept_frame s \<longleftrightarrow>
     s \<noteq> [] \<and> \<not> starts_with ''Error:'' s \<and> \<not> starts_with ''TypeError:'' s \<and>
     \<not> list_ex (\<lambda>p. starts_with (p @ ''-extension:'') (to_lower s)) [''chrome'', ''moz'', ''safari''] \<and>
     \<not> contains_str ''node_modules'' (to_lower s) \<and> \<not> contains_str ''<anonymous>'' (to_lower s)"

definition stack_frames :: "string option \<Rightarrow> string list" where
  "stack_frames stack =
     (case truthy stack of
        None \<Rightarrow> []
      | Some s \<Rightarrow> take 8 (filter kept_frame (map (strip_at \<circ> js_trim) (split_at_char newline s))))"

definition severity_of :: "envelope \<Rightarrow> severity" where
  "severity_of e =
     (if el_level e = Level_fatal then Sev_critical
      else if list_ex (\<lambda>w. contains_str w (te_code (el_error e)))
                [''DB_UNAVAILABLE'', ''AUTH_UNAVAILABLE'', ''DATA_LOSS'', ''WAL_'', ''BACKUP_'']
      then Sev_critical
      else if el_source e \<in> {''database'', ''process'', ''deployment''} then Sev_high
      else if el_level e = Level_warning then Sev_low else Sev_medium)"

definition occurred_at :: "processor_env \<Rightarrow> string \<Rightarrow> millis \<Rightarrow> millis" where
  "occurred_at env s fallback = (case pe_parse_date env s of None \<Rightarrow> fallback | Some t \<Rightarrow> t)"

definition normalize_event :: "processor_env \<Rightarrow> millis \<Rightarrow> envelope \<Rightarrow> identity option \<Rightarrow> string option \<Rightarrow> event" where
  "normalize_event env received e i client =
     \<lparr> ev_id = el_event_id e, ev_occurred = occurred_at env (el_captured e) received, ev_received = received,
       ev_source = el_source e, ev_severity = severity_of e, ev_code = te_code (el_error e),
       ev_type = te_name (el_error e), ev_message = te_message (el_error e),
       ev_service = tc_service (el_context e), ev_release = tc_release (el_context e),
       ev_client = truthy client, ev_request = truthy (tc_request (el_context e)),
       ev_trace = truthy (tc_trace (el_context e)), ev_route = truthy (tc_route (el_context e)),
       ev_identity = i,
       ev_tags = (case tc_tags (el_context e) of None \<Rightarrow> [] | Some t \<Rightarrow> t),
       ev_breadcrumbs = (case tc_breadcrumbs (el_context e) of None \<Rightarrow> [] | Some b \<Rightarrow> b),
       ev_frames = stack_frames (te_stack (el_error e)), ev_stack = truthy (te_stack (el_error e)),
       ev_component = truthy (te_component (el_error e)) \<rparr>"

section \<open>Fingerprints\<close>

text \<open>\<open>replace(/:\d+:\d+/g, ':<line>:<column>')\<close>.\<close>

function blur_positions :: "string \<Rightarrow> string" where
  "blur_positions [] = []"
| "blur_positions (c # s) =
     (let rest = dropWhile is_digit s;
          after = dropWhile is_digit (tl rest)
      in if c = CHR '':'' \<and> s \<noteq> rest \<and> rest \<noteq> [] \<and> hd rest = CHR '':'' \<and> tl rest \<noteq> after
         then '':<line>:<column>'' @ blur_positions after
         else c # blur_positions s)"
  by pat_completeness auto
termination
proof (relation "measure length", goal_cases)
  case (2 c s rest after)
  have "length after \<le> length (tl rest)" unfolding 2(2) by (rule length_dropWhile_le)
  also have "\<dots> \<le> length rest" by simp
  also have "\<dots> \<le> length s" unfolding 2(1) by (rule length_dropWhile_le)
  finally show ?case by simp
qed auto

text \<open>\<open>replace(/\s+/g, ' ')\<close>.\<close>

function single_spaces :: "string \<Rightarrow> string" where
  "single_spaces [] = []"
| "single_spaces (c # s) =
     (if white c then CHR '' '' # single_spaces (dropWhile white s) else c # single_spaces s)"
  by pat_completeness auto
termination
  by (relation "measure length") (auto simp: le_imp_less_Suc length_dropWhile_le)

definition normalized_frame :: "string \<Rightarrow> string" where
  "normalized_frame f = js_trim (single_spaces (blur_positions f))"

definition place_of :: "event \<Rightarrow> string" where
  "place_of e =
     (case ev_route e of
        Some r \<Rightarrow> r
      | None \<Rightarrow> (case map_of (ev_tags e) ''jobName'' of Some j \<Rightarrow> j | None \<Rightarrow> ''no-route''))"

definition fingerprint_event :: "processor_env \<Rightarrow> event \<Rightarrow> string" where
  "fingerprint_event env e =
     ''sha256:'' @ pe_digest env (join [newline]
       ([''v1'', ev_code e, ev_service e, ev_type e, place_of e] @ map normalized_frame (take 5 (ev_frames e))))"

section \<open>Statements on issues\<close>

definition issue_sources :: "string list" where
  "issue_sources = [''browser'', ''api'', ''database'', ''job'', ''provider'', ''process'', ''synthetic'']"

definition find_issue :: "string \<Rightarrow> issue_row option telemetry_prog" where
  "find_issue fp = gets (\<lambda>db. find (\<lambda>i. is_fingerprint i = fp) (td_issues db))"

definition add_activity ::
  "string \<Rightarrow> activity_type \<Rightarrow> millis \<Rightarrow> string option \<Rightarrow> string option \<Rightarrow> telemetry_db \<Rightarrow> telemetry_db" where
  "add_activity issue kind at actor comment db =
     db\<lparr>td_activity := td_activity db @
          [\<lparr> ay_issue = issue, ay_type = kind, ay_at = at, ay_actor = actor, ay_comment = comment \<rparr>]\<rparr>"

definition new_issue :: "string \<Rightarrow> string \<Rightarrow> event \<Rightarrow> issue_row" where
  "new_issue i fp e =
     \<lparr> is_id = i, is_fingerprint = fp, is_title = ev_message e, is_code = ev_code e, is_type = ev_type e,
       is_source = ev_source e, is_severity = ev_severity e, is_status = New, is_first = ev_occurred e,
       is_last = ev_occurred e, is_count = 0, is_users = 0, is_assigned = None \<rparr>"

text \<open>The CHECK on the source comes before the conflict on the fingerprint.\<close>

definition create_issue :: "string \<Rightarrow> string \<Rightarrow> event \<Rightarrow> (issue_row \<times> bool) telemetry_prog" where
  "create_issue i fp e db =
     (if ev_source e \<notin> set issue_sources then (Inl Constraint_violation, db)
      else case find (\<lambda>q. is_fingerprint q = fp) (td_issues db) of
             Some q \<Rightarrow> (Inr (q, False), db)
           | None \<Rightarrow>
               if i \<in> is_id ` set (td_issues db) then (Inl Constraint_violation, db)
               else (Inr (new_issue i fp e, True),
                     add_activity i Was_created (ev_occurred e) None None
                       (db\<lparr>td_issues := td_issues db @ [new_issue i fp e]\<rparr>)))"

definition event_user :: "event \<Rightarrow> string option" where
  "event_user e = truthy (map_option id_user (ev_identity e))"

definition occurrence :: "string \<Rightarrow> string \<Rightarrow> event \<Rightarrow> event_row" where
  "occurrence issue client e =
     \<lparr> oc_issue = issue, oc_event_id = ev_id e, oc_client = client, oc_occurred = ev_occurred e,
       oc_received = ev_received e, oc_source = ev_source e, oc_severity = ev_severity e,
       oc_user = map_option id_user (ev_identity e), oc_code = ev_code e, oc_message = ev_message e \<rparr>"

text \<open>The answer is \<open>inserted\<close> and \<open>newAffectedUser\<close>; the INSERT always returns its row.\<close>

definition insert_occurrence :: "string \<Rightarrow> event \<Rightarrow> (bool \<times> bool) telemetry_prog" where
  "insert_occurrence issue e db =
     (case ev_client e of
        None \<Rightarrow> (Inl (Other_failure ''Normalized event is missing its ingest client identity''), db)
      | Some client \<Rightarrow>
          if issue \<notin> is_id ` set (td_issues db) \<or> client \<notin> set (td_clients db) \<or>
             ev_source e \<notin> set telemetry_sources \<or> \<not> has_partition (td_event_months db) (ev_occurred e) \<or>
             (case ev_identity e of None \<Rightarrow> False | Some i \<Rightarrow> 64 < length (id_session i))
          then (Inl Constraint_violation, db)
          else let db' = db\<lparr>td_events := td_events db @ [occurrence issue client e]\<rparr>
               in (case event_user e of
                     None \<Rightarrow> (Inr (True, False), db')
                   | Some u \<Rightarrow>
                       if (issue, u) \<in> set (td_affected db') then (Inr (True, False), db')
                       else (Inr (True, True), db'\<lparr>td_affected := td_affected db' @ [(issue, u)]\<rparr>)))"

definition update_issue ::
  "string \<Rightarrow> issue_status \<Rightarrow> int \<Rightarrow> int \<Rightarrow> millis \<Rightarrow> telemetry_db \<Rightarrow> telemetry_db" where
  "update_issue issue status n users seen db =
     db\<lparr>td_issues := map (\<lambda>i. if is_id i = issue
                            then i\<lparr>is_status := status, is_count := n, is_users := users, is_last := seen\<rparr>
                            else i) (td_issues db)\<rparr>"

definition mark_processed :: "string \<Rightarrow> millis \<Rightarrow> telemetry_db \<Rightarrow> telemetry_db" where
  "mark_processed e now =
     update_processing (\<lambda>r. pr_envelope r = e \<and> pr_state r = Claimed)
       (\<lambda>r. r\<lparr>pr_state := Processed, pr_claimed_by := None, pr_completed := Some now\<rparr>)"

section \<open>Processing an envelope\<close>

datatype state_change = Issue_created | Issue_regressed

record processing_result =
  ps_issue :: string
  ps_fingerprint :: string
  ps_duplicate :: bool
  ps_change :: "state_change option"
  ps_notify :: bool

definition symbolicated :: "processor_env \<Rightarrow> event \<Rightarrow> event" where
  "symbolicated env e =
     (case (pe_source_maps env, ev_stack e) of
        (Some maps, Some _) \<Rightarrow> (case maps e of None \<Rightarrow> e | Some frames \<Rightarrow> e\<lparr>ev_frames := frames\<rparr>)
      | _ \<Rightarrow> e)"

text \<open>
  The body of the transaction: \<open>new_id\<close> is the random key of a new issue, \<open>now\<close> the clock of the
  database.
\<close>

definition process_event ::
  "string \<Rightarrow> millis \<Rightarrow> string \<Rightarrow> string \<Rightarrow> event \<Rightarrow> processing_result telemetry_prog" where
  "process_event new_id now envelope fp e =
     bind_prog (find_issue fp) (\<lambda>found.
     bind_prog (case found of Some i \<Rightarrow> ret (i, False) | None \<Rightarrow> create_issue new_id fp e) (\<lambda>(issue, created).
     bind_prog (insert_occurrence (is_id issue) e) (\<lambda>(inserted, new_user).
       if \<not> inserted
       then then_prog (modify (mark_processed envelope now))
              (ret \<lparr> ps_issue = is_id issue, ps_fingerprint = fp, ps_duplicate = True, ps_change = None,
                     ps_notify = False \<rparr>)
       else
         let next = (if is_status issue = Resolved then Regressed else is_status issue);
             regressed = (next = Regressed \<and> is_status issue \<noteq> Regressed);
             change = (if regressed then Some Issue_regressed else if created then Some Issue_created else None)
         in then_prog (when_prog regressed
              (modify (add_activity (is_id issue) Was_regressed (ev_occurred e) None None)))
            (then_prog (modify (update_issue (is_id issue) next (is_count issue + 1)
                (is_users issue + (if new_user then 1 else 0)) (ev_occurred e)))
            (then_prog (modify (mark_processed envelope now))
              (ret \<lparr> ps_issue = is_id issue, ps_fingerprint = fp, ps_duplicate = False, ps_change = change,
                     ps_notify = (next \<noteq> Ignored \<and> change \<noteq> None) \<rparr>))))))"

text \<open>\<open>aborts\<close>: the database breaks the transaction off, as when its connection is lost.\<close>

definition process_envelope ::
  "processor_env \<Rightarrow> string \<Rightarrow> millis \<Rightarrow> bool \<Rightarrow> claimed_envelope \<Rightarrow> processing_result telemetry_prog" where
  "process_envelope env new_id now aborts c =
     (let e = symbolicated env
                (normalize_event env (ce_received c) (ce_content c) (ce_identity c) (Some (ce_client c)))
      in in_transaction
           (then_prog (when_prog aborts (throw (Other_failure ''aborted'')))
             (process_event new_id now (ce_envelope c) (fingerprint_event env e) e)))"

section \<open>A turn of the processor\<close>

datatype turn = Idle | Done | Turn_retried | Turn_dead_lettered

text \<open>\<open>limit\<close> is the limit of the turn, \<open>queue_limit\<close> that of the queue.\<close>

definition run_processor_once ::
  "processor_env \<Rightarrow> int \<Rightarrow> int \<Rightarrow> string \<Rightarrow> string \<Rightarrow> millis \<Rightarrow> bool \<Rightarrow> telemetry_db
     \<Rightarrow> (telemetry_error + turn) \<times> telemetry_db" where
  "run_processor_once env queue_limit limit worker new_id now aborts db =
     (if \<not> limit_ok limit then (Inl (Other_failure ''Processor max attempts must be between 1 and 100''), db)
      else case claim_next queue_limit worker now db of
             (None, db') \<Rightarrow> (Inr Idle, db')
           | (Some c, db') \<Rightarrow>
               (case process_envelope env new_id now aborts c db' of
                  (Inr _, db'') \<Rightarrow> (Inr Done, db'')
                | (Inl _, db'') \<Rightarrow>
                    let attempts = ce_attempts c + 1
                    in if limit \<le> attempts
                       then (Inr Turn_dead_lettered, dead_letter (ce_envelope c) (ce_content c) attempts now db'')
                       else (Inr Turn_retried, mark_retry queue_limit (ce_envelope c) now db'')))"

section \<open>The workflow of an issue\<close>

definition activity_of :: "issue_status \<Rightarrow> activity_type" where
  "activity_of s =
     (case s of Acknowledged \<Rightarrow> Was_acknowledged | Investigating \<Rightarrow> Was_investigating
      | Resolved \<Rightarrow> Was_resolved | Ignored \<Rightarrow> Was_ignored | New \<Rightarrow> Was_created | Regressed \<Rightarrow> Was_regressed)"

text \<open>Statuses of the workflow are acknowledged, investigating, resolved and ignored.\<close>

definition issue_transition ::
  "string \<Rightarrow> string \<Rightarrow> issue_status \<Rightarrow> millis \<Rightarrow> telemetry_db \<Rightarrow> bool \<times> telemetry_db" where
  "issue_transition issue actor status now db =
     (if issue \<in> is_id ` set (td_issues db)
      then (True, add_activity issue (activity_of status) now (Some actor) None
              (db\<lparr>td_issues := map (\<lambda>i. if is_id i = issue then i\<lparr>is_status := status\<rparr> else i) (td_issues db)\<rparr>))
      else (False, db))"

definition issue_assign ::
  "processor_env \<Rightarrow> string \<Rightarrow> string \<Rightarrow> string option \<Rightarrow> millis \<Rightarrow> telemetry_db \<Rightarrow> bool \<times> telemetry_db" where
  "issue_assign env issue actor assignee now db =
     (let p = (\<lambda>i. is_id i = issue \<and>
                 (case truthy assignee of None \<Rightarrow> is_assigned i \<noteq> None | Some u \<Rightarrow> pe_active_user env u))
      in if filter p (td_issues db) = [] then (False, db)
         else (True,
               add_activity issue (if truthy assignee = None then Was_unassigned else Was_assigned) now
                 (Some actor) None
                 (db\<lparr>td_issues := map (\<lambda>i. if p i then i\<lparr>is_assigned := truthy assignee\<rparr> else i) (td_issues db)\<rparr>)))"

definition issue_comment :: "string \<Rightarrow> string \<Rightarrow> string \<Rightarrow> millis \<Rightarrow> telemetry_db \<Rightarrow> bool \<times> telemetry_db" where
  "issue_comment issue actor comment now db =
     (let text = js_trim comment
      in if length text < 1 \<or> 2000 < length text then (False, db)
         else if issue \<in> is_id ` set (td_issues db)
         then (True, add_activity issue Was_commented now (Some actor) (Some text) db)
         else (False, db))"

end
