(* ===== verification/Alerts.thy ===== *)
theory Alerts
  imports Telemetry
begin

text \<open>
  Alerts of issues: the policy (apps/notifier/src/policy/alertPolicy.ts), the matching of rules
  (apps/notifier/src/outbox/scheduleAlerts.ts), the outbox (postgresAlertOutbox.ts) and the scheduler
  (postgresAlertScheduler.ts). \<open>Date.prototype.toISOString\<close> is the parameter \<open>iso8601\<close>. Of rows that a
  query orders alike the model takes the later one first.
\<close>

datatype alert_event = On_created | On_regressed | On_resolved | On_tick

record planned_alert =
  pa_kind :: delivery_kind
  pa_at :: millis
  pa_key :: string
  pa_owner :: bool

definition minute_key :: "(millis \<Rightarrow> string) \<Rightarrow> millis \<Rightarrow> string" where
  "minute_key iso8601 t = take 16 (iso8601 t)"

definition plan_issue_alerts ::
  "(millis \<Rightarrow> string) \<Rightarrow> issue_row \<Rightarrow> millis \<Rightarrow> alert_event \<Rightarrow> planned_alert list" where
  "plan_issue_alerts iso8601 i now event =
     (if is_status i = Ignored then []
      else case event of
        On_resolved \<Rightarrow>
          [\<lparr> pa_kind = Kind_resolved, pa_at = now, pa_key = is_id i @ '':resolved:'' @ minute_key iso8601 now,
             pa_owner = False \<rparr>]
      | On_regressed \<Rightarrow>
          [\<lparr> pa_kind = Kind_regressed, pa_at = now, pa_key = is_id i @ '':regressed:'' @ minute_key iso8601 now,
             pa_owner = False \<rparr>]
      | On_created \<Rightarrow>
          if is_severity i = Sev_critical
          then [\<lparr> pa_kind = Kind_new, pa_at = now, pa_key = is_id i @ '':new'', pa_owner = False \<rparr>]
          else [\<lparr> pa_kind = Kind_digest, pa_at = now + 300000,
                  pa_key = is_id i @ '':digest:'' @ minute_key iso8601 (now + 300000), pa_owner = False \<rparr>]
      | On_tick \<Rightarrow>
          if is_severity i = Sev_critical \<and> is_status i = New
          then let elapsed = (now - is_first i) div 60000
               in if 15 \<le> elapsed
                  then [\<lparr> pa_kind = Kind_escalation, pa_at = now, pa_key = is_id i @ '':escalation:1'',
                          pa_owner = True \<rparr>]
                  else if 5 \<le> elapsed
                  then [\<lparr> pa_kind = Kind_reminder, pa_at = now, pa_key = is_id i @ '':reminder:1'',
                          pa_owner = False \<rparr>]
                  else []
          else [])"

fun severity_rank :: "severity \<Rightarrow> nat" where
  "severity_rank Sev_critical = 4"
| "severity_rank Sev_high = 3"
| "severity_rank Sev_medium = 2"
| "severity_rank Sev_low = 1"

definition rule_matches :: "alert_rule \<Rightarrow> issue_row \<Rightarrow> bool" where
  "rule_matches r i \<longleftrightarrow>
     severity_rank (ru_minimum r) \<le> severity_rank (is_severity i) \<and>
     (case truthy (ru_source r) of None \<Rightarrow> True | Some s \<Rightarrow> s = is_source i) \<and>
     (case truthy (ru_code r) of None \<Rightarrow> True | Some c \<Rightarrow> c = is_code i)"

definition delivery_of :: "issue_row \<Rightarrow> planned_alert \<Rightarrow> alert_rule \<Rightarrow> delivery_row" where
  "delivery_of i a r =
     \<lparr> dv_issue = is_id i, dv_rule = ru_id r, dv_kind = pa_kind a, dv_channel = ru_channel r,
       dv_requested = pa_at a, dv_recipient = ru_recipient r, dv_key = pa_key a @ '':'' @ ru_id r \<rparr>"

definition schedule_issue_alerts ::
  "(millis \<Rightarrow> string) \<Rightarrow> issue_row \<Rightarrow> alert_event \<Rightarrow> millis \<Rightarrow> alert_rule list \<Rightarrow> delivery_row list" where
  "schedule_issue_alerts iso8601 i event at rules =
     concat (map (\<lambda>a. map (delivery_of i a) (filter (\<lambda>r. rule_matches r i) rules))
       (plan_issue_alerts iso8601 i at event))"

text \<open>\<open>ON CONFLICT (dedup_key) DO NOTHING\<close>. The rule and the issue exist, for rows refer to both.\<close>

definition insert_delivery :: "delivery_row \<Rightarrow> telemetry_db \<Rightarrow> telemetry_db" where
  "insert_delivery d db =
     (if dv_key d \<in> dv_key ` set (td_deliveries db) then db
      else db\<lparr>td_deliveries := td_deliveries db @ [d]\<rparr>)"

definition enabled_rules :: "telemetry_db \<Rightarrow> alert_rule list" where
  "enabled_rules db = map fst (filter snd (td_rules db))"

definition enqueue :: "(millis \<Rightarrow> string) \<Rightarrow> issue_row \<Rightarrow> alert_event \<Rightarrow> millis \<Rightarrow> telemetry_db \<Rightarrow> telemetry_db" where
  "enqueue iso8601 i event at db = fold insert_delivery (schedule_issue_alerts iso8601 i event at (enabled_rules db)) db"

section \<open>The scheduler\<close>

definition alert_event_of :: "activity_type \<Rightarrow> alert_event option" where
  "alert_event_of k =
     (case k of Was_created \<Rightarrow> Some On_created | Was_regressed \<Rightarrow> Some On_regressed
      | Was_resolved \<Rightarrow> Some On_resolved | _ \<Rightarrow> None)"

definition already_scheduled :: "activity_type \<Rightarrow> string \<Rightarrow> telemetry_db \<Rightarrow> bool" where
  "already_scheduled k issue db \<longleftrightarrow>
     (\<exists>d \<in> set (td_deliveries db). dv_issue d = issue \<and>
        (k = Was_created \<and> dv_kind d \<in> {Kind_new, Kind_digest} \<or>
         k = Was_regressed \<and> dv_kind d = Kind_regressed \<or>
         k = Was_resolved \<and> dv_kind d = Kind_resolved))"

definition pending_activities :: "telemetry_db \<Rightarrow> (activity_row \<times> issue_row) list" where
  "pending_activities db =
     rev (sort_key (\<lambda>(a, i). ay_at a)
       (concat (map (\<lambda>a. map (Pair a) (filter (\<lambda>i. is_id i = ay_issue a \<and> alert_event_of (ay_type a) \<noteq> None \<and>
                is_status i \<noteq> Ignored \<and> \<not> already_scheduled (ay_type a) (is_id i) db) (td_issues db)))
          (td_activity db))))"

definition critical_issues :: "telemetry_db \<Rightarrow> issue_row list" where
  "critical_issues db =
     sort_key is_first (filter (\<lambda>i. is_severity i = Sev_critical \<and> is_status i = New) (td_issues db))"

definition enqueue_activity ::
  "(millis \<Rightarrow> string) \<Rightarrow> activity_row \<times> issue_row \<Rightarrow> telemetry_db \<Rightarrow> telemetry_db" where
  "enqueue_activity iso8601 ai db =
     (case alert_event_of (ay_type (fst ai)) of
        None \<Rightarrow> db
      | Some event \<Rightarrow> enqueue iso8601 (snd ai) event (ay_at (fst ai)) db)"

definition schedule :: "(millis \<Rightarrow> string) \<Rightarrow> millis \<Rightarrow> telemetry_db \<Rightarrow> telemetry_db" where
  "schedule iso8601 now db =
     (let db' = fold (enqueue_activity iso8601) (take 100 (pending_activities db)) db
      in fold (\<lambda>i. enqueue iso8601 i On_tick now) (take 100 (critical_issues db')) db')"

section \<open>What a turn of the scheduler does\<close>

lemma insert_delivery_sets:
  "set (td_deliveries (insert_delivery d db)) \<subseteq> insert d (set (td_deliveries db))"
  "set (td_deliveries db) \<subseteq> set (td_deliveries (insert_delivery d db))"
  "dv_key d \<in> dv_key ` set (td_deliveries (insert_delivery d db))"
  by (auto simp: insert_delivery_def)

lemma insert_deliveries_new:
  "set (td_deliveries (fold insert_delivery ds db)) \<subseteq> set (td_deliveries db) \<union> set ds"
proof (induction ds arbitrary: db)
  case (Cons d ds)
  show ?case using Cons [of "insert_delivery d db"] insert_delivery_sets(1) [of d db] by auto
qed simp

lemma insert_deliveries_keep:
  "set (td_deliveries db) \<subseteq> set (td_deliveries (fold insert_delivery ds db))"
proof (induction ds arbitrary: db)
  case (Cons d ds)
  show ?case using Cons [of "insert_delivery d db"] insert_delivery_sets(2) [of db d] by auto
qed simp

lemma insert_deliveries_keys:
  "d \<in> set ds \<Longrightarrow> dv_key d \<in> dv_key ` set (td_deliveries (fold insert_delivery ds db))"
proof (induction ds arbitrary: db)
  case (Cons x ds)
  show ?case
  proof (cases "d = x")
    case True
    have "dv_key x \<in> dv_key ` set (td_deliveries (insert_delivery x db))" by (rule insert_delivery_sets)
    then show ?thesis using True insert_deliveries_keep [of "insert_delivery x db" ds] by auto
  next
    case False
    with Cons show ?thesis by simp
  qed
qed simp

lemma insert_deliveries_other [simp]:
  "td_rules (fold insert_delivery ds db) = td_rules db"
  "td_issues (fold insert_delivery ds db) = td_issues db"
  "td_activity (fold insert_delivery ds db) = td_activity db"
  by (induction ds arbitrary: db) (simp_all add: insert_delivery_def)

lemma enqueue_new:
  "set (td_deliveries (enqueue iso8601 i event at db)) \<subseteq>
     set (td_deliveries db) \<union> set (schedule_issue_alerts iso8601 i event at (enabled_rules db))"
  unfolding enqueue_def by (rule insert_deliveries_new)

lemma enqueue_keep: "set (td_deliveries db) \<subseteq> set (td_deliveries (enqueue iso8601 i event at db))"
  unfolding enqueue_def by (rule insert_deliveries_keep)

lemma enqueue_other [simp]:
  "td_rules (enqueue iso8601 i event at db) = td_rules db"
  "td_issues (enqueue iso8601 i event at db) = td_issues db"
  "td_activity (enqueue iso8601 i event at db) = td_activity db"
  by (simp_all add: enqueue_def)

text \<open>A property of rows that every planned delivery has.\<close>

lemma schedule_all:
  assumes "\<And>ai event. ai \<in> set (pending_activities db) \<Longrightarrow> alert_event_of (ay_type (fst ai)) = Some event \<Longrightarrow>
      list_all P (schedule_issue_alerts iso8601 (snd ai) event (ay_at (fst ai)) (enabled_rules db))"
    and "\<And>i. i \<in> set (td_issues db) \<Longrightarrow>
      list_all P (schedule_issue_alerts iso8601 i On_tick now (enabled_rules db))"
    and "d \<in> set (td_deliveries (schedule iso8601 now db))"
  shows "d \<in> set (td_deliveries db) \<or> P d"
proof -
  have one: "td_rules (enqueue_activity iso8601 ai u) = td_rules u \<and>
      td_issues (enqueue_activity iso8601 ai u) = td_issues u \<and>
      (d \<in> set (td_deliveries (enqueue_activity iso8601 ai u)) \<longrightarrow> d \<in> set (td_deliveries u) \<or> P d)"
    if "ai \<in> set (pending_activities db)" "td_rules u = td_rules db" for ai u
  proof (cases "alert_event_of (ay_type (fst ai))")
    case None
    then show ?thesis by (simp add: enqueue_activity_def)
  next
    case (Some event)
    have "enabled_rules u = enabled_rules db" using that(2) by (simp add: enabled_rules_def)
    with assms(1) [OF that(1) Some] Some show ?thesis
      using enqueue_new [of iso8601 "snd ai" event "ay_at (fst ai)" u]
      by (auto simp: enqueue_activity_def list_all_iff)
  qed
  have acts: "td_rules (fold (enqueue_activity iso8601) as u) = td_rules u \<and>
      td_issues (fold (enqueue_activity iso8601) as u) = td_issues u \<and>
      (d \<in> set (td_deliveries (fold (enqueue_activity iso8601) as u)) \<longrightarrow> d \<in> set (td_deliveries u) \<or> P d)"
    if "set as \<subseteq> set (pending_activities db)" "td_rules u = td_rules db" for as u
    using that
  proof (induction as arbitrary: u)
    case (Cons a as)
    from one [of a u] Cons.prems have "td_rules (enqueue_activity iso8601 a u) = td_rules u"
      and "td_issues (enqueue_activity iso8601 a u) = td_issues u"
      and "d \<in> set (td_deliveries (enqueue_activity iso8601 a u)) \<longrightarrow> d \<in> set (td_deliveries u) \<or> P d"
      by auto
    with Cons.IH [of "enqueue_activity iso8601 a u"] Cons.prems show ?case by auto
  qed simp
  have ticks: "d \<in> set (td_deliveries (fold (\<lambda>i. enqueue iso8601 i On_tick now) is u)) \<longrightarrow>
      d \<in> set (td_deliveries u) \<or> P d" if "td_rules u = td_rules db" "set is \<subseteq> set (td_issues db)" for "is" u
    using that
  proof (induction "is" arbitrary: u)
    case (Cons i "is")
    have "enabled_rules u = enabled_rules db" using Cons.prems by (simp add: enabled_rules_def)
    then have "d \<in> set (td_deliveries (enqueue iso8601 i On_tick now u)) \<longrightarrow> d \<in> set (td_deliveries u) \<or> P d"
      using enqueue_new [of iso8601 i On_tick now u] assms(2) [of i] Cons.prems(2) by (auto simp: list_all_iff)
    with Cons.IH [of "enqueue iso8601 i On_tick now u"] Cons.prems show ?case by auto
  qed simp
  let ?u = "fold (enqueue_activity iso8601) (take 100 (pending_activities db)) db"
  have u: "td_rules ?u = td_rules db" "td_issues ?u = td_issues db" "d \<in> set (td_deliveries ?u) \<longrightarrow> d \<in> set (td_deliveries db) \<or> P d"
    using acts [of "take 100 (pending_activities db)" db] by (auto dest: in_set_takeD)
  have "set (take 100 (critical_issues ?u)) \<subseteq> set (td_issues db)"
    using u(2) by (auto simp: critical_issues_def dest!: in_set_takeD)
  from ticks [OF u(1) this] u(3) assms(3) show ?thesis
    by (auto simp: schedule_def Let_def)
qed

definition distinct_keys :: "telemetry_db \<Rightarrow> bool" where
  "distinct_keys db \<longleftrightarrow> distinct (map dv_key (td_deliveries db))"

lemma distinct_keys_insert: "distinct_keys db \<Longrightarrow> distinct_keys (insert_delivery d db)"
  by (auto simp: distinct_keys_def insert_delivery_def)

lemma distinct_keys_inserts: "distinct_keys db \<Longrightarrow> distinct_keys (fold insert_delivery ds db)"
  by (induction ds arbitrary: db) (simp_all add: distinct_keys_insert)

lemma distinct_keys_enqueue: "distinct_keys db \<Longrightarrow> distinct_keys (enqueue iso8601 i event at db)"
  unfolding enqueue_def by (rule distinct_keys_inserts)

lemma distinct_keys_activity: "distinct_keys db \<Longrightarrow> distinct_keys (enqueue_activity iso8601 ai db)"
  by (simp add: enqueue_activity_def distinct_keys_enqueue split: option.split)

lemma distinct_keys_fold:
  "(\<And>x u. distinct_keys u \<Longrightarrow> distinct_keys (f x u)) \<Longrightarrow> distinct_keys db \<Longrightarrow> distinct_keys (fold f xs db)"
  by (induction xs arbitrary: db) simp_all

lemma distinct_keys_schedule: "distinct_keys db \<Longrightarrow> distinct_keys (schedule iso8601 now db)"
  unfolding schedule_def Let_def by (intro distinct_keys_fold distinct_keys_enqueue distinct_keys_activity)

lemma fold_keeps:
  assumes "\<And>x u. set (td_deliveries u) \<subseteq> set (td_deliveries (f x u))"
  shows "set (td_deliveries db) \<subseteq> set (td_deliveries (fold f xs db))"
proof (induction xs arbitrary: db)
  case (Cons x xs)
  then show ?case using assms [of db x] Cons [of "f x db"] by auto
qed simp

lemma enqueue_activity_keep:
  "set (td_deliveries u) \<subseteq> set (td_deliveries (enqueue_activity iso8601 ai u)) \<and>
   td_rules (enqueue_activity iso8601 ai u) = td_rules u"
  using enqueue_keep by (auto simp: enqueue_activity_def split: option.split)

lemma enqueue_activities_add:
  assumes "ai \<in> set as" and "alert_event_of (ay_type (fst ai)) = Some event"
    and "d \<in> set (schedule_issue_alerts iso8601 (snd ai) event (ay_at (fst ai)) (enabled_rules db))"
  shows "dv_key d \<in> dv_key ` set (td_deliveries (fold (enqueue_activity iso8601) as db))"
  using assms
proof (induction as arbitrary: db)
  case (Cons a as)
  show ?case
  proof (cases "ai = a")
    case True
    then have "dv_key d \<in> dv_key ` set (td_deliveries (enqueue_activity iso8601 a db))"
      using Cons.prems insert_deliveries_keys by (simp add: enqueue_activity_def enqueue_def)
    moreover have "set (td_deliveries (enqueue_activity iso8601 a db)) \<subseteq>
        set (td_deliveries (fold (enqueue_activity iso8601) as (enqueue_activity iso8601 a db)))"
      by (rule fold_keeps) (use enqueue_activity_keep in blast)
    ultimately show ?thesis by auto
  next
    case False
    have "enabled_rules (enqueue_activity iso8601 a db) = enabled_rules db"
      using enqueue_activity_keep by (simp add: enabled_rules_def)
    with False Cons show ?thesis by simp
  qed
qed simp

definition kind_of :: "alert_event \<Rightarrow> severity \<Rightarrow> delivery_kind" where
  "kind_of event s =
     (case event of On_created \<Rightarrow> if s = Sev_critical then Kind_new else Kind_digest
      | On_regressed \<Rightarrow> Kind_regressed | On_resolved \<Rightarrow> Kind_resolved | On_tick \<Rightarrow> Kind_reminder)"

text \<open>
  The shape of a deduplication key: the issue, a word for the kind, and the rule at the end. Identifiers
  without a colon can be read off it.
\<close>

definition kind_word :: "delivery_kind \<Rightarrow> string" where
  "kind_word k =
     (case k of Kind_new \<Rightarrow> ''new'' | Kind_digest \<Rightarrow> ''digest'' | Kind_reminder \<Rightarrow> ''reminder''
      | Kind_escalation \<Rightarrow> ''escalation'' | Kind_resolved \<Rightarrow> ''resolved'' | Kind_regressed \<Rightarrow> ''regressed'')"

definition keyed :: "delivery_row \<Rightarrow> bool" where
  "keyed d \<longleftrightarrow>
     (\<exists>mid. dv_key d = dv_issue d @ CHR '':'' # kind_word (dv_kind d) @ CHR '':'' # mid @ dv_rule d \<and>
        (mid = [] \<or> last mid = CHR '':''))"

definition plain_ids :: "telemetry_db \<Rightarrow> bool" where
  "plain_ids db \<longleftrightarrow>
     (\<forall>i \<in> set (td_issues db). CHR '':'' \<notin> set (is_id i)) \<and>
     (\<forall>r \<in> set (td_rules db). CHR '':'' \<notin> set (ru_id (fst r))) \<and>
     (\<forall>d \<in> set (td_deliveries db). CHR '':'' \<notin> set (dv_issue d) \<union> set (dv_rule d))"

lemma planned_keyed: "d \<in> set (schedule_issue_alerts iso8601 i event at rules) \<Longrightarrow> keyed d"
proof -
  assume "d \<in> set (schedule_issue_alerts iso8601 i event at rules)"
  then obtain p r where p: "p \<in> set (plan_issue_alerts iso8601 i at event)" and d: "d = delivery_of i p r"
    by (auto simp: schedule_issue_alerts_def)
  have "\<exists>mid. pa_key p @ '':'' = is_id i @ CHR '':'' # kind_word (pa_kind p) @ CHR '':'' # mid \<and>
      (mid = [] \<or> last mid = CHR '':'')"
    using p by (cases event) (auto simp: plan_issue_alerts_def kind_word_def Let_def split: if_splits)
  then obtain mid where "pa_key p @ '':'' = is_id i @ CHR '':'' # kind_word (pa_kind p) @ CHR '':'' # mid"
      "mid = [] \<or> last mid = CHR '':''" by blast
  then show "keyed d"
    unfolding keyed_def d delivery_of_def by (auto intro!: exI [of _ mid] simp flip: append_assoc) 
qed

lemma upto_sep: "a @ x # b = c @ x # d \<Longrightarrow> x \<notin> set a \<Longrightarrow> x \<notin> set c \<Longrightarrow> a = c \<and> b = d"
  by (induction a arbitrary: c) (auto simp: Cons_eq_append_conv)

lemma after_sep:
  assumes "mid @ r = mid' @ r'" "mid = [] \<or> last mid = x" "mid' = [] \<or> last mid' = x" "x \<notin> set r" "x \<notin> set r'"
  shows "r = r'"
proof -
  have "takeWhile (\<lambda>y. y \<noteq> x) (rev (mid @ r)) = rev r" if "mid = [] \<or> last mid = x" "x \<notin> set r" for mid r
    using that takeWhile_append2 [of "rev r" "\<lambda>y. y \<noteq> x"]
    by (cases mid rule: rev_cases) (fastforce simp: takeWhile_eq_all_conv)+
  then show ?thesis using assms by (metis rev_rev_ident)
qed

lemma keyed_inject:
  assumes "keyed d" "keyed d'" "dv_key d = dv_key d'"
    and "CHR '':'' \<notin> set (dv_issue d) \<union> set (dv_rule d)" "CHR '':'' \<notin> set (dv_issue d') \<union> set (dv_rule d')"
  shows "dv_issue d = dv_issue d' \<and> dv_kind d = dv_kind d' \<and> dv_rule d = dv_rule d'"
proof -
  obtain m where m: "dv_key d = dv_issue d @ CHR '':'' # kind_word (dv_kind d) @ CHR '':'' # m @ dv_rule d"
      "m = [] \<or> last m = CHR '':''" using assms(1) by (auto simp: keyed_def)
  obtain m' where m': "dv_key d' = dv_issue d' @ CHR '':'' # kind_word (dv_kind d') @ CHR '':'' # m' @ dv_rule d'"
      "m' = [] \<or> last m' = CHR '':''" using assms(2) by (auto simp: keyed_def)
  have "dv_issue d = dv_issue d' \<and>
    kind_word (dv_kind d) @ CHR '':'' # m @ dv_rule d = kind_word (dv_kind d') @ CHR '':'' # m' @ dv_rule d'"
    using m(1) m'(1) assms(3-5) by (intro upto_sep) auto
  then have issue: "dv_issue d = dv_issue d'"
    and rest: "kind_word (dv_kind d) @ CHR '':'' # m @ dv_rule d = kind_word (dv_kind d') @ CHR '':'' # m' @ dv_rule d'"
    by blast+
  have "CHR '':'' \<notin> set (kind_word k)" for k by (cases k) (simp_all add: kind_word_def)
  then have "kind_word (dv_kind d) = kind_word (dv_kind d') \<and> m @ dv_rule d = m' @ dv_rule d'"
    by (intro upto_sep [OF rest])
  then have kind: "kind_word (dv_kind d) = kind_word (dv_kind d')" and tail: "m @ dv_rule d = m' @ dv_rule d'"
    by blast+
  have "dv_rule d = dv_rule d'" by (rule after_sep [OF tail m(2) m'(2)]) (use assms(4,5) in auto)
  moreover have "dv_kind d = dv_kind d'"
    using kind by (cases "dv_kind d"; cases "dv_kind d'") (simp_all add: kind_word_def)
  ultimately show ?thesis using issue by blast
qed

text \<open>Every row that a turn adds was planned in it for a stored issue and an enabled rule.\<close>

lemma schedule_planned:
  assumes "d \<in> set (td_deliveries (schedule iso8601 now db))" "d \<notin> set (td_deliveries db)"
  shows "\<exists>i p r. i \<in> set (td_issues db) \<and> r \<in> set (enabled_rules db) \<and> d = delivery_of i p r \<and> keyed d"
proof -
  let ?P = "\<lambda>d. \<exists>i p r. i \<in> set (td_issues db) \<and> r \<in> set (enabled_rules db) \<and> d = delivery_of i p r \<and> keyed d"
  have planned: "list_all ?P (schedule_issue_alerts iso8601 i event at (enabled_rules db))"
    if "i \<in> set (td_issues db)" for i event at
    unfolding list_all_iff
  proof
    fix d assume d: "d \<in> set (schedule_issue_alerts iso8601 i event at (enabled_rules db))"
    from planned_keyed [OF d] d that show "?P d" by (auto simp: schedule_issue_alerts_def)
  qed
  have "snd ai \<in> set (td_issues db)" if "ai \<in> set (pending_activities db)" for ai
    using that by (auto simp: pending_activities_def)
  then have "d \<in> set (td_deliveries db) \<or> ?P d"
    using schedule_all [where P = ?P, OF _ _ assms(1)] planned by blast
  with assms(2) show ?thesis by blast
qed

text \<open>What a turn of the scheduler leaves of a pending activity, for an outbox whose keys have their shape.\<close>

lemma activity_delivered:
  assumes tables: "distinct (map dv_key (td_deliveries db))" "list_all keyed (td_deliveries db)" "plain_ids db"
      "distinct (map (ru_id \<circ> fst) (td_rules db))"
    and "(a, i) \<in> set (take 100 (pending_activities db))" "alert_event_of (ay_type a) = Some event"
      "(r, True) \<in> set (td_rules db)" "rule_matches r i"
  shows "\<exists>p d. plan_issue_alerts iso8601 i (ay_at a) event = [p] \<and>
    filter (\<lambda>d. dv_key d = pa_key p @ '':'' @ ru_id r) (td_deliveries (schedule iso8601 now db)) = [d] \<and>
    dv_issue d = is_id i \<and> dv_kind d = kind_of event (is_severity i) \<and> dv_rule d = ru_id r \<and>
    dv_channel d = ru_channel r \<and> dv_recipient d = ru_recipient r"
proof -
  have pending: "(a, i) \<in> set (pending_activities db)" using assms(5) by (rule in_set_takeD)
  then have i: "is_status i \<noteq> Ignored" "i \<in> set (td_issues db)" "\<not> already_scheduled (ay_type a) (is_id i) db"
    by (auto simp: pending_activities_def)
  have "event \<noteq> On_tick" using assms(6) by (auto simp: alert_event_of_def split: activity_type.splits)
  with i(1) obtain p where p: "plan_issue_alerts iso8601 i (ay_at a) event = [p]"
      "pa_kind p = kind_of event (is_severity i)"
    by (cases event; cases "is_severity i = Sev_critical") (simp_all add: plan_issue_alerts_def kind_of_def)
  let ?new = "delivery_of i p r" and ?db = "schedule iso8601 now db"
  have r: "r \<in> set (enabled_rules db)" using assms(7) by (force simp: enabled_rules_def)
  with p(1) assms(8) have planned: "?new \<in> set (schedule_issue_alerts iso8601 i event (ay_at a) (enabled_rules db))"
    by (simp add: schedule_issue_alerts_def)
  then have "dv_key ?new \<in>
      dv_key ` set (td_deliveries (fold (enqueue_activity iso8601) (take 100 (pending_activities db)) db))"
    using enqueue_activities_add [of "(a, i)"] assms(5,6) by simp
  moreover have "set (td_deliveries u) \<subseteq> set (td_deliveries (fold (\<lambda>i. enqueue iso8601 i On_tick now) is u))" for u "is"
    by (rule fold_keeps) (rule enqueue_keep)
  ultimately have "dv_key ?new \<in> dv_key ` set (td_deliveries ?db)"
    unfolding schedule_def Let_def by blast
  then obtain d where d: "d \<in> set (td_deliveries ?db)" "dv_key d = dv_key ?new"
    by auto
  have new: "keyed ?new" "CHR '':'' \<notin> set (dv_issue ?new) \<union> set (dv_rule ?new)"
    using planned_keyed [OF planned] i(2) assms(7) tables(3) by (fastforce simp: plain_ids_def delivery_of_def)+
  have "d \<notin> set (td_deliveries db)"
  proof
    assume old: "d \<in> set (td_deliveries db)"
    with tables(2,3) have "keyed d" "CHR '':'' \<notin> set (dv_issue d) \<union> set (dv_rule d)"
      by (auto simp: list_all_iff plain_ids_def)
    from keyed_inject [OF this(1) new(1) d(2) this(2) new(2)]
    have "dv_issue d = is_id i" "dv_kind d = kind_of event (is_severity i)" using p(2) by (simp_all add: delivery_of_def)
    with old i(3) assms(6) show False
      by (auto simp: already_scheduled_def alert_event_of_def kind_of_def split: activity_type.splits if_splits)
  qed
  then obtain i' p' r' where d': "i' \<in> set (td_issues db)" "r' \<in> set (enabled_rules db)" "d = delivery_of i' p' r'" "keyed d"
    using schedule_planned [OF d(1)] by blast
  have "CHR '':'' \<notin> set (dv_issue d) \<union> set (dv_rule d)"
    using d'(1-3) tables(3) by (fastforce simp: plain_ids_def delivery_of_def enabled_rules_def)
  from keyed_inject [OF d'(4) new(1) d(2) this new(2)]
  have same: "dv_issue d = is_id i" "dv_kind d = kind_of event (is_severity i)" "dv_rule d = ru_id r"
    using p(2) by (simp_all add: delivery_of_def)
  have "r' = r"
    using tables(4) d'(2) r same(3) d'(3) inj_onD [of "ru_id \<circ> fst" "set (td_rules db)" "(r', True)" "(r, True)"]
    by (auto simp: enabled_rules_def delivery_of_def distinct_map)
  have "distinct (map dv_key (td_deliveries ?db))"
    using distinct_keys_schedule tables(1) by (simp add: distinct_keys_def)
  from filter_unique_key [OF this d(1)] d(2)
  have "filter (\<lambda>x. dv_key x = pa_key p @ '':'' @ ru_id r) (td_deliveries ?db) = [d]"
    by (simp add: delivery_of_def)
  then show ?thesis using p(1) same \<open>r' = r\<close> d'(3) by (simp add: delivery_of_def)
qed

text \<open>
  A second regression is not alerted: once an issue has a delivery of the kind regressed, no turn of
  the scheduler adds another for it, however often the issue is resolved and regresses again. The
  scheduler asks for deliveries of the issue, not of the activity.
\<close>

theorem second_regression_not_alerted:
  assumes "d0 \<in> set (td_deliveries db)" and "dv_issue d0 = x" and "dv_kind d0 = Kind_regressed"
  shows "{d \<in> set (td_deliveries (schedule iso8601 now db)). dv_issue d = x \<and> dv_kind d = Kind_regressed} \<subseteq>
    set (td_deliveries db)"
proof -
  let ?P = "\<lambda>d. \<not> (dv_issue d = x \<and> dv_kind d = Kind_regressed)"
  have tick: "list_all ?P (schedule_issue_alerts iso8601 i On_tick now rules)" for i rules
    by (auto simp: list_all_iff schedule_issue_alerts_def plan_issue_alerts_def delivery_of_def Let_def split: if_splits)
  have act: "list_all ?P (schedule_issue_alerts iso8601 (snd ai) event (ay_at (fst ai)) (enabled_rules db))"
    if "ai \<in> set (pending_activities db)" "alert_event_of (ay_type (fst ai)) = Some event" for ai event
  proof (cases "event = On_regressed")
    case True
    with that(2) have "ay_type (fst ai) = Was_regressed"
      by (auto simp: alert_event_of_def split: activity_type.splits)
    with that(1) have "\<not> already_scheduled Was_regressed (is_id (snd ai)) db" by (auto simp: pending_activities_def)
    with assms have "is_id (snd ai) \<noteq> x" by (auto simp: already_scheduled_def)
    then show ?thesis by (auto simp: list_all_iff schedule_issue_alerts_def delivery_of_def)
  next
    case False
    then have "pa_kind p \<noteq> Kind_regressed" if "p \<in> set (plan_issue_alerts iso8601 (snd ai) (ay_at (fst ai)) event)" for p
      using that by (cases event) (auto simp: plan_issue_alerts_def Let_def split: if_splits)
    then show ?thesis by (auto simp: list_all_iff schedule_issue_alerts_def delivery_of_def)
  qed
  show ?thesis using schedule_all [where db = db and P = ?P and now = now, OF act tick] by auto
qed

end
