(* ===== verification/Pipeline.thy ===== *)
theory Pipeline
  imports Issues Alerts
begin

text \<open>
  The telemetry pipeline as a whole: acceptance, the processors with their queue, the workflow of issues and
  the scheduler of alerts work on the same tables, one statement or transaction at a time, in any
  order. The theory states what that order cannot break.
\<close>

section \<open>Steps\<close>

datatype telemetry_op =
    Accept | Claim_op | Fail_op string | Release_op | Process_op string | Work_op | Alert_op | Nothing_op

definition is_claimed :: "string \<Rightarrow> telemetry_db \<Rightarrow> bool" where
  "is_claimed e db \<longleftrightarrow> (\<exists>r \<in> set (td_processing db). pr_envelope r = e \<and> pr_state r = Claimed)"

definition claimed_of :: "envelope_row \<Rightarrow> int \<Rightarrow> envelope \<Rightarrow> identity option \<Rightarrow> claimed_envelope" where
  "claimed_of x attempts c i =
     \<lparr> ce_envelope = en_id x, ce_received = en_received x, ce_client = en_client x, ce_attempts = attempts,
       ce_content = c, ce_identity = i \<rparr>"

text \<open>
  A report on an envelope that is no longer claimed changes nothing (\<open>Nothing_op\<close>). A processor can work on
  an envelope long after its claim was released, so \<open>processing\<close> asks for no claim.
\<close>

inductive telemetry_step :: "processor_env \<Rightarrow> int \<Rightarrow> telemetry_op \<Rightarrow> telemetry_db \<Rightarrow> telemetry_db \<Rightarrow> bool"
  for env limit where
  accepting: "insert_raw i db = (r, db') \<Longrightarrow> ig_id i \<notin> en_id ` set (td_envelopes db) \<Longrightarrow>
    telemetry_step env limit Accept db db'"
| claiming: "claim_row worker now db = (c, db') \<Longrightarrow> telemetry_step env limit Claim_op db db'"
| failing: "is_claimed e db \<Longrightarrow> telemetry_step env limit (Fail_op e) db (mark_retry limit e now db)"
| burying: "is_claimed e db \<Longrightarrow> telemetry_step env limit (Fail_op e) db (dead_letter_payload e c n now code db)"
| late_report: "\<not> is_claimed e db \<Longrightarrow>
    db' \<in> {mark_retry limit e now db, dead_letter_payload e c n now code db} \<Longrightarrow>
    telemetry_step env limit Nothing_op db db'"
| releasing: "telemetry_step env limit Release_op db (release_expired_claims now db)"
| processing: "x \<in> set (td_envelopes db) \<Longrightarrow> unpack_payload (en_payload x) = Some (c, i) \<Longrightarrow>
    process_envelope env new_id now aborts (claimed_of x attempts c i) db = (r, db') \<Longrightarrow>
    telemetry_step env limit (Process_op (en_id x)) db db'"
| transiting: "issue_transition issue actor status now db = (r, db') \<Longrightarrow>
    status \<in> {Acknowledged, Investigating, Resolved, Ignored} \<Longrightarrow> telemetry_step env limit Work_op db db'"
| assigning: "issue_assign env issue actor assignee now db = (r, db') \<Longrightarrow> telemetry_step env limit Work_op db db'"
| commenting: "issue_comment issue actor comment now db = (r, db') \<Longrightarrow> telemetry_step env limit Work_op db db'"
| alerting: "i \<in> set (td_issues db) \<Longrightarrow> d \<in> set (schedule_issue_alerts iso8601 i event at (enabled_rules db)) \<Longrightarrow>
    telemetry_step env limit Alert_op db (insert_delivery d db)"

section \<open>What a transaction of the processor commits\<close>

definition stored_issue :: "string \<Rightarrow> event \<Rightarrow> string \<Rightarrow> issue_row \<Rightarrow> telemetry_db \<Rightarrow> issue_row list \<Rightarrow> bool" where
  "stored_issue fp e new_id issue db issues \<longleftrightarrow>
     (issue \<in> set (td_issues db) \<and> is_fingerprint issue = fp \<and> issues = td_issues db) \<or>
     (issue = new_issue new_id fp e \<and> new_id \<notin> is_id ` set (td_issues db) \<and>
      fp \<notin> is_fingerprint ` set (td_issues db) \<and> ev_source e \<in> set issue_sources \<and>
      issues = td_issues db @ [issue])"

definition commits ::
  "string \<Rightarrow> string \<Rightarrow> string \<Rightarrow> event \<Rightarrow> issue_row \<Rightarrow> bool \<Rightarrow> telemetry_db \<Rightarrow> telemetry_db \<Rightarrow> bool" where
  "commits new_id envelope fp e issue new_user db db' \<longleftrightarrow>
     (\<exists>issues client now. stored_issue fp e new_id issue db issues \<and> ev_client e = Some client \<and>
        td_issues db' = map (\<lambda>i. if is_id i = is_id issue
                               then i\<lparr>is_status := (if is_status issue = Resolved then Regressed else is_status issue),
                                      is_count := is_count issue + 1,
                                      is_users := is_users issue + (if new_user then 1 else 0),
                                      is_last := ev_occurred e\<rparr>
                               else i) issues \<and>
        td_events db' = td_events db @ [occurrence (is_id issue) client e] \<and>
        td_affected db' = td_affected db @
          (if new_user then [(is_id issue, the (event_user e))] else []) \<and>
        (new_user \<longrightarrow> (is_id issue, the (event_user e)) \<notin> set (td_affected db)) \<and>
        td_processing db' = td_processing (mark_processed envelope now db) \<and>
        td_envelopes db' = td_envelopes db \<and> td_keys db' = td_keys db \<and> td_dead db' = td_dead db \<and>
        td_deliveries db' = td_deliveries db \<and> td_rules db' = td_rules db)"

lemma process_event_commits:
  assumes "process_event new_id now envelope fp e db = (Inr res, db')"
  obtains issue new_user where "commits new_id envelope fp e issue new_user db db'"
    and "ps_issue res = is_id issue" and "ps_fingerprint res = fp"
proof -
  have found: "find_issue fp db = (Inr (find (\<lambda>i. is_fingerprint i = fp) (td_issues db)), db)"
    by (simp add: find_issue_def gets_def)
  obtain issue created u where picked: "(case find (\<lambda>i. is_fingerprint i = fp) (td_issues db) of
        Some i \<Rightarrow> ret (i, False) | None \<Rightarrow> create_issue new_id fp e) db = (Inr (issue, created), u)"
    using assms by (auto simp: process_event_def bind_prog_def found split: sum.splits prod.splits)
  then have stored: "stored_issue fp e new_id issue db (td_issues u)"
    and u: "td_events u = td_events db" "td_affected u = td_affected db" "td_processing u = td_processing db"
      "td_envelopes u = td_envelopes db" "td_keys u = td_keys db" "td_dead u = td_dead db"
      "td_deliveries u = td_deliveries db" "td_rules u = td_rules db"
    by (auto simp: stored_issue_def create_issue_def ret_def add_activity_def find_Some_iff find_None_iff
        split: option.splits if_splits)
  from assms picked obtain b new_user v where "insert_occurrence (is_id issue) e u = (Inr (b, new_user), v)"
    by (auto simp: process_event_def bind_prog_def found Let_def split: sum.splits prod.splits)
  then have inserted: "insert_occurrence (is_id issue) e u = (Inr (True, new_user), v)"
    by (auto simp: insert_occurrence_def Let_def split: option.splits if_splits)
  have res: "ps_issue res = is_id issue" "ps_fingerprint res = fp"
    and db': "td_issues db' = td_issues (update_issue (is_id issue)
        (if is_status issue = Resolved then Regressed else is_status issue) (is_count issue + 1)
        (is_users issue + (if new_user then 1 else 0)) (ev_occurred e) v)"
      "td_events db' = td_events v" "td_affected db' = td_affected v"
      "td_processing db' = td_processing (mark_processed envelope now v)" "td_envelopes db' = td_envelopes v"
      "td_keys db' = td_keys v" "td_dead db' = td_dead v" "td_deliveries db' = td_deliveries v"
      "td_rules db' = td_rules v"
    using assms picked inserted
    by (auto simp: process_event_def bind_prog_def then_prog_def found Let_def when_prog_def modify_def ret_def
        update_issue_def mark_processed_def update_processing_def add_activity_def split: if_splits)
  from inserted have "commits new_id envelope fp e issue new_user db db'"
    unfolding commits_def
    by (intro exI [of _ "td_issues u"] exI [of _ "the (ev_client e)"] exI [of _ now])
       (auto simp: insert_occurrence_def Let_def stored db' u update_issue_def mark_processed_def
        update_processing_def split: option.splits if_splits)
  then show thesis using that res by blast
qed

lemma process_envelope_cases:
  assumes "process_envelope env new_id now aborts c db = (r, db')"
  obtains (aborted) "db' = db"
  | (committed) fp e issue new_user res where "r = Inr res"
      "commits new_id (ce_envelope c) fp e issue new_user db db'"
      "ev_id e = el_event_id (ce_content c)" "ev_client e = truthy (Some (ce_client c))"
      "ev_source e = el_source (ce_content c)"
proof -
  let ?e = "symbolicated env
      (normalize_event env (ce_received c) (ce_content c) (ce_identity c) (Some (ce_client c)))"
  from assms have "in_transaction (then_prog (when_prog aborts (throw (Other_failure ''aborted'')))
      (process_event new_id now (ce_envelope c) (fingerprint_event env ?e) ?e)) db = (r, db')"
    by (simp add: process_envelope_def Let_def)
  then show thesis
  proof (cases rule: in_transaction_cases)
    case (rolled_back x t)
    then show thesis using aborted by blast
  next
    case (committed x)
    then have "process_event new_id now (ce_envelope c) (fingerprint_event env ?e) ?e db = (Inr x, db')"
      by (auto simp: then_prog_def bind_prog_def when_prog_def throw_def ret_def split: if_splits)
    then obtain issue new_user where
      "commits new_id (ce_envelope c) (fingerprint_event env ?e) ?e issue new_user db db'"
      by (rule process_event_commits)
    moreover have "ev_id ?e = el_event_id (ce_content c)" "ev_client ?e = truthy (Some (ce_client c))"
      "ev_source ?e = el_source (ce_content c)"
      by (auto simp: symbolicated_def normalize_event_def split: option.splits)
    ultimately show thesis using committed(2) that(2) by blast
  qed
qed

section \<open>What a step does to the row of an envelope\<close>

text \<open>The occurrence that an envelope stands for is stored.\<close>

definition recorded :: "string \<Rightarrow> telemetry_db \<Rightarrow> bool" where
  "recorded e db \<longleftrightarrow>
     (\<exists>x \<in> set (td_envelopes db). \<exists>c i. \<exists>oc \<in> set (td_events db).
        en_id x = e \<and> unpack_payload (en_payload x) = Some (c, i) \<and> oc_event_id oc = el_event_id c \<and>
        oc_client oc = en_client x)"

definition buried :: "string \<Rightarrow> telemetry_db \<Rightarrow> bool" where
  "buried e db \<longleftrightarrow> (\<exists>d \<in> set (td_dead db). dl_envelope d = e)"

inductive row_change :: "int \<Rightarrow> telemetry_op \<Rightarrow> telemetry_db \<Rightarrow> processing_row \<Rightarrow> processing_row \<Rightarrow> bool"
  for limit op db' where
  unchanged: "op \<noteq> Fail_op (pr_envelope r) \<or> pr_state r \<noteq> Claimed \<Longrightarrow> row_change limit op db' r r"
| claimed_row: "op = Claim_op \<Longrightarrow> pr_state r \<in> {Pending, Retrying} \<Longrightarrow> pr_state r' = Claimed \<Longrightarrow>
    pr_attempts r' = pr_attempts r \<Longrightarrow> row_change limit op db' r r'"
| retried_row: "op = Fail_op (pr_envelope r) \<Longrightarrow> pr_state r = Claimed \<Longrightarrow> pr_state r' = Retrying \<Longrightarrow>
    pr_attempts r' = pr_attempts r + 1 \<Longrightarrow> pr_attempts r' < limit \<Longrightarrow> row_change limit op db' r r'"
| ended_row: "op = Fail_op (pr_envelope r) \<Longrightarrow> pr_state r = Claimed \<Longrightarrow> pr_state r' = Dead_lettered \<Longrightarrow>
    buried (pr_envelope r) db' \<or> pr_error r' = Some ''PROCESSING_RETRY_LIMIT'' \<Longrightarrow> row_change limit op db' r r'"
| released_row: "op = Release_op \<Longrightarrow> pr_state r = Claimed \<Longrightarrow> pr_state r' = Retrying \<Longrightarrow>
    pr_attempts r' = pr_attempts r \<Longrightarrow> row_change limit op db' r r'"
| processed_row: "op = Process_op (pr_envelope r) \<Longrightarrow> pr_state r = Claimed \<Longrightarrow> pr_state r' = Processed \<Longrightarrow>
    recorded (pr_envelope r) db' \<Longrightarrow> row_change limit op db' r r'"

text \<open>Rows and envelopes go together, and keys are unique.\<close>

definition tables_ok :: "telemetry_db \<Rightarrow> bool" where
  "tables_ok db \<longleftrightarrow>
     map (\<lambda>r. (pr_envelope r, pr_received r)) (td_processing db) =
       map (\<lambda>e. (en_id e, en_received e)) (td_envelopes db) \<and>
     map fst (td_keys db) = map (\<lambda>e. (en_client e, en_key e)) (td_envelopes db) \<and>
     distinct (map en_id (td_envelopes db)) \<and>
     distinct (map (\<lambda>e. (en_client e, en_key e)) (td_envelopes db))"

lemma tables_ok_rows: "tables_ok db \<Longrightarrow> map pr_envelope (td_processing db) = map en_id (td_envelopes db)"
proof -
  assume "tables_ok db"
  then have "map fst (map (\<lambda>r. (pr_envelope r, pr_received r)) (td_processing db)) =
      map fst (map (\<lambda>e. (en_id e, en_received e)) (td_envelopes db))"
    unfolding tables_ok_def by metis
  then show ?thesis by (simp add: comp_def)
qed

lemma tables_ok_same_row:
  assumes "tables_ok db" and "r \<in> set (td_processing db)" and "q \<in> set (td_processing db)"
    and "pr_envelope r = pr_envelope q"
  shows "r = q"
proof -
  have "distinct (map pr_envelope (td_processing db))"
    using assms(1) tables_ok_rows [OF assms(1)] by (simp add: tables_ok_def)
  with assms(2-4) show ?thesis by (auto simp: distinct_map dest: inj_onD)
qed

text \<open>A step appends the row of an accepted envelope or changes rows in place.\<close>

definition rows_change :: "int \<Rightarrow> telemetry_op \<Rightarrow> telemetry_db \<Rightarrow> telemetry_db \<Rightarrow> bool" where
  "rows_change limit op db db' \<longleftrightarrow>
     (\<exists>i. op = Accept \<and> td_processing db' = td_processing db @ [fresh_processing i] \<and>
        td_envelopes db' = td_envelopes db @ [accepted_envelope i] \<and>
        td_keys db' = td_keys db @ [((ig_client i, ig_key i), (ig_event_id i, ig_hash i))] \<and>
        ig_id i \<notin> en_id ` set (td_envelopes db) \<and> (ig_client i, ig_key i) \<notin> fst ` set (td_keys db)) \<or>
     (\<exists>g. td_processing db' = map g (td_processing db) \<and> td_envelopes db' = td_envelopes db \<and>
        td_keys db' = td_keys db \<and>
        (\<forall>r \<in> set (td_processing db). row_change limit op db' r (g r) \<and>
           pr_envelope (g r) = pr_envelope r \<and> pr_received (g r) = pr_received r))"

lemma rows_change_refl:
  "td_processing db' = td_processing db \<Longrightarrow> td_envelopes db' = td_envelopes db \<Longrightarrow> td_keys db' = td_keys db \<Longrightarrow>
   \<forall>e. op \<noteq> Fail_op e \<Longrightarrow> rows_change limit op db db'"
  unfolding rows_change_def by (intro disjI2 exI [of _ id]) (simp add: unchanged)

lemma rows_change_update:
  assumes "td_processing db' = td_processing (update_processing p f db)" and "td_envelopes db' = td_envelopes db"
    and "td_keys db' = td_keys db"
    and "\<And>r. r \<in> set (td_processing db) \<Longrightarrow> p r \<Longrightarrow>
       row_change limit op db' r (f r) \<and> pr_envelope (f r) = pr_envelope r \<and> pr_received (f r) = pr_received r"
    and "\<And>r. \<not> p r \<Longrightarrow> op \<noteq> Fail_op (pr_envelope r) \<or> pr_state r \<noteq> Claimed"
  shows "rows_change limit op db db'"
  unfolding rows_change_def
  by (intro disjI2 exI [of _ "\<lambda>r. if p r then f r else r"])
     (use assms in \<open>auto simp: update_processing_def unchanged\<close>)

lemma update_processing_none:
  "\<not> (\<exists>r \<in> set (td_processing db). p r) \<Longrightarrow> update_processing p f db = db"
proof -
  assume "\<not> (\<exists>r \<in> set (td_processing db). p r)"
  then have "map (\<lambda>r. if p r then f r else r) (td_processing db) = td_processing db" by (intro map_idI) auto
  then show ?thesis by (simp add: update_processing_def)
qed

lemma late_report_nothing:
  "\<not> is_claimed e db \<Longrightarrow> mark_retry limit e now db = db"
  "\<not> is_claimed e db \<Longrightarrow> dead_letter_payload e c n now code db = db"
  "\<not> is_claimed e db \<Longrightarrow> mark_processed e now db = db"
  by (auto simp: is_claimed_def mark_retry_def mark_processed_def dead_letter_payload_def Let_def
      filter_empty_conv intro!: update_processing_none)

lemma claim_row_rows:
  assumes "claim_row worker now db = (c, db')" and "tables_ok db"
  shows "rows_change limit Claim_op db db'"
proof (cases "sort_key pr_received (filter (\<lambda>r. ready now r \<and> envelope_of r db \<noteq> None) (td_processing db))")
  case Nil
  with assms(1) have "db' = db" by (simp add: claim_row_def)
  then show ?thesis by (simp add: rows_change_refl)
next
  case (Cons r rs)
  then have "r \<in> set (sort_key pr_received (filter (\<lambda>r. ready now r \<and> envelope_of r db \<noteq> None) (td_processing db)))"
    by simp
  then have r: "r \<in> set (td_processing db)" "ready now r" "envelope_of r db \<noteq> None" by auto
  with Cons assms(1) have db': "db' = update_processing
      (\<lambda>q. pr_envelope q = pr_envelope r \<and> pr_received q = pr_received r)
      (\<lambda>q. q\<lparr>pr_state := Claimed, pr_claimed_at := Some now, pr_claimed_by := Some worker\<rparr>) db"
    by (auto simp: claim_row_def split: option.splits)
  show ?thesis
  proof (rule rows_change_update)
    show "td_processing db' = td_processing (update_processing
        (\<lambda>q. pr_envelope q = pr_envelope r \<and> pr_received q = pr_received r)
        (\<lambda>q. q\<lparr>pr_state := Claimed, pr_claimed_at := Some now, pr_claimed_by := Some worker\<rparr>) db)"
      by (simp add: db')
    fix q assume "q \<in> set (td_processing db)" "pr_envelope q = pr_envelope r \<and> pr_received q = pr_received r"
    then have "q = r" using tables_ok_same_row [OF assms(2)] r(1) by blast
    with r(2) show "row_change limit Claim_op db' q
        (q\<lparr>pr_state := Claimed, pr_claimed_at := Some now, pr_claimed_by := Some worker\<rparr>) \<and>
        pr_envelope (q\<lparr>pr_state := Claimed, pr_claimed_at := Some now, pr_claimed_by := Some worker\<rparr>) = pr_envelope q \<and>
        pr_received (q\<lparr>pr_state := Claimed, pr_claimed_at := Some now, pr_claimed_by := Some worker\<rparr>) = pr_received q"
      by (auto simp: ready_def intro: claimed_row)
  qed (simp_all add: db' update_processing_def)
qed

lemma step_rows:
  assumes "telemetry_step env limit op db db'" and "tables_ok db"
  shows "rows_change limit op db db'"
  using assms
proof (induction rule: telemetry_step.induct)
  case (accepting i db r db')
  show ?case
  proof (cases "db' = db")
    case True
    then show ?thesis by (simp add: rows_change_refl)
  next
    case False
    with accepting(1) have none: "map_of (td_keys db) (ig_client i, ig_key i) = None"
      and db': "db' = db\<lparr>td_keys := td_keys db @ [((ig_client i, ig_key i), (ig_event_id i, ig_hash i))],
                   td_envelopes := td_envelopes db @ [accepted_envelope i],
                   td_processing := td_processing db @ [fresh_processing i]\<rparr>"
      by (auto simp: insert_raw_def split: option.splits if_splits)
    from none have "(ig_client i, ig_key i) \<notin> fst ` set (td_keys db)" by (simp add: map_of_eq_None_iff)
    with accepting(2) show ?thesis unfolding rows_change_def db' by (intro disjI1 exI [of _ i]) simp
  qed
next
  case (claiming worker now db c db')
  then show ?case by (rule claim_row_rows)
next
  case (failing e db now)
  show ?case
    unfolding mark_retry_def
  proof (rule rows_change_update [OF refl], goal_cases)
    case (3 r)
    then show ?case by (auto simp: Let_def intro: retried_row ended_row)
  qed (simp_all add: update_processing_def)
next
  case (burying e db c n now code)
  show ?case
    by (rule rows_change_update [of _ "\<lambda>r. pr_envelope r = e \<and> pr_state r = Claimed"])
       (use burying(1) in \<open>auto simp: dead_letter_payload_def update_processing_def Let_def is_claimed_def
          filter_empty_conv buried_def intro!: ended_row\<close>)
next
  case (late_report e db db' now c n code)
  then show ?case using late_report_nothing by (auto simp: rows_change_refl)
next
  case (releasing db now)
  show ?case
    by (rule rows_change_update [of _ "\<lambda>r. pr_state r = Claimed \<and>
          (case pr_claimed_at r of None \<Rightarrow> False | Some t \<Rightarrow> t < now - 300000)"])
       (auto simp: release_expired_claims_def update_processing_def intro: released_row)
next
  case (processing x db c i new_id now aborts attempts r db')
  from processing(3) show ?case
  proof (cases rule: process_envelope_cases)
    case aborted
    then show ?thesis by (simp add: rows_change_refl)
  next
    case (committed fp e issue new_user res)
    from committed(2) obtain issues client now' where cm: "ev_client e = Some client"
        "td_events db' = td_events db @ [occurrence (is_id issue) client e]"
        "td_processing db' = td_processing (mark_processed (en_id x) now' db)"
        "td_envelopes db' = td_envelopes db" "td_keys db' = td_keys db"
      by (auto simp: commits_def claimed_of_def)
    have "client = en_client x"
      using cm(1) committed(4) by (auto simp: claimed_of_def truthy_def split: list.splits)
    then have "recorded (en_id x) db'"
      unfolding recorded_def cm(2,4)
      using processing(1,2) committed(3)
      by (intro bexI [of _ x] exI [of _ c] exI [of _ i] bexI [of _ "occurrence (is_id issue) client e"])
         (simp_all add: occurrence_def claimed_of_def)
    then show ?thesis
      by (intro rows_change_update [of _ "\<lambda>r. pr_envelope r = en_id x \<and> pr_state r = Claimed"])
         (auto simp: cm mark_processed_def update_processing_def intro: processed_row)
  qed
qed (auto simp: issue_transition_def issue_assign_def issue_comment_def insert_delivery_def add_activity_def Let_def
       split: if_splits intro!: rows_change_refl)

section \<open>No envelope is lost\<close>

lemma rows_change_tables:
  assumes "rows_change limit op db db'" and "tables_ok db"
  shows "tables_ok db'" and "set (td_envelopes db) \<subseteq> set (td_envelopes db')"
proof -
  from assms(1) show "tables_ok db'" unfolding rows_change_def
  proof (elim disjE exE conjE)
    fix i assume a: "td_processing db' = td_processing db @ [fresh_processing i]"
      "td_envelopes db' = td_envelopes db @ [accepted_envelope i]"
      "td_keys db' = td_keys db @ [((ig_client i, ig_key i), (ig_event_id i, ig_hash i))]"
      "ig_id i \<notin> en_id ` set (td_envelopes db)" "(ig_client i, ig_key i) \<notin> fst ` set (td_keys db)"
    from assms(2) have "map fst (td_keys db) = map (\<lambda>e. (en_client e, en_key e)) (td_envelopes db)"
      by (simp add: tables_ok_def)
    from arg_cong [OF this, of set] a(5)
    have "(ig_client i, ig_key i) \<notin> (\<lambda>e. (en_client e, en_key e)) ` set (td_envelopes db)" by simp
    with assms(2) a show ?thesis by (simp add: tables_ok_def fresh_processing_def accepted_envelope_def)
  next
    fix g assume a: "td_processing db' = map g (td_processing db)" "td_envelopes db' = td_envelopes db"
      "td_keys db' = td_keys db"
      "\<forall>r \<in> set (td_processing db). row_change limit op db' r (g r) \<and>
         pr_envelope (g r) = pr_envelope r \<and> pr_received (g r) = pr_received r"
    then have "map (\<lambda>r. (pr_envelope r, pr_received r)) (td_processing db') =
        map (\<lambda>r. (pr_envelope r, pr_received r)) (td_processing db)"
      by (simp add: comp_def)
    with assms(2) a show ?thesis unfolding tables_ok_def by metis
  qed
  from assms(1) show "set (td_envelopes db) \<subseteq> set (td_envelopes db')" by (auto simp: rows_change_def)
qed

lemma step_events:
  assumes "telemetry_step env limit op db db'"
  shows "set (td_events db) \<subseteq> set (td_events db') \<and> set (td_dead db) \<subseteq> set (td_dead db')"
  using assms
proof (induction rule: telemetry_step.induct)
  case (processing x db c i new_id now aborts attempts r db')
  from processing(3) show ?case by (cases rule: process_envelope_cases) (auto simp: commits_def)
next
  case (claiming worker now db c db')
  then show ?case by (auto simp: claim_row_def update_processing_def split: list.splits option.splits)
next
  case (late_report e db db' now c n code)
  then show ?case using late_report_nothing by auto
qed (auto simp: insert_raw_def mark_retry_def release_expired_claims_def dead_letter_payload_def Let_def
       update_processing_def issue_transition_def issue_assign_def issue_comment_def insert_delivery_def
       add_activity_def split: option.splits if_splits)

definition finished :: "processing_row \<Rightarrow> bool" where
  "finished r \<longleftrightarrow> pr_state r \<in> {Processed, Dead_lettered}"

definition row_ok :: "int \<Rightarrow> telemetry_db \<Rightarrow> processing_row \<Rightarrow> bool" where
  "row_ok limit db r \<longleftrightarrow>
     (case pr_state r of
        Processed \<Rightarrow> recorded (pr_envelope r) db
      | Dead_lettered \<Rightarrow> buried (pr_envelope r) db \<or> pr_error r = Some ''PROCESSING_RETRY_LIMIT''
      | _ \<Rightarrow> 0 \<le> pr_attempts r \<and> pr_attempts r < limit)"

definition pipeline_ok :: "int \<Rightarrow> telemetry_db \<Rightarrow> bool" where
  "pipeline_ok limit db \<longleftrightarrow> tables_ok db \<and> (\<forall>r \<in> set (td_processing db). row_ok limit db r)"

lemma recorded_mono:
  "recorded e db \<Longrightarrow> set (td_envelopes db) \<subseteq> set (td_envelopes db') \<Longrightarrow> set (td_events db) \<subseteq> set (td_events db') \<Longrightarrow>
   recorded e db'"
  unfolding recorded_def by blast

lemma buried_mono: "buried e db \<Longrightarrow> set (td_dead db) \<subseteq> set (td_dead db') \<Longrightarrow> buried e db'"
  unfolding buried_def by blast

lemma row_change_ok:
  assumes "row_change limit op db' r r'" and "pr_envelope r' = pr_envelope r"
    and "row_ok limit db' r"
  shows "row_ok limit db' r'"
  using assms by (cases rule: row_change.cases) (auto simp: row_ok_def)

lemma pipeline_step:
  assumes "pipeline_ok limit db" and "telemetry_step env limit op db db'" and "1 \<le> limit"
  shows "pipeline_ok limit db'"
proof -
  from assms(1) have t: "tables_ok db" and r: "\<forall>r \<in> set (td_processing db). row_ok limit db r"
    by (simp_all add: pipeline_ok_def)
  have rows: "rows_change limit op db db'" by (rule step_rows [OF assms(2) t])
  note tables = rows_change_tables [OF rows t]
  note grows = step_events [OF assms(2)]
  have later: "row_ok limit db' q" if "q \<in> set (td_processing db)" for q
  proof -
    from r that have "row_ok limit db q" by blast
    then show ?thesis using tables(2) grows recorded_mono buried_mono
      unfolding row_ok_def by (auto split: processing_state.splits)
  qed
  from rows have "\<forall>r \<in> set (td_processing db'). row_ok limit db' r" unfolding rows_change_def
  proof (elim disjE exE conjE)
    fix i assume "td_processing db' = td_processing db @ [fresh_processing i]"
    with later assms(3) show ?thesis by (auto simp: row_ok_def fresh_processing_def)
  next
    fix g assume "td_processing db' = map g (td_processing db)"
      "\<forall>r \<in> set (td_processing db). row_change limit op db' r (g r) \<and>
         pr_envelope (g r) = pr_envelope r \<and> pr_received (g r) = pr_received r"
    with later row_change_ok show ?thesis by auto
  qed
  with tables(1) show ?thesis by (simp add: pipeline_ok_def)
qed

definition no_telemetry :: "telemetry_db \<Rightarrow> bool" where
  "no_telemetry db \<longleftrightarrow>
     td_keys db = [] \<and> td_envelopes db = [] \<and> td_processing db = [] \<and> td_dead db = [] \<and> td_issues db = [] \<and>
     td_events db = [] \<and> td_affected db = [] \<and> td_activity db = [] \<and> td_deliveries db = []"

lemma pipeline_run:
  assumes "op_run (telemetry_step env limit) ops db0 db" and "no_telemetry db0" and "1 \<le> limit"
  shows "pipeline_ok limit db"
  using assms(1)
proof (rule op_run_invariant [where I = "pipeline_ok limit"])
  show "pipeline_ok limit db0" using assms(2) by (simp add: pipeline_ok_def tables_ok_def no_telemetry_def)
  show "pipeline_ok limit v" if "pipeline_ok limit u" "telemetry_step env limit op u v" for op u v
    using pipeline_step [OF that assms(3)] .
qed

text \<open>In tables that satisfy the invariant an envelope has one row, and the row is in order.\<close>

lemma pipeline_ok_row:
  assumes ok: "pipeline_ok limit db" and x: "x \<in> set (td_envelopes db)"
  shows "filter (\<lambda>y. en_client y = en_client x \<and> en_key y = en_key x) (td_envelopes db) = [x]"
    and "\<exists>r. filter (\<lambda>r. pr_envelope r = en_id x) (td_processing db) = [r] \<and> row_ok limit db r \<and> pr_envelope r = en_id x"
proof -
  from ok have t: "tables_ok db" by (simp add: pipeline_ok_def)
  have keys: "distinct (map (\<lambda>e. (en_client e, en_key e)) (td_envelopes db))"
    using t by (simp add: tables_ok_def)
  have rows: "distinct (map pr_envelope (td_processing db))"
    using t tables_ok_rows [OF t] by (simp add: tables_ok_def)
  have "en_id x \<in> pr_envelope ` set (td_processing db)"
    using tables_ok_rows [OF t] x by (metis image_set_map imageI)
  then obtain r where r: "r \<in> set (td_processing db)" "pr_envelope r = en_id x" by auto
  then have "filter (\<lambda>q. pr_envelope q = en_id x) (td_processing db) = [r]"
    using filter_unique_key [OF rows r(1)] by simp
  moreover have "row_ok limit db r" using ok r(1) by (simp add: pipeline_ok_def)
  ultimately show "\<exists>r. filter (\<lambda>r. pr_envelope r = en_id x) (td_processing db) = [r] \<and> row_ok limit db r \<and> pr_envelope r = en_id x"
    using r(2) by blast
  show "filter (\<lambda>y. en_client y = en_client x \<and> en_key y = en_key x) (td_envelopes db) = [x]"
    using filter_unique_key [OF keys x] by simp
qed

text \<open>
  C12. No accepted envelope is lost, however many processors work on the queue, crash, or report late. An
  idempotency key of a client has one envelope, an envelope has exactly one row in the queue, and the
  row is waiting or claimed with fewer attempts than the limit, or processed and then an occurrence
  with the event and client of the envelope is stored, or dead-lettered and then a dead letter is
  stored or the row carries the code of the retry limit.
\<close>

theorem no_envelope_lost:
  assumes "op_run (telemetry_step env limit) ops db0 db" and "no_telemetry db0" and "1 \<le> limit"
    and "x \<in> set (td_envelopes db)"
  shows "filter (\<lambda>y. en_client y = en_client x \<and> en_key y = en_key x) (td_envelopes db) = [x] \<and>
    (\<exists>r. filter (\<lambda>r. pr_envelope r = en_id x) (td_processing db) = [r] \<and>
       (case pr_state r of
          Processed \<Rightarrow> recorded (en_id x) db
        | Dead_lettered \<Rightarrow> buried (en_id x) db \<or> pr_error r = Some ''PROCESSING_RETRY_LIMIT''
        | _ \<Rightarrow> 0 \<le> pr_attempts r \<and> pr_attempts r < limit))"
proof -
  have ok: "pipeline_ok limit db" by (rule pipeline_run [OF assms(1-3)])
  from pipeline_ok_row(2) [OF ok assms(4)] obtain r where
    r: "filter (\<lambda>r. pr_envelope r = en_id x) (td_processing db) = [r]" "row_ok limit db r" "pr_envelope r = en_id x"
    by blast
  show ?thesis
    using pipeline_ok_row(1) [OF ok assms(4)] r(1) r(2) [unfolded row_ok_def r(3)] by (intro conjI exI)
qed

section \<open>Counts of issues\<close>

definition counts_ok :: "telemetry_db \<Rightarrow> bool" where
  "counts_ok db \<longleftrightarrow>
     distinct (map is_id (td_issues db)) \<and> distinct (map is_fingerprint (td_issues db)) \<and>
     oc_issue ` set (td_events db) \<subseteq> is_id ` set (td_issues db) \<and>
     fst ` set (td_affected db) \<subseteq> is_id ` set (td_issues db) \<and> distinct (td_affected db) \<and>
     (\<forall>i \<in> set (td_issues db).
        is_count i = int (length (filter (\<lambda>oc. oc_issue oc = is_id i) (td_events db))) \<and>
        is_users i = int (length (filter (\<lambda>a. fst a = is_id i) (td_affected db))))"

lemma counts_ok_map:
  assumes "counts_ok db" and "td_issues db' = map f (td_issues db)" and "td_events db' = td_events db"
    and "td_affected db' = td_affected db"
    and "\<And>i. is_id (f i) = is_id i \<and> is_fingerprint (f i) = is_fingerprint i \<and> is_count (f i) = is_count i \<and>
       is_users (f i) = is_users i"
  shows "counts_ok db'"
proof -
  have ids: "map is_id (td_issues db') = map is_id (td_issues db)"
    and fps: "map is_fingerprint (td_issues db') = map is_fingerprint (td_issues db)"
    using assms(2,5) by simp_all
  have idset: "is_id ` set (td_issues db') = is_id ` set (td_issues db)"
    using arg_cong [OF ids, of set] by simp
  show ?thesis
    using assms(1) unfolding counts_ok_def ids fps idset assms(3,4) using assms(2,5) by simp
qed

lemma counts_ok_same:
  "counts_ok db \<Longrightarrow> td_issues db' = td_issues db \<Longrightarrow> td_events db' = td_events db \<Longrightarrow>
   td_affected db' = td_affected db \<Longrightarrow> counts_ok db'"
  by (simp add: counts_ok_def)

lemma counts_ok_commit:
  assumes "counts_ok db" and "commits new_id envelope fp e issue new_user db db'"
  shows "counts_ok db'"
proof -
  from assms(2) obtain issues client where st: "stored_issue fp e new_id issue db issues"
    and issues': "td_issues db' = map (\<lambda>i. if is_id i = is_id issue
           then i\<lparr>is_status := (if is_status issue = Resolved then Regressed else is_status issue),
                  is_count := is_count issue + 1, is_users := is_users issue + (if new_user then 1 else 0),
                  is_last := ev_occurred e\<rparr> else i) issues"
    and ev: "td_events db' = td_events db @ [occurrence (is_id issue) client e]"
    and af: "td_affected db' = td_affected db @ (if new_user then [(is_id issue, the (event_user e))] else [])"
      "new_user \<longrightarrow> (is_id issue, the (event_user e)) \<notin> set (td_affected db)"
    unfolding commits_def by blast
  let ?mid = "db\<lparr>td_issues := issues\<rparr>"
  have none: "filter (\<lambda>oc. oc_issue oc = new_id) (td_events db) = []"
      "filter (\<lambda>a. fst a = new_id) (td_affected db) = []"
    if "new_id \<notin> is_id ` set (td_issues db)"
    using that assms(1) by (force simp: filter_empty_conv counts_ok_def)+
  have mid: "counts_ok ?mid" and issue: "issue \<in> set issues"
    using st assms(1) none unfolding stored_issue_def
    by (auto simp: counts_ok_def new_issue_def)
  have same: "i = issue" if "i \<in> set issues" "is_id i = is_id issue" for i
    using mid issue that by (auto simp: counts_ok_def distinct_map dest: inj_onD)
  have ids: "map is_id (td_issues db') = map is_id issues"
    "map is_fingerprint (td_issues db') = map is_fingerprint issues"
    using issues' by simp_all
  have idset: "is_id ` set (td_issues db') = is_id ` set issues" using arg_cong [OF ids(1), of set] by simp
  have row: "is_count i = int (length (filter (\<lambda>oc. oc_issue oc = is_id i) (td_events db'))) \<and>
      is_users i = int (length (filter (\<lambda>a. fst a = is_id i) (td_affected db')))"
    if "i \<in> set (td_issues db')" for i
  proof -
    from that issues' obtain j where j: "j \<in> set issues" and
      i: "i = (if is_id j = is_id issue
           then j\<lparr>is_status := (if is_status issue = Resolved then Regressed else is_status issue),
                  is_count := is_count issue + 1, is_users := is_users issue + (if new_user then 1 else 0),
                  is_last := ev_occurred e\<rparr> else j)"
      by auto
    from mid j have c: "is_count j = int (length (filter (\<lambda>oc. oc_issue oc = is_id j) (td_events db)))"
        "is_users j = int (length (filter (\<lambda>a. fst a = is_id j) (td_affected db)))"
      by (simp_all add: counts_ok_def)
    show ?thesis
    proof (cases "is_id j = is_id issue")
      case True
      with same j have "j = issue" by blast
      with c i ev af show ?thesis by (simp add: occurrence_def)
    next
      case False
      with c i ev af show ?thesis by (simp add: occurrence_def)
    qed
  qed
  have rest: "distinct (map is_id (td_issues db'))" "distinct (map is_fingerprint (td_issues db'))"
      "distinct (td_affected db')" "oc_issue ` set (td_events db') \<subseteq> is_id ` set (td_issues db')"
      "fst ` set (td_affected db') \<subseteq> is_id ` set (td_issues db')"
    using mid issue af ev unfolding ids idset counts_ok_def by (auto simp: occurrence_def split: if_splits)
  with row show ?thesis by (simp add: counts_ok_def)
qed

lemma counts_step: "telemetry_step env limit op db db' \<Longrightarrow> counts_ok db \<Longrightarrow> counts_ok db'"
proof (induction rule: telemetry_step.induct)
  case (processing x db c i new_id now aborts attempts r db')
  from processing(3) show ?case
    by (cases rule: process_envelope_cases) (use processing(4) counts_ok_commit in blast)+
next
  case (claiming worker now db c db')
  then have "td_issues db' = td_issues db \<and> td_events db' = td_events db \<and> td_affected db' = td_affected db"
    by (auto simp: claim_row_def update_processing_def split: list.splits option.splits)
  with claiming(2) show ?case by (simp add: counts_ok_same)
next
  case (accepting i db r db')
  then have "td_issues db' = td_issues db \<and> td_events db' = td_events db \<and> td_affected db' = td_affected db"
    by (auto simp: insert_raw_def split: option.splits if_splits)
  with accepting(3) show ?case by (simp add: counts_ok_same)
next
  case (late_report e db db' now c n code)
  with late_report_nothing show ?case by auto
next
  case (transiting issue actor status now db r db')
  let ?f = "\<lambda>i. if is_id i = issue then i\<lparr>is_status := status\<rparr> else i"
  have "db' = db \<or> td_issues db' = map ?f (td_issues db) \<and> td_events db' = td_events db \<and>
      td_affected db' = td_affected db"
    using transiting(1) by (auto simp: issue_transition_def add_activity_def split: if_splits)
  then show ?case using transiting(3) counts_ok_map [of db db' ?f] by auto
next
  case (assigning issue actor assignee now db r db')
  let ?p = "\<lambda>i. is_id i = issue \<and> (case truthy assignee of None \<Rightarrow> is_assigned i \<noteq> None | Some u \<Rightarrow> pe_active_user env u)"
  let ?f = "\<lambda>i. if ?p i then i\<lparr>is_assigned := truthy assignee\<rparr> else i"
  have "db' = db \<or> td_issues db' = map ?f (td_issues db) \<and> td_events db' = td_events db \<and>
      td_affected db' = td_affected db"
    using assigning(1) by (auto simp: issue_assign_def Let_def add_activity_def split: if_splits)
  then show ?case using assigning(2) counts_ok_map [of db db' ?f] by auto
next
  case (commenting issue actor comment now db r db')
  then have "td_issues db' = td_issues db \<and> td_events db' = td_events db \<and> td_affected db' = td_affected db"
    by (auto simp: issue_comment_def Let_def add_activity_def split: if_splits)
  with commenting(2) show ?case by (simp add: counts_ok_same)
qed (auto simp: mark_retry_def release_expired_claims_def dead_letter_payload_def Let_def update_processing_def
       insert_delivery_def intro: counts_ok_same)

text \<open>
  C13. The numbers of an issue are the numbers of its rows: whatever processors, users and the scheduler do, the
  occurrence count of every issue is the number of its stored occurrences and the count of affected
  users the number of distinct users stored for it, every occurrence belongs to an issue, and no two
  issues share a fingerprint.
\<close>

theorem issue_counts_exact:
  assumes "op_run (telemetry_step env limit) ops db0 db" and "no_telemetry db0"
  shows "(\<forall>i \<in> set (td_issues db).
      is_count i = int (length (filter (\<lambda>oc. oc_issue oc = is_id i) (td_events db))) \<and>
      is_users i = int (card {u. (is_id i, u) \<in> set (td_affected db)})) \<and>
    oc_issue ` set (td_events db) \<subseteq> is_id ` set (td_issues db) \<and>
    distinct (map is_fingerprint (td_issues db))"
proof -
  have c: "counts_ok db"
    using assms(1)
  proof (rule op_run_invariant)
    show "counts_ok db0" using assms(2) by (simp add: counts_ok_def no_telemetry_def)
  qed (rule counts_step)
  have "length (filter (\<lambda>a. fst a = i) (td_affected db)) = card {u. (i, u) \<in> set (td_affected db)}" for i
  proof -
    have "distinct (filter (\<lambda>a. fst a = i) (td_affected db))" using c by (simp add: counts_ok_def)
    then have "length (filter (\<lambda>a. fst a = i) (td_affected db)) = card (set (filter (\<lambda>a. fst a = i) (td_affected db)))"
      by (rule distinct_card [symmetric])
    also have "set (filter (\<lambda>a. fst a = i) (td_affected db)) = Pair i ` {u. (i, u) \<in> set (td_affected db)}"
      by force
    also have "card \<dots> = card {u. (i, u) \<in> set (td_affected db)}" by (intro card_image inj_onI) simp
    finally show ?thesis .
  qed
  with c show ?thesis by (simp add: counts_ok_def)
qed

section \<open>Failures end\<close>

definition failures :: "string \<Rightarrow> telemetry_op list \<Rightarrow> nat" where
  "failures e ops = length (filter (\<lambda>op. op = Fail_op e) ops)"

definition failures_ok :: "int \<Rightarrow> string \<Rightarrow> nat \<Rightarrow> telemetry_db \<Rightarrow> bool" where
  "failures_ok limit e n db \<longleftrightarrow>
     (\<forall>r \<in> set (td_processing db). pr_envelope r = e \<longrightarrow> int n \<le> (if finished r then limit else pr_attempts r)) \<and>
     (e \<notin> pr_envelope ` set (td_processing db) \<longrightarrow> n = 0)"

lemma fail_needs_row:
  "telemetry_step env limit (Fail_op e) db db' \<Longrightarrow> is_claimed e db"
  by (cases rule: telemetry_step.cases) auto

lemma row_change_failures:
  assumes "row_change limit op db' r r'" and "pr_envelope r = e" and "row_ok limit db r"
    and "int n \<le> (if finished r then limit else pr_attempts r)" and "op = Fail_op e \<longrightarrow> pr_state r = Claimed"
  shows "int (if op = Fail_op e then Suc n else n) \<le> (if finished r' then limit else pr_attempts r')"
  using assms by (cases rule: row_change.cases) (auto simp: finished_def row_ok_def)

lemma failures_step:
  assumes "telemetry_step env limit op db db'" and "pipeline_ok limit db" and "failures_ok limit e n db"
  shows "failures_ok limit e (if op = Fail_op e then Suc n else n) db'"
proof -
  have t: "tables_ok db" using assms(2) by (simp add: pipeline_ok_def)
  have claimed: "pr_state r = Claimed" if "op = Fail_op e" "r \<in> set (td_processing db)" "pr_envelope r = e" for r
  proof -
    have "is_claimed e db" using assms(1) that(1) by (auto dest: fail_needs_row)
    then obtain q where "q \<in> set (td_processing db)" "pr_envelope q = e" "pr_state q = Claimed"
      unfolding is_claimed_def by blast
    with tables_ok_same_row [OF t] that(2,3) show ?thesis by blast
  qed
  from step_rows [OF assms(1) t] show ?thesis unfolding rows_change_def
  proof (elim disjE exE conjE)
    fix i assume i: "op = Accept" "td_processing db' = td_processing db @ [fresh_processing i]"
      "ig_id i \<notin> en_id ` set (td_envelopes db)"
    have "set (map pr_envelope (td_processing db)) = set (map en_id (td_envelopes db))"
      using tables_ok_rows [OF t] by simp
    then have "ig_id i \<notin> pr_envelope ` set (td_processing db)" using i(3) by simp
    then have "e = ig_id i \<longrightarrow> n = 0" using assms(3) by (auto simp: failures_ok_def)
    with i assms(3) show ?thesis by (auto simp: failures_ok_def fresh_processing_def finished_def)
  next
    fix g assume g: "td_processing db' = map g (td_processing db)"
      "\<forall>r \<in> set (td_processing db). row_change limit op db' r (g r) \<and>
         pr_envelope (g r) = pr_envelope r \<and> pr_received (g r) = pr_received r"
    have "int (if op = Fail_op e then Suc n else n) \<le> (if finished (g r) then limit else pr_attempts (g r))"
      if "r \<in> set (td_processing db)" "pr_envelope r = e" for r
    proof (rule row_change_failures [of limit op db' r "g r" e db])
      show "row_ok limit db r" using assms(2) that(1) by (simp add: pipeline_ok_def)
      show "int n \<le> (if finished r then limit else pr_attempts r)"
        using assms(3) that unfolding failures_ok_def by blast
    qed (use g(2) that claimed in blast)+
    moreover have "op \<noteq> Fail_op e" if "e \<notin> pr_envelope ` set (td_processing db)"
      using that fail_needs_row [of env limit e db db'] assms(1) unfolding is_claimed_def by force
    moreover have "pr_envelope ` set (td_processing db') = pr_envelope ` set (td_processing db)"
      unfolding g(1) set_map image_image using g(2) by (intro image_cong) simp_all
    ultimately show ?thesis using g assms(3) unfolding failures_ok_def by (simp split: if_splits)
  qed
qed

lemma failures_run:
  assumes "op_run (telemetry_step env limit) ops db0 db" and "no_telemetry db0" and "1 \<le> limit"
  shows "failures_ok limit e (failures e ops) db"
  using assms
proof (induction rule: op_run.induct)
  case (run_nothing db0)
  then show ?case by (simp add: failures_ok_def failures_def no_telemetry_def)
next
  case (run_more ops db0 db op db')
  have "failures_ok limit e (if op = Fail_op e then Suc (failures e ops) else failures e ops) db'"
    by (rule failures_step [OF run_more(2) pipeline_run [OF run_more(1,4,5)] run_more(3) [OF run_more(4,5)]])
  then show ?case by (simp add: failures_def split: if_splits)
qed

lemma row_change_finished: "row_change limit op db' r r' \<Longrightarrow> finished r \<Longrightarrow> r' = r"
  by (cases rule: row_change.cases) (auto simp: finished_def)

lemma rows_change_finished:
  assumes "rows_change limit op db db'"
  shows "{r \<in> set (td_processing db). finished r} \<subseteq> set (td_processing db')"
  using assms unfolding rows_change_def
proof (elim disjE exE conjE)
  fix g assume g: "td_processing db' = map g (td_processing db)"
    "\<forall>r \<in> set (td_processing db). row_change limit op db' r (g r) \<and>
       pr_envelope (g r) = pr_envelope r \<and> pr_received (g r) = pr_received r"
  show ?thesis
  proof
    fix r assume "r \<in> {r \<in> set (td_processing db). finished r}"
    then have r: "r \<in> set (td_processing db)" "finished r" by simp_all
    then have "g r = r" using g(2) row_change_finished by blast
    with r(1) g(1) show "r \<in> set (td_processing db')" by (metis image_eqI set_map)
  qed
qed auto

text \<open>
  C31. A failing envelope comes to an end. Whatever else happens, an envelope is reported as failed at most
  as often as the limit of the queue says, and when it was, its row is finished; a finished row is
  never touched again.
\<close>

theorem failing_envelope_ends:
  assumes "op_run (telemetry_step env limit) ops db0 db" and "no_telemetry db0" and "1 \<le> limit"
  shows "int (failures e ops) \<le> limit \<and>
    (int (failures e ops) = limit \<longrightarrow>
       (\<exists>r \<in> set (td_processing db). pr_envelope r = e \<and> finished r)) \<and>
    (\<forall>op db'. telemetry_step env limit op db db' \<longrightarrow>
       {r \<in> set (td_processing db). finished r} \<subseteq> set (td_processing db'))"
proof (intro conjI impI allI)
  have f: "failures_ok limit e (failures e ops) db" by (rule failures_run [OF assms])
  have p: "pipeline_ok limit db" by (rule pipeline_run [OF assms])
  have waiting: "pr_attempts r < limit" if "r \<in> set (td_processing db)" "\<not> finished r" for r
  proof -
    from p that(1) have "row_ok limit db r" by (simp add: pipeline_ok_def)
    with that(2) show ?thesis by (cases "pr_state r") (simp_all add: row_ok_def finished_def)
  qed
  show "int (failures e ops) \<le> limit"
  proof (cases "e \<in> pr_envelope ` set (td_processing db)")
    case True
    then obtain r where r: "r \<in> set (td_processing db)" "pr_envelope r = e" by blast
    with f have "int (failures e ops) \<le> (if finished r then limit else pr_attempts r)"
      unfolding failures_ok_def by blast
    with waiting [OF r(1)] show ?thesis by (auto split: if_splits)
  next
    case False
    with f assms(3) show ?thesis by (simp add: failures_ok_def)
  qed
  show "\<exists>r \<in> set (td_processing db). pr_envelope r = e \<and> finished r" if l: "int (failures e ops) = limit"
  proof -
    have "e \<in> pr_envelope ` set (td_processing db)" using f l assms(3) by (auto simp: failures_ok_def)
    then obtain r where r: "r \<in> set (td_processing db)" "pr_envelope r = e" by blast
    with f have "int (failures e ops) \<le> (if finished r then limit else pr_attempts r)"
      unfolding failures_ok_def by blast
    with l waiting [OF r(1)] r show ?thesis by (auto split: if_splits)
  qed
  show "{r \<in> set (td_processing db). finished r} \<subseteq> set (td_processing db')"
    if "telemetry_step env limit op db db'" for op db'
    using p step_rows [OF that] by (simp add: rows_change_finished pipeline_ok_def)
qed

section \<open>Alerts are not repeated\<close>

definition fixed_key :: "delivery_row \<Rightarrow> string option" where
  "fixed_key d =
     (case dv_kind d of
        Kind_new \<Rightarrow> Some (dv_issue d @ '':new:'' @ dv_rule d)
      | Kind_reminder \<Rightarrow> Some (dv_issue d @ '':reminder:1:'' @ dv_rule d)
      | Kind_escalation \<Rightarrow> Some (dv_issue d @ '':escalation:1:'' @ dv_rule d)
      | _ \<Rightarrow> None)"

definition keys_fixed :: "telemetry_db \<Rightarrow> bool" where
  "keys_fixed db \<longleftrightarrow>
     distinct_keys db \<and> (\<forall>d \<in> set (td_deliveries db). fixed_key d = None \<or> fixed_key d = Some (dv_key d))"

lemma planned_fixed_key:
  "d \<in> set (schedule_issue_alerts iso8601 i event at rules) \<Longrightarrow> fixed_key d = None \<or> fixed_key d = Some (dv_key d)"
  by (cases event)
     (auto simp: schedule_issue_alerts_def plan_issue_alerts_def delivery_of_def fixed_key_def Let_def split: if_splits)

lemma keys_fixed_step: "telemetry_step env limit op db db' \<Longrightarrow> keys_fixed db \<Longrightarrow> keys_fixed db'"
proof (induction rule: telemetry_step.induct)
  case (alerting i db d iso8601 event at)
  from alerting(3) have "distinct_keys (insert_delivery d db)" by (simp add: keys_fixed_def distinct_keys_insert)
  with alerting(3) planned_fixed_key [OF alerting(2)] insert_delivery_sets(1) [of d db] show ?case
    by (auto simp: keys_fixed_def)
next
  case (processing x db c i new_id now aborts attempts r db')
  from processing(3) have "td_deliveries db' = td_deliveries db"
    by (cases rule: process_envelope_cases) (auto simp: commits_def)
  with processing(4) show ?case by (simp add: keys_fixed_def distinct_keys_def)
next
  case (claiming worker now db c db')
  then have "td_deliveries db' = td_deliveries db"
    by (auto simp: claim_row_def update_processing_def split: list.splits option.splits)
  with claiming(2) show ?case by (simp add: keys_fixed_def distinct_keys_def)
next
  case (late_report e db db' now c n code)
  with late_report_nothing show ?case by auto
qed (auto simp: keys_fixed_def distinct_keys_def insert_raw_def mark_retry_def release_expired_claims_def
       dead_letter_payload_def Let_def update_processing_def issue_transition_def issue_assign_def
       issue_comment_def add_activity_def split: option.splits if_splits)

text \<open>
  C33. Alerts of a new critical issue are not repeated: however often the scheduler runs, an issue has for
  each rule at most one alert of its creation, at most one reminder and at most one escalation, and
  no two deliveries share a deduplication key.
\<close>

theorem alerts_at_most_once:
  assumes "op_run (telemetry_step env limit) ops db0 db" and "no_telemetry db0"
    and "k \<in> {Kind_new, Kind_reminder, Kind_escalation}"
  shows "length (filter (\<lambda>d. dv_issue d = i \<and> dv_rule d = r \<and> dv_kind d = k) (td_deliveries db)) \<le> 1 \<and>
    distinct (map dv_key (td_deliveries db))"
proof -
  have kf: "keys_fixed db"
    using assms(1)
  proof (rule op_run_invariant)
    show "keys_fixed db0" using assms(2) by (simp add: keys_fixed_def distinct_keys_def no_telemetry_def)
  qed (rule keys_fixed_step)
  let ?ds = "filter (\<lambda>d. dv_issue d = i \<and> dv_rule d = r \<and> dv_kind d = k) (td_deliveries db)"
  define key where "key = (case k of Kind_new \<Rightarrow> i @ '':new:'' @ r | Kind_reminder \<Rightarrow> i @ '':reminder:1:'' @ r
      | _ \<Rightarrow> i @ '':escalation:1:'' @ r)"
  have key: "fixed_key d = Some key" if "d \<in> set ?ds" for d
    using that assms(3) by (elim insertE) (auto simp: fixed_key_def key_def)
  have sub: "set (map dv_key ?ds) \<subseteq> {key}"
  proof
    fix x assume "x \<in> set (map dv_key ?ds)"
    then obtain d where d: "d \<in> set ?ds" "x = dv_key d" by auto
    then have "fixed_key d = None \<or> fixed_key d = Some (dv_key d)" using kf by (simp add: keys_fixed_def)
    with key [OF d(1)] d(2) show "x \<in> {key}" by simp
  qed
  have "distinct (map dv_key ?ds)"
    using kf by (simp add: keys_fixed_def distinct_keys_def distinct_map_filter)
  then have "length (map dv_key ?ds) = card (set (map dv_key ?ds))" by (rule distinct_card [symmetric])
  also have "\<dots> \<le> card {key}" by (rule card_mono [OF _ sub]) simp
  finally have "length ?ds \<le> 1" by simp
  with kf show ?thesis by (simp add: keys_fixed_def distinct_keys_def)
qed

section \<open>Alerts are sent\<close>

text \<open>Every delivery of the outbox has a key of its shape.\<close>

lemma keyed_step: "telemetry_step env limit op db db' \<Longrightarrow> list_all keyed (td_deliveries db) \<Longrightarrow>
    list_all keyed (td_deliveries db')"
proof (induction rule: telemetry_step.induct)
  case (alerting i db d iso8601 event at)
  with planned_keyed [OF alerting(2)] insert_delivery_sets(1) [of d db] show ?case
    by (auto simp: list_all_iff)
next
  case (processing x db c i new_id now aborts attempts r db')
  from processing(3) have "td_deliveries db' = td_deliveries db"
    by (cases rule: process_envelope_cases) (auto simp: commits_def)
  with processing(4) show ?case by simp
next
  case (claiming worker now db c db')
  then have "td_deliveries db' = td_deliveries db"
    by (auto simp: claim_row_def update_processing_def split: list.splits option.splits)
  with claiming(2) show ?case by simp
next
  case (late_report e db db' now c n code)
  with late_report_nothing show ?case by auto
qed (auto simp: insert_raw_def mark_retry_def release_expired_claims_def
       dead_letter_payload_def Let_def update_processing_def issue_transition_def issue_assign_def
       issue_comment_def add_activity_def split: option.splits if_splits)

text \<open>
  C32. An activity is alerted. Take any tables that the pipeline reaches from empty ones, whose
  identifiers hold no colon and whose rules have distinct ones. When a turn of the scheduler finds an issue that
  was created, regressed or resolved among the hundred latest activities without an alert of that kind, then
  afterwards every enabled rule that matches the issue has exactly one delivery with the key planned for it,
  and that delivery is of this issue and rule, of the kind the policy says, and goes to the channel
  and recipient of the rule.
\<close>

theorem activity_is_alerted:
  assumes "op_run (telemetry_step env limit) ops db0 db" and "no_telemetry db0" and "plain_ids db"
    and "distinct (map (ru_id \<circ> fst) (td_rules db))"
    and "(a, i) \<in> set (take 100 (pending_activities db))" and "alert_event_of (ay_type a) = Some event"
    and "(r, True) \<in> set (td_rules db)" and "rule_matches r i"
  shows "\<exists>p d. plan_issue_alerts iso8601 i (ay_at a) event = [p] \<and>
    filter (\<lambda>d. dv_key d = pa_key p @ '':'' @ ru_id r) (td_deliveries (schedule iso8601 now db)) = [d] \<and>
    dv_issue d = is_id i \<and> dv_kind d = kind_of event (is_severity i) \<and> dv_rule d = ru_id r \<and>
    dv_channel d = ru_channel r \<and> dv_recipient d = ru_recipient r"
proof -
  have "keys_fixed db"
    using assms(1)
  proof (rule op_run_invariant)
    show "keys_fixed db0" using assms(2) by (simp add: keys_fixed_def distinct_keys_def no_telemetry_def)
  qed (rule keys_fixed_step)
  moreover have "list_all keyed (td_deliveries db)"
    using assms(1)
  proof (rule op_run_invariant)
    show "list_all keyed (td_deliveries db0)" using assms(2) by (simp add: no_telemetry_def)
  qed (rule keyed_step)
  ultimately show ?thesis
    using activity_delivered [OF _ _ assms(3-8)] by (simp add: keys_fixed_def distinct_keys_def)
qed

end
