(* ===== verification/PipelineFaults.thy ===== *)
theory PipelineFaults
  imports Pipeline
begin

text \<open>
  A sample history of the telemetry pipeline, the alerts it owes, and what goes wrong in it: a limit that
  is not the configured one, sources without issues, claims that are not fenced, crashes that are not
  counted and a second regression without an alert.
\<close>

section \<open>A sample history\<close>

definition sample_env :: processor_env where
  "sample_env =
     \<lparr> pe_parse_date = (\<lambda>_. Some 500), pe_digest = id, pe_source_maps = None, pe_active_user = (\<lambda>_. True) \<rparr>"

definition sample_payload :: "string \<Rightarrow> raw_payload" where
  "sample_payload source =
     \<lparr> rp_envelope = Some \<lparr> rv_schema = 1, rv_event_id = Some ''EVT_0001'', rv_key = Some ''key-000000000001'',
         rv_captured = ''now'', rv_source = source, rv_level = Level_error,
         rv_error = Some \<lparr> te_name = ''TypeError'', te_code = ''E1'', te_message = ''broken'',
           te_stack = Some ''at run (app.js:1:2)'', te_component = None \<rparr>,
         rv_context = Some \<lparr> tc_request = None, tc_trace = None, tc_route = None, tc_release = ''r1'',
           tc_service = ''web'', tc_tags = None, tc_breadcrumbs = None \<rparr> \<rparr>,
       rp_identity = Some \<lparr> ri_user = Some ''u1'', ri_role = Some ''teacher'', ri_label = Some ''U'',
         ri_session = Some ''s1'' \<rparr> \<rparr>"

definition sample_record :: "string \<Rightarrow> ingest_record" where
  "sample_record source =
     \<lparr> ig_id = ''env-1'', ig_received = 1000, ig_client = ''web'', ig_key = ''key-000000000001'',
       ig_event_id = ''EVT_0001'', ig_source = source, ig_payload = sample_payload source, ig_hash = ''h'' \<rparr>"

definition sample_tables :: telemetry_db where
  "sample_tables =
     \<lparr> td_clients = [''web''], td_keys = [], td_envelopes = [], td_processing = [], td_dead = [], td_issues = [],
       td_events = [], td_affected = [], td_activity = [],
       td_rules = [(\<lparr> ru_id = ''rule'', ru_minimum = Sev_low, ru_source = None, ru_code = None, ru_channel = Email,
                      ru_recipient = ''ops'' \<rparr>, True)],
       td_deliveries = [], td_envelope_months = [(0, 1000000)], td_event_months = [(0, 1000000)] \<rparr>"

definition sample_accepted :: "string \<Rightarrow> telemetry_db" where
  "sample_accepted source = snd (insert_raw (sample_record source) sample_tables)"

definition sample_content :: "string \<Rightarrow> envelope \<times> identity option" where
  "sample_content source = the (unpack_payload (sample_payload source))"

definition sample_claim :: "string \<Rightarrow> claimed_envelope" where
  "sample_claim source =
     claimed_of (accepted_envelope (sample_record source)) 0 (fst (sample_content source)) (snd (sample_content source))"

definition sample_claimed :: "string \<Rightarrow> telemetry_db" where
  "sample_claimed source = snd (claim_row ''w1'' 2000 (sample_accepted source))"

definition sample_processed :: telemetry_db where
  "sample_processed =
     snd (process_envelope sample_env ''issue-1'' 3000 False (sample_claim ''browser'') (sample_claimed ''browser''))"

lemma sample_rows:
  "map en_id (td_envelopes sample_processed) = [''env-1'']"
  "map pr_state (td_processing sample_processed) = [Processed]"
  "map (\<lambda>i. (is_id i, is_count i, is_users i)) (td_issues sample_processed) = [(''issue-1'', 1, 1)]"
  "map oc_event_id (td_events sample_processed) = [''EVT_0001'']"
  by code_simp+

lemma sample_claimed_rows:
  "map en_id (td_envelopes (sample_claimed ''browser'')) = [''env-1'']"
  "map pr_state (td_processing (sample_claimed ''browser'')) = [Claimed]"
  by code_simp+

lemma sample_unpacks:
  "unpack_payload (sample_payload source) = Some (fst (sample_content source), snd (sample_content source))"
  by (simp add: sample_content_def sample_payload_def unpack_payload_def)

lemma sample_accept_step: "telemetry_step sample_env 10 Accept sample_tables (sample_accepted source)"
  unfolding sample_accepted_def
  by (rule accepting [OF prod.collapse [symmetric]]) (simp add: sample_tables_def)

lemma sample_claim_step: "telemetry_step sample_env 10 Claim_op (sample_accepted source) (sample_claimed source)"
  unfolding sample_claimed_def by (rule claiming [OF prod.collapse [symmetric]])

lemma sample_stored: "accepted_envelope (sample_record ''browser'') \<in> set (td_envelopes (sample_claimed ''browser''))"
proof -
  have "td_envelopes (sample_claimed ''browser'') = [accepted_envelope (sample_record ''browser'')]"
    by code_simp
  then show ?thesis by simp
qed

lemma sample_process_step:
  "telemetry_step sample_env 10 (Process_op (en_id (accepted_envelope (sample_record ''browser''))))
     (sample_claimed ''browser'') sample_processed"
proof -
  have "unpack_payload (en_payload (accepted_envelope (sample_record ''browser''))) =
      Some (fst (sample_content ''browser''), snd (sample_content ''browser''))"
    using sample_unpacks by (simp add: accepted_envelope_def sample_record_def)
  from processing [OF sample_stored this prod.collapse [symmetric]] show ?thesis
    unfolding sample_processed_def sample_claim_def .
qed

definition sample_ops :: "telemetry_op list" where
  "sample_ops = [Accept, Claim_op, Process_op (en_id (accepted_envelope (sample_record ''browser'')))]"

lemma sample_pipeline_run: "op_run (telemetry_step sample_env 10) sample_ops sample_tables sample_processed"
proof -
  have "op_run (telemetry_step sample_env 10) ([] @ [Accept]) sample_tables (sample_accepted ''browser'')"
    using run_nothing sample_accept_step by (rule run_more)
  then have "op_run (telemetry_step sample_env 10) (([] @ [Accept]) @ [Claim_op]) sample_tables
      (sample_claimed ''browser'')"
    using sample_claim_step by (rule run_more)
  then have "op_run (telemetry_step sample_env 10)
      ((([] @ [Accept]) @ [Claim_op]) @ [Process_op (en_id (accepted_envelope (sample_record ''browser'')))])
      sample_tables sample_processed"
    using sample_process_step by (rule run_more)
  then show ?thesis by (simp add: sample_ops_def)
qed

lemma sample_fresh: "no_telemetry sample_tables"
  by (simp add: no_telemetry_def sample_tables_def)

lemma sample_envelope_kept: "td_envelopes sample_processed = [accepted_envelope (sample_record ''browser'')]"
  by code_simp

lemma no_envelope_lost_witness:
  "\<exists>r. filter (\<lambda>r. pr_envelope r = ''env-1'') (td_processing sample_processed) = [r] \<and>
     pr_state r = Processed \<and> recorded ''env-1'' sample_processed"
proof -
  let ?x = "accepted_envelope (sample_record ''browser'')"
  have x: "?x \<in> set (td_envelopes sample_processed)" "en_id ?x = ''env-1''"
    by (simp_all add: sample_envelope_kept) (simp add: accepted_envelope_def sample_record_def)
  from no_envelope_lost [OF sample_pipeline_run sample_fresh _ x(1)] obtain r
    where r: "filter (\<lambda>r. pr_envelope r = ''env-1'') (td_processing sample_processed) = [r]"
      "case pr_state r of Processed \<Rightarrow> recorded ''env-1'' sample_processed
       | Dead_lettered \<Rightarrow> buried ''env-1'' sample_processed \<or> pr_error r = Some ''PROCESSING_RETRY_LIMIT''
       | _ \<Rightarrow> 0 \<le> pr_attempts r \<and> pr_attempts r < 10"
    unfolding x(2) by auto
  from r(1) have "r \<in> set (td_processing sample_processed)" by (metis filter_is_subset list.set_intros(1) subsetD)
  with sample_rows(2) have "pr_state r = Processed" by auto
  with r show ?thesis by auto
qed

lemma issue_counts_exact_witness:
  "oc_issue ` set (td_events sample_processed) \<subseteq> is_id ` set (td_issues sample_processed) \<and>
   distinct (map is_fingerprint (td_issues sample_processed)) \<and>
   length (td_events sample_processed) = 1"
  using issue_counts_exact [OF sample_pipeline_run sample_fresh] arg_cong [OF sample_rows(4), of length] by simp

lemma failing_envelope_ends_witness: "int (failures ''env-1'' sample_ops) \<le> 10 \<and> length sample_ops = 3"
  using failing_envelope_ends [OF sample_pipeline_run sample_fresh, of "''env-1''"] by (simp add: sample_ops_def)

lemma alerts_at_most_once_witness:
  "length (filter (\<lambda>d. dv_issue d = ''issue-1'' \<and> dv_rule d = ''rule'' \<and> dv_kind d = Kind_reminder)
     (td_deliveries sample_processed)) \<le> 1 \<and> length (td_rules sample_processed) = 1"
proof -
  have "length (td_rules sample_processed) = 1" by code_simp
  then show ?thesis using alerts_at_most_once [OF sample_pipeline_run sample_fresh, of Kind_reminder "''issue-1''" "''rule''"]
    by simp
qed

section \<open>The limit of the queue\<close>

lemma claim_next_row:
  assumes "claim_next limit worker now db = (Some c, db')"
  shows "\<exists>r \<in> set (td_processing db'). pr_envelope r = ce_envelope c \<and> pr_state r = Claimed \<and>
    pr_attempts r = ce_attempts c"
proof -
  from assms obtain k where k: "claim_row worker now db = (Some k, db')"
      "ce_envelope c = cl_envelope k" "ce_attempts c = cl_attempts k"
    by (auto simp: claim_next_def split: prod.splits option.splits)
  let ?rows = "sort_key pr_received (filter (\<lambda>r. ready now r \<and> envelope_of r db \<noteq> None) (td_processing db))"
  from k obtain r rs where rows: "?rows = r # rs"
      "cl_envelope k = pr_envelope r" "cl_attempts k = pr_attempts r"
      "db' = update_processing (\<lambda>q. pr_envelope q = pr_envelope r \<and> pr_received q = pr_received r)
        (\<lambda>q. q\<lparr>pr_state := Claimed, pr_claimed_at := Some now, pr_claimed_by := Some worker\<rparr>) db"
    by (auto simp: claim_row_def split: list.splits option.splits)
  have "r \<in> set ?rows" using rows(1) by simp
  then have "r \<in> set (td_processing db)" by simp
  then show ?thesis
    using k(2,3) rows(2-4)
    by (intro bexI [of _ "r\<lparr>pr_state := Claimed, pr_claimed_at := Some now, pr_claimed_by := Some worker\<rparr>"])
       (auto simp: update_processing_def image_iff intro!: bexI [of _ r])
qed

lemma update_processing_mem:
  "r \<in> set (td_processing db) \<Longrightarrow> p r \<Longrightarrow> f r \<in> set (td_processing (update_processing p f db))"
  by (auto simp: update_processing_def image_iff intro!: bexI [of _ r])

lemma process_envelope_fails:
  "process_envelope env new_id now aborts c db = (Inl e, db') \<Longrightarrow> db' = db"
  by (auto simp: process_envelope_def Let_def elim: in_transaction_cases)

text \<open>
  A configured limit above ten is not the limit. The processor is given the limit of its configuration and the
  queue its default of ten: the tenth failure of an envelope is answered as a retry by a processor with
  a higher limit, while the row is dead-lettered and no dead letter is stored.
\<close>

theorem configured_limit_ignored:
  assumes "claim_next default_queue_limit worker now db = (Some c, db1)" and "ce_attempts c = 9"
    and "10 < limit" and "limit \<le> 100"
    and "process_envelope env new_id now aborts c db1 = (Inl e, db2)"
  shows "\<exists>db'. run_processor_once env default_queue_limit limit worker new_id now aborts db = (Inr Turn_retried, db') \<and>
    td_dead db' = td_dead db1 \<and>
    (\<exists>r \<in> set (td_processing db'). pr_envelope r = ce_envelope c \<and> pr_state r = Dead_lettered \<and> pr_attempts r = 10)"
proof -
  have db2: "db2 = db1" by (rule process_envelope_fails [OF assms(5)])
  obtain r where r: "r \<in> set (td_processing db1)" "pr_envelope r = ce_envelope c" "pr_state r = Claimed"
      "pr_attempts r = 9"
    using claim_next_row [OF assms(1)] assms(2) by auto
  have run: "run_processor_once env default_queue_limit limit worker new_id now aborts db =
      (Inr Turn_retried, mark_retry default_queue_limit (ce_envelope c) now db1)"
    using assms by (simp add: run_processor_once_def limit_ok_def db2)
  have "\<exists>q \<in> set (td_processing (mark_retry default_queue_limit (ce_envelope c) now db1)).
      pr_envelope q = ce_envelope c \<and> pr_state q = Dead_lettered \<and> pr_attempts q = 10"
    unfolding mark_retry_def
    by (rule bexI [OF _ update_processing_mem [OF r(1)]]) (simp_all add: r default_queue_limit_def Let_def)
  moreover have "td_dead (mark_retry default_queue_limit (ce_envelope c) now db1) = td_dead db1"
    by (simp add: mark_retry_def update_processing_def)
  ultimately show ?thesis using run by blast
qed

definition sample_ninth :: telemetry_db where
  "sample_ninth = sample_accepted ''browser''
     \<lparr>td_processing := map (\<lambda>r. r\<lparr>pr_attempts := 9\<rparr>) (td_processing (sample_accepted ''browser''))\<rparr>"

lemma sample_ninth_claimed:
  "map_option ce_attempts (fst (claim_next default_queue_limit ''w1'' 2000 sample_ninth)) = Some 9"
  "td_dead (snd (claim_next default_queue_limit ''w1'' 2000 sample_ninth)) = []"
  by code_simp+

lemma configured_limit_ignored_witness:
  "\<exists>db'. run_processor_once sample_env default_queue_limit 20 ''w1'' ''issue-1'' 2000 True sample_ninth =
       (Inr Turn_retried, db') \<and> td_dead db' = [] \<and>
     (\<exists>r \<in> set (td_processing db'). pr_state r = Dead_lettered)"
proof -
  obtain c where c: "fst (claim_next default_queue_limit ''w1'' 2000 sample_ninth) = Some c" "ce_attempts c = 9"
    using sample_ninth_claimed(1) by auto
  let ?db = "snd (claim_next default_queue_limit ''w1'' 2000 sample_ninth)"
  have claim: "claim_next default_queue_limit ''w1'' 2000 sample_ninth = (Some c, ?db)"
    using c(1) by (metis prod.collapse)
  have fails: "process_envelope sample_env ''issue-1'' 2000 True c ?db = (Inl (Other_failure ''aborted''), ?db)"
    by (simp add: process_envelope_def Let_def in_transaction_def then_prog_def bind_prog_def when_prog_def throw_def)
  from configured_limit_ignored [OF claim c(2) _ _ fails, of 20] sample_ninth_claimed(2) show ?thesis by auto
qed

section \<open>Sources without issues\<close>

text \<open>
  Errors of the sources document_store and deployment cannot become issues: they are accepted, but
  processing an envelope of such a source whose fingerprint has no issue yet always fails and changes
  nothing, for the check of the table of issues does not know the source.
\<close>

theorem unsupported_source_never_processed:
  assumes "el_source (ce_content c) \<in> {''document_store'', ''deployment''}"
    and "fingerprint_event env (symbolicated env
           (normalize_event env (ce_received c) (ce_content c) (ce_identity c) (Some (ce_client c))))
         \<notin> is_fingerprint ` set (td_issues db)"
  shows "el_source (ce_content c) \<in> set telemetry_sources \<and>
    (\<exists>e. process_envelope env new_id now aborts c db = (Inl e, db))"
proof -
  let ?e = "symbolicated env
      (normalize_event env (ce_received c) (ce_content c) (ce_identity c) (Some (ce_client c)))"
  let ?fp = "fingerprint_event env ?e"
  have source: "ev_source ?e = el_source (ce_content c)"
    by (auto simp: symbolicated_def normalize_event_def split: option.splits)
  with assms(1) have "ev_source ?e \<notin> set issue_sources" by (auto simp: issue_sources_def)
  moreover have "find (\<lambda>i. is_fingerprint i = ?fp) (td_issues db) = None"
    using assms(2) by (force simp: find_None_iff)
  ultimately have "process_event new_id now (ce_envelope c) ?fp ?e db = (Inl Constraint_violation, db)"
    by (simp add: process_event_def find_issue_def gets_def bind_prog_def create_issue_def)
  then have "\<exists>e. process_envelope env new_id now aborts c db = (Inl e, db)"
    by (simp add: process_envelope_def Let_def in_transaction_def then_prog_def bind_prog_def when_prog_def
        throw_def ret_def)
  with assms(1) show ?thesis by (auto simp: telemetry_sources_def)
qed

lemma unsupported_source_never_processed_witness:
  "isl (fst (insert_raw (sample_record ''deployment'') sample_tables)) = False \<and>
   (\<exists>e. process_envelope sample_env ''issue-1'' 3000 False (sample_claim ''deployment'') (sample_claimed ''deployment'')
      = (Inl e, sample_claimed ''deployment''))"
proof
  show "isl (fst (insert_raw (sample_record ''deployment'') sample_tables)) = False" by code_simp
  have "td_issues (sample_claimed ''deployment'') = []" by code_simp
  moreover have "el_source (ce_content (sample_claim ''deployment'')) = ''deployment''" by code_simp
  ultimately show "\<exists>e. process_envelope sample_env ''issue-1'' 3000 False (sample_claim ''deployment'')
      (sample_claimed ''deployment'') = (Inl e, sample_claimed ''deployment'')"
    using unsupported_source_never_processed [of "sample_claim ''deployment''" sample_env
        "sample_claimed ''deployment''"] by simp
qed

section \<open>Claims without a fence\<close>

definition late_released :: telemetry_db where
  "late_released = release_expired_claims 302001 (sample_claimed ''browser'')"

definition late_claimed :: telemetry_db where
  "late_claimed = snd (claim_row ''w2'' 302001 late_released)"

definition late_once :: telemetry_db where
  "late_once = snd (process_envelope sample_env ''issue-1'' 302002 False (sample_claim ''browser'') late_claimed)"

definition late_twice :: telemetry_db where
  "late_twice = snd (process_envelope sample_env ''issue-2'' 302003 False (sample_claim ''browser'') late_once)"

lemma late_envelopes:
  "td_envelopes late_claimed = [accepted_envelope (sample_record ''browser'')]"
  "td_envelopes late_once = [accepted_envelope (sample_record ''browser'')]"
  "td_envelopes late_twice = [accepted_envelope (sample_record ''browser'')]"
  by code_simp+

lemma late_counts:
  "map oc_event_id (td_events late_twice) = [''EVT_0001'', ''EVT_0001'']"
  "map is_count (td_issues late_twice) = [2]"
  by code_simp+

lemma late_process_step:
  assumes "td_envelopes db = [accepted_envelope (sample_record ''browser'')]"
  shows "telemetry_step sample_env 10 (Process_op ''env-1'') db
    (snd (process_envelope sample_env new_id now False (sample_claim ''browser'') db))"
proof -
  let ?x = "accepted_envelope (sample_record ''browser'')"
  have "unpack_payload (en_payload ?x) = Some (fst (sample_content ''browser''), snd (sample_content ''browser''))"
    using sample_unpacks by (simp add: accepted_envelope_def sample_record_def)
  moreover have "?x \<in> set (td_envelopes db)" by (simp add: assms)
  ultimately have "telemetry_step sample_env 10 (Process_op (en_id ?x)) db
      (snd (process_envelope sample_env new_id now False
        (claimed_of ?x 0 (fst (sample_content ''browser'')) (snd (sample_content ''browser''))) db))"
    by (intro processing [OF _ _ prod.collapse [symmetric]])
  moreover have "en_id ?x = ''env-1''" by (simp add: accepted_envelope_def sample_record_def)
  ultimately show ?thesis by (simp add: sample_claim_def)
qed

text \<open>
  One envelope can be counted twice. When a processor takes more than five minutes, its claim is released and
  another processor stores the occurrence; the late one then stores it again, for neither the report
  nor the occurrence is tied to the claim or to the event.
\<close>

theorem late_processor_counts_twice:
  "\<exists>ops db. op_run (telemetry_step sample_env 10) ops sample_tables db \<and> length (td_envelopes db) = 1 \<and>
     map oc_event_id (td_events db) = [''EVT_0001'', ''EVT_0001''] \<and> map is_count (td_issues db) = [2]"
proof -
  have "op_run (telemetry_step sample_env 10) ([] @ [Accept]) sample_tables (sample_accepted ''browser'')"
    using run_nothing sample_accept_step by (rule run_more)
  then have "op_run (telemetry_step sample_env 10) (([] @ [Accept]) @ [Claim_op]) sample_tables (sample_claimed ''browser'')"
    using sample_claim_step by (rule run_more)
  then have "op_run (telemetry_step sample_env 10) ((([] @ [Accept]) @ [Claim_op]) @ [Release_op]) sample_tables late_released"
    using releasing unfolding late_released_def by (rule run_more)
  then have "op_run (telemetry_step sample_env 10) (((([] @ [Accept]) @ [Claim_op]) @ [Release_op]) @ [Claim_op])
      sample_tables late_claimed"
    using claiming [OF prod.collapse [symmetric]] unfolding late_claimed_def by (rule run_more)
  then have "op_run (telemetry_step sample_env 10) ((((([] @ [Accept]) @ [Claim_op]) @ [Release_op]) @ [Claim_op]) @
      [Process_op ''env-1'']) sample_tables late_once"
    using late_process_step [OF late_envelopes(1)] unfolding late_once_def by (rule run_more)
  then have "op_run (telemetry_step sample_env 10) (((((([] @ [Accept]) @ [Claim_op]) @ [Release_op]) @ [Claim_op]) @
      [Process_op ''env-1'']) @ [Process_op ''env-1'']) sample_tables late_twice"
    using late_process_step [OF late_envelopes(2)] unfolding late_twice_def by (rule run_more)
  moreover have "length (td_envelopes late_twice) = 1" by (simp add: late_envelopes)
  ultimately show ?thesis using late_counts by (intro exI conjI)
qed

section \<open>Crashes are not counted\<close>

definition waiting_alone :: "processing_row \<Rightarrow> telemetry_db \<Rightarrow> bool" where
  "waiting_alone r db \<longleftrightarrow>
     td_processing db = [r] \<and> pr_state r \<in> {Pending, Retrying} \<and> envelope_of r db \<noteq> None"

lemma crash_round:
  assumes "waiting_alone r db"
  obtains db' db'' r' where "telemetry_step env limit Claim_op db db'" "telemetry_step env limit Release_op db' db''"
    "waiting_alone r' db''" "pr_attempts r' = pr_attempts r" "pr_envelope r' = pr_envelope r"
proof -
  define now where "now = (case pr_next r of None \<Rightarrow> 0 | Some t \<Rightarrow> t)"
  let ?c = "r\<lparr>pr_state := Claimed, pr_claimed_at := Some now, pr_claimed_by := Some ''w''\<rparr>"
  let ?r = "?c\<lparr>pr_state := Retrying, pr_next := Some (now + 300001), pr_claimed_at := None, pr_claimed_by := None,
              pr_error := Some ''CLAIM_TIMEOUT''\<rparr>"
  have "ready now r" using assms by (simp add: ready_def waiting_alone_def now_def split: option.split)
  with assms obtain c where claim: "claim_row ''w'' now db = (c, db\<lparr>td_processing := [?c]\<rparr>)"
    by (auto simp: claim_row_def waiting_alone_def update_processing_def)
  have release: "release_expired_claims (now + 300001) (db\<lparr>td_processing := [?c]\<rparr>) = db\<lparr>td_processing := [?r]\<rparr>"
    by (simp add: release_expired_claims_def update_processing_def)
  have "telemetry_step env limit Release_op (db\<lparr>td_processing := [?c]\<rparr>) (db\<lparr>td_processing := [?r]\<rparr>)"
    using releasing [of env limit "db\<lparr>td_processing := [?c]\<rparr>" "now + 300001"] release by simp
  then show thesis
  proof (rule that [OF claiming [OF claim]])
    show "waiting_alone ?r (db\<lparr>td_processing := [?r]\<rparr>)"
      using assms by (simp add: waiting_alone_def envelope_of_def)
  qed simp_all
qed

text \<open>
  Crashes are not counted. A processor that dies before it reports leaves the claim to time out, and the
  timeout does not count as an attempt: an envelope that kills its processor can be claimed any number
  of times, with no failure reported, the attempts unchanged and the envelope waiting again.
\<close>

theorem crashes_are_not_counted:
  assumes "td_processing db = [r]" and "pr_state r \<in> {Pending, Retrying}" and "envelope_of r db \<noteq> None"
  shows "\<exists>ops db' r'. op_run (telemetry_step env limit) ops db db' \<and>
    length (filter (\<lambda>op. op = Claim_op) ops) = n \<and> failures (pr_envelope r) ops = 0 \<and>
    td_processing db' = [r'] \<and> pr_state r' \<in> {Pending, Retrying} \<and> pr_attempts r' = pr_attempts r"
proof -
  have "\<exists>ops db' r'. op_run (telemetry_step env limit) ops db db' \<and>
    length (filter (\<lambda>op. op = Claim_op) ops) = n \<and> failures (pr_envelope r) ops = 0 \<and>
    waiting_alone r' db' \<and> pr_attempts r' = pr_attempts r"
  proof (induction n)
    case 0
    have "waiting_alone r db" using assms by (simp add: waiting_alone_def)
    then show ?case
      by (intro exI [of _ "[]"] exI [of _ db] exI [of _ r]) (simp add: run_nothing failures_def)
  next
    case (Suc n)
    then obtain ops u q where u: "op_run (telemetry_step env limit) ops db u"
        "length (filter (\<lambda>op. op = Claim_op) ops) = n" "failures (pr_envelope r) ops = 0" "waiting_alone q u"
        "pr_attempts q = pr_attempts r"
      by blast
    obtain v w r' where v: "telemetry_step env limit Claim_op u v" "telemetry_step env limit Release_op v w"
        "waiting_alone r' w" "pr_attempts r' = pr_attempts q"
      by (rule crash_round [OF u(4)])
    from run_more [OF run_more [OF u(1) v(1)] v(2)] u(2,3,5) v(3,4) show ?case
      by (intro exI [of _ "(ops @ [Claim_op]) @ [Release_op]"] exI [of _ w] exI [of _ r']) (simp add: failures_def)
  qed
  then show ?thesis unfolding waiting_alone_def by blast
qed

lemma crashes_are_not_counted_witness:
  "\<exists>ops db' r'. op_run (telemetry_step sample_env 10) ops (sample_accepted ''browser'') db' \<and>
     length (filter (\<lambda>op. op = Claim_op) ops) = 1000 \<and> failures ''env-1'' ops = 0 \<and>
     td_processing db' = [r'] \<and> pr_state r' \<in> {Pending, Retrying} \<and> pr_attempts r' = 0"
proof -
  let ?r = "fresh_processing (sample_record ''browser'')"
  have rows: "td_processing (sample_accepted ''browser'') = [?r]" by code_simp
  have state: "pr_state ?r \<in> {Pending, Retrying}" "pr_envelope ?r = ''env-1''" "pr_attempts ?r = 0"
    by (simp_all add: fresh_processing_def sample_record_def)
  have "envelope_of ?r (sample_accepted ''browser'') = None \<longleftrightarrow> False" by code_simp
  then have "envelope_of ?r (sample_accepted ''browser'') \<noteq> None" by simp
  from crashes_are_not_counted [OF rows state(1) this, of sample_env 10 1000] show ?thesis
    unfolding state(2,3) .
qed

section \<open>Alerts of the sample\<close>

definition sample_pending :: "activity_row \<times> issue_row" where
  "sample_pending = hd (pending_activities sample_processed)"

definition sample_rule :: alert_rule where
  "sample_rule = fst (hd (td_rules sample_tables))"

lemma sample_pending_facts:
  "length (pending_activities sample_processed) = 1"
  "alert_event_of (ay_type (fst sample_pending)) = Some On_created"
  "rule_matches sample_rule (snd sample_pending)"
  "td_deliveries sample_processed = []"
  by code_simp+

lemma sample_rule_stored: "(sample_rule, True) \<in> set (td_rules sample_processed)"
proof -
  have "td_rules sample_processed = td_rules sample_tables" by code_simp
  then show ?thesis by (simp add: sample_rule_def sample_tables_def)
qed

lemma activity_is_alerted_witness:
  "\<exists>p d. plan_issue_alerts (\<lambda>_. ''2026-08-22T08:00:00.000Z'') (snd sample_pending) (ay_at (fst sample_pending)) On_created = [p] \<and>
    filter (\<lambda>d. dv_key d = pa_key p @ '':'' @ ru_id sample_rule)
      (td_deliveries (schedule (\<lambda>_. ''2026-08-22T08:00:00.000Z'') 5000 sample_processed)) = [d] \<and>
    dv_issue d = is_id (snd sample_pending) \<and> dv_kind d = kind_of On_created (is_severity (snd sample_pending)) \<and>
    dv_rule d = ru_id sample_rule \<and> dv_channel d = ru_channel sample_rule \<and> dv_recipient d = ru_recipient sample_rule"
proof (rule activity_is_alerted [OF sample_pipeline_run sample_fresh])
  have "pending_activities sample_processed \<noteq> []" using sample_pending_facts(1) by auto
  then have "sample_pending \<in> set (take 100 (pending_activities sample_processed))"
    by (cases "pending_activities sample_processed") (simp_all add: sample_pending_def)
  then show "(fst sample_pending, snd sample_pending) \<in> set (take 100 (pending_activities sample_processed))"
    by simp
  have "list_all (\<lambda>i. CHR '':'' \<notin> set (is_id i)) (td_issues sample_processed)"
    "list_all (\<lambda>r. CHR '':'' \<notin> set (ru_id (fst r))) (td_rules sample_processed)" by code_simp+
  then show "plain_ids sample_processed"
    using sample_pending_facts(4) by (simp add: plain_ids_def list_all_iff)
  show "distinct (map (ru_id \<circ> fst) (td_rules sample_processed))" by code_simp
qed (rule sample_pending_facts sample_rule_stored)+

definition sample_regressed :: telemetry_db where
  "sample_regressed = sample_processed
     \<lparr>td_activity := [\<lparr> ay_issue = ''issue-1'', ay_type = Was_regressed, ay_at = 900000, ay_actor = None,
                        ay_comment = None \<rparr>],
      td_deliveries := [delivery_of (hd (td_issues sample_processed))
        \<lparr> pa_kind = Kind_regressed, pa_at = 4000, pa_key = ''issue-1:regressed:earlier'', pa_owner = False \<rparr>
        sample_rule]\<rparr>"

lemma sample_regressed_delivery:
  "map (\<lambda>d. (dv_issue d, dv_kind d)) (td_deliveries sample_regressed) = [(''issue-1'', Kind_regressed)]"
  by code_simp

lemma second_regression_not_alerted_witness:
  "{d \<in> set (td_deliveries (schedule (\<lambda>_. ''2026-08-22T08:00:00.000Z'') 950000 sample_regressed)).
     dv_issue d = ''issue-1'' \<and> dv_kind d = Kind_regressed} \<subseteq> set (td_deliveries sample_regressed) \<and>
   map ay_type (td_activity sample_regressed) = [Was_regressed]"
proof
  from sample_regressed_delivery obtain d where "td_deliveries sample_regressed = [d]" "dv_issue d = ''issue-1''"
    "dv_kind d = Kind_regressed" by auto
  then show "{d \<in> set (td_deliveries (schedule (\<lambda>_. ''2026-08-22T08:00:00.000Z'') 950000 sample_regressed)).
     dv_issue d = ''issue-1'' \<and> dv_kind d = Kind_regressed} \<subseteq> set (td_deliveries sample_regressed)"
    using second_regression_not_alerted [of d sample_regressed "''issue-1''"] by simp
  show "map ay_type (td_activity sample_regressed) = [Was_regressed]"
    by (simp add: sample_regressed_def)
qed

end
