(* ===== verification/JsonText.thy ===== *)
theory JsonText
  imports Framing
begin

unbundle bit_operations_syntax

text \<open>
  Text and JSON of the database explorer (apps/sql-worker/src/explorer): JavaScript strings as
  lists of UTF-16 code units, their UTF-8 encoding, the values a row can hold, \<open>JSON.stringify\<close>, and
  the length estimate of cursorCodec.ts, which counts the bytes of a JSON text without building it.
  The main lemma of the first half says that the count is exact.
\<close>

section \<open>JavaScript strings\<close>

type_synonym jstring = "16 word list"

definition u :: "string \<Rightarrow> jstring" where
  "u s = map (\<lambda>c. of_nat (of_char c)) s"

lemma u_simps [simp]: "u [] = []" "u (c # s) = of_nat (of_char c) # u s"
  by (simp_all add: u_def)

lemma u_append: "u (s @ t) = u s @ u t"
  by (simp add: u_def)

lemma length_u [simp]: "length (u s) = length s"
  by (simp add: u_def)

definition high_surrogate :: "16 word \<Rightarrow> bool" where
  "high_surrogate c \<longleftrightarrow> 0xD800 \<le> c \<and> c \<le> 0xDBFF"

definition low_surrogate :: "16 word \<Rightarrow> bool" where
  "low_surrogate c \<longleftrightarrow> 0xDC00 \<le> c \<and> c \<le> 0xDFFF"

definition starts_low :: "jstring \<Rightarrow> bool" where
  "starts_low cs = (case cs of [] \<Rightarrow> False | d # _ \<Rightarrow> low_surrogate d)"

text \<open>\<open>Buffer.from(s, 'utf8')\<close>: a surrogate without its partner becomes U+FFFD.\<close>

definition utf8_unit :: "16 word \<Rightarrow> bytes" where
  "utf8_unit c =
     (if c \<le> 0x7F then [ucast c]
      else if c \<le> 0x7FF then [0xC0 OR ucast (drop_bit 6 c), 0x80 OR ucast (c AND 0x3F)]
      else if high_surrogate c \<or> low_surrogate c then [0xEF, 0xBF, 0xBD]
      else [0xE0 OR ucast (drop_bit 12 c), 0x80 OR ucast (drop_bit 6 c AND 0x3F),
            0x80 OR ucast (c AND 0x3F)])"

definition code_point :: "16 word \<Rightarrow> 16 word \<Rightarrow> 32 word" where
  "code_point c d = 0x10000 + push_bit 10 (ucast c - 0xD800) + (ucast d - 0xDC00)"

definition utf8_pair :: "16 word \<Rightarrow> 16 word \<Rightarrow> bytes" where
  "utf8_pair c d =
     (let p = code_point c d in
      [0xF0 OR ucast (drop_bit 18 p), 0x80 OR ucast (drop_bit 12 p AND 0x3F),
       0x80 OR ucast (drop_bit 6 p AND 0x3F), 0x80 OR ucast (p AND 0x3F)])"

fun utf8 :: "jstring \<Rightarrow> bytes" where
  "utf8 [] = []"
| "utf8 [c] = utf8_unit c"
| "utf8 (c # d # cs) =
     (if high_surrogate c \<and> low_surrogate d then utf8_pair c d @ utf8 cs
      else utf8_unit c @ utf8 (d # cs))"

definition byte_length :: "jstring \<Rightarrow> nat" where
  "byte_length s = length (utf8 s)"

lemma utf8_Cons: "\<not> high_surrogate c \<Longrightarrow> utf8 (c # cs) = utf8_unit c @ utf8 cs"
  by (cases cs) auto

lemma utf8_Cons_lone: "\<not> starts_low cs \<Longrightarrow> utf8 (c # cs) = utf8_unit c @ utf8 cs"
  by (cases cs) (auto simp: starts_low_def)

lemma utf8_append: "\<not> starts_low ys \<Longrightarrow> utf8 (xs @ ys) = utf8 xs @ utf8 ys"
proof (induction xs rule: utf8.induct)
  case (2 c)
  then show ?case by (simp add: utf8_Cons_lone)
qed auto

lemma ascii_not_surrogate [simp]:
  "c \<le> 0x7F \<Longrightarrow> \<not> high_surrogate c" "c \<le> 0x7F \<Longrightarrow> \<not> low_surrogate c"
  by (auto simp: high_surrogate_def low_surrogate_def word_le_nat_alt)

lemma low_not_high: "low_surrogate c \<Longrightarrow> \<not> high_surrogate c"
  by (auto simp: high_surrogate_def low_surrogate_def word_le_nat_alt)

section \<open>Operations on text\<close>

text \<open>\<open>toLowerCase\<close> for ASCII, \<open>startsWith\<close>, \<open>endsWith\<close>, \<open>includes\<close>, the white space of \<open>\\s\<close> and \<open>trim\<close>.\<close>

definition lower_unit :: "16 word \<Rightarrow> 16 word" where
  "lower_unit c = (if 0x41 \<le> c \<and> c \<le> 0x5A then c + 32 else c)"

definition lower :: "jstring \<Rightarrow> jstring" where
  "lower s = map lower_unit s"

definition units_start :: "jstring \<Rightarrow> jstring \<Rightarrow> bool" where
  "units_start p s \<longleftrightarrow> take (length p) s = p"

definition units_end :: "jstring \<Rightarrow> jstring \<Rightarrow> bool" where
  "units_end p s \<longleftrightarrow> length p \<le> length s \<and> drop (length s - length p) s = p"

fun units_include :: "jstring \<Rightarrow> jstring \<Rightarrow> bool" where
  "units_include p [] = (p = [])"
| "units_include p (c # s) = (units_start p (c # s) \<or> units_include p s)"

definition unit_white :: "16 word \<Rightarrow> bool" where
  "unit_white c \<longleftrightarrow> c \<in> {9, 10, 11, 12, 13, 32, 0xA0, 0x1680, 0x2028, 0x2029, 0x202F, 0x205F, 0x3000, 0xFEFF}
     \<or> 0x2000 \<le> c \<and> c \<le> 0x200A"

definition trim_units :: "jstring \<Rightarrow> jstring" where
  "trim_units s = rev (dropWhile unit_white (rev (dropWhile unit_white s)))"

text \<open>\<open>split\<close> at a single unit.\<close>

fun split_units :: "16 word \<Rightarrow> jstring \<Rightarrow> jstring list" where
  "split_units sep [] = [[]]"
| "split_units sep (c # cs) =
     (if c = sep then [] # split_units sep cs
      else (case split_units sep cs of p # ps \<Rightarrow> (c # p) # ps | [] \<Rightarrow> [[c]]))"

lemma split_units_part [simp]: "sep \<notin> set p \<Longrightarrow> split_units sep p = [p]"
  by (induction p) auto

lemma split_units_join [simp]:
  "sep \<notin> set p \<Longrightarrow> split_units sep (p @ sep # rest) = p # split_units sep rest"
  by (induction p) auto

section \<open>Values\<close>

text \<open>
  What a cell of a row, a claim of a row reference or a parsed JSON text can be. A number is an
  integer or, as text, any other finite number. A \<open>Date\<close> is the milliseconds since the epoch.
\<close>

datatype js =
    Undefined | Null | Bool bool | Num int | Real string | Str jstring | Date int | Invalid_date
  | Buffer bytes | Arr "js list" | Obj "(jstring \<times> js) list"

text \<open>The members of an object, none of anything else; a missing member is undefined.\<close>

definition is_record :: "js \<Rightarrow> (jstring \<times> js) list option" where
  "is_record v = (case v of Obj m \<Rightarrow> Some m | _ \<Rightarrow> None)"

definition member :: "(jstring \<times> js) list \<Rightarrow> string \<Rightarrow> js" where
  "member m k = (case map_of m (u k) of None \<Rightarrow> Undefined | Some v \<Rightarrow> v)"

definition string_of :: "js \<Rightarrow> jstring option" where
  "string_of v = (case v of Str s \<Rightarrow> Some s | _ \<Rightarrow> None)"

section \<open>\<open>JSON.stringify\<close>\<close>

definition hex_digit :: "16 word \<Rightarrow> 16 word" where
  "hex_digit n = (if n < 10 then 0x30 + n else 0x57 + n)"

definition hex4 :: "16 word \<Rightarrow> jstring" where
  "hex4 c = [0x5C, 0x75] @ map hex_digit [drop_bit 12 c, drop_bit 8 c AND 15, drop_bit 4 c AND 15, c AND 15]"

definition json_unit :: "16 word \<Rightarrow> jstring" where
  "json_unit c =
     (if c = 0x22 \<or> c = 0x5C then [0x5C, c]
      else if c = 0x08 then [0x5C, 0x62]
      else if c = 0x09 then [0x5C, 0x74]
      else if c = 0x0A then [0x5C, 0x6E]
      else if c = 0x0C then [0x5C, 0x66]
      else if c = 0x0D then [0x5C, 0x72]
      else if c \<le> 0x1F \<or> high_surrogate c \<or> low_surrogate c then hex4 c
      else [c])"

fun json_chars :: "jstring \<Rightarrow> jstring" where
  "json_chars [] = []"
| "json_chars [c] = json_unit c"
| "json_chars (c # d # cs) =
     (if high_surrogate c \<and> low_surrogate d then c # d # json_chars cs
      else json_unit c @ json_chars (d # cs))"

definition json_string :: "jstring \<Rightarrow> jstring" where
  "json_string s = 0x22 # json_chars s @ [0x22]"

fun commas :: "jstring list \<Rightarrow> jstring" where
  "commas [] = []"
| "commas [x] = x"
| "commas (x # y # xs) = x @ 0x2C # commas (y # xs)"

text \<open>
  The text of a value that \<open>JSON.parse\<close> can give back; the values that it cannot are first turned
  into ones that it can by \<open>plain\<close>, which is also what \<open>JSON.parse (JSON.stringify v)\<close> yields. The
  argument is \<open>toISOString\<close>.
\<close>

fun json_text :: "js \<Rightarrow> jstring" where
  "json_text (Bool b) = (if b then u ''true'' else u ''false'')"
| "json_text (Num n) = u (string_of_int n)"
| "json_text (Real t) = u t"
| "json_text (Str s) = json_string s"
| "json_text (Arr vs) = 0x5B # commas (map json_text vs) @ [0x5D]"
| "json_text (Obj m) = 0x7B # commas (map (\<lambda>(k, v). json_string k @ 0x3A # json_text v) m) @ [0x7D]"
| "json_text _ = u ''null''"

fun plain :: "(int \<Rightarrow> jstring) \<Rightarrow> js \<Rightarrow> js" where
  "plain to_iso (Date t) = Str (to_iso t)"
| "plain to_iso Invalid_date = Null"
| "plain to_iso (Buffer b) = Obj [(u ''type'', Str (u ''Buffer'')), (u ''data'', Arr (map (\<lambda>x. Num (uint x)) b))]"
| "plain to_iso (Arr vs) = Arr (map (\<lambda>v. if v = Undefined then Null else plain to_iso v) vs)"
| "plain to_iso (Obj m) = Obj (map (\<lambda>(k, v). (k, plain to_iso v)) (filter (\<lambda>(k, v). v \<noteq> Undefined) m))"
| "plain to_iso v = v"

section \<open>Counting the bytes of a JSON text\<close>

text \<open>\<open>jsonStringByteLength\<close>: the loop gives up as soon as the count exceeds the maximum.\<close>

definition unit_bytes :: "16 word \<Rightarrow> int" where
  "unit_bytes c =
     (if c = 0x22 \<or> c = 0x5C \<or> c = 0x08 \<or> c = 0x09 \<or> c = 0x0A \<or> c = 0x0C \<or> c = 0x0D then 2
      else if c \<le> 0x1F then 6
      else if high_surrogate c \<or> low_surrogate c then 6
      else if c \<le> 0x7F then 1
      else if c \<le> 0x7FF then 2
      else 3)"

fun count_units :: "jstring \<Rightarrow> int \<Rightarrow> int \<Rightarrow> int option" where
  "count_units [] bytes maximum = Some bytes"
| "count_units [c] bytes maximum =
     (if bytes + unit_bytes c > maximum then None else Some (bytes + unit_bytes c))"
| "count_units (c # d # cs) bytes maximum =
     (if high_surrogate c \<and> low_surrogate d
      then (if bytes + 4 > maximum then None else count_units cs (bytes + 4) maximum)
      else if bytes + unit_bytes c > maximum then None
      else count_units (d # cs) (bytes + unit_bytes c) maximum)"

definition json_string_byte_length :: "jstring \<Rightarrow> int \<Rightarrow> int option" where
  "json_string_byte_length s maximum = (if 2 > maximum then None else count_units s 2 maximum)"

text \<open>The reference: the number of bytes of the text, when it is within the maximum.\<close>

definition within :: "int \<Rightarrow> int \<Rightarrow> int option" where
  "within n maximum = (if n \<le> maximum then Some n else None)"

lemma hex_digit_ascii: "n \<le> 15 \<Longrightarrow> hex_digit n \<le> 0x7F"
  by (simp add: hex_digit_def word_le_nat_alt word_less_nat_alt unat_word_ariths)

lemma utf8_unit_ascii [simp]: "c \<le> 0x7F \<Longrightarrow> utf8_unit c = [ucast c]"
  by (simp add: utf8_unit_def)

lemma length_utf8_ascii: "\<forall>c\<in>set s. c \<le> 0x7F \<Longrightarrow> length (utf8 s) = length s"
  by (induction s) (auto simp: utf8_Cons)

lemma not_starts_low_ascii: "\<forall>c\<in>set s. c \<le> 0x7F \<Longrightarrow> \<not> starts_low s"
  by (cases s) (auto simp: starts_low_def)

lemma hex4_ascii: "c \<in> set (hex4 d) \<Longrightarrow> c \<le> 0x7F"
proof -
  have m: "x AND 15 \<le> 15" for x :: "16 word"
    by (rule word_and_le1)
  have "unat d div 4096 \<le> 15" using unsigned_less [of d, where ?'a = nat] by simp
  then have "drop_bit 12 d \<le> 15"
    by (simp add: word_le_nat_alt drop_bit_eq_div unat_div_distrib)
  with m show "c \<in> set (hex4 d) \<Longrightarrow> c \<le> 0x7F"
    by (auto simp: hex4_def intro!: hex_digit_ascii)
qed

lemma utf8_hex4: "length (utf8 (hex4 c)) = 6"
  by (subst length_utf8_ascii) (auto dest: hex4_ascii, simp add: hex4_def)

lemma json_unit_bytes: "int (length (utf8 (json_unit c))) = unit_bytes c"
  by (auto simp: json_unit_def unit_bytes_def utf8_hex4 utf8_unit_def utf8_Cons_lone starts_low_def)

lemma json_unit_head: "\<not> starts_low (json_unit c @ cs)"
  by (auto simp: json_unit_def starts_low_def hex4_def low_surrogate_def)

lemma json_chars_head: "\<not> starts_low (json_chars s)"
proof (cases s rule: json_chars.cases)
  case (2 c)
  then show ?thesis using json_unit_head [of c "[]"] by simp
next
  case (3 c d cs)
  then show ?thesis using json_unit_head [of c "json_chars (d # cs)"] low_not_high [of c]
    by (auto simp: starts_low_def)
qed (simp add: starts_low_def)

lemma utf8_pair_length: "length (utf8_pair c d) = 4"
  by (simp add: utf8_pair_def Let_def)

definition json_bytes :: "jstring \<Rightarrow> int" where
  "json_bytes s = int (length (utf8 (json_chars s)))"

lemma json_bytes_simps [simp]:
  "json_bytes [] = 0"
  "json_bytes [c] = unit_bytes c"
  "json_bytes (c # d # cs) =
     (if high_surrogate c \<and> low_surrogate d then 4 + json_bytes cs
      else unit_bytes c + json_bytes (d # cs))"
  by (simp_all add: json_bytes_def json_unit_bytes utf8_pair_length utf8_append json_chars_head
        del: json_chars.simps(3) add: json_chars.simps(3))

lemma json_bytes_nonneg: "0 \<le> json_bytes s"
  by (simp add: json_bytes_def)

lemma count_units_exact:
  assumes "bytes \<le> maximum"
  shows "count_units s bytes maximum = within (bytes + json_bytes s) maximum"
  using assms
proof (induction s bytes maximum rule: count_units.induct)
  case (2 c bytes maximum)
  then show ?case by (simp add: within_def)
next
  case (3 c d cs bytes maximum)
  show ?case
  proof (cases "high_surrogate c \<and> low_surrogate d")
    case True
    with 3 show ?thesis using json_bytes_nonneg [of cs] by (auto simp: within_def)
  next
    case False
    with 3 show ?thesis using json_bytes_nonneg [of "d # cs"] by (auto simp: within_def)
  qed
qed (simp add: within_def)

lemma utf8_json_string: "int (byte_length (json_string s)) = 2 + json_bytes s"
proof -
  have "utf8 (json_string s) = 0x22 # utf8 (json_chars s) @ [0x22]"
    by (simp add: json_string_def utf8_Cons utf8_append starts_low_def)
  then show ?thesis by (simp add: byte_length_def json_bytes_def)
qed

text \<open>
  The estimate of a string without building its JSON text is exact: it answers the number of
  UTF-8 bytes of \<open>JSON.stringify(value)\<close> whenever that is within the maximum, and null otherwise,
  surrogate pairs, lone surrogates and control characters included.
\<close>

lemma json_string_byte_length_exact:
  "json_string_byte_length value maximum = within (int (byte_length (json_string value))) maximum"
  by (simp add: json_string_byte_length_def utf8_json_string count_units_exact)
     (use json_bytes_nonneg [of "value"] in \<open>simp add: within_def\<close>)

section \<open>Bytes of composed texts\<close>

named_theorems byte_length_simps

lemma byte_length_Nil [byte_length_simps]: "byte_length [] = 0"
  by (simp add: byte_length_def)

lemma byte_length_Cons [byte_length_simps]: "c \<le> 0x7F \<Longrightarrow> byte_length (c # cs) = Suc (byte_length cs)"
  by (simp add: byte_length_def utf8_Cons)

lemma byte_length_append: "\<not> starts_low ys \<Longrightarrow> byte_length (xs @ ys) = byte_length xs + byte_length ys"
  by (simp add: byte_length_def utf8_append)

lemma starts_low_simps [simp]:
  "\<not> starts_low []" "starts_low (c # cs) = low_surrogate c"
  by (simp_all add: starts_low_def)

lemma latin_not_surrogate: "\<not> low_surrogate (of_nat (of_char c))" "\<not> high_surrogate (of_nat (of_char c))"
proof -
  have "unat (of_nat (of_char c) :: 16 word) < 256"
    unfolding unat_of_nat by (rule le_less_trans [OF mod_less_eq_dividend]) simp
  then show "\<not> low_surrogate (of_nat (of_char c))" "\<not> high_surrogate (of_nat (of_char c))"
    by (simp_all add: low_surrogate_def high_surrogate_def word_le_nat_alt)
qed

lemma starts_low_u [simp]: "\<not> starts_low (u s)"
  by (cases s) (simp_all add: latin_not_surrogate)

lemma starts_low_json_string [simp]: "\<not> starts_low (json_string s)"
  by (simp add: json_string_def)

lemma starts_low_json_text [simp]: "\<not> starts_low (json_text v)"
  by (cases v) simp_all

lemma starts_low_append [simp]: "starts_low (xs @ ys) = (if xs = [] then starts_low ys else starts_low xs)"
  by (cases xs) simp_all

lemma json_string_nonempty [simp]: "json_string s \<noteq> []"
  by (simp add: json_string_def)

end
