(* ===== verification/Base64.thy ===== *)
theory Base64
  imports JsonText
begin

text \<open>
  The two base64 encodings that cursorCodec.ts uses of Node's \<open>Buffer\<close>: \<open>base64\<close> (padded, with + and
  /) and \<open>base64url\<close> (not padded, with - and _). The decoder of Node is lenient: it accepts both
  alphabets, skips every other character and stops at the padding.
\<close>

fun sextets :: "bytes \<Rightarrow> nat list" where
  "sextets [] = []"
| "sextets [a] = [unat a div 4, unat a mod 4 * 16]"
| "sextets [a, b] = [unat a div 4, unat a mod 4 * 16 + unat b div 16, unat b mod 16 * 4]"
| "sextets (a # b # c # bs) =
     [unat a div 4, unat a mod 4 * 16 + unat b div 16, unat b mod 16 * 4 + unat c div 64,
      unat c mod 64] @ sextets bs"

fun unsextets :: "nat list \<Rightarrow> bytes" where
  "unsextets (p # q # r # s # ns) =
     [of_nat (p * 4 + q div 16), of_nat (q mod 16 * 16 + r div 4), of_nat (r mod 4 * 64 + s)]
     @ unsextets ns"
| "unsextets [p, q, r] = [of_nat (p * 4 + q div 16), of_nat (q mod 16 * 16 + r div 4)]"
| "unsextets [p, q] = [of_nat (p * 4 + q div 16)]"
| "unsextets _ = []"

definition code64 :: "bool \<Rightarrow> nat \<Rightarrow> nat" where
  "code64 url n =
     (if n < 26 then 0x41 + n
      else if n < 52 then 0x61 + (n - 26)
      else if n < 62 then 0x30 + (n - 52)
      else if n = 62 then (if url then 0x2D else 0x2B)
      else (if url then 0x5F else 0x2F))"

definition digit64 :: "bool \<Rightarrow> nat \<Rightarrow> 16 word" where
  "digit64 url n = of_nat (code64 url n)"

definition value64 :: "16 word \<Rightarrow> nat option" where
  "value64 c =
     (let n = unat c in
      if 0x41 \<le> n \<and> n \<le> 0x5A then Some (n - 0x41)
      else if 0x61 \<le> n \<and> n \<le> 0x7A then Some (n - 0x61 + 26)
      else if 0x30 \<le> n \<and> n \<le> 0x39 then Some (n - 0x30 + 52)
      else if n = 0x2D \<or> n = 0x2B then Some 62
      else if n = 0x5F \<or> n = 0x2F then Some 63
      else None)"

definition base64url :: "bytes \<Rightarrow> jstring" where
  "base64url b = map (digit64 True) (sextets b)"

definition base64 :: "bytes \<Rightarrow> jstring" where
  "base64 b = map (digit64 False) (sextets b) @ replicate ((3 - length b mod 3) mod 3) 0x3D"

definition unbase64 :: "jstring \<Rightarrow> bytes" where
  "unbase64 s = unsextets (List.map_filter value64 (takeWhile (\<lambda>c. c \<noteq> 0x3D) s))"

lemma sextet_bounds: "n \<in> set (sextets b) \<Longrightarrow> n < 64"
proof (induction b rule: sextets.induct)
  case (2 a) then show ?case using unsigned_less [of a, where ?'a = nat] by auto
next
  case (3 a b)
  then show ?case using unsigned_less [of a, where ?'a = nat] unsigned_less [of b, where ?'a = nat] by auto
next
  case (4 a b c bs)
  then show ?case
    using unsigned_less [of a, where ?'a = nat] unsigned_less [of b, where ?'a = nat]
      unsigned_less [of c, where ?'a = nat] by auto
qed simp

lemma byte_eqI: "n = unat (a :: byte) \<Longrightarrow> of_nat n = a"
  by simp

lemma unsextets_sextets [simp]: "unsextets (sextets b) = b"
proof (induction b rule: sextets.induct)
  case (2 a) then show ?case by (auto intro!: byte_eqI)
next
  case (3 a b)
  then show ?case using unsigned_less [of b, where ?'a = nat] by (auto intro!: byte_eqI)
next
  case (4 a b c bs)
  then show ?case
    using unsigned_less [of b, where ?'a = nat] unsigned_less [of c, where ?'a = nat]
    by (auto intro!: byte_eqI)
qed simp

lemma unat_digit64 [simp]: "n < 64 \<Longrightarrow> unat (digit64 url n) = code64 url n"
  by (simp add: digit64_def unat_of_nat code64_def)

lemma value64_digit64: "n < 64 \<Longrightarrow> value64 (digit64 url n) = Some n"
  by (simp add: value64_def Let_def) (auto simp: code64_def)

lemma code64_range:
  "code64 url n \<in> {0x2B, 0x2D, 0x2F, 0x5F} \<union> {0x30..0x39} \<union> {0x41..0x5A} \<union> {0x61..0x7A}"
  by (auto simp: code64_def)

lemma digit64_safe:
  assumes "n < 64"
  shows "digit64 url n \<noteq> 0x3D" "digit64 url n \<noteq> 0x2E" "digit64 url n \<le> 0x7F" "digit64 url n \<noteq> 0x22"
    "digit64 url n \<noteq> 0x5C" "0x1F < digit64 url n"
  using code64_range [of url n] assms
  by (simp_all add: word_le_nat_alt word_less_nat_alt word_unat_eq_iff) auto

lemma map_filter_digits:
  "(\<And>n. n \<in> set ns \<Longrightarrow> n < 64) \<Longrightarrow> List.map_filter value64 (map (digit64 url) ns) = ns"
  by (induction ns) (auto simp: List.map_filter_def value64_digit64)

lemma takeWhile_digits:
  "(\<And>n. n \<in> set ns \<Longrightarrow> n < 64) \<Longrightarrow>
     takeWhile (\<lambda>c. c \<noteq> 0x3D) (map (digit64 url) ns @ replicate k 0x3D) = map (digit64 url) ns"
  by (induction ns) (auto simp: digit64_safe takeWhile_replicate)

lemma unbase64_base64url [simp]: "unbase64 (base64url b) = b"
  using takeWhile_digits [where ns = "sextets b" and url = True and k = 0]
  by (simp add: unbase64_def base64url_def map_filter_digits sextet_bounds del: takeWhile_eq_all_conv)

lemma unbase64_base64 [simp]: "unbase64 (base64 b) = b"
  by (simp add: unbase64_def base64_def takeWhile_digits map_filter_digits sextet_bounds)

lemma length_sextets: "length (sextets b) = length b div 3 * 4 + (if length b mod 3 = 0 then 0 else length b mod 3 + 1)"
  by (induction b rule: sextets.induct) (auto simp: mod_Suc div_add_self1 numeral_3_eq_3 [symmetric] div_Suc)

lemma length_base64url: "length (base64url b) = length b div 3 * 4 + (if length b mod 3 = 0 then 0 else length b mod 3 + 1)"
  by (simp add: base64url_def length_sextets)

lemma length_base64: "length (base64 b) = (length b + 2) div 3 * 4"
proof -
  obtain q r where "length b = 3 * q + r" "r < 3"
    by (metis div_mult_mod_eq mult.commute mod_less_divisor zero_less_numeral)
  moreover from this(2) have "r = 0 \<or> r = 1 \<or> r = 2" by arith
  ultimately show ?thesis by (auto simp: base64_def length_sextets)
qed

lemma base64url_eq_Nil [simp]: "base64url b = [] \<longleftrightarrow> b = []"
  by (cases b rule: sextets.cases) (auto simp: base64url_def)

lemma base64url_chars: "c \<in> set (base64url b) \<Longrightarrow> c \<noteq> 0x2E \<and> c \<le> 0x7F"
  by (auto simp: base64url_def digit64_safe dest: sextet_bounds)

lemma base64_chars: "c \<in> set (base64 b) \<Longrightarrow> c \<le> 0x7F \<and> c \<noteq> 0x22 \<and> c \<noteq> 0x5C \<and> 0x1F < c"
  by (auto simp: base64_def digit64_safe dest: sextet_bounds)

section \<open>Hexadecimal\<close>

definition hex_value :: "16 word \<Rightarrow> nat option" where
  "hex_value c =
     (if 0x30 \<le> c \<and> c \<le> 0x39 then Some (unat c - 0x30)
      else if 0x61 \<le> c \<and> c \<le> 0x66 then Some (unat c - 0x57)
      else if 0x41 \<le> c \<and> c \<le> 0x46 then Some (unat c - 0x37) else None)"

text \<open>\<open>Buffer.from(s, 'hex')\<close> stops at the first pair that is not two hexadecimal digits.\<close>

fun unhex :: "jstring \<Rightarrow> bytes" where
  "unhex (a # b # s) =
     (case (hex_value a, hex_value b) of (Some x, Some y) \<Rightarrow> of_nat (16 * x + y) # unhex s | _ \<Rightarrow> [])"
| "unhex _ = []"

definition to_hex :: "bytes \<Rightarrow> jstring" where
  "to_hex b = concat (map (\<lambda>x. [hex_digit (ucast (drop_bit 4 x)), hex_digit (ucast (x AND 15))]) b)"

lemma hex_value_digit: "n < 16 \<Longrightarrow> hex_value (hex_digit n) = Some (unat n)"
  by (simp add: hex_value_def hex_digit_def word_le_nat_alt word_less_nat_alt unat_word_ariths) 

lemma nibbles:
  "hex_value (hex_digit (ucast (drop_bit 4 x))) = Some (unat (x :: byte) div 16)"
  "hex_value (hex_digit (ucast (x AND 15))) = Some (unat (x :: byte) mod 16)"
proof -
  have bound: "unat x < 256" using unsigned_less [of x] by simp
  have high: "unat (ucast (drop_bit 4 x) :: 16 word) = unat x div 16"
    using bound by (simp add: unsigned_ucast_eq unsigned_drop_bit_eq drop_bit_eq_div take_bit_eq_mod unat_div)
  have "x AND 15 = take_bit 4 x" by (simp add: take_bit_eq_mask mask_eq_exp_minus_1)
  then have low: "unat (ucast (x AND 15) :: 16 word) = unat x mod 16"
    by (simp add: unsigned_ucast_eq unsigned_take_bit_eq) (simp add: take_bit_eq_mod)
  show "hex_value (hex_digit (ucast (drop_bit 4 x))) = Some (unat x div 16)"
    "hex_value (hex_digit (ucast (x AND 15))) = Some (unat x mod 16)"
    using bound high low by (simp_all add: hex_value_digit word_less_nat_alt)
qed

lemma unhex_to_hex [simp]: "unhex (to_hex b) = b"
proof (induction b)
  case (Cons x b)
  have "word_of_nat (16 * (unat x div 16) + unat x mod 16) = x" by (simp add: mult_div_mod_eq)
  then show ?case using Cons by (simp add: to_hex_def nibbles)
qed (simp add: to_hex_def)

lemma to_hex_length [simp]: "length (to_hex b) = 2 * length b"
  by (induction b) (simp_all add: to_hex_def)

end
