(* ===== verification/CursorCodec.thy ===== *)
theory CursorCodec
  imports Base64
begin

text \<open>
  The opaque tokens of the database explorer: apps/sql-worker/src/explorer/cursorCodec.ts. A cursor
  or a row reference is validated, printed as JSON, encrypted with AES-256-GCM under a key derived
  for its kind, with its context as associated data, and printed as five parts separated by dots.
  HKDF, AES-GCM, \<open>JSON.parse\<close> and the two conversions of \<open>Date\<close> are the fields of \<open>codec_env\<close>.
  A JSON value that the code receives as \<open>unknown\<close> is a \<open>js\<close>; its validation is a function from \<open>js\<close>
  to the validated record, so that the same function judges a cursor before it is sealed and after
  it was opened.
\<close>

section \<open>Errors of the explorer\<close>

datatype explorer_error =
    DATABASE_PAGE_TOO_LARGE | DATABASE_TARGET_INVALID | DATABASE_RELATION_INVALID
  | DATABASE_DATA_PERMISSION_DENIED | DATABASE_CURSOR_INVALID | DATABASE_COLUMN_INVALID
  | DATABASE_FILTER_INVALID | DATABASE_TARGET_UNAVAILABLE | DATABASE_SCHEMA_STALE
  | DATABASE_SCHEMA_CHECK_FAILED | DATABASE_QUERY_TIMEOUT | DATABASE_QUERY_FAILED
  | DATABASE_RESULT_TOO_LARGE | RANGE_ERROR

section \<open>Contexts, cursors and row references\<close>

record codec_env =
  derive :: "bytes \<Rightarrow> jstring \<Rightarrow> bytes"
  gcm_seal :: "bytes \<Rightarrow> bytes \<Rightarrow> bytes \<Rightarrow> bytes \<Rightarrow> bytes \<times> bytes"
  gcm_open :: "bytes \<Rightarrow> bytes \<Rightarrow> bytes \<Rightarrow> bytes \<Rightarrow> bytes \<Rightarrow> bytes option"
  parse_json :: "bytes \<Rightarrow> js option"
  iso_string :: "int \<Rightarrow> jstring"
  parse_iso :: "jstring \<Rightarrow> int option"

record token_context =
  tc_target :: jstring
  tc_schema :: jstring
  tc_relation :: jstring
  tc_checksum :: jstring

datatype cursor_position = Keyset "(jstring \<times> js) list" | Offset int

text \<open>A sort is a column and whether it is descending.\<close>

record cursor =
  cur_context :: token_context
  cur_issued :: int
  cur_expires :: int
  cur_sort :: "(jstring \<times> bool) option"
  cur_position :: cursor_position

record row_ref =
  ref_context :: token_context
  ref_issued :: int
  ref_expires :: int
  ref_keys :: "(jstring \<times> js) list"

datatype token_kind = Cursor_token | Row_ref_token

definition max_cursor_bytes :: nat where "max_cursor_bytes = 4096"
definition cursor_expiry_ms :: int where "cursor_expiry_ms = 5 * 60 * 1000"
definition envelope_version :: jstring where "envelope_version = u ''v2''"
definition binary_tag :: jstring where "binary_tag = u ''$databaseExplorerBinaryV1''"
definition date_tag :: jstring where "date_tag = u ''$databaseExplorerDateV1''"

definition kind_name :: "token_kind \<Rightarrow> jstring" where
  "kind_name k = (case k of Cursor_token \<Rightarrow> u ''cursor'' | Row_ref_token \<Rightarrow> u ''row-ref'')"

section \<open>Validation of unknown values\<close>

definition field :: "(jstring \<times> js) list \<Rightarrow> string \<Rightarrow> js option" where
  "field m k = map_of m (u k)"

definition nonempty_string :: "js option \<Rightarrow> jstring option" where
  "nonempty_string v = (case v of Some (Str (c # s)) \<Rightarrow> Some (c # s) | _ \<Rightarrow> None)"

definition safe_integer :: "js option \<Rightarrow> int option" where
  "safe_integer v = (case v of Some (Num n) \<Rightarrow> if is_safe_integer n then Some n else None | _ \<Rightarrow> None)"

definition database_target_ids :: "jstring list" where
  "database_target_ids = [u ''edutrack_production'', u ''ops'']"

definition read_context :: "(jstring \<times> js) list \<Rightarrow> token_context option" where
  "read_context m =
     (case (nonempty_string (field m ''targetId''), nonempty_string (field m ''schema''),
            nonempty_string (field m ''relation''), nonempty_string (field m ''checksum'')) of
        (Some t, Some s, Some r, Some c) \<Rightarrow>
          if t \<in> set database_target_ids
          then Some \<lparr> tc_target = t, tc_schema = s, tc_relation = r, tc_checksum = c \<rparr> else None
      | _ \<Rightarrow> None)"

definition read_times :: "(jstring \<times> js) list \<Rightarrow> (int \<times> int) option" where
  "read_times m =
     (case (safe_integer (field m ''issuedAt''), safe_integer (field m ''expiresAt'')) of
        (Some i, Some e) \<Rightarrow> if i < e \<and> e - i \<le> cursor_expiry_ms then Some (i, e) else None
      | _ \<Rightarrow> None)"

definition read_sort :: "js option \<Rightarrow> (jstring \<times> bool) option option" where
  "read_sort v =
     (case v of
        Some Null \<Rightarrow> Some None
      | Some (Obj m) \<Rightarrow>
          (case (nonempty_string (field m ''column''), field m ''direction'') of
             (Some c, Some (Str d)) \<Rightarrow>
               if d = u ''asc'' then Some (Some (c, False))
               else if d = u ''desc'' then Some (Some (c, True)) else None
           | _ \<Rightarrow> None)
      | _ \<Rightarrow> None)"

text \<open>The loop over the keys with its set of columns seen.\<close>

fun read_keys :: "jstring list \<Rightarrow> js list \<Rightarrow> (jstring \<times> js) list option" where
  "read_keys seen [] = Some []"
| "read_keys seen (Obj m # es) =
     (case (nonempty_string (field m ''column''), field m ''value'') of
        (Some c, Some v) \<Rightarrow>
          if c \<in> set seen then None else map_option (Cons (c, v)) (read_keys (c # seen) es)
      | _ \<Rightarrow> None)"
| "read_keys seen (_ # es) = None"

definition read_position :: "(jstring \<times> js) list \<Rightarrow> cursor_position option" where
  "read_position m =
     (if field m ''kind'' = Some (Str (u ''offset''))
      then (case safe_integer (field m ''offset'') of
              Some n \<Rightarrow> if 0 \<le> n then Some (Offset n) else None | None \<Rightarrow> None)
      else if field m ''kind'' = Some (Str (u ''keyset''))
      then (case field m ''keys'' of
              Some (Arr (e # es)) \<Rightarrow> map_option Keyset (read_keys [] (e # es)) | _ \<Rightarrow> None)
      else None)"

definition read_cursor :: "js \<Rightarrow> cursor option" where
  "read_cursor v =
     (case v of
        Obj m \<Rightarrow>
          (case (read_context m, read_times m, read_sort (field m ''sort''), read_position m) of
             (Some c, Some (i, e), Some s, Some p) \<Rightarrow>
               if field m ''version'' = Some (Num 1) \<and> field m ''nullOrder'' = Some (Str (u ''last''))
               then Some \<lparr> cur_context = c, cur_issued = i, cur_expires = e, cur_sort = s,
                          cur_position = p \<rparr>
               else None
           | _ \<Rightarrow> None)
      | _ \<Rightarrow> None)"

text \<open>\<open>validateRowRefShape\<close>: the keys are a non-empty object without an empty column.\<close>

definition read_row_ref_shape :: "js \<Rightarrow> row_ref option" where
  "read_row_ref_shape v =
     (case v of
        Obj m \<Rightarrow>
          (case (read_context m, read_times m, field m ''keys'') of
             (Some c, Some (i, e), Some (Obj ks)) \<Rightarrow>
               if field m ''version'' = Some (Num 1) \<and> ks \<noteq> [] \<and> [] \<notin> set (map fst ks)
               then Some \<lparr> ref_context = c, ref_issued = i, ref_expires = e, ref_keys = ks \<rparr>
               else None
           | _ \<Rightarrow> None)
      | _ \<Rightarrow> None)"

definition row_ref_scalar :: "js \<Rightarrow> bool" where
  "row_ref_scalar v =
     (case v of Null \<Rightarrow> True | Str _ \<Rightarrow> True | Bool _ \<Rightarrow> True | Num _ \<Rightarrow> True | Real _ \<Rightarrow> True
      | _ \<Rightarrow> False)"

definition row_ref_claim :: "js \<Rightarrow> bool" where
  "row_ref_claim v \<longleftrightarrow>
     row_ref_scalar v \<or> (case v of Buffer _ \<Rightarrow> True | Date _ \<Rightarrow> True | _ \<Rightarrow> False)"

section \<open>The objects that are sealed\<close>

definition context_fields :: "token_context \<Rightarrow> (jstring \<times> js) list" where
  "context_fields c =
     [(u ''targetId'', Str (tc_target c)), (u ''schema'', Str (tc_schema c)),
      (u ''relation'', Str (tc_relation c)), (u ''checksum'', Str (tc_checksum c))]"

definition sort_js :: "(jstring \<times> bool) option \<Rightarrow> js" where
  "sort_js s =
     (case s of None \<Rightarrow> Null
      | Some (c, desc) \<Rightarrow> Obj [(u ''column'', Str c),
                              (u ''direction'', Str (if desc then u ''desc'' else u ''asc''))])"

definition key_js :: "jstring \<times> js \<Rightarrow> js" where
  "key_js k = Obj [(u ''column'', Str (fst k)), (u ''value'', snd k)]"

definition cursor_js :: "cursor \<Rightarrow> js" where
  "cursor_js c =
     Obj ([(u ''version'', Num 1),
           (u ''kind'', Str (case cur_position c of Keyset _ \<Rightarrow> u ''keyset'' | Offset _ \<Rightarrow> u ''offset''))]
          @ context_fields (cur_context c)
          @ [(u ''issuedAt'', Num (cur_issued c)), (u ''expiresAt'', Num (cur_expires c))]
          @ (case cur_position c of
               Keyset ks \<Rightarrow> [(u ''sort'', sort_js (cur_sort c)), (u ''nullOrder'', Str (u ''last'')),
                             (u ''keys'', Arr (map key_js ks))]
             | Offset n \<Rightarrow> [(u ''offset'', Num n), (u ''sort'', sort_js (cur_sort c)),
                            (u ''nullOrder'', Str (u ''last''))]))"

definition row_ref_js :: "row_ref \<Rightarrow> js" where
  "row_ref_js r =
     Obj ([(u ''version'', Num 1)] @ context_fields (ref_context r)
          @ [(u ''issuedAt'', Num (ref_issued r)), (u ''expiresAt'', Num (ref_expires r)),
             (u ''keys'', Obj (ref_keys r))])"

text \<open>\<open>rowRefPayloadForEncryption\<close> throws for an invalid date, and \<open>reviveRowRefPayload\<close> undoes it.\<close>

definition seal_claim :: "codec_env \<Rightarrow> js \<Rightarrow> js option" where
  "seal_claim env v =
     (case v of
        Buffer b \<Rightarrow> Some (Obj [(binary_tag, Str (base64 b))])
      | Date t \<Rightarrow> Some (Obj [(date_tag, Str (iso_string env t))])
      | Invalid_date \<Rightarrow> None
      | _ \<Rightarrow> Some v)"

fun map_claims :: "(js \<Rightarrow> js option) \<Rightarrow> (jstring \<times> js) list \<Rightarrow> (jstring \<times> js) list option" where
  "map_claims f [] = Some []"
| "map_claims f ((k, v) # m) =
     (case f v of None \<Rightarrow> None | Some w \<Rightarrow> map_option (Cons (k, w)) (map_claims f m))"

definition row_ref_payload :: "codec_env \<Rightarrow> row_ref \<Rightarrow> js option" where
  "row_ref_payload env r =
     map_option (\<lambda>ks. row_ref_js (r\<lparr>ref_keys := ks\<rparr>)) (map_claims (seal_claim env) (ref_keys r))"

definition revive_claim :: "codec_env \<Rightarrow> js \<Rightarrow> js option" where
  "revive_claim env v =
     (if row_ref_scalar v then Some v
      else (case v of
          Obj [(tag, Str s)] \<Rightarrow>
            if tag = binary_tag then (if base64 (unbase64 s) = s then Some (Buffer (unbase64 s)) else None)
            else if tag = date_tag then
              (case parse_iso env s of
                 Some t \<Rightarrow> if iso_string env t = s then Some (Date t) else None
               | None \<Rightarrow> None)
            else None
        | _ \<Rightarrow> None))"

text \<open>
  The assignment of a member \<open>__proto__\<close> sets the prototype of the object instead: no such key comes back.
\<close>

definition kept_keys :: "(jstring \<times> js) list \<Rightarrow> (jstring \<times> js) list" where
  "kept_keys ks = filter (\<lambda>(k, _). k \<noteq> u ''__proto__'') ks"

definition revive_row_ref :: "codec_env \<Rightarrow> js \<Rightarrow> row_ref option" where
  "revive_row_ref env v =
     (case read_row_ref_shape v of
        None \<Rightarrow> None
      | Some r \<Rightarrow> map_option (\<lambda>ks. r\<lparr>ref_keys := kept_keys ks\<rparr>) (map_claims (revive_claim env) (ref_keys r)))"

section \<open>The size of a row reference, before it is built\<close>

definition token_overhead :: "token_kind \<Rightarrow> nat" where
  "token_overhead k =
     byte_length (envelope_version @ 0x2E # kind_name k @ 0x2E # replicate 16 0x30 @ 0x2E # [] @ 0x2E
                  # replicate 22 0x30)"

definition row_ref_budget :: int where
  "row_ref_budget = (int max_cursor_bytes - int (token_overhead Row_ref_token)) * 3 div 4 - 16"

definition json_value_byte_length :: "codec_env \<Rightarrow> js \<Rightarrow> int \<Rightarrow> int option" where
  "json_value_byte_length env v maximum =
     (case v of
        Null \<Rightarrow> within 4 maximum
      | Bool b \<Rightarrow> within (if b then 4 else 5) maximum
      | Num n \<Rightarrow> within (int (byte_length (json_text (Num n)))) maximum
      | Real t \<Rightarrow> within (int (byte_length (json_text (Real t)))) maximum
      | Str s \<Rightarrow> json_string_byte_length s maximum
      | Date t \<Rightarrow>
          (let tag = int (byte_length (json_string date_tag)) in
           map_option (\<lambda>n. 2 + tag + 1 + n)
             (json_string_byte_length (iso_string env t) (maximum - tag - 3)))
      | Buffer b \<Rightarrow>
          within (2 + int (byte_length (json_string binary_tag)) + 1 + 2 + int ((length b + 2) div 3 * 4))
            maximum
      | _ \<Rightarrow> None)"

fun json_object_loop :: "bool \<Rightarrow> (jstring \<times> int) list \<Rightarrow> int \<Rightarrow> int \<Rightarrow> int option" where
  "json_object_loop first [] bytes maximum = Some bytes"
| "json_object_loop first ((k, n) # ps) bytes maximum =
     (let separator = (if first then 0 else 1) in
      if bytes + separator > maximum then None
      else (case json_string_byte_length k (maximum - bytes - separator - 1) of
          None \<Rightarrow> None
        | Some key \<Rightarrow>
            if bytes + separator + key + 1 + n > maximum then None
            else json_object_loop False ps (bytes + separator + key + 1 + n) maximum))"

definition json_object_byte_length :: "(jstring \<times> int) list \<Rightarrow> int \<Rightarrow> int option" where
  "json_object_byte_length ps maximum = json_object_loop True ps 2 maximum"

fun row_ref_keys_loop :: "codec_env \<Rightarrow> bool \<Rightarrow> (jstring \<times> js) list \<Rightarrow> int \<Rightarrow> int option" where
  "row_ref_keys_loop env first [] bytes = Some bytes"
| "row_ref_keys_loop env first ((k, v) # ks) bytes =
     (let separator = (if first then 0 else 1) in
      case json_string_byte_length k (row_ref_budget - bytes - separator - 2) of
        None \<Rightarrow> None
      | Some column \<Rightarrow>
          (case json_value_byte_length env v (row_ref_budget - bytes - separator - column - 2) of
             None \<Rightarrow> None
           | Some claim \<Rightarrow>
               if bytes + (separator + column + 1 + claim) > row_ref_budget then None
               else row_ref_keys_loop env False ks (bytes + (separator + column + 1 + claim))))"

definition or_oversize :: "int option \<Rightarrow> int" where
  "or_oversize n = (case n of Some k \<Rightarrow> k | None \<Rightarrow> row_ref_budget + 1)"

definition estimate_row_ref :: "codec_env \<Rightarrow> row_ref \<Rightarrow> int option" where
  "estimate_row_ref env r =
     (case row_ref_keys_loop env True (ref_keys r) 2 of
        None \<Rightarrow> None
      | Some keys \<Rightarrow>
          (let budget = row_ref_budget; string_size = (\<lambda>s. or_oversize (json_string_byte_length s budget));
               number_size = (\<lambda>n. or_oversize (json_value_byte_length env (Num n) budget));
               c = ref_context r in
           json_object_byte_length
             [(u ''version'', 1), (u ''targetId'', string_size (tc_target c)),
              (u ''schema'', string_size (tc_schema c)), (u ''relation'', string_size (tc_relation c)),
              (u ''checksum'', string_size (tc_checksum c)), (u ''issuedAt'', number_size (ref_issued r)),
              (u ''expiresAt'', number_size (ref_expires r)), (u ''keys'', keys)] budget))"

section \<open>Sealing and opening\<close>

definition std_base64_char :: "16 word \<Rightarrow> bool" where
  "std_base64_char c \<longleftrightarrow> value64 c \<noteq> None \<and> c \<noteq> 0x2D \<and> c \<noteq> 0x5F"

definition valid_cursor_key :: "jstring \<Rightarrow> bool" where
  "valid_cursor_key v \<longleftrightarrow>
     length v = 44 \<and> list_all std_base64_char (take 43 v) \<and> drop 43 v = [0x3D] \<and>
     length (unbase64 v) = 32 \<and> base64 (unbase64 v) = v"

definition encryption_key :: "codec_env \<Rightarrow> jstring \<Rightarrow> token_kind \<Rightarrow> bytes option" where
  "encryption_key env key kind =
     (if valid_cursor_key key
      then Some (derive env (unbase64 key)
                   (case kind of Cursor_token \<Rightarrow> u ''cursor/v2'' | Row_ref_token \<Rightarrow> u ''row-ref/v2''))
      else None)"

definition context_aad :: "token_kind \<Rightarrow> token_context \<Rightarrow> bytes" where
  "context_aad kind c =
     utf8 (json_text (Arr [Str envelope_version, Str (kind_name kind), Str (tc_target c),
                           Str (tc_schema c), Str (tc_relation c), Str (tc_checksum c)]))"

definition valid_context :: "token_context \<Rightarrow> bool" where
  "valid_context c \<longleftrightarrow> read_context (context_fields c) \<noteq> None"

definition base64_text_bytes :: "nat \<Rightarrow> nat" where
  "base64_text_bytes n = n div 3 * 4 + (if n mod 3 = 0 then 0 else n mod 3 + 1)"

definition token_of :: "token_kind \<Rightarrow> bytes \<Rightarrow> bytes \<Rightarrow> bytes \<Rightarrow> jstring" where
  "token_of kind nonce ciphertext tag =
     envelope_version @ 0x2E # kind_name kind @ 0x2E # base64url nonce @ 0x2E # base64url ciphertext
     @ 0x2E # base64url tag"

text \<open>
  \<open>seal\<close>, from the payload of \<open>JSON.stringify\<close> (None when that throws). The nonce is the one
  that \<open>randomBytes\<close> returns; \<open>Inr None\<close> is the null of an oversized token.
\<close>

definition seal ::
  "codec_env \<Rightarrow> token_kind \<Rightarrow> token_context \<Rightarrow> js option \<Rightarrow> jstring \<Rightarrow> bytes \<Rightarrow> bool
     \<Rightarrow> explorer_error + jstring option" where
  "seal env kind context payload key nonce null_on_oversize =
     (if \<not> valid_context context then Inl DATABASE_CURSOR_INVALID
      else (case payload of
          None \<Rightarrow> Inl DATABASE_CURSOR_INVALID
        | Some v \<Rightarrow>
            (let plaintext = utf8 (json_text (plain (iso_string env) v));
                 oversize = (if null_on_oversize then Inr None else Inl DATABASE_CURSOR_INVALID) in
             if token_overhead kind + base64_text_bytes (length plaintext) > max_cursor_bytes then oversize
             else (case encryption_key env key kind of
                 None \<Rightarrow> Inl DATABASE_CURSOR_INVALID
               | Some k \<Rightarrow>
                   (let (ciphertext, tag) = gcm_seal env k nonce (context_aad kind context) plaintext;
                        token = token_of kind nonce ciphertext tag in
                    if byte_length token > max_cursor_bytes then oversize else Inr (Some token))))))"

definition open_token ::
  "codec_env \<Rightarrow> token_kind \<Rightarrow> token_context \<Rightarrow> jstring \<Rightarrow> jstring \<Rightarrow> explorer_error + js" where
  "open_token env kind expected key token =
     (if token = [] \<or> byte_length token > max_cursor_bytes \<or> \<not> valid_context expected
      then Inl DATABASE_CURSOR_INVALID
      else (case split_units 0x2E token of
          [version, name, n, ct, t] \<Rightarrow>
            if version \<noteq> envelope_version \<or> name \<noteq> kind_name kind \<or> n = [] \<or> ct = [] \<or> t = []
            then Inl DATABASE_CURSOR_INVALID
            else (let nonce = unbase64 n; ciphertext = unbase64 ct; tag = unbase64 t in
              if length nonce \<noteq> 12 \<or> ciphertext = [] \<or> length tag \<noteq> 16 \<or> base64url nonce \<noteq> n
                 \<or> base64url ciphertext \<noteq> ct \<or> base64url tag \<noteq> t
              then Inl DATABASE_CURSOR_INVALID
              else (case encryption_key env key kind of
                  None \<Rightarrow> Inl DATABASE_CURSOR_INVALID
                | Some k \<Rightarrow>
                    (case gcm_open env k nonce (context_aad kind expected) ciphertext tag of
                       None \<Rightarrow> Inl DATABASE_CURSOR_INVALID
                     | Some plaintext \<Rightarrow>
                         (case parse_json env plaintext of
                            None \<Rightarrow> Inl DATABASE_CURSOR_INVALID | Some v \<Rightarrow> Inr v))))
        | _ \<Rightarrow> Inl DATABASE_CURSOR_INVALID))"

section \<open>The codec\<close>

definition encode_cursor :: "codec_env \<Rightarrow> cursor \<Rightarrow> jstring \<Rightarrow> bytes \<Rightarrow> explorer_error + jstring" where
  "encode_cursor env c key nonce =
     (if read_cursor (cursor_js c) = None then Inl DATABASE_CURSOR_INVALID
      else (case seal env Cursor_token (cur_context c) (Some (cursor_js c)) key nonce False of
          Inl e \<Rightarrow> Inl e
        | Inr None \<Rightarrow> Inl DATABASE_CURSOR_INVALID
        | Inr (Some token) \<Rightarrow> Inr token))"

definition valid_times :: "int \<Rightarrow> int \<Rightarrow> bool" where
  "valid_times issued expires \<longleftrightarrow>
     is_safe_integer issued \<and> is_safe_integer expires \<and> issued < expires
     \<and> expires - issued \<le> cursor_expiry_ms"

definition decode_cursor ::
  "codec_env \<Rightarrow> jstring \<Rightarrow> jstring \<Rightarrow> token_context \<Rightarrow> int \<Rightarrow> explorer_error + cursor" where
  "decode_cursor env token key expected now =
     (case open_token env Cursor_token expected key token of
        Inl e \<Rightarrow> Inl e
      | Inr v \<Rightarrow>
          (case read_cursor v of
             None \<Rightarrow> Inl DATABASE_CURSOR_INVALID
           | Some c \<Rightarrow>
               if \<not> valid_times (cur_issued c) (cur_expires c) \<or> now \<ge> cur_expires c
               then Inl DATABASE_CURSOR_INVALID
               else if cur_context c \<noteq> expected then Inl DATABASE_CURSOR_INVALID
               else (case cur_position c of
                   Offset n \<Rightarrow> if n > 10000 then Inl DATABASE_PAGE_TOO_LARGE else Inr c
                 | Keyset _ \<Rightarrow> Inr c)))"

definition encode_row_ref_within_limit ::
  "codec_env \<Rightarrow> row_ref \<Rightarrow> jstring \<Rightarrow> bytes \<Rightarrow> explorer_error + jstring option" where
  "encode_row_ref_within_limit env r key nonce =
     (if read_row_ref_shape (row_ref_js r) = None then Inl DATABASE_CURSOR_INVALID
      else if estimate_row_ref env r = None then Inr None
      else seal env Row_ref_token (ref_context r) (row_ref_payload env r) key nonce True)"

definition encode_row_ref :: "codec_env \<Rightarrow> row_ref \<Rightarrow> jstring \<Rightarrow> bytes \<Rightarrow> explorer_error + jstring" where
  "encode_row_ref env r key nonce =
     (case encode_row_ref_within_limit env r key nonce of
        Inl e \<Rightarrow> Inl e
      | Inr None \<Rightarrow> Inl DATABASE_CURSOR_INVALID
      | Inr (Some token) \<Rightarrow> Inr token)"

definition decode_row_ref ::
  "codec_env \<Rightarrow> jstring \<Rightarrow> jstring \<Rightarrow> token_context \<Rightarrow> int \<Rightarrow> explorer_error + row_ref" where
  "decode_row_ref env token key expected now =
     (case open_token env Row_ref_token expected key token of
        Inl e \<Rightarrow> Inl e
      | Inr v \<Rightarrow>
          (case revive_row_ref env v of
             None \<Rightarrow> Inl DATABASE_CURSOR_INVALID
           | Some r \<Rightarrow>
               if ref_keys r = [] \<or> \<not> list_all row_ref_claim (map snd (ref_keys r)) then Inl DATABASE_CURSOR_INVALID
               else if \<not> valid_times (ref_issued r) (ref_expires r) \<or> now \<ge> ref_expires r
               then Inl DATABASE_CURSOR_INVALID
               else if ref_context r \<noteq> expected then Inl DATABASE_CURSOR_INVALID
               else Inr r))"

end
