(* ===== verification/ExplorerSchema.thy ===== *)
theory ExplorerSchema
  imports CursorCodec
begin

text \<open>
  What the database explorer may show: the column policy (packages/security/src/database/columnPolicy.ts),
  and the snapshot of a target's schema that the worker derives from the catalog and caches
  (apps/sql-worker/src/explorer/schemaReader.ts). Lower case is modelled for ASCII; the collation of
  \<open>localeCompare\<close>, the connection and the catalog queries are arguments. Triggers and policies of a
  relation are copied by the code and left out here.
\<close>

section \<open>Column policy\<close>

datatype classification = Public | Internal | Pii | Blocked

definition exact_blocked_overrides :: "(string \<times> string \<times> string \<times> string) list" where
  "exact_blocked_overrides =
     [(''edutrack_production'', ''public'', ''zalo_config'', ''access_token''),
      (''edutrack_production'', ''public'', ''zalo_config'', ''refresh_token''),
      (''edutrack_production'', ''public'', ''staff_password_credentials'', ''password_hash''),
      (''edutrack_production'', ''public'', ''auth_otp_challenges'', ''otp_hash''),
      (''edutrack_production'', ''public'', ''auth_sessions'', ''token_hash''),
      (''edutrack_production'', ''public'', ''parent_accounts'', ''password_hash''),
      (''edutrack_production'', ''public'', ''parent_accounts'', ''password_salt''),
      (''ops'', ''public'', ''ops_mfa_factors'', ''encrypted_secret''),
      (''ops'', ''public'', ''ops_sessions'', ''csrf_secret_hash''),
      (''ops'', ''public'', ''sql_executions'', ''original_sql_ciphertext''),
      (''ops'', ''public'', ''ops_users'', ''password_hash''),
      (''ops'', ''public'', ''ops_users'', ''password_salt''),
      (''ops'', ''public'', ''ops_enrollments'', ''enrollment_secret'')]"

definition column_key :: "jstring \<Rightarrow> jstring \<Rightarrow> jstring \<Rightarrow> jstring \<Rightarrow> jstring" where
  "column_key target schema relation column =
     lower (target @ u '':'' @ schema @ u ''.'' @ relation @ u ''.'' @ column)"

definition blocked_set :: "jstring list" where
  "blocked_set = map (\<lambda>(t, s, r, c). column_key (u t) (u s) (u r) (u c)) exact_blocked_overrides"

definition pii_set :: "jstring list" where "pii_set = []"
definition public_set :: "jstring list" where "public_set = []"

definition blocked_tokens :: "string list" where
  "blocked_tokens =
     [''password'', ''passwd'', ''salt'', ''otp'', ''token'', ''secret'', ''credential'', ''private_key'',
      ''encryption_key'', ''ciphertext'', ''csrf'']"

definition pii_tokens :: "string list" where
  "pii_tokens =
     [''email'', ''phone'', ''telephone'', ''mobile'', ''display_name'', ''full_name'', ''given_name'',
      ''first_name'', ''middle_name'', ''family_name'', ''last_name'', ''preferred_name'', ''legal_name'',
      ''date_of_birth'', ''birth_date'', ''dob'', ''address'', ''address1'', ''address2'', ''address_line1'',
      ''address_line2'', ''street'', ''house_number'', ''unit_number'', ''city'', ''state'', ''province'',
      ''district'', ''ward'', ''region'', ''postal'', ''zip'', ''country'', ''notes'', ''note'', ''comments'',
      ''content'', ''answer'', ''comment'', ''messages'', ''message'', ''free_form'', ''freeform'',
      ''description'', ''body'', ''raw_payload'']"

definition token_in :: "jstring \<Rightarrow> string \<Rightarrow> bool" where
  "token_in col token \<longleftrightarrow>
     col = u token \<or> units_start (u token @ u ''_'') col \<or> units_end (u ''_'' @ u token) col \<or>
     units_include (u ''_'' @ u token @ u ''_'') col"

definition is_blocked_name :: "jstring \<Rightarrow> jstring \<Rightarrow> bool" where
  "is_blocked_name column relation \<longleftrightarrow>
     lower relation = u ''student_auth_credentials'' \<and> units_include (u ''password'') (lower column) \<or>
     list_ex (token_in (lower column)) blocked_tokens"

definition is_pii_name :: "jstring \<Rightarrow> bool" where
  "is_pii_name column \<longleftrightarrow> list_ex (token_in (lower column)) pii_tokens"

definition classify_column :: "jstring \<Rightarrow> jstring \<Rightarrow> jstring \<Rightarrow> jstring \<Rightarrow> classification" where
  "classify_column target schema relation column =
     (let key = column_key target schema relation column in
      if key \<in> set blocked_set then Blocked
      else if is_blocked_name column relation then Blocked
      else if key \<in> set pii_set then Pii
      else if is_pii_name column then Pii
      else if key \<in> set public_set then Public
      else Internal)"

section \<open>Filter operators of a column\<close>

datatype filter_operator = Op_eq | Op_neq | Op_contains | Op_gt | Op_gte | Op_lt | Op_lte
  | Op_is_null | Op_is_not_null

definition text_types :: "string list" where
  "text_types =
     [''text'', ''varchar'', ''character varying'', ''char'', ''character'', ''uuid'', ''citext'', ''name'',
      ''bpchar'']"

definition numeric_types :: "string list" where
  "numeric_types =
     [''int'', ''int2'', ''int4'', ''int8'', ''integer'', ''smallint'', ''bigint'', ''decimal'', ''numeric'',
      ''real'', ''double precision'', ''float'', ''float4'', ''float8'', ''serial'', ''bigserial'',
      ''smallserial'', ''money'']"

definition temporal_types :: "string list" where
  "temporal_types =
     [''date'', ''time'', ''timetz'', ''time without time zone'', ''time with time zone'', ''timestamp'',
      ''timestamptz'', ''timestamp without time zone'', ''timestamp with time zone'', ''interval'']"

definition boolean_types :: "string list" where
  "boolean_types = [''bool'', ''boolean'']"

text \<open>
  \<open>replace(/\(.*\)/, '')\<close>: from the first opening parenthesis that a closing one follows on its line, to the
  last closing one of that line. The dot matches no line terminator.
\<close>

definition line_end :: "16 word \<Rightarrow> bool" where
  "line_end c \<longleftrightarrow> c \<in> {0x0A, 0x0D, 0x2028, 0x2029}"

fun strip_parens :: "jstring \<Rightarrow> jstring" where
  "strip_parens [] = []"
| "strip_parens (c # s) =
     (let line = takeWhile (\<lambda>x. \<not> line_end x) s in
      if c = 0x28 \<and> 0x29 \<in> set line
      then rev (takeWhile (\<lambda>x. x \<noteq> 0x29) (rev line)) @ dropWhile (\<lambda>x. \<not> line_end x) s
      else c # strip_parens s)"

definition base_type :: "jstring \<Rightarrow> jstring" where
  "base_type data_type = trim_units (strip_parens (lower data_type))"

definition get_filter_operators :: "jstring \<Rightarrow> classification \<Rightarrow> bool \<Rightarrow> filter_operator list" where
  "get_filter_operators data_type class is_enum =
     (if class = Blocked then []
      else if is_enum then [Op_eq, Op_neq, Op_is_null, Op_is_not_null]
      else if base_type data_type \<in> u ` set text_types
      then [Op_eq, Op_neq, Op_contains, Op_is_null, Op_is_not_null]
      else if base_type data_type \<in> u ` set numeric_types
      then [Op_eq, Op_neq, Op_gt, Op_gte, Op_lt, Op_lte, Op_is_null, Op_is_not_null]
      else if base_type data_type \<in> u ` set temporal_types
      then [Op_eq, Op_neq, Op_gt, Op_gte, Op_lt, Op_lte, Op_is_null, Op_is_not_null]
      else if base_type data_type \<in> u ` set boolean_types
      then [Op_eq, Op_neq, Op_is_null, Op_is_not_null]
      else [Op_is_null, Op_is_not_null])"

section \<open>The catalog and the snapshot of the explorer\<close>

record base_column =
  bc_name :: jstring
  bc_type :: jstring
  bc_nullable :: bool
  bc_has_default :: bool
  bc_identity :: "jstring option"
  bc_generated :: bool

datatype constraint_kind = Primary_key | Foreign_key | Other_constraint

record referenced =
  rf_schema :: jstring
  rf_name :: jstring
  rf_columns :: "jstring list"

record db_constraint =
  co_name :: jstring
  co_kind :: constraint_kind
  co_columns :: "jstring list"
  co_referenced :: "referenced option"

record db_index =
  ix_name :: jstring
  ix_unique :: bool
  ix_valid :: bool
  ix_has_expressions :: bool
  ix_partial :: bool
  ix_columns :: "jstring list"

datatype relation_kind = Table | Partitioned_table | View | Materialized_view | Foreign_table

record base_relation =
  br_name :: jstring
  br_kind :: relation_kind
  br_columns :: "base_column list"
  br_constraints :: "db_constraint list"
  br_indexes :: "db_index list"

record base_snapshot =
  bs_checksum :: jstring
  bs_schemas :: "(jstring \<times> base_relation list) list"

record explorer_column =
  ec_name :: jstring
  ec_type :: jstring
  ec_nullable :: bool
  ec_has_default :: bool
  ec_identity :: "jstring option"
  ec_generated :: bool
  ec_class :: classification
  ec_selectable :: bool
  ec_operators :: "filter_operator list"

record edge_end =
  ee_schema :: jstring
  ee_relation :: jstring
  ee_columns :: "jstring list"

record relation_edge =
  re_constraint :: jstring
  re_from :: edge_end
  re_to :: edge_end

record explorer_relation =
  er_name :: jstring
  er_kind :: relation_kind
  er_columns :: "explorer_column list"
  er_constraints :: "db_constraint list"
  er_indexes :: "db_index list"
  er_estimated_rows :: "int option"
  er_data_available :: bool
  er_primary_key :: "jstring list option"
  er_pagination_key :: "jstring list option"

record explorer_snapshot =
  sn_target :: jstring
  sn_checksum :: jstring
  sn_policy :: jstring
  sn_schemas :: "(jstring \<times> explorer_relation list) list"
  sn_edges :: "relation_edge list"

record policy_approval =
  pa_version :: jstring
  pa_targets :: "jstring \<Rightarrow> jstring option"

definition database_policy_version :: jstring where
  "database_policy_version = u ''2026-09-25-v2''"

definition policy_approved :: "policy_approval option \<Rightarrow> jstring \<Rightarrow> jstring \<Rightarrow> bool" where
  "policy_approved approval target checksum =
     (case approval of None \<Rightarrow> False
      | Some a \<Rightarrow> pa_version a = database_policy_version \<and> pa_targets a target = Some checksum)"

text \<open>\<open>Array.prototype.sort\<close> with a comparison: stable.\<close>

fun insert_by :: "('a \<Rightarrow> 'a \<Rightarrow> bool) \<Rightarrow> 'a \<Rightarrow> 'a list \<Rightarrow> 'a list" where
  "insert_by le x [] = [x]"
| "insert_by le x (y # ys) = (if le x y then x # y # ys else y # insert_by le x ys)"

definition sort_by :: "('a \<Rightarrow> 'a \<Rightarrow> bool) \<Rightarrow> 'a list \<Rightarrow> 'a list" where
  "sort_by le xs = foldr (insert_by le) xs []"

definition primary_key :: "base_relation \<Rightarrow> jstring list option" where
  "primary_key r =
     (case find (\<lambda>c. co_kind c = Primary_key) (br_constraints r) of
        Some c \<Rightarrow> if co_columns c \<noteq> [] then Some (co_columns c) else None
      | None \<Rightarrow> None)"

definition non_nullable :: "base_relation \<Rightarrow> jstring list" where
  "non_nullable r = map bc_name (filter (\<lambda>c. \<not> bc_nullable c) (br_columns r))"

definition unique_candidates :: "(jstring \<Rightarrow> jstring \<Rightarrow> bool) \<Rightarrow> base_relation \<Rightarrow> db_index list" where
  "unique_candidates collate r =
     sort_by (\<lambda>a b. if length (ix_columns a) \<noteq> length (ix_columns b)
                    then length (ix_columns a) \<le> length (ix_columns b)
                    else collate (ix_name a) (ix_name b))
       (filter (\<lambda>i. ix_unique i \<and> ix_valid i \<and> \<not> ix_has_expressions i \<and> \<not> ix_partial i
                     \<and> ix_columns i \<noteq> [] \<and> set (ix_columns i) \<subseteq> set (non_nullable r))
          (br_indexes r))"

definition natural_key :: "(jstring \<Rightarrow> jstring \<Rightarrow> bool) \<Rightarrow> base_relation \<Rightarrow> jstring list option" where
  "natural_key collate r =
     (case primary_key r of
        Some k \<Rightarrow> if set k \<subseteq> set (non_nullable r) then Some k
                  else map_option ix_columns (List.find (\<lambda>_. True) (unique_candidates collate r))
      | None \<Rightarrow> map_option ix_columns (List.find (\<lambda>_. True) (unique_candidates collate r)))"

definition explorer_column_of ::
  "jstring \<Rightarrow> bool \<Rightarrow> (jstring \<times> jstring \<times> jstring) list \<Rightarrow> jstring \<Rightarrow> jstring \<Rightarrow> base_column \<Rightarrow> explorer_column" where
  "explorer_column_of target approved enums schema relation c =
     (let class = (if approved then classify_column target schema relation (bc_name c) else Blocked) in
      \<lparr> ec_name = bc_name c, ec_type = bc_type c, ec_nullable = bc_nullable c,
        ec_has_default = bc_has_default c, ec_identity = bc_identity c, ec_generated = bc_generated c,
        ec_class = class, ec_selectable = class \<noteq> Blocked,
        ec_operators = get_filter_operators (bc_type c) class ((schema, relation, bc_name c) \<in> set enums) \<rparr>)"

definition drop_hidden_key :: "explorer_column list \<Rightarrow> jstring list option \<Rightarrow> jstring list option" where
  "drop_hidden_key columns key =
     (case key of None \<Rightarrow> None
      | Some k \<Rightarrow>
          if list_ex (\<lambda>kc. \<not> list_ex (\<lambda>c. ec_name c = kc \<and> ec_selectable c) columns) k then None else Some k)"

definition explorer_relation_of ::
  "(jstring \<Rightarrow> jstring \<Rightarrow> bool) \<Rightarrow> jstring \<Rightarrow> bool \<Rightarrow> (jstring \<times> jstring \<times> jstring) list
     \<Rightarrow> ((jstring \<times> jstring) \<times> int) list \<Rightarrow> jstring \<Rightarrow> base_relation \<Rightarrow> explorer_relation" where
  "explorer_relation_of collate target approved enums estimates schema r =
     (let columns = map (explorer_column_of target approved enums schema (br_name r)) (br_columns r) in
      \<lparr> er_name = br_name r, er_kind = br_kind r, er_columns = columns,
        er_constraints = br_constraints r, er_indexes = br_indexes r,
        er_estimated_rows = map_of (rev estimates) (schema, br_name r),
        er_data_available = (br_kind r \<noteq> Foreign_table \<and> approved),
        er_primary_key = primary_key r,
        er_pagination_key = drop_hidden_key columns (natural_key collate r) \<rparr>)"

definition relation_edges :: "jstring \<Rightarrow> base_relation \<Rightarrow> relation_edge list" where
  "relation_edges schema r =
     List.map_filter (\<lambda>c. case co_referenced c of
         Some ref \<Rightarrow>
           if co_kind c = Foreign_key \<and> rf_schema ref \<noteq> [] \<and> rf_name ref \<noteq> []
           then Some \<lparr> re_constraint = co_name c,
                  re_from = \<lparr> ee_schema = schema, ee_relation = br_name r, ee_columns = co_columns c \<rparr>,
                  re_to = \<lparr> ee_schema = rf_schema ref, ee_relation = rf_name ref, ee_columns = rf_columns ref \<rparr> \<rparr>
           else None
       | None \<Rightarrow> None) (br_constraints r)"

definition explorer_snapshot_of ::
  "(jstring \<Rightarrow> jstring \<Rightarrow> bool) \<Rightarrow> jstring \<Rightarrow> policy_approval option
     \<Rightarrow> (jstring \<times> jstring \<times> jstring) list \<Rightarrow> ((jstring \<times> jstring) \<times> int) list \<Rightarrow> base_snapshot \<Rightarrow> explorer_snapshot" where
  "explorer_snapshot_of collate target approval enums estimates b =
     (let approved = policy_approved approval target (bs_checksum b) in
      \<lparr> sn_target = target, sn_checksum = bs_checksum b, sn_policy = database_policy_version,
        sn_schemas = map (\<lambda>(s, rs). (s, map (explorer_relation_of collate target approved enums estimates s) rs))
                       (bs_schemas b),
        sn_edges = sort_by (\<lambda>a b. collate (re_constraint a) (re_constraint b))
                     (concat (map (\<lambda>(s, rs). concat (map (relation_edges s) rs)) (bs_schemas b))) \<rparr>)"

section \<open>The cached reader\<close>

text \<open>
  One call of the reader: the times it sees when it starts and when it stores the snapshot, whether it
  gets a connection, and what the catalog queries answer (None when they throw).
\<close>

record schema_call =
  sc_now :: int
  sc_stored :: int
  sc_connects :: bool
  sc_base :: "base_snapshot option"
  sc_approval :: "policy_approval option"
  sc_estimates :: "((jstring \<times> jstring) \<times> int) list option"
  sc_enums :: "(jstring \<times> jstring \<times> jstring) list option"

type_synonym schema_cache = "(explorer_snapshot \<times> int) option"

definition cache_ttl_ms :: "int option \<Rightarrow> int" where
  "cache_ttl_ms ttl = min (case ttl of Some t \<Rightarrow> t | None \<Rightarrow> 60000) 60000"

definition invalidate_schema_cache :: "schema_cache \<Rightarrow> schema_cache" where
  "invalidate_schema_cache cache = None"

definition fresh_snapshot ::
  "(jstring \<Rightarrow> jstring \<Rightarrow> bool) \<Rightarrow> jstring \<Rightarrow> schema_call \<Rightarrow> explorer_snapshot option" where
  "fresh_snapshot collate target call =
     (case sc_base call of
        None \<Rightarrow> None
      | Some b \<Rightarrow>
          (case (if bs_schemas b = [] then Some [] else sc_enums call) of
             None \<Rightarrow> None
           | Some enums \<Rightarrow>
               Some (explorer_snapshot_of collate target (sc_approval call) enums
                       (case sc_estimates call of Some es \<Rightarrow> es | None \<Rightarrow> []) b)))"

definition read_schema ::
  "(jstring \<Rightarrow> jstring \<Rightarrow> bool) \<Rightarrow> jstring \<Rightarrow> int option \<Rightarrow> schema_call \<Rightarrow> schema_cache
     \<Rightarrow> (explorer_error + explorer_snapshot) \<times> schema_cache" where
  "read_schema collate target ttl call cache =
     (case cache of
        Some (s, expires) \<Rightarrow>
          if sc_now call < expires then (Inr s, cache)
          else (case (if sc_connects call then fresh_snapshot collate target call else None) of
              None \<Rightarrow> (Inl DATABASE_SCHEMA_CHECK_FAILED, None)
            | Some s' \<Rightarrow> (Inr s', Some (s', sc_stored call + cache_ttl_ms ttl)))
      | None \<Rightarrow>
          (case (if sc_connects call then fresh_snapshot collate target call else None) of
              None \<Rightarrow> (Inl DATABASE_SCHEMA_CHECK_FAILED, None)
            | Some s' \<Rightarrow> (Inr s', Some (s', sc_stored call + cache_ttl_ms ttl))))"

section \<open>What a snapshot promises\<close>

definition column_ok :: "explorer_column \<Rightarrow> bool" where
  "column_ok c \<longleftrightarrow>
     (ec_selectable c \<longleftrightarrow> ec_class c \<noteq> Blocked) \<and> (ec_class c = Blocked \<longrightarrow> ec_operators c = [])"

definition relation_ok :: "explorer_relation \<Rightarrow> bool" where
  "relation_ok r \<longleftrightarrow>
     list_all column_ok (er_columns r) \<and>
     (case er_pagination_key r of None \<Rightarrow> True
      | Some k \<Rightarrow> k \<noteq> [] \<and>
          list_all (\<lambda>kc. list_ex (\<lambda>c. ec_name c = kc \<and> ec_selectable c) (er_columns r) \<and>
                         list_ex (\<lambda>c. ec_name c = kc \<and> \<not> ec_nullable c) (er_columns r)) k)"

definition snapshot_ok :: "explorer_snapshot \<Rightarrow> bool" where
  "snapshot_ok s \<longleftrightarrow> list_all (\<lambda>(n, rs). list_all relation_ok rs) (sn_schemas s)"

lemma set_insert_by [simp]: "set (insert_by le x xs) = insert x (set xs)"
  by (induction xs) auto

lemma set_sort_by [simp]: "set (sort_by le xs) = set xs"
  by (induction xs) (auto simp: sort_by_def)

lemma find_True: "List.find (\<lambda>_. True) xs = (case xs of [] \<Rightarrow> None | x # _ \<Rightarrow> Some x)"
  by (cases xs) auto

lemma unique_candidates_ok:
  "i \<in> set (unique_candidates collate r) \<Longrightarrow>
     ix_columns i \<noteq> [] \<and> set (ix_columns i) \<subseteq> set (non_nullable r) \<and> ix_unique i \<and> i \<in> set (br_indexes r)"
  by (auto simp: unique_candidates_def)

lemma first_candidate_ok:
  assumes "map_option ix_columns (List.find (\<lambda>_. True) (unique_candidates collate r)) = Some k"
  shows "k \<noteq> [] \<and> set k \<subseteq> set (non_nullable r)"
proof -
  from assms obtain i where "i \<in> set (unique_candidates collate r)" "k = ix_columns i"
    by (auto simp: find_True split: list.splits)
  with unique_candidates_ok [of i collate r] show ?thesis by simp
qed

lemma natural_key_ok:
  assumes "natural_key collate r = Some k"
  shows "k \<noteq> [] \<and> set k \<subseteq> set (non_nullable r)"
proof (cases "primary_key r")
  case None
  with assms show ?thesis by (simp add: natural_key_def first_candidate_ok)
next
  case (Some p)
  then have "p \<noteq> []" by (auto simp: primary_key_def split: option.splits if_splits)
  with assms Some show ?thesis
    by (cases "set p \<subseteq> set (non_nullable r)") (simp_all add: natural_key_def first_candidate_ok)
qed

lemma explorer_column_of_ok [simp]: "column_ok (explorer_column_of target approved enums schema relation c)"
  by (simp add: column_ok_def explorer_column_of_def Let_def get_filter_operators_def)

lemma explorer_column_simps [simp]:
  "ec_name (explorer_column_of target approved enums schema relation c) = bc_name c"
  "ec_nullable (explorer_column_of target approved enums schema relation c) = bc_nullable c"
  by (simp_all add: explorer_column_of_def Let_def)

lemma drop_hidden_key_Some:
  "drop_hidden_key cs key = Some k \<Longrightarrow>
     key = Some k \<and> list_all (\<lambda>kc. list_ex (\<lambda>c. ec_name c = kc \<and> ec_selectable c) cs) k"
  by (auto simp: drop_hidden_key_def list_ex_iff list_all_iff split: option.splits if_splits)

lemma relation_ok_derived: "relation_ok (explorer_relation_of collate target approved enums estimates schema r)"
proof -
  define cs where "cs = map (explorer_column_of target approved enums schema (br_name r)) (br_columns r)"
  have "list_all column_ok cs" by (simp add: cs_def list_all_iff)
  moreover have "k \<noteq> [] \<and> list_all (\<lambda>kc. list_ex (\<lambda>c. ec_name c = kc \<and> ec_selectable c) cs \<and>
      list_ex (\<lambda>c. ec_name c = kc \<and> \<not> ec_nullable c) cs) k"
    if "drop_hidden_key cs (natural_key collate r) = Some k" for k
    using drop_hidden_key_Some [OF that] natural_key_ok [of collate r k]
    by (fastforce simp: list_all_iff list_ex_iff cs_def non_nullable_def)
  ultimately show ?thesis
    by (auto simp: relation_ok_def explorer_relation_of_def Let_def cs_def split: option.splits)
qed

lemma fresh_snapshot_ok: "fresh_snapshot collate target call = Some s \<Longrightarrow> snapshot_ok s"
  using relation_ok_derived
  by (fastforce simp: fresh_snapshot_def explorer_snapshot_of_def snapshot_ok_def Let_def list_all_iff
      split: option.splits)

text \<open>Reads of a target, one after another; None stands for an invalidation of the cache.\<close>

fun schema_run ::
  "(jstring \<Rightarrow> jstring \<Rightarrow> bool) \<Rightarrow> jstring \<Rightarrow> int option \<Rightarrow> schema_call option list \<Rightarrow> schema_cache
     \<Rightarrow> (explorer_error + explorer_snapshot) list \<times> schema_cache" where
  "schema_run collate target ttl [] cache = ([], cache)"
| "schema_run collate target ttl (None # calls) cache =
     schema_run collate target ttl calls (invalidate_schema_cache cache)"
| "schema_run collate target ttl (Some call # calls) cache =
     (let (answer, cache') = read_schema collate target ttl call cache;
          (answers, cache'') = schema_run collate target ttl calls cache' in (answer # answers, cache''))"

definition answer_ok :: "explorer_error + explorer_snapshot \<Rightarrow> bool" where
  "answer_ok a \<longleftrightarrow> (case a of Inl e \<Rightarrow> e = DATABASE_SCHEMA_CHECK_FAILED | Inr s \<Rightarrow> snapshot_ok s)"

definition cache_ok :: "schema_cache \<Rightarrow> bool" where
  "cache_ok cache \<longleftrightarrow> (case cache of None \<Rightarrow> True | Some (s, _) \<Rightarrow> snapshot_ok s)"

lemma read_schema_ok:
  "cache_ok cache \<Longrightarrow>
     answer_ok (fst (read_schema collate target ttl call cache)) \<and> cache_ok (snd (read_schema collate target ttl call cache))"
  by (auto simp: read_schema_def answer_ok_def cache_ok_def fresh_snapshot_ok split: option.splits if_splits prod.splits)

lemma schema_run_ok:
  "cache_ok cache \<Longrightarrow> schema_run collate target ttl calls cache = (answers, cache') \<Longrightarrow>
     list_all answer_ok answers \<and> cache_ok cache'"
proof (induction calls arbitrary: cache answers cache')
  case (Cons c calls)
  show ?case
  proof (cases c)
    case None
    then show ?thesis
      using Cons.IH [of "invalidate_schema_cache cache" answers cache'] Cons.prems
      by (simp add: invalidate_schema_cache_def cache_ok_def)
  next
    case (Some call)
    obtain a c1 where r: "read_schema collate target ttl call cache = (a, c1)" by fastforce
    obtain bs c2 where rest: "schema_run collate target ttl calls c1 = (bs, c2)" by fastforce
    have "answer_ok a" "cache_ok c1" using read_schema_ok [OF Cons.prems(1), of collate target ttl call] r by simp_all
    then show ?thesis using Cons.IH [OF _ rest] Cons.prems(2) r rest Some by auto
  qed
qed simp

text \<open>
  C34. Every snapshot the reader answers is well formed, from its cache or not. Along any sequence of reads and
  invalidations that starts with the empty cache, whatever the catalog, the policy approval and the
  clock give, each answer is a schema check failure or a snapshot in which a column is selectable exactly when
  it is not blocked, a blocked column has no operator, and a pagination key is not empty and consists
  of selectable columns that the catalog declares not null; and the cache is left holding only such a snapshot.
\<close>

theorem snapshot_well_formed:
  assumes "schema_run collate target ttl calls None = (answers, cache)"
  shows "list_all answer_ok answers \<and> cache_ok cache"
  using schema_run_ok [OF _ assms] by (simp add: cache_ok_def)

end
