(* ===== verification/ExplorerQuery.thy ===== *)
theory ExplorerQuery
  imports ExplorerSchema "HOL-Library.List_Lexorder"
begin

text \<open>
  The statement of the row reader: apps/sql-worker/src/explorer/filterSql.ts, identifier.ts and the
  keyset condition of rowReader.ts. Predicates are syntax trees whose text, as the code concatenates
  it, is \<open>sql_text\<close>; the placeholders of the keyset condition are numbered when the statement is
  run. The second half gives the statement its meaning in PostgreSQL (three-valued logic, NULLS LAST,
  LIMIT and OFFSET, parameters) over a table of rows, and proves that the keyset condition selects
  exactly the rows that come after the key in the order of the statement.
\<close>

section \<open>Predicates\<close>

text \<open>\<open>Dollar n\<close> is the parameter $n, \<open>Cursor_param i\<close> the placeholder of a cursor value.\<close>

datatype sql_param = Dollar nat | Cursor_param nat

datatype comparison = Eq | Neq | Gt | Gte | Lt | Lte

datatype sql_pred =
    Is_null jstring
  | Is_not_null jstring
  | Compare comparison jstring sql_param
  | Ilike jstring sql_param
  | All_of "sql_pred list"
  | Any_of "sql_pred list"

definition quote_identifier :: "jstring \<Rightarrow> jstring" where
  "quote_identifier s = 0x22 # concat (map (\<lambda>c. if c = 0x22 then [0x22, 0x22] else [c]) s) @ [0x22]"

fun join_units :: "jstring \<Rightarrow> jstring list \<Rightarrow> jstring" where
  "join_units sep [] = []"
| "join_units sep [x] = x"
| "join_units sep (x # y # xs) = x @ sep @ join_units sep (y # xs)"

definition param_text :: "sql_param \<Rightarrow> jstring" where
  "param_text p =
     (case p of Dollar n \<Rightarrow> u (''$'' @ string_of_nat n)
      | Cursor_param i \<Rightarrow> u (''$__CURSOR_PARAM_'' @ string_of_nat i @ ''__''))"

definition comparison_text :: "comparison \<Rightarrow> jstring" where
  "comparison_text c =
     u (case c of Eq \<Rightarrow> ''='' | Neq \<Rightarrow> ''!='' | Gt \<Rightarrow> ''>'' | Gte \<Rightarrow> ''>='' | Lt \<Rightarrow> ''<'' | Lte \<Rightarrow> ''<='')"

fun sql_text :: "sql_pred \<Rightarrow> jstring" where
  "sql_text (Is_null c) = quote_identifier c @ u '' IS NULL''"
| "sql_text (Is_not_null c) = quote_identifier c @ u '' IS NOT NULL''"
| "sql_text (Compare op c p) = quote_identifier c @ u '' '' @ comparison_text op @ u '' '' @ param_text p"
| "sql_text (Ilike c p) =
     quote_identifier c @ u ''::text ILIKE ('' @ [0x27, 0x25, 0x27] @ u '' || '' @ param_text p @ u '' || ''
     @ [0x27, 0x25, 0x27] @ u '')''"
| "sql_text (All_of ps) = u ''('' @ join_units (u '' AND '') (map sql_text ps) @ u '')''"
| "sql_text (Any_of ps) =
     (if ps = [] then u ''FALSE'' else u ''('' @ join_units (u '' OR '') (map sql_text ps) @ u '')'')"

section \<open>Filters\<close>

record row_filter =
  fl_column :: jstring
  fl_operator :: filter_operator
  fl_value :: "jstring option"

definition column_named :: "explorer_column list \<Rightarrow> jstring \<Rightarrow> explorer_column option" where
  "column_named cs n = map_of (rev (map (\<lambda>c. (ec_name c, c)) cs)) n"

definition operator_pred :: "filter_operator \<Rightarrow> jstring \<Rightarrow> sql_param \<Rightarrow> sql_pred" where
  "operator_pred op c p =
     (case op of
        Op_eq \<Rightarrow> Compare Eq c p | Op_neq \<Rightarrow> Compare Neq c p | Op_contains \<Rightarrow> Ilike c p
      | Op_gt \<Rightarrow> Compare Gt c p | Op_gte \<Rightarrow> Compare Gte c p | Op_lt \<Rightarrow> Compare Lt c p
      | Op_lte \<Rightarrow> Compare Lte c p | Op_is_null \<Rightarrow> Is_null c | Op_is_not_null \<Rightarrow> Is_not_null c)"

fun filter_loop ::
  "explorer_column list \<Rightarrow> row_filter list \<Rightarrow> nat \<Rightarrow> sql_pred list \<Rightarrow> js list
     \<Rightarrow> explorer_error + (sql_pred list \<times> js list \<times> nat)" where
  "filter_loop cs [] n preds values = Inr (preds, values, n)"
| "filter_loop cs (f # fs) n preds values =
     (case column_named cs (fl_column f) of
        None \<Rightarrow> Inl DATABASE_COLUMN_INVALID
      | Some col \<Rightarrow>
          if ec_class col = Blocked \<or> \<not> ec_selectable col then Inl DATABASE_FILTER_INVALID
          else if fl_operator f \<notin> set (ec_operators col) then Inl DATABASE_FILTER_INVALID
          else if fl_operator f \<in> {Op_is_null, Op_is_not_null}
          then filter_loop cs fs n (preds @ [operator_pred (fl_operator f) (ec_name col) (Dollar n)]) values
          else (case fl_value f of
              None \<Rightarrow> Inl DATABASE_FILTER_INVALID
            | Some v \<Rightarrow>
                if length v > 200 then Inl DATABASE_FILTER_INVALID
                else filter_loop cs fs (n + 1)
                       (preds @ [operator_pred (fl_operator f) (ec_name col) (Dollar n)]) (values @ [Str v])))"

definition build_filter_sql ::
  "explorer_column list \<Rightarrow> row_filter list \<Rightarrow> nat \<Rightarrow> explorer_error + (sql_pred list \<times> js list \<times> nat)" where
  "build_filter_sql cs fs start =
     (if length fs > 5 then Inl DATABASE_FILTER_INVALID else filter_loop cs fs start [] [])"

section \<open>The keyset condition\<close>

text \<open>
  The values pushed so far are threaded through both loops; a placeholder is the index at which its
  value is pushed.
\<close>

fun keyset_prefix :: "(jstring \<times> js) list \<Rightarrow> js list \<Rightarrow> sql_pred list \<times> js list" where
  "keyset_prefix [] values = ([], values)"
| "keyset_prefix ((c, v) # ks) values =
     (if v = Null then (let (ps, vs) = keyset_prefix ks values in (Is_null c # ps, vs))
      else (let (ps, vs) = keyset_prefix ks (values @ [v]) in
            (Compare Eq c (Cursor_param (length values)) # ps, vs)))"

fun keyset_terms ::
  "bool \<Rightarrow> (jstring \<times> js) list \<Rightarrow> (jstring \<times> js) list \<Rightarrow> js list \<Rightarrow> sql_pred list \<times> js list" where
  "keyset_terms desc before [] values = ([], values)"
| "keyset_terms desc before ((c, v) # ks) values =
     (let (prefix, values1) = keyset_prefix before values in
      if v = Null then keyset_terms desc (before @ [(c, v)]) ks values1
      else (let comparison = Any_of [Compare (if desc then Lt else Gt) c (Cursor_param (length values1)), Is_null c];
                (terms, values2) = keyset_terms desc (before @ [(c, v)]) ks (values1 @ [v]) in
            ((if prefix \<noteq> [] then All_of (prefix @ [comparison]) else comparison) # terms, values2)))"

definition build_keyset_condition :: "(jstring \<times> js) list \<Rightarrow> bool \<Rightarrow> sql_pred \<times> js list" where
  "build_keyset_condition keys desc =
     (let (terms, values) = keyset_terms desc [] keys [] in (Any_of terms, values))"

section \<open>The statement\<close>

record rows_query =
  rq_columns :: "jstring list"
  rq_schema :: jstring
  rq_relation :: jstring
  rq_where :: "sql_pred list"
  rq_order :: "(jstring \<times> bool) list"
  rq_limit :: nat
  rq_offset :: "sql_param option"

definition query_text :: "rows_query \<Rightarrow> jstring" where
  "query_text q =
     u ''SELECT '' @ join_units (u '', '') (map quote_identifier (rq_columns q))
     @ u '' FROM '' @ quote_identifier (rq_schema q) @ u ''.'' @ quote_identifier (rq_relation q)
     @ (if rq_where q = [] then [] else u '' WHERE '' @ join_units (u '' AND '') (map sql_text (rq_where q)))
     @ (if rq_order q = [] then []
        else u '' ORDER BY '' @ join_units (u '', '')
               (map (\<lambda>(c, desc). quote_identifier c @ u (if desc then '' DESC NULLS LAST'' else '' ASC NULLS LAST''))
                  (rq_order q)))
     @ u '' LIMIT '' @ u (string_of_nat (rq_limit q))
     @ (case rq_offset q of None \<Rightarrow> [] | Some p \<Rightarrow> u '' OFFSET '' @ param_text p)"

definition find_relation :: "explorer_snapshot \<Rightarrow> jstring \<Rightarrow> jstring \<Rightarrow> explorer_relation option" where
  "find_relation s schema relation =
     (case List.find (\<lambda>(n, _). n = schema) (sn_schemas s) of
        None \<Rightarrow> None | Some (_, rs) \<Rightarrow> List.find (\<lambda>r. er_name r = relation) rs)"

definition selectable_columns :: "explorer_relation \<Rightarrow> explorer_column list" where
  "selectable_columns r = filter (\<lambda>c. ec_selectable c \<and> ec_class c \<noteq> Blocked) (er_columns r)"

fun trusted_loop ::
  "explorer_column list \<Rightarrow> (jstring \<times> js) list \<Rightarrow> nat \<Rightarrow> explorer_error + (sql_pred list \<times> js list \<times> nat)" where
  "trusted_loop cs [] n = Inr ([], [], n)"
| "trusted_loop cs ((name, v) # es) n =
     (case List.find (\<lambda>c. ec_name c = name) cs of
        None \<Rightarrow> Inl DATABASE_COLUMN_INVALID
      | Some col \<Rightarrow>
          if ec_class col = Blocked \<or> \<not> ec_selectable col then Inl DATABASE_FILTER_INVALID
          else if v = Undefined \<or> v = Null then Inl DATABASE_FILTER_INVALID
          else (case trusted_loop cs es (n + 1) of
              Inl e \<Rightarrow> Inl e
            | Inr (ps, vs, m) \<Rightarrow> Inr (Compare Eq (ec_name col) (Dollar n) # ps, v # vs, m)))"

definition order_items :: "(jstring \<times> bool) option \<Rightarrow> jstring list option \<Rightarrow> (jstring \<times> bool) list" where
  "order_items srt key =
     (case srt of Some s \<Rightarrow> [s] | None \<Rightarrow> [])
     @ (case key of None \<Rightarrow> []
        | Some k \<Rightarrow>
            map (\<lambda>c. (c, case srt of Some (_, desc) \<Rightarrow> desc | None \<Rightarrow> False))
              (filter (\<lambda>c. map_option fst srt \<noteq> Some c) k))"

text \<open>\<open>Boolean(relationObj.paginationKey && relationObj.paginationKey.length > 0)\<close>\<close>

definition pagination_key :: "explorer_relation \<Rightarrow> jstring list option" where
  "pagination_key r = (case er_pagination_key r of Some [] \<Rightarrow> None | k \<Rightarrow> k)"

record query_input =
  qi_schema :: jstring
  qi_relation :: jstring
  qi_page_size :: nat
  qi_filters :: "row_filter list"
  qi_trusted :: "(jstring \<times> js) list"
  qi_sort :: "(jstring \<times> bool) option"
  qi_cursor :: "(sql_pred \<times> js list) option"
  qi_offset :: "int option"

definition build_rows_query ::
  "explorer_snapshot \<Rightarrow> query_input \<Rightarrow> explorer_error + (rows_query \<times> js list)" where
  "build_rows_query s i =
     (case find_relation s (qi_schema i) (qi_relation i) of
        None \<Rightarrow> Inl DATABASE_RELATION_INVALID
      | Some r \<Rightarrow>
          if \<not> er_data_available r then Inl DATABASE_DATA_PERMISSION_DENIED
          else if selectable_columns r = [] then Inl DATABASE_DATA_PERMISSION_DENIED
          else if (case qi_sort i of None \<Rightarrow> False
                   | Some (c, _) \<Rightarrow> \<not> list_ex (\<lambda>col. ec_name col = c) (selectable_columns r))
          then Inl DATABASE_COLUMN_INVALID
          else (case build_filter_sql (er_columns r) (qi_filters i) 1 of
              Inl e \<Rightarrow> Inl e
            | Inr (preds, values, n) \<Rightarrow>
                (case trusted_loop (er_columns r) (qi_trusted i) n of
                   Inl e \<Rightarrow> Inl e
                 | Inr (trusted, trusted_values, m) \<Rightarrow>
                     (let (cursor_preds, cursor_values) =
                            (case qi_cursor i of None \<Rightarrow> ([], []) | Some (p, vs) \<Rightarrow> ([p], vs));
                          where_preds = preds @ trusted @ cursor_preds;
                          all_values = values @ trusted_values @ cursor_values;
                          next_param = m + length cursor_values;
                          q = \<lparr> rq_columns = map ec_name (selectable_columns r), rq_schema = qi_schema i,
                                rq_relation = qi_relation i, rq_where = where_preds,
                                rq_order = order_items (qi_sort i) (pagination_key r),
                                rq_limit = qi_page_size i + 1, rq_offset = None \<rparr> in
                      case qi_offset i of
                        Some off \<Rightarrow>
                          if off > 0
                          then (if off > 10000 then Inl DATABASE_PAGE_TOO_LARGE
                                else Inr (q\<lparr>rq_offset := Some (Dollar next_param)\<rparr>, all_values @ [Num off]))
                          else Inr (q, all_values)
                      | None \<Rightarrow> Inr (q, all_values)))))"

text \<open>The replacement of the placeholders of the cursor values before the statement is run.\<close>

definition number_param :: "nat \<Rightarrow> sql_param \<Rightarrow> sql_param" where
  "number_param start p = (case p of Cursor_param i \<Rightarrow> Dollar (start + i) | Dollar n \<Rightarrow> Dollar n)"

fun number_params :: "nat \<Rightarrow> sql_pred \<Rightarrow> sql_pred" where
  "number_params start (Compare op c p) = Compare op c (number_param start p)"
| "number_params start (Ilike c p) = Ilike c (number_param start p)"
| "number_params start (All_of ps) = All_of (map (number_params start) ps)"
| "number_params start (Any_of ps) = Any_of (map (number_params start) ps)"
| "number_params start p = p"

section \<open>The order of the statement\<close>

text \<open>
  A cell in an ORDER BY item, ascending or descending, with nulls last in either case. All the rows of
  a statement have the same constructor in the same position.
\<close>

datatype 'd order_key = Ascending 'd | Descending 'd | Nulls_last

instantiation order_key :: (linorder) linorder
begin

fun less_order_key :: "'a order_key \<Rightarrow> 'a order_key \<Rightarrow> bool" where
  "less_order_key (Ascending x) (Ascending y) = (x < y)"
| "less_order_key (Descending x) (Descending y) = (y < x)"
| "less_order_key (Ascending x) (Descending y) = True"
| "less_order_key (Ascending x) Nulls_last = True"
| "less_order_key (Descending x) Nulls_last = True"
| "less_order_key _ _ = False"

definition less_eq_order_key :: "'a order_key \<Rightarrow> 'a order_key \<Rightarrow> bool" where
  "less_eq_order_key x y \<longleftrightarrow> x < y \<or> x = y"

instance
proof
  fix x y z :: "'a order_key"
  show "(x < y) = (x \<le> y \<and> \<not> y \<le> x)"
    by (cases x; cases y) (auto simp: less_eq_order_key_def)
  show "x \<le> x" by (simp add: less_eq_order_key_def)
  show "x \<le> y \<Longrightarrow> y \<le> z \<Longrightarrow> x \<le> z"
    by (cases x; cases y; cases z) (auto simp: less_eq_order_key_def)
  show "x \<le> y \<Longrightarrow> y \<le> x \<Longrightarrow> x = y"
    by (cases x; cases y) (auto simp: less_eq_order_key_def)
  show "x \<le> y \<or> y \<le> x"
    by (cases x; cases y) (auto simp: less_eq_order_key_def)
qed

end

type_synonym 'd row = "jstring \<Rightarrow> 'd option"

definition order_key :: "bool \<Rightarrow> 'd option \<Rightarrow> 'd order_key" where
  "order_key desc cell =
     (case cell of None \<Rightarrow> Nulls_last | Some d \<Rightarrow> if desc then Descending d else Ascending d)"

definition row_key :: "(jstring \<times> bool) list \<Rightarrow> 'd row \<Rightarrow> 'd order_key list" where
  "row_key order r = map (\<lambda>(c, desc). order_key desc (r c)) order"

section \<open>Running the statement\<close>

text \<open>
  What PostgreSQL and its driver contribute: the JavaScript value of a cell that is not null, the
  value of a column's type that a parameter denotes (None when it does not convert), and ILIKE.
\<close>

record 'd pg =
  fetch :: "'d \<Rightarrow> js"
  bind :: "jstring \<Rightarrow> js \<Rightarrow> 'd option"
  matches :: "'d \<Rightarrow> js \<Rightarrow> bool"

definition param_value :: "js list \<Rightarrow> sql_param \<Rightarrow> js option" where
  "param_value params p =
     (case p of Dollar n \<Rightarrow> if 1 \<le> n \<and> n \<le> length params then Some (params ! (n - 1)) else None
      | Cursor_param _ \<Rightarrow> None)"

definition compare :: "comparison \<Rightarrow> 'd::linorder \<Rightarrow> 'd \<Rightarrow> bool" where
  "compare op x y =
     (case op of Eq \<Rightarrow> x = y | Neq \<Rightarrow> x \<noteq> y | Gt \<Rightarrow> x > y | Gte \<Rightarrow> x \<ge> y | Lt \<Rightarrow> x < y | Lte \<Rightarrow> x \<le> y)"

definition sql_and :: "bool option list \<Rightarrow> bool option" where
  "sql_and bs = (if Some False \<in> set bs then Some False else if None \<in> set bs then None else Some True)"

definition sql_or :: "bool option list \<Rightarrow> bool option" where
  "sql_or bs = (if Some True \<in> set bs then Some True else if None \<in> set bs then None else Some False)"

text \<open>Three-valued logic: None is the unknown truth value, which a comparison with null has.\<close>

fun eval_pred :: "'d::linorder pg \<Rightarrow> js list \<Rightarrow> 'd row \<Rightarrow> sql_pred \<Rightarrow> bool option" where
  "eval_pred pg params r (Is_null c) = Some (r c = None)"
| "eval_pred pg params r (Is_not_null c) = Some (r c \<noteq> None)"
| "eval_pred pg params r (Compare op c p) =
     (case (r c, Option.bind (param_value params p) (bind pg c)) of
        (Some d, Some d') \<Rightarrow> Some (compare op d d') | _ \<Rightarrow> None)"
| "eval_pred pg params r (Ilike c p) =
     (case (r c, param_value params p) of
        (Some d, Some v) \<Rightarrow> if v = Null then None else Some (matches pg d v) | _ \<Rightarrow> None)"
| "eval_pred pg params r (All_of ps) = sql_and (map (eval_pred pg params r) ps)"
| "eval_pred pg params r (Any_of ps) = sql_or (map (eval_pred pg params r) ps)"

fun pred_params :: "sql_pred \<Rightarrow> (jstring option \<times> sql_param) list" where
  "pred_params (Compare op c p) = [(Some c, p)]"
| "pred_params (Ilike c p) = [(None, p)]"
| "pred_params (All_of ps) = concat (map pred_params ps)"
| "pred_params (Any_of ps) = concat (map pred_params ps)"
| "pred_params _ = []"

definition query_params :: "rows_query \<Rightarrow> (jstring option \<times> sql_param) list" where
  "query_params q =
     concat (map pred_params (rq_where q)) @ (case rq_offset q of None \<Rightarrow> [] | Some p \<Rightarrow> [(None, p)])"

text \<open>
  PostgreSQL refuses a statement with a placeholder it cannot read, with a parameter that is missing
  or does not convert, and with a supplied value that no parameter refers to.
\<close>

definition params_ok :: "'d pg \<Rightarrow> rows_query \<Rightarrow> js list \<Rightarrow> bool" where
  "params_ok pg q params \<longleftrightarrow>
     list_all (\<lambda>(c, p). case param_value params p of None \<Rightarrow> False
       | Some v \<Rightarrow> (case c of None \<Rightarrow> True | Some col \<Rightarrow> v = Null \<or> bind pg col v \<noteq> None)) (query_params q) \<and>
     list_all (\<lambda>n. Dollar (Suc n) \<in> set (map snd (query_params q))) [0..<length params]"

definition offset_value :: "js list \<Rightarrow> sql_param option \<Rightarrow> nat" where
  "offset_value params p =
     (case p of None \<Rightarrow> 0
      | Some p \<Rightarrow> (case param_value params p of Some (Num n) \<Rightarrow> nat n | _ \<Rightarrow> 0))"

definition fetched_row :: "'d pg \<Rightarrow> jstring list \<Rightarrow> 'd row \<Rightarrow> (jstring \<times> js) list" where
  "fetched_row pg cs r = map (\<lambda>c. (c, case r c of None \<Rightarrow> Null | Some d \<Rightarrow> fetch pg d)) cs"

definition selected_rows :: "'d::linorder pg \<Rightarrow> 'd row list \<Rightarrow> rows_query \<Rightarrow> js list \<Rightarrow> 'd row list" where
  "selected_rows pg table q params =
     sort_key (row_key (rq_order q))
       (filter (\<lambda>r. eval_pred pg params r (All_of (rq_where q)) = Some True) table)"

definition run_query ::
  "'d::linorder pg \<Rightarrow> 'd row list \<Rightarrow> rows_query \<Rightarrow> js list \<Rightarrow> (jstring \<times> js) list list option" where
  "run_query pg table q params =
     (if params_ok pg q params
      then Some (map (fetched_row pg (rq_columns q))
             (take (rq_limit q) (drop (offset_value params (rq_offset q)) (selected_rows pg table q params))))
      else None)"

section \<open>The keyset condition selects what follows the key\<close>

text \<open>The key of a cursor as PostgreSQL reads it back.\<close>

definition bound_cell :: "'d pg \<Rightarrow> jstring \<times> js \<Rightarrow> 'd option" where
  "bound_cell pg k = (if snd k = Null then None else bind pg (fst k) (snd k))"

definition key_bound :: "'d pg \<Rightarrow> (jstring \<times> js) list \<Rightarrow> bool" where
  "key_bound pg ks \<longleftrightarrow> list_all (\<lambda>(c, v). v = Null \<or> bind pg c v \<noteq> None) ks"

definition cursor_key :: "'d pg \<Rightarrow> bool \<Rightarrow> (jstring \<times> js) list \<Rightarrow> 'd order_key list" where
  "cursor_key pg desc ks = map (\<lambda>k. order_key desc (bound_cell pg k)) ks"

text \<open>The values of the condition stand in the parameters from \<open>start\<close> on.\<close>

definition placed :: "js list \<Rightarrow> nat \<Rightarrow> js list \<Rightarrow> bool" where
  "placed params start values \<longleftrightarrow>
     1 \<le> start \<and> start - 1 + length values \<le> length params \<and>
     (\<forall>i < length values. params ! (start - 1 + i) = values ! i)"

lemma placed_param:
  "placed params start values \<Longrightarrow> i < length values \<Longrightarrow>
     param_value params (number_param start (Cursor_param i)) = Some (values ! i)"
  by (auto simp: placed_def number_param_def param_value_def)

lemma placed_append: "placed params start (vs @ ws) \<Longrightarrow> placed params start vs"
  by (auto simp: placed_def nth_append)

lemma sql_and_True: "sql_and bs = Some True \<longleftrightarrow> (\<forall>b\<in>set bs. b = Some True)"
  by (auto simp: sql_and_def) (metis not_Some_eq)+

lemma sql_or_True: "sql_or bs = Some True \<longleftrightarrow> Some True \<in> set bs"
  by (simp add: sql_or_def)

lemma keyset_prefix_values: "\<exists>ws. snd (keyset_prefix ks vs) = vs @ ws"
  by (induction ks vs rule: keyset_prefix.induct) (auto simp: Let_def split: prod.splits) 

lemma keyset_terms_values: "\<exists>ws. snd (keyset_terms desc before ks vs) = vs @ ws"
proof (induction desc before ks vs rule: keyset_terms.induct)
  case (2 desc before c v ks vs)
  obtain ps vs1 where prefix: "keyset_prefix before vs = (ps, vs1)" by force
  then obtain ws where "vs1 = vs @ ws" using keyset_prefix_values [of before vs] by auto
  with 2 [OF prefix [symmetric] refl] show ?case
    by (auto simp: prefix split_beta Let_def)
qed simp

lemma keyset_prefix_holds:
  assumes "keyset_prefix ks vs = (ps, vs')" "placed params start vs'" "key_bound pg ks"
  shows "length ps = length ks \<and>
    ((\<forall>p\<in>set ps. eval_pred pg params r (number_params start p) = Some True) \<longleftrightarrow>
      list_all (\<lambda>k. r (fst k) = bound_cell pg k) ks)"
  using assms
proof (induction ks vs arbitrary: ps rule: keyset_prefix.induct)
  case (2 c v ks vs)
  show ?case
  proof (cases "v = Null")
    case True
    obtain qs where rest: "keyset_prefix ks vs = (qs, vs')" "ps = Is_null c # qs"
      using "2.prems"(1) True by (cases "keyset_prefix ks vs") auto
    have "key_bound pg ks" using "2.prems"(3) by (simp add: key_bound_def)
    with "2.IH"(1) [OF True rest(1) "2.prems"(2)] True show ?thesis
      by (simp add: rest(2)) (simp add: bound_cell_def)
  next
    case False
    obtain qs ws where rest: "keyset_prefix ks (vs @ [v]) = (qs, ws)" by force
    with False 2(3) have ps: "ps = Compare Eq c (Cursor_param (length vs)) # qs" "vs' = ws" by auto
    obtain us where "ws = (vs @ [v]) @ us" using keyset_prefix_values [of ks "vs @ [v]"] rest by auto
    then have "length vs < length vs'" "vs' ! length vs = v" by (auto simp: ps nth_append)
    then have param: "param_value params (number_param start (Cursor_param (length vs))) = Some v"
      using placed_param [OF 2(4), of "length vs"] by simp
    obtain d where d: "bind pg c v = Some d" using 2(5) False by (auto simp: key_bound_def)
    have "eval_pred pg params r (number_params start (Compare Eq c (Cursor_param (length vs)))) = Some True
        \<longleftrightarrow> r c = bound_cell pg (c, v)"
      using False by (auto simp: param d bound_cell_def compare_def split: option.splits)
    moreover have "key_bound pg ks" using 2(5) by (simp add: key_bound_def)
    ultimately show ?thesis using 2(2) [OF False] rest 2(4) by (simp add: ps)
  qed
qed (simp add: key_bound_def)

fun follows :: "'d::linorder pg \<Rightarrow> bool \<Rightarrow> 'd row \<Rightarrow> (jstring \<times> js) list \<Rightarrow> bool" where
  "follows pg desc r [] = False"
| "follows pg desc r (k # ks) \<longleftrightarrow>
     order_key desc (bound_cell pg k) < order_key desc (r (fst k)) \<or>
     r (fst k) = bound_cell pg k \<and> follows pg desc r ks"

lemma order_key_inject [simp]: "order_key desc a = order_key desc b \<longleftrightarrow> a = b"
  by (auto simp: order_key_def split: option.splits if_splits)

lemma follows_lexorder:
  "follows pg desc r ks \<longleftrightarrow> cursor_key pg desc ks < row_key (map (\<lambda>k. (fst k, desc)) ks) r"
  by (induction ks) (auto simp: cursor_key_def row_key_def)

lemma after_Null: "\<not> order_key desc None < order_key desc x"
  by (auto simp: order_key_def split: option.splits)

lemma after_Some:
  "order_key desc (Some d) < order_key desc x \<longleftrightarrow>
     x = None \<or> (\<exists>y. x = Some y \<and> compare (if desc then Lt else Gt) y d)"
  by (auto simp: order_key_def compare_def split: option.splits)

lemma keyset_terms_hold:
  assumes "keyset_terms desc before ks vs = (terms, vs')" "placed params start vs'"
    "key_bound pg (before @ ks)"
  shows "Some True \<in> set (map (\<lambda>p. eval_pred pg params r (number_params start p)) terms) \<longleftrightarrow>
    list_all (\<lambda>k. r (fst k) = bound_cell pg k) before \<and> follows pg desc r ks"
  using assms
proof (induction desc before ks vs arbitrary: terms rule: keyset_terms.induct)
  case (2 desc before c v ks vs)
  obtain ps vs1 where prefix: "keyset_prefix before vs = (ps, vs1)" by force
  have bound: "key_bound pg before" "key_bound pg ((before @ [(c, v)]) @ ks)"
    using "2.prems"(3) by (simp_all add: key_bound_def)
  show ?case
  proof (cases "v = Null")
    case True
    with "2.prems"(1) prefix have rest: "keyset_terms desc (before @ [(c, v)]) ks vs1 = (terms, vs')" by simp
    from "2.IH"(1) [OF prefix [symmetric] refl True rest "2.prems"(2) bound(2)] show ?thesis
      using after_Null [of desc "r c"] True by (auto simp: bound_cell_def)
  next
    case False
    define comparison where
      "comparison = Any_of [Compare (if desc then Lt else Gt) c (Cursor_param (length vs1)), Is_null c]"
    obtain ts where rest: "keyset_terms desc (before @ [(c, v)]) ks (vs1 @ [v]) = (ts, vs')"
      and terms: "terms = (if ps \<noteq> [] then All_of (ps @ [comparison]) else comparison) # ts"
      using "2.prems"(1) False prefix by (auto simp: split_beta Let_def comparison_def)
    obtain us where us: "vs' = (vs1 @ [v]) @ us"
      using keyset_terms_values [of desc "before @ [(c, v)]" ks "vs1 @ [v]"] rest by auto
    then have "placed params start vs1" using "2.prems"(2) placed_append by (metis append_assoc)
    note prefix_holds = keyset_prefix_holds [OF prefix this bound(1), of r]
    have param: "param_value params (number_param start (Cursor_param (length vs1))) = Some v"
      using placed_param [OF "2.prems"(2), of "length vs1"] us by (simp add: nth_append)
    obtain d where d: "bind pg c v = Some d" using False bound(2) by (auto simp: key_bound_def)
    have "eval_pred pg params r (number_params start comparison) = Some True \<longleftrightarrow>
        order_key desc (bound_cell pg (c, v)) < order_key desc (r c)"
      using False
      by (auto simp: comparison_def param d bound_cell_def after_Some sql_or_True split: option.splits)
    then have "eval_pred pg params r (number_params start (hd terms)) = Some True \<longleftrightarrow>
        list_all (\<lambda>k. r (fst k) = bound_cell pg k) before \<and>
        order_key desc (bound_cell pg (c, v)) < order_key desc (r c)"
      using prefix_holds by (auto simp: terms sql_and_True)
    moreover note "2.IH"(2) [OF prefix [symmetric] refl False refl rest "2.prems"(2) bound(2)]
    ultimately show ?thesis by (auto simp: terms)
  qed
qed simp

lemma keyset_condition_lexorder:
  assumes "build_keyset_condition keys desc = (condition, values)" "placed params start values"
    "key_bound pg keys"
  shows "eval_pred pg params r (number_params start condition) = Some True \<longleftrightarrow>
    cursor_key pg desc keys < row_key (map (\<lambda>k. (fst k, desc)) keys) r"
proof -
  obtain terms where terms: "keyset_terms desc [] keys [] = (terms, values)" "condition = Any_of terms"
    using assms(1) by (cases "keyset_terms desc [] keys []") (auto simp: build_keyset_condition_def)
  have "eval_pred pg params r (number_params start condition) = Some True \<longleftrightarrow> follows pg desc r keys"
    using keyset_terms_hold [OF terms(1) assms(2), of pg r] assms(3)
    by (simp add: terms(2) sql_or_True image_image comp_def)
  then show ?thesis by (simp add: follows_lexorder)
qed

text \<open>
  C23. The keyset condition is equivalent to the order of the statement: with its values among the
  parameters, it is true of a row exactly when the row comes after the key of the cursor in the order
  of the sort column and the pagination key, ascending or descending, nulls last, whatever mixture of
  null and other values the key has.
\<close>

theorem keyset_condition_is_order:
  assumes "build_keyset_condition keys desc = (condition, values)" "placed params start values"
    "key_bound pg keys"
  shows "eval_pred pg params r (number_params start condition) = Some True \<longleftrightarrow>
    cursor_key pg desc keys < row_key (map (\<lambda>k. (fst k, desc)) keys) r"
  using keyset_condition_lexorder [OF assms] .

end
