(* ===== verification/CursorProps.thy ===== *)
theory CursorProps
  imports CursorCodec
begin

text \<open>
  What the codec of the database explorer guarantees: the estimate of a row reference is the exact
  size of its JSON text, a row reference is left out exactly when that text is too long or a claim
  has no encoding, sealed values are read back, and what is read back is bound to its context.
\<close>

section \<open>The estimate\<close>

text \<open>A claim as it is printed.\<close>

lemma within_Some_iff: "within n m = Some k \<longleftrightarrow> n = k \<and> n \<le> m"
  by (auto simp: within_def)

lemma within_None_iff: "within n m = None \<longleftrightarrow> m < n"
  by (auto simp: within_def)

lemma byte_length_json_string_ge: "2 \<le> byte_length (json_string s)"
  using utf8_json_string [of s] json_bytes_nonneg [of s] by linarith

text \<open>The object loop adds, for each property, the separator, the key, the colon and the value.\<close>

fun object_size :: "bool \<Rightarrow> (jstring \<times> int) list \<Rightarrow> int" where
  "object_size first [] = 0"
| "object_size first ((k, n) # ps) =
     (if first then 0 else 1) + int (byte_length (json_string k)) + 1 + n + object_size False ps"

lemma object_size_nonneg: "list_all (\<lambda>p. 0 \<le> snd p) ps \<Longrightarrow> 0 \<le> object_size first ps"
  by (induction ps arbitrary: first) auto

lemma json_object_loop_exact:
  assumes "bytes \<le> maximum" "list_all (\<lambda>p. 0 \<le> snd p) ps"
  shows "json_object_loop first ps bytes maximum = within (bytes + object_size first ps) maximum"
  using assms
proof (induction first ps bytes maximum rule: json_object_loop.induct)
  case (2 first k n ps bytes maximum)
  then show ?case
    using object_size_nonneg [of ps False] byte_length_json_string_ge [of k]
    by (auto simp: Let_def json_string_byte_length_exact within_def split: if_splits)
qed (simp add: within_def)

fun claims_size :: "(js \<Rightarrow> int) \<Rightarrow> bool \<Rightarrow> (jstring \<times> js) list \<Rightarrow> int" where
  "claims_size sz first [] = 0"
| "claims_size sz first ((k, v) # ks) =
     (if first then 0 else 1) + int (byte_length (json_string k)) + 1 + sz v + claims_size sz False ks"

definition sealed_claim :: "codec_env \<Rightarrow> js \<Rightarrow> js" where
  "sealed_claim env v = (case seal_claim env v of Some w \<Rightarrow> w | None \<Rightarrow> Null)"

definition claim_size :: "codec_env \<Rightarrow> js \<Rightarrow> int" where
  "claim_size env v = int (byte_length (json_text (sealed_claim env v)))"

lemma printable_json_unit:
  assumes "c \<le> 0x7F" "c \<noteq> 0x22" "c \<noteq> 0x5C" "0x1F < c"
  shows "json_unit c = [c]" and "\<not> high_surrogate c"
proof -
  have "unat c \<le> 0x7F" "0x1F < unat c" using assms(1,4) by (simp_all add: word_le_nat_alt word_less_nat_alt)
  then have "c \<noteq> 0x08" "c \<noteq> 0x09" "c \<noteq> 0x0A" "c \<noteq> 0x0C" "c \<noteq> 0x0D" "\<not> c \<le> 0x1F" "\<not> low_surrogate c"
      "\<not> high_surrogate c"
    by (auto simp: low_surrogate_def high_surrogate_def word_le_nat_alt)
  then show "json_unit c = [c]" "\<not> high_surrogate c" using assms(2,3) by (simp_all add: json_unit_def)
qed

lemma base64_json: "json_chars (base64 b) = base64 b"
proof -
  have "json_chars s = s" if "\<forall>c\<in>set s. c \<le> 0x7F \<and> c \<noteq> 0x22 \<and> c \<noteq> 0x5C \<and> 0x1F < c" for s
    using that by (induction s rule: json_chars.induct) (simp_all add: printable_json_unit)
  then show ?thesis using base64_chars by blast
qed

lemma byte_length_base64: "byte_length (json_string (base64 b)) = 2 + (length b + 2) div 3 * 4"
proof -
  have "utf8 (json_string (base64 b)) = 0x22 # utf8 (base64 b) @ [0x22]"
    by (simp add: json_string_def base64_json utf8_Cons utf8_append)
  moreover have "length (utf8 (base64 b)) = length (base64 b)"
    by (rule length_utf8_ascii) (use base64_chars in blast)
  ultimately show ?thesis by (simp add: byte_length_def length_base64)
qed

lemma byte_length_tagged:
  "byte_length (json_text (Obj [(tag, Str s)])) =
     2 + byte_length (json_string tag) + 1 + byte_length (json_string s)"
  by (simp add: byte_length_simps byte_length_append)

lemma claim_estimate_exact:
  "row_ref_claim v \<Longrightarrow> json_value_byte_length env v maximum = within (claim_size env v) maximum"
  by (cases v)
     (auto simp: json_value_byte_length_def claim_size_def sealed_claim_def seal_claim_def
        row_ref_claim_def row_ref_scalar_def json_string_byte_length_exact byte_length_tagged
        byte_length_base64 byte_length_simps within_def Let_def
        simp del: json_text.simps(6))

lemma claim_estimate_none: "\<not> row_ref_claim v \<Longrightarrow> json_value_byte_length env v maximum = None"
  by (cases v) (auto simp: json_value_byte_length_def row_ref_claim_def row_ref_scalar_def)

lemma claims_size_nonneg: "0 \<le> claims_size (claim_size env) first ks"
  by (induction ks arbitrary: first) (auto simp: claim_size_def)

text \<open>
  The loop over the keys asks for two bytes beyond a claim and adds one, so it may refuse a keys
  object that fills the budget to the last byte; with the other members the object is too long then.
\<close>

lemma row_ref_keys_loop_exact:
  assumes "bytes \<le> row_ref_budget"
  shows "row_ref_keys_loop env first ks bytes =
      (if list_all row_ref_claim (map snd ks)
       then within (bytes + claims_size (claim_size env) first ks) row_ref_budget else None) \<or>
    row_ref_keys_loop env first ks bytes = None \<and>
      row_ref_budget \<le> bytes + claims_size (claim_size env) first ks"
  using assms
proof (induction env first ks bytes rule: row_ref_keys_loop.induct)
  case (2 env first k v ks bytes)
  define sep key where "sep = (if first then 0 else 1 :: int)" and "key = int (byte_length (json_string k))"
  have nn: "0 \<le> claims_size (claim_size env) False ks" "0 \<le> claim_size env v" "2 \<le> key"
    using byte_length_json_string_ge [of k] by (simp_all add: claims_size_nonneg claim_size_def key_def)
  show ?case
  proof (cases "row_ref_claim v")
    case False
    then show ?thesis by (auto simp: Let_def claim_estimate_none split: option.splits)
  next
    case True
    note step = "2.IH" [OF refl, of key "claim_size env v", folded sep_def] and b = "2.prems"
    have loop: "row_ref_keys_loop env first ((k, v) # ks) bytes =
        (if key \<le> row_ref_budget - bytes - sep - 2 \<and> claim_size env v \<le> row_ref_budget - bytes - sep - key - 2
         then row_ref_keys_loop env False ks (bytes + (sep + key + 1 + claim_size env v)) else None)"
      using True nn
      by (simp add: Let_def json_string_byte_length_exact claim_estimate_exact within_def sep_def [symmetric]
            key_def [symmetric])
    show ?thesis
    proof (cases "claim_size env v \<le> row_ref_budget - bytes - sep - key - 2")
      case fit: True
      then have "key \<le> row_ref_budget - bytes - sep - 2" using nn by linarith
      with fit step b True nn show ?thesis
        by (auto simp: loop json_string_byte_length_exact claim_estimate_exact within_def key_def [symmetric]
              sep_def [symmetric] algebra_simps split: if_splits)
    next
      case False
      with nn b True show ?thesis
        by (auto simp: loop within_def key_def [symmetric] sep_def [symmetric] simp del: row_ref_keys_loop.simps)
    qed
  qed
qed (simp add: within_def)

text \<open>The text of a row reference, member by member.\<close>

definition row_ref_bytes :: "codec_env \<Rightarrow> row_ref \<Rightarrow> int" where
  "row_ref_bytes env r =
     int (byte_length (json_text (plain (iso_string env)
       (row_ref_js (r\<lparr>ref_keys := map (\<lambda>(k, v). (k, sealed_claim env v)) (ref_keys r)\<rparr>)))))"

lemma map_claims_total:
  "(\<And>v. v \<in> snd ` set ks \<Longrightarrow> f v = Some (g v)) \<Longrightarrow> map_claims f ks = Some (map (\<lambda>(k, v). (k, g v)) ks)"
proof (induction ks)
  case (Cons p ks)
  then show ?case by (cases p) simp
qed simp

lemma seal_claim_total: "row_ref_claim v \<Longrightarrow> seal_claim env v = Some (sealed_claim env v)"
  by (cases v) (auto simp: sealed_claim_def seal_claim_def row_ref_claim_def row_ref_scalar_def)

lemma row_ref_payload_total:
  "list_all row_ref_claim (map snd (ref_keys r)) \<Longrightarrow>
   row_ref_payload env r =
     Some (row_ref_js (r\<lparr>ref_keys := map (\<lambda>(k, v). (k, sealed_claim env v)) (ref_keys r)\<rparr>))"
proof -
  assume "list_all row_ref_claim (map snd (ref_keys r))"
  then have "map_claims (seal_claim env) (ref_keys r) = Some (map (\<lambda>(k, v). (k, sealed_claim env v)) (ref_keys r))"
    by (intro map_claims_total seal_claim_total) (auto simp: list_all_iff)
  then show ?thesis by (simp add: row_ref_payload_def)
qed

lemma plain_sealed: "row_ref_claim v \<Longrightarrow> plain f (sealed_claim env v) = sealed_claim env v"
  by (cases v) (auto simp: sealed_claim_def seal_claim_def row_ref_claim_def row_ref_scalar_def)

lemma sealed_defined: "row_ref_claim v \<Longrightarrow> sealed_claim env v \<noteq> Undefined"
  by (cases v) (auto simp: sealed_claim_def seal_claim_def row_ref_claim_def row_ref_scalar_def)

lemma plain_sealed_keys:
  "list_all row_ref_claim (map snd ks) \<Longrightarrow>
   plain f (Obj (map (\<lambda>(k, v). (k, sealed_claim env v)) ks)) = Obj (map (\<lambda>(k, v). (k, sealed_claim env v)) ks)"
  by (induction ks) (auto simp: plain_sealed sealed_defined)

fun object_text_size :: "bool \<Rightarrow> (jstring \<times> js) list \<Rightarrow> nat" where
  "object_text_size first [] = 0"
| "object_text_size first ((k, v) # m) =
     (if first then 0 else 1) + byte_length (json_string k) + 1 + byte_length (json_text v)
     + object_text_size False m"

lemma byte_length_commas:
  "byte_length (commas (map (\<lambda>(k, v). json_string k @ 0x3A # json_text v) m)) = object_text_size True m"
proof (induction m rule: induct_list012)
  case (3 p q m)
  then show ?case by (cases p; cases q) (simp add: byte_length_append byte_length_simps)
qed (auto simp: byte_length_append byte_length_simps)

lemma byte_length_object: "byte_length (json_text (Obj m)) = 2 + object_text_size True m"
  by (simp add: byte_length_simps byte_length_append byte_length_commas)

lemma object_text_size_claims:
  "int (object_text_size first (map (\<lambda>(k, v). (k, sealed_claim env v)) ks)) = claims_size (claim_size env) first ks"
  by (induction ks arbitrary: first) (auto simp: claim_size_def)

lemma row_ref_bytes_sum:
  assumes "list_all row_ref_claim (map snd (ref_keys r))"
  defines "len \<equiv> \<lambda>s. int (byte_length (json_string s))" and "c \<equiv> ref_context r"
  shows "row_ref_bytes env r =
     2 + object_size True
       [(u ''version'', 1), (u ''targetId'', len (tc_target c)), (u ''schema'', len (tc_schema c)),
        (u ''relation'', len (tc_relation c)), (u ''checksum'', len (tc_checksum c)),
        (u ''issuedAt'', int (byte_length (json_text (Num (ref_issued r))))),
        (u ''expiresAt'', int (byte_length (json_text (Num (ref_expires r))))),
        (u ''keys'', 2 + claims_size (claim_size env) True (ref_keys r))]"
proof -
  have one: "byte_length (json_text (Num 1)) = 1"
    by (simp add: string_of_int_def string_of_nat.simps byte_length_simps)
  have keys: "map (\<lambda>(k, v). (k, plain f v)) (filter (\<lambda>(k, v). v \<noteq> Undefined)
        (map (\<lambda>(k, v). (k, sealed_claim env v)) (ref_keys r))) =
      map (\<lambda>(k, v). (k, sealed_claim env v)) (ref_keys r)" for f
    using plain_sealed_keys [OF assms(1), of f] by simp
  show ?thesis
    unfolding row_ref_bytes_def row_ref_js_def context_fields_def c_def len_def
    by (simp add: keys one byte_length_object object_text_size_claims [symmetric]
          del: json_text.simps plain.simps(5) u_simps string_of_int_def
          add: plain.simps(5) json_text.simps(4))
qed

lemma byte_length_ascii: "\<forall>c\<in>set s. c \<le> 0x7F \<Longrightarrow> byte_length s = length s"
  by (simp add: byte_length_def length_utf8_ascii)

lemma token_overhead_value [simp]: "token_overhead Row_ref_token = 51" "token_overhead Cursor_token = 50"
  by (simp_all add: token_overhead_def envelope_version_def kind_name_def byte_length_ascii word_le_nat_alt)

lemma row_ref_budget_value: "row_ref_budget = 3017"
  by (simp add: row_ref_budget_def max_cursor_bytes_def)

lemma number_estimate:
  "json_value_byte_length env (Num n) maximum = within (int (byte_length (json_text (Num n)))) maximum"
  by (simp add: json_value_byte_length_def)

text \<open>A member that alone exceeds the budget is counted as one byte more than the budget.\<close>

lemma or_oversize_within: "or_oversize (within n 3017) = (if n \<le> 3017 then n else 3018)"
  by (simp add: or_oversize_def within_def row_ref_budget_value)

lemma capped_sum:
  fixes k x1 x2 x3 x4 x5 x6 :: int
  assumes "0 \<le> k" "0 \<le> x1" "0 \<le> x2" "0 \<le> x3" "0 \<le> x4" "0 \<le> x5" "0 \<le> x6"
  defines "cap \<equiv> \<lambda>n. or_oversize (within n 3017)"
  shows "within (k + cap x1 + cap x2 + cap x3 + cap x4 + cap x5 + cap x6) 3017 =
    within (k + x1 + x2 + x3 + x4 + x5 + x6) 3017"
proof (cases "x1 \<le> 3017 \<and> x2 \<le> 3017 \<and> x3 \<le> 3017 \<and> x4 \<le> 3017 \<and> x5 \<le> 3017 \<and> x6 \<le> 3017")
  case True
  then show ?thesis by (simp add: cap_def or_oversize_within)
next
  case False
  have nonneg: "0 \<le> cap x" if "0 \<le> x" for x
    using that by (simp add: cap_def or_oversize_within)
  note caps = nonneg [OF assms(2)] nonneg [OF assms(3)] nonneg [OF assms(4)] nonneg [OF assms(5)]
    nonneg [OF assms(6)] nonneg [OF assms(7)]
  from False have "3017 < x1 \<or> 3017 < x2 \<or> 3017 < x3 \<or> 3017 < x4 \<or> 3017 < x5 \<or> 3017 < x6"
    by (simp add: not_le)
  then have "3017 < k + x1 + x2 + x3 + x4 + x5 + x6 \<and>
      3017 < k + cap x1 + cap x2 + cap x3 + cap x4 + cap x5 + cap x6"
  proof -
    have over: "3017 < x \<Longrightarrow> cap x = 3018" for x by (simp add: cap_def or_oversize_within)
    assume "3017 < x1 \<or> 3017 < x2 \<or> 3017 < x3 \<or> 3017 < x4 \<or> 3017 < x5 \<or> 3017 < x6"
    then show ?thesis using assms(1-7) caps
      by (elim disjE) (frule over, linarith)+
  qed
  then show ?thesis by (simp add: within_def)
qed

lemma estimate_row_ref_exact:
  "estimate_row_ref env r =
     (if list_all row_ref_claim (map snd (ref_keys r)) then within (row_ref_bytes env r) 3017 else None)"
proof (cases "row_ref_keys_loop env True (ref_keys r) 2")
  case None
  moreover have "3017 < row_ref_bytes env r" if "list_all row_ref_claim (map snd (ref_keys r))"
    using row_ref_keys_loop_exact [of 2 env True "ref_keys r"] None that
    by (auto simp: row_ref_bytes_sum row_ref_budget_value within_def split: if_splits)
  ultimately show ?thesis by (auto simp: estimate_row_ref_def within_def)
next
  case (Some n)
  then have claims: "list_all row_ref_claim (map snd (ref_keys r))"
    and n: "n = 2 + claims_size (claim_size env) True (ref_keys r)"
    using row_ref_keys_loop_exact [of 2 env True "ref_keys r"]
    by (auto simp: row_ref_budget_value within_def split: if_splits)
  have nn: "0 \<le> claims_size (claim_size env) True (ref_keys r)" by (rule claims_size_nonneg)
  define c where "c = ref_context r"
  define members where "members t s q h i e =
    [(u ''version'', 1), (u ''targetId'', t), (u ''schema'', s), (u ''relation'', q), (u ''checksum'', h),
     (u ''issuedAt'', i), (u ''expiresAt'', e), (u ''keys'', n)]" for t s q h i e
  define k where "k = 2 + object_size True (members 0 0 0 0 0 0)"
  have k: "0 \<le> k" using nn n by (simp add: k_def members_def)
  have split: "2 + object_size True (members t s q h i e) = k + t + s + q + h + i + e" for t s q h i e
    by (simp add: k_def members_def del: u_simps)
  let ?cap = "\<lambda>x. or_oversize (within x 3017)" and ?len = "\<lambda>x. int (byte_length (json_string x))"
    and ?num = "\<lambda>x. int (byte_length (json_text (Num x)))"
  have cap: "0 \<le> ?cap x" if "0 \<le> x" for x using that by (simp add: or_oversize_within)
  have "estimate_row_ref env r = json_object_byte_length (members (?cap (?len (tc_target c)))
      (?cap (?len (tc_schema c))) (?cap (?len (tc_relation c))) (?cap (?len (tc_checksum c)))
      (?cap (?num (ref_issued r))) (?cap (?num (ref_expires r)))) 3017"
    unfolding estimate_row_ref_def Some option.case Let_def members_def c_def json_string_byte_length_exact
      row_ref_budget_value number_estimate ..
  also have "\<dots> = within (2 + object_size True (members (?cap (?len (tc_target c)))
      (?cap (?len (tc_schema c))) (?cap (?len (tc_relation c))) (?cap (?len (tc_checksum c)))
      (?cap (?num (ref_issued r))) (?cap (?num (ref_expires r))))) 3017"
    unfolding json_object_byte_length_def
    by (rule json_object_loop_exact) (use nn n cap in \<open>simp_all add: members_def del: json_text.simps\<close>)
  also have "\<dots> = within (row_ref_bytes env r) 3017"
    unfolding row_ref_bytes_sum [OF claims] n [symmetric] c_def [symmetric] members_def [symmetric] split
    by (rule capped_sum) (use k in simp_all)
  finally show ?thesis using claims by simp
qed

text \<open>
  The preflight of a row reference is exact. When every claim is a scalar, a buffer or a valid
  date, the estimate is the number of UTF-8 bytes of the JSON text that would be sealed, if that is
  within the budget of 3017 bytes, and null otherwise; with any other claim it is null.
\<close>

theorem row_ref_estimate_exact:
  "estimate_row_ref env r =
     (if list_all row_ref_claim (map snd (ref_keys r)) then within (row_ref_bytes env r) 3017 else None)"
  by (rule estimate_row_ref_exact)

section \<open>Tokens\<close>

text \<open>What is documented of AES-GCM: the lengths of its outputs, and that opening undoes sealing.\<close>

definition gcm_ok :: "codec_env \<Rightarrow> bool" where
  "gcm_ok env \<longleftrightarrow>
     (\<forall>k n a p. length (fst (gcm_seal env k n a p)) = length p \<and> length (snd (gcm_seal env k n a p)) = 16 \<and>
        gcm_open env k n a (fst (gcm_seal env k n a p)) (snd (gcm_seal env k n a p)) = Some p)"

lemma token_ascii: "c \<in> set (token_of kind n ct t) \<Longrightarrow> c \<le> 0x7F"
  using base64url_chars
  by (cases kind) (auto simp: token_of_def envelope_version_def kind_name_def word_le_nat_alt)

lemma byte_length_token:
  "byte_length (token_of kind n ct t) = length envelope_version + length (kind_name kind) + 4
     + base64_text_bytes (length n) + base64_text_bytes (length ct) + base64_text_bytes (length t)"
  using byte_length_ascii [of "token_of kind n ct t"] token_ascii
  by (simp add: token_of_def length_base64url base64_text_bytes_def)

lemma split_token:
  "split_units 0x2E (token_of kind n ct t) =
     [envelope_version, kind_name kind, base64url n, base64url ct, base64url t]"
proof -
  have "0x2E \<notin> set envelope_version" "0x2E \<notin> set (kind_name kind)"
    by (cases kind; simp add: envelope_version_def kind_name_def)+
  moreover have "0x2E \<notin> set (base64url b)" for b using base64url_chars by blast
  ultimately show ?thesis by (simp add: token_of_def)
qed

lemma overhead_token:
  "length n = 12 \<Longrightarrow> length t = 16 \<Longrightarrow>
     byte_length (token_of kind n ct t) = token_overhead kind + base64_text_bytes (length ct)"
  by (cases kind) (simp_all add: byte_length_token base64_text_bytes_def envelope_version_def kind_name_def)

text \<open>With these lengths the preflight of \<open>seal\<close> decides: the later check never fails.\<close>

lemma seal_result:
  assumes "gcm_ok env" "length nonce = 12" "valid_context c" "encryption_key env key kind = Some k"
    and plaintext: "plaintext = utf8 (json_text (plain (iso_string env) v))"
  shows "seal env kind c (Some v) key nonce null_on_oversize =
    (if token_overhead kind + base64_text_bytes (length plaintext) > max_cursor_bytes
     then (if null_on_oversize then Inr None else Inl DATABASE_CURSOR_INVALID)
     else Inr (Some (token_of kind nonce (fst (gcm_seal env k nonce (context_aad kind c) plaintext))
                       (snd (gcm_seal env k nonce (context_aad kind c) plaintext)))))"
  using assms by (simp add: seal_def gcm_ok_def overhead_token Let_def split_beta)

lemma open_sealed:
  assumes "gcm_ok env" "length nonce = 12" "valid_context c" "encryption_key env key kind = Some k"
    "plaintext \<noteq> []" "token_overhead kind + base64_text_bytes (length plaintext) \<le> max_cursor_bytes"
    "parse_json env plaintext = Some v"
  shows "open_token env kind c key (token_of kind nonce (fst (gcm_seal env k nonce (context_aad kind c) plaintext))
                       (snd (gcm_seal env k nonce (context_aad kind c) plaintext))) = Inr v"
proof -
  obtain ct t where sealed: "gcm_seal env k nonce (context_aad kind c) plaintext = (ct, t)" by force
  with assms(1) have facts: "length ct = length plaintext" "length t = 16"
      "gcm_open env k nonce (context_aad kind c) ct t = Some plaintext"
    unfolding gcm_ok_def by (metis fst_conv snd_conv)+
  then have ne: "ct \<noteq> []" "t \<noteq> []" "nonce \<noteq> []" using assms by auto
  have "token_of kind nonce ct t \<noteq> []" by (simp add: token_of_def envelope_version_def)
  moreover have "byte_length (token_of kind nonce ct t) \<le> max_cursor_bytes"
    using assms facts by (simp add: overhead_token)
  ultimately show ?thesis
    using assms facts ne by (simp add: sealed open_token_def split_token)
qed

lemma encryption_key_valid: "valid_cursor_key key \<Longrightarrow> \<exists>k. encryption_key env key kind = Some k"
  by (simp add: encryption_key_def)

lemma row_ref_token_iff:
  assumes "gcm_ok env" "length nonce = 12" "valid_cursor_key key" "read_row_ref_shape (row_ref_js r) \<noteq> None"
  shows "(encode_row_ref_within_limit env r key nonce = Inr None \<longleftrightarrow>
            \<not> (list_all row_ref_claim (map snd (ref_keys r)) \<and> row_ref_bytes env r \<le> 3017)) \<and>
    (list_all row_ref_claim (map snd (ref_keys r)) \<and> row_ref_bytes env r \<le> 3017 \<longrightarrow>
       (\<exists>token. encode_row_ref_within_limit env r key nonce = Inr (Some token) \<and> byte_length token \<le> 4096))"
proof (cases "list_all row_ref_claim (map snd (ref_keys r)) \<and> row_ref_bytes env r \<le> 3017")
  case False
  then have "estimate_row_ref env r = None" by (auto simp: estimate_row_ref_exact within_def)
  with assms False show ?thesis by (simp add: encode_row_ref_within_limit_def)
next
  case True
  define v where "v = row_ref_js (r\<lparr>ref_keys := map (\<lambda>(k, v). (k, sealed_claim env v)) (ref_keys r)\<rparr>)"
  define n where "n = length (utf8 (json_text (plain (iso_string env) v)))"
  from True have "n \<le> 3017" by (simp add: row_ref_bytes_def byte_length_def v_def n_def)
  then have small: "token_overhead Row_ref_token + base64_text_bytes n \<le> max_cursor_bytes"
    by (auto simp: base64_text_bytes_def max_cursor_bytes_def)
  have ctx: "valid_context (ref_context r)"
    using assms(4) by (auto simp: valid_context_def read_row_ref_shape_def row_ref_js_def context_fields_def
        read_context_def field_def split: option.splits)
  obtain k where k: "encryption_key env key Row_ref_token = Some k"
    using encryption_key_valid [OF assms(3)] by blast
  have "seal env Row_ref_token (ref_context r) (row_ref_payload env r) key nonce True =
      Inr (Some (token_of Row_ref_token nonce
        (fst (gcm_seal env k nonce (context_aad Row_ref_token (ref_context r)) (utf8 (json_text (plain (iso_string env) v)))))
        (snd (gcm_seal env k nonce (context_aad Row_ref_token (ref_context r)) (utf8 (json_text (plain (iso_string env) v)))))))"
    using True small
    by (simp add: row_ref_payload_total v_def [symmetric] seal_result [OF assms(1,2) ctx k refl] n_def [symmetric])
  moreover have "estimate_row_ref env r \<noteq> None" using True by (simp add: estimate_row_ref_exact within_def)
  ultimately show ?thesis
    using assms True small overhead_token [OF assms(2)]
    by (auto simp: encode_row_ref_within_limit_def gcm_ok_def n_def max_cursor_bytes_def)
qed

text \<open>
  A row keeps no reference exactly when a claim has no encoding or the JSON text is longer than
  3017 bytes; otherwise it gets a token, which is never longer than 4096 bytes.
\<close>

theorem row_ref_omitted_iff:
  assumes "gcm_ok env" "length nonce = 12" "valid_cursor_key key" "read_row_ref_shape (row_ref_js r) \<noteq> None"
  shows "(encode_row_ref_within_limit env r key nonce = Inr None \<longleftrightarrow>
            \<not> (list_all row_ref_claim (map snd (ref_keys r)) \<and> row_ref_bytes env r \<le> 3017)) \<and>
    (list_all row_ref_claim (map snd (ref_keys r)) \<and> row_ref_bytes env r \<le> 3017 \<longrightarrow>
       (\<exists>token. encode_row_ref_within_limit env r key nonce = Inr (Some token) \<and> byte_length token \<le> 4096))"
  using row_ref_token_iff [OF assms] .

section \<open>Reading back\<close>

text \<open>What validation asks of a cursor that has the right shape.\<close>

definition cursor_ok :: "cursor \<Rightarrow> bool" where
  "cursor_ok c \<longleftrightarrow>
     valid_context (cur_context c) \<and> valid_times (cur_issued c) (cur_expires c) \<and>
     (case cur_sort c of None \<Rightarrow> True | Some (col, _) \<Rightarrow> col \<noteq> []) \<and>
     (case cur_position c of
        Offset n \<Rightarrow> is_safe_integer n \<and> 0 \<le> n
      | Keyset ks \<Rightarrow> ks \<noteq> [] \<and> [] \<notin> set (map fst ks) \<and> distinct (map fst ks))"

lemma nonempty_string_Str [simp]: "nonempty_string (Some (Str s)) = (if s = [] then None else Some s)"
  by (cases s) (simp_all add: nonempty_string_def)

lemma read_context_fields:
  "valid_context c \<Longrightarrow> read_context (context_fields c) = Some c"
  by (cases c) (auto simp: valid_context_def read_context_def context_fields_def field_def split: if_splits)

lemma read_keys_js:
  "read_keys seen (map key_js ks) =
     (if [] \<notin> set (map fst ks) \<and> distinct (map fst ks) \<and> set (map fst ks) \<inter> set seen = {} then Some ks else None)"
  by (induction ks arbitrary: seen) (auto simp: key_js_def field_def)

lemma read_sort_js: "read_sort (Some (sort_js s)) = (case s of Some ([], _) \<Rightarrow> None | _ \<Rightarrow> Some s)"
  by (auto simp: read_sort_def sort_js_def field_def split: option.splits list.splits prod.splits)

lemma read_cursor_js: "read_cursor (cursor_js c) = (if cursor_ok c then Some c else None)"
proof -
  obtain m where m: "cursor_js c = Obj m" by (simp add: cursor_js_def)
  have ctx: "read_context m = read_context (context_fields (cur_context c))"
    using m by (auto simp: cursor_js_def read_context_def context_fields_def field_def)
  have times: "read_times m = (if valid_times (cur_issued c) (cur_expires c)
      then Some (cur_issued c, cur_expires c) else None)"
    using m by (auto simp: cursor_js_def read_times_def context_fields_def field_def safe_integer_def valid_times_def)
  have sort: "field m ''sort'' = Some (sort_js (cur_sort c))" "field m ''version'' = Some (Num 1)"
      "field m ''nullOrder'' = Some (Str (u ''last''))"
    using m by (auto simp: cursor_js_def context_fields_def field_def split: cursor_position.splits)
  have pos: "read_position m = (case cur_position c of
        Offset n \<Rightarrow> if is_safe_integer n \<and> 0 \<le> n then Some (Offset n) else None
      | Keyset ks \<Rightarrow> if ks \<noteq> [] \<and> [] \<notin> set (map fst ks) \<and> distinct (map fst ks) then Some (Keyset ks) else None)"
  proof (cases "cur_position c")
    case (Keyset ks)
    then show ?thesis using m read_keys_js [of "[]" ks]
      by (cases ks) (auto simp: cursor_js_def read_position_def context_fields_def field_def, force)
  next
    case (Offset n)
    then show ?thesis using m
      by (auto simp: cursor_js_def read_position_def context_fields_def field_def safe_integer_def)
  qed
  show ?thesis
    unfolding read_cursor_def m
    using read_context_fields [of "cur_context c"]
    by (cases c) (auto simp: ctx times sort pos read_sort_js cursor_ok_def valid_context_def
        split: option.splits cursor_position.splits list.splits prod.splits)
qed

text \<open>The cursor that comes back: its values went through JSON.\<close>

definition plain_cursor :: "(int \<Rightarrow> jstring) \<Rightarrow> cursor \<Rightarrow> cursor" where
  "plain_cursor f c =
     (case cur_position c of
        Keyset ks \<Rightarrow> c\<lparr>cur_position := Keyset (map (\<lambda>(k, v). (k, plain f v)) ks)\<rparr>
      | Offset _ \<Rightarrow> c)"

lemma plain_cursor_js:
  assumes "\<And>ks. cur_position c = Keyset ks \<Longrightarrow> Undefined \<notin> set (map snd ks)"
  shows "plain f (cursor_js c) = cursor_js (plain_cursor f c)"
proof -
  have [simp]: "plain f (sort_js s) = sort_js s" "sort_js s \<noteq> Undefined" for s
    by (auto simp: sort_js_def split: option.splits)
  show ?thesis
    using assms
    by (auto simp: cursor_js_def plain_cursor_def context_fields_def key_js_def split: cursor_position.splits)
       force
qed

lemma cursor_ok_plain [simp]: "cursor_ok (plain_cursor f c) = cursor_ok c"
proof -
  have [simp]: "fst \<circ> (\<lambda>(k, v). (k, plain f v)) = fst" by auto
  show ?thesis by (auto simp: plain_cursor_def cursor_ok_def split: cursor_position.splits)
qed

lemma plain_cursor_simps [simp]:
  "cur_context (plain_cursor f c) = cur_context c" "cur_issued (plain_cursor f c) = cur_issued c"
  "cur_expires (plain_cursor f c) = cur_expires c" "cur_sort (plain_cursor f c) = cur_sort c"
  "cur_position c = Offset n \<Longrightarrow> plain_cursor f c = c"
  "cur_position c = Keyset ks \<Longrightarrow>
     cur_position (plain_cursor f c) = Keyset (map (\<lambda>(k, v). (k, plain f v)) ks)"
  by (simp_all add: plain_cursor_def split: cursor_position.splits)

lemma encode_cursor_token:
  assumes "gcm_ok env" "length nonce = 12" "encode_cursor env c key nonce = Inr token"
  obtains k where "encryption_key env key Cursor_token = Some k" "cursor_ok c"
    "50 + base64_text_bytes (length (utf8 (json_text (plain (iso_string env) (cursor_js c))))) \<le> 4096"
    "token = token_of Cursor_token nonce
       (fst (gcm_seal env k nonce (context_aad Cursor_token (cur_context c))
               (utf8 (json_text (plain (iso_string env) (cursor_js c))))))
       (snd (gcm_seal env k nonce (context_aad Cursor_token (cur_context c))
               (utf8 (json_text (plain (iso_string env) (cursor_js c))))))"
proof -
  have ok: "cursor_ok c" using assms(3) by (auto simp: encode_cursor_def read_cursor_js split: if_splits)
  then have ctx: "valid_context (cur_context c)" by (simp add: cursor_ok_def)
  obtain k where k: "encryption_key env key Cursor_token = Some k"
    using assms(3) by (auto simp: encode_cursor_def seal_def Let_def encryption_key_def split: if_splits)
  show ?thesis
    using that [OF k ok] assms(3)
    by (auto simp: encode_cursor_def seal_result [OF assms(1,2) ctx k refl] max_cursor_bytes_def split: if_splits)
qed

lemma json_text_nonempty_object: "utf8 (json_text (Obj m)) \<noteq> []"
  by (simp add: utf8_Cons)

lemma cursor_js_Obj: "\<exists>m. cursor_js c = Obj m"
  by (simp add: cursor_js_def)

text \<open>
  A cursor that was sealed is read back in its context until it expires, its key values being
  those that JSON keeps (a date comes back as its ISO text). An offset comes back up to 10000, and is
  refused with DATABASE_PAGE_TOO_LARGE beyond.
\<close>

theorem cursor_round_trip:
  assumes "gcm_ok env" "length nonce = 12" "encode_cursor env c key nonce = Inr token"
    and parse: "parse_json env (utf8 (json_text (plain (iso_string env) (cursor_js c)))) =
                  Some (plain (iso_string env) (cursor_js c))"
    and keys: "\<And>ks. cur_position c = Keyset ks \<Longrightarrow> Undefined \<notin> set (map snd ks)"
    and "now < cur_expires c"
  shows "decode_cursor env token key (cur_context c) now =
    (case cur_position c of
       Offset n \<Rightarrow> if n > 10000 then Inl DATABASE_PAGE_TOO_LARGE else Inr c
     | Keyset ks \<Rightarrow> Inr (c\<lparr>cur_position := Keyset (map (\<lambda>(k, v). (k, plain (iso_string env) v)) ks)\<rparr>))"
proof -
  obtain k where k: "encryption_key env key Cursor_token = Some k" "cursor_ok c"
    and size: "50 + base64_text_bytes (length (utf8 (json_text (plain (iso_string env) (cursor_js c))))) \<le> 4096"
    and token: "token = token_of Cursor_token nonce
       (fst (gcm_seal env k nonce (context_aad Cursor_token (cur_context c))
               (utf8 (json_text (plain (iso_string env) (cursor_js c))))))
       (snd (gcm_seal env k nonce (context_aad Cursor_token (cur_context c))
               (utf8 (json_text (plain (iso_string env) (cursor_js c))))))"
    by (rule encode_cursor_token [OF assms(1-3)])
  have plain: "plain (iso_string env) (cursor_js c) = cursor_js (plain_cursor (iso_string env) c)"
    by (rule plain_cursor_js) (rule keys)
  have ctx: "valid_context (cur_context c)" using k by (simp add: cursor_ok_def)
  have "utf8 (json_text (plain (iso_string env) (cursor_js c))) \<noteq> []"
    unfolding plain using cursor_js_Obj json_text_nonempty_object by metis
  then have "open_token env Cursor_token (cur_context c) key token = Inr (plain (iso_string env) (cursor_js c))"
    unfolding token
    by (intro open_sealed [OF assms(1,2) ctx k(1) _ _ parse]) (use size in \<open>simp_all add: max_cursor_bytes_def\<close>)
  moreover have "valid_times (cur_issued c) (cur_expires c)" using k by (simp add: cursor_ok_def)
  ultimately have "decode_cursor env token key (cur_context c) now =
      (case cur_position (plain_cursor (iso_string env) c) of
         Offset n \<Rightarrow> if n > 10000 then Inl DATABASE_PAGE_TOO_LARGE else Inr (plain_cursor (iso_string env) c)
       | Keyset _ \<Rightarrow> Inr (plain_cursor (iso_string env) c))"
    using k assms(6) by (simp add: decode_cursor_def plain read_cursor_js)
  then show ?thesis by (auto simp: plain_cursor_def split: cursor_position.splits)
qed

lemma read_keys_Some:
  "read_keys seen es = Some ks \<Longrightarrow>
     [] \<notin> set (map fst ks) \<and> distinct (map fst ks) \<and> set (map fst ks) \<inter> set seen = {} \<and> (ks = [] \<longleftrightarrow> es = [])"
proof (induction seen es arbitrary: ks rule: read_keys.induct)
  case (2 seen m es)
  from "2.prems" obtain c v rest where r: "nonempty_string (field m ''column'') = Some c"
      "field m ''value'' = Some v" "c \<notin> set seen" "read_keys (c # seen) es = Some rest" "ks = (c, v) # rest"
    by (auto split: option.splits if_splits)
  moreover have "c \<noteq> []"
    using r(1) by (auto simp: nonempty_string_def split: option.splits js.splits list.splits)
  moreover from "2.IH" [OF refl r(1,2,3,4)] have "[] \<notin> set (map fst rest) \<and> distinct (map fst rest) \<and>
      set (map fst rest) \<inter> set (c # seen) = {}" by simp
  ultimately show ?case by auto
qed auto

lemma read_position_Some:
  assumes "read_position m = Some p"
  shows "case p of Offset n \<Rightarrow> 0 \<le> n | Keyset ks \<Rightarrow> ks \<noteq> [] \<and> distinct (map fst ks) \<and> [] \<notin> set (map fst ks)"
  using assms
  by (auto simp: read_position_def split: if_splits option.splits js.splits list.splits dest!: read_keys_Some)

lemma open_token_size: "open_token env kind c key token = Inr v \<Longrightarrow> byte_length token \<le> max_cursor_bytes"
  by (simp add: open_token_def split: if_splits)

text \<open>
  C26. Whatever token is presented, a cursor that is accepted belongs to the target, schema, relation
  and schema version of the request, was made at most five minutes before it expires, has not expired,
  has distinct non-empty key columns, and an offset of at most 10000.
\<close>

theorem accepted_cursor_is_bound:
  assumes "decode_cursor env token key expected now = Inr c"
  shows "cur_context c = expected \<and> now < cur_expires c \<and> cur_expires c - cur_issued c \<le> 5 * 60 * 1000 \<and>
    byte_length token \<le> 4096 \<and>
    (case cur_position c of Offset n \<Rightarrow> 0 \<le> n \<and> n \<le> 10000
     | Keyset ks \<Rightarrow> ks \<noteq> [] \<and> distinct (map fst ks) \<and> [] \<notin> set (map fst ks))"
proof -
  obtain v where v: "open_token env Cursor_token expected key token = Inr v" "read_cursor v = Some c"
      "cur_context c = expected" "now < cur_expires c" "valid_times (cur_issued c) (cur_expires c)"
      "\<And>n. cur_position c = Offset n \<Longrightarrow> n \<le> 10000"
    using assms by (auto simp: decode_cursor_def split: sum.splits option.splits if_splits cursor_position.splits)
  from v(2) obtain m where "read_position m = Some (cur_position c)"
    by (auto simp: read_cursor_def split: js.splits option.splits prod.splits if_splits)
  from read_position_Some [OF this] v open_token_size [OF v(1)] show ?thesis
    by (auto simp: valid_times_def cursor_expiry_ms_def max_cursor_bytes_def split: cursor_position.splits)
qed

definition row_ref_ok :: "row_ref \<Rightarrow> bool" where
  "row_ref_ok r \<longleftrightarrow>
     valid_context (ref_context r) \<and> valid_times (ref_issued r) (ref_expires r) \<and> ref_keys r \<noteq> [] \<and>
     [] \<notin> set (map fst (ref_keys r))"

lemma read_row_ref_js: "read_row_ref_shape (row_ref_js r) = (if row_ref_ok r then Some r else None)"
proof -
  obtain m where m: "row_ref_js r = Obj m" by (simp add: row_ref_js_def)
  have ctx: "read_context m = read_context (context_fields (ref_context r))"
    using m by (auto simp: row_ref_js_def read_context_def context_fields_def field_def)
  have times: "read_times m = (if valid_times (ref_issued r) (ref_expires r)
      then Some (ref_issued r, ref_expires r) else None)"
    using m by (auto simp: row_ref_js_def read_times_def context_fields_def field_def safe_integer_def valid_times_def)
  have rest: "field m ''keys'' = Some (Obj (ref_keys r))" "field m ''version'' = Some (Num 1)"
    using m by (auto simp: row_ref_js_def context_fields_def field_def)
  show ?thesis
    unfolding read_row_ref_shape_def m
    using read_context_fields [of "ref_context r"]
    by (cases r) (auto simp: ctx times rest row_ref_ok_def valid_context_def split: option.splits)
qed

text \<open>The dates of a row reference that the two conversions of \<open>Date\<close> bring back.\<close>

definition dates_ok :: "codec_env \<Rightarrow> (jstring \<times> js) list \<Rightarrow> bool" where
  "dates_ok env ks \<longleftrightarrow> (\<forall>t. Date t \<in> set (map snd ks) \<longrightarrow> parse_iso env (iso_string env t) = Some t)"

lemma revive_sealed:
  assumes "row_ref_claim v" "\<And>t. v = Date t \<Longrightarrow> parse_iso env (iso_string env t) = Some t"
  shows "revive_claim env (sealed_claim env v) = Some v"
proof -
  have "date_tag \<noteq> binary_tag" by (simp add: date_tag_def binary_tag_def)
  with assms show ?thesis
    by (cases v) (auto simp: row_ref_claim_def row_ref_scalar_def sealed_claim_def seal_claim_def revive_claim_def)
qed

text \<open>
  C28. The token of a row reference is read back in its context until it expires, claim by claim:
  scalars, buffers and dates come back as they were. The one exception is a column called \<open>__proto__\<close>, whose
  claim is lost; a reference with no other column is refused.
\<close>

theorem row_ref_round_trip:
  assumes "gcm_ok env" "length nonce = 12"
    and token: "encode_row_ref_within_limit env r key nonce = Inr (Some token)"
    and parse: "\<And>v. row_ref_payload env r = Some v \<Longrightarrow> parse_json env (utf8 (json_text v)) = Some v"
    and dates: "dates_ok env (ref_keys r)" and "now < ref_expires r"
  shows "decode_row_ref env token key (ref_context r) now =
    (if kept_keys (ref_keys r) = [] then Inl DATABASE_CURSOR_INVALID
     else Inr (r\<lparr>ref_keys := kept_keys (ref_keys r)\<rparr>))"
proof -
  from token have ok: "row_ref_ok r" and est: "estimate_row_ref env r \<noteq> None"
    by (auto simp: encode_row_ref_within_limit_def read_row_ref_js split: if_splits)
  then have claims: "list_all row_ref_claim (map snd (ref_keys r))" and size: "row_ref_bytes env r \<le> 3017"
    by (auto simp: estimate_row_ref_exact within_def split: if_splits)
  define sealed where "sealed = r\<lparr>ref_keys := map (\<lambda>(k, v). (k, sealed_claim env v)) (ref_keys r)\<rparr>"
  define p where "p = utf8 (json_text (row_ref_js sealed))"
  have payload: "row_ref_payload env r = Some (row_ref_js sealed)"
    using row_ref_payload_total [OF claims] by (simp add: sealed_def)
  have plain: "plain f (row_ref_js sealed) = row_ref_js sealed" for f
    using plain_sealed_keys [OF claims, of f] by (simp add: sealed_def row_ref_js_def context_fields_def)
  have ctx: "valid_context (ref_context r)" using ok by (simp add: row_ref_ok_def)
  obtain k where k: "encryption_key env key Row_ref_token = Some k"
    using token ok est payload
    by (auto simp: encode_row_ref_within_limit_def read_row_ref_js seal_def Let_def encryption_key_def split: if_splits)
  have "p \<noteq> []" unfolding p_def row_ref_js_def by (rule json_text_nonempty_object)
  moreover have "int (length p) \<le> 3017"
    using size by (simp add: row_ref_bytes_def plain p_def byte_length_def sealed_def [symmetric])
  then have fits: "token_overhead Row_ref_token + base64_text_bytes (length p) \<le> max_cursor_bytes"
    by (auto simp: base64_text_bytes_def max_cursor_bytes_def)
  moreover have "token = token_of Row_ref_token nonce
        (fst (gcm_seal env k nonce (context_aad Row_ref_token (ref_context r)) p))
        (snd (gcm_seal env k nonce (context_aad Row_ref_token (ref_context r)) p))"
    using token ok est fits
    by (simp add: encode_row_ref_within_limit_def read_row_ref_js payload seal_result [OF assms(1,2) ctx k refl]
        plain p_def [symmetric])
  ultimately have opened: "open_token env Row_ref_token (ref_context r) key token = Inr (row_ref_js sealed)"
    using open_sealed [OF assms(1,2) ctx k, of p] parse [OF payload] by (simp add: p_def)
  have "row_ref_ok sealed" using ok by (auto simp: row_ref_ok_def sealed_def image_iff)
  moreover have "map_claims (revive_claim env) (map (\<lambda>(k, v). (k, sealed_claim env v)) (ref_keys r)) = Some (ref_keys r)"
    using claims dates
  proof (induction "ref_keys r" arbitrary: r)
    case (Cons kv ks)
    obtain k v where [simp]: "kv = (k, v)" by force
    from Cons.hyps(2) [symmetric] Cons.prems Cons.hyps(1) [of "r\<lparr>ref_keys := ks\<rparr>"]
    show ?case by (auto simp: revive_sealed dates_ok_def)
  qed simp
  ultimately have "revive_row_ref env (row_ref_js sealed) = Some (r\<lparr>ref_keys := kept_keys (ref_keys r)\<rparr>)"
    by (simp add: revive_row_ref_def read_row_ref_js) (simp add: sealed_def)
  moreover have "list_all row_ref_claim (map snd (kept_keys (ref_keys r)))"
    using claims by (auto simp: kept_keys_def list_all_iff)
  ultimately show ?thesis using opened ok assms(6) by (simp add: decode_row_ref_def row_ref_ok_def)
qed

end
