(* ===== verification/ExplorerRows.thy ===== *)
theory ExplorerRows
  imports ExplorerQuery CursorProps
begin

text \<open>
  Reading a page of rows: apps/sql-worker/src/explorer/valueEncoding.ts, rowReader.ts and
  relatedRowReader.ts, and \<open>maskPiiValue\<close> of packages/security/src/database/columnPolicy.ts.
  \<open>String(value)\<close> and SHA-256 are arguments, and so is what the database does: whether it can be
  reached, the checksum of its live schema, its rows, and whether the statement times out.
\<close>

section \<open>Masking\<close>

definition mask_text :: jstring where
  "mask_text = replicate 6 0x2022"

definition digit_unit :: "16 word \<Rightarrow> bool" where
  "digit_unit c \<longleftrightarrow> 0x30 \<le> c \<and> c \<le> 0x39"

text \<open>\<open>/^[+]?[\d\s-]{7,15}$/\<close>\<close>

definition phone_shaped :: "jstring \<Rightarrow> bool" where
  "phone_shaped s =
     (let body = (case s of c # cs \<Rightarrow> if c = 0x2B then cs else s | [] \<Rightarrow> []) in
      7 \<le> length body \<and> length body \<le> 15 \<and>
      list_all (\<lambda>c. digit_unit c \<or> unit_white c \<or> c = 0x2D) body)"

datatype pii_hint = Hint_email | Hint_phone | No_hint

definition mask_pii_value :: "(js \<Rightarrow> jstring) \<Rightarrow> js \<Rightarrow> pii_hint \<Rightarrow> jstring" where
  "mask_pii_value show_js v hint =
     (if v = Null \<or> v = Undefined then mask_text
      else (let str = trim_units (show_js v) in
        if str = [] then mask_text
        else if hint = Hint_email \<or> 0x40 \<in> set str \<and> 0x20 \<notin> set str
        then (case split_units 0x40 str of
            [c # local_part, d # domain] \<Rightarrow> c # u ''***@'' @ d # domain
          | _ \<Rightarrow> mask_text)
        else if hint = Hint_phone \<or> phone_shaped str
        then (let digits = filter digit_unit str in
              if length digits \<ge> 4 then u ''******'' @ drop (length digits - 4) digits else mask_text)
        else mask_text))"

section \<open>Cells\<close>

record 'd explorer =
  ex_codec :: codec_env
  ex_pg :: "'d pg"
  ex_show :: "js \<Rightarrow> jstring"
  ex_sha256 :: "bytes \<Rightarrow> jstring"

datatype cell =
    Cell_value js | Cell_masked jstring | Cell_blocked | Cell_truncated jstring nat

definition max_cell_bytes :: nat where "max_cell_bytes = 64 * 1024"
definition max_response_bytes :: nat where "max_response_bytes = 2 * 1024 * 1024"

definition hint_of :: "jstring \<Rightarrow> pii_hint" where
  "hint_of column =
     (if units_include (u ''email'') (lower column) then Hint_email
      else if units_include (u ''phone'') (lower column) then Hint_phone else No_hint)"

definition bytes_of :: "(js \<Rightarrow> jstring) \<Rightarrow> js \<Rightarrow> bytes" where
  "bytes_of show_js v =
     (case v of
        Buffer b \<Rightarrow> b
      | Str s \<Rightarrow> if units_start [0x5C, 0x78] s then unhex (drop 2 s) else utf8 (show_js v)
      | _ \<Rightarrow> utf8 (show_js v))"

definition truncate_cell :: "jstring \<Rightarrow> js \<Rightarrow> cell" where
  "truncate_cell s v =
     (if byte_length s > max_cell_bytes then Cell_truncated (take 500 s @ u ''...'') (byte_length s)
      else Cell_value v)"

text \<open>None is the \<open>RangeError\<close> of \<open>toISOString\<close> on an invalid date.\<close>

definition encode_cell :: "'d explorer \<Rightarrow> bool \<Rightarrow> explorer_column \<Rightarrow> js \<Rightarrow> cell option" where
  "encode_cell ex revealed col v =
     (if ec_class col = Blocked then Some Cell_blocked
      else if v = Null \<or> v = Undefined then Some (Cell_value Null)
      else if ec_class col = Pii \<and> \<not> revealed
      then Some (Cell_masked (mask_pii_value (ex_show ex) v (hint_of (ec_name col))))
      else if lower (ec_type col) = u ''bytea'' \<or> (case v of Buffer _ \<Rightarrow> True | _ \<Rightarrow> False)
      then (let b = bytes_of (ex_show ex) v in
            Some (Cell_value (Str (u (''<bytea: '' @ string_of_nat (length b) @ '' bytes, sha256: '')
                                   @ ex_sha256 ex b @ u ''>''))))
      else (case v of
          Date t \<Rightarrow> Some (Cell_value (Str (iso_string (ex_codec ex) t)))
        | Invalid_date \<Rightarrow> None
        | Str s \<Rightarrow> Some (truncate_cell s v)
        | Arr _ \<Rightarrow> Some (truncate_cell (json_text (plain (iso_string (ex_codec ex)) v)) v)
        | Obj _ \<Rightarrow> Some (truncate_cell (json_text (plain (iso_string (ex_codec ex)) v)) v)
        | _ \<Rightarrow> Some (Cell_value v)))"

section \<open>Pages within the limit of a response\<close>

record encoded_row =
  en_ref :: "jstring option"
  en_cells :: "(jstring \<times> cell) list"

definition cell_js :: "cell \<Rightarrow> js" where
  "cell_js c =
     (case c of
        Cell_value v \<Rightarrow> Obj [(u ''state'', Str (u ''value'')), (u ''value'', v)]
      | Cell_masked d \<Rightarrow> Obj [(u ''state'', Str (u ''masked'')), (u ''display'', Str d)]
      | Cell_blocked \<Rightarrow> Obj [(u ''state'', Str (u ''blocked''))]
      | Cell_truncated d n \<Rightarrow> Obj [(u ''state'', Str (u ''truncated'')), (u ''display'', Str d),
                                  (u ''originalBytes'', Num (int n))])"

definition encoded_row_js :: "encoded_row \<Rightarrow> js" where
  "encoded_row_js r =
     Obj [(u ''rowRef'', case en_ref r of None \<Rightarrow> Null | Some t \<Rightarrow> Str t),
          (u ''cells'', Obj (map (\<lambda>(c, x). (c, cell_js x)) (en_cells r)))]"

definition row_bytes :: "codec_env \<Rightarrow> encoded_row \<Rightarrow> nat" where
  "row_bytes env r = byte_length (json_text (plain (iso_string env) (encoded_row_js r)))"

text \<open>The loop of \<open>encodeRowPage\<close>: accepted rows, the bytes so far, and whether it broke off.\<close>

fun page_loop :: "codec_env \<Rightarrow> nat \<Rightarrow> encoded_row list \<Rightarrow> encoded_row list \<Rightarrow> nat
    \<Rightarrow> encoded_row list \<times> bool \<times> nat" where
  "page_loop env maximum [] accepted count = (accepted, False, count)"
| "page_loop env maximum (r # rs) accepted count =
     (let n = row_bytes env r + (if accepted \<noteq> [] then 1 else 0) in
      if count + n > maximum then (accepted, True, count)
      else page_loop env maximum rs (accepted @ [r]) (count + n))"

definition encode_row_page :: "codec_env \<Rightarrow> nat \<Rightarrow> encoded_row list \<Rightarrow> encoded_row list \<times> bool \<times> nat" where
  "encode_row_page env maximum rows = page_loop env maximum rows [] 2"

section \<open>Reading rows\<close>

record rows_request =
  rr_target :: jstring
  rr_schema :: jstring
  rr_relation :: jstring
  rr_page_size :: int
  rr_cursor :: "jstring option"
  rr_sort :: "(jstring \<times> bool) option"
  rr_filters :: "row_filter list"
  rr_revealed :: bool

text \<open>What the database does in a call.\<close>

record 'd database_call =
  db_connects :: bool
  db_begins :: bool
  db_live_checksum :: "jstring option"
  db_times_out :: bool
  db_rows :: "'d row list"

text \<open>The clock and the random nonces of a call; those of row references are numbered by row.\<close>

record call_env =
  at_decode :: int
  at_cursor :: int
  at_row :: "nat \<Rightarrow> int"
  nonce_cursor :: bytes
  nonce_row :: "nat \<Rightarrow> bytes"

record rows_response =
  rs_rows :: "encoded_row list"
  rs_next_cursor :: "jstring option"
  rs_bytes :: nat
  rs_stable :: bool

definition cursor_key_columns :: "(jstring \<times> bool) option \<Rightarrow> jstring list \<Rightarrow> jstring list" where
  "cursor_key_columns srt key =
     foldl (\<lambda>cs c. if c \<in> set cs then cs else cs @ [c])
       (case srt of None \<Rightarrow> [] | Some (c, _) \<Rightarrow> [c]) key"

definition allowed_columns :: "explorer_relation \<Rightarrow> jstring list" where
  "allowed_columns r = map ec_name (filter (\<lambda>c. ec_selectable c \<and> ec_class c \<noteq> Blocked) (er_columns r))"

definition edge_columns :: "jstring \<Rightarrow> jstring \<Rightarrow> relation_edge \<Rightarrow> jstring list" where
  "edge_columns schema relation e =
     (if ee_schema (re_from e) = schema \<and> ee_relation (re_from e) = relation then ee_columns (re_from e) else [])
     @ (if ee_schema (re_to e) = schema \<and> ee_relation (re_to e) = relation then ee_columns (re_to e) else [])"

definition row_ref_columns ::
  "explorer_snapshot \<Rightarrow> jstring \<Rightarrow> jstring \<Rightarrow> explorer_relation \<Rightarrow> jstring list option" where
  "row_ref_columns s schema relation r =
     (case pagination_key r of
        None \<Rightarrow> None
      | Some key \<Rightarrow>
          if \<not> set key \<subseteq> set (allowed_columns r) then None
          else Some (foldl (\<lambda>cs c. if c \<in> set (allowed_columns r) \<and> c \<notin> set cs then cs @ [c] else cs) key
                       (concat (map (edge_columns schema relation) (sn_edges s)))))"

definition check_request ::
  "jstring \<Rightarrow> explorer_snapshot \<Rightarrow> rows_request \<Rightarrow> explorer_error + explorer_relation" where
  "check_request target s q =
     (if rr_page_size q \<notin> {25, 50, 100} then Inl DATABASE_PAGE_TOO_LARGE
      else if rr_target q \<noteq> target \<or> sn_target s \<noteq> target then Inl DATABASE_TARGET_INVALID
      else (case find_relation s (rr_schema q) (rr_relation q) of
          None \<Rightarrow> Inl DATABASE_RELATION_INVALID
        | Some r \<Rightarrow> if er_data_available r then Inr r else Inl DATABASE_DATA_PERMISSION_DENIED))"

definition request_context :: "jstring \<Rightarrow> explorer_snapshot \<Rightarrow> rows_request \<Rightarrow> token_context" where
  "request_context target s q =
     \<lparr> tc_target = target, tc_schema = rr_schema q, tc_relation = rr_relation q, tc_checksum = sn_checksum s \<rparr>"

definition read_start ::
  "codec_env \<Rightarrow> jstring \<Rightarrow> token_context \<Rightarrow> int \<Rightarrow> rows_request \<Rightarrow> explorer_relation
     \<Rightarrow> explorer_error + cursor_position option" where
  "read_start env key ctx now q r =
     (case rr_cursor q of
        None \<Rightarrow> Inr None
      | Some [] \<Rightarrow> Inr None
      | Some (c # cs) \<Rightarrow>
          (case decode_cursor env (c # cs) key ctx now of
             Inl e \<Rightarrow> Inl e
           | Inr cur \<Rightarrow>
               if cur_sort cur \<noteq> rr_sort q then Inl DATABASE_CURSOR_INVALID
               else (case cur_position cur of
                   Offset n \<Rightarrow> Inr (Some (Offset n))
                 | Keyset ks \<Rightarrow>
                     (case pagination_key r of
                        None \<Rightarrow> Inl DATABASE_CURSOR_INVALID
                      | Some pk \<Rightarrow>
                          if map fst ks \<noteq> cursor_key_columns (rr_sort q) pk then Inl DATABASE_CURSOR_INVALID
                          else Inr (Some (Keyset ks))))))"

definition sort_descending :: "(jstring \<times> bool) option \<Rightarrow> bool" where
  "sort_descending srt = (case srt of Some (_, desc) \<Rightarrow> desc | None \<Rightarrow> False)"

definition query_of ::
  "rows_request \<Rightarrow> (jstring \<times> js) list \<Rightarrow> cursor_position option \<Rightarrow> query_input" where
  "query_of q trusted pos =
     \<lparr> qi_schema = rr_schema q, qi_relation = rr_relation q, qi_page_size = nat (rr_page_size q),
       qi_filters = rr_filters q, qi_trusted = trusted, qi_sort = rr_sort q,
       qi_cursor = (case pos of Some (Keyset ks) \<Rightarrow> Some (build_keyset_condition ks (sort_descending (rr_sort q)))
                    | _ \<Rightarrow> None),
       qi_offset = (case pos of Some (Offset n) \<Rightarrow> Some n | _ \<Rightarrow> None) \<rparr>"

text \<open>The parameters of the cursor are the last ones when the statement has no offset.\<close>

definition number_cursor :: "query_input \<Rightarrow> rows_query \<Rightarrow> js list \<Rightarrow> rows_query" where
  "number_cursor i q values =
     (case qi_cursor i of
        None \<Rightarrow> q
      | Some (_, vs) \<Rightarrow>
          q\<lparr>rq_where := map (number_params (length values - length vs + 1)) (rq_where q)\<rparr>)"

definition fetch_rows ::
  "'d::linorder explorer \<Rightarrow> explorer_snapshot \<Rightarrow> 'd database_call \<Rightarrow> query_input
     \<Rightarrow> explorer_error + (jstring \<times> js) list list" where
  "fetch_rows ex s db i =
     (case build_rows_query s i of
        Inl e \<Rightarrow> Inl e
      | Inr (q, values) \<Rightarrow>
          if \<not> db_connects db then Inl DATABASE_TARGET_UNAVAILABLE
          else if \<not> db_begins db then Inl DATABASE_SCHEMA_CHECK_FAILED
          else (case db_live_checksum db of
              None \<Rightarrow> Inl DATABASE_SCHEMA_CHECK_FAILED
            | Some checksum \<Rightarrow>
                if checksum \<noteq> sn_checksum s then Inl DATABASE_SCHEMA_STALE
                else if db_times_out db then Inl DATABASE_QUERY_TIMEOUT
                else (case run_query (ex_pg ex) (db_rows db) (number_cursor i q values) values of
                    None \<Rightarrow> Inl DATABASE_QUERY_FAILED | Some rows \<Rightarrow> Inr rows)))"

text \<open>Whether the call drops the cached schema snapshots of its target.\<close>

definition invalidates_cache :: "explorer_snapshot \<Rightarrow> 'd database_call \<Rightarrow> bool" where
  "invalidates_cache s db \<longleftrightarrow>
     db_connects db \<and> db_begins db \<and> (\<exists>c. db_live_checksum db = Some c \<and> c \<noteq> sn_checksum s)"

definition row_value :: "(jstring \<times> js) list \<Rightarrow> jstring \<Rightarrow> js" where
  "row_value row c = (case map_of row c of Some v \<Rightarrow> v | None \<Rightarrow> Undefined)"

definition next_cursor ::
  "codec_env \<Rightarrow> jstring \<Rightarrow> token_context \<Rightarrow> call_env \<Rightarrow> rows_request \<Rightarrow> explorer_relation
     \<Rightarrow> cursor_position option \<Rightarrow> (jstring \<times> js) list list \<Rightarrow> explorer_error + jstring option" where
  "next_cursor env key ctx ce q r pos rows =
     (let size = nat (rr_page_size q) in
      if length rows \<le> size then Inr None
      else (let lastRow = last (take size rows);
                token = (\<lambda>p. \<lparr> cur_context = ctx, cur_issued = at_cursor ce,
                               cur_expires = at_cursor ce + cursor_expiry_ms, cur_sort = rr_sort q,
                               cur_position = p \<rparr>) in
        case pagination_key r of
          Some pk \<Rightarrow>
            map_sum id Some (encode_cursor env
              (token (Keyset (map (\<lambda>c. (c, row_value lastRow c)) (cursor_key_columns (rr_sort q) pk))))
              key (nonce_cursor ce))
        | None \<Rightarrow>
            (let offset = (case pos of Some (Offset n) \<Rightarrow> n | _ \<Rightarrow> 0) + rr_page_size q in
             if offset \<le> 10000
             then map_sum id Some (encode_cursor env (token (Offset offset)) key (nonce_cursor ce))
             else Inr None)))"

fun encode_cells :: "'d explorer \<Rightarrow> bool \<Rightarrow> explorer_column list \<Rightarrow> (jstring \<times> js) list
    \<Rightarrow> (jstring \<times> cell) list option" where
  "encode_cells ex revealed [] row = Some []"
| "encode_cells ex revealed (c # cs) row =
     (case encode_cell ex revealed c (row_value row (ec_name c)) of
        None \<Rightarrow> None
      | Some x \<Rightarrow> map_option (Cons (ec_name c, x)) (encode_cells ex revealed cs row))"

fun encode_rows ::
  "'d explorer \<Rightarrow> jstring \<Rightarrow> token_context \<Rightarrow> call_env \<Rightarrow> bool \<Rightarrow> explorer_relation \<Rightarrow> jstring list option
     \<Rightarrow> nat \<Rightarrow> (jstring \<times> js) list list \<Rightarrow> explorer_error + encoded_row list" where
  "encode_rows ex key ctx ce revealed r refs i [] = Inr []"
| "encode_rows ex key ctx ce revealed r refs i (row # rows) =
     (case encode_cells ex revealed (er_columns r) row of
        None \<Rightarrow> Inl RANGE_ERROR
      | Some cells \<Rightarrow>
          (case (case refs of
                   None \<Rightarrow> Inr None
                 | Some cs \<Rightarrow>
                     encode_row_ref_within_limit (ex_codec ex)
                       \<lparr> ref_context = ctx, ref_issued = at_row ce i,
                         ref_expires = at_row ce i + cursor_expiry_ms,
                         ref_keys = map (\<lambda>c. (c, row_value row c)) cs \<rparr> key (nonce_row ce i)) of
             Inl e \<Rightarrow> Inl e
           | Inr ref \<Rightarrow>
               (case encode_rows ex key ctx ce revealed r refs (i + 1) rows of
                  Inl e \<Rightarrow> Inl e
                | Inr rest \<Rightarrow> Inr (\<lparr> en_ref = ref, en_cells = cells \<rparr> # rest))))"

definition read_rows ::
  "'d::linorder explorer \<Rightarrow> jstring \<Rightarrow> jstring \<Rightarrow> explorer_snapshot \<Rightarrow> 'd database_call \<Rightarrow> call_env
     \<Rightarrow> rows_request \<Rightarrow> (jstring \<times> js) list \<Rightarrow> explorer_error + rows_response" where
  "read_rows ex key target s db ce q trusted =
     (case check_request target s q of
        Inl e \<Rightarrow> Inl e
      | Inr r \<Rightarrow>
          (let ctx = request_context target s q in
           case read_start (ex_codec ex) key ctx (at_decode ce) q r of
             Inl e \<Rightarrow> Inl e
           | Inr pos \<Rightarrow>
               (case fetch_rows ex s db (query_of q trusted pos) of
                  Inl e \<Rightarrow> Inl e
                | Inr rows \<Rightarrow>
                    (case next_cursor (ex_codec ex) key ctx ce q r pos rows of
                       Inl e \<Rightarrow> Inl e
                     | Inr cursor \<Rightarrow>
                         (case encode_rows ex key ctx ce (rr_revealed q) r
                                 (row_ref_columns s (rr_schema q) (rr_relation q) r) 0
                                 (take (nat (rr_page_size q)) rows) of
                            Inl e \<Rightarrow> Inl e
                          | Inr encoded \<Rightarrow>
                              (case encode_row_page (ex_codec ex) max_response_bytes encoded of
                                 (accepted, truncated, bytes) \<Rightarrow>
                                   if truncated then Inl DATABASE_RESULT_TOO_LARGE
                                   else Inr \<lparr> rs_rows = accepted, rs_next_cursor = cursor,
                                             rs_bytes = bytes, rs_stable = (pagination_key r \<noteq> None) \<rparr>))))))"

section \<open>Following a foreign key\<close>

record related_request =
  rl_target :: jstring
  rl_schema :: jstring
  rl_relation :: jstring
  rl_constraint :: jstring
  rl_row_ref :: jstring
  rl_page_size :: int
  rl_cursor :: "jstring option"
  rl_revealed :: bool

definition edge_touches :: "edge_end \<Rightarrow> related_request \<Rightarrow> bool" where
  "edge_touches e q \<longleftrightarrow> ee_schema e = rl_schema q \<and> ee_relation e = rl_relation q"

fun pair_columns ::
  "(jstring \<times> js) list \<Rightarrow> jstring list \<Rightarrow> jstring list \<Rightarrow> (explorer_error + (jstring \<times> js) list)" where
  "pair_columns keys (t # ts) (c # cs) =
     (if t = [] \<or> c = [] then Inl DATABASE_RELATION_INVALID
      else (case map_of keys c of
          None \<Rightarrow> Inl DATABASE_RELATION_INVALID
        | Some v \<Rightarrow>
            if v = Undefined \<or> v = Null then Inl DATABASE_RELATION_INVALID
            else (case pair_columns keys ts cs of Inl e \<Rightarrow> Inl e | Inr es \<Rightarrow> Inr ((t, v) # es))))"
| "pair_columns keys _ _ = Inr []"

definition read_related_rows ::
  "'d::linorder explorer \<Rightarrow> jstring \<Rightarrow> jstring \<Rightarrow> explorer_snapshot \<Rightarrow> 'd database_call \<Rightarrow> call_env \<Rightarrow> int
     \<Rightarrow> related_request \<Rightarrow> explorer_error + rows_response" where
  "read_related_rows ex key target s db ce now q =
     (case decode_row_ref (ex_codec ex) (rl_row_ref q) key
             \<lparr> tc_target = target, tc_schema = rl_schema q, tc_relation = rl_relation q,
               tc_checksum = sn_checksum s \<rparr> now of
        Inl e \<Rightarrow> Inl e
      | Inr ref \<Rightarrow>
          (case List.find (\<lambda>e. edge_touches (re_from e) q \<or> edge_touches (re_to e) q)
                  (filter (\<lambda>e. re_constraint e = rl_constraint q) (sn_edges s)) of
             None \<Rightarrow> Inl DATABASE_RELATION_INVALID
           | Some e \<Rightarrow>
               (let (here, there) = (if edge_touches (re_from e) q then (re_from e, re_to e)
                                     else (re_to e, re_from e)) in
                if ee_columns here = [] \<or> length (ee_columns here) \<noteq> length (ee_columns there)
                then Inl DATABASE_RELATION_INVALID
                else (case pair_columns (ref_keys ref) (ee_columns there) (ee_columns here) of
                    Inl err \<Rightarrow> Inl err
                  | Inr trusted \<Rightarrow>
                      read_rows ex key target s db ce
                        \<lparr> rr_target = rl_target q, rr_schema = ee_schema there, rr_relation = ee_relation there,
                          rr_page_size = rl_page_size q, rr_cursor = rl_cursor q, rr_sort = None,
                          rr_filters = [], rr_revealed = rl_revealed q \<rparr> trusted))))"

end
