(* ===== verification/ExplorerPages.thy ===== *)
theory ExplorerPages
  imports ExplorerRows
begin

text \<open>
  What a client gets that follows the cursors of the row reader from page to page: every row of the
  ordered result exactly once, unless a call fails, as long as the rows stand still and the driver gives
  the values of the key back unrounded. The proof puts together the keyset condition (ExplorerQuery), the
  numbering of its parameters, the round trip of the cursor (CursorProps) and the pagination key that
  the schema reader chooses (ExplorerSchema).
\<close>

section \<open>Parameters of the statement\<close>

text \<open>Predicates that refer to the first parameters only are not changed by what follows them.\<close>

definition below :: "nat \<Rightarrow> sql_pred \<Rightarrow> bool" where
  "below n p \<longleftrightarrow>
     (\<exists>op c k. p = Compare op c (Dollar k) \<and> 1 \<le> k \<and> k \<le> n) \<or>
     (\<exists>c k. p = Ilike c (Dollar k) \<and> 1 \<le> k \<and> k \<le> n) \<or> (\<exists>c. p = Is_null c \<or> p = Is_not_null c)"

lemma below_mono: "below n p \<Longrightarrow> n \<le> m \<Longrightarrow> below m p"
  by (auto simp: below_def)

lemma below_number [simp]: "below n p \<Longrightarrow> number_params start p = p"
  by (auto simp: below_def number_param_def)

lemma below_eval: "below (length vs) p \<Longrightarrow> eval_pred pg (vs @ ws) r p = eval_pred pg vs r p"
  by (auto simp: below_def param_value_def nth_append)

lemma operator_pred_below:
  "1 \<le> n \<Longrightarrow> below n (operator_pred op c (Dollar n))"
  by (cases op) (auto simp: operator_pred_def below_def)

lemma null_pred_below: "op \<in> {Op_is_null, Op_is_not_null} \<Longrightarrow> below n (operator_pred op c p)"
  by (auto simp: operator_pred_def below_def)

lemma filter_loop_below:
  assumes "filter_loop cs fs n preds vals = Inr (preds', vals', m)"
    "n = length vals + 1" "list_all (below (length vals)) preds"
  shows "list_all (below (length vals')) preds' \<and> m = length vals' + 1"
  using assms
proof (induction cs fs n preds vals rule: filter_loop.induct)
  case (2 cs f fs n preds vals)
  have mono: "list_all (below (length vals + 1)) preds"
    using "2.prems"(3) by (auto simp: list_all_iff intro: below_mono)
  obtain col where col: "column_named cs (fl_column f) = Some col"
      "\<not> (ec_class col = Blocked \<or> \<not> ec_selectable col)" "\<not> (fl_operator f \<notin> set (ec_operators col))"
    using "2.prems"(1) by (auto split: option.splits if_splits)
  show ?case
  proof (cases "fl_operator f \<in> {Op_is_null, Op_is_not_null}")
    case True
    with "2.IH"(1) [OF col True] "2.prems" col show ?thesis
      by (simp add: null_pred_below)
  next
    case False
    with "2.prems"(1) col obtain v where v: "fl_value f = Some v" "\<not> length v > 200"
      by (auto split: option.splits if_splits)
    from "2.IH"(2) [OF col False v] "2.prems" col False v mono show ?thesis
      by (simp add: operator_pred_below)
  qed
qed simp

lemma trusted_loop_below:
  assumes "trusted_loop cs es n = Inr (ps, vs, m)" "1 \<le> n"
  shows "list_all (below (n - 1 + length vs)) ps \<and> m = n + length vs"
  using assms
proof (induction cs es n arbitrary: ps vs m rule: trusted_loop.induct)
  case (2 cs name v es n)
  then obtain qs ws col where rest: "trusted_loop cs es (n + 1) = Inr (qs, ws, m)"
      "ps = Compare Eq (ec_name col) (Dollar n) # qs" "vs = v # ws"
      "List.find (\<lambda>c. ec_name c = name) cs = Some col"
    by (auto split: option.splits if_splits sum.splits)
  have "list_all (below (n + length ws)) qs \<and> m = n + 1 + length ws"
    using 2 rest(1) by (auto split: option.splits if_splits sum.splits)
  moreover have "below (n + length ws) (Compare Eq (ec_name col) (Dollar n))"
    using "2.prems"(2) by (auto simp: below_def)
  ultimately show ?case using "2.prems"(2) by (simp add: rest)
qed simp

section \<open>The statement with and without a cursor\<close>

lemma build_rows_query_base:
  assumes "build_rows_query s i = Inr (q, values)" "qi_cursor i = None" "qi_offset i = None"
  obtains r where "find_relation s (qi_schema i) (qi_relation i) = Some r"
    "list_all (below (length values)) (rq_where q)"
    "rq_order q = order_items (qi_sort i) (pagination_key r)" "rq_limit q = qi_page_size i + 1"
    "rq_columns q = map ec_name (selectable_columns r)" "rq_offset q = None"
    "\<And>c desc. qi_sort i = Some (c, desc) \<Longrightarrow> c \<in> ec_name ` set (selectable_columns r)"
    "\<And>p vs. build_rows_query s (i\<lparr>qi_cursor := Some (p, vs)\<rparr>) = Inr (q\<lparr>rq_where := rq_where q @ [p]\<rparr>, values @ vs)"
proof -
  obtain r where r: "find_relation s (qi_schema i) (qi_relation i) = Some r" "er_data_available r"
      "selectable_columns r \<noteq> []"
      "\<not> (case qi_sort i of None \<Rightarrow> False
          | Some (c, _) \<Rightarrow> \<not> list_ex (\<lambda>col. ec_name col = c) (selectable_columns r))"
    using assms(1) by (auto simp: build_rows_query_def split: option.splits if_splits)
  then obtain preds fvals n where f: "build_filter_sql (er_columns r) (qi_filters i) 1 = Inr (preds, fvals, n)"
    using assms(1) by (auto simp: build_rows_query_def split: option.splits if_splits sum.splits)
  with r obtain ps tvals m where t: "trusted_loop (er_columns r) (qi_trusted i) n = Inr (ps, tvals, m)"
    using assms(1) by (auto simp: build_rows_query_def split: option.splits if_splits sum.splits)
  have q: "q = \<lparr> rq_columns = map ec_name (selectable_columns r), rq_schema = qi_schema i,
                 rq_relation = qi_relation i, rq_where = preds @ ps,
                 rq_order = order_items (qi_sort i) (pagination_key r),
                 rq_limit = qi_page_size i + 1, rq_offset = None \<rparr>" and v: "values = fvals @ tvals"
    using assms r f t by (auto simp: build_rows_query_def Let_def)
  have "list_all (below (length fvals)) preds" "n = length fvals + 1"
    using f filter_loop_below [of "er_columns r" "qi_filters i" 1 "[]" "[]" preds fvals n]
    by (auto simp: build_filter_sql_def split: if_splits)
  with trusted_loop_below [OF t] have "list_all (below (length values)) (preds @ ps)"
    by (auto simp: v list_all_iff intro: below_mono)
  moreover have "build_rows_query s (i\<lparr>qi_cursor := Some (p, vs)\<rparr>) = Inr (q\<lparr>rq_where := rq_where q @ [p]\<rparr>, values @ vs)" for p vs
    using assms r f t by (simp add: build_rows_query_def Let_def q v)
  ultimately show ?thesis
    using that [of r] r by (auto simp: q list_ex_iff split: option.splits)
qed

section \<open>The parameters of the cursor are all used and convert\<close>

definition refers :: "(jstring \<times> js) list \<Rightarrow> sql_pred list \<Rightarrow> js list \<Rightarrow> bool" where
  "refers ks ps vals \<longleftrightarrow>
     (\<forall>(c, p) \<in> set (concat (map pred_params ps)).
        \<exists>i k. p = Cursor_param i \<and> c = Some k \<and> i < length vals \<and> (k, vals ! i) \<in> set ks \<and> vals ! i \<noteq> Null)"

definition covers :: "sql_pred list \<Rightarrow> nat \<Rightarrow> nat \<Rightarrow> bool" where
  "covers ps lo hi \<longleftrightarrow> (\<forall>i. lo \<le> i \<and> i < hi \<longrightarrow> Cursor_param i \<in> snd ` set (concat (map pred_params ps)))"

lemma refers_extend: "refers ks ps vals \<Longrightarrow> set ks \<subseteq> set ks' \<Longrightarrow> refers ks' ps (vals @ ws)"
  unfolding refers_def by (fastforce simp: nth_append)

lemma refers_Cons: "refers ks (p # ps) vals \<longleftrightarrow> refers ks [p] vals \<and> refers ks ps vals"
  by (simp add: refers_def ball_Un)

lemma covers_Cons_null: "covers ps lo hi \<Longrightarrow> covers (p # ps) lo hi"
  by (simp add: covers_def image_Un)

lemma keyset_prefix_params:
  assumes "keyset_prefix ks vals = (ps, vals')"
  shows "refers ks ps vals' \<and> covers ps (length vals) (length vals')"
  using assms
proof (induction ks vals arbitrary: ps rule: keyset_prefix.induct)
  case (2 c v ks vals)
  show ?case
  proof (cases "v = Null")
    case True
    obtain qs where qs: "keyset_prefix ks vals = (qs, vals')" "ps = Is_null c # qs"
      using 2(3) True by (cases "keyset_prefix ks vals") auto
    from 2(1) [OF True qs(1)] show ?thesis
      using refers_extend [of ks qs vals' "(c, v) # ks" "[]"]
      by (auto simp: qs(2) covers_Cons_null refers_Cons [of _ _ qs]) (simp add: refers_def)
  next
    case False
    obtain qs where qs: "keyset_prefix ks (vals @ [v]) = (qs, vals')"
      "ps = Compare Eq c (Cursor_param (length vals)) # qs"
      using 2(3) False by (cases "keyset_prefix ks (vals @ [v])") auto
    obtain us where us: "vals' = (vals @ [v]) @ us" using keyset_prefix_values [of ks "vals @ [v]"] qs(1) by auto
    have "refers ((c, v) # ks) [Compare Eq c (Cursor_param (length vals))] vals'"
      using False us by (auto simp: refers_def nth_append)
    moreover from 2(2) [OF False qs(1)] have "refers ((c, v) # ks) qs vals'"
        and cov: "covers qs (Suc (length vals)) (length vals')"
      using refers_extend [of ks qs vals' "(c, v) # ks" "[]"] by auto
    moreover have "covers ps (length vals) (length vals')"
      unfolding covers_def
    proof (intro allI impI)
      fix i assume i: "length vals \<le> i \<and> i < length vals'"
      show "Cursor_param i \<in> snd ` set (concat (map pred_params ps))"
      proof (cases "i = length vals")
        case True
        then show ?thesis by (simp add: qs(2))
      next
        case False
        with i cov have "Cursor_param i \<in> snd ` set (concat (map pred_params qs))" by (simp add: covers_def)
        then show ?thesis by (auto simp: qs(2))
      qed
    qed
    ultimately show ?thesis by (simp add: qs(2) refers_Cons [of _ _ qs])
  qed
qed (simp add: refers_def covers_def)

lemma keyset_terms_params:
  assumes "keyset_terms desc before ks vals = (ts, vals')" "\<And>c v. (c, v) \<in> set ks \<Longrightarrow> v \<noteq> Null"
  shows "refers (before @ ks) ts vals' \<and> covers ts (length vals) (length vals')"
  using assms
proof (induction desc before ks vals arbitrary: ts rule: keyset_terms.induct)
  case (2 desc before c v ks vals)
  have v: "v \<noteq> Null" using "2.prems"(2) [of c v] by simp
  obtain ps vals1 where prefix: "keyset_prefix before vals = (ps, vals1)" by force
  define comparison where
    "comparison = Any_of [Compare (if desc then Lt else Gt) c (Cursor_param (length vals1)), Is_null c]"
  obtain rest where rest: "keyset_terms desc (before @ [(c, v)]) ks (vals1 @ [v]) = (rest, vals')"
    and ts: "ts = (if ps \<noteq> [] then All_of (ps @ [comparison]) else comparison) # rest"
    using "2.prems"(1) v prefix by (auto simp: split_beta Let_def comparison_def)
  obtain us where us: "vals' = (vals1 @ [v]) @ us"
    using keyset_terms_values [of desc "before @ [(c, v)]" ks "vals1 @ [v]"] rest by auto
  from keyset_prefix_params [OF prefix] have pre: "refers (before @ (c, v) # ks) ps vals'"
      "covers ps (length vals) (length vals1)"
    using refers_extend [of before ps vals1 "before @ (c, v) # ks" "[v] @ us"] by (auto simp: us)
  from "2.IH"(2) [OF prefix [symmetric] refl v refl rest] "2.prems"(2)
  have later: "refers (before @ (c, v) # ks) rest vals'" "covers rest (Suc (length vals1)) (length vals')"
    by auto
  have "refers (before @ (c, v) # ks) [hd ts] vals'"
    using pre(1) v us by (auto simp: ts comparison_def refers_def nth_append)
  moreover have "covers ts (length vals) (length vals')"
    unfolding covers_def
  proof (intro allI impI)
    fix i assume i: "length vals \<le> i \<and> i < length vals'"
    consider "i < length vals1" | "i = length vals1" | "length vals1 < i" by linarith
    then show "Cursor_param i \<in> snd ` set (concat (map pred_params ts))"
    proof cases
      case 1
      with i pre(2) have "Cursor_param i \<in> snd ` set (concat (map pred_params ps))" by (simp add: covers_def)
      then show ?thesis by (cases ps) (auto simp: ts)
    next
      case 2
      then show ?thesis by (auto simp: ts comparison_def)
    next
      case 3
      with i later(2) have "Cursor_param i \<in> snd ` set (concat (map pred_params rest))" by (simp add: covers_def)
      then show ?thesis by (auto simp: ts)
    qed
  qed
  ultimately show ?case using later(1) by (simp add: ts refers_Cons [of _ _ rest])
qed (simp add: refers_def covers_def)

text \<open>Only the first key can be null: the sort column, in front of a pagination key declared not null.\<close>

lemma keyset_condition_params:
  assumes "build_keyset_condition keys desc = (condition, vals)" "\<And>c v. (c, v) \<in> set (tl keys) \<Longrightarrow> v \<noteq> Null"
  shows "refers keys [condition] vals \<and> covers [condition] 0 (length vals)"
proof -
  obtain ts where ts: "keyset_terms desc [] keys [] = (ts, vals)" "condition = Any_of ts"
    using assms(1) by (cases "keyset_terms desc [] keys []") (auto simp: build_keyset_condition_def)
  have "refers keys ts vals \<and> covers ts 0 (length vals)"
  proof (cases keys)
    case Nil
    with ts(1) show ?thesis by (simp add: refers_def covers_def)
  next
    case (Cons k ks)
    show ?thesis
    proof (cases "snd k = Null")
      case True
      then have "keyset_terms desc [k] ks [] = (ts, vals)"
        using ts(1) by (cases k) (simp add: Cons)
      from keyset_terms_params [OF this] assms(2) show ?thesis by (simp add: Cons)
    next
      case False
      have "refers ([] @ keys) ts vals \<and> covers ts (length ([]::js list)) (length vals)"
        by (rule keyset_terms_params [OF ts(1)]) (use assms(2) False in \<open>auto simp: Cons\<close>)
      then show ?thesis by simp
    qed
  qed
  then show ?thesis by (simp add: refers_def covers_def ts(2))
qed

section \<open>Rows after a row\<close>

lemma filter_after_nth:
  fixes f :: "'a \<Rightarrow> 'b::linorder"
  assumes "sorted (map f L)" "distinct (map f L)" "n < length L"
  shows "filter (\<lambda>r. f (L ! n) < f r) L = drop (Suc n) L"
proof -
  have strict: "i < j \<Longrightarrow> j < length L \<Longrightarrow> f (L ! i) < f (L ! j)" for i j
    using assms(1,2) sorted_wrt_nth_less [of "(<)" "map f L" i j] strict_sorted_iff [of "map f L"] by simp
  have "filter (\<lambda>r. f (L ! n) < f r) (take (Suc n) L) = []"
  proof (rule filter_False, rule ballI)
    fix x assume "x \<in> set (take (Suc n) L)"
    then obtain i where "i \<le> n" "x = L ! i" using assms(3) by (force simp: in_set_conv_nth less_Suc_eq_le)
    then show "\<not> f (L ! n) < f x" using strict [of i n] assms(3) by (cases "i = n") auto
  qed
  moreover have "filter (\<lambda>r. f (L ! n) < f r) (drop (Suc n) L) = drop (Suc n) L"
  proof (rule filter_True, rule ballI)
    fix x assume "x \<in> set (drop (Suc n) L)"
    then obtain i where "i < length L - Suc n" "x = L ! (Suc n + i)" by (auto simp: in_set_conv_nth)
    then show "f (L ! n) < f x" using strict [of n "Suc n + i"] by simp
  qed
  moreover have "filter (\<lambda>r. f (L ! n) < f r) L =
      filter (\<lambda>r. f (L ! n) < f r) (take (Suc n) L @ drop (Suc n) L)" by simp
  ultimately show ?thesis unfolding filter_append by simp
qed

section \<open>The order of the statement and the key of the cursor\<close>

lemma foldl_dedup:
  "distinct key \<Longrightarrow> foldl (\<lambda>cs c. if c \<in> set cs then cs else cs @ [c]) cs key = cs @ filter (\<lambda>c. c \<notin> set cs) key"
proof (induction key arbitrary: cs)
  case (Cons c key)
  have "filter (\<lambda>x. x \<notin> set (cs @ [c])) key = filter (\<lambda>x. x \<notin> set cs) key"
    using Cons.prems by (intro filter_cong) auto
  with Cons show ?case by auto
qed simp

lemma order_of_cursor_key:
  "distinct pk \<Longrightarrow>
     order_items srt (Some pk) = map (\<lambda>c. (c, sort_descending srt)) (cursor_key_columns srt pk)"
  by (cases srt)
     (auto simp: order_items_def cursor_key_columns_def foldl_dedup sort_descending_def
       intro!: map_cong filter_cong)

lemma tl_subset: "set (tl xs) \<subseteq> set xs"
  by (cases xs) auto

lemma cursor_key_columns_props:
  assumes "distinct pk"
  shows "set (cursor_key_columns srt pk) = set pk \<union> (case srt of None \<Rightarrow> {} | Some (c, _) \<Rightarrow> {c})"
    "set (tl (cursor_key_columns srt pk)) \<subseteq> set pk"
    "distinct (cursor_key_columns srt pk)"
  using assms
  by (auto simp: cursor_key_columns_def foldl_dedup split: option.splits dest: tl_subset [THEN subsetD])

section \<open>What the driver has to preserve\<close>

text \<open>
  The cell of a key column, read by the driver, printed in the cursor as JSON and bound to a parameter
  of the column's type again, is the cell it was.
\<close>

definition driver_exact :: "'d explorer \<Rightarrow> jstring list \<Rightarrow> 'd row list \<Rightarrow> bool" where
  "driver_exact ex cs table \<longleftrightarrow>
     (\<forall>r\<in>set table. \<forall>c\<in>set cs. case r c of None \<Rightarrow> True
       | Some d \<Rightarrow> fetch (ex_pg ex) d \<noteq> Null \<and> fetch (ex_pg ex) d \<noteq> Undefined \<and>
           plain (iso_string (ex_codec ex)) (fetch (ex_pg ex) d) \<noteq> Null \<and>
           bind (ex_pg ex) c (plain (iso_string (ex_codec ex)) (fetch (ex_pg ex) d)) = Some d)"

text \<open>The keys of the cursor after a row, as they were encoded and as they are decoded.\<close>

definition cell_js_value :: "'d pg \<Rightarrow> 'd option \<Rightarrow> js" where
  "cell_js_value pg x = (case x of None \<Rightarrow> Null | Some d \<Rightarrow> fetch pg d)"

definition row_keys :: "'d explorer \<Rightarrow> jstring list \<Rightarrow> 'd row \<Rightarrow> (jstring \<times> js) list" where
  "row_keys ex cs r = map (\<lambda>c. (c, cell_js_value (ex_pg ex) (r c))) cs"

definition decoded_keys :: "'d explorer \<Rightarrow> jstring list \<Rightarrow> 'd row \<Rightarrow> (jstring \<times> js) list" where
  "decoded_keys ex cs r =
     map (\<lambda>c. (c, plain (iso_string (ex_codec ex)) (cell_js_value (ex_pg ex) (r c)))) cs"

lemma row_value_fetched:
  "c \<in> set cols \<Longrightarrow> row_value (fetched_row pg cols r) c = cell_js_value pg (r c)"
  by (induction cols) (auto simp: row_value_def fetched_row_def cell_js_value_def)

lemma decoded_cell:
  assumes "driver_exact ex cs table" "r \<in> set table" "c \<in> set cs"
  shows "bound_cell (ex_pg ex) (c, plain (iso_string (ex_codec ex)) (cell_js_value (ex_pg ex) (r c))) = r c"
    "plain (iso_string (ex_codec ex)) (cell_js_value (ex_pg ex) (r c)) = Null \<longleftrightarrow> r c = None"
    "cell_js_value (ex_pg ex) (r c) \<noteq> Undefined"
  using assms by (auto simp: driver_exact_def bound_cell_def cell_js_value_def split: option.splits)

lemma decoded_keys_cursor_key:
  assumes "driver_exact ex cs table" "r \<in> set table"
  shows "cursor_key (ex_pg ex) desc (decoded_keys ex cs r) = row_key (map (\<lambda>c. (c, desc)) cs) r"
    "key_bound (ex_pg ex) (decoded_keys ex cs r)"
proof -
  have cell: "bound_cell (ex_pg ex) (c, plain (iso_string (ex_codec ex)) (cell_js_value (ex_pg ex) (r c))) = r c"
      "plain (iso_string (ex_codec ex)) (cell_js_value (ex_pg ex) (r c)) = Null \<longleftrightarrow> r c = None"
    if "c \<in> set cs" for c
    using decoded_cell [OF assms that] by simp_all
  then show "cursor_key (ex_pg ex) desc (decoded_keys ex cs r) = row_key (map (\<lambda>c. (c, desc)) cs) r"
    by (simp add: cursor_key_def decoded_keys_def row_key_def)
  have "plain (iso_string (ex_codec ex)) (cell_js_value (ex_pg ex) (r c)) = Null \<or>
      bind (ex_pg ex) c (plain (iso_string (ex_codec ex)) (cell_js_value (ex_pg ex) (r c))) \<noteq> None"
    if "c \<in> set cs" for c
    using cell [OF that] by (cases "r c = None") (auto simp: bound_cell_def)
  then show "key_bound (ex_pg ex) (decoded_keys ex cs r)"
    by (auto simp: key_bound_def decoded_keys_def list_all_iff)
qed

section \<open>The rows that a cursor selects\<close>

definition with_cursor :: "rows_query \<Rightarrow> nat \<Rightarrow> sql_pred \<Rightarrow> rows_query" where
  "with_cursor q start condition = q\<lparr>rq_where := map (number_params start) (rq_where q @ [condition])\<rparr>"

lemma map_number_below: "list_all (below n) ps \<Longrightarrow> map (number_params start) ps = ps"
  by (induction ps) auto

lemma selected_after:
  assumes below: "list_all (below (length vals)) (rq_where q)"
    and cond: "build_keyset_condition keys desc = (condition, kvals)" "key_bound pg keys"
    and order: "rq_order q = map (\<lambda>k. (fst k, desc)) keys"
  shows "selected_rows pg table (with_cursor q (length vals + 1) condition) (vals @ kvals) =
    filter (\<lambda>r. cursor_key pg desc keys < row_key (rq_order q) r) (selected_rows pg table q vals)"
proof -
  have placed: "placed (vals @ kvals) (length vals + 1) kvals" by (simp add: placed_def nth_append)
  have "(eval_pred pg (vals @ kvals) r (All_of (rq_where q @ [number_params (length vals + 1) condition])) = Some True)
      \<longleftrightarrow> (eval_pred pg vals r (All_of (rq_where q)) = Some True \<and> cursor_key pg desc keys < row_key (rq_order q) r)" for r
    using below keyset_condition_lexorder [OF cond(1) placed cond(2), of r]
    by (auto simp: sql_and_True order list_all_iff below_eval)
  then show ?thesis
    by (simp add: selected_rows_def with_cursor_def map_number_below [OF below] filter_sort [symmetric]
        del: eval_pred.simps(5))
qed

lemma params_ok_cursor:
  assumes below: "list_all (below (length vals)) (rq_where q)" and off: "rq_offset q = None"
    and base: "params_ok pg q vals"
    and cond: "refers keys [condition] kvals" "covers [condition] 0 (length kvals)" "key_bound pg keys"
  shows "params_ok pg (with_cursor q (length vals + 1) condition) (vals @ kvals)"
proof -
  let ?q = "with_cursor q (length vals + 1) condition" and ?vs = "vals @ kvals"
  let ?new = "pred_params (number_params (length vals + 1) condition)"
  have numbered: "pred_params (number_params n p) = map (\<lambda>(c, x). (c, number_param n x)) (pred_params p)" for n p
  proof (induction n p rule: number_params.induct)
    case (3 n ps)
    then show ?case by (simp add: map_concat comp_def cong: map_cong)
  next
    case (4 n ps)
    then show ?case by (simp add: map_concat comp_def cong: map_cong)
  qed simp_all
  have params: "query_params ?q = query_params q @ ?new"
    by (simp add: query_params_def with_cursor_def map_number_below [OF below] off)
  have old: "param_value ?vs p = param_value vals p" if "(c, p) \<in> set (query_params q)" for c p
    using that below off
    by (force simp: query_params_def below_def list_all_iff param_value_def nth_append)
  have new: "\<exists>i k. p = Dollar (length vals + 1 + i) \<and> c = Some k \<and> i < length kvals \<and> (k, kvals ! i) \<in> set keys \<and> kvals ! i \<noteq> Null"
    if "(c, p) \<in> set ?new" for c p
    using that cond(1) by (fastforce simp: numbered refers_def number_param_def)
  have "list_all (\<lambda>(c, p). case param_value ?vs p of None \<Rightarrow> False
       | Some v \<Rightarrow> (case c of None \<Rightarrow> True | Some col \<Rightarrow> v = Null \<or> bind pg col v \<noteq> None)) (query_params ?q)"
    unfolding params list_all_append
  proof
    show "list_all (\<lambda>(c, p). case param_value ?vs p of None \<Rightarrow> False
       | Some v \<Rightarrow> (case c of None \<Rightarrow> True | Some col \<Rightarrow> v = Null \<or> bind pg col v \<noteq> None)) (query_params q)"
      using base old by (fastforce simp: params_ok_def list_all_iff)
    show "list_all (\<lambda>(c, p). case param_value ?vs p of None \<Rightarrow> False
       | Some v \<Rightarrow> (case c of None \<Rightarrow> True | Some col \<Rightarrow> v = Null \<or> bind pg col v \<noteq> None)) ?new"
      unfolding list_all_iff
    proof (clarify)
      fix c p assume "(c, p) \<in> set ?new"
      from new [OF this] obtain i k where "p = Dollar (length vals + 1 + i)" "c = Some k" "i < length kvals"
          "(k, kvals ! i) \<in> set keys" "kvals ! i \<noteq> Null" by blast
      with cond(3) show "case param_value ?vs p of None \<Rightarrow> False
       | Some v \<Rightarrow> (case c of None \<Rightarrow> True | Some col \<Rightarrow> v = Null \<or> bind pg col v \<noteq> None)"
        by (auto simp: param_value_def nth_append key_bound_def list_all_iff)
    qed
  qed
  moreover have "list_all (\<lambda>n. Dollar (Suc n) \<in> set (map snd (query_params ?q))) [0..<length ?vs]"
    unfolding list_all_iff
  proof (intro ballI)
    fix n assume "n \<in> set [0..<length ?vs]"
    then have n: "n < length vals + length kvals" by simp
    show "Dollar (Suc n) \<in> set (map snd (query_params ?q))"
    proof (cases "n < length vals")
      case True
      then have "Dollar (Suc n) \<in> set (map snd (query_params q))" using base by (simp add: params_ok_def list_all_iff)
      then show ?thesis unfolding params by simp
    next
      case False
      with n cond(2) have "Cursor_param (n - length vals) \<in> snd ` set (pred_params condition)"
        by (auto simp: covers_def)
      then have "number_param (length vals + 1) (Cursor_param (n - length vals)) \<in> snd ` set ?new"
        unfolding numbered by force
      with False show ?thesis unfolding params by (simp add: number_param_def)
    qed
  qed
  ultimately show ?thesis by (simp add: params_ok_def)
qed

section \<open>Reading from page to page\<close>

text \<open>
  A client that follows the cursors: call \<open>i\<close> has the clock and the nonces \<open>ce i\<close>; the database and
  the snapshot stay as they are. None means that the fuel did not suffice.
\<close>

fun read_pages ::
  "nat \<Rightarrow> 'd::linorder explorer \<Rightarrow> jstring \<Rightarrow> jstring \<Rightarrow> explorer_snapshot \<Rightarrow> 'd database_call
     \<Rightarrow> (nat \<Rightarrow> call_env) \<Rightarrow> rows_request \<Rightarrow> (jstring \<times> js) list \<Rightarrow> nat \<Rightarrow> jstring option
     \<Rightarrow> (explorer_error + encoded_row list list) option" where
  "read_pages 0 ex key target s db ce q trusted i cursor = None"
| "read_pages (Suc fuel) ex key target s db ce q trusted i cursor =
     (case read_rows ex key target s db (ce i) (q\<lparr>rr_cursor := cursor\<rparr>) trusted of
        Inl e \<Rightarrow> Some (Inl e)
      | Inr response \<Rightarrow>
          (case rs_next_cursor response of
             None \<Rightarrow> Some (Inr [rs_rows response])
           | Some token \<Rightarrow>
               map_option (map_sum id (Cons (rs_rows response)))
                 (read_pages fuel ex key target s db ce q trusted (Suc i) (Some token))))"

text \<open>The cursor that follows a row, issued in call \<open>i\<close>.\<close>

definition row_cursor ::
  "'d explorer \<Rightarrow> jstring \<Rightarrow> explorer_snapshot \<Rightarrow> (nat \<Rightarrow> call_env) \<Rightarrow> rows_request \<Rightarrow> jstring list \<Rightarrow> nat
     \<Rightarrow> 'd row \<Rightarrow> cursor" where
  "row_cursor ex target s ce q cs i r =
     \<lparr> cur_context = request_context target s q, cur_issued = at_cursor (ce i),
       cur_expires = at_cursor (ce i) + cursor_expiry_ms, cur_sort = rr_sort q,
       cur_position = Keyset (row_keys ex cs r) \<rparr>"

text \<open>
  The situation: the request names a readable relation with a pagination key, whose columns are not
  null and unique in the rows; the filters convert; the database is reachable, its schema is the one of
  the snapshot and it does not time out; the driver and JSON keep the values of the key; each
  page is asked for within five minutes of the one before.
\<close>

definition paging_ok ::
  "'d::linorder explorer \<Rightarrow> jstring \<Rightarrow> explorer_snapshot \<Rightarrow> 'd database_call \<Rightarrow> (nat \<Rightarrow> call_env)
     \<Rightarrow> rows_request \<Rightarrow> (jstring \<times> js) list \<Rightarrow> explorer_relation \<Rightarrow> jstring list \<Rightarrow> rows_query \<Rightarrow> js list \<Rightarrow> bool" where
  "paging_ok ex target s db ce q trusted rel pk bq vals \<longleftrightarrow>
     check_request target s q = Inr rel \<and> snapshot_ok s \<and> pagination_key rel = Some pk \<and> distinct pk \<and>
     build_rows_query s (query_of q trusted None) = Inr (bq, vals) \<and> params_ok (ex_pg ex) bq vals \<and>
     db_connects db \<and> db_begins db \<and> db_live_checksum db = Some (sn_checksum s) \<and> \<not> db_times_out db \<and>
     (\<forall>r\<in>set (db_rows db). \<forall>c\<in>set pk. r c \<noteq> None) \<and> distinct (map (\<lambda>r. map r pk) (db_rows db)) \<and>
     driver_exact ex (cursor_key_columns (rr_sort q) pk) (db_rows db) \<and> gcm_ok (ex_codec ex) \<and>
     (\<forall>i. length (nonce_cursor (ce i)) = 12 \<and> at_decode (ce (Suc i)) < at_cursor (ce i) + cursor_expiry_ms) \<and>
     (\<forall>i. \<forall>r\<in>set (db_rows db).
        let v = plain (iso_string (ex_codec ex))
                  (cursor_js (row_cursor ex target s ce q (cursor_key_columns (rr_sort q) pk) i r)) in
        parse_json (ex_codec ex) (utf8 (json_text v)) = Some v)"

lemma check_request_cursor [simp]:
  "check_request target s (q\<lparr>rr_cursor := c\<rparr>) = check_request target s q"
  "request_context target s (q\<lparr>rr_cursor := c\<rparr>) = request_context target s q"
  "query_of (q\<lparr>rr_cursor := c\<rparr>) trusted pos = query_of q trusted pos"
  by (simp_all add: check_request_def request_context_def query_of_def split: option.splits cursor_position.splits)

lemma query_of_keyset:
  "query_of q trusted (Some (Keyset ks)) =
     (query_of q trusted None)\<lparr>qi_cursor := Some (build_keyset_condition ks (sort_descending (rr_sort q)))\<rparr>"
  by (simp add: query_of_def)

lemma selectable_allowed: "set (map ec_name (selectable_columns r)) = set (allowed_columns r)"
  by (auto simp: selectable_columns_def allowed_columns_def)

text \<open>The facts about the statement that the situation gives.\<close>

lemma paging_query:
  assumes "paging_ok ex target s db ce q trusted rel pk bq vals"
  defines "cs \<equiv> cursor_key_columns (rr_sort q) pk" and "L \<equiv> selected_rows (ex_pg ex) (db_rows db) bq vals"
  shows "list_all (below (length vals)) (rq_where bq)" "rq_offset bq = None"
    "rq_order bq = map (\<lambda>c. (c, sort_descending (rr_sort q))) cs"
    "rq_limit bq = nat (rr_page_size q) + 1" "set cs \<subseteq> set (rq_columns bq)"
    "\<And>p vs. build_rows_query s ((query_of q trusted None)\<lparr>qi_cursor := Some (p, vs)\<rparr>) =
              Inr (bq\<lparr>rq_where := rq_where bq @ [p]\<rparr>, vals @ vs)"
    "sorted (map (row_key (rq_order bq)) L)" "distinct (map (row_key (rq_order bq)) L)"
    "set L \<subseteq> set (db_rows db)"
proof -
  have pk: "pagination_key rel = Some pk" "distinct pk" and rel: "check_request target s q = Inr rel"
    and base: "build_rows_query s (query_of q trusted None) = Inr (bq, vals)"
    and uniq: "distinct (map (\<lambda>r. map r pk) (db_rows db))" and snap: "snapshot_ok s"
    using assms(1) by (simp_all add: paging_ok_def)
  have found: "find_relation s (rr_schema q) (rr_relation q) = Some rel"
    using rel by (auto simp: check_request_def split: option.splits if_splits)
  have none: "qi_cursor (query_of q trusted None) = None" "qi_offset (query_of q trusted None) = None"
    by (simp_all add: query_of_def)
  obtain r where r: "find_relation s (qi_schema (query_of q trusted None)) (qi_relation (query_of q trusted None)) = Some r"
    "list_all (below (length vals)) (rq_where bq)"
    "rq_order bq = order_items (qi_sort (query_of q trusted None)) (pagination_key r)"
    "rq_limit bq = qi_page_size (query_of q trusted None) + 1"
    "rq_columns bq = map ec_name (selectable_columns r)" "rq_offset bq = None"
    "\<And>c desc. qi_sort (query_of q trusted None) = Some (c, desc) \<Longrightarrow> c \<in> ec_name ` set (selectable_columns r)"
    "\<And>p vs. build_rows_query s ((query_of q trusted None)\<lparr>qi_cursor := Some (p, vs)\<rparr>) =
        Inr (bq\<lparr>rq_where := rq_where bq @ [p]\<rparr>, vals @ vs)"
    by (rule build_rows_query_base [OF base none]) blast
  have [simp]: "r = rel" using r(1) found by (simp add: query_of_def)
  show order: "rq_order bq = map (\<lambda>c. (c, sort_descending (rr_sort q))) cs"
    using r(3) pk order_of_cursor_key [OF pk(2), of "rr_sort q"] by (simp add: query_of_def cs_def)
  show "list_all (below (length vals)) (rq_where bq)" "rq_offset bq = None"
    "rq_limit bq = nat (rr_page_size q) + 1"
    "\<And>p vs. build_rows_query s ((query_of q trusted None)\<lparr>qi_cursor := Some (p, vs)\<rparr>) =
              Inr (bq\<lparr>rq_where := rq_where bq @ [p]\<rparr>, vals @ vs)"
    using r by (simp_all add: query_of_def)
  have "relation_ok rel"
    using snap found
    by (auto simp: find_relation_def snapshot_ok_def list_all_iff find_Some_iff split: option.splits prod.splits)
       (metis nth_mem prod.collapse)
  then have "set pk \<subseteq> set (rq_columns bq)"
    using pk(1)
    by (fastforce simp: relation_ok_def pagination_key_def list_all_iff list_ex_iff column_ok_def r(5)
        selectable_columns_def split: option.splits list.splits)
  then show "set cs \<subseteq> set (rq_columns bq)"
    using cursor_key_columns_props(1) [OF pk(2), of "rr_sort q"] r(7)
    by (auto simp: cs_def query_of_def r(5) split: option.splits)
  show L: "set L \<subseteq> set (db_rows db)" by (auto simp: L_def selected_rows_def)
  show "sorted (map (row_key (rq_order bq)) L)" by (simp add: L_def selected_rows_def)
  have "inj_on (row_key (rq_order bq)) (set (db_rows db))"
  proof (rule inj_onI)
    fix x y assume xy: "x \<in> set (db_rows db)" "y \<in> set (db_rows db)"
      and eq: "row_key (rq_order bq) x = row_key (rq_order bq) y"
    then have "x c = y c" if "c \<in> set cs" for c using that by (auto simp: order row_key_def)
    then have "map x pk = map y pk"
      using cursor_key_columns_props(1) [OF pk(2), of "rr_sort q"] by (auto simp: cs_def)
    with xy uniq show "x = y" by (auto simp: distinct_map inj_on_def)
  qed
  moreover have "distinct L" using uniq by (auto simp: L_def selected_rows_def distinct_map)
  ultimately show "distinct (map (row_key (rq_order bq)) L)"
    using L by (simp add: distinct_map inj_on_subset)
qed

lemma paging_fetch_first:
  assumes "paging_ok ex target s db ce q trusted rel pk bq vals"
  shows "fetch_rows ex s db (query_of q trusted None) =
    Inr (map (fetched_row (ex_pg ex) (rq_columns bq))
           (take (nat (rr_page_size q) + 1) (selected_rows (ex_pg ex) (db_rows db) bq vals)))"
  using assms paging_query [OF assms]
  by (simp add: fetch_rows_def paging_ok_def run_query_def number_cursor_def query_of_def offset_value_def)

lemma paging_fetch_after:
  assumes ok: "paging_ok ex target s db ce q trusted rel pk bq vals"
  defines "cs \<equiv> cursor_key_columns (rr_sort q) pk" and "L \<equiv> selected_rows (ex_pg ex) (db_rows db) bq vals"
  assumes n: "n < length L"
  shows "fetch_rows ex s db (query_of q trusted (Some (Keyset (decoded_keys ex cs (L ! n))))) =
    Inr (map (fetched_row (ex_pg ex) (rq_columns bq)) (take (nat (rr_page_size q) + 1) (drop (Suc n) L)))"
proof -
  note query = paging_query [OF ok, folded cs_def L_def]
  define keys desc where "keys = decoded_keys ex cs (L ! n)" and "desc = sort_descending (rr_sort q)"
  obtain condition kvals where cond: "build_keyset_condition keys desc = (condition, kvals)" by force
  have exact: "driver_exact ex cs (db_rows db)" and pk: "distinct pk"
    and notnull: "\<And>r c. r \<in> set (db_rows db) \<Longrightarrow> c \<in> set pk \<Longrightarrow> r c \<noteq> None"
    using ok unfolding paging_ok_def cs_def by blast+
  have row: "L ! n \<in> set (db_rows db)" using n query(9) nth_mem by blast
  note key = decoded_keys_cursor_key [OF exact row, folded keys_def]
  have order: "rq_order bq = map (\<lambda>k. (fst k, desc)) keys"
    by (simp add: query(3) keys_def decoded_keys_def desc_def comp_def)
  have rows: "selected_rows (ex_pg ex) (db_rows db) (with_cursor bq (length vals + 1) condition) (vals @ kvals) = drop (Suc n) L"
  proof -
    have "cursor_key (ex_pg ex) desc keys = row_key (rq_order bq) (L ! n)"
      using key(1) [of desc] by (simp add: query(3) desc_def)
    then have "selected_rows (ex_pg ex) (db_rows db) (with_cursor bq (length vals + 1) condition) (vals @ kvals)
        = filter (\<lambda>r. row_key (rq_order bq) (L ! n) < row_key (rq_order bq) r) L"
      using selected_after [OF query(1) cond key(2) order, of "db_rows db"] by (simp add: L_def)
    also have "\<dots> = drop (Suc n) L" by (rule filter_after_nth [OF query(7,8) n])
    finally show ?thesis .
  qed
  have tail: "tl keys = map (\<lambda>c. (c, plain (iso_string (ex_codec ex)) (cell_js_value (ex_pg ex) ((L ! n) c)))) (tl cs)"
    by (cases cs) (simp_all add: keys_def decoded_keys_def)
  have "v \<noteq> Null" if kv: "(c, v) \<in> set (tl keys)" for c v
  proof -
    from kv have c: "c \<in> set (tl cs)" "v = plain (iso_string (ex_codec ex)) (cell_js_value (ex_pg ex) ((L ! n) c))"
      unfolding tail by auto
    have "c \<in> set pk"
      using c(1) cursor_key_columns_props(2) [OF pk, of "rr_sort q"] unfolding cs_def by blast
    then have "(L ! n) c \<noteq> None" by (rule notnull [OF row])
    moreover have "c \<in> set cs" using c(1) tl_subset by (rule subsetD [rotated])
    then have "(v = Null) = ((L ! n) c = None)" unfolding c(2) by (rule decoded_cell(2) [OF exact row])
    ultimately show ?thesis by (simp only: simp_thms not_False_eq_True)
  qed
  then have params: "params_ok (ex_pg ex) (with_cursor bq (length vals + 1) condition) (vals @ kvals)"
    using params_ok_cursor [OF query(1,2)] keyset_condition_params [OF cond] key(2) ok
    unfolding paging_ok_def by blast
  have built: "build_rows_query s (query_of q trusted (Some (Keyset keys))) =
      Inr (bq\<lparr>rq_where := rq_where bq @ [condition]\<rparr>, vals @ kvals)"
    using query(6) [of condition kvals] cond by (simp add: query_of_keyset desc_def)
  have numbered: "number_cursor (query_of q trusted (Some (Keyset keys))) (bq\<lparr>rq_where := rq_where bq @ [condition]\<rparr>) (vals @ kvals)
      = with_cursor bq (length vals + 1) condition"
    using cond by (simp add: number_cursor_def query_of_keyset desc_def with_cursor_def)
  have ready: "db_connects db" "db_begins db" "db_live_checksum db = Some (sn_checksum s)" "\<not> db_times_out db"
    using ok by (simp_all add: paging_ok_def)
  have limit: "rq_limit (with_cursor bq (length vals + 1) condition) = nat (rr_page_size q) + 1"
      "rq_offset (with_cursor bq (length vals + 1) condition) = None"
      "rq_columns (with_cursor bq (length vals + 1) condition) = rq_columns bq"
    using query(2,4) by (simp_all add: with_cursor_def)
  show ?thesis
    unfolding fetch_rows_def keys_def [symmetric] built
    by (simp add: numbered ready run_query_def params rows limit offset_value_def del: One_nat_def)
qed

section \<open>One page\<close>

lemma page_loop_all:
  "page_loop env m rows acc n = (accepted, False, total') \<Longrightarrow> accepted = acc @ rows"
  by (induction env m rows acc n rule: page_loop.induct) (auto simp: Let_def split: if_splits)

lemma encode_rows_cells:
  "encode_rows ex key ctx ce revealed r refs i rows = Inr encoded \<Longrightarrow>
     map Some (map en_cells encoded) = map (encode_cells ex revealed (er_columns r)) rows"
  by (induction ex key ctx ce revealed r refs i rows arbitrary: encoded rule: encode_rows.induct)
     (auto split: option.splits sum.splits)

text \<open>
  A page that cannot be answered: a cell holds an invalid date, a row reference is refused, or the
  response would be too large.
\<close>

definition page_unencodable ::
  "'d explorer \<Rightarrow> jstring \<Rightarrow> token_context \<Rightarrow> explorer_snapshot \<Rightarrow> call_env \<Rightarrow> rows_request
     \<Rightarrow> explorer_relation \<Rightarrow> (jstring \<times> js) list list \<Rightarrow> explorer_error \<Rightarrow> bool" where
  "page_unencodable ex key ctx s ce q rel rows e \<longleftrightarrow>
     (case encode_rows ex key ctx ce (rr_revealed q) rel
             (row_ref_columns s (rr_schema q) (rr_relation q) rel) 0 rows of
        Inl e' \<Rightarrow> e = e'
      | Inr encoded \<Rightarrow>
          e = DATABASE_RESULT_TOO_LARGE \<and> fst (snd (encode_row_page (ex_codec ex) max_response_bytes encoded)))"

definition page_result ::
  "'d::linorder explorer \<Rightarrow> jstring \<Rightarrow> token_context \<Rightarrow> explorer_snapshot \<Rightarrow> call_env \<Rightarrow> rows_request \<Rightarrow> explorer_relation
     \<Rightarrow> cursor_position option \<Rightarrow> (jstring \<times> js) list list \<Rightarrow> explorer_error + rows_response \<Rightarrow> bool" where
  "page_result ex key ctx s ce q rel pos rows result \<longleftrightarrow>
     (case result of
        Inl e \<Rightarrow>
          next_cursor (ex_codec ex) key ctx ce q rel pos rows = Inl e \<or>
          page_unencodable ex key ctx s ce q rel (take (nat (rr_page_size q)) rows) e
      | Inr response \<Rightarrow>
          map Some (map en_cells (rs_rows response)) =
            map (encode_cells ex (rr_revealed q) (er_columns rel)) (take (nat (rr_page_size q)) rows) \<and>
          next_cursor (ex_codec ex) key ctx ce q rel pos rows = Inr (rs_next_cursor response))"

lemma map_sum_Inl: "map_sum f g x = Inl e \<longleftrightarrow> (\<exists>a. x = Inl a \<and> f a = e)"
  by (cases x) auto

lemma map_sum_Inr: "map_sum f g x = Inr y \<longleftrightarrow> (\<exists>a. x = Inr a \<and> g a = y)"
  by (cases x) auto

lemma read_rows_page:
  assumes "check_request target s q = Inr rel"
    "read_start (ex_codec ex) key (request_context target s q) (at_decode ce) q rel = Inr pos"
    "fetch_rows ex s db (query_of q trusted pos) = Inr rows"
  shows "page_result ex key (request_context target s q) s ce q rel pos rows (read_rows ex key target s db ce q trusted)"
  using assms
  by (auto simp: read_rows_def Let_def page_result_def page_unencodable_def encode_row_page_def
      split: sum.splits prod.splits if_splits dest!: encode_rows_cells page_loop_all)

lemma unencodable_cursor [simp]:
  "page_unencodable ex key ctx s ce (q\<lparr>rr_cursor := c\<rparr>) rel rows e = page_unencodable ex key ctx s ce q rel rows e"
  by (simp add: page_unencodable_def)

section \<open>From one page to the next\<close>

lemma encode_cursor_nonempty: "encode_cursor env c key nonce = Inr token \<Longrightarrow> token \<noteq> []"
  by (auto simp: encode_cursor_def seal_def Let_def token_of_def envelope_version_def split: if_splits option.splits prod.splits)

lemma paging_next_cursor:
  assumes ok: "paging_ok ex target s db ce q trusted rel pk bq vals"
  defines "cs \<equiv> cursor_key_columns (rr_sort q) pk" and "n \<equiv> nat (rr_page_size q)"
  shows "next_cursor (ex_codec ex) key (request_context target s q) (ce i) (q\<lparr>rr_cursor := c\<rparr>) rel pos
      (map (fetched_row (ex_pg ex) (rq_columns bq)) (take (n + 1) M)) =
    (if length M \<le> n then Inr None
     else map_sum id Some (encode_cursor (ex_codec ex) (row_cursor ex target s ce q cs i (M ! (n - 1))) key
            (nonce_cursor (ce i))))"
proof -
  have pk: "pagination_key rel = Some pk" and "check_request target s q = Inr rel"
    using ok unfolding paging_ok_def by blast+
  then have n: "0 < n" by (auto simp: check_request_def n_def split: if_splits)
  have cols: "set cs \<subseteq> set (rq_columns bq)" using paging_query(5) [OF ok] by (simp add: cs_def)
  show ?thesis
  proof (cases "length M \<le> n")
    case True
    then show ?thesis by (simp add: next_cursor_def n_def [symmetric])
  next
    case False
    define lastRow where "lastRow = fetched_row (ex_pg ex) (rq_columns bq) (M ! (n - 1))"
    have "last (take n (map (fetched_row (ex_pg ex) (rq_columns bq)) (take (n + 1) M))) = lastRow"
    proof -
      have ne: "take n M \<noteq> []" using False n by auto
      then have "last (take n M) = M ! (n - 1)" using False n by (simp add: last_conv_nth min_def)
      note ne this
      then show ?thesis by (simp add: take_map last_map min_def lastRow_def)
    qed
    moreover have "map (\<lambda>c. (c, row_value lastRow c)) cs = row_keys ex cs (M ! (n - 1))"
      using cols by (auto simp: row_keys_def lastRow_def row_value_fetched subset_iff)
    ultimately show ?thesis using False
      by (simp add: next_cursor_def n_def [symmetric] Let_def pk row_cursor_def cs_def [symmetric])
  qed
qed

lemma paging_read_start:
  assumes ok: "paging_ok ex target s db ce q trusted rel pk bq vals"
  defines "cs \<equiv> cursor_key_columns (rr_sort q) pk"
  assumes r: "r \<in> set (db_rows db)"
    and token: "encode_cursor (ex_codec ex) (row_cursor ex target s ce q cs i r) key (nonce_cursor (ce i)) = Inr token"
  shows "read_start (ex_codec ex) key (request_context target s q) (at_decode (ce (Suc i)))
      (q\<lparr>rr_cursor := Some token\<rparr>) rel = Inr (Some (Keyset (decoded_keys ex cs r)))"
proof -
  have gcm: "gcm_ok (ex_codec ex)" and nonce: "length (nonce_cursor (ce i)) = 12"
    and clock: "at_decode (ce (Suc i)) < at_cursor (ce i) + cursor_expiry_ms"
    and exact: "driver_exact ex cs (db_rows db)" and pk: "pagination_key rel = Some pk"
    using ok unfolding paging_ok_def cs_def by blast+
  have parse: "parse_json (ex_codec ex) (utf8 (json_text (plain (iso_string (ex_codec ex)) (cursor_js (row_cursor ex target s ce q cs i r)))))
      = Some (plain (iso_string (ex_codec ex)) (cursor_js (row_cursor ex target s ce q cs i r)))"
    using ok r unfolding paging_ok_def cs_def Let_def by blast
  have keys: "Undefined \<notin> set (map snd ks)" if "cur_position (row_cursor ex target s ce q cs i r) = Keyset ks" for ks
    using that decoded_cell(3) [OF exact r] by (fastforce simp: row_cursor_def row_keys_def)
  have "decode_cursor (ex_codec ex) token key (request_context target s q) (at_decode (ce (Suc i))) =
      Inr (row_cursor ex target s ce q cs i r\<lparr>cur_position := Keyset (decoded_keys ex cs r)\<rparr>)"
    using cursor_round_trip [OF gcm nonce token parse keys, of "at_decode (ce (Suc i))"] clock
    by (simp add: row_cursor_def row_keys_def decoded_keys_def comp_def)
  moreover have "map fst (decoded_keys ex cs r) = cs" by (simp add: decoded_keys_def comp_def)
  ultimately show ?thesis
    using encode_cursor_nonempty [OF token]
    by (cases token) (simp_all add: read_start_def row_cursor_def pk cs_def)
qed

section \<open>All pages\<close>

definition cells_of :: "'d explorer \<Rightarrow> rows_request \<Rightarrow> explorer_relation \<Rightarrow> rows_query \<Rightarrow> 'd row
    \<Rightarrow> (jstring \<times> cell) list option" where
  "cells_of ex q rel bq r =
     encode_cells ex (rr_revealed q) (er_columns rel) (fetched_row (ex_pg ex) (rq_columns bq) r)"

text \<open>What is promised of the pages that deliver the rows \<open>M\<close>.\<close>

definition pages_deliver ::
  "'d explorer \<Rightarrow> jstring \<Rightarrow> jstring \<Rightarrow> explorer_snapshot \<Rightarrow> (nat \<Rightarrow> call_env) \<Rightarrow> rows_request
     \<Rightarrow> explorer_relation \<Rightarrow> jstring list \<Rightarrow> rows_query \<Rightarrow> 'd row list \<Rightarrow> explorer_error + encoded_row list list \<Rightarrow> bool" where
  "pages_deliver ex key target s ce q rel pk bq M result \<longleftrightarrow>
     (case result of
        Inl e \<Rightarrow>
          (\<exists>i. \<exists>r\<in>set M. encode_cursor (ex_codec ex)
             (row_cursor ex target s ce q (cursor_key_columns (rr_sort q) pk) i r) key (nonce_cursor (ce i)) = Inl e) \<or>
          (\<exists>i page. set page \<subseteq> set M \<and> length page \<le> nat (rr_page_size q) \<and>
             page_unencodable ex key (request_context target s q) s (ce i) q rel
               (map (fetched_row (ex_pg ex) (rq_columns bq)) page) e)
      | Inr pages \<Rightarrow>
          map Some (map en_cells (concat pages)) = map (cells_of ex q rel bq) M \<and>
          list_all (\<lambda>page. length page = nat (rr_page_size q)) (butlast pages) \<and> pages \<noteq> [])"

lemma pages_deliver_failure:
  "set N \<subseteq> set M \<Longrightarrow> pages_deliver ex key target s ce q rel pk bq N (Inl e) \<Longrightarrow>
     pages_deliver ex key target s ce q rel pk bq M (Inl e)"
  unfolding pages_deliver_def sum.case by blast

lemma read_pages_step:
  assumes ok: "paging_ok ex target s db ce q trusted rel pk bq vals"
  defines "cs \<equiv> cursor_key_columns (rr_sort q) pk" and "n \<equiv> nat (rr_page_size q)"
  assumes start: "read_start (ex_codec ex) key (request_context target s q) (at_decode (ce i))
      (q\<lparr>rr_cursor := cursor\<rparr>) rel = Inr pos"
    and fetch: "fetch_rows ex s db (query_of q trusted pos) =
      Inr (map (fetched_row (ex_pg ex) (rq_columns bq)) (take (n + 1) M))"
    and IH: "\<And>token. n < length M \<Longrightarrow>
      encode_cursor (ex_codec ex) (row_cursor ex target s ce q cs i (M ! (n - 1))) key (nonce_cursor (ce i)) = Inr token \<Longrightarrow>
      \<exists>result. read_pages fuel ex key target s db ce q trusted (Suc i) (Some token) = Some result \<and>
        pages_deliver ex key target s ce q rel pk bq (drop n M) result"
  shows "\<exists>result. read_pages (Suc fuel) ex key target s db ce q trusted i cursor = Some result \<and>
    pages_deliver ex key target s ce q rel pk bq M result"
proof -
  define rows where "rows = map (fetched_row (ex_pg ex) (rq_columns bq)) (take (n + 1) M)"
  have check: "check_request target s (q\<lparr>rr_cursor := cursor\<rparr>) = Inr rel" and pk: "pagination_key rel = Some pk"
    using ok unfolding paging_ok_def by simp_all
  have page: "page_result ex key (request_context target s q) s (ce i) (q\<lparr>rr_cursor := cursor\<rparr>) rel pos rows
      (read_rows ex key target s db (ce i) (q\<lparr>rr_cursor := cursor\<rparr>) trusted)"
    using read_rows_page [OF check, of ex key "ce i" pos db trusted rows] start fetch
    by (simp add: rows_def)
  have nxt: "next_cursor (ex_codec ex) key (request_context target s q) (ce i) (q\<lparr>rr_cursor := cursor\<rparr>) rel pos rows =
    (if length M \<le> n then Inr None
     else map_sum id Some (encode_cursor (ex_codec ex) (row_cursor ex target s ce q cs i (M ! (n - 1))) key
            (nonce_cursor (ce i))))"
    unfolding rows_def cs_def n_def by (rule paging_next_cursor [OF ok])
  have taken: "take n rows = map (fetched_row (ex_pg ex) (rq_columns bq)) (take n M)"
    by (simp add: rows_def take_map min_def)
  show ?thesis
  proof (cases "read_rows ex key target s db (ce i) (q\<lparr>rr_cursor := cursor\<rparr>) trusted")
    case (Inl e)
    have "(\<exists>i. \<exists>r\<in>set M. encode_cursor (ex_codec ex) (row_cursor ex target s ce q cs i r) key (nonce_cursor (ce i)) = Inl e) \<or>
        page_unencodable ex key (request_context target s q) s (ce i) q rel
          (map (fetched_row (ex_pg ex) (rq_columns bq)) (take n M)) e"
    proof (cases "page_unencodable ex key (request_context target s q) s (ce i) q rel
          (map (fetched_row (ex_pg ex) (rq_columns bq)) (take n M)) e")
      case False
      with page Inl have "next_cursor (ex_codec ex) key (request_context target s q) (ce i) (q\<lparr>rr_cursor := cursor\<rparr>) rel pos rows = Inl e"
        by (simp add: page_result_def n_def [symmetric] taken unencodable_cursor)
      with nxt have "n < length M" "encode_cursor (ex_codec ex) (row_cursor ex target s ce q cs i (M ! (n - 1))) key
            (nonce_cursor (ce i)) = Inl e"
        by (auto simp: map_sum_Inl dest: sym split: if_splits)
      moreover have "M ! (n - 1) \<in> set M" using calculation(1) by simp
      ultimately show ?thesis by blast
    qed simp
    moreover have "set (take n M) \<subseteq> set M" "length (take n M) \<le> n" by (auto dest: in_set_takeD)
    ultimately show ?thesis
      unfolding read_pages.simps Inl pages_deliver_def cs_def n_def by auto
  next
    case (Inr response)
    with page have cells: "map Some (map en_cells (rs_rows response)) = map (cells_of ex q rel bq) (take n M)"
      and cur: "(if length M \<le> n then Inr None
         else map_sum id Some (encode_cursor (ex_codec ex) (row_cursor ex target s ce q cs i (M ! (n - 1))) key
            (nonce_cursor (ce i)))) = Inr (rs_next_cursor response)"
      by (simp_all add: page_result_def n_def [symmetric] taken nxt cells_of_def comp_def)
    show ?thesis
    proof (cases "length M \<le> n")
      case True
      with cur cells Inr show ?thesis by (simp add: pages_deliver_def)
    next
      case False
      with cur obtain token where token: "rs_next_cursor response = Some token"
        "encode_cursor (ex_codec ex) (row_cursor ex target s ce q cs i (M ! (n - 1))) key (nonce_cursor (ce i)) = Inr token"
        by (auto simp: map_sum_Inr dest: sym)
      from False IH [OF _ token(2)] obtain result where
        rest: "read_pages fuel ex key target s db ce q trusted (Suc i) (Some token) = Some result"
          "pages_deliver ex key target s ce q rel pk bq (drop n M) result" by auto
      have "length (rs_rows response) = n"
        using arg_cong [OF cells, of length] False by simp
      moreover have "map (cells_of ex q rel bq) M =
          map (cells_of ex q rel bq) (take n M) @ map (cells_of ex q rel bq) (drop n M)"
        by (simp flip: map_append)
      ultimately show ?thesis
        using rest cells Inr token(1) pages_deliver_failure [OF set_drop_subset [of n M]]
        by (cases result) (auto simp: pages_deliver_def [where result = "Inr x" for x] n_def)
    qed
  qed
qed

lemma read_pages_after:
  assumes ok: "paging_ok ex target s db ce q trusted rel pk bq vals"
  defines "cs \<equiv> cursor_key_columns (rr_sort q) pk" and "L \<equiv> selected_rows (ex_pg ex) (db_rows db) bq vals"
  assumes "k < length L" "length L - k \<le> fuel"
    "encode_cursor (ex_codec ex) (row_cursor ex target s ce q cs i (L ! k)) key (nonce_cursor (ce i)) = Inr token"
  shows "\<exists>result. read_pages fuel ex key target s db ce q trusted (Suc i) (Some token) = Some result \<and>
    pages_deliver ex key target s ce q rel pk bq (drop (Suc k) L) result"
  using assms(4-6)
proof (induction fuel arbitrary: k i token)
  case 0
  then show ?case by simp
next
  case (Suc fuel)
  define n where "n = nat (rr_page_size q)"
  have "check_request target s q = Inr rel" using ok unfolding paging_ok_def by blast
  then have n: "0 < n" by (auto simp: check_request_def n_def split: if_splits)
  have sub: "set L \<subseteq> set (db_rows db)" using paging_query(9) [OF ok] by (simp add: L_def)
  then have "L ! k \<in> set (db_rows db)" using Suc.prems(1) nth_mem by blast
  note start = paging_read_start [OF ok this Suc.prems(3) [unfolded cs_def], folded cs_def]
  have fetch: "fetch_rows ex s db (query_of q trusted (Some (Keyset (decoded_keys ex cs (L ! k))))) =
      Inr (map (fetched_row (ex_pg ex) (rq_columns bq)) (take (nat (rr_page_size q) + 1) (drop (Suc k) L)))"
    using paging_fetch_after [OF ok, of k] Suc.prems(1) by (simp add: cs_def L_def)
  show ?case
  proof (rule read_pages_step [OF ok start fetch], fold cs_def n_def)
    fix t
    assume more: "n < length (drop (Suc k) L)"
      and t: "encode_cursor (ex_codec ex) (row_cursor ex target s ce q cs (Suc i) (drop (Suc k) L ! (n - 1))) key
                (nonce_cursor (ce (Suc i))) = Inr t"
    have "drop (Suc k) L ! (n - 1) = L ! (k + n)" using more n by simp
    with t more Suc.IH [of "k + n" "Suc i" t] Suc.prems(2) n
    show "\<exists>result. read_pages fuel ex key target s db ce q trusted (Suc (Suc i)) (Some t) = Some result \<and>
        pages_deliver ex key target s ce q rel pk bq (drop n (drop (Suc k) L)) result"
      by (simp add: ac_simps)
  qed
qed

text \<open>
  C14. In the situation of \<open>paging_ok\<close> (the request is allowed and its parameters fit, the database answers,
  its schema is the one of the snapshot and its rows do not change meanwhile, the driver gives back the
  values of the key columns unrounded, the columns of the key hold no nulls and tell the rows apart, the
  sealing and printing of a cursor can be undone, and each cursor is used in time), a client that follows the
  cursors from the first page makes at most one call more than there are rows, and ends in one of two
  ways: it got every row of the ordered result exactly once, in order and on full pages except the last;
  or a call failed because the cursor of a row could not be sealed or the rows of a page could not be
  encoded, and never because a cursor was not accepted, or because of its condition or its parameters.
  Outside of this situation rows can be missed: timestamps the driver rounds are an example
  (\<open>descending_timestamps_skip_rows\<close>).
\<close>

theorem pages_deliver_all_rows:
  assumes "paging_ok ex target s db ce q trusted rel pk bq vals"
  defines "L \<equiv> selected_rows (ex_pg ex) (db_rows db) bq vals"
  shows "\<exists>result. read_pages (Suc (length L)) ex key target s db ce q trusted 0 None = Some result \<and>
    pages_deliver ex key target s ce q rel pk bq L result"
proof -
  define n where "n = nat (rr_page_size q)"
  have "check_request target s q = Inr rel" using assms(1) unfolding paging_ok_def by blast
  then have n: "0 < n" by (auto simp: check_request_def n_def split: if_splits)
  have start: "read_start (ex_codec ex) key (request_context target s q) (at_decode (ce 0))
      (q\<lparr>rr_cursor := None\<rparr>) rel = Inr None" by (simp add: read_start_def)
  have fetch: "fetch_rows ex s db (query_of q trusted None) =
      Inr (map (fetched_row (ex_pg ex) (rq_columns bq)) (take (nat (rr_page_size q) + 1) L))"
    using paging_fetch_first [OF assms(1)] by (simp add: L_def)
  show ?thesis
  proof (rule read_pages_step [OF assms(1) start fetch], fold n_def)
    fix t
    assume more: "n < length L" and t: "encode_cursor (ex_codec ex)
        (row_cursor ex target s ce q (cursor_key_columns (rr_sort q) pk) 0 (L ! (n - 1))) key (nonce_cursor (ce 0)) = Inr t"
    have "n - 1 < length L" "Suc (n - 1) = n" using more n by auto
    then show "\<exists>result. read_pages (length L) ex key target s db ce q trusted (Suc 0) (Some t) = Some result \<and>
        pages_deliver ex key target s ce q rel pk bq (drop n L) result"
      using read_pages_after [OF assms(1), of "n - 1" "length L" 0 key t] t by (simp add: L_def)
  qed
qed

end
