(* ===== verification/ExplorerSafety.thy ===== *)
theory ExplorerSafety
  imports ExplorerPages
begin

text \<open>
  What never leaves the database explorer, and two ways in which its pages fall short of the ordered
  result: a key that does not fit into a cursor, and a key that JSON does not keep.
\<close>

section \<open>Blocked columns\<close>

text \<open>Two contents of a relation that only differ in columns that may not be read.\<close>

definition same_readable :: "explorer_relation \<Rightarrow> 'd row list \<Rightarrow> 'd row list \<Rightarrow> bool" where
  "same_readable r xs ys \<longleftrightarrow> list_all2 (\<lambda>x y. \<forall>c\<in>set (allowed_columns r). x c = y c) xs ys"

fun pred_columns :: "sql_pred \<Rightarrow> jstring list" where
  "pred_columns (Is_null c) = [c]"
| "pred_columns (Is_not_null c) = [c]"
| "pred_columns (Compare op c p) = [c]"
| "pred_columns (Ilike c p) = [c]"
| "pred_columns (All_of ps) = concat (map pred_columns ps)"
| "pred_columns (Any_of ps) = concat (map pred_columns ps)"

lemma eval_pred_cong:
  "(\<And>c. c \<in> set (pred_columns p) \<Longrightarrow> x c = y c) \<Longrightarrow> eval_pred pg params x p = eval_pred pg params y p"
proof (induction pg params x p rule: eval_pred.induct)
  case (5 pg params x ps)
  then have "map (eval_pred pg params x) ps = map (eval_pred pg params y) ps" by (intro map_cong) auto
  then show ?case by (simp only: eval_pred.simps)
next
  case (6 pg params x ps)
  then have "map (eval_pred pg params x) ps = map (eval_pred pg params y) ps" by (intro map_cong) auto
  then show ?case by (simp only: eval_pred.simps)
qed simp_all

lemma pred_columns_number [simp]: "pred_columns (number_params n p) = pred_columns p"
  by (induction n p rule: number_params.induct) (simp_all add: comp_def cong: map_cong)

lemma column_allowed: "c \<in> set (er_columns r) \<Longrightarrow> ec_selectable c \<Longrightarrow> ec_class c \<noteq> Blocked \<Longrightarrow> ec_name c \<in> set (allowed_columns r)"
  by (auto simp: allowed_columns_def)

lemma operator_pred_columns [simp]: "pred_columns (operator_pred op c p) = [c]"
  by (cases op) (simp_all add: operator_pred_def)

lemma filter_loop_columns:
  assumes "filter_loop (er_columns r) fs n preds vals = Inr (preds', vals', m)"
    "set (concat (map pred_columns preds)) \<subseteq> set (allowed_columns r)"
  shows "set (concat (map pred_columns preds')) \<subseteq> set (allowed_columns r)"
  using assms
proof (induction "er_columns r" fs n preds vals rule: filter_loop.induct)
  case (2 f fs n preds vals)
  obtain col where col: "column_named (er_columns r) (fl_column f) = Some col"
      "\<not> (ec_class col = Blocked \<or> \<not> ec_selectable col)" "\<not> (fl_operator f \<notin> set (ec_operators col))"
    using "2.prems"(1) by (auto split: option.splits if_splits)
  have "col \<in> set (er_columns r)"
    using col(1) by (auto simp: column_named_def dest!: map_of_SomeD)
  with col(2) have ok: "ec_name col \<in> set (allowed_columns r)" by (simp add: column_allowed)
  show ?case
  proof (cases "fl_operator f \<in> {Op_is_null, Op_is_not_null}")
    case True
    with "2.hyps"(1) [OF col True] "2.prems" col ok show ?thesis by simp
  next
    case False
    with "2.prems"(1) col obtain v where v: "fl_value f = Some v" "\<not> length v > 200"
      by (auto split: option.splits if_splits)
    from "2.hyps"(2) [OF col False v] "2.prems" col False v ok show ?thesis by simp
  qed
qed simp

lemma trusted_loop_columns:
  "trusted_loop (er_columns r) es n = Inr (ps, vs, m) \<Longrightarrow>
     set (concat (map pred_columns ps)) \<subseteq> set (allowed_columns r)"
proof (induction "er_columns r" es n arbitrary: ps vs m rule: trusted_loop.induct)
  case (2 name v es n)
  then obtain qs ws col where rest: "trusted_loop (er_columns r) es (n + 1) = Inr (qs, ws, m)"
      "ps = Compare Eq (ec_name col) (Dollar n) # qs"
      and col: "List.find (\<lambda>c. ec_name c = name) (er_columns r) = Some col"
      "\<not> (ec_class col = Blocked \<or> \<not> ec_selectable col)" "\<not> (v = Undefined \<or> v = Null)"
    by (auto split: option.splits if_splits sum.splits)
  from col(1) have "col \<in> set (er_columns r)" by (auto simp: find_Some_iff)
  with col(2) have "ec_name col \<in> set (allowed_columns r)" by (simp add: column_allowed)
  with "2.hyps" [OF col rest(1)] show ?case by (simp add: rest(2))
qed simp

lemma keyset_prefix_columns: "set (concat (map pred_columns (fst (keyset_prefix ks vs)))) \<subseteq> fst ` set ks"
proof (induction ks vs rule: keyset_prefix.induct)
  case (2 c v ks vs)
  then show ?case by (cases "v = Null") (simp_all add: Let_def split_beta subset_iff)
qed simp

lemma keyset_terms_columns:
  "set (concat (map pred_columns (fst (keyset_terms desc before ks vs)))) \<subseteq> fst ` set (before @ ks)"
proof (induction desc before ks vs rule: keyset_terms.induct)
  case (2 desc before c v ks vs)
  obtain ps vs1 where prefix: "keyset_prefix before vs = (ps, vs1)" by force
  then have cols: "set (concat (map pred_columns ps)) \<subseteq> fst ` set before"
    using keyset_prefix_columns [of before vs] by simp
  show ?case
  proof (cases "v = Null")
    case True
    with "2.IH"(1) [OF prefix [symmetric] refl True] prefix show ?thesis by auto
  next
    case False
    obtain ts vs2 where rest: "keyset_terms desc (before @ [(c, v)]) ks (vs1 @ [v]) = (ts, vs2)" by force
    from "2.IH"(2) [OF prefix [symmetric] refl False refl] have "set (concat (map pred_columns ts)) \<subseteq> fst ` set (before @ (c, v) # ks)"
      by (simp add: rest)
    with cols False prefix rest show ?thesis by (auto simp: Let_def)
  qed
qed simp

lemma keyset_condition_columns: "set (pred_columns (fst (build_keyset_condition ks desc))) \<subseteq> fst ` set ks"
  using keyset_terms_columns [of desc "[]" ks "[]"]
  by (auto simp: build_keyset_condition_def split_beta Let_def)

lemma list_all2_insort_key:
  assumes "list_all2 R xs ys" "R x y" "\<And>x y. R x y \<Longrightarrow> f x = g y"
  shows "list_all2 R (insort_key f x xs) (insort_key g y ys)"
  using assms by (induction xs ys rule: list_all2_induct) auto

lemma list_all2_sort_key:
  assumes "list_all2 R xs ys" "\<And>x y. R x y \<Longrightarrow> f x = g y"
  shows "list_all2 R (sort_key f xs) (sort_key g ys)"
  using assms(1) by (induction xs ys rule: list_all2_induct)
    (simp_all add: sort_key_def list_all2_insort_key [OF _ _ assms(2)])

lemma list_all2_filter_same:
  assumes "list_all2 R xs ys" "\<And>x y. R x y \<Longrightarrow> P x = Q y"
  shows "list_all2 R (filter P xs) (filter Q ys)"
  using assms(1) by (induction xs ys rule: list_all2_induct) (auto dest: assms(2))

text \<open>A statement that names readable columns only does not see the others.\<close>

lemma run_query_readable:
  assumes same: "same_readable r xs ys"
    and "set (concat (map pred_columns (rq_where q))) \<subseteq> set (allowed_columns r)"
    and "fst ` set (rq_order q) \<subseteq> set (allowed_columns r)" "set (rq_columns q) \<subseteq> set (allowed_columns r)"
  shows "run_query pg xs q params = run_query pg ys q params"
proof -
  define R where "R x y \<longleftrightarrow> (\<forall>c\<in>set (allowed_columns r). x c = y c)" for x y :: "'a row"
  have all: "list_all2 R xs ys" using same by (simp add: same_readable_def R_def [abs_def])
  have "eval_pred pg params x (All_of (rq_where q)) = eval_pred pg params y (All_of (rq_where q))" if "R x y" for x y
    by (rule eval_pred_cong) (use that assms(2) in \<open>auto simp: R_def\<close>)
  then have "list_all2 R (filter (\<lambda>x. eval_pred pg params x (All_of (rq_where q)) = Some True) xs)
      (filter (\<lambda>x. eval_pred pg params x (All_of (rq_where q)) = Some True) ys)"
    by (intro list_all2_filter_same [OF all]) simp
  moreover have "row_key (rq_order q) x = row_key (rq_order q) y" if "R x y" for x y
    using that assms(3) by (force simp: R_def row_key_def)
  ultimately have "list_all2 R (selected_rows pg xs q params) (selected_rows pg ys q params)"
    unfolding selected_rows_def by (rule list_all2_sort_key)
  moreover have "fetched_row pg (rq_columns q) x = fetched_row pg (rq_columns q) y" if "R x y" for x y
    using that assms(4) by (auto simp: R_def fetched_row_def)
  ultimately have "list_all2 (=) (map (fetched_row pg (rq_columns q)) (selected_rows pg xs q params))
      (map (fetched_row pg (rq_columns q)) (selected_rows pg ys q params))"
    by (auto simp: list_all2_conv_all_nth)
  then have "map (fetched_row pg (rq_columns q)) (selected_rows pg xs q params) =
      map (fetched_row pg (rq_columns q)) (selected_rows pg ys q params)" by (simp add: list_all2_eq)
  then show ?thesis by (simp add: run_query_def take_map [symmetric] drop_map [symmetric])
qed

lemma build_rows_query_columns:
  assumes built: "build_rows_query s i = Inr (q, vals)" and rel: "find_relation s (qi_schema i) (qi_relation i) = Some r"
    and key: "\<And>pk. pagination_key r = Some pk \<Longrightarrow> set pk \<subseteq> set (allowed_columns r)"
    and cursor: "\<And>p vs. qi_cursor i = Some (p, vs) \<Longrightarrow> (\<And>c desc. qi_sort i = Some (c, desc) \<Longrightarrow> c \<in> set (allowed_columns r)) \<Longrightarrow>
        set (pred_columns p) \<subseteq> set (allowed_columns r)"
  shows "set (concat (map pred_columns (rq_where q))) \<subseteq> set (allowed_columns r) \<and>
    fst ` set (rq_order q) \<subseteq> set (allowed_columns r) \<and> set (rq_columns q) \<subseteq> set (allowed_columns r)"
proof -
  have r: "er_data_available r" "selectable_columns r \<noteq> []"
      "\<not> (case qi_sort i of None \<Rightarrow> False
          | Some (c, _) \<Rightarrow> \<not> list_ex (\<lambda>col. ec_name col = c) (selectable_columns r))"
    using built rel by (auto simp: build_rows_query_def split: option.splits if_splits)
  then obtain preds fvals n where f: "build_filter_sql (er_columns r) (qi_filters i) 1 = Inr (preds, fvals, n)"
    using built rel by (auto simp: build_rows_query_def split: option.splits if_splits sum.splits)
  with r rel obtain ps tvals m where t: "trusted_loop (er_columns r) (qi_trusted i) n = Inr (ps, tvals, m)"
    using built by (auto simp: build_rows_query_def split: option.splits if_splits sum.splits)
  have q: "rq_where q = preds @ ps @ (case qi_cursor i of None \<Rightarrow> [] | Some (p, vs) \<Rightarrow> [p])"
      "rq_columns q = map ec_name (selectable_columns r)"
      "rq_order q = order_items (qi_sort i) (pagination_key r)"
    using built rel r f t
    by (auto simp: build_rows_query_def Let_def split_beta split: option.splits if_splits)
  have sorted_by: "c \<in> set (allowed_columns r)" if "qi_sort i = Some (c, desc)" for c desc
    using r(3) that by (auto simp: list_ex_iff selectable_columns_def allowed_columns_def)
  have "set (concat (map pred_columns preds)) \<subseteq> set (allowed_columns r)"
    using f filter_loop_columns [of r "qi_filters i" 1 "[]" "[]" preds fvals n]
    by (auto simp: build_filter_sql_def split: if_splits)
  moreover note trusted_loop_columns [OF t]
  moreover have "set (concat (map pred_columns (case qi_cursor i of None \<Rightarrow> [] | Some (p, vs) \<Rightarrow> [p]))) \<subseteq> set (allowed_columns r)"
    using cursor sorted_by by (cases "qi_cursor i") auto
  ultimately have "set (concat (map pred_columns (rq_where q))) \<subseteq> set (allowed_columns r)" by (simp add: q)
  moreover have "fst ` set (rq_order q) \<subseteq> set (allowed_columns r)"
    using key sorted_by
    by (cases "pagination_key r"; cases "qi_sort i") (auto simp: q order_items_def)
  ultimately show ?thesis using selectable_allowed [of r] by (simp add: q)
qed

text \<open>
  C15. What a page answers does not depend on blocked columns: two contents of a relation that agree in
  its readable columns give the same response to every request, its filters, sort, cursor, foreign keys,
  row references and errors included.
\<close>

theorem blocked_columns_do_not_flow:
  assumes "snapshot_ok s"
    and "\<And>r. find_relation s (rr_schema q) (rr_relation q) = Some r \<Longrightarrow> same_readable r (db_rows db) ys"
  shows "read_rows ex key target s (db\<lparr>db_rows := ys\<rparr>) ce q trusted = read_rows ex key target s db ce q trusted"
proof (cases "check_request target s q")
  case (Inl e)
  then show ?thesis by (simp add: read_rows_def)
next
  case (Inr r)
  then have rel: "find_relation s (rr_schema q) (rr_relation q) = Some r"
    by (auto simp: check_request_def split: option.splits if_splits)
  note same = assms(2) [OF rel]
  have "relation_ok r"
    using assms(1) rel
    by (auto simp: find_relation_def snapshot_ok_def list_all_iff find_Some_iff split: option.splits prod.splits)
       (metis nth_mem prod.collapse)
  then have key: "set pk \<subseteq> set (allowed_columns r)" if "pagination_key r = Some pk" for pk
    using that
    by (fastforce simp: relation_ok_def pagination_key_def list_all_iff list_ex_iff column_ok_def allowed_columns_def
        split: option.splits list.splits)
  show ?thesis
  proof (cases "read_start (ex_codec ex) key (request_context target s q) (at_decode ce) q r")
    case (Inl e)
    with Inr show ?thesis by (simp add: read_rows_def Let_def)
  next
    case pos: (Inr pos)
    have cursor: "set (pred_columns p) \<subseteq> set (allowed_columns r)"
      if "qi_cursor (query_of q trusted pos) = Some (p, vs)"
        "\<And>c desc. qi_sort (query_of q trusted pos) = Some (c, desc) \<Longrightarrow> c \<in> set (allowed_columns r)" for p vs
    proof -
      from that(1) obtain ks where ks': "pos = Some (Keyset ks)"
          "build_keyset_condition ks (sort_descending (rr_sort q)) = (p, vs)"
        by (auto simp: query_of_def split: option.splits cursor_position.splits)
      then have ks: "pos = Some (Keyset ks)" "p = fst (build_keyset_condition ks (sort_descending (rr_sort q)))"
        by simp_all
      from pos obtain pk where pk: "pagination_key r = Some pk" "map fst ks = cursor_key_columns (rr_sort q) pk"
        by (auto simp: ks(1) read_start_def split: option.splits list.splits sum.splits cursor_position.splits if_splits)
      have "set (cursor_key_columns srt k) \<subseteq> set k \<union> (case srt of None \<Rightarrow> {} | Some (c, _) \<Rightarrow> {c})" for srt k
      proof -
        have "set (foldl (\<lambda>cs c. if c \<in> set cs then cs else cs @ [c]) cs k) \<subseteq> set k \<union> set cs" for cs
          by (induction k arbitrary: cs) (auto, fastforce+)
        then show ?thesis by (fastforce simp: cursor_key_columns_def split: option.splits)
      qed
      then have "fst ` set ks \<subseteq> set pk \<union> (case rr_sort q of None \<Rightarrow> {} | Some (c, _) \<Rightarrow> {c})"
        unfolding set_map [symmetric] pk(2) .
      also have "\<dots> \<subseteq> set (allowed_columns r)"
        using key [OF pk(1)] that(2) by (auto simp: query_of_def split: option.splits)
      finally show ?thesis using keyset_condition_columns [of ks "sort_descending (rr_sort q)"] ks(2) by blast
    qed
    have "run_query (ex_pg ex) ys (number_cursor (query_of q trusted pos) bq vals) vals =
        run_query (ex_pg ex) (db_rows db) (number_cursor (query_of q trusted pos) bq vals) vals"
      if built: "build_rows_query s (query_of q trusted pos) = Inr (bq, vals)" for bq vals
    proof -
      have "find_relation s (qi_schema (query_of q trusted pos)) (qi_relation (query_of q trusted pos)) = Some r"
        using rel by (simp add: query_of_def)
      from build_rows_query_columns [OF built this key cursor]
      show ?thesis
        by (intro run_query_readable [OF same, symmetric])
           (auto simp: number_cursor_def split: option.splits)
    qed
    then have "fetch_rows ex s (db\<lparr>db_rows := ys\<rparr>) (query_of q trusted pos) = fetch_rows ex s db (query_of q trusted pos)"
      by (auto simp: fetch_rows_def split: sum.splits option.splits)
    with Inr pos show ?thesis by (simp add: read_rows_def Let_def)
  qed
qed

section \<open>Keys that do not fit into a cursor\<close>

lemma oversized_text:
  assumes "3034 < n" shows "max_cursor_bytes < token_overhead Cursor_token + base64_text_bytes n"
proof -
  define d m where "d = n div 3" and "m = n mod 3"
  have n: "n = 3 * d + m" "m < 3" by (simp_all add: d_def m_def)
  with assms have d: "1011 \<le> d" by linarith
  have "4047 \<le> d * 4 + (if m = 0 then 0 else m + 1)"
  proof (cases "d = 1011")
    case True
    with n assms have "m = 2" by linarith
    with True show ?thesis by simp
  next
    case False
    with d show ?thesis by simp
  qed
  then show ?thesis
    unfolding base64_text_bytes_def max_cursor_bytes_def d_def [symmetric] m_def [symmetric] by simp
qed

text \<open>
  A page after which there are more rows is refused as a whole, with the error of an invalid cursor
  although the request has none, when the JSON text of the cursor after its last row is longer than
  3034 bytes, as with a sort by a long text.
\<close>

theorem oversized_key_refuses_page:
  assumes ok: "paging_ok ex target s db ce q trusted rel pk bq vals"
    and more: "nat (rr_page_size q) < length (selected_rows (ex_pg ex) (db_rows db) bq vals)"
    and long: "3034 < byte_length (json_text (plain (iso_string (ex_codec ex)) (cursor_js
      (row_cursor ex target s ce q (cursor_key_columns (rr_sort q) pk) 0
        (selected_rows (ex_pg ex) (db_rows db) bq vals ! (nat (rr_page_size q) - 1))))))"
  shows "read_rows ex key target s db (ce 0) (q\<lparr>rr_cursor := None\<rparr>) trusted = Inl DATABASE_CURSOR_INVALID"
proof -
  define L where "L = selected_rows (ex_pg ex) (db_rows db) bq vals"
  define c where "c = row_cursor ex target s ce q (cursor_key_columns (rr_sort q) pk) 0 (L ! (nat (rr_page_size q) - 1))"
  have check: "check_request target s q = Inr rel" using ok unfolding paging_ok_def by blast
  have "seal (ex_codec ex) Cursor_token (cur_context c) (Some (cursor_js c)) key (nonce_cursor (ce 0)) False
      = Inl DATABASE_CURSOR_INVALID"
    using oversized_text [OF long] by (simp add: seal_def Let_def c_def L_def byte_length_def)
  then have "encode_cursor (ex_codec ex) c key (nonce_cursor (ce 0)) = Inl DATABASE_CURSOR_INVALID"
    by (simp add: encode_cursor_def)
  then have "next_cursor (ex_codec ex) key (request_context target s q) (ce 0) (q\<lparr>rr_cursor := None\<rparr>) rel None
      (map (fetched_row (ex_pg ex) (rq_columns bq)) (take (nat (rr_page_size q) + 1) L)) = Inl DATABASE_CURSOR_INVALID"
    unfolding paging_next_cursor [OF ok] using more by (simp add: c_def L_def)
  then show ?thesis
    using check paging_fetch_first [OF ok] by (simp add: read_rows_def Let_def read_start_def L_def [symmetric])
qed

section \<open>Keys that JSON does not keep\<close>

text \<open>
  The driver reads a timestamp as a Date, which has milliseconds, while PostgreSQL keeps
  microseconds. With a descending sort by such a column, a row that comes after the last row of a page
  and lies in the same millisecond is not among the rows that the cursor selects: no page delivers it.
\<close>

theorem descending_timestamps_skip_rows:
  fixes ex :: "int explorer"
  assumes order: "rq_order bq = [(c, True), (k, True)]" "list_all (below (length vals)) (rq_where bq)"
    and cond: "build_keyset_condition (decoded_keys ex [c, k] x) True = (condition, kvals)"
    and driver: "x c = Some t" "fetch (ex_pg ex) t = Date (t div 1000)"
      "bind (ex_pg ex) c (Str (iso_string (ex_codec ex) (t div 1000))) = Some (1000 * (t div 1000))"
      "key_bound (ex_pg ex) (decoded_keys ex [k] x)"
    and other: "y c = Some t'" "1000 * (t div 1000) < t'" "t' < t"
  shows "row_key (rq_order bq) x < row_key (rq_order bq) y \<and>
    y \<notin> set (selected_rows (ex_pg ex) table (with_cursor bq (length vals + 1) condition) (vals @ kvals))"
proof -
  have key: "decoded_keys ex [c, k] x = (c, Str (iso_string (ex_codec ex) (t div 1000))) # decoded_keys ex [k] x"
    using driver by (simp add: decoded_keys_def cell_js_value_def)
  have bound: "key_bound (ex_pg ex) (decoded_keys ex [c, k] x)"
    using driver by (simp add: key key_bound_def)
  have ord: "rq_order bq = map (\<lambda>k. (fst k, True)) (decoded_keys ex [c, k] x)"
    by (simp add: order(1) decoded_keys_def)
  have "\<not> cursor_key (ex_pg ex) True (decoded_keys ex [c, k] x) < row_key (rq_order bq) y"
    using driver(3) other by (simp add: key cursor_key_def row_key_def order(1) bound_cell_def order_key_def)
  moreover have "row_key (rq_order bq) x < row_key (rq_order bq) y"
    using driver(1) other by (simp add: row_key_def order(1) order_key_def)
  ultimately show ?thesis
    using selected_after [OF order(2) cond bound ord, of table] by simp
qed

end
