(* ===== verification/ExplorerSample.thy ===== *)
theory ExplorerSample
  imports ExplorerSafety
begin

text \<open>
  A sample target for the properties of the database explorer: a relation with a key and a blocked
  column and thirty rows, a codec whose cipher is the identity, and a driver that keeps integers.
\<close>

section \<open>The sample\<close>

definition sample_catalog :: base_snapshot where
  "sample_catalog =
     \<lparr> bs_checksum = u ''c1'',
       bs_schemas = [(u ''public'',
         [\<lparr> br_name = u ''visits'', br_kind = Table,
            br_columns =
              [\<lparr> bc_name = u ''id'', bc_type = u ''integer'', bc_nullable = False, bc_has_default = True,
                 bc_identity = None, bc_generated = False \<rparr>,
               \<lparr> bc_name = u ''token'', bc_type = u ''text'', bc_nullable = True, bc_has_default = False,
                 bc_identity = None, bc_generated = False \<rparr>],
            br_constraints =
              [\<lparr> co_name = u ''pk'', co_kind = Primary_key, co_columns = [u ''id''], co_referenced = None \<rparr>],
            br_indexes = [] \<rparr>])] \<rparr>"

definition sample_approval :: policy_approval where
  "sample_approval =
     \<lparr> pa_version = database_policy_version, pa_targets = (\<lambda>t. if t = u ''ops'' then Some (u ''c1'') else None) \<rparr>"

definition sample_schema_call :: schema_call where
  "sample_schema_call =
     \<lparr> sc_now = 0, sc_stored = 5, sc_connects = True, sc_base = Some sample_catalog,
       sc_approval = Some sample_approval, sc_estimates = None, sc_enums = Some [] \<rparr>"

definition sample_column :: explorer_column where
  "sample_column =
     \<lparr> ec_name = u ''id'', ec_type = u ''integer'', ec_nullable = False, ec_has_default = True,
       ec_identity = None, ec_generated = False, ec_class = Internal, ec_selectable = True,
       ec_operators = [Op_eq, Op_neq, Op_gt, Op_gte, Op_lt, Op_lte, Op_is_null, Op_is_not_null] \<rparr>"

definition sample_hidden :: explorer_column where
  "sample_hidden =
     \<lparr> ec_name = u ''token'', ec_type = u ''text'', ec_nullable = True, ec_has_default = False,
       ec_identity = None, ec_generated = False, ec_class = Blocked, ec_selectable = False, ec_operators = [] \<rparr>"

definition sample_relation :: explorer_relation where
  "sample_relation =
     \<lparr> er_name = u ''visits'', er_kind = Table, er_columns = [sample_column, sample_hidden],
       er_constraints = [\<lparr> co_name = u ''pk'', co_kind = Primary_key, co_columns = [u ''id''], co_referenced = None \<rparr>],
       er_indexes = [], er_estimated_rows = None, er_data_available = True,
       er_primary_key = Some [u ''id''], er_pagination_key = Some [u ''id''] \<rparr>"

definition sample_snapshot :: explorer_snapshot where
  "sample_snapshot =
     \<lparr> sn_target = u ''ops'', sn_checksum = u ''c1'', sn_policy = database_policy_version,
       sn_schemas = [(u ''public'', [sample_relation])], sn_edges = [] \<rparr>"

lemma u_literals:
  "u ''id'' \<noteq> u ''token''" "u ''ops'' \<noteq> u ''edutrack_production''"
  by simp_all

lemma sample_classes:
  "classify_column (u ''ops'') (u ''public'') (u ''visits'') (u ''id'') = Internal"
  "classify_column (u ''ops'') (u ''public'') (u ''visits'') (u ''token'') = Blocked"
  by (simp_all add: classify_column_def Let_def blocked_set_def exact_blocked_overrides_def column_key_def
      lower_def lower_unit_def word_le_nat_alt is_blocked_name_def blocked_tokens_def token_in_def units_start_def
      units_end_def is_pii_name_def pii_tokens_def pii_set_def public_set_def)

lemma sample_operators:
  "get_filter_operators (u ''integer'') Internal False = ec_operators sample_column"
  "get_filter_operators (u ''text'') Blocked False = []"
  by (simp_all add: get_filter_operators_def base_type_def lower_def lower_unit_def word_le_nat_alt
      line_end_def Let_def trim_units_def unit_white_def text_types_def numeric_types_def sample_column_def)

lemma sample_fresh_snapshot: "fresh_snapshot (\<lambda>_ _. True) (u ''ops'') sample_schema_call = Some sample_snapshot"
  by (simp add: fresh_snapshot_def sample_schema_call_def sample_catalog_def explorer_snapshot_of_def Let_def
      sample_snapshot_def policy_approved_def sample_approval_def explorer_relation_of_def explorer_column_of_def
      sample_classes sample_operators sample_relation_def sample_column_def sample_hidden_def
      primary_key_def natural_key_def non_nullable_def drop_hidden_key_def relation_edges_def List.map_filter_def
      sort_by_def del: u_simps)

text \<open>
  Witness of \<open>snapshot_well_formed\<close>: the snapshot derived from the catalog keeps the key column and
  hides the token column, and the second read takes it from the cache.
\<close>

lemma sample_reads:
  "schema_run (\<lambda>_ _. True) (u ''ops'') None [Some sample_schema_call, Some sample_schema_call] None =
     ([Inr sample_snapshot, Inr sample_snapshot], Some (sample_snapshot, sc_stored sample_schema_call + 60000))"
  by (simp add: read_schema_def sample_fresh_snapshot cache_ttl_ms_def del: u_simps)
     (simp add: sample_schema_call_def)

theorem snapshot_well_formed_witness:
  "list_all answer_ok [Inr sample_snapshot, Inr sample_snapshot] \<and>
   cache_ok (Some (sample_snapshot, sc_stored sample_schema_call + 60000))"
  by (rule snapshot_well_formed [OF sample_reads])

section \<open>Thirty rows\<close>

definition sample_row :: "nat \<Rightarrow> int row" where
  "sample_row n c = (if c = u ''id'' then Some (int n) else None)"

definition sample_rows :: "int row list" where
  "sample_rows = map sample_row [0..<30]"

definition sample_request :: rows_request where
  "sample_request =
     \<lparr> rr_target = u ''ops'', rr_schema = u ''public'', rr_relation = u ''visits'', rr_page_size = 25,
       rr_cursor = None, rr_sort = None, rr_filters = [], rr_revealed = False \<rparr>"

definition sample_call :: "nat \<Rightarrow> call_env" where
  "sample_call i =
     \<lparr> at_decode = 10, at_cursor = 20, at_row = (\<lambda>_. 20), nonce_cursor = replicate 12 0,
       nonce_row = (\<lambda>_. replicate 12 0) \<rparr>"

definition sample_cursor :: "nat \<Rightarrow> cursor" where
  "sample_cursor n =
     \<lparr> cur_context = request_context (u ''ops'') sample_snapshot sample_request, cur_issued = 20,
       cur_expires = 20 + cursor_expiry_ms, cur_sort = None,
       cur_position = Keyset [(u ''id'', Num (int n))] \<rparr>"

text \<open>A parser for the cursors of the sample: it reads the digits in front of the last three bytes.\<close>

definition last_number :: "bytes \<Rightarrow> nat" where
  "last_number b =
     nat_of_digits (map (\<lambda>x. char_of (unat x)) (rev (takeWhile (\<lambda>x. 0x30 \<le> x \<and> x \<le> 0x39) (drop 3 (rev b)))))"

definition sample_codec :: codec_env where
  "sample_codec =
     \<lparr> derive = (\<lambda>_ _. []), gcm_seal = (\<lambda>_ _ _ p. (p, replicate 16 0)), gcm_open = (\<lambda>_ _ _ ct _. Some ct),
       parse_json = (\<lambda>b. Some (cursor_js (sample_cursor (last_number b)))),
       iso_string = (\<lambda>t. u (string_of_int t)), parse_iso = (\<lambda>_. None) \<rparr>"

definition sample_explorer :: "int explorer" where
  "sample_explorer =
     \<lparr> ex_codec = sample_codec,
       ex_pg = \<lparr> fetch = Num, bind = (\<lambda>_ v. case v of Num n \<Rightarrow> Some n | _ \<Rightarrow> None), matches = (\<lambda>_ _. False) \<rparr>,
       ex_show = (\<lambda>_. []), ex_sha256 = (\<lambda>_. []) \<rparr>"

definition sample_database :: "int database_call" where
  "sample_database =
     \<lparr> db_connects = True, db_begins = True, db_live_checksum = Some (u ''c1''), db_times_out = False,
       db_rows = sample_rows \<rparr>"

definition sample_query :: rows_query where
  "sample_query =
     \<lparr> rq_columns = [u ''id''], rq_schema = u ''public'', rq_relation = u ''visits'', rq_where = [],
       rq_order = [(u ''id'', False)], rq_limit = 26, rq_offset = None \<rparr>"

lemma string_of_nat_digits: "c \<in> set (string_of_nat n) \<Longrightarrow> 48 \<le> (of_char c :: nat) \<and> (of_char c :: nat) \<le> 57"
proof (induction n rule: string_of_nat.induct)
  case (1 n)
  then show ?case
    by (subst (asm) (2) string_of_nat.simps) (auto split: if_splits)
qed

lemma ascii_bytes: "\<forall>c\<in>set s. c \<le> 0x7F \<Longrightarrow> utf8 s = map ucast s"
  by (induction s) (auto simp: utf8_Cons)

definition ascii_end :: "jstring \<Rightarrow> jstring \<Rightarrow> bool" where
  "ascii_end t s \<longleftrightarrow> (\<exists>p. s = p @ t \<and> (\<forall>c\<in>set p. c \<le> 0x7F))"

lemma ascii_end_refl: "ascii_end t t"
  by (simp add: ascii_end_def)

lemma ascii_end_Cons: "c \<le> 0x7F \<Longrightarrow> ascii_end t s \<Longrightarrow> ascii_end t (c # s)"
  unfolding ascii_end_def by (metis append_Cons set_ConsD)

lemma sample_numbers:
  "u (string_of_nat (Suc 0)) = [0x31]" "u (string_of_nat 20) = [0x32, 0x30]"
  "u (string_of_nat 300020) = [0x33, 0x30, 0x30, 0x30, 0x32, 0x30]"
  by (simp_all add: string_of_nat.simps)

lemma sample_text_end:
  "ascii_end (0x3A # u (string_of_nat n) @ [0x7D, 0x5D, 0x7D]) (json_text (cursor_js (sample_cursor n)))"
  by (simp add: cursor_js_def sample_cursor_def context_fields_def request_context_def sample_request_def
      sample_snapshot_def sort_js_def key_js_def json_string_def json_unit_def high_surrogate_def
      low_surrogate_def word_le_nat_alt cursor_expiry_ms_def string_of_int_def sample_numbers)
     (intro ascii_end_refl ascii_end_Cons; simp add: word_le_nat_alt)

lemma digit_byte: "ucast (of_nat (of_char c) :: 16 word) = (of_nat (of_char c) :: byte)"
proof -
  have "(of_char c :: nat) < 2 ^ 16" by (rule less_trans [OF nat_of_char_less_256]) simp
  then have "take_bit 16 (of_char c :: nat) = of_char c" by (rule take_bit_nat_eq_self)
  then show ?thesis by (simp add: unsigned_of_nat)
qed

lemma unat_digit_byte: "unat (of_nat (of_char c) :: byte) = of_char c"
  by (simp add: unat_of_nat)

lemma last_number_end:
  assumes "ascii_end (0x3A # u (string_of_nat n) @ [0x7D, 0x5D, 0x7D]) s"
  shows "last_number (utf8 s) = n"
proof -
  let ?digits = "map (\<lambda>c. of_nat (of_char c) :: byte) (string_of_nat n)"
  obtain p where s: "s = p @ 0x3A # u (string_of_nat n) @ [0x7D, 0x5D, 0x7D]" and p: "\<forall>c\<in>set p. c \<le> 0x7F"
    using assms by (auto simp: ascii_end_def)
  have range: "0x30 \<le> (of_nat (of_char c) :: byte) \<and> (of_nat (of_char c) :: byte) \<le> 0x39"
    if "c \<in> set (string_of_nat n)" for c
    using string_of_nat_digits [OF that] by (simp add: word_le_nat_alt unat_digit_byte)
  have "\<forall>c\<in>set (u (string_of_nat n)). c \<le> 0x7F"
    using string_of_nat_digits by (fastforce simp: u_def word_le_nat_alt unat_of_nat)
  then have "utf8 s = map ucast s"
    using p by (intro ascii_bytes) (auto simp: s word_le_nat_alt)
  then have "drop 3 (rev (utf8 s)) = rev ?digits @ 0x3A # rev (map ucast p)"
    by (simp add: s u_def digit_byte comp_def)
  then have "takeWhile (\<lambda>x. 0x30 \<le> x \<and> x \<le> 0x39) (drop 3 (rev (utf8 s))) = rev ?digits"
    by (simp only:) (subst takeWhile_append2, use range in auto)
  then show ?thesis by (simp add: last_number_def comp_def unat_digit_byte)
qed

lemma sample_parse:
  "parse_json sample_codec (utf8 (json_text (cursor_js (sample_cursor n)))) = Some (cursor_js (sample_cursor n))"
  by (simp add: sample_codec_def last_number_end [OF sample_text_end])

lemma sample_row_cursor:
  "row_cursor sample_explorer (u ''ops'') sample_snapshot sample_call sample_request [u ''id''] i (sample_row n) =
     sample_cursor n"
  by (simp add: row_cursor_def sample_cursor_def sample_call_def row_keys_def cell_js_value_def sample_row_def
      sample_explorer_def request_context_def sample_request_def del: u_simps)

lemma sample_plain: "plain f (cursor_js (sample_cursor n)) = cursor_js (sample_cursor n)"
  by (simp add: cursor_js_def sample_cursor_def context_fields_def sort_js_def key_js_def del: u_simps)

lemma sample_gcm: "gcm_ok sample_codec"
  by (simp add: gcm_ok_def sample_codec_def)

lemma sample_check: "check_request (u ''ops'') sample_snapshot sample_request = Inr sample_relation"
  by (simp add: check_request_def sample_request_def sample_snapshot_def find_relation_def sample_relation_def)

lemma sample_build: "build_rows_query sample_snapshot (query_of sample_request [] None) = Inr (sample_query, [])"
  by (simp add: build_rows_query_def query_of_def sample_request_def sample_snapshot_def find_relation_def
      sample_relation_def selectable_columns_def sample_column_def sample_hidden_def build_filter_sql_def
      order_items_def pagination_key_def sample_query_def)

lemma sample_paging:
  "paging_ok sample_explorer (u ''ops'') sample_snapshot sample_database sample_call sample_request []
     sample_relation [u ''id''] sample_query []"
proof -
  have cs: "cursor_key_columns (rr_sort sample_request) [u ''id''] = [u ''id'']"
    by (simp add: cursor_key_columns_def sample_request_def)
  have "snapshot_ok sample_snapshot"
    by (simp add: snapshot_ok_def sample_snapshot_def relation_ok_def sample_relation_def column_ok_def
        sample_column_def sample_hidden_def)
  moreover have "distinct (map (\<lambda>r. map r [u ''id'']) (db_rows sample_database))"
    by (simp add: sample_database_def sample_rows_def comp_def sample_row_def distinct_map inj_on_def)
  moreover have "driver_exact sample_explorer [u ''id''] (db_rows sample_database)"
    by (auto simp: driver_exact_def sample_database_def sample_rows_def sample_row_def sample_explorer_def)
  moreover have "params_ok (ex_pg sample_explorer) sample_query []"
    by (simp add: params_ok_def query_params_def sample_query_def)
  moreover have "pagination_key sample_relation = Some [u ''id'']"
    by (simp add: pagination_key_def sample_relation_def)
  moreover have "\<forall>r\<in>set (db_rows sample_database). \<forall>c\<in>set [u ''id'']. r c \<noteq> None"
    by (simp add: sample_database_def sample_rows_def sample_row_def)
  moreover have "\<forall>i. length (nonce_cursor (sample_call i)) = 12 \<and>
      at_decode (sample_call (Suc i)) < at_cursor (sample_call i) + cursor_expiry_ms"
    by (simp add: sample_call_def cursor_expiry_ms_def)
  moreover have "\<forall>i. \<forall>r\<in>set (db_rows sample_database).
      let v = plain (iso_string (ex_codec sample_explorer)) (cursor_js (row_cursor sample_explorer (u ''ops'')
                sample_snapshot sample_call sample_request [u ''id''] i r)) in
      parse_json (ex_codec sample_explorer) (utf8 (json_text v)) = Some v"
    by (auto simp: sample_database_def sample_rows_def sample_row_cursor sample_plain Let_def sample_explorer_def
        sample_parse simp del: u_simps)
       (simp add: sample_row_cursor [unfolded sample_explorer_def] sample_plain sample_parse del: u_simps)
  moreover have "gcm_ok (ex_codec sample_explorer)" by (simp add: sample_explorer_def sample_gcm)
  moreover have "db_connects sample_database" "db_begins sample_database" "\<not> db_times_out sample_database"
      "db_live_checksum sample_database = Some (sn_checksum sample_snapshot)"
    by (simp_all add: sample_database_def sample_snapshot_def)
  ultimately show ?thesis
    unfolding paging_ok_def cs using sample_check sample_build by (intro conjI) (assumption | simp)+
qed

section \<open>Witnesses\<close>

text \<open>Witness of \<open>pages_deliver_all_rows\<close>: the thirty rows on two pages of at most twenty-five.\<close>

theorem pages_deliver_all_rows_witness:
  "\<exists>result. read_pages (Suc (length (selected_rows (ex_pg sample_explorer) (db_rows sample_database) sample_query [])))
       sample_explorer (base64 (replicate 32 7)) (u ''ops'') sample_snapshot sample_database sample_call
       sample_request [] 0 None = Some result \<and>
     pages_deliver sample_explorer (base64 (replicate 32 7)) (u ''ops'') sample_snapshot sample_call sample_request
       sample_relation [u ''id''] sample_query
       (selected_rows (ex_pg sample_explorer) (db_rows sample_database) sample_query []) result"
  by (rule pages_deliver_all_rows [OF sample_paging])

text \<open>Witness of \<open>keyset_condition_is_order\<close>: row 7 comes after key 5 and row 5 does not.\<close>

theorem keyset_condition_is_order_witness:
  "(eval_pred (ex_pg sample_explorer) [Num 5] (sample_row 7)
      (number_params 1 (fst (build_keyset_condition [(u ''id'', Num 5)] False))) = Some True) = True \<and>
   (eval_pred (ex_pg sample_explorer) [Num 5] (sample_row 5)
      (number_params 1 (fst (build_keyset_condition [(u ''id'', Num 5)] False))) = Some True) = False"
proof -
  have cond: "build_keyset_condition [(u ''id'', Num 5)] False =
      (fst (build_keyset_condition [(u ''id'', Num 5)] False), [Num 5])"
    by (simp add: build_keyset_condition_def Let_def)
  have placed: "placed [Num 5] 1 [Num 5]" by (simp add: placed_def)
  have bound: "key_bound (ex_pg sample_explorer) [(u ''id'', Num 5)]"
    by (simp add: key_bound_def sample_explorer_def)
  have key: "cursor_key (ex_pg sample_explorer) False [(u ''id'', Num 5)] < row_key [(u ''id'', False)] (sample_row n) \<longleftrightarrow> 5 < n" for n
    by (simp add: cursor_key_def row_key_def order_key_def bound_cell_def sample_explorer_def sample_row_def)
  show ?thesis
    using keyset_condition_is_order [OF cond placed bound, of "sample_row 7"]
      keyset_condition_is_order [OF cond placed bound, of "sample_row 5"]
    by (simp add: key del: u_simps)
qed

definition sample_key :: jstring where
  "sample_key = base64 (replicate 32 7)"

lemma valid_cursor_key_base64:
  assumes "length b = 32" shows "valid_cursor_key (base64 b)"
proof -
  have enc: "base64 b = map (digit64 False) (sextets b) @ [0x3D]" and len: "length (sextets b) = 43"
    using assms by (simp_all add: base64_def length_sextets)
  have "std_base64_char (digit64 False n)" if "n < 64" for n
  proof -
    have "unat (digit64 False n) \<noteq> 0x2D \<and> unat (digit64 False n) \<noteq> 0x5F" using that by (auto simp: code64_def)
    then show ?thesis using value64_digit64 [OF that, of False] by (auto simp: std_base64_char_def)
  qed
  then have "list_all std_base64_char (map (digit64 False) (sextets b))"
    by (auto simp: list_all_iff dest: sextet_bounds)
  then show ?thesis
    using len assms unbase64_base64 [of b] by (simp add: valid_cursor_key_def enc)
qed

lemma sample_key_valid: "valid_cursor_key sample_key"
  by (simp add: sample_key_def valid_cursor_key_base64)

definition sample_ref :: row_ref where
  "sample_ref =
     \<lparr> ref_context = request_context (u ''ops'') sample_snapshot sample_request, ref_issued = 20,
       ref_expires = 300020, ref_keys = [(u ''id'', Num 5)] \<rparr>"

definition sample_ref_codec :: codec_env where
  "sample_ref_codec = sample_codec\<lparr>parse_json := (\<lambda>_. Some (row_ref_js sample_ref))\<rparr>"

lemma sample_ref_gcm: "gcm_ok sample_ref_codec"
  by (simp add: gcm_ok_def sample_ref_codec_def sample_codec_def)

lemma sample_ref_shape: "read_row_ref_shape (row_ref_js sample_ref) \<noteq> None"
  by (simp add: read_row_ref_js row_ref_ok_def sample_ref_def valid_context_def read_context_def context_fields_def
      field_def request_context_def sample_snapshot_def sample_request_def database_target_ids_def valid_times_def
      is_safe_integer_def max_safe_integer_def cursor_expiry_ms_def)

lemma sample_ref_bytes: "list_all row_ref_claim (map snd (ref_keys sample_ref)) \<and> row_ref_bytes sample_ref_codec sample_ref \<le> 3017"
proof -
  have n: "byte_length (u (string_of_nat n)) = length (string_of_nat n)" for n
  proof -
    have "\<forall>c\<in>set (u (string_of_nat n)). c \<le> 0x7F"
      using string_of_nat_digits by (fastforce simp: u_def word_le_nat_alt unat_of_nat)
    then show ?thesis by (simp add: byte_length_ascii)
  qed
  have claims: "list_all row_ref_claim (map snd (ref_keys sample_ref))"
    by (simp add: sample_ref_def row_ref_claim_def row_ref_scalar_def)
  have "json_bytes [c] = unit_bytes c" for c by simp
  show ?thesis
    using claims
    unfolding row_ref_bytes_sum [OF claims]
    by (simp add: sample_ref_def claim_size_def sealed_claim_def seal_claim_def request_context_def sample_snapshot_def
        sample_request_def utf8_json_string unit_bytes_def high_surrogate_def low_surrogate_def word_le_nat_alt
        string_of_int_def n string_of_nat.simps byte_length_simps)
qed

text \<open>Witness of \<open>row_ref_omitted_iff\<close>: the reference of row 5 gets a token.\<close>

theorem row_ref_omitted_iff_witness:
  "\<exists>token. encode_row_ref_within_limit sample_ref_codec sample_ref sample_key (replicate 12 0) = Inr (Some token) \<and>
     byte_length token \<le> 4096"
  using row_ref_omitted_iff [OF sample_ref_gcm _ sample_key_valid sample_ref_shape, of "replicate 12 0"] sample_ref_bytes
  by simp

text \<open>Witness of \<open>row_ref_round_trip\<close>: the token of row 5 is read back.\<close>

theorem row_ref_round_trip_witness:
  "\<exists>token. encode_row_ref_within_limit sample_ref_codec sample_ref sample_key (replicate 12 0) = Inr (Some token) \<and>
     decode_row_ref sample_ref_codec token sample_key (ref_context sample_ref) 100 = Inr sample_ref"
proof -
  obtain token where token: "encode_row_ref_within_limit sample_ref_codec sample_ref sample_key (replicate 12 0) = Inr (Some token)"
    using row_ref_token_iff [OF sample_ref_gcm _ sample_key_valid sample_ref_shape, of "replicate 12 0"] sample_ref_bytes
    by auto
  have "row_ref_payload sample_ref_codec sample_ref = Some (row_ref_js sample_ref)"
    by (simp add: row_ref_payload_def sample_ref_def seal_claim_def)
  then have parse: "parse_json sample_ref_codec (utf8 (json_text v)) = Some v"
    if "row_ref_payload sample_ref_codec sample_ref = Some v" for v
    using that by (simp add: sample_ref_codec_def)
  have "decode_row_ref sample_ref_codec token sample_key (ref_context sample_ref) 100 = Inr sample_ref"
    by (subst row_ref_round_trip [OF sample_ref_gcm _ token parse])
       (simp_all add: dates_ok_def sample_ref_def kept_keys_def)
  with token show ?thesis by blast
qed

lemma sample_ref_text_bytes:
  "byte_length (json_text (plain f (cursor_js (sample_cursor 7)))) \<le> 400"
  unfolding sample_plain
  by (simp add: cursor_js_def sample_cursor_def context_fields_def request_context_def sample_request_def
      sample_snapshot_def sort_js_def key_js_def json_string_def json_unit_def high_surrogate_def
      low_surrogate_def word_le_nat_alt cursor_expiry_ms_def string_of_int_def sample_numbers byte_length_ascii
      string_of_nat.simps [of 7])

lemma sample_cursor_ok: "cursor_ok (sample_cursor n)"
  by (simp add: cursor_ok_def sample_cursor_def valid_context_def read_context_def context_fields_def field_def
      request_context_def sample_snapshot_def sample_request_def database_target_ids_def valid_times_def
      is_safe_integer_def max_safe_integer_def cursor_expiry_ms_def)

lemma sample_cursor_token: "\<exists>token. encode_cursor sample_codec (sample_cursor 7) sample_key (replicate 12 0) = Inr token"
proof -
  obtain k where k: "encryption_key sample_codec sample_key Cursor_token = Some k"
    using encryption_key_valid [OF sample_key_valid] by blast
  have ctx: "valid_context (cur_context (sample_cursor 7))" using sample_cursor_ok [of 7] by (simp add: cursor_ok_def)
  have small: "base64_text_bytes n \<le> 540" if "n \<le> 400" for n
  proof -
    have "n div 3 \<le> 133" using that by linarith
    moreover have "n mod 3 < 3" by simp
    ultimately have "n div 3 * 4 + (n mod 3 + 1) \<le> 540" by linarith
    then show ?thesis by (simp add: base64_text_bytes_def)
  qed
  have "50 + base64_text_bytes (length (utf8 (json_text (plain (iso_string sample_codec) (cursor_js (sample_cursor 7)))))) \<le> 4096"
  proof -
    have "base64_text_bytes (length (utf8 (json_text (plain (iso_string sample_codec) (cursor_js (sample_cursor 7)))))) \<le> 540"
      by (rule small) (rule sample_ref_text_bytes [unfolded byte_length_def])
    then show ?thesis by (rule order_trans [OF add_left_mono]) simp
  qed
  then show ?thesis
    using seal_result [OF sample_gcm _ ctx k refl, of "replicate 12 0" "cursor_js (sample_cursor 7)" False]
    by (simp add: encode_cursor_def read_cursor_js sample_cursor_ok max_cursor_bytes_def)
qed

text \<open>Witness of \<open>accepted_cursor_is_bound\<close>: the token of the cursor after row 7.\<close>

theorem accepted_cursor_is_bound_witness:
  "\<exists>token. decode_cursor sample_codec token sample_key (cur_context (sample_cursor 7)) 100 = Inr (sample_cursor 7) \<and>
     byte_length token \<le> 4096"
proof -
  obtain token where token: "encode_cursor sample_codec (sample_cursor 7) sample_key (replicate 12 0) = Inr token"
    using sample_cursor_token by blast
  have parse: "parse_json sample_codec (utf8 (json_text (plain (iso_string sample_codec) (cursor_js (sample_cursor 7))))) =
      Some (plain (iso_string sample_codec) (cursor_js (sample_cursor 7)))"
    by (simp only: sample_plain sample_parse)
  have "decode_cursor sample_codec token sample_key (cur_context (sample_cursor 7)) 100 = Inr (sample_cursor 7)"
    using cursor_round_trip [OF sample_gcm _ token parse, of 100]
    by (simp add: sample_cursor_def cursor_expiry_ms_def del: u_simps)
  with accepted_cursor_is_bound [OF this] show ?thesis by blast
qed

text \<open>
  Witness of \<open>blocked_columns_do_not_flow\<close>: the sample with and without values in the token column.
\<close>

theorem blocked_columns_do_not_flow_witness:
  "read_rows sample_explorer sample_key (u ''ops'') sample_snapshot
     (sample_database\<lparr>db_rows := map (\<lambda>r. r(u ''token'' := Some 3)) sample_rows\<rparr>) (sample_call 0) sample_request [] =
   read_rows sample_explorer sample_key (u ''ops'') sample_snapshot sample_database (sample_call 0) sample_request []"
proof (rule blocked_columns_do_not_flow)
  show "snapshot_ok sample_snapshot" using sample_paging unfolding paging_ok_def by blast
  fix r assume "find_relation sample_snapshot (rr_schema sample_request) (rr_relation sample_request) = Some r"
  then have "allowed_columns r = [u ''id'']"
    by (auto simp: find_relation_def sample_snapshot_def sample_request_def sample_relation_def allowed_columns_def
        sample_column_def sample_hidden_def)
  then show "same_readable r (db_rows sample_database) (map (\<lambda>r. r(u ''token'' := Some 3)) sample_rows)"
    by (simp add: same_readable_def sample_database_def list_all2_conv_all_nth)
qed

section \<open>Timestamps\<close>

definition sample_clock_codec :: codec_env where
  "sample_clock_codec = sample_codec\<lparr>parse_iso := (\<lambda>s. Some (int (nat_of_digits (map (\<lambda>c. char_of (unat c)) s))))\<rparr>"

definition sample_clock :: "int explorer" where
  "sample_clock =
     \<lparr> ex_codec = sample_clock_codec,
       ex_pg = \<lparr> fetch = (\<lambda>t. Date (t div 1000)),
                 bind = (\<lambda>_ v. case v of Str s \<Rightarrow> map_option ((*) 1000) (parse_iso sample_clock_codec s) | _ \<Rightarrow> None),
                 matches = (\<lambda>_ _. False) \<rparr>,
       ex_show = (\<lambda>_. []), ex_sha256 = (\<lambda>_. []) \<rparr>"

definition sample_instant :: "int \<Rightarrow> int \<Rightarrow> int row" where
  "sample_instant t n = (\<lambda>c. if c = u ''at'' then Some t else if c = u ''id'' then Some n else None)"

definition sample_clock_query :: rows_query where
  "sample_clock_query =
     \<lparr> rq_columns = [u ''at'', u ''id''], rq_schema = u ''public'', rq_relation = u ''visits'', rq_where = [],
       rq_order = [(u ''at'', True), (u ''id'', True)], rq_limit = 26, rq_offset = None \<rparr>"

lemma units_of_digits: "map (\<lambda>c. char_of (unat c)) (u s) = s"
proof (induction s)
  case (Cons a s)
  have "(of_char a :: nat) < 2 ^ 16" by (rule less_trans [OF nat_of_char_less_256]) simp
  then have "take_bit 16 (of_char a :: nat) = of_char a" by (rule take_bit_nat_eq_self)
  then show ?case using Cons by (simp add: unsigned_of_nat)
qed simp

text \<open>
  Witness of \<open>descending_timestamps_skip_rows\<close>: after the row of 1000456 microseconds the row of
  1000123 is skipped.
\<close>

theorem descending_timestamps_skip_rows_witness:
  "row_key (rq_order sample_clock_query) (sample_instant 1000456 1000) < row_key (rq_order sample_clock_query) (sample_instant 1000123 2000)
   \<and> sample_instant 1000123 2000 \<notin> set (selected_rows (ex_pg sample_clock) [sample_instant 1000456 1000, sample_instant 1000123 2000]
       (with_cursor sample_clock_query 1
          (fst (build_keyset_condition (decoded_keys sample_clock [u ''at'', u ''id''] (sample_instant 1000456 1000)) True)))
       (snd (build_keyset_condition (decoded_keys sample_clock [u ''at'', u ''id''] (sample_instant 1000456 1000)) True)))"
proof -
  have parse: "parse_iso sample_clock_codec (iso_string (ex_codec sample_clock) t) = Some t" if "0 \<le> t" for t
    using that by (simp add: sample_clock_codec_def sample_clock_def sample_codec_def string_of_int_def units_of_digits)
  have bind: "bind (ex_pg sample_clock) c (Str (iso_string (ex_codec sample_clock) t)) = Some (1000 * t)" if "0 \<le> t" for t c
    using parse [OF that] by (simp add: sample_clock_def)
  have fetch: "fetch (ex_pg sample_clock) t = Date (t div 1000)" for t by (simp add: sample_clock_def)
  have "key_bound (ex_pg sample_clock) (decoded_keys sample_clock [u ''id''] (sample_instant 1000456 1000))"
    using bind [of 1] by (simp add: key_bound_def decoded_keys_def cell_js_value_def fetch sample_instant_def)
  then show ?thesis
    using descending_timestamps_skip_rows [where ex = sample_clock and bq = sample_clock_query and vals = "[]"
        and c = "u ''at''" and k = "u ''id''" and x = "sample_instant 1000456 1000" and t = 1000456
        and y = "sample_instant 1000123 2000" and t' = 1000123
        and table = "[sample_instant 1000456 1000, sample_instant 1000123 2000]", OF _ _ surjective_pairing]
      fetch bind [of 1000 "u ''at''"]
    by (simp add: sample_clock_query_def sample_instant_def del: u_simps)
qed

end
