(* ===== verification/Regex.thy ===== *)
theory Regex
  imports JsonText
begin

text \<open>
  Regular expressions of JavaScript as far as the telemetry sanitiser uses them: character classes,
  sequence, choice, greedy repetition of a class, word boundaries and the negative look-around of a
  class. \<open>ends\<close> gives the ends of the matches at a position in the order in which the backtracking
  matcher tries them, so that its first element is the match that \<open>exec\<close> finds there;
  \<open>replace_all\<close> is \<open>String.prototype.replace\<close> with the flag g for expressions without empty matches.

  The lemmas at the end say what a pass of replacements guarantees for expressions without look-around.
\<close>

section \<open>Expressions and matches\<close>

datatype re =
    Chr "16 word \<Rightarrow> bool"
  | Cat re re
  | Choice re re
  | Optional re
  | Repeat nat "nat option" "16 word \<Rightarrow> bool"
  | Word_boundary
  | Not_before "16 word \<Rightarrow> bool"
  | Not_after "16 word \<Rightarrow> bool"

text \<open>A position is the unit before it and the text after it.\<close>

type_synonym position = "16 word option \<times> jstring"

definition word_unit :: "16 word \<Rightarrow> bool" where
  "word_unit c \<longleftrightarrow>
     0x30 \<le> c \<and> c \<le> 0x39 \<or> 0x41 \<le> c \<and> c \<le> 0x5A \<or> 0x61 \<le> c \<and> c \<le> 0x7A \<or> c = 0x5F"

definition next_is :: "(16 word \<Rightarrow> bool) \<Rightarrow> jstring \<Rightarrow> bool" where
  "next_is c s = (case s of [] \<Rightarrow> False | x # _ \<Rightarrow> c x)"

definition last_is :: "(16 word \<Rightarrow> bool) \<Rightarrow> 16 word option \<Rightarrow> bool" where
  "last_is c p = (case p of None \<Rightarrow> False | Some x \<Rightarrow> c x)"

definition advance :: "nat \<Rightarrow> position \<Rightarrow> position" where
  "advance n ps = (case ps of (p, s) \<Rightarrow> (if n = 0 then p else Some (s ! (n - 1)), drop n s))"

definition run_length :: "nat option \<Rightarrow> (16 word \<Rightarrow> bool) \<Rightarrow> jstring \<Rightarrow> nat" where
  "run_length limit c s =
     (let n = length (takeWhile c s) in case limit of None \<Rightarrow> n | Some m \<Rightarrow> min n m)"

fun ends :: "re \<Rightarrow> position \<Rightarrow> position list" where
  "ends (Chr c) (p, s) = (case s of [] \<Rightarrow> [] | x # t \<Rightarrow> if c x then [(Some x, t)] else [])"
| "ends (Cat a b) ps = concat (map (ends b) (ends a ps))"
| "ends (Choice a b) ps = ends a ps @ ends b ps"
| "ends (Optional a) ps = ends a ps @ [ps]"
| "ends (Repeat m limit c) (p, s) =
     map (\<lambda>n. advance n (p, s)) (rev [m..<Suc (run_length limit c s)])"
| "ends Word_boundary (p, s) = (if last_is word_unit p \<noteq> next_is word_unit s then [(p, s)] else [])"
| "ends (Not_before c) (p, s) = (if last_is c p then [] else [(p, s)])"
| "ends (Not_after c) (p, s) = (if next_is c s then [] else [(p, s)])"

text \<open>A literal under the flag i, for ASCII letters.\<close>

fun literal :: "jstring \<Rightarrow> re" where
  "literal [] = Repeat 0 (Some 0) (\<lambda>_. False)"
| "literal [c] = Chr (\<lambda>x. lower_unit x = c)"
| "literal (c # s) = Cat (Chr (\<lambda>x. lower_unit x = c)) (literal s)"

fun choices :: "re list \<Rightarrow> re" where
  "choices [] = Chr (\<lambda>_. False)"
| "choices [r] = r"
| "choices (r # rs) = Choice r (choices rs)"

fun sequence :: "re list \<Rightarrow> re" where
  "sequence [] = Repeat 0 (Some 0) (\<lambda>_. False)"
| "sequence [r] = r"
| "sequence (r # rs) = Cat r (sequence rs)"

definition first_end :: "re \<Rightarrow> position \<Rightarrow> position option" where
  "first_end r ps =
     (case ends r ps of [] \<Rightarrow> None | q # _ \<Rightarrow> if length (snd q) < length (snd ps) then Some q else None)"

function replace_all :: "re \<Rightarrow> jstring \<Rightarrow> 16 word option \<Rightarrow> jstring \<Rightarrow> jstring" where
  "replace_all r mark p [] = []"
| "replace_all r mark p (x # s) =
     (case first_end r (p, x # s) of
        Some (q, t) \<Rightarrow> mark @ replace_all r mark q t
      | None \<Rightarrow> x # replace_all r mark (Some x) s)"
  by pat_completeness auto
termination
  by (relation "measure (\<lambda>(r, mark, p, s). length s)") (auto simp: first_end_def split: list.splits if_splits)

section \<open>Expressions without look-around\<close>

fun plain_re :: "re \<Rightarrow> bool" where
  "plain_re (Chr c) = True"
| "plain_re (Cat a b) = (plain_re a \<and> plain_re b)"
| "plain_re (Choice a b) = (plain_re a \<and> plain_re b)"
| "plain_re (Optional a) = plain_re a"
| "plain_re (Repeat m limit c) = True"
| "plain_re _ = False"

lemma plain_literal [simp]: "plain_re (literal s)"
  by (induction s rule: literal.induct) auto

lemma plain_choices [simp]: "list_all plain_re rs \<Longrightarrow> plain_re (choices rs)"
  by (induction rs rule: choices.induct) auto

lemma plain_sequence [simp]: "list_all plain_re rs \<Longrightarrow> plain_re (sequence rs)"
  by (induction rs rule: sequence.induct) auto

lemma run_length_append: "run_length limit c s \<le> run_length limit c (s @ z)"
proof -
  have "length (takeWhile c s) \<le> length (takeWhile c (s @ z))"
    by (induction s) auto
  then show ?thesis by (auto simp: run_length_def Let_def split: option.splits)
qed

lemma run_length_le: "run_length limit c s \<le> length s"
  using length_takeWhile_le [of c s]
  by (auto simp: run_length_def Let_def min_def split: option.splits)

text \<open>What an expression matches it also matches in front of more text, whatever came before.\<close>

lemma ends_extend:
  assumes "plain_re r" "(p', t) \<in> set (ends r (p, s))"
  shows "\<exists>q'. (q', t @ z) \<in> set (ends r (q, s @ z))"
  using assms
proof (induction r arbitrary: p s p' t q)
  case (Chr c)
  then show ?case by (auto split: list.splits if_splits)
next
  case (Cat a b)
  then obtain p1 s1 where a: "(p1, s1) \<in> set (ends a (p, s))" and b: "(p', t) \<in> set (ends b (p1, s1))"
    by auto
  obtain q1 where "(q1, s1 @ z) \<in> set (ends a (q, s @ z))" using Cat.IH(1) [OF _ a] Cat.prems by auto
  moreover obtain q' where "(q', t @ z) \<in> set (ends b (q1, s1 @ z))" using Cat.IH(2) [OF _ b] Cat.prems by auto
  ultimately show ?case by force
next
  case (Choice a b)
  then have "(p', t) \<in> set (ends a (p, s)) \<or> (p', t) \<in> set (ends b (p, s))" by simp
  then show ?case using Choice.IH Choice.prems(1) by fastforce
next
  case (Optional a)
  then show ?case by simp blast
next
  case (Repeat m limit c)
  then obtain n where n: "m \<le> n" "n \<le> run_length limit c s" and t: "t = drop n s"
    by (auto simp: advance_def)
  have "n \<le> run_length limit c (s @ z)" "n \<le> length s"
    using n run_length_append [of limit c s z] run_length_le [of limit c s] by linarith+
  then have "n \<in> set (rev [m..<Suc (run_length limit c (s @ z))])" using n by auto
  then have "advance n (q, s @ z) \<in> set (ends (Repeat m limit c) (q, s @ z))"
    by (simp del: upt_Suc)
  moreover have "snd (advance n (q, s @ z)) = t @ z" using \<open>n \<le> length s\<close> t by (simp add: advance_def)
  ultimately show ?case by (metis prod.collapse)
qed auto

text \<open>Expressions whose matches are not empty.\<close>

fun consumes :: "re \<Rightarrow> bool" where
  "consumes (Chr c) = True"
| "consumes (Cat a b) = (consumes a \<or> consumes b)"
| "consumes (Choice a b) = (consumes a \<and> consumes b)"
| "consumes (Repeat m limit c) = (0 < m)"
| "consumes _ = False"

lemma consumes_literal [simp]: "s \<noteq> [] \<Longrightarrow> consumes (literal s)"
  by (induction s rule: literal.induct) auto

lemma ends_suffix: "(q, t) \<in> set (ends r (p, s)) \<Longrightarrow> \<exists>d. s = d @ t \<and> (consumes r \<longrightarrow> d \<noteq> [])"
proof (induction r arbitrary: p s q t)
  case (Chr c)
  then show ?case by (auto split: list.splits if_splits)
next
  case (Cat a b)
  then obtain p1 s1 where "(p1, s1) \<in> set (ends a (p, s))" "(q, t) \<in> set (ends b (p1, s1))" by auto
  from Cat.IH(1) [OF this(1)] Cat.IH(2) [OF this(2)] show ?case by force
next
  case (Choice a b)
  then have "(q, t) \<in> set (ends a (p, s)) \<or> (q, t) \<in> set (ends b (p, s))" by simp
  then show ?case using Choice.IH by fastforce
next
  case (Optional a)
  then show ?case by fastforce
next
  case (Repeat m limit c)
  then obtain n where n: "m \<le> n" "n \<le> run_length limit c s" and t: "t = drop n s"
    by (auto simp: advance_def)
  have "s = take n s @ t" "0 < n \<longrightarrow> take n s \<noteq> []"
    using n t run_length_le [of limit c s] by auto
  then show ?case using n by fastforce
qed (auto split: if_splits)

lemma first_end_None:
  assumes "consumes r" "first_end r ps = None" shows "ends r ps = []"
proof (cases ps)
  case (Pair p s)
  show ?thesis
  proof (rule ccontr)
    assume "ends r ps \<noteq> []"
    then obtain q t qs where e: "ends r ps = (q, t) # qs" by (metis list.exhaust prod.exhaust)
    then have "(q, t) \<in> set (ends r (p, s))" by (simp add: Pair)
    from ends_suffix [OF this] assms(1) have "length t < length s" by auto
    then show False using e assms(2) by (simp add: first_end_def Pair)
  qed
qed

lemma first_end_suffix: "first_end r (p, s) = Some (q, t) \<Longrightarrow> \<exists>d. s = d @ t"
  using ends_suffix [of q t r p s] by (auto simp: first_end_def split: list.splits if_splits)

text \<open>
  \<open>avoids k r\<close>: \<open>r\<close> matches no text with the unit \<open>k\<close>. What such an expression matches of a text lies
  before the first \<open>k\<close>.
\<close>

fun avoids :: "16 word \<Rightarrow> re \<Rightarrow> bool" where
  "avoids k (Chr c) = (\<not> c k)"
| "avoids k (Cat a b) = (avoids k a \<and> avoids k b)"
| "avoids k (Choice a b) = (avoids k a \<and> avoids k b)"
| "avoids k (Optional a) = avoids k a"
| "avoids k (Repeat m limit c) = (\<not> c k)"
| "avoids k _ = False"

lemma avoids_literal [simp]: "k \<notin> set s \<Longrightarrow> lower_unit k = k \<Longrightarrow> avoids k (literal s)"
  by (induction s rule: literal.induct) auto

lemma avoids_choices [simp]: "list_all (avoids k) rs \<Longrightarrow> avoids k (choices rs)"
  by (induction rs rule: choices.induct) auto

lemma avoids_sequence [simp]: "list_all (avoids k) rs \<Longrightarrow> avoids k (sequence rs)"
  by (induction rs rule: sequence.induct) auto

lemma takeWhile_avoid: "\<not> c k \<Longrightarrow> takeWhile c (w @ k # z) = takeWhile c w"
  by (induction w) auto

lemma ends_before:
  assumes "avoids k r" "(p', t) \<in> set (ends r (p, w @ k # z))"
  shows "\<exists>w'. t = w' @ k # z \<and> (p', w') \<in> set (ends r (p, w))"
  using assms
proof (induction r arbitrary: p w p' t)
  case (Chr c)
  then show ?case by (cases w) (auto split: if_splits)
next
  case (Cat a b)
  then obtain p1 s1 where a: "(p1, s1) \<in> set (ends a (p, w @ k # z))" and b: "(p', t) \<in> set (ends b (p1, s1))"
    by auto
  obtain w1 where "s1 = w1 @ k # z" "(p1, w1) \<in> set (ends a (p, w))"
    using Cat.IH(1) [OF _ a] Cat.prems(1) by auto
  then show ?case using Cat.IH(2) [of p' t p1 w1] Cat.prems(1) b by fastforce
next
  case (Choice a b)
  then have "(p', t) \<in> set (ends a (p, w @ k # z)) \<or> (p', t) \<in> set (ends b (p, w @ k # z))" by simp
  then show ?case using Choice.IH Choice.prems(1) by fastforce
next
  case (Optional a)
  then have "(p', t) \<in> set (ends a (p, w @ k # z)) \<or> (p' = p \<and> t = w @ k # z)" by auto
  then show ?case using Optional.IH Optional.prems(1) by fastforce
next
  case (Repeat m limit c)
  have run: "run_length limit c (w @ k # z) = run_length limit c w"
    using Repeat.prems(1) by (simp add: run_length_def takeWhile_avoid)
  from Repeat.prems(2) obtain n where n: "m \<le> n" "n \<le> run_length limit c w"
    and t: "(p', t) = advance n (p, w @ k # z)"
    by (auto simp: run simp del: upt_Suc)
  have len: "n \<le> length w" using n run_length_le [of limit c w] by linarith
  have "advance n (p, w) \<in> set (ends (Repeat m limit c) (p, w))"
    using n by (auto simp del: upt_Suc)
  moreover have "p' = fst (advance n (p, w))" "t = drop n w @ k # z"
    using t len by (auto simp: advance_def nth_append split: if_splits)
  ultimately show ?case by (intro exI [of _ "drop n w"]) (simp add: advance_def)
qed auto

text \<open>
  An expression whose only part that can match \<open>k\<close> is a repetition at its end, of a class with all of \<open>Y\<close>:
  if it matches a text up to \<open>k\<close>, then also the same text with a unit of \<open>Y\<close> in place of \<open>k\<close>.
\<close>

fun open_ended :: "16 word \<Rightarrow> 16 word set \<Rightarrow> re \<Rightarrow> bool" where
  "open_ended k Y (Cat a b) = (avoids k a \<and> plain_re a \<and> open_ended k Y b)"
| "open_ended k Y (Repeat m limit c) = (\<not> c k \<or> m = 1 \<and> limit = None \<and> Y \<subseteq> Collect c)"
| "open_ended k Y r = avoids k r"

lemma ends_Repeat_Nil: "ends (Repeat (Suc 0) None c) (p, s) \<noteq> [] \<longleftrightarrow> next_is c s"
  by (cases s) (auto simp: run_length_def next_is_def)

lemma ends_swap_avoid:
  assumes "plain_re r" "avoids k r" "ends r (p, w @ k # z) \<noteq> []"
  shows "ends r (q, w @ z') \<noteq> []"
proof -
  obtain p' t where "(p', t) \<in> set (ends r (p, w @ k # z))"
    using assms(3) by (metis list.set_intros(1) neq_Nil_conv prod.exhaust)
  then obtain w' where "(p', w') \<in> set (ends r (p, w))" using ends_before [OF assms(2)] by blast
  from ends_extend [OF assms(1) this] show ?thesis by (metis empty_iff list.set(1))
qed

lemma ends_swap:
  assumes "plain_re r" "open_ended k Y r" "ends r (p, w @ k # z) \<noteq> []" "y \<in> Y"
  shows "ends r (q, w @ y # z') \<noteq> []"
  using assms
proof (induction r arbitrary: p q w)
  case (Cat a b)
  then obtain p1 s1 where a: "(p1, s1) \<in> set (ends a (p, w @ k # z))" and b: "ends b (p1, s1) \<noteq> []"
    by auto
  from a obtain w1 where s1: "s1 = w1 @ k # z" and w1: "(p1, w1) \<in> set (ends a (p, w))"
    using ends_before Cat.prems(2) by fastforce
  obtain q1 where "(q1, w1 @ y # z') \<in> set (ends a (q, w @ y # z'))"
    using ends_extend [OF _ w1] Cat.prems(2) by fastforce
  moreover have "ends b (q1, w1 @ y # z') \<noteq> []" using Cat.IH(2) Cat.prems b s1 by auto
  ultimately show ?case by force
next
  case (Repeat m limit c)
  show ?case
  proof (cases "c k")
    case True
    then have r: "m = Suc 0" "limit = None" "c y" using Repeat.prems by auto
    have "next_is c (w @ k # z)" using Repeat.prems(3) unfolding r(1,2) ends_Repeat_Nil .
    then have "next_is c (w @ y # z')" using r(3) by (cases w) (auto simp: next_is_def)
    then show ?thesis unfolding r(1,2) ends_Repeat_Nil .
  next
    case False
    then show ?thesis using ends_swap_avoid [OF Repeat.prems(1) _ Repeat.prems(3)] by simp
  qed
next
  case (Chr c)
  show ?case using ends_swap_avoid [OF Chr.prems(1) _ Chr.prems(3)] Chr.prems(2) by simp
next
  case (Choice a b)
  show ?case using ends_swap_avoid [OF Choice.prems(1) _ Choice.prems(3)] Choice.prems(2) by simp
next
  case (Optional a)
  show ?case using ends_swap_avoid [OF Optional.prems(1) _ Optional.prems(3)] Optional.prems(2) by simp
qed simp_all

text \<open>The units with which a match can begin.\<close>

definition begins_in :: "re \<Rightarrow> 16 word set \<Rightarrow> bool" where
  "begins_in r Y \<longleftrightarrow> (\<forall>p y s q. first_end r (p, y # s) = Some q \<longrightarrow> y \<in> Y)"

fun starts :: "re \<Rightarrow> 16 word \<Rightarrow> bool" where
  "starts (Chr c) y = c y"
| "starts (Cat a b) y = (starts a y \<or> \<not> consumes a \<and> starts b y)"
| "starts (Choice a b) y = (starts a y \<or> starts b y)"
| "starts (Optional a) y = starts a y"
| "starts (Repeat m limit c) y = c y"
| "starts _ y = False"

lemma starts_literal [simp]: "starts (literal (c # s)) y \<longleftrightarrow> lower_unit y = c"
  by (cases s) auto

lemma ends_starts: "(q, t) \<in> set (ends r (p, y # s)) \<Longrightarrow> t \<noteq> y # s \<Longrightarrow> starts r y"
proof (induction r arbitrary: p q t)
  case (Cat a b)
  then obtain p1 s1 where a: "(p1, s1) \<in> set (ends a (p, y # s))" and b: "(q, t) \<in> set (ends b (p1, s1))" by auto
  show ?case
  proof (cases "s1 = y # s")
    case True
    then have "\<not> consumes a" using ends_suffix [OF a] by auto
    then show ?thesis using Cat.IH(2) [of q t p1] b True Cat.prems(2) by simp
  next
    case False
    then show ?thesis using Cat.IH(1) [OF a] by simp
  qed
next
  case (Choice a b)
  then have "(q, t) \<in> set (ends a (p, y # s)) \<or> (q, t) \<in> set (ends b (p, y # s))" by simp
  then show ?case using Choice.IH Choice.prems(2) by (metis starts.simps(3))
next
  case (Repeat m limit c)
  then obtain n where "n \<in> set (rev [m..<Suc (run_length limit c (y # s))])" "(q, t) = advance n (p, y # s)"
    by (auto simp del: upt_Suc)
  then have "n \<le> run_length limit c (y # s)" "t = drop n (y # s)" by (auto simp: advance_def)
  with Repeat.prems(2) show ?case by (cases n) (auto simp: run_length_def split: option.splits if_splits)
qed (auto split: if_splits)

lemma begins_inI:
  assumes "\<And>y. starts r y \<Longrightarrow> y \<in> Y" shows "begins_in r Y"
  unfolding begins_in_def
proof (intro allI impI)
  fix p y s q
  assume "first_end r (p, y # s) = Some q"
  then have q: "q \<in> set (ends r (p, y # s))" "length (snd q) < length (y # s)"
    by (auto simp: first_end_def split: list.splits if_splits)
  then obtain p' t where "(p', t) \<in> set (ends r (p, y # s))" "t \<noteq> y # s"
    by (metis nat_less_le prod.collapse)
  from assms [OF ends_starts [OF this]] show "y \<in> Y" .
qed

text \<open>\<open>w\<close> is a text that the expression matches, wherever it stands.\<close>

definition spans :: "re \<Rightarrow> jstring \<Rightarrow> bool" where
  "spans r w \<longleftrightarrow> (\<forall>q z. \<exists>q'. (q', z) \<in> set (ends r (q, w @ z)))"

lemma spans_Chr: "c x \<Longrightarrow> spans (Chr c) [x]"
  by (simp add: spans_def)

lemma spans_Cat: "spans a v \<Longrightarrow> spans b w \<Longrightarrow> spans (Cat a b) (v @ w)"
  unfolding spans_def by (simp add: Bex_def) (metis (no_types, lifting) append_assoc)

lemma spans_Choice: "spans a w \<or> spans b w \<Longrightarrow> spans (Choice a b) w"
  by (auto simp: spans_def)

lemma spans_Optional: "w = [] \<or> spans a w \<Longrightarrow> spans (Optional a) w"
  by (auto simp: spans_def)

lemma spans_Repeat:
  assumes "list_all c w" "m \<le> length w" "\<forall>n. limit = Some n \<longrightarrow> length w \<le> n"
  shows "spans (Repeat m limit c) w"
  unfolding spans_def
proof (intro allI)
  fix q z
  have "length w \<le> length (takeWhile c (w @ z))"
    using assms(1) by (simp add: takeWhile_append2 list_all_iff)
  then have "length w \<le> run_length limit c (w @ z)"
    using assms(3) by (auto simp: run_length_def Let_def split: option.splits)
  then have "advance (length w) (q, w @ z) \<in> set (ends (Repeat m limit c) (q, w @ z))"
    using assms(2) by (auto simp del: upt_Suc)
  then show "\<exists>q'. (q', z) \<in> set (ends (Repeat m limit c) (q, w @ z))"
    by (auto simp: advance_def simp del: ends.simps)
qed

lemma spans_literal: "lower w = s \<Longrightarrow> spans (literal s) w"
proof (induction s arbitrary: w rule: literal.induct)
  case 1
  then show ?case by (auto simp: lower_def spans_def run_length_def advance_def)
next
  case (2 c)
  then show ?case by (auto simp: lower_def intro: spans_Chr)
next
  case (3 c d s)
  then obtain x v where w: "w = [x] @ v" "lower_unit x = c" "lower v = d # s" by (cases w) (auto simp: lower_def)
  show ?case using spans_Cat [OF spans_Chr 3(1) [OF w(3)], of "\<lambda>x. lower_unit x = c" x] w(1,2) by simp
qed

section \<open>A pass of replacements\<close>

text \<open>No match of the expression begins anywhere in the text.\<close>

definition removed :: "re \<Rightarrow> jstring \<Rightarrow> bool" where
  "removed r s \<longleftrightarrow> (\<forall>a q b. s = a @ b \<longrightarrow> ends r (q, b) = [])"

lemma removed_spans: "removed r (a @ w @ b) \<Longrightarrow> spans r w \<Longrightarrow> False"
  by (auto simp: removed_def spans_def) (metis empty_iff list.set(1))

text \<open>
  A position in the result is inside a mark, or it is one of the text at which the expression had no
  match.
\<close>

lemma replace_all_position:
  assumes "replace_all r m p s = a @ x # c"
  shows "(\<exists>v d. v \<noteq> [] \<and> (\<exists>e. m = e @ v) \<and> x # c = v @ d) \<or>
    (\<exists>q a' t. s = a' @ x # t \<and> first_end r (q, x # t) = None \<and> c = replace_all r m (Some x) t)"
  using assms
proof (induction r m p s arbitrary: a rule: replace_all.induct)
  case (2 r m p y s)
  show ?case
  proof (cases "first_end r (p, y # s)")
    case None
    show ?thesis
    proof (cases a)
      case Nil
      then have "y = x" "c = replace_all r m (Some x) s" using 2(3) None by auto
      then show ?thesis using None by blast
    next
      case (Cons z a1)
      then have "replace_all r m (Some y) s = a1 @ x # c" using 2(3) None by auto
      from 2(1) [OF None this] show ?thesis by (metis append_Cons)
    qed
  next
    case (Some qt)
    obtain q t where qt: "qt = (q, t)" by fastforce
    have eq: "m @ replace_all r m q t = a @ x # c" using 2(3) Some qt by simp
    obtain d where d: "y # s = d @ t" using first_end_suffix Some qt by blast
    from eq consider (mark) v where "m = a @ v" "x # c = v @ replace_all r m q t" "v \<noteq> []"
      | (rest) a1 where "replace_all r m q t = a1 @ x # c"
      by (auto simp: append_eq_append_conv2) (metis append_Nil2 append_self_conv2)+
    then show ?thesis
    proof cases
      case mark
      then show ?thesis by blast
    next
      case rest
      from 2(2) [OF Some qt [symmetric] rest] show ?thesis
        by (metis append_assoc d)
    qed
  qed
qed simp

lemma replace_all_prefix:
  "replace_all r (k # m) p s = w @ b \<Longrightarrow> k \<notin> set w \<Longrightarrow> \<exists>b'. s = w @ b'"
proof (induction w arbitrary: p s)
  case (Cons x w)
  then obtain y t where s: "s = y # t" by (cases s) auto
  have none: "first_end r (p, y # t) = None"
    using Cons.prems s by (auto split: option.splits)
  then have "y = x" "replace_all r (k # m) (Some y) t = w @ b" using Cons.prems s by auto
  then show ?case using Cons.IH [of "Some y" t] Cons.prems s by simp
qed simp

text \<open>In front of the first \<open>k\<close> of the result stands the text itself, and then a \<open>k\<close> or a match.\<close>

lemma replace_all_mark:
  assumes "replace_all r (k # m) p s = w @ k # c" "k \<notin> set w" "begins_in r Y"
  shows "\<exists>y z. s = w @ y # z \<and> y \<in> insert k Y"
  using assms(1,2)
proof (induction w arbitrary: p s)
  case Nil
  then obtain y t where s: "s = y # t" by (cases s) auto
  show ?case
  proof (cases "first_end r (p, y # t)")
    case None
    then show ?thesis using Nil s by auto
  next
    case (Some q)
    then have "y \<in> Y" using assms(3) unfolding begins_in_def by blast
    then show ?thesis using s by auto
  qed
next
  case (Cons x w)
  then obtain y t where s: "s = y # t" by (cases s) auto
  have none: "first_end r (p, y # t) = None"
    using Cons.prems s by (auto split: option.splits)
  then have "y = x" "replace_all r (k # m) (Some y) t = w @ k # c" using Cons.prems s by auto
  then show ?case using Cons.IH [of "Some y" t] Cons.prems s by auto
qed

text \<open>No match of the expression begins inside the mark.\<close>

definition outside_mark :: "re \<Rightarrow> jstring \<Rightarrow> bool" where
  "outside_mark r m \<longleftrightarrow> (\<forall>e v q c. m = e @ v \<and> v \<noteq> [] \<longrightarrow> ends r (q, v @ c) = [])"

text \<open>Expressions that a pass of another cannot bring back.\<close>

definition stays_removed :: "re \<Rightarrow> 16 word \<Rightarrow> jstring \<Rightarrow> 16 word set \<Rightarrow> bool" where
  "stays_removed r k m Y \<longleftrightarrow>
     plain_re r \<and> consumes r \<and> outside_mark r (k # m) \<and> open_ended k (insert k Y) r \<and> (\<forall>q c. ends r (q, k # c) = [])"

lemma match_position:
  assumes r': "stays_removed r' k m Y" and r: "begins_in r Y"
    and out: "replace_all r (k # m) p s = a @ b" and match: "ends r' (q0, b) \<noteq> []"
  obtains q a' x t where "s = a' @ x # t" "first_end r (q, x # t) = None" "ends r' (q, x # t) \<noteq> []"
proof -
  have plain: "plain_re r'" "consumes r'" "outside_mark r' (k # m)" "open_ended k (insert k Y) r'"
    "\<And>q c. ends r' (q, k # c) = []"
    using r' by (auto simp: stays_removed_def)
  have "b \<noteq> []"
    using match ends_suffix [of _ _ r' q0 "[]"] plain(2)
    by (metis append_is_Nil_conv list.set_intros(1) neq_Nil_conv prod.exhaust)
  then obtain x c where b: "b = x # c" by (cases b) auto
  from replace_all_position [of r "k # m" p s a x c] out b
  consider (mark) v d where "v \<noteq> []" "\<exists>e. k # m = e @ v" "b = v @ d"
    | (chunk) q a' t where "s = a' @ x # t" "first_end r (q, x # t) = None" "c = replace_all r (k # m) (Some x) t"
    by auto
  then show thesis
  proof cases
    case mark
    then show thesis using plain(3) match by (metis outside_mark_def)
  next
    case chunk
    have "ends r' (q, x # t) \<noteq> []"
    proof (cases "k \<in> set b")
      case True
      then obtain w d where w: "b = w @ k # d" "k \<notin> set w" by (meson split_list_first)
      have "w \<noteq> []" using w match plain(5) by auto
      then obtain w' where w': "w = x # w'" "c = w' @ k # d" using w b by (cases w) auto
      obtain y z where "t = w' @ y # z" "y \<in> insert k Y"
        using replace_all_mark [OF _ _ r, of k m "Some x" t w' d] chunk(3) w w' by auto
      then show ?thesis using ends_swap [OF plain(1,4)] match w w' by fastforce
    next
      case False
      then obtain b' where b': "t = c @ b'"
        using replace_all_prefix [of r k m "Some x" t c "[]"] chunk(3) b by auto
      obtain p1 u where "(p1, u) \<in> set (ends r' (q0, b))"
        using match by (metis list.set_intros(1) neq_Nil_conv prod.exhaust)
      from ends_extend [OF plain(1) this, where q = q and z = b'] show ?thesis
        using b b' by (metis append_Cons empty_iff list.set(1))
    qed
    then show thesis using that chunk by blast
  qed
qed

text \<open>A pass removes its own matches, and keeps those of another expression removed.\<close>

lemma pass_removes:
  assumes "stays_removed r k m Y" "begins_in r Y"
  shows "removed r (replace_all r (k # m) p s)"
  unfolding removed_def
proof (intro allI impI, rule ccontr)
  fix a q b
  assume "replace_all r (k # m) p s = a @ b" "ends r (q, b) \<noteq> []"
  then obtain q a' x t where "first_end r (q, x # t) = None" "ends r (q, x # t) \<noteq> []"
    using match_position [OF assms] by metis
  then show False using first_end_None assms(1) by (auto simp: stays_removed_def)
qed

lemma pass_keeps:
  assumes "stays_removed r' k m Y" "begins_in r Y" "removed r' s"
  shows "removed r' (replace_all r (k # m) p s)"
  unfolding removed_def
proof (intro allI impI, rule ccontr)
  fix a q b
  assume "replace_all r (k # m) p s = a @ b" "ends r' (q, b) \<noteq> []"
  then obtain q a' x t where "s = a' @ x # t" "ends r' (q, x # t) \<noteq> []"
    using match_position [OF assms(1,2)] by metis
  then show False using assms(3) unfolding removed_def by blast
qed

end
