(* ===== verification/Sanitizer.thy ===== *)
theory Sanitizer
  imports Regex Telemetry
begin

text \<open>
  The sanitiser of telemetry (packages/security/src/telemetry/sanitizer.ts): what is kept of an
  envelope that a client sends. The input is any JSON value. SHA-256 is an argument.
\<close>

section \<open>Patterns\<close>

definition one_of :: "string \<Rightarrow> 16 word \<Rightarrow> bool" where
  "one_of s c \<longleftrightarrow> c \<in> set (u s)"

definition unit_digit :: "16 word \<Rightarrow> bool" where
  "unit_digit c \<longleftrightarrow> 0x30 \<le> c \<and> c \<le> 0x39"

text \<open>\<open>[a-z]\<close> under the flag i.\<close>

definition unit_letter :: "16 word \<Rightarrow> bool" where
  "unit_letter c \<longleftrightarrow> 0x41 \<le> c \<and> c \<le> 0x5A \<or> 0x61 \<le> c \<and> c \<le> 0x7A"

definition alnum_or :: "string \<Rightarrow> 16 word \<Rightarrow> bool" where
  "alnum_or s c \<longleftrightarrow> unit_digit c \<or> unit_letter c \<or> one_of s c"

definition visible_except :: "string \<Rightarrow> 16 word \<Rightarrow> bool" where
  "visible_except s c \<longleftrightarrow> \<not> unit_white c \<and> \<not> one_of s c"

definition connection_pattern :: re where
  "connection_pattern =
     sequence [literal (u ''postgres''), Optional (literal (u ''ql'')), literal (u ''://''),
       Repeat 1 None (visible_except [CHR 0x22, CHR 0x27, CHR '')''])]"

definition bearer_pattern :: re where
  "bearer_pattern =
     sequence [literal (u ''bearer''), Repeat 1 None unit_white, Repeat 1 None (alnum_or ''._~+/=-'')]"

definition secret_name_pattern :: re where
  "secret_name_pattern =
     choices [literal (u ''password''), literal (u ''otp''), literal (u ''authorization''),
       sequence [literal (u ''api''), Repeat 0 (Some 1) (one_of ''_-''), literal (u ''key'')],
       literal (u ''token''), literal (u ''cookie''), literal (u ''csrf'')]"

definition assignment_pattern :: re where
  "assignment_pattern =
     sequence [secret_name_pattern,
       Repeat 0 None unit_white, Chr (one_of '':=''), Repeat 0 None unit_white,
       Repeat 1 None (visible_except '',;)&'')]"

definition image_pattern :: re where
  "image_pattern =
     sequence [literal (u ''data:image/''), Repeat 1 None (alnum_or ''.+-''), literal (u '';base64,''),
       Repeat 1 None (alnum_or ''+/='')]"

definition email_pattern :: re where
  "email_pattern =
     sequence [Word_boundary, Repeat 1 None (alnum_or ''._%+-''), Chr (one_of ''@''),
       Repeat 1 None (alnum_or ''.-''), Chr (one_of ''.''), Repeat 2 None unit_letter, Word_boundary]"

definition phone_pattern :: re where
  "phone_pattern =
     sequence [Not_before unit_digit,
       choices [Cat (Repeat 0 (Some 1) (one_of ''+'')) (literal (u ''84'')), Chr (one_of ''0'')],
       Repeat 9 (Some 10) unit_digit, Not_after unit_digit]"

definition credential_patterns :: "re list" where
  "credential_patterns = [connection_pattern, bearer_pattern, assignment_pattern, image_pattern]"

definition sanitizer_patterns :: "re list" where
  "sanitizer_patterns = credential_patterns @ [email_pattern, phone_pattern]"

definition redaction_mark :: jstring where
  "redaction_mark = u ''[REDACTED]''"

definition sanitize_text :: "jstring \<Rightarrow> jstring \<times> bool" where
  "sanitize_text s =
     (let t = foldl (\<lambda>t r. replace_all r redaction_mark None t) s sanitizer_patterns in (t, t \<noteq> s))"

section \<open>Envelopes\<close>

record clean_error =
  ke_name :: jstring
  ke_code :: jstring
  ke_message :: jstring
  ke_stack :: "jstring option"
  ke_component :: "jstring option"

record clean_context =
  kc_request :: "jstring option"
  kc_trace :: "jstring option"
  kc_route :: "jstring option"
  kc_release :: jstring
  kc_service :: jstring
  kc_tags :: "(jstring \<times> jstring) list option"
  kc_breadcrumbs :: "(jstring \<times> jstring \<times> jstring) list option"

record clean_envelope =
  kv_event_id :: jstring
  kv_key :: jstring
  kv_captured :: jstring
  kv_source :: jstring
  kv_level :: tel_level
  kv_error :: clean_error
  kv_context :: clean_context

text \<open>A member that is a record, or an empty one.\<close>

definition record_member :: "(jstring \<times> js) list \<Rightarrow> string \<Rightarrow> (jstring \<times> js) list" where
  "record_member m k = (case is_record (member m k) of None \<Rightarrow> [] | Some r \<Rightarrow> r)"

definition bounded_string :: "js \<Rightarrow> nat \<Rightarrow> jstring \<Rightarrow> jstring" where
  "bounded_string v n fallback = (case v of Str s \<Rightarrow> take n s | _ \<Rightarrow> fallback)"

definition epoch_text :: jstring where
  "epoch_text = u ''1970-01-01T00:00:00.000Z''"

definition allowed_sources :: "jstring list" where
  "allowed_sources = map u telemetry_sources"

definition allowed_tag_keys :: "jstring list" where
  "allowed_tag_keys = map u [''studentId'', ''classId'', ''invoiceId'', ''jobName'', ''method'', ''httpStatus'']"

fun tags_loop :: "(jstring \<times> js) list \<Rightarrow> (jstring \<times> jstring) list \<Rightarrow> bool \<Rightarrow> (jstring \<times> jstring) list \<times> bool" where
  "tags_loop [] tags redacted = (tags, redacted)"
| "tags_loop ((key, v) # es) tags redacted =
     (case v of
        Str s \<Rightarrow>
          if key \<in> set allowed_tag_keys
          then (let (value, changed) = sanitize_text (take 128 s) in
                tags_loop es (AList.update key value tags) (redacted \<or> changed))
          else tags_loop es tags True
      | _ \<Rightarrow> tags_loop es tags True)"

definition sanitize_tags :: "js \<Rightarrow> (jstring \<times> jstring) list \<times> bool" where
  "sanitize_tags v =
     (case is_record v of None \<Rightarrow> ([], v \<noteq> Undefined) | Some m \<Rightarrow> tags_loop m [] False)"

definition sanitize_breadcrumb :: "js \<Rightarrow> ((jstring \<times> jstring \<times> jstring) \<times> bool) option" where
  "sanitize_breadcrumb v =
     (case is_record v of
        None \<Rightarrow> None
      | Some m \<Rightarrow>
          (let (message, changed) = sanitize_text (bounded_string (member m ''message'') 512 redaction_mark) in
           Some ((bounded_string (member m ''at'') 40 epoch_text,
                  bounded_string (member m ''category'') 64 (u ''unknown''), message), changed)))"

definition last_items :: "nat \<Rightarrow> 'a list \<Rightarrow> 'a list" where
  "last_items n xs = drop (length xs - n) xs"

definition sanitize_breadcrumbs :: "js \<Rightarrow> ((jstring \<times> jstring \<times> jstring) \<times> bool) list" where
  "sanitize_breadcrumbs v =
     (case v of Arr bs \<Rightarrow> List.map_filter sanitize_breadcrumb (last_items 30 bs) | _ \<Rightarrow> [])"

text \<open>A text that may be absent, sanitised within its bound.\<close>

definition sanitize_optional :: "js \<Rightarrow> nat \<Rightarrow> (jstring \<times> bool) option" where
  "sanitize_optional v n = map_option (\<lambda>s. sanitize_text (take n s)) (string_of v)"

definition was_redacted :: "(jstring \<times> bool) option \<Rightarrow> bool" where
  "was_redacted x = (case x of None \<Rightarrow> False | Some (_, r) \<Rightarrow> r)"

definition known_keys :: "jstring list" where
  "known_keys = map u [''schemaVersion'', ''eventId'', ''idempotencyKey'', ''capturedAt'', ''source'', ''level'',
     ''error'', ''context'']"

definition source_name :: "js \<Rightarrow> jstring" where
  "source_name v = (case v of Str s \<Rightarrow> if s \<in> set allowed_sources then s else u ''api'' | _ \<Rightarrow> u ''api'')"

definition level_name :: "js \<Rightarrow> tel_level" where
  "level_name v =
     (if v = Str (u ''fatal'') then Level_fatal else if v = Str (u ''warning'') then Level_warning else Level_error)"

definition sanitize_telemetry :: "(bytes \<Rightarrow> jstring) \<Rightarrow> jstring \<Rightarrow> js \<Rightarrow> clean_envelope \<times> bool" where
  "sanitize_telemetry sha256 pepper input =
     (let source = (case is_record input of None \<Rightarrow> [] | Some m \<Rightarrow> m);
          err = record_member source ''error'';
          ctx = record_member source ''context'';
          message = sanitize_text (bounded_string (member err ''safeMessage'') 2000 (u ''Telemetry error''));
          stack = sanitize_optional (member err ''stack'') 24000;
          component = sanitize_optional (member err ''componentStack'') 12000;
          route = sanitize_optional (member ctx ''route'') 512;
          (tags, tags_redacted) = sanitize_tags (member ctx ''tags'');
          breadcrumbs = sanitize_breadcrumbs (member ctx ''breadcrumbs'');
          session = map_option (\<lambda>s. sha256 (utf8 (s @ pepper))) (string_of (member ctx ''sessionId''));
          redacted = (snd message \<or> was_redacted stack \<or> was_redacted component \<or> was_redacted route \<or>
                      tags_redacted \<or> list_ex snd breadcrumbs \<or>
                      list_ex (\<lambda>(k, _). k \<notin> set known_keys) source) in
      (\<lparr> kv_event_id = bounded_string (member source ''eventId'') 128 (u ''EVT_INVALID''),
         kv_key = bounded_string (member source ''idempotencyKey'') 128 (u ''invalid''),
         kv_captured = bounded_string (member source ''capturedAt'') 40 epoch_text,
         kv_source = source_name (member source ''source''),
         kv_level = level_name (member source ''level''),
         kv_error =
           \<lparr> ke_name = bounded_string (member err ''name'') 120 (u ''Error''),
             ke_code = bounded_string (member err ''code'') 128 (u ''UNKNOWN_ERROR''),
             ke_message = fst message, ke_stack = map_option fst stack,
             ke_component = map_option fst component \<rparr>,
         kv_context =
           \<lparr> kc_request = map_option (take 128) (string_of (member ctx ''requestId'')),
             kc_trace = map_option (take 128) (string_of (member ctx ''traceId'')),
             kc_route = map_option fst route,
             kc_release = bounded_string (member ctx ''release'') 128 (u ''unknown''),
             kc_service = bounded_string (member ctx ''service'') 128 (u ''unknown''),
             kc_tags = (case session of
                 Some h \<Rightarrow> Some (AList.update (u ''sessionHash'') h tags)
               | None \<Rightarrow> if tags = [] then None else Some tags),
             kc_breadcrumbs = (if breadcrumbs = [] then None else Some (map fst breadcrumbs)) \<rparr> \<rparr>,
       redacted))"

section \<open>What sanitising removes\<close>

text \<open>
  The texts that a sanitised envelope must not hold, written without the patterns: a connection string of
  PostgreSQL, a bearer token, the assignment of a secret, an inline image. Letters count in either case.
\<close>

definition secret_names :: "jstring list" where
  "secret_names =
     map u [''password'', ''otp'', ''authorization'', ''apikey'', ''api_key'', ''api-key'', ''token'', ''cookie'', ''csrf'']"

inductive credential :: "jstring \<Rightarrow> bool" where
  connection_string:
    "lower p = u ''postgres://'' \<or> lower p = u ''postgresql://'' \<Longrightarrow> v \<noteq> [] \<Longrightarrow>
     list_all (\<lambda>c. \<not> unit_white c \<and> c \<notin> {0x22, 0x27, 0x29}) v \<Longrightarrow> credential (p @ v)"
| bearer_token:
    "lower p = u ''bearer'' \<Longrightarrow> s \<noteq> [] \<Longrightarrow> list_all unit_white s \<Longrightarrow> v \<noteq> [] \<Longrightarrow>
     list_all (\<lambda>c. unit_digit c \<or> unit_letter c \<or> c \<in> set (u ''._~+/=-'')) v \<Longrightarrow> credential (p @ s @ v)"
| secret_assignment:
    "lower n \<in> set secret_names \<Longrightarrow> list_all unit_white s \<Longrightarrow> c \<in> {0x3A, 0x3D} \<Longrightarrow>
     list_all unit_white s' \<Longrightarrow> v \<noteq> [] \<Longrightarrow>
     list_all (\<lambda>c. \<not> unit_white c \<and> c \<notin> set (u '',;)&'')) v \<Longrightarrow> credential (n @ s @ [c] @ s' @ v)"
| inline_image:
    "lower p = u ''data:image/'' \<Longrightarrow> t \<noteq> [] \<Longrightarrow>
     list_all (\<lambda>c. unit_digit c \<or> unit_letter c \<or> c \<in> set (u ''.+-'')) t \<Longrightarrow> lower q = u '';base64,'' \<Longrightarrow>
     v \<noteq> [] \<Longrightarrow> list_all (\<lambda>c. unit_digit c \<or> unit_letter c \<or> c \<in> set (u ''+/='')) v \<Longrightarrow>
     credential (p @ t @ q @ v)"

definition holds_credential :: "jstring \<Rightarrow> bool" where
  "holds_credential t \<longleftrightarrow> (\<exists>a w b. t = a @ w @ b \<and> credential w)"

text \<open>
  The texts of an envelope that are sanitised. The others that a client can write are stored as they were
  sent, cut to a length: \<open>other_texts_stored_as_sent\<close> below.
\<close>

definition cleaned_texts :: "clean_envelope \<Rightarrow> jstring list" where
  "cleaned_texts e =
     (let err = kv_error e; ctx = kv_context e in
      ke_message err # (case ke_stack err of None \<Rightarrow> [] | Some s \<Rightarrow> [s])
      @ (case ke_component err of None \<Rightarrow> [] | Some s \<Rightarrow> [s])
      @ (case kc_route ctx of None \<Rightarrow> [] | Some s \<Rightarrow> [s])
      @ (case kc_tags ctx of None \<Rightarrow> [] | Some ts \<Rightarrow> map snd (filter (\<lambda>(k, _). k \<noteq> u ''sessionHash'') ts))
      @ (case kc_breadcrumbs ctx of None \<Rightarrow> [] | Some bs \<Rightarrow> map (\<lambda>(_, _, m). m) bs))"

lemma mark_Cons: "redaction_mark = 0x5B # u ''REDACTED]''"
  by (simp add: redaction_mark_def)

lemma outside_markI:
  assumes "\<And>n q c. n < length m \<Longrightarrow> ends r (q, drop n m @ c) = []"
  shows "outside_mark r m"
  unfolding outside_mark_def
proof (intro allI impI)
  fix e v q c
  assume "m = e @ v \<and> v \<noteq> []"
  then have "length e < length m" "drop (length e) m = v" by auto
  then show "ends r (q, v @ c) = []" using assms [of "length e" q c] by simp
qed

lemma mark_tails:
  "n < length redaction_mark \<Longrightarrow> n \<in> {0, 1, 2, 3, 4, 5, 6, 7, 8, 9}"
  by (auto simp: redaction_mark_def)

lemmas pattern_defs = connection_pattern_def bearer_pattern_def assignment_pattern_def secret_name_pattern_def image_pattern_def
  email_pattern_def phone_pattern_def

text \<open>The units with which a match of a pattern can begin: no white space, quote or separator.\<close>

definition match_starts :: "16 word set" where
  "match_starts = {c. visible_except ([CHR 0x22, CHR 0x27] @ '',;)&'') c}"

lemma lower_unit_eq: "lower_unit y = c \<Longrightarrow> y = c \<or> y = c - 32"
  by (auto simp: lower_unit_def split: if_splits)

lemma letter_visible: "unit_letter y \<or> unit_digit y \<Longrightarrow> y \<in> match_starts"
  by (auto simp: match_starts_def visible_except_def one_of_def unit_letter_def unit_digit_def unit_white_def
      word_le_nat_alt)

lemma starts_visible:
  "starts r y \<Longrightarrow> r \<in> set sanitizer_patterns \<Longrightarrow> y \<in> match_starts"
proof -
  have lit: "y \<in> match_starts" if "lower_unit y = c" "c \<in> set (u ''pboatcd'')" for c
  proof -
    have "unit_letter c \<and> unit_letter (c - 32)" using that(2) by (auto simp: unit_letter_def word_le_nat_alt)
    then show ?thesis using lower_unit_eq [OF that(1)] letter_visible by auto
  qed
  have others: "y \<in> match_starts" if "one_of ''._%+-'' y"
    using that by (auto simp: match_starts_def visible_except_def one_of_def unit_white_def)
  have digits: "y \<in> match_starts" if "lower_unit y = 56 \<or> y = 48"
    using that by (auto simp: match_starts_def visible_except_def one_of_def unit_white_def dest!: lower_unit_eq)
  assume "starts r y" "r \<in> set sanitizer_patterns"
  then show ?thesis
    using lit others digits letter_visible
    by (auto simp: sanitizer_patterns_def credential_patterns_def pattern_defs alnum_or_def one_of_def)
qed

lemma pattern_begins: "r \<in> set sanitizer_patterns \<Longrightarrow> begins_in r match_starts"
  using starts_visible by (blast intro: begins_inI)

lemma credential_stays:
  assumes "r \<in> set credential_patterns"
  shows "stays_removed r 0x5B (u ''REDACTED]'') match_starts"
proof -
  have plain: "plain_re r" "consumes r"
    using assms by (auto simp: credential_patterns_def pattern_defs)
  have open_end: "open_ended 0x5B (insert 0x5B match_starts) r"
    using assms
    by (auto simp: credential_patterns_def pattern_defs match_starts_def visible_except_def one_of_def alnum_or_def
        unit_digit_def unit_letter_def unit_white_def lower_unit_def word_le_nat_alt)
  have bracket: "ends r (q, 0x5B # c) = []" for q c
    using assms by (auto simp: credential_patterns_def pattern_defs lower_unit_def word_le_nat_alt)
  have "outside_mark r redaction_mark"
  proof (rule outside_markI)
    fix n q c
    assume "n < length redaction_mark"
    then have "n \<in> {0, 1, 2, 3, 4, 5, 6, 7, 8, 9}" by (rule mark_tails)
    with assms show "ends r (q, drop n redaction_mark @ c) = []"
      by (auto simp: credential_patterns_def pattern_defs redaction_mark_def lower_unit_def word_le_nat_alt)
  qed
  then show ?thesis using plain open_end bracket by (simp add: stays_removed_def mark_Cons)
qed

lemma passes_remove:
  assumes r: "r \<in> set credential_patterns" and "set ps \<subseteq> set sanitizer_patterns" "removed r t \<or> r \<in> set ps"
  shows "removed r (foldl (\<lambda>t p. replace_all p redaction_mark None t) t ps)"
  using assms(2,3)
proof (induction ps arbitrary: t)
  case (Cons p ps)
  have p: "begins_in p match_starts" using Cons.prems(1) by (simp add: pattern_begins)
  have "removed r (replace_all p redaction_mark None t) \<or> r \<in> set ps"
    using Cons.prems(2) pass_removes [OF credential_stays [OF r]] pass_keeps [OF credential_stays [OF r]] p
    unfolding mark_Cons by auto
  then show ?case using Cons.IH Cons.prems(1) by simp
qed simp

lemma sanitized_removed:
  assumes "r \<in> set credential_patterns" shows "removed r (fst (sanitize_text s))"
proof -
  have "r \<in> set sanitizer_patterns" using assms by (simp add: sanitizer_patterns_def)
  then show ?thesis using passes_remove [OF assms order_refl] by (simp add: sanitize_text_def Let_def)
qed

text \<open>A credential is what one of the patterns matches.\<close>

lemma lower_splits: "lower n = a @ b \<Longrightarrow> \<exists>x y. n = x @ y \<and> lower x = a \<and> lower y = b"
  by (auto simp: lower_def map_eq_append_conv)

lemma spans_name:
  assumes "lower n \<in> set secret_names"
  shows "spans secret_name_pattern n"
proof -
  let ?api = "sequence [literal (u ''api''), Repeat 0 (Some 1) (one_of ''_-''), literal (u ''key'')]"
  have api: "spans ?api n" if name: "lower n = u ''api'' @ sep @ u ''key''" "sep = [] \<or> sep = [0x5F] \<or> sep = [0x2D]" for sep
  proof -
    obtain x n' where "n = x @ n'" "lower x = u ''api''" "lower n' = sep @ u ''key''"
      using lower_splits [OF name(1)] by blast
    moreover obtain y z where "n' = y @ z" "lower y = sep" "lower z = u ''key''"
      using lower_splits [OF \<open>lower n' = _\<close>] by blast
    ultimately have n: "n = x @ y @ z" "lower x = u ''api''" "lower y = sep" "lower z = u ''key''" by simp_all
    have "list_all (one_of ''_-'') y \<and> length y \<le> 1"
      using n(3) name(2) by (auto simp: lower_def one_of_def lower_unit_def split: if_splits)
    then show ?thesis
      unfolding n(1) sequence.simps using n by (intro spans_Cat spans_literal spans_Repeat) auto
  qed
  from assms consider "lower n = u ''apikey''" | "lower n = u ''api_key''" | "lower n = u ''api-key''"
    | "lower n \<in> set (map u [''password'', ''otp'', ''authorization'', ''token'', ''cookie'', ''csrf''])"
    by (auto simp: secret_names_def simp del: u_simps)
  then show ?thesis
  proof cases
    case 1
    then show ?thesis using api [of "[]"] by (auto simp: secret_name_pattern_def intro!: spans_Choice simp del: sequence.simps)
  next
    case 2
    then show ?thesis using api [of "[0x5F]"] by (auto simp: secret_name_pattern_def intro!: spans_Choice simp del: sequence.simps)
  next
    case 3
    then show ?thesis using api [of "[0x2D]"] by (auto simp: secret_name_pattern_def intro!: spans_Choice simp del: sequence.simps)
  next
    case 4
    then have "\<exists>s\<in>set (map u [''password'', ''otp'', ''authorization'', ''token'', ''cookie'', ''csrf'']). spans (literal s) n"
      by (auto intro: spans_literal simp del: u_simps)
    then show ?thesis unfolding secret_name_pattern_def choices.simps by (auto intro!: spans_Choice simp del: sequence.simps u_simps)
  qed
qed

lemma credential_spanned:
  assumes "credential w" shows "\<exists>r\<in>set credential_patterns. spans r w"
  using assms
proof cases
  case (connection_string p v)
  from connection_string(2) obtain x y z where p: "p = x @ y @ z" "lower x = u ''postgres''"
    "y = [] \<or> lower y = u ''ql''" "lower z = u ''://''"
  proof
    assume "lower p = u ''postgres://''"
    then obtain x z where "p = x @ z" "lower x = u ''postgres''" "lower z = u ''://''"
      using lower_splits [of p "u ''postgres''" "u ''://''"] by auto
    then show thesis using that [of x "[]" z] by simp
  next
    assume "lower p = u ''postgresql://''"
    then obtain x y z where "p = x @ y @ z" "lower x = u ''postgres''" "lower y = u ''ql''" "lower z = u ''://''"
      using lower_splits [of p "u ''postgres''" "u ''ql://''"] lower_splits [of _ "u ''ql''" "u ''://''"] by fastforce
    then show thesis using that by blast
  qed
  have "y = [] \<or> spans (literal (u ''ql'')) y" using p(3) spans_literal by blast
  then have "spans connection_pattern (x @ y @ z @ v)"
    unfolding connection_pattern_def sequence.simps
    using p(2,4) connection_string(3,4)
    by (intro spans_Cat spans_literal spans_Optional spans_Repeat)
       (auto simp: visible_except_def [abs_def] one_of_def Suc_le_eq)
  then show ?thesis using p connection_string(1) by (auto simp: credential_patterns_def)
next
  case (bearer_token p s v)
  have "spans bearer_pattern w"
    unfolding bearer_pattern_def bearer_token(1) sequence.simps
    using bearer_token(2-) by (intro spans_Cat spans_literal spans_Repeat) (auto simp: alnum_or_def [abs_def] one_of_def Suc_le_eq)
  then show ?thesis by (auto simp: credential_patterns_def)
next
  case (secret_assignment n s c s' v)
  have "spans assignment_pattern w"
    unfolding assignment_pattern_def secret_assignment(1) sequence.simps
    using secret_assignment(2-)
    by (intro spans_Cat spans_Chr spans_name spans_Repeat) (auto simp: visible_except_def [abs_def] one_of_def Suc_le_eq)
  then show ?thesis by (auto simp: credential_patterns_def)
next
  case (inline_image p t q v)
  have "spans image_pattern w"
    unfolding image_pattern_def inline_image(1) sequence.simps
    using inline_image(2-) by (intro spans_Cat spans_literal spans_Repeat) (auto simp: alnum_or_def [abs_def] one_of_def Suc_le_eq)
  then show ?thesis by (auto simp: credential_patterns_def)
qed

lemma sanitized_no_credential: "\<not> holds_credential (fst (sanitize_text s))"
  using sanitized_removed credential_spanned removed_spans unfolding holds_credential_def by metis

lemma sanitize_optional_no_credential:
  "sanitize_optional v n = Some x \<Longrightarrow> \<not> holds_credential (fst x)"
  by (auto simp del: split_paired_All split_paired_Ex simp: sanitize_optional_def sanitized_no_credential)

lemma update_values: "x \<in> set (AList.update k v al) \<Longrightarrow> x = (k, v) \<or> x \<in> set al"
  by (induction al) (auto split: if_splits)

lemma tags_loop_ok:
  assumes "\<forall>(k, t) \<in> set tags. k \<in> set allowed_tag_keys \<and> \<not> holds_credential t"
  shows "\<forall>(k, t) \<in> set (fst (tags_loop es tags b)). k \<in> set allowed_tag_keys \<and> \<not> holds_credential t"
  using assms
proof (induction es arbitrary: tags b)
  case (Cons e es)
  obtain key v where e: "e = (key, v)" by fastforce
  show ?case
  proof (cases "\<exists>s. v = Str s \<and> key \<in> set allowed_tag_keys")
    case True
    then obtain s where v: "v = Str s" and key: "key \<in> set allowed_tag_keys" by blast
    obtain t c where t: "sanitize_text (take 128 s) = (t, c)" by fastforce
    have "\<not> holds_credential t" using sanitized_no_credential [of "take 128 s"] t by simp
    with Cons.prems key have "\<forall>(k, t') \<in> set (AList.update key t tags). k \<in> set allowed_tag_keys \<and> \<not> holds_credential t'"
      by (auto dest!: update_values)
    from Cons.IH [OF this] show ?thesis using v key t e by simp
  next
    case False
    then have "tags_loop (e # es) tags b = tags_loop es tags True" using e by (cases v) auto
    then show ?thesis using Cons.IH [OF Cons.prems] by simp
  qed
qed simp

lemma sanitize_tags_ok:
  "(k, t) \<in> set (fst (sanitize_tags v)) \<Longrightarrow> k \<in> set allowed_tag_keys \<and> \<not> holds_credential t"
  using tags_loop_ok [of "[]"] by (fastforce simp: sanitize_tags_def split: option.splits)

lemma sanitize_breadcrumbs_ok: "((a, c, m), r) \<in> set (sanitize_breadcrumbs v) \<Longrightarrow> \<not> holds_credential m"
  using sanitized_no_credential
  by (auto simp: sanitize_breadcrumbs_def sanitize_breadcrumb_def List.map_filter_def split: js.splits option.splits prod.splits)
     (metis fst_conv)

text \<open>The parts of a sanitised envelope.\<close>

lemma sanitized_parts:
  fixes hash pepper v
  defines "m \<equiv> case is_record v of None \<Rightarrow> [] | Some m \<Rightarrow> m"
  defines "err \<equiv> record_member m ''error''" and "ctx \<equiv> record_member m ''context''"
    and "e \<equiv> fst (sanitize_telemetry hash pepper v)"
  shows "ke_message (kv_error e) = fst (sanitize_text (bounded_string (member err ''safeMessage'') 2000 (u ''Telemetry error'')))"
    and "ke_stack (kv_error e) = map_option fst (sanitize_optional (member err ''stack'') 24000)"
    and "ke_component (kv_error e) = map_option fst (sanitize_optional (member err ''componentStack'') 12000)"
    and "kc_route (kv_context e) = map_option fst (sanitize_optional (member ctx ''route'') 512)"
    and "kc_breadcrumbs (kv_context e) =
      (let bs = sanitize_breadcrumbs (member ctx ''breadcrumbs'') in if bs = [] then None else Some (map fst bs))"
    and "kc_tags (kv_context e) =
      (let tags = fst (sanitize_tags (member ctx ''tags'')) in
       case string_of (member ctx ''sessionId'') of
         Some s \<Rightarrow> Some (AList.update (u ''sessionHash'') (hash (utf8 (s @ pepper))) tags)
       | None \<Rightarrow> if tags = [] then None else Some tags)"
  by (auto simp: sanitize_telemetry_def Let_def e_def m_def [symmetric] err_def [symmetric] ctx_def [symmetric]
      split: prod.split option.split simp del: u_simps)

text \<open>
  C11. No credential passes through a sanitised text. Whatever JSON value is sent, the stored message, stack,
  component stack, route, tag values and messages of breadcrumbs hold no connection string of PostgreSQL, no
  bearer token, no assignment of a password, one-time password, authorization, key, token, cookie or csrf value,
  and no inline image, and the tags have allowed keys only. The other texts (name and code of the error, release,
  service, identifiers, time and category of a breadcrumb) are not sanitised by the code and not covered.
\<close>

theorem credentials_are_removed:
  "list_all (\<lambda>t. \<not> holds_credential t) (cleaned_texts (fst (sanitize_telemetry sha256 pepper v))) \<and>
   list_all (\<lambda>(k, _). k = u ''sessionHash'' \<or> k \<in> set allowed_tag_keys)
     (case kc_tags (kv_context (fst (sanitize_telemetry sha256 pepper v))) of None \<Rightarrow> [] | Some ts \<Rightarrow> ts)"
proof -
  define e where "e = fst (sanitize_telemetry sha256 pepper v)"
  note parts = sanitized_parts [where hash = sha256 and pepper = pepper and v = v, folded e_def]
  have optional: "list_all (\<lambda>t. \<not> holds_credential t) (case map_option fst (sanitize_optional w n) of None \<Rightarrow> [] | Some s \<Rightarrow> [s])"
    for w n
    using sanitize_optional_no_credential [of w n] by (cases "sanitize_optional w n") auto
  have tags: "(k = u ''sessionHash'' \<or> k \<in> set allowed_tag_keys) \<and> (k \<noteq> u ''sessionHash'' \<longrightarrow> \<not> holds_credential t)"
    if "kc_tags (kv_context e) = Some ts" "(k, t) \<in> set ts" for ts k t
    using that unfolding parts by (auto simp: Let_def dest!: update_values sanitize_tags_ok split: option.splits if_splits)
  have crumbs: "list_all (\<lambda>t. \<not> holds_credential t) (map (\<lambda>(_, _, m). m) bs)" if "kc_breadcrumbs (kv_context e) = Some bs" for bs
    using that unfolding parts
    by (auto simp: Let_def list_all_iff dest!: sanitize_breadcrumbs_ok split: if_splits)
  have "list_all (\<lambda>t. \<not> holds_credential t)
      (case kc_tags (kv_context e) of None \<Rightarrow> [] | Some ts \<Rightarrow> map snd (filter (\<lambda>(k, _). k \<noteq> u ''sessionHash'') ts))"
    using tags by (cases "kc_tags (kv_context e)") (auto simp: list_all_iff simp del: u_simps)
  moreover have "list_all (\<lambda>t. \<not> holds_credential t) (case kc_breadcrumbs (kv_context e) of None \<Rightarrow> [] | Some bs \<Rightarrow> map (\<lambda>(_, _, m). m) bs)"
    using crumbs by (cases "kc_breadcrumbs (kv_context e)") auto
  ultimately have "list_all (\<lambda>t. \<not> holds_credential t) (cleaned_texts e)"
    unfolding cleaned_texts_def Let_def parts(1-4)
    by (simp only: list.pred_inject list_all_append optional sanitized_no_credential simp_thms)
  moreover have "list_all (\<lambda>(k, _). k = u ''sessionHash'' \<or> k \<in> set allowed_tag_keys)
      (case kc_tags (kv_context e) of None \<Rightarrow> [] | Some ts \<Rightarrow> ts)"
    using tags by (cases "kc_tags (kv_context e)") (auto simp: list_all_iff simp del: u_simps)
  ultimately show ?thesis by (simp add: e_def)
qed

text \<open>
  The other texts are stored as sent, cut to their length, credentials included.
\<close>

lemma other_texts_stored_as_sent:
  fixes hash pepper v
  defines "m \<equiv> case is_record v of None \<Rightarrow> [] | Some m \<Rightarrow> m"
  defines "err \<equiv> record_member m ''error''" and "ctx \<equiv> record_member m ''context''"
    and "e \<equiv> fst (sanitize_telemetry hash pepper v)"
  shows "member err ''name'' = Str s \<Longrightarrow> ke_name (kv_error e) = take 120 s"
    and "member err ''code'' = Str s \<Longrightarrow> ke_code (kv_error e) = take 128 s"
    and "member ctx ''release'' = Str s \<Longrightarrow> kc_release (kv_context e) = take 128 s"
    and "member ctx ''service'' = Str s \<Longrightarrow> kc_service (kv_context e) = take 128 s"
  by (auto simp: sanitize_telemetry_def Let_def e_def m_def [symmetric] err_def [symmetric] ctx_def [symmetric]
      bounded_string_def split: prod.split)

lemma credential_in_error_name:
  "holds_credential (ke_name (kv_error (fst (sanitize_telemetry hash pepper
     (Obj [(u ''error'', Obj [(u ''name'', Str (u ''Bearer abc''))])])))))"
proof -
  have "credential (u ''Bearer'' @ u '' '' @ u ''abc'')"
    by (rule bearer_token) (auto simp: lower_def lower_unit_def unit_white_def unit_letter_def word_le_nat_alt)
  then have "holds_credential (u ''Bearer abc'')"
    unfolding holds_credential_def by (intro exI [of _ "[]"] exI [of _ "u ''Bearer abc''"]) simp
  then show ?thesis
    by (subst other_texts_stored_as_sent(1) [where s = "u ''Bearer abc''"]) (simp_all add: record_member_def is_record_def member_def)
qed

text \<open>
  What it does not remove: an e-mail address in front of a phone number, since the address must end at a
  word boundary and the number is only replaced afterwards, and a password written as JSON, since the
  quote comes between the name and the colon.
\<close>

theorem sanitizer_gaps:
  "fst (sanitize_text (u ''a@b.co0912345678'')) = u ''a@b.co[REDACTED]''"
  "fst (sanitize_text (u [CHR 0x22, CHR ''o'', CHR ''t'', CHR ''p'', CHR 0x22, CHR '':'', CHR ''1''])) =
    u [CHR 0x22, CHR ''o'', CHR ''t'', CHR ''p'', CHR 0x22, CHR '':'', CHR ''1'']"
  by code_simp+

end
