(* ===== verification/IngestGate.thy ===== *)
theory IngestGate
  imports Sanitizer CursorCodec
begin

text \<open>
  What stands in front of the acceptance of telemetry in apps/api/src/modules/ingest: signed requests
  and nonces (hmac.ts, postgresNonceStore.ts), the rate limiter of browsers
  (postgresBrowserRateLimiter.ts), and the context token that identifies the user of a browser
  (packages/security/src/telemetry/contextToken.ts).

  SHA-256, HMAC, \<open>JSON.parse\<close>, \<open>Date.parse\<close>, \<open>toISOString\<close> and \<open>String()\<close> are arguments. Every SQL
  statement is one step on its table.
\<close>

record ingest_lib =
  sha256_hex :: "bytes \<Rightarrow> jstring"
  hmac_sha256 :: "jstring \<Rightarrow> bytes \<Rightarrow> bytes"
  parse_text :: "jstring \<Rightarrow> js option"
  parse_bytes :: "bytes \<Rightarrow> js option"
  parse_date :: "jstring \<Rightarrow> millis option"
  iso_text :: "millis \<Rightarrow> jstring"
  show_js :: "js \<Rightarrow> jstring"

section \<open>Stores of nonces\<close>

type_synonym nonce_table = "(jstring \<times> millis) list"

text \<open>\<open>InMemoryNonceStore.consume\<close>.\<close>

definition memory_consume :: "jstring \<Rightarrow> millis \<Rightarrow> millis \<Rightarrow> nonce_table \<Rightarrow> bool \<times> nonce_table" where
  "memory_consume nonce expires now t =
     (let live = filter (\<lambda>(_, e). \<not> e \<le> now) t in
      if nonce \<in> fst ` set live then (False, live) else (True, live @ [(nonce, expires)]))"

text \<open>\<open>PostgresNonceStore.consume\<close>: two statements, the second of which decides.\<close>

definition delete_expired_nonces :: "millis \<Rightarrow> nonce_table \<Rightarrow> nonce_table" where
  "delete_expired_nonces now t = filter (\<lambda>(_, e). \<not> e \<le> now) t"

definition insert_nonce :: "jstring \<Rightarrow> millis \<Rightarrow> nonce_table \<Rightarrow> bool \<times> nonce_table" where
  "insert_nonce hash expires t =
     (if hash \<in> fst ` set t then (False, t) else (True, t @ [(hash, expires)]))"

definition postgres_consume ::
  "(bytes \<Rightarrow> jstring) \<Rightarrow> jstring \<Rightarrow> millis \<Rightarrow> millis \<Rightarrow> nonce_table \<Rightarrow> bool \<times> nonce_table" where
  "postgres_consume sha nonce expires now t =
     insert_nonce (sha (utf8 nonce)) expires (delete_expired_nonces now t)"

text \<open>
  The contract of a store: \<open>expiry\<close> is when a recorded nonce may be used again. \<open>nonce_run\<close> is a history of
  uses of the store.
\<close>

locale nonce_store =
  fixes consume :: "jstring \<Rightarrow> millis \<Rightarrow> millis \<Rightarrow> 's \<Rightarrow> bool \<times> 's"
    and expiry :: "'s \<Rightarrow> jstring \<Rightarrow> millis option"
  assumes consume_records: "consume n e now s = (True, s') \<Longrightarrow> expiry s' n = Some e"
    and consume_keeps: "expiry s n = Some e \<Longrightarrow> now < e \<Longrightarrow> expiry (snd (consume m e' now s)) n = Some e"
    and consume_refuses: "expiry s n = Some e \<Longrightarrow> now < e \<Longrightarrow> \<not> fst (consume n e' now s)"
    and consume_accepts: "(\<And>e. expiry s n = Some e \<Longrightarrow> e \<le> now) \<Longrightarrow> fst (consume n e' now s)"
begin

fun nonce_run :: "(jstring \<times> millis \<times> millis) list \<Rightarrow> 's \<Rightarrow> 's" where
  "nonce_run [] s = s"
| "nonce_run ((m, e, now) # us) s = nonce_run us (snd (consume m e now s))"

lemma run_keeps:
  "expiry s n = Some e \<Longrightarrow> list_all (\<lambda>(m, e', now). now < e) us \<Longrightarrow> expiry (nonce_run us s) n = Some e"
proof (induction us arbitrary: s)
  case (Cons x us)
  obtain m e' now where x: "x = (m, e', now)" by (cases x) auto
  have "expiry (snd (consume m e' now s)) n = Some e"
    using Cons.prems x by (intro consume_keeps) auto
  then show ?case using Cons.IH Cons.prems(2) x by simp
qed simp

text \<open>A recorded nonce is refused until it expires, whatever else is consumed meanwhile.\<close>

lemma used_once:
  assumes "consume n e t0 s = (True, s')" "list_all (\<lambda>(m, e', now). now < e) us" "t1 < e"
  shows "\<not> fst (consume n e1 t1 (nonce_run us s'))"
  using consume_refuses [OF run_keeps [OF consume_records [OF assms(1)] assms(2)] assms(3)] .

text \<open>From the millisecond of its expiry on it is accepted again.\<close>

lemma used_again:
  assumes "consume n e t0 s = (True, s')" "e \<le> t1"
  shows "fst (consume n e1 t1 s')"
  using consume_records [OF assms(1)] assms(2) by (intro consume_accepts) simp

end

text \<open>The latest expiry of a nonce in a table (which holds a nonce at most once).\<close>

definition nonce_expiry :: "nonce_table \<Rightarrow> jstring \<Rightarrow> millis option" where
  "nonce_expiry t n =
     (let es = map snd (filter (\<lambda>(m, _). m = n) t) in if es = [] then None else Some (Max (set es)))"

lemma nonce_expiry_Some:
  "nonce_expiry t n = Some e \<longleftrightarrow> (n, e) \<in> set t \<and> (\<forall>e'. (n, e') \<in> set t \<longrightarrow> e' \<le> e)"
proof -
  define es where "es = set (map snd (filter (\<lambda>(m, _). m = n) t))"
  have es: "e \<in> es \<longleftrightarrow> (n, e) \<in> set t" for e unfolding es_def by force
  have fin: "finite es" by (simp add: es_def)
  have eq: "nonce_expiry t n = (if es = {} then None else Some (Max es))"
    unfolding es_def nonce_expiry_def Let_def by (simp only: set_empty)
  show ?thesis
  proof (cases "es = {}")
    case True
    then show ?thesis using es eq by auto
  next
    case False
    have "Max es = e \<longleftrightarrow> e \<in> es \<and> (\<forall>e'\<in>es. e' \<le> e)"
      using Max_eq_iff [OF fin False] .
    then show ?thesis using False eq es by auto
  qed
qed

lemma nonce_expiry_None: "nonce_expiry t n = None \<longleftrightarrow> n \<notin> fst ` set t"
proof -
  have "filter (\<lambda>(m, _). m = n) t = [] \<longleftrightarrow> n \<notin> fst ` set t"
    by (induction t) auto
  then show ?thesis by (simp add: nonce_expiry_def Let_def)
qed

lemma memory_consume_store: "nonce_store memory_consume nonce_expiry"
proof
  fix n e now s s'
  assume "memory_consume n e now s = (True, s')"
  then have "s' = filter (\<lambda>(_, e). \<not> e \<le> now) s @ [(n, e)]" "n \<notin> fst ` set (filter (\<lambda>(_, e). \<not> e \<le> now) s)"
    by (auto simp: memory_consume_def Let_def split: if_splits)
  then show "nonce_expiry s' n = Some e" by (force simp: nonce_expiry_Some)
next
  fix s n e now m e'
  assume "nonce_expiry s n = Some e" "now < e"
  then show "nonce_expiry (snd (memory_consume m e' now s)) n = Some e"
    by (force simp: nonce_expiry_Some memory_consume_def Let_def)
next
  fix s n e now e'
  assume "nonce_expiry s n = Some e" "now < e"
  then have "(n, e) \<in> set (filter (\<lambda>(_, e). \<not> e \<le> now) s)" by (simp add: nonce_expiry_Some)
  then have "n \<in> fst ` set (filter (\<lambda>(_, e). \<not> e \<le> now) s)" by (metis fst_conv image_eqI)
  then show "\<not> fst (memory_consume n e' now s)" by (simp add: memory_consume_def Let_def)
next
  fix s n now e
  assume late: "\<And>e. nonce_expiry s n = Some e \<Longrightarrow> e \<le> now"
  have "e' \<le> now" if "(n, e') \<in> set s" for e'
  proof -
    have "nonce_expiry s n \<noteq> None" using that by (metis fst_conv image_eqI nonce_expiry_None)
    then obtain m where m: "nonce_expiry s n = Some m" by blast
    then show ?thesis using late [OF m] that unfolding nonce_expiry_Some by force
  qed
  then show "fst (memory_consume n e now s)" by (force simp: memory_consume_def Let_def)
qed

lemma postgres_consume_memory: "postgres_consume sha n e now t = memory_consume (sha (utf8 n)) e now t"
  by (simp add: postgres_consume_def insert_nonce_def delete_expired_nonces_def memory_consume_def)

interpretation memory_nonces: nonce_store memory_consume nonce_expiry
  by (rule memory_consume_store)

interpretation postgres_nonces: nonce_store "postgres_consume sha" "\<lambda>t n. nonce_expiry t (sha (utf8 n))" for sha
  by unfold_locales
     (simp_all add: postgres_consume_memory memory_nonces.consume_records memory_nonces.consume_keeps
       memory_nonces.consume_refuses memory_nonces.consume_accepts)

section \<open>Signed requests\<close>

record signed_request =
  sg_method :: jstring
  sg_path :: jstring
  sg_timestamp :: jstring
  sg_nonce :: jstring
  sg_body :: jstring

definition upper_unit :: "16 word \<Rightarrow> 16 word" where
  "upper_unit c = (if 0x61 \<le> c \<and> c \<le> 0x7A then c - 32 else c)"

fun join_with :: "jstring \<Rightarrow> jstring list \<Rightarrow> jstring" where
  "join_with sep [] = []"
| "join_with sep [x] = x"
| "join_with sep (x # y # xs) = x @ sep @ join_with sep (y # xs)"

definition canonical_request :: "ingest_lib \<Rightarrow> signed_request \<Rightarrow> jstring" where
  "canonical_request lib r =
     join_with [0x0A]
       [u ''v1'', map upper_unit (sg_method r), sg_path r, sg_timestamp r, sg_nonce r,
        sha256_hex lib (utf8 (sg_body r))]"

definition compute_signature :: "ingest_lib \<Rightarrow> jstring \<Rightarrow> signed_request \<Rightarrow> bytes" where
  "compute_signature lib secret r = hmac_sha256 lib secret (utf8 (canonical_request lib r))"

definition sign_server_ingest_request :: "ingest_lib \<Rightarrow> jstring \<Rightarrow> signed_request \<Rightarrow> jstring" where
  "sign_server_ingest_request lib secret r = u ''v1='' @ to_hex (compute_signature lib secret r)"

definition nonce_unit :: "16 word \<Rightarrow> bool" where
  "nonce_unit c \<longleftrightarrow> unit_digit c \<or> unit_letter c \<or> c = 0x5F \<or> c = 0x2D"

definition valid_nonce :: "jstring \<Rightarrow> bool" where
  "valid_nonce s \<longleftrightarrow> 16 \<le> length s \<and> length s \<le> 255 \<and> list_all nonce_unit s"

text \<open>The group of \<open>/^v1=([a-f0-9]{64})$/i\<close>.\<close>

definition supplied_signature :: "jstring \<Rightarrow> jstring option" where
  "supplied_signature s =
     (let hex = drop 3 s in
      if lower (take 3 s) = u ''v1='' \<and> length hex = 64 \<and> list_all (\<lambda>c. hex_value c \<noteq> None) hex
      then Some hex else None)"

datatype verification = Verified | Expired_timestamp | Invalid_signature | Replayed_nonce

definition max_clock_skew :: millis where "max_clock_skew = 60000"

definition verify_server_ingest_request ::
  "ingest_lib \<Rightarrow> (jstring \<Rightarrow> millis \<Rightarrow> millis \<Rightarrow> 's \<Rightarrow> bool \<times> 's) \<Rightarrow> jstring \<Rightarrow> jstring \<Rightarrow> millis
     \<Rightarrow> signed_request \<Rightarrow> 's \<Rightarrow> verification \<times> 's" where
  "verify_server_ingest_request lib consume secret signature now r s =
     (case parse_date lib (sg_timestamp r) of
        None \<Rightarrow> (Expired_timestamp, s)
      | Some t \<Rightarrow>
          if \<bar>now - t\<bar> > max_clock_skew then (Expired_timestamp, s)
          else if \<not> valid_nonce (sg_nonce r) then (Invalid_signature, s)
          else (case supplied_signature signature of
              None \<Rightarrow> (Invalid_signature, s)
            | Some hex \<Rightarrow>
                if unhex hex \<noteq> compute_signature lib secret r then (Invalid_signature, s)
                else (case consume (sg_nonce r) (t + max_clock_skew) now s of
                    (True, s') \<Rightarrow> (Verified, s') | (False, s') \<Rightarrow> (Replayed_nonce, s'))))"

lemma verified_request:
  assumes "verify_server_ingest_request lib consume secret signature now r s = (Verified, s')"
  obtains t hex where "parse_date lib (sg_timestamp r) = Some t" "\<bar>now - t\<bar> \<le> max_clock_skew"
    "valid_nonce (sg_nonce r)" "supplied_signature signature = Some hex"
    "unhex hex = compute_signature lib secret r" "consume (sg_nonce r) (t + max_clock_skew) now s = (True, s')"
  using assms by (auto simp: verify_server_ingest_request_def split: option.splits if_splits prod.splits bool.splits)

lemma lower_v1: "lower (u ''v1='') = u ''v1=''"
  by (simp add: lower_def lower_unit_def word_le_nat_alt)

lemma hex_digit_value: "n < 16 \<Longrightarrow> hex_value (hex_digit n) \<noteq> None"
  by (simp add: hex_value_digit)

lemma to_hex_values: "list_all (\<lambda>c. hex_value c \<noteq> None) (to_hex b)"
  by (induction b) (simp_all add: to_hex_def nibbles)

lemma supplied_to_hex: "length b = 32 \<Longrightarrow> supplied_signature (u ''v1='' @ to_hex b) = Some (to_hex b)"
  using to_hex_values by (simp add: supplied_signature_def lower_def lower_unit_def word_le_nat_alt)

text \<open>A request signed with the secret is accepted at once with a fresh nonce.\<close>

lemma signed_request_verified:
  assumes "parse_date lib (sg_timestamp r) = Some t" "\<bar>now - t\<bar> \<le> max_clock_skew" "valid_nonce (sg_nonce r)"
    and "length (compute_signature lib secret r) = 32"
    and "fst (consume (sg_nonce r) (t + max_clock_skew) now s)"
  shows "fst (verify_server_ingest_request lib consume secret (sign_server_ingest_request lib secret r) now r s) = Verified"
  using assms by (auto simp: verify_server_ingest_request_def sign_server_ingest_request_def supplied_to_hex
      simp del: u_simps split: prod.splits bool.splits)

section \<open>The rate limiter of browsers\<close>

datatype dimension = Ip | Session | Fingerprint

definition per_minute_limit :: "dimension \<Rightarrow> int" where
  "per_minute_limit d = (case d of Ip \<Rightarrow> 120 | Session \<Rightarrow> 60 | Fingerprint \<Rightarrow> 200)"

definition dimension_name :: "dimension \<Rightarrow> jstring" where
  "dimension_name d = (case d of Ip \<Rightarrow> u ''ip'' | Session \<Rightarrow> u ''session'' | Fingerprint \<Rightarrow> u ''fingerprint'')"

record rate_key =
  rk_window :: millis
  rk_client :: string
  rk_dimension :: dimension
  rk_hash :: jstring

type_synonym rate_table = "(rate_key \<times> int) list"

definition window_start :: "millis \<Rightarrow> millis" where
  "window_start now = now - now mod 60000"

definition rate_digest :: "ingest_lib \<Rightarrow> jstring \<Rightarrow> dimension \<Rightarrow> jstring \<Rightarrow> jstring" where
  "rate_digest lib pepper d value = to_hex (hmac_sha256 lib pepper (utf8 (dimension_name d @ u '':'' @ value)))"

text \<open>One statement: insert the row, or increment its count when that is below the limit.\<close>

definition increment :: "rate_key \<Rightarrow> rate_table \<Rightarrow> bool \<times> rate_table" where
  "increment k t =
     (case map_of t k of
        None \<Rightarrow> (True, t @ [(k, 1)])
      | Some n \<Rightarrow> if n < per_minute_limit (rk_dimension k) then (True, AList.update k (n + 1) t) else (False, t))"

record allow_request =
  aq_client :: string
  aq_ip :: jstring
  aq_session :: "jstring option"
  aq_fingerprint :: jstring

definition rate_keys :: "ingest_lib \<Rightarrow> jstring \<Rightarrow> millis \<Rightarrow> allow_request \<Rightarrow> rate_key list" where
  "rate_keys lib pepper now r =
     (let key = (\<lambda>d value. \<lparr> rk_window = window_start now, rk_client = aq_client r, rk_dimension = d,
                              rk_hash = rate_digest lib pepper d value \<rparr>) in
      key Ip (aq_ip r)
      # (case aq_session r of Some (c # s) \<Rightarrow> [key Session (c # s)] | _ \<Rightarrow> [])
      @ [key Fingerprint (aq_fingerprint r)])"

fun allow_keys :: "rate_key list \<Rightarrow> rate_table \<Rightarrow> bool \<times> rate_table" where
  "allow_keys [] t = (True, t)"
| "allow_keys (k # ks) t =
     (case increment k t of (True, t') \<Rightarrow> allow_keys ks t' | (False, t') \<Rightarrow> (False, t'))"

definition allow :: "ingest_lib \<Rightarrow> jstring \<Rightarrow> millis \<Rightarrow> allow_request \<Rightarrow> rate_table \<Rightarrow> bool \<times> rate_table" where
  "allow lib pepper now r t = allow_keys (rate_keys lib pepper now r) t"

definition rate_count :: "rate_key \<Rightarrow> rate_table \<Rightarrow> int" where
  "rate_count k t = (case map_of t k of None \<Rightarrow> 0 | Some n \<Rightarrow> n)"

text \<open>A count is never beyond its limit.\<close>

definition rates_ok :: "rate_table \<Rightarrow> bool" where
  "rates_ok t \<longleftrightarrow> (\<forall>k. rate_count k t \<le> per_minute_limit (rk_dimension k))"

text \<open>The answers of the limiter to requests, one after another, each at its time.\<close>

fun allow_all :: "ingest_lib \<Rightarrow> jstring \<Rightarrow> (millis \<times> allow_request) list \<Rightarrow> rate_table \<Rightarrow> bool list \<times> rate_table" where
  "allow_all lib pepper [] t = ([], t)"
| "allow_all lib pepper ((now, r) # calls) t =
     (let (ok, t') = allow lib pepper now r t; (oks, t'') = allow_all lib pepper calls t' in (ok # oks, t''))"

text \<open>How many requests that satisfy \<open>P\<close> were let through.\<close>

definition let_through ::
  "ingest_lib \<Rightarrow> jstring \<Rightarrow> (millis \<times> allow_request) list \<Rightarrow> (millis \<Rightarrow> allow_request \<Rightarrow> bool) \<Rightarrow> int" where
  "let_through lib pepper calls P =
     int (length (filter (\<lambda>((now, r), ok). ok \<and> P now r) (zip calls (fst (allow_all lib pepper calls [])))))"

lemma limit_positive: "1 \<le> per_minute_limit d"
  by (cases d) (simp_all add: per_minute_limit_def)

lemma map_of_snoc: "map_of (t @ [(k, n)]) j = (case map_of t j of Some m \<Rightarrow> Some m | None \<Rightarrow> if j = k then Some n else None)"
  by (auto simp: map_add_def split: option.split)

lemma increment_count:
  assumes "increment k t = (ok, t')"
  shows "rate_count j t' = rate_count j t + (if ok \<and> j = k then 1 else 0)"
  using assms
  by (auto simp: increment_def rate_count_def map_of_snoc update_conv' split: option.splits if_splits)

lemma increment_ok: "increment k t = (ok, t') \<Longrightarrow> rates_ok t \<Longrightarrow> rates_ok t'"
proof -
  assume inc: "increment k t = (ok, t')" and t: "rates_ok t"
  have "rate_count k t + 1 \<le> per_minute_limit (rk_dimension k)" if ok
    using inc that limit_positive [of "rk_dimension k"]
    by (auto simp: increment_def rate_count_def split: option.splits if_splits)
  then show "rates_ok t'" using t increment_count [OF inc] by (auto simp: rates_ok_def)
qed

lemma allow_keys_count:
  assumes "allow_keys ks t = (ok, t')"
  shows "rate_count j t + (if ok \<and> j \<in> set ks then 1 else 0) \<le> rate_count j t'"
    and "rates_ok t \<Longrightarrow> rates_ok t'"
  using assms
proof (induction ks arbitrary: t)
  case (Cons k ks)
  {
    case (1 t)
    obtain ok1 t1 where inc: "increment k t = (ok1, t1)" by fastforce
    show ?case
    proof (cases ok1)
      case True
      with inc have "increment k t = (True, t1)" by simp
      then have "allow_keys ks t1 = (ok, t')" using 1 by simp
      from Cons.IH(1) [OF this] increment_count [OF inc, of j] True show ?thesis by (auto split: if_splits)
    next
      case False
      then show ?thesis using 1 inc increment_count [OF inc, of j] by simp
    qed
  next
    case (2 t)
    obtain ok1 t1 where inc: "increment k t = (ok1, t1)" by fastforce
    show ?case
    proof (cases ok1)
      case True
      with inc have "increment k t = (True, t1)" by simp
      then have "allow_keys ks t1 = (ok, t')" using 2 by simp
      from Cons.IH(2) [OF increment_ok [OF inc 2(1)] this] show ?thesis .
    next
      case False
      then show ?thesis using 2 inc increment_ok [OF inc 2(1)] by simp
    qed
  }
qed auto

lemma allow_all_count:
  assumes "\<And>now r. P now r \<Longrightarrow> j \<in> set (rate_keys lib pepper now r)"
  shows "allow_all lib pepper calls t = (oks, t') \<Longrightarrow>
    rate_count j t + int (length (filter (\<lambda>((now, r), ok). ok \<and> P now r) (zip calls oks))) \<le> rate_count j t'"
proof (induction calls arbitrary: t oks t')
  case (Cons x calls)
  obtain now r where x: "x = (now, r)" by fastforce
  obtain ok t1 where a: "allow lib pepper now r t = (ok, t1)" by fastforce
  obtain oks1 t2 where b: "allow_all lib pepper calls t1 = (oks1, t2)" by fastforce
  have "rate_count j t + (if ok \<and> P now r then 1 else 0) \<le> rate_count j t1"
    using allow_keys_count(1) [OF a [unfolded allow_def], of j] assms [of now r] by (auto split: if_splits)
  then show ?case
    using Cons.IH [OF b] Cons.prems a b x by (auto split: if_splits)
qed simp

lemma allow_all_ok: "allow_all lib pepper calls t = (oks, t') \<Longrightarrow> rates_ok t \<Longrightarrow> rates_ok t'"
proof (induction calls arbitrary: t oks t')
  case (Cons x calls)
  obtain now r where x: "x = (now, r)" by fastforce
  obtain ok t1 where a: "allow lib pepper now r t = (ok, t1)" by fastforce
  obtain oks1 t2 where b: "allow_all lib pepper calls t1 = (oks1, t2)" by fastforce
  show ?case using Cons.IH [OF b allow_keys_count(2) [OF a [unfolded allow_def] Cons.prems(2)]] Cons.prems a b x by simp
qed simp

lemma rates_ok_empty: "rates_ok []"
  using limit_positive by (auto simp: rates_ok_def rate_count_def) (smt (verit) limit_positive)

lemma rate_count_nonneg: "list_all (\<lambda>(k, n). 0 \<le> n) t \<Longrightarrow> 0 \<le> rate_count k t"
  by (induction t) (auto simp: rate_count_def split: option.splits)

text \<open>A request is refused only when one of its counts has reached the limit.\<close>

lemma refused_at_limit:
  "allow_keys ks t = (False, t') \<Longrightarrow> \<exists>k\<in>set ks. per_minute_limit (rk_dimension k) \<le> rate_count k t'"
proof (induction ks arbitrary: t)
  case (Cons k ks)
  obtain ok1 t1 where inc: "increment k t = (ok1, t1)" by fastforce
  show ?case
  proof (cases ok1)
    case True
    then show ?thesis using Cons inc by auto
  next
    case False
    then have "per_minute_limit (rk_dimension k) \<le> rate_count k t1" "t' = t1"
      using inc Cons.prems by (auto simp: increment_def rate_count_def split: option.splits if_splits)
    then show ?thesis by auto
  qed
qed simp

text \<open>Requests with a key in common are let through at most as often as the limit of its dimension.\<close>

lemma let_through_limit:
  assumes "\<And>now r. P now r \<Longrightarrow> j \<in> set (rate_keys lib pepper now r)"
  shows "let_through lib pepper calls P \<le> per_minute_limit (rk_dimension j)"
proof -
  obtain oks t where run: "allow_all lib pepper calls [] = (oks, t)" by fastforce
  have "let_through lib pepper calls P \<le> rate_count j t"
    using allow_all_count [OF assms run] run by (simp add: let_through_def rate_count_def)
  also have "\<dots> \<le> per_minute_limit (rk_dimension j)"
    using allow_all_ok [OF run rates_ok_empty] by (simp add: rates_ok_def)
  finally show ?thesis .
qed

lemma window_start_minute: "now div 60000 = minute \<Longrightarrow> window_start now = 60000 * minute"
  by (simp add: window_start_def minus_mod_eq_mult_div)

text \<open>
  C22. The rate limit holds. Of any sequence of browser requests to an empty table, handled one after
  another, at most 120 with the same client and address are let through within one minute of the clock, at
  most 60 with the same client and session, and at most 200 with the same client and fingerprint. Counted are
  the requests by their own fields and times, not by the keys that the limiter computes.
\<close>

theorem rate_limit_bounds:
  "let_through lib pepper calls
     (\<lambda>now r. now div 60000 = minute \<and> aq_client r = client \<and> aq_ip r = ip) \<le> 120 \<and>
   let_through lib pepper calls
     (\<lambda>now r. now div 60000 = minute \<and> aq_client r = client \<and> aq_session r = Some (c # session)) \<le> 60 \<and>
   let_through lib pepper calls
     (\<lambda>now r. now div 60000 = minute \<and> aq_client r = client \<and> aq_fingerprint r = fingerprint) \<le> 200"
proof -
  let ?key = "\<lambda>d value. \<lparr> rk_window = 60000 * minute, rk_client = client, rk_dimension = d,
      rk_hash = rate_digest lib pepper d value \<rparr>"
  note limits = let_through_limit [of _ _ lib pepper calls]
  have "let_through lib pepper calls (\<lambda>now r. now div 60000 = minute \<and> aq_client r = client \<and> aq_ip r = ip) \<le> 120"
    using limits [of "\<lambda>now r. now div 60000 = minute \<and> aq_client r = client \<and> aq_ip r = ip" "?key Ip ip"]
    by (simp add: rate_keys_def window_start_minute per_minute_limit_def)
  moreover have "let_through lib pepper calls
      (\<lambda>now r. now div 60000 = minute \<and> aq_client r = client \<and> aq_session r = Some (c # session)) \<le> 60"
    using limits [of "\<lambda>now r. now div 60000 = minute \<and> aq_client r = client \<and> aq_session r = Some (c # session)"
        "?key Session (c # session)"]
    by (simp add: rate_keys_def window_start_minute per_minute_limit_def)
  moreover have "let_through lib pepper calls
      (\<lambda>now r. now div 60000 = minute \<and> aq_client r = client \<and> aq_fingerprint r = fingerprint) \<le> 200"
    using limits [of "\<lambda>now r. now div 60000 = minute \<and> aq_client r = client \<and> aq_fingerprint r = fingerprint"
        "?key Fingerprint fingerprint"]
    by (simp add: rate_keys_def window_start_minute per_minute_limit_def)
  ultimately show ?thesis by blast
qed

section \<open>Context tokens\<close>

record signed_identity =
  si_user :: js
  si_role :: js
  si_label :: js
  si_session :: js
  si_expires :: js

definition truthy :: "js \<Rightarrow> bool" where
  "truthy v \<longleftrightarrow>
     (case v of Undefined \<Rightarrow> False | Null \<Rightarrow> False | Bool b \<Rightarrow> b | Num n \<Rightarrow> n \<noteq> 0 | Str s \<Rightarrow> s \<noteq> [] | _ \<Rightarrow> True)"

definition text_of :: "ingest_lib \<Rightarrow> js \<Rightarrow> jstring" where
  "text_of lib v = (case v of Str s \<Rightarrow> s | _ \<Rightarrow> show_js lib v)"

definition token_audience :: js where "token_audience = Str (u ''edutrack-ops-ingest'')"
definition token_channel :: js where "token_channel = Str (u ''browser'')"

definition token_signature :: "ingest_lib \<Rightarrow> jstring \<Rightarrow> jstring \<Rightarrow> jstring \<Rightarrow> bytes" where
  "token_signature lib key key_id payload =
     hmac_sha256 lib key (utf8 (u ''v1.'' @ key_id @ u ''.'' @ payload))"

record telemetry_context =
  tx_user :: jstring
  tx_role :: jstring
  tx_label :: jstring
  tx_session :: jstring
  tx_nonce :: jstring

definition token_payload :: "ingest_lib \<Rightarrow> telemetry_context \<Rightarrow> millis \<Rightarrow> js" where
  "token_payload lib c now =
     Obj [(u ''audience'', token_audience), (u ''channel'', token_channel), (u ''userRef'', Str (tx_user c)),
       (u ''role'', Str (tx_role c)), (u ''displayLabel'', Str (tx_label c)),
       (u ''sessionHash'', Str (tx_session c)), (u ''nonce'', Str (tx_nonce c)),
       (u ''issuedAt'', Str (iso_text lib now)), (u ''expiresAt'', Str (iso_text lib (now + 15 * 60 * 1000)))]"

definition issue_telemetry_context_token ::
  "ingest_lib \<Rightarrow> telemetry_context \<Rightarrow> jstring \<Rightarrow> jstring \<Rightarrow> millis \<Rightarrow> jstring" where
  "issue_telemetry_context_token lib c key_id key now =
     (let payload = base64url (utf8 (json_text (token_payload lib c now))) in
      u ''v1.'' @ key_id @ u ''.'' @ payload @ u ''.'' @ base64url (token_signature lib key key_id payload))"

definition token_date :: "ingest_lib \<Rightarrow> js \<Rightarrow> millis option" where
  "token_date lib v = parse_date lib (text_of lib v)"

text \<open>\<open>keyring\<close> is the lookup of a key by its identifier.\<close>

definition verify_telemetry_context_token ::
  "ingest_lib \<Rightarrow> (jstring \<Rightarrow> jstring option) \<Rightarrow> millis \<Rightarrow> jstring \<Rightarrow> signed_identity option" where
  "verify_telemetry_context_token lib keyring now token =
     (case split_units 0x2E token of
        [version, key_id, payload, signature] \<Rightarrow>
          if version \<noteq> u ''v1'' \<or> key_id = [] \<or> payload = [] \<or> signature = [] then None
          else (case keyring key_id of
              None \<Rightarrow> None
            | Some [] \<Rightarrow> None
            | Some key \<Rightarrow>
                if unbase64 signature \<noteq> token_signature lib key key_id payload then None
                else (case parse_bytes lib (unbase64 payload) of
                    Some (Obj m) \<Rightarrow>
                      if member m ''audience'' \<noteq> token_audience \<or> member m ''channel'' \<noteq> token_channel
                         \<or> \<not> truthy (member m ''userRef'') \<or> \<not> truthy (member m ''role'')
                         \<or> \<not> truthy (member m ''displayLabel'') \<or> \<not> truthy (member m ''sessionHash'')
                         \<or> \<not> truthy (member m ''nonce'')
                      then None
                      else (case token_date lib (member m ''expiresAt'') of
                          None \<Rightarrow> None
                        | Some t \<Rightarrow>
                            if t \<le> now then None
                            else Some \<lparr> si_user = member m ''userRef'', si_role = member m ''role'',
                                        si_label = member m ''displayLabel'', si_session = member m ''sessionHash'',
                                        si_expires = member m ''expiresAt'' \<rparr>)
                  | _ \<Rightarrow> None))
      | _ \<Rightarrow> None)"

text \<open>
  C29. A context token identifies its user until it expires: verified with the key it was issued with,
  it gives back the identity it was issued for, and after fifteen minutes nothing.
\<close>

theorem context_token_round_trip:
  assumes key: "keyring key_id = Some key" "key \<noteq> []" "key_id \<noteq> []" "0x2E \<notin> set key_id"
    and mac: "\<And>k m. hmac_sha256 lib k m \<noteq> []"
    and json: "parse_bytes lib (utf8 (json_text (token_payload lib c issued))) = Some (token_payload lib c issued)"
    and date: "parse_date lib (iso_text lib (issued + 15 * 60 * 1000)) = Some (issued + 15 * 60 * 1000)"
    and fields: "tx_user c \<noteq> []" "tx_role c \<noteq> []" "tx_label c \<noteq> []" "tx_session c \<noteq> []" "tx_nonce c \<noteq> []"
  shows "verify_telemetry_context_token lib keyring now (issue_telemetry_context_token lib c key_id key issued) =
    (if now < issued + 15 * 60 * 1000
     then Some \<lparr> si_user = Str (tx_user c), si_role = Str (tx_role c), si_label = Str (tx_label c),
                 si_session = Str (tx_session c), si_expires = Str (iso_text lib (issued + 15 * 60 * 1000)) \<rparr>
     else None)"
proof -
  let ?payload = "base64url (utf8 (json_text (token_payload lib c issued)))"
  have parts: "split_units 0x2E (issue_telemetry_context_token lib c key_id key issued) =
      [u ''v1'', key_id, ?payload, base64url (token_signature lib key key_id ?payload)]"
  proof -
    have "0x2E \<notin> set (base64url b)" for b using base64url_chars by blast
    then show ?thesis using key(4) by (simp add: issue_telemetry_context_token_def Let_def)
  qed
  have "?payload \<noteq> []" by (simp add: token_payload_def utf8_Cons utf8_unit_def)
  moreover have "base64url (token_signature lib key key_id ?payload) \<noteq> []" using mac by (simp add: token_signature_def)
  ultimately show ?thesis
    using key json date fields
    by (auto simp: verify_telemetry_context_token_def parts token_payload_def member_def truthy_def token_date_def
        text_of_def token_audience_def token_channel_def split: list.splits)
qed

end
