(* ===== verification/Ingest.thy ===== *)
theory Ingest
  imports IngestGate
begin

text \<open>
  The ingestion services of the API (apps/api/src/modules/ingest): browserIngest.ts, serverIngest.ts and
  the look-ups of postgresIngestStore.ts, over the tables of Telemetry, whose \<open>insert_raw\<close> is the
  acceptance of an envelope. Identifiers and times are arguments of a call. The tables hold texts as
  their UTF-8 bytes.
\<close>

section \<open>Clients\<close>

datatype client_kind = Browser_client | Server_client | Worker_client | Synthetic_client

datatype client_status = Client_active | Client_disabled | Client_rotated

record ingest_client =
  gc_id :: string
  gc_public_key :: jstring
  gc_kind :: client_kind
  gc_status :: client_status
  gc_origins :: "jstring list"
  gc_secret :: "jstring option"

definition find_browser_client :: "ingest_client list \<Rightarrow> jstring \<Rightarrow> ingest_client option" where
  "find_browser_client cs key = List.find (\<lambda>c. gc_public_key c = key \<and> gc_kind c = Browser_client) cs"

definition find_server_client :: "ingest_client list \<Rightarrow> jstring \<Rightarrow> (ingest_client \<times> jstring) option" where
  "find_server_client cs key =
     (case List.find (\<lambda>c. gc_public_key c = key \<and> gc_kind c \<noteq> Browser_client) cs of
        None \<Rightarrow> None
      | Some c \<Rightarrow> (case gc_secret c of Some (x # r) \<Rightarrow> Some (c, x # r) | _ \<Rightarrow> None))"

section \<open>Envelopes as they are stored\<close>

definition db_text :: "jstring \<Rightarrow> string" where
  "db_text s = map (\<lambda>b. char_of (unat b)) (utf8 s)"

definition raw_envelope_of :: "clean_envelope \<Rightarrow> raw_envelope" where
  "raw_envelope_of e =
     (let err = kv_error e; ctx = kv_context e in
      \<lparr> rv_schema = 1, rv_event_id = Some (db_text (kv_event_id e)), rv_key = Some (db_text (kv_key e)),
        rv_captured = db_text (kv_captured e), rv_source = db_text (kv_source e), rv_level = kv_level e,
        rv_error = Some \<lparr> te_name = db_text (ke_name err), te_code = db_text (ke_code err),
          te_message = db_text (ke_message err), te_stack = map_option db_text (ke_stack err),
          te_component = map_option db_text (ke_component err) \<rparr>,
        rv_context = Some \<lparr> tc_request = map_option db_text (kc_request ctx),
          tc_trace = map_option db_text (kc_trace ctx), tc_route = map_option db_text (kc_route ctx),
          tc_release = db_text (kc_release ctx), tc_service = db_text (kc_service ctx),
          tc_tags = map_option (map (\<lambda>(k, v). (db_text k, db_text v))) (kc_tags ctx),
          tc_breadcrumbs = map_option (map (\<lambda>(a, c, m). (db_text a, db_text c, db_text m)))
            (kc_breadcrumbs ctx) \<rparr> \<rparr>)"

definition raw_identity_of :: "ingest_lib \<Rightarrow> signed_identity \<Rightarrow> raw_identity" where
  "raw_identity_of lib i =
     \<lparr> ri_user = Some (db_text (text_of lib (si_user i))), ri_role = Some (db_text (text_of lib (si_role i))),
       ri_label = Some (db_text (text_of lib (si_label i))),
       ri_session = Some (db_text (text_of lib (si_session i))) \<rparr>"

definition optional_field :: "string \<Rightarrow> jstring option \<Rightarrow> (jstring \<times> js) list" where
  "optional_field k v = (case v of None \<Rightarrow> [] | Some s \<Rightarrow> [(u k, Str s)])"

definition level_text :: "tel_level \<Rightarrow> jstring" where
  "level_text l = (case l of Level_fatal \<Rightarrow> u ''fatal'' | Level_error \<Rightarrow> u ''error'' | Level_warning \<Rightarrow> u ''warning'')"

definition tags_js :: "(jstring \<times> jstring) list \<Rightarrow> (jstring \<times> js) list" where
  "tags_js ts = [(u ''tags'', Obj (map (\<lambda>(k, v). (k, Str v)) ts))]"

text \<open>
  The object whose text is hashed. Tags come before the breadcrumbs unless the session is the only one,
  which is then added behind them.
\<close>

definition context_js :: "clean_context \<Rightarrow> js" where
  "context_js c =
     (let session_only = (case kc_tags c of Some [(k, _)] \<Rightarrow> k = u ''sessionHash'' | _ \<Rightarrow> False);
          tags = (case kc_tags c of None \<Rightarrow> [] | Some ts \<Rightarrow> tags_js ts) in
      Obj (optional_field ''requestId'' (kc_request c) @ optional_field ''traceId'' (kc_trace c)
        @ optional_field ''route'' (kc_route c)
        @ [(u ''release'', Str (kc_release c)), (u ''service'', Str (kc_service c)),
           (u ''environment'', Str (u ''production''))]
        @ (if session_only then [] else tags)
        @ (case kc_breadcrumbs c of None \<Rightarrow> []
           | Some bs \<Rightarrow> [(u ''breadcrumbs'', Arr (map (\<lambda>(a, g, m).
               Obj [(u ''at'', Str a), (u ''category'', Str g), (u ''message'', Str m)]) bs))])
        @ (if session_only then tags else [])))"

definition envelope_js :: "clean_envelope \<Rightarrow> js" where
  "envelope_js e =
     Obj [(u ''schemaVersion'', Num 1), (u ''eventId'', Str (kv_event_id e)),
       (u ''idempotencyKey'', Str (kv_key e)), (u ''capturedAt'', Str (kv_captured e)),
       (u ''source'', Str (kv_source e)), (u ''level'', Str (level_text (kv_level e))),
       (u ''error'', Obj ([(u ''name'', Str (ke_name (kv_error e))), (u ''code'', Str (ke_code (kv_error e))),
          (u ''safeMessage'', Str (ke_message (kv_error e)))]
          @ optional_field ''stack'' (ke_stack (kv_error e))
          @ optional_field ''componentStack'' (ke_component (kv_error e)))),
       (u ''context'', context_js (kv_context e))]"

definition payload_hash :: "ingest_lib \<Rightarrow> clean_envelope \<Rightarrow> jstring" where
  "payload_hash lib e = sha256_hex lib (utf8 (json_text (envelope_js e)))"

section \<open>What both services check\<close>

text \<open>\<open>/^EVT_[0-9A-HJKMNP-TV-Z]{26}$/\<close>\<close>

definition event_id_unit :: "16 word \<Rightarrow> bool" where
  "event_id_unit c \<longleftrightarrow> unit_digit c \<or> one_of ''ABCDEFGHJKMNPQRSTVWXYZ'' c"

definition valid_event_id :: "js \<Rightarrow> bool" where
  "valid_event_id v \<longleftrightarrow>
     (case v of Str s \<Rightarrow> units_start (u ''EVT_'') s \<and> length s = 30 \<and> list_all event_id_unit (drop 4 s) | _ \<Rightarrow> False)"

definition valid_idempotency_key :: "js \<Rightarrow> bool" where
  "valid_idempotency_key v \<longleftrightarrow> (case v of Str s \<Rightarrow> 16 \<le> length s | _ \<Rightarrow> False)"

definition valid_envelope_id :: "(jstring \<times> js) list \<Rightarrow> bool" where
  "valid_envelope_id m \<longleftrightarrow>
     member m ''schemaVersion'' = Num 1 \<and> valid_event_id (member m ''eventId'')
     \<and> valid_idempotency_key (member m ''idempotencyKey'')"

definition server_sources :: "jstring list" where
  "server_sources =
     map u [''api'', ''database'', ''document_store'', ''job'', ''provider'', ''process'', ''deployment'', ''synthetic'']"

definition valid_server_envelope :: "(jstring \<times> js) list \<Rightarrow> bool" where
  "valid_server_envelope m \<longleftrightarrow>
     valid_envelope_id m \<and> (case member m ''source'' of Str s \<Rightarrow> s \<in> set server_sources | _ \<Rightarrow> False)"

definition parse_envelope :: "ingest_lib \<Rightarrow> jstring \<Rightarrow> (jstring \<times> js) list option" where
  "parse_envelope lib body = Option.bind (parse_text lib body) is_record"

definition parse_batch :: "ingest_lib \<Rightarrow> jstring \<Rightarrow> js list option" where
  "parse_batch lib body = (case parse_text lib body of Some (Arr xs) \<Rightarrow> Some xs | _ \<Rightarrow> None)"

definition record_of ::
  "ingest_lib \<Rightarrow> string \<Rightarrow> string \<Rightarrow> millis \<Rightarrow> jstring \<Rightarrow> clean_envelope \<Rightarrow> signed_identity option \<Rightarrow> ingest_record" where
  "record_of lib client new_id now source e identity =
     \<lparr> ig_id = new_id, ig_received = now, ig_client = client, ig_key = db_text (kv_key e),
       ig_event_id = db_text (kv_event_id e), ig_source = db_text source,
       ig_payload = \<lparr> rp_envelope = Some (raw_envelope_of e), rp_identity = map_option (raw_identity_of lib) identity \<rparr>,
       ig_hash = db_text (payload_hash lib e) \<rparr>"

section \<open>The services\<close>

record ingest_config =
  in_lib :: ingest_lib
  in_clients :: "ingest_client list"
  in_pepper :: jstring
  in_keyring :: "jstring \<Rightarrow> jstring option"
  in_secrets :: "jstring \<Rightarrow> jstring option"

record ingest_state =
  ns_nonces :: nonce_table
  ns_rates :: rate_table
  ns_tables :: telemetry_db

datatype ingest_response = Accepted bool jstring | Rejected nat string

text \<open>A call reads the clock several times and makes identifiers; those of a batch are numbered.\<close>

record ingest_call =
  ic_verify :: millis
  ic_limit :: millis
  ic_received :: "nat \<Rightarrow> millis"
  ic_new_id :: "nat \<Rightarrow> string"

definition insert_record ::
  "ingest_record \<Rightarrow> ingest_state \<Rightarrow> (telemetry_error + bool) \<times> ingest_state" where
  "insert_record r s = (case insert_raw r (ns_tables s) of (res, db) \<Rightarrow> (res, s\<lparr>ns_tables := db\<rparr>))"

record browser_request =
  bq_origin :: "jstring option"
  bq_project :: "jstring option"
  bq_ip :: jstring
  bq_body :: jstring

definition maximum_browser_payload :: nat where "maximum_browser_payload = 64 * 1024"

definition browser_fingerprint :: "ingest_lib \<Rightarrow> clean_envelope \<Rightarrow> jstring" where
  "browser_fingerprint lib e =
     sha256_hex lib (utf8 (kv_source e @ u '':'' @ kc_service (kv_context e) @ u '':'' @ ke_code (kv_error e)))"

definition context_token :: "(jstring \<times> js) list \<Rightarrow> jstring option" where
  "context_token m =
     (case member m ''context'' of
        Obj c \<Rightarrow> (case member c ''telemetryContextToken'' of Str (x # t) \<Rightarrow> Some (x # t) | _ \<Rightarrow> None) | _ \<Rightarrow> None)"

definition store_browser ::
  "ingest_config \<Rightarrow> ingest_call \<Rightarrow> browser_request \<Rightarrow> ingest_client \<Rightarrow> (jstring \<times> js) list \<Rightarrow> ingest_state
     \<Rightarrow> (telemetry_error + ingest_response) \<times> ingest_state" where
  "store_browser cfg c r client m s =
     (let lib = in_lib cfg;
          identity = Option.bind (context_token m)
            (verify_telemetry_context_token lib (in_keyring cfg) (ic_verify c));
          e = fst (sanitize_telemetry (sha256_hex lib) (in_pepper cfg) (Obj m));
          (allowed, rates) = allow lib (in_pepper cfg) (ic_limit c)
            \<lparr> aq_client = gc_id client, aq_ip = bq_ip r,
              aq_session = map_option (\<lambda>i. text_of lib (si_session i)) identity,
              aq_fingerprint = browser_fingerprint lib e \<rparr> (ns_rates s);
          s' = s\<lparr>ns_rates := rates\<rparr> in
      if \<not> allowed then (Inr (Rejected 429 ''RATE_LIMITED''), s')
      else (case insert_record (record_of lib (gc_id client) (ic_new_id c 0) (ic_received c 0) (u ''browser'') e identity) s' of
          (Inl err, s'') \<Rightarrow> (Inl err, s'')
        | (Inr duplicate, s'') \<Rightarrow> (Inr (Accepted duplicate (kv_event_id e)), s'')))"

definition browser_ingest ::
  "ingest_config \<Rightarrow> ingest_call \<Rightarrow> browser_request \<Rightarrow> ingest_state
     \<Rightarrow> (telemetry_error + ingest_response) \<times> ingest_state" where
  "browser_ingest cfg c r s =
     (if byte_length (bq_body r) > maximum_browser_payload then (Inr (Rejected 413 ''PAYLOAD_TOO_LARGE''), s)
      else (case bq_project r of
          None \<Rightarrow> (Inr (Rejected 401 ''MISSING_PROJECT_KEY''), s)
        | Some [] \<Rightarrow> (Inr (Rejected 401 ''MISSING_PROJECT_KEY''), s)
        | Some key \<Rightarrow>
            (case find_browser_client (in_clients cfg) key of
               None \<Rightarrow> (Inr (Rejected 401 ''INVALID_PROJECT_KEY''), s)
             | Some client \<Rightarrow>
                 if gc_status client \<noteq> Client_active then (Inr (Rejected 401 ''INVALID_PROJECT_KEY''), s)
                 else if (case bq_origin r of None \<Rightarrow> True | Some o' \<Rightarrow> o' = [] \<or> o' \<notin> set (gc_origins client))
                 then (Inr (Rejected 403 ''ORIGIN_NOT_ALLOWED''), s)
                 else (case parse_envelope (in_lib cfg) (bq_body r) of
                     None \<Rightarrow> (Inr (Rejected 400 ''INVALID_ENVELOPE''), s)
                   | Some m \<Rightarrow>
                       if \<not> valid_envelope_id m then (Inr (Rejected 400 ''INVALID_ENVELOPE''), s)
                       else if member m ''source'' \<noteq> Str (u ''browser'')
                       then (Inr (Rejected 400 ''INVALID_SOURCE''), s)
                       else store_browser cfg c r client m s))))"

record server_request =
  vq_key_id :: "jstring option"
  vq_signature :: "jstring option"
  vq_timestamp :: "jstring option"
  vq_nonce :: "jstring option"
  vq_body :: jstring

definition maximum_server_payload :: nat where "maximum_server_payload = 512 * 1024"
definition maximum_server_batch :: nat where "maximum_server_batch = 5 * 1024 * 1024"
definition maximum_batch_events :: nat where "maximum_batch_events = 100"

definition present :: "jstring option \<Rightarrow> jstring option" where
  "present v = (case v of Some (c # s) \<Rightarrow> Some (c # s) | _ \<Rightarrow> None)"

definition authenticate ::
  "ingest_config \<Rightarrow> ingest_call \<Rightarrow> jstring \<Rightarrow> server_request \<Rightarrow> ingest_state
     \<Rightarrow> (string + ingest_client) \<times> ingest_state" where
  "authenticate cfg c path r s =
     (case (present (vq_key_id r), present (vq_signature r), present (vq_timestamp r), present (vq_nonce r)) of
        (Some key, Some signature, Some timestamp, Some nonce) \<Rightarrow>
          (case find_server_client (in_clients cfg) key of
             None \<Rightarrow> (Inl ''INVALID_CLIENT'', s)
           | Some (client, reference) \<Rightarrow>
               if gc_status client \<noteq> Client_active then (Inl ''INVALID_CLIENT'', s)
               else (case present (in_secrets cfg reference) of
                   None \<Rightarrow> (Inl ''INVALID_CLIENT'', s)
                 | Some secret \<Rightarrow>
                     (case verify_server_ingest_request (in_lib cfg) (postgres_consume (sha256_hex (in_lib cfg)))
                             secret signature (ic_verify c)
                             \<lparr> sg_method = u ''POST'', sg_path = path, sg_timestamp = timestamp, sg_nonce = nonce,
                               sg_body = vq_body r \<rparr> (ns_nonces s) of
                        (Verified, ns) \<Rightarrow> (Inr client, s\<lparr>ns_nonces := ns\<rparr>)
                      | (Expired_timestamp, ns) \<Rightarrow> (Inl ''EXPIRED_TIMESTAMP'', s\<lparr>ns_nonces := ns\<rparr>)
                      | (Invalid_signature, ns) \<Rightarrow> (Inl ''INVALID_SIGNATURE'', s\<lparr>ns_nonces := ns\<rparr>)
                      | (Replayed_nonce, ns) \<Rightarrow> (Inl ''REPLAYED_NONCE'', s\<lparr>ns_nonces := ns\<rparr>))))
      | _ \<Rightarrow> (Inl ''MISSING_AUTHENTICATION'', s))"

definition store_envelope ::
  "ingest_config \<Rightarrow> ingest_call \<Rightarrow> nat \<Rightarrow> ingest_client \<Rightarrow> js option \<Rightarrow> ingest_state
     \<Rightarrow> (telemetry_error + ingest_response) \<times> ingest_state" where
  "store_envelope cfg c i client v s =
     (case Option.bind v is_record of
        None \<Rightarrow> (Inr (Rejected 400 ''INVALID_ENVELOPE''), s)
      | Some m \<Rightarrow>
          if \<not> valid_server_envelope m then (Inr (Rejected 400 ''INVALID_ENVELOPE''), s)
          else (let lib = in_lib cfg; e = fst (sanitize_telemetry (sha256_hex lib) (in_pepper cfg) (Obj m));
                    source = (case member m ''source'' of Str x \<Rightarrow> x | _ \<Rightarrow> []) in
                case insert_record (record_of lib (gc_id client) (ic_new_id c i) (ic_received c i) source e None) s of
                  (Inl err, s') \<Rightarrow> (Inl err, s')
                | (Inr duplicate, s') \<Rightarrow> (Inr (Accepted duplicate (kv_event_id e)), s')))"

definition server_path :: jstring where "server_path = u ''/api/v1/ingest/server''"
definition batch_path :: jstring where "batch_path = u ''/api/v1/ingest/server/batch''"

definition server_ingest ::
  "ingest_config \<Rightarrow> ingest_call \<Rightarrow> server_request \<Rightarrow> ingest_state
     \<Rightarrow> (telemetry_error + ingest_response) \<times> ingest_state" where
  "server_ingest cfg c r s =
     (if byte_length (vq_body r) > maximum_server_payload then (Inr (Rejected 413 ''PAYLOAD_TOO_LARGE''), s)
      else (case authenticate cfg c server_path r s of
          (Inl code, s') \<Rightarrow> (Inr (Rejected 401 code), s')
        | (Inr client, s') \<Rightarrow>
            store_envelope cfg c 0 client (map_option Obj (parse_envelope (in_lib cfg) (vq_body r))) s'))"

text \<open>
  The envelopes of a batch are stored concurrently: \<open>order\<close> is the order in which their transactions
  commit. When one of them throws, the answer is its error, while the others are stored all the same.
\<close>

datatype batch_response = Batch_results nat "ingest_response list" | Batch_rejected nat string

fun store_batch ::
  "ingest_config \<Rightarrow> ingest_call \<Rightarrow> ingest_client \<Rightarrow> js list \<Rightarrow> nat list \<Rightarrow> ingest_state
     \<Rightarrow> (nat \<times> (telemetry_error + ingest_response)) list \<times> ingest_state" where
  "store_batch cfg c client xs [] s = ([], s)"
| "store_batch cfg c client xs (i # order) s =
     (let (res, s') = store_envelope cfg c i client (Some (xs ! i)) s;
          (rest, s'') = store_batch cfg c client xs order s' in ((i, res) # rest, s''))"

definition is_accepted :: "ingest_response \<Rightarrow> bool" where
  "is_accepted r = (case r of Accepted _ _ \<Rightarrow> True | Rejected _ _ \<Rightarrow> False)"

fun first_failure :: "(nat \<times> (telemetry_error + ingest_response)) list \<Rightarrow> telemetry_error option" where
  "first_failure [] = None"
| "first_failure ((i, Inl err) # rs) = Some err"
| "first_failure ((i, Inr _) # rs) = first_failure rs"

definition batch_results :: "(nat \<times> (telemetry_error + ingest_response)) list \<Rightarrow> ingest_response list" where
  "batch_results rs =
     List.map_filter (\<lambda>i. case map_of rs i of Some (Inr x) \<Rightarrow> Some x | _ \<Rightarrow> None) [0..<length rs]"

definition server_ingest_batch ::
  "ingest_config \<Rightarrow> ingest_call \<Rightarrow> nat list \<Rightarrow> server_request \<Rightarrow> ingest_state
     \<Rightarrow> (telemetry_error + batch_response) \<times> ingest_state" where
  "server_ingest_batch cfg c order r s =
     (if byte_length (vq_body r) > maximum_server_batch then (Inr (Batch_rejected 413 ''PAYLOAD_TOO_LARGE''), s)
      else (case authenticate cfg c batch_path r s of
          (Inl code, s') \<Rightarrow> (Inr (Batch_rejected 401 code), s')
        | (Inr client, s') \<Rightarrow>
            (case parse_batch (in_lib cfg) (vq_body r) of
               None \<Rightarrow> (Inr (Batch_rejected 400 ''INVALID_BATCH''), s')
             | Some xs \<Rightarrow>
                 if xs = [] \<or> length xs > maximum_batch_events then (Inr (Batch_rejected 400 ''INVALID_BATCH''), s')
                 else (case store_batch cfg c client xs order s' of (rs, s'') \<Rightarrow>
                     (case first_failure rs of
                        Some err \<Rightarrow> (Inl err, s'')
                      | None \<Rightarrow>
                          (Inr (Batch_results (if list_all is_accepted (batch_results rs) then 202 else 207)
                             (batch_results rs)), s''))))))"

end
