(* ===== verification/IngestProps.thy ===== *)
theory IngestProps
  imports Ingest Pipeline
begin

text \<open>
  What ingestion promises to its clients: an envelope that was accepted stays in the pipeline, a retry is
  recognised, a signed request is used once, and what is refused leaves no trace in the tables.
\<close>

section \<open>Storing a record\<close>

lemma insert_record_step:
  assumes "insert_record r s = (res, s')" "ig_id r \<notin> en_id ` set (td_envelopes (ns_tables s))"
  shows "telemetry_step env limit Accept (ns_tables s) (ns_tables s')"
proof -
  obtain res' db where "insert_raw r (ns_tables s) = (res', db)" by fastforce
  then show ?thesis using assms by (auto simp: insert_record_def intro: telemetry_step.accepting)
qed

lemma insert_record_accepted:
  assumes "insert_record r s = (Inr dup, s')"
  shows "map_of (td_keys (ns_tables s')) (ig_client r, ig_key r) = Some (ig_event_id r, ig_hash r)"
    and "\<not> dup \<Longrightarrow> accepted_envelope r \<in> set (td_envelopes (ns_tables s'))"
  using assms
  by (auto simp: insert_record_def insert_raw_def map_add_def split: option.splits if_splits prod.splits)

lemma insert_record_throws:
  "insert_record r s = (Inl err, s') \<Longrightarrow> s' = s"
  by (auto simp: insert_record_def insert_raw_def split: option.splits if_splits prod.splits)

lemma insert_record_again:
  assumes "map_of (td_keys (ns_tables s)) (ig_client r, ig_key r) = Some (ig_event_id r, ig_hash r)"
  shows "insert_record r s = (Inr True, s)"
  using assms by (simp add: insert_record_def insert_raw_def)

lemma key_has_envelope:
  assumes "tables_ok db" "map_of (td_keys db) (c, k) = Some v"
  shows "\<exists>x\<in>set (td_envelopes db). en_client x = c \<and> en_key x = k"
proof -
  have keys: "map fst (td_keys db) = map (\<lambda>e. (en_client e, en_key e)) (td_envelopes db)"
    using assms(1) unfolding tables_ok_def by blast
  have "(c, k) \<in> set (map fst (td_keys db))" using map_of_SomeD [OF assms(2)] by force
  then show ?thesis unfolding keys by auto
qed

text \<open>Registered keys stay registered.\<close>

lemma ingest_step_keys:
  assumes "telemetry_step env limit op db db'" "tables_ok db" "map_of (td_keys db) k = Some v"
  shows "map_of (td_keys db') k = Some v"
  using step_rows [OF assms(1,2)] assms(3) by (auto simp: rows_change_def map_add_def)

lemma run_keeps_keys:
  assumes run: "op_run (telemetry_step env limit) ops db db'" and ok: "pipeline_ok limit db" "1 \<le> limit"
    and k: "map_of (td_keys db) k = Some v"
  shows "pipeline_ok limit db' \<and> map_of (td_keys db') k = Some v"
proof (rule op_run_invariant [OF run, where I = "\<lambda>db. pipeline_ok limit db \<and> map_of (td_keys db) k = Some v"])
  show "pipeline_ok limit db \<and> map_of (td_keys db) k = Some v" using ok k by simp
  fix op u w
  assume u: "pipeline_ok limit u \<and> map_of (td_keys u) k = Some v" and step: "telemetry_step env limit op u w"
  then have "tables_ok u" by (simp add: pipeline_ok_def)
  from ingest_step_keys [OF step this] u pipeline_step [OF _ step ok(2)]
  show "pipeline_ok limit w \<and> map_of (td_keys w) k = Some v" by blast
qed

lemma run_keeps_envelopes:
  assumes run: "op_run (telemetry_step env limit) ops db db'" and ok: "pipeline_ok limit db" "1 \<le> limit"
  shows "set (td_envelopes db) \<subseteq> set (td_envelopes db')"
proof -
  have "pipeline_ok limit db' \<and> set (td_envelopes db) \<subseteq> set (td_envelopes db')"
  proof (rule op_run_invariant [OF run, where I = "\<lambda>d. pipeline_ok limit d \<and> set (td_envelopes db) \<subseteq> set (td_envelopes d)"])
    show "pipeline_ok limit db \<and> set (td_envelopes db) \<subseteq> set (td_envelopes db)" using ok by simp
    fix op u w
    assume u: "pipeline_ok limit u \<and> set (td_envelopes db) \<subseteq> set (td_envelopes u)" and step: "telemetry_step env limit op u w"
    then have "tables_ok u" by (simp add: pipeline_ok_def)
    with rows_change_tables(2) [OF step_rows [OF step this] this] u pipeline_step [OF _ step ok(2)]
    show "pipeline_ok limit w \<and> set (td_envelopes db) \<subseteq> set (td_envelopes w)" by blast
  qed
  then show ?thesis by blast
qed

section \<open>What a call does\<close>

text \<open>The client and the record that a request stands for.\<close>

definition body_key :: "ingest_config \<Rightarrow> jstring \<Rightarrow> string" where
  "body_key cfg body =
     (case parse_envelope (in_lib cfg) body of
        None \<Rightarrow> []
      | Some m \<Rightarrow> db_text (kv_key (fst (sanitize_telemetry (sha256_hex (in_lib cfg)) (in_pepper cfg) (Obj m)))))"

lemma authenticate_tables: "authenticate cfg c path r s = (res, s') \<Longrightarrow> ns_tables s' = ns_tables s"
  by (auto simp: authenticate_def split: option.splits if_splits prod.splits verification.splits)

lemma find_server_client_member: "find_server_client cs key = Some (client, ref) \<Longrightarrow> client \<in> set cs"
  by (auto simp: find_server_client_def find_Some_iff split: option.splits list.splits)

lemma authenticated_client: "authenticate cfg c path r s = (Inr client, s') \<Longrightarrow> client \<in> set (in_clients cfg)"
  by (auto simp: authenticate_def dest: find_server_client_member
      split: option.splits if_splits prod.splits verification.splits)

lemma server_ingest_stored:
  assumes "server_ingest cfg c r s = (Inr (Accepted dup ev), s')"
  obtains client s1 rec where "authenticate cfg c server_path r s = (Inr client, s1)" "ns_tables s1 = ns_tables s"
    "insert_record rec s1 = (Inr dup, s')" "ig_id rec = ic_new_id c 0" "ig_client rec = gc_id client"
    "client \<in> set (in_clients cfg)" "ig_key rec = body_key cfg (vq_body r)" "ig_event_id rec = db_text ev"
proof -
  from assms obtain client s1 where a: "authenticate cfg c server_path r s = (Inr client, s1)"
    by (auto simp: server_ingest_def split: if_splits prod.splits sum.splits)
  with assms have st: "store_envelope cfg c 0 client (map_option Obj (parse_envelope (in_lib cfg) (vq_body r))) s1
      = (Inr (Accepted dup ev), s')"
    by (auto simp: server_ingest_def split: if_splits)
  then obtain m where m: "parse_envelope (in_lib cfg) (vq_body r) = Some m"
    by (cases "parse_envelope (in_lib cfg) (vq_body r)") (auto simp: store_envelope_def)
  from st m show thesis
    using that [OF a authenticate_tables [OF a], of "record_of (in_lib cfg) (gc_id client) (ic_new_id c 0) (ic_received c 0)
        (case member m ''source'' of Str x \<Rightarrow> x | _ \<Rightarrow> [])
        (fst (sanitize_telemetry (sha256_hex (in_lib cfg)) (in_pepper cfg) (Obj m))) None"]
      authenticated_client [OF a]
    by (auto simp: store_envelope_def is_record_def Let_def record_of_def body_key_def split: if_splits prod.splits sum.splits)
qed

lemma browser_ingest_stored:
  assumes "browser_ingest cfg c r s = (Inr (Accepted dup ev), s')"
  obtains client s1 rec where "ns_tables s1 = ns_tables s" "insert_record rec s1 = (Inr dup, s')"
    "ig_id rec = ic_new_id c 0" "ig_client rec = gc_id client" "client \<in> set (in_clients cfg)"
    "ig_key rec = body_key cfg (bq_body r)" "ig_event_id rec = db_text ev"
proof -
  from assms obtain key client m where f: "find_browser_client (in_clients cfg) key = Some client"
    and m: "parse_envelope (in_lib cfg) (bq_body r) = Some m"
    and st: "store_browser cfg c r client m s = (Inr (Accepted dup ev), s')"
    by (auto simp: browser_ingest_def split: if_splits option.splits list.splits)
  have "client \<in> set (in_clients cfg)" using f by (auto simp: find_browser_client_def find_Some_iff)
  moreover define e where "e = fst (sanitize_telemetry (sha256_hex (in_lib cfg)) (in_pepper cfg) (Obj m))"
  moreover define identity where "identity = Option.bind (context_token m)
      (verify_telemetry_context_token (in_lib cfg) (in_keyring cfg) (ic_verify c))"
  moreover define rec where
    "rec = record_of (in_lib cfg) (gc_id client) (ic_new_id c 0) (ic_received c 0) (u ''browser'') e identity"
  moreover obtain rates where "insert_record rec (s\<lparr>ns_rates := rates\<rparr>) = (Inr dup, s')" "kv_event_id e = ev"
    using st
    by (auto simp: store_browser_def Let_def e_def [symmetric] identity_def [symmetric] rec_def [symmetric]
        simp del: u_simps split: if_splits prod.splits sum.splits)
  ultimately show thesis
    using that [of "s\<lparr>ns_rates := rates\<rparr>" rec client] m by (simp add: record_of_def body_key_def)
qed

section \<open>Accepted envelopes\<close>

lemma stored_is_kept:
  assumes run: "op_run (telemetry_step env limit) ops db0 (ns_tables s)" "no_telemetry db0" "1 \<le> limit"
    and ins: "ns_tables s1 = ns_tables s" "insert_record rec s1 = (Inr dup, s')"
    and fresh: "ig_id rec \<notin> en_id ` set (td_envelopes (ns_tables s))"
    and later: "op_run (telemetry_step env limit) ops' (ns_tables s') db"
  obtains x row where "filter (\<lambda>y. en_client y = ig_client rec \<and> en_key y = ig_key rec) (td_envelopes db) = [x]"
    "filter (\<lambda>q. pr_envelope q = en_id x) (td_processing db) = [row]" "row_ok limit db row"
    "\<not> dup \<longrightarrow> x = accepted_envelope rec"
proof -
  have ok: "pipeline_ok limit (ns_tables s)" by (rule pipeline_run [OF run])
  have ok': "pipeline_ok limit (ns_tables s')"
    using pipeline_step [OF _ insert_record_step [OF ins(2)] run(3)] ok ins(1) fresh by simp
  have kept: "pipeline_ok limit db" "map_of (td_keys db) (ig_client rec, ig_key rec) = Some (ig_event_id rec, ig_hash rec)"
    using run_keeps_keys [OF later ok' run(3) insert_record_accepted(1) [OF ins(2)]] by auto
  then have t: "tables_ok db" by (simp add: pipeline_ok_def)
  obtain x where x: "x \<in> set (td_envelopes db)" "en_client x = ig_client rec" "en_key x = ig_key rec"
    using key_has_envelope [OF t kept(2)] by blast
  note only = pipeline_ok_row(1) [OF kept(1) x(1), unfolded x(2,3)]
  from pipeline_ok_row(2) [OF kept(1) x(1)] obtain row where
    row: "filter (\<lambda>q. pr_envelope q = en_id x) (td_processing db) = [row]" "row_ok limit db row" by blast
  have "x = accepted_envelope rec" if "\<not> dup"
  proof -
    have "accepted_envelope rec \<in> set (td_envelopes db)"
      using insert_record_accepted(2) [OF ins(2) that] run_keeps_envelopes [OF later ok' run(3)] by blast
    then have "accepted_envelope rec \<in> set (filter (\<lambda>y. en_client y = ig_client rec \<and> en_key y = ig_key rec) (td_envelopes db))"
      by (simp add: accepted_envelope_def)
    then show ?thesis by (simp add: only)
  qed
  with only row that show thesis by blast
qed

text \<open>
  C10. An envelope that was answered with 202 stays in the pipeline: whatever the pipeline did before and
  does afterwards, there is exactly one envelope of that client with the key of the body, which is the
  one just sent unless the answer was a duplicate, and its row in the queue is waiting with fewer
  attempts than the limit, processed with its occurrence stored, or dead-lettered.
\<close>

theorem accepted_answer_is_kept:
  assumes run: "op_run (telemetry_step env limit) ops db0 (ns_tables s)" "no_telemetry db0" "1 \<le> limit"
    and call: "(\<exists>r. vq_body r = body \<and> server_ingest cfg c r s = (Inr (Accepted dup ev), s')) \<or>
      (\<exists>r. bq_body r = body \<and> browser_ingest cfg c r s = (Inr (Accepted dup ev), s'))"
    and fresh: "ic_new_id c 0 \<notin> en_id ` set (td_envelopes (ns_tables s))"
    and later: "op_run (telemetry_step env limit) ops' (ns_tables s') db"
  shows "\<exists>client x row. client \<in> set (in_clients cfg) \<and>
    filter (\<lambda>y. en_client y = gc_id client \<and> en_key y = body_key cfg body) (td_envelopes db) = [x] \<and>
    (\<not> dup \<longrightarrow> en_id x = ic_new_id c 0 \<and> en_event_id x = db_text ev) \<and>
    filter (\<lambda>q. pr_envelope q = en_id x) (td_processing db) = [row] \<and> row_ok limit db row"
proof -
  obtain client s1 rec where ins: "ns_tables s1 = ns_tables s" "insert_record rec s1 = (Inr dup, s')"
      and rec: "ig_id rec = ic_new_id c 0" "ig_client rec = gc_id client" "client \<in> set (in_clients cfg)"
        "ig_key rec = body_key cfg body" "ig_event_id rec = db_text ev"
    using call
  proof (elim disjE exE conjE)
    fix r assume body: "vq_body r = body" and "server_ingest cfg c r s = (Inr (Accepted dup ev), s')"
    from this(2) show thesis by (rule server_ingest_stored) (rule that, simp_all add: body)
  next
    fix r assume body: "bq_body r = body" and "browser_ingest cfg c r s = (Inr (Accepted dup ev), s')"
    from this(2) show thesis by (rule browser_ingest_stored) (rule that, simp_all add: body)
  qed
  have "ig_id rec \<notin> en_id ` set (td_envelopes (ns_tables s))" using fresh rec(1) by simp
  from stored_is_kept [OF run ins this later] obtain x row where
    "filter (\<lambda>y. en_client y = ig_client rec \<and> en_key y = ig_key rec) (td_envelopes db) = [x]"
    "filter (\<lambda>q. pr_envelope q = en_id x) (td_processing db) = [row]" "row_ok limit db row"
    "\<not> dup \<longrightarrow> x = accepted_envelope rec" .
  then show ?thesis using rec by (intro exI [of _ client] exI [of _ x] exI [of _ row]) (auto simp: accepted_envelope_def)
qed

text \<open>
  C21. A retry is recognised: when an accepted request is sent again, with a new signature and whatever
  the pipeline did in between, the answer is a duplicate with the same event, and the tables stay as
  they are.
\<close>

theorem retry_is_duplicate:
  assumes run: "op_run (telemetry_step env limit) ops db0 (ns_tables s)" "no_telemetry db0" "1 \<le> limit"
    and first: "server_ingest cfg c r s = (Inr (Accepted dup ev), s1)" "authenticate cfg c server_path r s = (Inr client, t1)"
    and fresh: "ic_new_id c 0 \<notin> en_id ` set (td_envelopes (ns_tables s))"
    and between: "op_run (telemetry_step env limit) ops' (ns_tables s1) (ns_tables s2)"
    and again: "vq_body r' = vq_body r" "authenticate cfg c' server_path r' s2 = (Inr client, t2)"
  shows "server_ingest cfg c' r' s2 = (Inr (Accepted True ev), t2) \<and> ns_tables t2 = ns_tables s2"
proof -
  have size: "\<not> byte_length (vq_body r) > maximum_server_payload"
    using first(1) by (auto simp: server_ingest_def split: if_splits)
  have st: "store_envelope cfg c 0 client (map_option Obj (parse_envelope (in_lib cfg) (vq_body r))) t1 = (Inr (Accepted dup ev), s1)"
    using first size by (simp add: server_ingest_def)
  then obtain m where m: "parse_envelope (in_lib cfg) (vq_body r) = Some m" "valid_server_envelope m"
    by (cases "parse_envelope (in_lib cfg) (vq_body r)") (auto simp: store_envelope_def is_record_def split: if_splits)
  define e where "e = fst (sanitize_telemetry (sha256_hex (in_lib cfg)) (in_pepper cfg) (Obj m))"
  define source where "source = (case member m ''source'' of Str x \<Rightarrow> x | _ \<Rightarrow> [])"
  define rec where "rec = (\<lambda>c :: ingest_call. record_of (in_lib cfg) (gc_id client) (ic_new_id c 0) (ic_received c 0) source e None)"
  have ins: "insert_record (rec c) t1 = (Inr dup, s1)" and ev: "ev = kv_event_id e"
    using st m by (auto simp: store_envelope_def is_record_def Let_def e_def source_def rec_def
        split: prod.splits sum.splits)
  have same: "ns_tables t1 = ns_tables s" "ns_tables t2 = ns_tables s2"
    using authenticate_tables first(2) again(2) by blast+
  have ok: "pipeline_ok limit (ns_tables s1)"
    using pipeline_step [OF _ insert_record_step [OF ins] run(3)] pipeline_run [OF run] same(1) fresh
    by (simp add: rec_def record_of_def)
  have "map_of (td_keys (ns_tables t2)) (ig_client (rec c'), ig_key (rec c')) = Some (ig_event_id (rec c'), ig_hash (rec c'))"
    using run_keeps_keys [OF between ok run(3) insert_record_accepted(1) [OF ins]] same(2)
    by (simp add: rec_def record_of_def)
  then have "insert_record (rec c') t2 = (Inr True, t2)" by (rule insert_record_again)
  then have "server_ingest cfg c' r' s2 = (Inr (Accepted True ev), t2)"
    using again size m ev
    by (simp add: server_ingest_def store_envelope_def is_record_def Let_def e_def source_def rec_def)
  then show ?thesis using same(2) by simp
qed

section \<open>Refusals\<close>

text \<open>What is refused, and what throws, leaves the tables as they were.\<close>

lemma store_envelope_tables:
  assumes "store_envelope cfg c i client v s = (res, s')" "\<And>dup ev. res \<noteq> Inr (Accepted dup ev)"
  shows "ns_tables s' = ns_tables s"
  using assms
  by (auto simp: store_envelope_def Let_def dest: insert_record_throws split: option.splits if_splits prod.splits sum.splits)

theorem refused_server_request:
  assumes "server_ingest cfg c r s = (res, s')" "\<And>dup ev. res \<noteq> Inr (Accepted dup ev)"
  shows "ns_tables s' = ns_tables s"
proof -
  from assms(1) consider "s' = s"
    | code where "authenticate cfg c server_path r s = (Inl code, s')"
    | client s1 where "authenticate cfg c server_path r s = (Inr client, s1)"
        "store_envelope cfg c 0 client (map_option Obj (parse_envelope (in_lib cfg) (vq_body r))) s1 = (res, s')"
    by (auto simp: server_ingest_def split: if_splits prod.splits sum.splits)
  then show ?thesis
    by cases (use authenticate_tables store_envelope_tables assms(2) in \<open>fastforce+\<close>)
qed

theorem refused_browser_request:
  assumes "browser_ingest cfg c q s = (res, s')" "\<And>dup ev. res \<noteq> Inr (Accepted dup ev)"
  shows "ns_tables s' = ns_tables s"
proof -
  from assms(1) consider "s' = s"
    | client m where "store_browser cfg c q client m s = (res, s')"
    by (auto simp: browser_ingest_def split: if_splits option.splits list.splits)
  then show ?thesis
  proof cases
    case 2
    then show ?thesis using assms(2)
      by (auto simp: store_browser_def Let_def dest: insert_record_throws simp del: u_simps
          split: if_splits prod.splits sum.splits)
  qed simp
qed

section \<open>Signed requests\<close>

text \<open>When a request is authenticated, and with what.\<close>

definition signed_of :: "jstring \<Rightarrow> server_request \<Rightarrow> jstring \<Rightarrow> jstring \<Rightarrow> signed_request" where
  "signed_of path r timestamp nonce =
     \<lparr> sg_method = u ''POST'', sg_path = path, sg_timestamp = timestamp, sg_nonce = nonce, sg_body = vq_body r \<rparr>"

lemma authenticate_iff:
  "authenticate cfg c path r s = (Inr client, s') \<longleftrightarrow>
   (\<exists>key signature timestamp nonce reference secret ns.
      present (vq_key_id r) = Some key \<and> present (vq_signature r) = Some signature \<and>
      present (vq_timestamp r) = Some timestamp \<and> present (vq_nonce r) = Some nonce \<and>
      find_server_client (in_clients cfg) key = Some (client, reference) \<and> gc_status client = Client_active \<and>
      present (in_secrets cfg reference) = Some secret \<and>
      verify_server_ingest_request (in_lib cfg) (postgres_consume (sha256_hex (in_lib cfg))) secret signature
        (ic_verify c) (signed_of path r timestamp nonce) (ns_nonces s) = (Verified, ns) \<and>
      s' = s\<lparr>ns_nonces := ns\<rparr>)"
  by (auto simp: authenticate_def signed_of_def split: option.splits if_splits prod.splits verification.splits)

lemma present_Some: "present v = Some x \<longleftrightarrow> v = Some x \<and> x \<noteq> []"
  by (auto simp: present_def split: option.splits list.splits)

text \<open>
  A signed request is accepted once: whatever other requests use the store of nonces meanwhile, the
  same request is authenticated again in exactly one millisecond, the one in which its timestamp is
  sixty seconds old: the skew still allows it then, but its nonce has expired.
\<close>

theorem request_replayed_at_boundary_only:
  assumes first: "authenticate cfg c path r s = (Inr client, s1)"
    and time: "vq_timestamp r = Some ts" "parse_date (in_lib cfg) ts = Some t"
    and between: "ns_nonces s2 = postgres_nonces.nonce_run (sha256_hex (in_lib cfg)) us (ns_nonces s1)"
      "list_all (\<lambda>(m, e, now). now < t + 60000) us"
  shows "(\<exists>s3. authenticate cfg c' path r s2 = (Inr client, s3)) \<longleftrightarrow> ic_verify c' = t + 60000"
proof -
  let ?consume = "postgres_consume (sha256_hex (in_lib cfg))"
  from first obtain key signature timestamp nonce reference secret ns where
    a: "present (vq_key_id r) = Some key" "present (vq_signature r) = Some signature"
      "present (vq_timestamp r) = Some timestamp" "present (vq_nonce r) = Some nonce"
      "find_server_client (in_clients cfg) key = Some (client, reference)" "gc_status client = Client_active"
      "present (in_secrets cfg reference) = Some secret"
    and v: "verify_server_ingest_request (in_lib cfg) ?consume secret signature
        (ic_verify c) (signed_of path r timestamp nonce) (ns_nonces s) = (Verified, ns)"
    and s1: "s1 = s\<lparr>ns_nonces := ns\<rparr>"
    unfolding authenticate_iff by blast
  have ts: "timestamp = ts" using a(3) time(1) by (simp add: present_Some)
  from v obtain hex where ok: "valid_nonce nonce" "supplied_signature signature = Some hex"
      "unhex hex = compute_signature (in_lib cfg) secret (signed_of path r timestamp nonce)"
    and used: "?consume nonce (t + 60000) (ic_verify c) (ns_nonces s) = (True, ns)"
    by (rule verified_request) (auto simp: signed_of_def ts time(2) max_clock_skew_def)
  have nonces: "ns_nonces s2 = postgres_nonces.nonce_run (sha256_hex (in_lib cfg)) us ns"
    using between(1) s1 by simp
  have refused: "\<not> fst (?consume nonce (t + 60000) (ic_verify c') (ns_nonces s2))" if "ic_verify c' < t + 60000"
    unfolding nonces by (rule postgres_nonces.used_once [OF used between(2) that])
  have accepted: "fst (?consume nonce (t + 60000) (ic_verify c') (ns_nonces s2))" if "t + 60000 \<le> ic_verify c'"
  proof (rule postgres_nonces.consume_accepts)
    fix e
    assume e: "nonce_expiry (ns_nonces s2) (sha256_hex (in_lib cfg) (utf8 nonce)) = Some e"
    have "nonce_expiry (ns_nonces s2) (sha256_hex (in_lib cfg) (utf8 nonce)) = Some (t + 60000)"
      unfolding nonces
      by (rule postgres_nonces.run_keeps [where n = nonce, OF _ between(2)])
         (rule postgres_nonces.consume_records [OF used])
    then show "e \<le> ic_verify c'" using e that by simp
  qed
  have "(\<exists>s3. authenticate cfg c' path r s2 = (Inr client, s3)) \<longleftrightarrow>
      (\<exists>ns'. verify_server_ingest_request (in_lib cfg) ?consume secret signature
        (ic_verify c') (signed_of path r timestamp nonce) (ns_nonces s2) = (Verified, ns'))"
    unfolding authenticate_iff using a by auto
  also have "\<dots> \<longleftrightarrow> \<bar>ic_verify c' - t\<bar> \<le> 60000 \<and> fst (?consume nonce (t + 60000) (ic_verify c') (ns_nonces s2))"
    using ok by (auto simp: verify_server_ingest_request_def signed_of_def ts time(2) max_clock_skew_def
        split: prod.splits bool.splits)
  also have "\<dots> \<longleftrightarrow> ic_verify c' = t + 60000"
    using refused accepted by (cases "ic_verify c' < t + 60000") auto
  finally show ?thesis .
qed

end
