(* ===== verification/IngestSample.thy ===== *)
theory IngestSample
  imports IngestProps PipelineFaults
begin

text \<open>A sample server that sends an envelope twice: witnesses of the properties of ingestion.\<close>

definition ingest_event :: jstring where
  "ingest_event = u ''EVT_00000000000000000000000001''"

definition ingest_lib_sample :: ingest_lib where
  "ingest_lib_sample =
     \<lparr> sha256_hex = map ucast, hmac_sha256 = (\<lambda>k m. replicate 32 7),
       parse_text = (\<lambda>_. Some (Obj [(u ''schemaVersion'', Num 1), (u ''eventId'', Str ingest_event),
         (u ''idempotencyKey'', Str (u ''key-000000000001'')), (u ''source'', Str (u ''api''))])),
       parse_bytes = (\<lambda>_. None), parse_date = (\<lambda>_. Some 0), iso_text = (\<lambda>_. []), show_js = (\<lambda>_. []) \<rparr>"

definition ingest_client_sample :: ingest_client where
  "ingest_client_sample =
     \<lparr> gc_id = ''web'', gc_public_key = u ''k'', gc_kind = Server_client, gc_status = Client_active,
       gc_origins = [], gc_secret = Some (u ''s'') \<rparr>"

definition ingest_config_sample :: ingest_config where
  "ingest_config_sample =
     \<lparr> in_lib = ingest_lib_sample, in_clients = [ingest_client_sample], in_pepper = [], in_keyring = (\<lambda>_. None),
       in_secrets = (\<lambda>_. Some (u ''x'')) \<rparr>"

definition ingest_call_sample :: "millis \<Rightarrow> ingest_call" where
  "ingest_call_sample t =
     \<lparr> ic_verify = t, ic_limit = t, ic_received = (\<lambda>_. 1000), ic_new_id = (\<lambda>_. ''env-1'') \<rparr>"

definition ingest_request_sample :: "string \<Rightarrow> server_request" where
  "ingest_request_sample nonce =
     \<lparr> vq_key_id = Some (u ''k''), vq_signature = Some (u ''v1='' @ to_hex (replicate 32 7)),
       vq_timestamp = Some (u ''t''), vq_nonce = Some (u nonce), vq_body = [] \<rparr>"

definition ingest_state_sample :: ingest_state where
  "ingest_state_sample = \<lparr> ns_nonces = [], ns_rates = [], ns_tables = sample_tables \<rparr>"

lemma ingest_authenticates:
  assumes "valid_nonce (u nonce)" "0 \<le> t" "t \<le> 60000"
    and "fst (postgres_consume (sha256_hex ingest_lib_sample) (u nonce) 60000 t (ns_nonces s))"
  shows "authenticate ingest_config_sample (ingest_call_sample t) path (ingest_request_sample nonce) s =
    (Inr ingest_client_sample,
     s\<lparr>ns_nonces := snd (postgres_consume (sha256_hex ingest_lib_sample) (u nonce) 60000 t (ns_nonces s))\<rparr>)"
proof -
  have "u nonce \<noteq> []" using assms(1) by (auto simp: valid_nonce_def simp flip: length_greater_0_conv)
  then have "present (Some (u nonce)) = Some (u nonce)" by (simp add: present_Some)
  then show ?thesis
    unfolding authenticate_def
    using assms supplied_to_hex [of "replicate 32 7"]
    by (auto simp: ingest_request_sample_def present_def ingest_config_sample_def find_server_client_def
        ingest_client_sample_def ingest_call_sample_def verify_server_ingest_request_def max_clock_skew_def
        ingest_lib_sample_def compute_signature_def split: prod.splits bool.splits)
qed

lemma ingest_nonces:
  "valid_nonce (u ''abcdefghijklmnop'')" "valid_nonce (u ''bcdefghijklmnopq'')"
  by (simp_all add: valid_nonce_def nonce_unit_def unit_digit_def unit_letter_def word_le_nat_alt)

definition ingest_body :: "(jstring \<times> js) list" where
  "ingest_body = [(u ''schemaVersion'', Num 1), (u ''eventId'', Str ingest_event),
     (u ''idempotencyKey'', Str (u ''key-000000000001'')), (u ''source'', Str (u ''api''))]"

definition ingest_envelope :: clean_envelope where
  "ingest_envelope = fst (sanitize_telemetry (map ucast) [] (Obj ingest_body))"

definition ingest_record_sample :: ingest_record where
  "ingest_record_sample = record_of ingest_lib_sample ''web'' ''env-1'' 1000 (u ''api'') ingest_envelope None"

lemma ingest_ids:
  "kv_event_id ingest_envelope = ingest_event" "kv_key ingest_envelope = u ''key-000000000001''"
  by (simp_all add: ingest_envelope_def ingest_body_def sanitize_telemetry_def is_record_def member_def
      bounded_string_def Let_def ingest_event_def split: prod.split)

lemma char_byte: "unat (ucast (of_nat (of_char c) :: 16 word) :: byte) = of_char c"
proof -
  have c: "(of_char c :: nat) < 256" by (rule nat_of_char_less_256)
  have "take_bit 16 (of_char c :: nat) = of_char c"
    by (rule take_bit_nat_eq_self) (rule less_trans [OF c], simp)
  moreover have "take_bit 8 (of_char c :: nat) = of_char c"
    by (rule take_bit_nat_eq_self) (use c in simp)
  ultimately show ?thesis by (simp add: unsigned_ucast_eq unsigned_of_nat)
qed

lemma db_text_u: "list_all (\<lambda>c. (of_char c :: nat) < 128) s \<Longrightarrow> db_text (u s) = s"
proof (induction s)
  case (Cons c s)
  have "take_bit 16 (of_char c :: nat) = of_char c"
    by (rule take_bit_nat_eq_self) (rule less_trans [OF nat_of_char_less_256], simp)
  then have "(of_nat (of_char c) :: 16 word) \<le> 0x7F" using Cons.prems
    by (simp add: word_le_nat_alt unsigned_of_nat)
  then have "utf8 (u (c # s)) = (ucast (of_nat (of_char c) :: 16 word) :: byte) # utf8 (u s)"
    by (simp add: utf8_Cons utf8_unit_def)
  then show ?case using Cons char_byte by (simp add: db_text_def)
qed (simp add: db_text_def)

lemma ingest_texts:
  "db_text (u ''api'') = ''api''" "db_text (u ''key-000000000001'') = ''key-000000000001''"
  "db_text ingest_event = ''EVT_00000000000000000000000001''"
  unfolding ingest_event_def by (rule db_text_u, simp)+

lemma ingest_selectors:
  "in_lib ingest_config_sample = ingest_lib_sample" "in_pepper ingest_config_sample = []"
  "in_clients ingest_config_sample = [ingest_client_sample]" "gc_id ingest_client_sample = ''web''"
  "ic_received (ingest_call_sample t) n = 1000" "ic_new_id (ingest_call_sample t) n = ''env-1''"
  "ic_verify (ingest_call_sample t) = t" "vq_body (ingest_request_sample x) = []"
  "sha256_hex ingest_lib_sample = map ucast" "ns_tables ingest_state_sample = sample_tables"
  "ns_nonces ingest_state_sample = []" "parse_date ingest_lib_sample t' = Some 0"
  "vq_timestamp (ingest_request_sample x) = Some (u ''t'')"
  by (simp_all add: ingest_config_sample_def ingest_client_sample_def ingest_call_sample_def
      ingest_request_sample_def ingest_lib_sample_def ingest_state_sample_def)

lemma ingest_acceptable: "acceptable ingest_record_sample sample_tables"
  by (simp add: acceptable_def ingest_record_sample_def record_of_def ingest_ids ingest_texts sample_tables_def
      telemetry_sources_def has_partition_def char_length_def del: u_simps)

lemma ingest_parsed: "parse_envelope ingest_lib_sample body = Some ingest_body"
  by (simp add: parse_envelope_def ingest_lib_sample_def ingest_body_def is_record_def)

lemma ingest_valid: "valid_server_envelope ingest_body"
  by (simp add: valid_server_envelope_def valid_envelope_id_def ingest_body_def member_def valid_event_id_def
      ingest_event_def units_start_def event_id_unit_def unit_digit_def one_of_def valid_idempotency_key_def
      server_sources_def word_le_nat_alt)

definition ingest_request :: server_request where "ingest_request = ingest_request_sample ''abcdefghijklmnop''"
definition ingest_retry :: server_request where "ingest_retry = ingest_request_sample ''bcdefghijklmnopq''"

definition ingest_nonces_after :: nonce_table where
  "ingest_nonces_after = [(map ucast (utf8 (u ''abcdefghijklmnop'')), 60000)]"

definition ingest_authenticated :: ingest_state where
  "ingest_authenticated = ingest_state_sample\<lparr>ns_nonces := ingest_nonces_after\<rparr>"

definition ingest_after :: ingest_state where
  "ingest_after = snd (insert_record ingest_record_sample ingest_authenticated)"

lemma ingest_first_authenticated:
  "authenticate ingest_config_sample (ingest_call_sample 500) server_path ingest_request ingest_state_sample =
   (Inr ingest_client_sample, ingest_authenticated)"
  using ingest_authenticates [OF ingest_nonces(1), of 500 ingest_state_sample server_path]
  by (simp add: ingest_request_def ingest_authenticated_def ingest_nonces_after_def ingest_state_sample_def
      postgres_consume_memory memory_consume_def Let_def ingest_lib_sample_def del: u_simps)

lemma ingest_first:
  "server_ingest ingest_config_sample (ingest_call_sample 500) ingest_request ingest_state_sample =
   (Inr (Accepted False ingest_event), ingest_after)"
proof -
  have "insert_record ingest_record_sample ingest_authenticated = (Inr False, ingest_after)"
    using ingest_acceptable
    by (simp add: ingest_after_def insert_record_def insert_raw_def ingest_authenticated_def ingest_state_sample_def)
       (simp add: sample_tables_def)
  moreover have "member ingest_body ''source'' = Str (u ''api'')" by (simp add: member_def ingest_body_def)
  ultimately show ?thesis
    using ingest_parsed [of "[]"] ingest_valid
    by (simp add: server_ingest_def ingest_first_authenticated store_envelope_def is_record_def Let_def
        ingest_selectors ingest_request_def byte_length_def ingest_record_sample_def ingest_envelope_def [symmetric]
        ingest_ids ingest_first_authenticated [unfolded ingest_request_def] del: u_simps)
qed

text \<open>Witness of \<open>accepted_answer_is_kept\<close>: the envelope just sent is in the pipeline.\<close>

theorem accepted_answer_is_kept_witness:
  "\<exists>client x row. client \<in> set (in_clients ingest_config_sample) \<and>
    filter (\<lambda>y. en_client y = gc_id client \<and> en_key y = body_key ingest_config_sample []) (td_envelopes (ns_tables ingest_after)) = [x] \<and>
    (\<not> False \<longrightarrow> en_id x = ic_new_id (ingest_call_sample 500) 0 \<and> en_event_id x = db_text ingest_event) \<and>
    filter (\<lambda>q. pr_envelope q = en_id x) (td_processing (ns_tables ingest_after)) = [row] \<and>
    row_ok 10 (ns_tables ingest_after) row"
proof (rule accepted_answer_is_kept [where s = ingest_state_sample and env = sample_env])
  show "op_run (telemetry_step sample_env 10) [] sample_tables (ns_tables ingest_state_sample)"
    by (simp add: ingest_selectors op_run.run_nothing)
  show "no_telemetry sample_tables" by (simp add: no_telemetry_def sample_tables_def)
  show "(\<exists>r. vq_body r = [] \<and> server_ingest ingest_config_sample (ingest_call_sample 500) r ingest_state_sample =
      (Inr (Accepted False ingest_event), ingest_after)) \<or>
    (\<exists>r. bq_body r = [] \<and> browser_ingest ingest_config_sample (ingest_call_sample 500) r ingest_state_sample =
      (Inr (Accepted False ingest_event), ingest_after))"
    using ingest_first ingest_selectors(8) unfolding ingest_request_def by blast
  show "ic_new_id (ingest_call_sample 500) 0 \<notin> en_id ` set (td_envelopes (ns_tables ingest_state_sample))"
    by (simp add: ingest_selectors sample_tables_def)
  show "op_run (telemetry_step sample_env 10) [] (ns_tables ingest_after) (ns_tables ingest_after)"
    by (rule op_run.run_nothing)
qed simp

text \<open>Witness of \<open>retry_is_duplicate\<close>: the same envelope, sent again a hundred milliseconds later.\<close>

definition ingest_retried :: ingest_state where
  "ingest_retried = snd (authenticate ingest_config_sample (ingest_call_sample 600) server_path ingest_retry ingest_after)"

lemma ingest_nonces_kept: "ns_nonces ingest_after = ingest_nonces_after"
  by (simp add: ingest_after_def insert_record_def ingest_authenticated_def split: prod.split)

lemma ingest_retry_authenticated:
  "authenticate ingest_config_sample (ingest_call_sample 600) server_path ingest_retry ingest_after =
   (Inr ingest_client_sample, ingest_retried)"
proof -
  have "fst (postgres_consume (sha256_hex ingest_lib_sample) (u ''bcdefghijklmnopq'') 60000 600 (ns_nonces ingest_after))"
    by (simp add: ingest_nonces_kept ingest_nonces_after_def postgres_consume_memory memory_consume_def Let_def
        ingest_selectors utf8_Cons utf8_unit_def)
  from ingest_authenticates [OF ingest_nonces(2) _ _ this, of server_path] show ?thesis
    by (simp add: ingest_retry_def ingest_retried_def)
qed

theorem retry_is_duplicate_witness:
  "server_ingest ingest_config_sample (ingest_call_sample 600) ingest_retry ingest_after =
     (Inr (Accepted True ingest_event), ingest_retried) \<and> ns_tables ingest_retried = ns_tables ingest_after"
proof (rule retry_is_duplicate [where s = ingest_state_sample and env = sample_env and limit = 10])
  show "op_run (telemetry_step sample_env 10) [] sample_tables (ns_tables ingest_state_sample)"
    by (simp add: ingest_selectors op_run.run_nothing)
  show "no_telemetry sample_tables" by (simp add: no_telemetry_def sample_tables_def)
  show "server_ingest ingest_config_sample (ingest_call_sample 500) ingest_request ingest_state_sample =
      (Inr (Accepted False ingest_event), ingest_after)" by (rule ingest_first)
  show "authenticate ingest_config_sample (ingest_call_sample 500) server_path ingest_request ingest_state_sample =
      (Inr ingest_client_sample, ingest_authenticated)" by (rule ingest_first_authenticated)
  show "ic_new_id (ingest_call_sample 500) 0 \<notin> en_id ` set (td_envelopes (ns_tables ingest_state_sample))"
    by (simp add: ingest_selectors sample_tables_def)
  show "op_run (telemetry_step sample_env 10) [] (ns_tables ingest_after) (ns_tables ingest_after)"
    by (rule op_run.run_nothing)
  show "vq_body ingest_retry = vq_body ingest_request"
    by (simp add: ingest_retry_def ingest_request_def ingest_selectors)
  show "authenticate ingest_config_sample (ingest_call_sample 600) server_path ingest_retry ingest_after =
      (Inr ingest_client_sample, ingest_retried)" by (rule ingest_retry_authenticated)
qed simp

text \<open>Witness of \<open>request_replayed_at_boundary_only\<close>: the first request again, after sixty seconds.\<close>

theorem request_replayed_at_boundary_only_witness:
  "((\<exists>s3. authenticate ingest_config_sample (ingest_call_sample 60000) server_path ingest_request ingest_authenticated =
      (Inr ingest_client_sample, s3)) = (60000 = (60000 :: millis))) \<and>
   ((\<exists>s3. authenticate ingest_config_sample (ingest_call_sample 600) server_path ingest_request ingest_authenticated =
      (Inr ingest_client_sample, s3)) = (600 = (60000 :: millis)))"
  using request_replayed_at_boundary_only [OF ingest_first_authenticated, of "u ''t''" 0 ingest_authenticated "[]"
      "ingest_call_sample 60000"]
    request_replayed_at_boundary_only [OF ingest_first_authenticated, of "u ''t''" 0 ingest_authenticated "[]"
      "ingest_call_sample 600"]
  by (simp add: ingest_selectors ingest_request_def del: u_simps)

text \<open>Witness of \<open>context_token_round_trip\<close>: a token issued at 0 and read at 1000.\<close>

definition token_context_sample :: telemetry_context where
  "token_context_sample = \<lparr> tx_user = u ''u1'', tx_role = u ''r'', tx_label = u ''l'', tx_session = u ''s'', tx_nonce = u ''n'' \<rparr>"

definition token_lib_sample :: ingest_lib where
  "token_lib_sample = ingest_lib_sample
     \<lparr>parse_bytes := (\<lambda>_. Some (token_payload (ingest_lib_sample\<lparr>iso_text := (\<lambda>_. u ''t'')\<rparr>) token_context_sample 0)),
      parse_date := (\<lambda>_. Some 900000), iso_text := (\<lambda>_. u ''t'')\<rparr>"

theorem context_token_round_trip_witness:
  "verify_telemetry_context_token token_lib_sample (\<lambda>_. Some (u ''key'')) 1000
     (issue_telemetry_context_token token_lib_sample token_context_sample (u ''k'') (u ''key'') 0) =
   Some \<lparr> si_user = Str (u ''u1''), si_role = Str (u ''r''), si_label = Str (u ''l''), si_session = Str (u ''s''),
     si_expires = Str (u ''t'') \<rparr>"
  using context_token_round_trip [of "\<lambda>_. Some (u ''key'')" "u ''k''" "u ''key''" token_lib_sample token_context_sample 0 1000]
  by (simp add: token_lib_sample_def token_context_sample_def ingest_lib_sample_def token_payload_def)

end
