(* ===== verification/ResultEncoding.thy ===== *)
theory ResultEncoding
  imports Base64
begin

text \<open>
  The encoding of the rows of a read: apps/sql-worker/src/execution/resultEncoding.ts. Values of the
  driver refer to arrays and objects by identity, so that an object can contain itself; the objects
  are a map from identities to their contents. The loop over the rows keeps as many as fit into the
  limit of bytes, and counts the bytes of the JSON text of the array without building it.
\<close>

section \<open>Values of the driver\<close>

text \<open>
  A number is an integer or, as text, another finite number, or the text of NaN or an infinity.
  \<open>V_void\<close> is undefined, a function or a symbol. A date without a value is invalid.
\<close>

type_synonym object_id = nat

datatype driver_value =
    V_null | V_bool bool | V_string jstring | V_integer int | V_real string | V_nonfinite string
  | V_bigint int | V_void | V_bytes bytes | V_date "int option" | V_object object_id

datatype object_data = O_array "driver_value list" | O_entries "(jstring \<times> driver_value) list"

type_synonym objects = "object_id \<Rightarrow> object_data"

text \<open>Everything that is not an array or an object.\<close>

fun leaf_value :: "(int \<Rightarrow> jstring) \<Rightarrow> driver_value \<Rightarrow> js" where
  "leaf_value to_iso V_null = Null"
| "leaf_value to_iso (V_bool b) = Bool b"
| "leaf_value to_iso (V_string s) = Str s"
| "leaf_value to_iso (V_integer n) = Num n"
| "leaf_value to_iso (V_real t) = Real t"
| "leaf_value to_iso (V_nonfinite t) = Str (u t)"
| "leaf_value to_iso (V_bigint n) = Str (u (string_of_int n))"
| "leaf_value to_iso V_void = Null"
| "leaf_value to_iso (V_bytes b) = Str ([0x5C, 0x78] @ to_hex b)"
| "leaf_value to_iso (V_date None) = Null"
| "leaf_value to_iso (V_date (Some t)) = Str (to_iso t)"
| "leaf_value to_iso (V_object p) = Undefined"

definition unsupported :: jstring where "unsupported = u ''[Unsupported result value]''"
definition circular :: jstring where "circular = u ''[Circular result value]''"

text \<open>
  \<open>left\<close> is ten less the depth. \<open>seen\<close> are the objects on the path to the value: an object is deleted
  from the set when its members are done. Assigning the member \<open>__proto__\<close> of the result changes its
  prototype, so it is not a member of it.
\<close>

function (sequential) normalize_value ::
  "(int \<Rightarrow> jstring) \<Rightarrow> objects \<Rightarrow> object_id list \<Rightarrow> nat \<Rightarrow> driver_value \<Rightarrow> js" where
  "normalize_value to_iso objs seen left (V_object p) =
     (if left = 0 then Str unsupported
      else if p \<in> set seen then Str circular
      else (case objs p of
          O_array vs \<Rightarrow> Arr (map (normalize_value to_iso objs (p # seen) (left - 1)) vs)
        | O_entries m \<Rightarrow>
            Obj (map (\<lambda>(k, v). (k, normalize_value to_iso objs (p # seen) (left - 1) v))
                     (filter (\<lambda>(k, v). k \<noteq> u ''__proto__'') m))))"
| "normalize_value to_iso objs seen left v = leaf_value to_iso v"
  by pat_completeness auto
termination by (relation "measure (\<lambda>(to_iso, objs, seen, left, v). left)") auto

definition encode_row :: "(int \<Rightarrow> jstring) \<Rightarrow> objects \<Rightarrow> driver_value \<Rightarrow> js" where
  "encode_row to_iso objs v = normalize_value to_iso objs [] 10 v"

section \<open>Rows within a limit\<close>

record bounded_rows =
  br_rows :: "js list"
  br_bytes :: int
  br_truncated :: bool

fun bounded_loop :: "(driver_value \<Rightarrow> js) \<Rightarrow> int \<Rightarrow> driver_value list \<Rightarrow> js list \<Rightarrow> int \<Rightarrow> bounded_rows" where
  "bounded_loop encode maximum [] rows bytes = \<lparr> br_rows = rows, br_bytes = bytes, br_truncated = False \<rparr>"
| "bounded_loop encode maximum (r # rest) rows bytes =
     (let encoded = encode r;
          next_bytes = bytes + int (byte_length (json_text encoded)) + (if length rows = 0 then 0 else 1) in
      if next_bytes > maximum then \<lparr> br_rows = rows, br_bytes = bytes, br_truncated = True \<rparr>
      else bounded_loop encode maximum rest (rows @ [encoded]) next_bytes)"

definition encode_bounded_rows ::
  "(int \<Rightarrow> jstring) \<Rightarrow> objects \<Rightarrow> int \<Rightarrow> driver_value list \<Rightarrow> string + bounded_rows" where
  "encode_bounded_rows to_iso objs maximum rows =
     (if \<not> is_safe_integer maximum \<or> maximum < 2 then Inl ''SQL_RESULT_BYTE_LIMIT_INVALID''
      else Inr (bounded_loop (encode_row to_iso objs) maximum rows [] 2))"

section \<open>What the count is\<close>

definition array_bytes :: "js list \<Rightarrow> int" where
  "array_bytes vs = int (byte_length (json_text (Arr vs)))"

lemma starts_low_commas [simp]: "\<not> starts_low (commas (map json_text vs))"
proof (cases vs)
  case (Cons v ws)
  then show ?thesis by (cases ws) (simp_all add: low_surrogate_def word_le_nat_alt)
qed simp

lemma commas_snoc:
  "commas (xs @ [x]) = (if xs = [] then x else commas xs @ 0x2C # x)"
  by (induction xs rule: commas.induct) auto

lemma array_text_bytes: "array_bytes vs = 2 + int (byte_length (commas (map json_text vs)))"
  by (simp add: array_bytes_def byte_length_simps byte_length_append low_surrogate_def)

lemma array_bytes_Nil: "array_bytes [] = 2"
  by (simp add: array_text_bytes byte_length_simps)

lemma array_bytes_snoc:
  "array_bytes (vs @ [v]) = array_bytes vs + int (byte_length (json_text v)) + (if vs = [] then 0 else 1)"
  by (simp add: array_text_bytes commas_snoc byte_length_simps byte_length_append low_surrogate_def)

lemma array_bytes_mono: "array_bytes vs \<le> array_bytes (vs @ ws)"
proof (induction ws rule: rev_induct)
  case (snoc w ws)
  then show ?case using array_bytes_snoc [of "vs @ ws" w] by (simp split: if_splits)
qed simp

text \<open>The reference: the longest beginning of the rows whose JSON text fits.\<close>

definition fitting :: "(driver_value \<Rightarrow> js) \<Rightarrow> int \<Rightarrow> driver_value list \<Rightarrow> nat \<Rightarrow> bool" where
  "fitting encode maximum rows k \<longleftrightarrow> array_bytes (map encode (take k rows)) \<le> maximum"

definition is_bounded :: "(driver_value \<Rightarrow> js) \<Rightarrow> int \<Rightarrow> driver_value list \<Rightarrow> bounded_rows \<Rightarrow> bool" where
  "is_bounded encode maximum rows b \<longleftrightarrow>
     (\<exists>k \<le> length rows. br_rows b = map encode (take k rows) \<and> fitting encode maximum rows k \<and>
        (\<forall>j. k < j \<and> j \<le> length rows \<longrightarrow> \<not> fitting encode maximum rows j) \<and>
        br_truncated b = (k < length rows)) \<and>
     br_bytes b = array_bytes (br_rows b)"

lemma not_fitting_later:
  assumes "\<not> fitting encode maximum rows k" and "k \<le> j"
  shows "\<not> fitting encode maximum rows j"
proof -
  have "take j rows = take k rows @ take (j - k) (drop k rows)"
    using assms(2) by (metis le_add_diff_inverse take_add)
  then show ?thesis
    using assms(1) array_bytes_mono [of "map encode (take k rows)" "map encode (take (j - k) (drop k rows))"]
    by (simp add: fitting_def)
qed

lemma bounded_loop_bounded:
  assumes "array_bytes (map encode done) = bytes" and "bytes \<le> maximum"
  shows "is_bounded encode maximum (done @ rest) (bounded_loop encode maximum rest (map encode done) bytes)"
  using assms
proof (induction rest arbitrary: "done" bytes)
  case Nil
  then show ?case by (auto simp: is_bounded_def fitting_def intro!: exI [of _ "length done"])
next
  case (Cons r rest)
  define next_bytes where "next_bytes = bytes + int (byte_length (json_text (encode r))) + (if done = [] then 0 else 1)"
  have grown: "array_bytes (map encode (done @ [r])) = next_bytes"
    using Cons.prems(1) array_bytes_snoc [of "map encode done" "encode r"] by (simp add: next_bytes_def)
  show ?case
  proof (cases "next_bytes > maximum")
    case True
    then have "\<not> fitting encode maximum (done @ r # rest) (Suc (length done))"
      using grown by (simp add: fitting_def)
    then have "\<forall>j. length done < j \<longrightarrow> \<not> fitting encode maximum (done @ r # rest) j"
      using not_fitting_later by (metis Suc_leI)
    with True Cons.prems show ?thesis
      by (auto simp: is_bounded_def fitting_def next_bytes_def Let_def intro!: exI [of _ "length done"])
  next
    case False
    then show ?thesis
      using Cons.IH [of "done @ [r]" next_bytes] grown by (simp add: Let_def next_bytes_def)
  qed
qed

section \<open>What is encoded\<close>

text \<open>The values that \<open>JSON.stringify\<close> writes as they are.\<close>

fun json_value :: "js \<Rightarrow> bool" where
  "json_value (Arr vs) = list_all json_value vs"
| "json_value (Obj m) = list_all (\<lambda>(k, v). json_value v) m"
| "json_value v = (case v of Null \<Rightarrow> True | Bool _ \<Rightarrow> True | Num _ \<Rightarrow> True | Real _ \<Rightarrow> True | Str _ \<Rightarrow> True | _ \<Rightarrow> False)"

fun nesting :: "js \<Rightarrow> nat" where
  "nesting (Arr vs) = Suc (fold (\<lambda>v m. max (nesting v) m) vs 0)"
| "nesting (Obj m) = Suc (fold (\<lambda>(k, v) n. max (nesting v) n) m 0)"
| "nesting v = 0"

lemma leaf_date: "leaf_value to_iso (V_date t) = (case t of None \<Rightarrow> Null | Some x \<Rightarrow> Str (to_iso x))"
  by (cases t) simp_all

lemma fold_max_le: "(\<And>v. v \<in> set vs \<Longrightarrow> f v \<le> n) \<Longrightarrow> m \<le> n \<Longrightarrow> fold (\<lambda>v m. max (f v) m) vs m \<le> (n::nat)"
  by (induction vs arbitrary: m) auto

lemma normalize_json:
  "json_value (normalize_value to_iso objs seen left v) \<and> nesting (normalize_value to_iso objs seen left v) \<le> left"
proof (induction to_iso objs seen left v rule: normalize_value.induct)
  case (1 to_iso objs seen left p)
  let ?n = "\<lambda>v. normalize_value to_iso objs (p # seen) (left - 1) v"
  show ?case
  proof (cases "left = 0 \<or> p \<in> set seen")
    case False
    then have go: "left \<noteq> 0" "p \<notin> set seen" by auto
    show ?thesis
    proof (cases "objs p")
      case (O_array vs)
      have "fold (\<lambda>v m. max (nesting v) m) (map ?n vs) 0 \<le> left - 1"
        using 1(1) [OF go O_array] by (intro fold_max_le) auto
      then show ?thesis using 1(1) [OF go O_array] go O_array by (auto simp: list_all_iff)
    next
      case (O_entries m)
      let ?es = "map (\<lambda>(k, v). (k, ?n v)) (filter (\<lambda>(k, v). k \<noteq> u ''__proto__'') m)"
      have sub: "json_value (?n v) \<and> nesting (?n v) \<le> left - 1"
        if "(k, v) \<in> set (filter (\<lambda>(k, v). k \<noteq> u ''__proto__'') m)" for k v
        using 1(2) [OF go O_entries that] by blast
      have "fold (\<lambda>e n. max (nesting (snd e)) n) ?es 0 \<le> left - 1"
        using sub by (intro fold_max_le) auto
      then show ?thesis using sub go O_entries by (auto simp: list_all_iff case_prod_unfold)
    qed
  qed auto
qed (auto simp: leaf_date split: option.split)

lemma encoded_rows_bounded:
  assumes "encode_bounded_rows to_iso objs maximum rows = Inr b"
  shows "is_bounded (encode_row to_iso objs) maximum rows b \<and> br_bytes b \<le> maximum"
proof -
  have b: "b = bounded_loop (encode_row to_iso objs) maximum rows (map (encode_row to_iso objs) []) 2" "2 \<le> maximum"
    using assms by (auto simp: encode_bounded_rows_def split: if_splits)
  have "is_bounded (encode_row to_iso objs) maximum ([] @ rows) b"
    unfolding b(1) by (rule bounded_loop_bounded) (simp_all add: array_bytes_Nil b(2))
  then show ?thesis by (auto simp: is_bounded_def fitting_def)
qed

lemma encode_row_json: "json_value (encode_row to_iso objs v)"
  using normalize_json by (simp add: encode_row_def)

text \<open>
  The result of a read fits its limit: the rows are the longest beginning whose JSON array has at
  most that many bytes, the reported number of bytes is exactly its length, truncation is reported
  exactly when rows were dropped, and whatever the values of the driver contain, circular objects
  included, every row is a JSON value nested at most ten deep.
\<close>

theorem bounded_rows_exact:
  assumes "encode_bounded_rows to_iso objs maximum rows = Inr b"
  shows "is_bounded (encode_row to_iso objs) maximum rows b \<and> br_bytes b \<le> maximum \<and>
    (\<forall>v \<in> set (br_rows b). json_value v \<and> nesting v \<le> 10)"
  using encoded_rows_bounded [OF assms] normalize_json [of to_iso objs "[]" 10]
  by (auto simp: is_bounded_def encode_row_def)

end
