(* ===== verification/SqlExecution.thy ===== *)
theory SqlExecution
  imports ResultEncoding Regex
begin

text \<open>
  How the SQL worker runs statements on the production database: readClassification.ts,
  mutationClassification.ts, mutationPreview.ts, readExecution.ts of apps/sql-worker/src/execution, and
  readPool.ts, mutationPool.ts of apps/sql-worker/src/database.

  A session of PostgreSQL has the committed database and a transaction, which works on a copy. The
  parsers of the worker (pgsql-ast-parser) and of PostgreSQL, and what a statement does to a database,
  are arguments. Any query can fail at the server, and the connection can break before or after a
  query is executed, as \<open>faults\<close> says of the queries by their number.
\<close>

section \<open>Classification\<close>

text \<open>
  The nodes of pgsql-ast-parser that the code looks at: whether a select has a locking clause, the
  statements bound by a with and the statement in it, whether an update or delete has a condition.
\<close>

datatype ast =
    Ast_select bool | Ast_with "ast list" ast | Ast_insert | Ast_update bool | Ast_delete bool | Ast_show | Ast_other

datatype mutation_kind = Kind_insert | Kind_update | Kind_delete

datatype mutation_class = Mutation mutation_kind bool | SQL_DML_REQUIRED

definition classify_mutation_sql :: "(jstring \<Rightarrow> ast list option) \<Rightarrow> jstring \<Rightarrow> mutation_class" where
  "classify_mutation_sql parse sql =
     (case parse sql of
        Some [Ast_insert] \<Rightarrow> Mutation Kind_insert False
      | Some [Ast_update has_where] \<Rightarrow> Mutation Kind_update (\<not> has_where)
      | Some [Ast_delete has_where] \<Rightarrow> Mutation Kind_delete (\<not> has_where)
      | _ \<Rightarrow> SQL_DML_REQUIRED)"

fun is_read_select :: "ast \<Rightarrow> bool" where
  "is_read_select (Ast_select locking) = (\<not> locking)"
| "is_read_select (Ast_with bound inner) = (list_all is_read_select bound \<and> is_read_select inner)"
| "is_read_select _ = False"

datatype read_class = Read_select | Read_show | SQL_READ_ONLY_REQUIRED

definition classify_read_only_sql :: "(jstring \<Rightarrow> ast list option) \<Rightarrow> jstring \<Rightarrow> read_class" where
  "classify_read_only_sql parse sql =
     (case parse sql of
        Some [s] \<Rightarrow> if is_read_select s then Read_select else if s = Ast_show then Read_show
                    else SQL_READ_ONLY_REQUIRED
      | _ \<Rightarrow> SQL_READ_ONLY_REQUIRED)"

text \<open>\<open>sql.replace(/;\s*$/, '').trim()\<close>\<close>

definition strip_statement :: "jstring \<Rightarrow> jstring" where
  "strip_statement sql =
     (let s = rev (dropWhile unit_white (rev sql)) in
      trim_units (if s \<noteq> [] \<and> last s = 0x3B then butlast s else sql))"

text \<open>\<open>sql.replace(/\s+/g, ' ')\<close>\<close>

definition single_spaced :: "jstring \<Rightarrow> jstring" where
  "single_spaced sql = replace_all (Repeat 1 None unit_white) [0x20] None sql"

definition sql_fingerprint :: "(bytes \<Rightarrow> jstring) \<Rightarrow> jstring \<Rightarrow> jstring" where
  "sql_fingerprint sha256 sql = sha256 (utf8 (single_spaced sql))"

section \<open>Sessions of PostgreSQL\<close>

text \<open>What the worker sends: its own statements, and texts that contain a statement of the operator.\<close>

datatype worker_query =
    Begin_tx | Begin_read_only | Statement_timeout | Lock_timeout | Set_config string jstring
  | Begin_dml jstring jstring jstring jstring | Text jstring | Select_journal jstring int
  | Fetch_forward int | Close_cursor | Rollback_tx

text \<open>What PostgreSQL reads in a text.\<close>

datatype 'q pg_command = Pg_begin | Pg_commit | Pg_rollback | Pg_declare 'q | Pg_other 'q

record reply =
  rp_rows :: "driver_value list"
  rp_count :: "int option"
  rp_objects :: objects

definition empty_reply :: reply where
  "empty_reply = \<lparr> rp_rows = [], rp_count = None, rp_objects = (\<lambda>_. O_array []) \<rparr>"

record ('db, 'q) pg_server =
  pg_parse :: "jstring \<Rightarrow> 'q pg_command list option"
  pg_run :: "'q \<Rightarrow> 'db \<Rightarrow> string + reply \<times> 'db"
  pg_own :: "worker_query \<Rightarrow> 'db \<Rightarrow> string + reply \<times> 'db"

datatype 'db tx_status = Idle | Open_tx bool 'db | Aborted | Lost

record ('db, 'q) session =
  ss_committed :: 'db
  ss_status :: "'db tx_status"
  ss_cursor :: "'q option"
  ss_sent :: "worker_query list"
  ss_open :: bool

definition syntax_error :: string where "syntax_error = ''42601''"
definition in_failed_transaction :: string where "in_failed_transaction = ''25P02''"
definition read_only_transaction :: string where "read_only_transaction = ''25006''"
definition connection_lost :: string where "connection_lost = ''08006''"

text \<open>A read-only transaction refuses what would change the database.\<close>

definition run_statement ::
  "('db \<Rightarrow> string + reply \<times> 'db) \<Rightarrow> ('db, 'q) session \<Rightarrow> (string + reply) \<times> ('db, 'q) session" where
  "run_statement f s =
     (case ss_status s of
        Idle \<Rightarrow> (case f (ss_committed s) of
            Inl e \<Rightarrow> (Inl e, s) | Inr (r, db) \<Rightarrow> (Inr r, s\<lparr>ss_committed := db\<rparr>))
      | Open_tx ro work \<Rightarrow> (case f work of
            Inl e \<Rightarrow> (Inl e, s\<lparr>ss_status := Aborted\<rparr>)
          | Inr (r, db) \<Rightarrow>
              if ro \<and> db \<noteq> work then (Inl read_only_transaction, s\<lparr>ss_status := Aborted\<rparr>)
              else (Inr r, s\<lparr>ss_status := Open_tx ro db\<rparr>))
      | Aborted \<Rightarrow> (Inl in_failed_transaction, s)
      | Lost \<Rightarrow> (Inl connection_lost, s))"

definition begin_transaction :: "bool \<Rightarrow> ('db, 'q) session \<Rightarrow> (string + reply) \<times> ('db, 'q) session" where
  "begin_transaction ro s =
     (case ss_status s of
        Idle \<Rightarrow> (Inr empty_reply, s\<lparr>ss_status := Open_tx ro (ss_committed s)\<rparr>)
      | Open_tx _ _ \<Rightarrow> (Inr empty_reply, s)
      | Aborted \<Rightarrow> (Inl in_failed_transaction, s)
      | Lost \<Rightarrow> (Inl connection_lost, s))"

definition end_transaction :: "bool \<Rightarrow> ('db, 'q) session \<Rightarrow> (string + reply) \<times> ('db, 'q) session" where
  "end_transaction commits s =
     (let s' = s\<lparr>ss_status := Idle, ss_cursor := None\<rparr> in
      case ss_status s of
        Open_tx _ work \<Rightarrow> (Inr empty_reply, if commits then s'\<lparr>ss_committed := work\<rparr> else s')
      | Lost \<Rightarrow> (Inl connection_lost, s)
      | _ \<Rightarrow> (Inr empty_reply, s'))"

fun run_command ::
  "('db, 'q) pg_server \<Rightarrow> 'q pg_command \<Rightarrow> ('db, 'q) session \<Rightarrow> (string + reply) \<times> ('db, 'q) session" where
  "run_command srv Pg_begin s = begin_transaction False s"
| "run_command srv Pg_commit s = end_transaction True s"
| "run_command srv Pg_rollback s = end_transaction False s"
| "run_command srv (Pg_declare q) s =
     run_statement (\<lambda>db. Inr (empty_reply, db)) (s\<lparr>ss_cursor := Some q\<rparr>)"
| "run_command srv (Pg_other q) s = run_statement (pg_run srv q) s"

fun run_commands ::
  "('db, 'q) pg_server \<Rightarrow> 'q pg_command list \<Rightarrow> reply \<Rightarrow> ('db, 'q) session \<Rightarrow> (string + reply) \<times> ('db, 'q) session" where
  "run_commands srv [] r s = (Inr r, s)"
| "run_commands srv (c # cs) r s =
     (case run_command srv c s of (Inl e, s') \<Rightarrow> (Inl e, s') | (Inr r', s') \<Rightarrow> run_commands srv cs r' s')"

definition fetch_rows :: "int \<Rightarrow> reply \<Rightarrow> reply" where
  "fetch_rows n r = r\<lparr>rp_rows := take (nat n) (rp_rows r)\<rparr>"

fun perform ::
  "('db, 'q) pg_server \<Rightarrow> worker_query \<Rightarrow> ('db, 'q) session \<Rightarrow> (string + reply) \<times> ('db, 'q) session" where
  "perform srv Begin_tx s = begin_transaction False s"
| "perform srv Begin_read_only s = begin_transaction True s"
| "perform srv Rollback_tx s = end_transaction False s"
| "perform srv (Text t) s =
     (case pg_parse srv t of
        None \<Rightarrow> run_statement (\<lambda>_. Inl syntax_error) s
      | Some cs \<Rightarrow> run_commands srv cs empty_reply s)"
| "perform srv (Fetch_forward n) s =
     run_statement (\<lambda>db. case ss_cursor s of
         None \<Rightarrow> Inl ''34000''
       | Some q \<Rightarrow> (case pg_run srv q db of Inl e \<Rightarrow> Inl e | Inr (r, db') \<Rightarrow> Inr (fetch_rows n r, db'))) s"
| "perform srv q s = run_statement (pg_own srv q) s"

datatype fault = Delivered | Lost_unsent | Lost_answer

definition send ::
  "('db, 'q) pg_server \<Rightarrow> (nat \<Rightarrow> fault) \<Rightarrow> worker_query \<Rightarrow> (('db, 'q) session, string, reply) prog" where
  "send srv faults q s =
     (let s1 = s\<lparr>ss_sent := ss_sent s @ [q]\<rparr> in
      case faults (length (ss_sent s)) of
        Delivered \<Rightarrow> perform srv q s1
      | Lost_unsent \<Rightarrow> (Inl connection_lost, s1\<lparr>ss_status := Lost\<rparr>)
      | Lost_answer \<Rightarrow> (Inl connection_lost, (snd (perform srv q s1))\<lparr>ss_status := Lost\<rparr>))"

section \<open>The preview of a mutation\<close>

record mutation_input =
  mi_execution_id :: jstring
  mi_execution_key :: jstring
  mi_actor :: jstring
  mi_session :: jstring
  mi_reason :: jstring
  mi_sql :: jstring
  mi_max_changes :: "int option"

record mutation_preview =
  mp_affected :: int
  mp_changes :: "driver_value list"
  mp_truncated :: bool

definition max_changes :: "int option \<Rightarrow> int" where
  "max_changes n = min (max (case n of None \<Rightarrow> 100 | Some k \<Rightarrow> k) 1) 500"

text \<open>What is sent between BEGIN and the statement.\<close>

definition preamble :: "(bytes \<Rightarrow> jstring) \<Rightarrow> mutation_input \<Rightarrow> worker_query list" where
  "preamble sha256 i =
     [Statement_timeout, Lock_timeout, Set_config ''ops.execution_id'' (mi_execution_id i),
      Set_config ''ops.actor_user_id'' (mi_actor i), Set_config ''ops.actor_session_id'' (mi_session i),
      Set_config ''ops.statement_index'' (u ''0''),
      Begin_dml (mi_execution_id i) (mi_execution_key i) (mi_reason i)
        (sql_fingerprint sha256 (strip_statement (mi_sql i)))]"

definition preview_of :: "int \<Rightarrow> reply \<Rightarrow> reply \<Rightarrow> (('db, 'q) session, string, mutation_preview) prog" where
  "preview_of limit mutation journal =
     (let changes = take (nat limit) (rp_rows journal);
          affected = (case rp_count mutation of Some n \<Rightarrow> n | None \<Rightarrow> int (length changes)) in
      if affected > 0 \<and> changes = [] then throw ''ROW_JOURNAL_MISSING''
      else ret \<lparr> mp_affected = affected, mp_changes = changes,
                 mp_truncated = (int (length (rp_rows journal)) > limit) \<rparr>)"

text \<open>The text is run by the \<open>try\<close> block, and \<open>ss_open\<close> is the variable \<open>transactionOpen\<close>.\<close>

definition preview_block ::
  "('db, 'q) pg_server \<Rightarrow> (nat \<Rightarrow> fault) \<Rightarrow> (bytes \<Rightarrow> jstring) \<Rightarrow> mutation_input
     \<Rightarrow> (('db, 'q) session, string, mutation_preview) prog" where
  "preview_block srv faults sha256 i =
     then_prog (send srv faults Begin_tx)
     (then_prog (modify (\<lambda>s. s\<lparr>ss_open := True\<rparr>))
     (then_prog (for_each (preamble sha256 i) (send srv faults))
     (bind_prog (send srv faults (Text (strip_statement (mi_sql i)))) (\<lambda>mutation.
      bind_prog (send srv faults (Select_journal (mi_execution_id i) (max_changes (mi_max_changes i) + 1))) (\<lambda>journal.
      then_prog (send srv faults Rollback_tx)
     (then_prog (modify (\<lambda>s. s\<lparr>ss_open := False\<rparr>))
      (preview_of (max_changes (mi_max_changes i)) mutation journal)))))))"

definition ignore_error :: "('s, 'e, 'a) prog \<Rightarrow> ('s, 'e, unit) prog" where
  "ignore_error m = (\<lambda>s. case m s of (_, s') \<Rightarrow> (Inr (), s'))"

definition preview_mutation ::
  "('db, 'q) pg_server \<Rightarrow> (jstring \<Rightarrow> ast list option) \<Rightarrow> (nat \<Rightarrow> fault) \<Rightarrow> (bytes \<Rightarrow> jstring) \<Rightarrow> mutation_input
     \<Rightarrow> (('db, 'q) session, string, mutation_preview) prog" where
  "preview_mutation srv parse faults sha256 i =
     (if classify_mutation_sql parse (mi_sql i) = SQL_DML_REQUIRED then throw ''SQL_DML_REQUIRED''
      else then_prog (modify (\<lambda>s. s\<lparr>ss_open := False\<rparr>))
        (catch_prog (preview_block srv faults sha256 i) (\<lambda>_.
           bind_prog (gets ss_open) (\<lambda>transaction_open.
           then_prog (when_prog transaction_open (ignore_error (send srv faults Rollback_tx)))
           (throw ''SQL_MUTATION_PREVIEW_FAILED'')))))"

section \<open>Reading\<close>

definition max_rows :: "int option \<Rightarrow> int" where
  "max_rows n = min (max (case n of None \<Rightarrow> 500 | Some k \<Rightarrow> k) 1) 500"

definition max_result_bytes :: "int option \<Rightarrow> int" where
  "max_result_bytes n =
     min (max (case n of None \<Rightarrow> 10 * 1024 * 1024 | Some k \<Rightarrow> k) 2) (10 * 1024 * 1024)"

definition declare_text :: "jstring \<Rightarrow> jstring" where
  "declare_text statement = u ''DECLARE ops_read_cursor NO SCROLL CURSOR FOR '' @ statement"

definition read_block ::
  "('db, 'q) pg_server \<Rightarrow> (nat \<Rightarrow> fault) \<Rightarrow> (int \<Rightarrow> jstring) \<Rightarrow> int \<Rightarrow> int \<Rightarrow> jstring
     \<Rightarrow> (('db, 'q) session, string, bounded_rows) prog" where
  "read_block srv faults to_iso rows_limit bytes_limit statement =
     then_prog (for_each [Statement_timeout, Lock_timeout, Text (declare_text statement)] (send srv faults))
     (bind_prog (send srv faults (Fetch_forward (rows_limit + 1))) (\<lambda>r.
      then_prog (for_each [Close_cursor, Rollback_tx] (send srv faults))
      (case encode_bounded_rows to_iso (rp_objects r) bytes_limit (take (nat rows_limit) (rp_rows r)) of
         Inl e \<Rightarrow> throw e
       | Inr b \<Rightarrow> ret (b\<lparr>br_truncated := br_truncated b \<or> int (length (rp_rows r)) > rows_limit\<rparr>))))"

definition execute_read_only ::
  "('db, 'q) pg_server \<Rightarrow> (jstring \<Rightarrow> ast list option) \<Rightarrow> (nat \<Rightarrow> fault) \<Rightarrow> (int \<Rightarrow> jstring)
     \<Rightarrow> int option \<Rightarrow> int option \<Rightarrow> jstring \<Rightarrow> (('db, 'q) session, string, bounded_rows) prog" where
  "execute_read_only srv parse faults to_iso rows_limit bytes_limit sql =
     (if classify_read_only_sql parse sql = SQL_READ_ONLY_REQUIRED then throw ''SQL_READ_ONLY_REQUIRED''
      else then_prog (send srv faults Begin_read_only)
        (catch_prog
          (read_block srv faults to_iso (max_rows rows_limit) (max_result_bytes bytes_limit) (strip_statement sql))
          (\<lambda>e. then_prog (send srv faults Rollback_tx) (throw e))))"

text \<open>The previewers take a connection of the pool, which may fail, and give it back afterwards.\<close>

definition with_connection :: "string option \<Rightarrow> ('s, string, 'a) prog \<Rightarrow> ('s, string, 'a) prog" where
  "with_connection failure m = (case failure of Some e \<Rightarrow> throw e | None \<Rightarrow> m)"

definition read_previewer ::
  "('db, 'q) pg_server \<Rightarrow> (jstring \<Rightarrow> ast list option) \<Rightarrow> (nat \<Rightarrow> fault) \<Rightarrow> (int \<Rightarrow> jstring) \<Rightarrow> string option
     \<Rightarrow> jstring \<Rightarrow> int option \<Rightarrow> (('db, 'q) session, string, bounded_rows) prog" where
  "read_previewer srv parse faults to_iso failure sql rows_limit =
     with_connection failure (execute_read_only srv parse faults to_iso rows_limit None sql)"

definition mutation_previewer ::
  "('db, 'q) pg_server \<Rightarrow> (jstring \<Rightarrow> ast list option) \<Rightarrow> (nat \<Rightarrow> fault) \<Rightarrow> (bytes \<Rightarrow> jstring) \<Rightarrow> string option
     \<Rightarrow> mutation_input \<Rightarrow> (('db, 'q) session, string, mutation_preview) prog" where
  "mutation_previewer srv parse faults sha256 failure i =
     with_connection failure (preview_mutation srv parse faults sha256 i)"

section \<open>Identity of the connections\<close>

record pool_identity =
  pi_role :: jstring
  pi_database :: jstring
  pi_read_only :: "jstring option"

definition production_identity :: "jstring \<Rightarrow> pool_identity list \<Rightarrow> jstring \<Rightarrow> jstring \<Rightarrow> bool" where
  "production_identity read_only rows role database =
     (case rows of
        [] \<Rightarrow> False
      | i # _ \<Rightarrow> pi_role i = role \<and> pi_database i = database \<and> pi_read_only i = Some read_only)"

definition read_identity :: "pool_identity list \<Rightarrow> jstring \<Rightarrow> jstring \<Rightarrow> bool" where
  "read_identity = production_identity (u ''on'')"

definition mutation_identity :: "pool_identity list \<Rightarrow> jstring \<Rightarrow> jstring \<Rightarrow> bool" where
  "mutation_identity = production_identity (u ''off'')"

text \<open>\<open>parse_url\<close> gives the protocol and the parameter sslmode of a URL.\<close>

definition tls_protected :: "(jstring \<Rightarrow> (jstring \<times> jstring option) option) \<Rightarrow> jstring \<Rightarrow> bool" where
  "tls_protected parse_url url =
     (case parse_url url of
        None \<Rightarrow> False
      | Some (protocol, sslmode) \<Rightarrow>
          (protocol = u ''postgresql:'' \<or> protocol = u ''postgres:'')
          \<and> map_option lower sslmode = Some (u ''verify-full''))"

section \<open>A preview never commits\<close>

text \<open>In a transaction, or cut off; outside of one, or cut off. The flag is \<open>transactionOpen\<close>.\<close>

definition inside :: "'db \<Rightarrow> bool \<Rightarrow> ('db, 'q) session \<Rightarrow> bool" where
  "inside db flag s \<longleftrightarrow> ss_committed s = db \<and> ss_open s = flag \<and> ss_status s \<noteq> Idle"

definition outside :: "'db \<Rightarrow> bool \<Rightarrow> ('db, 'q) session \<Rightarrow> bool" where
  "outside db flag s \<longleftrightarrow> ss_committed s = db \<and> ss_open s = flag \<and> (ss_status s = Idle \<or> ss_status s = Lost)"

lemma triple_either: "triple P m (\<lambda>_ s. snd_ok s) (\<lambda>_ s. snd_ok s)" if "\<And>s. P s \<Longrightarrow> snd_ok (snd (m s))" for snd_ok
  using that by (force simp: triple_def split: prod.splits sum.splits)

lemma perform_begin:
  "outside db flag s \<Longrightarrow> case perform srv (if ro then Begin_read_only else Begin_tx) s of
     (Inr _, s') \<Rightarrow> inside db flag s' | (Inl _, s') \<Rightarrow> outside db flag s'"
  by (auto simp: outside_def inside_def begin_transaction_def)

lemma send_begin:
  "triple (outside db flag) (send srv faults (if ro then Begin_read_only else Begin_tx))
     (\<lambda>_. inside db flag) (\<lambda>_. outside db flag)"
proof (rule tripleI)
  fix s :: "('a, 'b) session" assume o: "outside db flag s"
  define q where "q = (if ro then Begin_read_only else Begin_tx)"
  define s1 where "s1 = s\<lparr>ss_sent := ss_sent s @ [q]\<rparr>"
  have "outside db flag s1" using o by (simp add: outside_def s1_def)
  from perform_begin [OF this, of srv ro] show "case send srv faults q s of
      (Inr _, s') \<Rightarrow> inside db flag s' | (Inl _, s') \<Rightarrow> outside db flag s'"
    using o unfolding q_def [symmetric] send_def Let_def s1_def [symmetric]
    by (auto split: fault.splits prod.splits sum.splits simp: outside_def inside_def s1_def)
qed

lemma send_rollback:
  "triple (inside db flag) (send srv faults Rollback_tx) (\<lambda>_. outside db flag) (\<lambda>_. outside db flag)"
  by (rule triple_either)
     (auto simp: send_def inside_def outside_def end_transaction_def Let_def split: fault.splits tx_status.splits)

text \<open>Statements that neither begin nor end a transaction.\<close>

definition working :: "('db, 'q) pg_server \<Rightarrow> worker_query \<Rightarrow> bool" where
  "working srv q \<longleftrightarrow>
     (case q of
        Begin_tx \<Rightarrow> False | Begin_read_only \<Rightarrow> False | Rollback_tx \<Rightarrow> False
      | Text t \<Rightarrow> (case pg_parse srv t of None \<Rightarrow> True
          | Some cs \<Rightarrow> list_all (\<lambda>c. case c of Pg_declare _ \<Rightarrow> True | Pg_other _ \<Rightarrow> True | _ \<Rightarrow> False) cs)
      | _ \<Rightarrow> True)"

lemma run_statement_inside: "inside db flag s \<Longrightarrow> inside db flag (snd (run_statement f s))"
  by (auto simp: run_statement_def inside_def split: tx_status.splits sum.splits)

lemma inside_cursor [simp]: "inside db flag (s\<lparr>ss_cursor := c\<rparr>) = inside db flag s"
  by (simp add: inside_def)

lemma run_commands_inside:
  "list_all (\<lambda>c. case c of Pg_declare _ \<Rightarrow> True | Pg_other _ \<Rightarrow> True | _ \<Rightarrow> False) cs \<Longrightarrow> inside db flag s \<Longrightarrow>
     inside db flag (snd (run_commands srv cs r s))"
proof (induction cs arbitrary: r s)
  case (Cons c cs)
  have "inside db flag (snd (run_command srv c s))"
    using Cons.prems by (cases c) (auto intro: run_statement_inside)
  with Cons show ?case by (auto split: prod.splits sum.splits)
qed simp

lemma perform_inside: "working srv q \<Longrightarrow> inside db flag s \<Longrightarrow> inside db flag (snd (perform srv q s))"
  by (cases q) (auto simp: working_def intro: run_statement_inside run_commands_inside split: option.splits)

lemma send_working:
  assumes "working srv q"
  shows "triple (inside db flag) (send srv faults q) (\<lambda>_. inside db flag) (\<lambda>_. inside db flag)"
proof (rule triple_either)
  fix s :: "('a, 'b) session" assume i: "inside db flag s"
  then have "inside db flag (s\<lparr>ss_sent := ss_sent s @ [q]\<rparr>)" by (simp add: inside_def)
  from perform_inside [OF assms this] i show "inside db flag (snd (send srv faults q s))"
    by (auto simp: send_def Let_def inside_def split: fault.splits)
qed

lemma send_all_working:
  "list_all (working srv) qs \<Longrightarrow>
     triple (inside db flag) (for_each qs (send srv faults)) (\<lambda>_. inside db flag) (\<lambda>_. inside db flag)"
  by (rule triple_for_each) (auto simp: list_all_iff intro: send_working)

lemma send_all_keeps_either:
  assumes "list_all (working srv) qs"
  shows "triple (inside db flag) (for_each (qs @ [Rollback_tx]) (send srv faults))
    (\<lambda>_. outside db flag) (\<lambda>_ s. inside db flag s \<or> outside db flag s)"
  using assms
proof (induction qs)
  case Nil
  have "triple (inside db flag) (send srv faults Rollback_tx) (\<lambda>_. outside db flag)
      (\<lambda>_ s. inside db flag s \<or> outside db flag s)"
    by (rule triple_weaken [OF send_rollback]) auto
  then show ?case by (auto intro!: triple_then triple_ret)
next
  case (Cons q qs)
  then have "triple (inside db flag) (send srv faults q) (\<lambda>_. inside db flag)
      (\<lambda>_ s. inside db flag s \<or> outside db flag s)"
    by (intro triple_weaken [OF send_working]) auto
  with Cons show ?case by (auto intro: triple_then)
qed

lemma send_rollback_anywhere:
  "triple (\<lambda>s. inside db flag s \<or> outside db flag s) (send srv faults Rollback_tx)
     (\<lambda>_. outside db flag) (\<lambda>_. outside db flag)"
  by (rule triple_either)
     (auto simp: send_def inside_def outside_def end_transaction_def Let_def split: fault.splits tx_status.splits)

lemma triple_ignore: "triple P m (\<lambda>_. Q) (\<lambda>_. Q) \<Longrightarrow> triple P (ignore_error m) (\<lambda>_. Q) E"
  by (force simp: triple_def ignore_error_def split: prod.splits sum.splits)

lemma preamble_working: "list_all (working srv) (preamble sha256 i)"
  by (simp add: preamble_def working_def)

text \<open>What the parsers agree on: the text that is sent is read as one statement that is no transaction command.\<close>

definition one_statement :: "('db, 'q) pg_server \<Rightarrow> jstring \<Rightarrow> bool" where
  "one_statement srv t \<longleftrightarrow>
     (case pg_parse srv t of Some [Pg_other _] \<Rightarrow> True | Some [Pg_declare _] \<Rightarrow> True | None \<Rightarrow> True | _ \<Rightarrow> False)"

lemma one_statement_working: "one_statement srv t \<Longrightarrow> working srv (Text t)"
  by (auto simp: one_statement_def working_def split: option.splits list.splits pg_command.splits)

lemma preview_block_triple:
  assumes "one_statement srv (strip_statement (mi_sql i))"
  shows "triple (outside db False) (preview_block srv faults sha256 i) (\<lambda>_. outside db False)
    (\<lambda>_ s. if ss_open s then inside db True s \<or> outside db True s else outside db False s)"
proof -
  let ?E = "\<lambda>_ s. if ss_open s then inside db True s \<or> outside db True s else outside db False s"
  have start: "triple (outside db False) (send srv faults Begin_tx) (\<lambda>_. inside db False) ?E"
    by (rule triple_weaken [OF send_begin [of db False srv faults False, simplified]]) (auto simp: outside_def)
  have work: "triple (inside db True) m (\<lambda>_. inside db True) ?E"
    if "triple (inside db True) m (\<lambda>_. inside db True) (\<lambda>_. inside db True)"
    for m :: "(('a, 'b) session, string, 'c) prog"
    using that by (rule triple_weaken) (auto simp: inside_def)
  have rollback: "triple (inside db True) (send srv faults Rollback_tx) (\<lambda>_. outside db True) ?E"
    using send_rollback by (rule triple_weaken) (auto simp: outside_def)
  have answer: "triple (outside db False) (preview_of n r j) (\<lambda>_. outside db False) ?E" for n r j
    by (auto simp: preview_of_def Let_def outside_def intro!: triple_ret triple_throw)
  have opened: "triple (inside db False) (modify (\<lambda>s. s\<lparr>ss_open := True\<rparr>)) (\<lambda>_. inside db True) ?E"
    "triple (outside db True) (modify (\<lambda>s. s\<lparr>ss_open := False\<rparr>)) (\<lambda>_. outside db False) ?E"
    by (auto simp: inside_def outside_def intro!: triple_modify)
  have sent: "triple (inside db True) (send srv faults q) (\<lambda>_. inside db True) ?E" if "working srv q" for q
    by (rule work [OF send_working [OF that]])
  have journal: "working srv (Select_journal a b)" for a b by (simp add: working_def)
  have ending: "triple (inside db True) (then_prog (send srv faults Rollback_tx)
      (then_prog (modify (\<lambda>s. s\<lparr>ss_open := False\<rparr>)) (preview_of n r j))) (\<lambda>_. outside db False) ?E" for n r j
    by (rule triple_then [OF rollback triple_then [OF opened(2) answer]])
  show ?thesis
    unfolding preview_block_def
    by (rule triple_then [OF start triple_then [OF opened(1) triple_then [OF
          work [OF send_all_working [OF preamble_working]]
          triple_bind [OF sent [OF one_statement_working [OF assms]] triple_bind [OF sent [OF journal] ending]]]]])
qed

text \<open>
  C7. A preview of a mutation never changes the committed database and never leaves a connection in a
  transaction: whatever the statement does in it, whichever query fails at the server and wherever the
  connection breaks, the database is as before, and the connection is outside of a transaction or
  lost. The hypothesis is that PostgreSQL reads a text that the worker accepted as one data statement,
  or refuses it.
\<close>

theorem preview_leaves_database:
  assumes "preview_mutation srv parse faults sha256 i s = (result, s')" and "ss_status s = Idle"
    and "classify_mutation_sql parse (mi_sql i) \<noteq> SQL_DML_REQUIRED \<Longrightarrow> one_statement srv (strip_statement (mi_sql i))"
  shows "ss_committed s' = ss_committed s \<and> (ss_status s' = Idle \<or> ss_status s' = Lost)"
proof (cases "classify_mutation_sql parse (mi_sql i) = SQL_DML_REQUIRED")
  case True
  then show ?thesis using assms by (simp add: preview_mutation_def throw_def)
next
  case False
  define db where "db = ss_committed s"
  let ?E = "\<lambda>_ s. outside db True s \<or> outside db False s"
  have handler: "triple (\<lambda>s. (if ss_open s then inside db True s \<or> outside db True s else outside db False s) \<and> ss_open s = b)
      (then_prog (when_prog b (ignore_error (send srv faults Rollback_tx))) (throw e)) (\<lambda>_. outside db False) ?E" for b e
  proof (cases b)
    case True
    have "triple (\<lambda>s. inside db True s \<or> outside db True s)
        (then_prog (ignore_error (send srv faults Rollback_tx)) (throw e)) (\<lambda>_. outside db False) ?E"
      by (rule triple_then [where R = "outside db True"])
         (rule triple_ignore [OF send_rollback_anywhere], auto intro: triple_throw)
    then show ?thesis using True by (simp add: when_prog_def) (rule triple_weaken, assumption, auto)
  next
    case False
    have "triple (outside db False) (then_prog (ret ()) (throw e)) (\<lambda>_. outside db False) ?E"
      by (intro triple_then triple_ret triple_throw) auto
    then show ?thesis using False by (simp add: when_prog_def) (rule triple_weaken, assumption, auto)
  qed
  have "triple (\<lambda>s. ss_committed s = db \<and> ss_status s = Idle) (preview_mutation srv parse faults sha256 i)
      (\<lambda>_. outside db False) ?E"
    unfolding preview_mutation_def if_not_P [OF False]
  proof (rule triple_then [where R = "outside db False"])
    show "triple (\<lambda>s. ss_committed s = db \<and> ss_status s = Idle) (modify (\<lambda>s. s\<lparr>ss_open := False\<rparr>))
        (\<lambda>_. outside db False) ?E"
      by (rule triple_modify) (simp add: outside_def)
    show "triple (outside db False) (catch_prog (preview_block srv faults sha256 i) (\<lambda>_.
        bind_prog (gets ss_open) (\<lambda>b. then_prog (when_prog b (ignore_error (send srv faults Rollback_tx)))
          (throw ''SQL_MUTATION_PREVIEW_FAILED'')))) (\<lambda>_. outside db False) ?E"
      by (rule triple_catch [OF preview_block_triple [OF assms(3) [OF False]]],
          rule triple_bind [OF triple_gets handler]) simp
  qed
  note t = this
  have start: "ss_committed s = db \<and> ss_status s = Idle" using assms(2) by (simp add: db_def)
  have "outside db True s' \<or> outside db False s'"
  proof (cases result)
    case (Inl e)
    show ?thesis by (rule triple_throws [OF t start]) (simp add: assms(1) Inl)
  next
    case (Inr x)
    have "outside db False s'" by (rule triple_returns [OF t start]) (simp add: assms(1) Inr)
    then show ?thesis ..
  qed
  then show ?thesis by (auto simp: outside_def db_def)
qed

text \<open>
  C24. A read changes nothing and answers within its limits: whatever the statement does and whichever
  query or connection fails, the committed database is as before and the connection is outside of a
  transaction or lost, and an answer has at most the rows that were asked for, at most 500, in at most
  ten mebibytes of JSON.
\<close>

theorem read_leaves_database:
  assumes "execute_read_only srv parse faults to_iso rows_limit bytes_limit sql s = (result, s')"
    and "ss_status s = Idle"
    and "classify_read_only_sql parse sql \<noteq> SQL_READ_ONLY_REQUIRED \<Longrightarrow>
      one_statement srv (declare_text (strip_statement sql))"
  shows "ss_committed s' = ss_committed s \<and> (ss_status s' = Idle \<or> ss_status s' = Lost) \<and>
    (\<forall>b. result = Inr b \<longrightarrow> int (length (br_rows b)) \<le> max_rows rows_limit \<and>
       br_bytes b = array_bytes (br_rows b) \<and> br_bytes b \<le> max_result_bytes bytes_limit)"
proof (cases "classify_read_only_sql parse sql = SQL_READ_ONLY_REQUIRED")
  case True
  then show ?thesis using assms by (auto simp: execute_read_only_def throw_def)
next
  case False
  define db flag where "db = ss_committed s" and "flag = ss_open s"
  let ?in = "inside db flag" and ?out = "outside db flag"
  let ?ok = "\<lambda>b. int (length (br_rows b)) \<le> max_rows rows_limit \<and>
    br_bytes b = array_bytes (br_rows b) \<and> br_bytes b \<le> max_result_bytes bytes_limit"
  let ?E = "\<lambda>_ s. ?in s \<or> ?out s"
  have work: "triple ?in m (\<lambda>_. ?in) ?E" if "triple ?in m (\<lambda>_. ?in) (\<lambda>_. ?in)"
    for m :: "(('a, 'b) session, string, 'c) prog"
    using that by (rule triple_weaken) auto
  have finish: "triple ?in (for_each [Close_cursor, Rollback_tx] (send srv faults)) (\<lambda>_. ?out) ?E"
    using send_all_keeps_either [of srv "[Close_cursor]"] by (simp add: working_def)
  have answer: "triple ?out (case encode_bounded_rows to_iso (rp_objects r) (max_result_bytes bytes_limit)
        (take (nat (max_rows rows_limit)) (rp_rows r)) of Inl e \<Rightarrow> throw e
      | Inr b \<Rightarrow> ret (b\<lparr>br_truncated := br_truncated b \<or> int (length (rp_rows r)) > max_rows rows_limit\<rparr>))
      (\<lambda>b s. ?ok b \<and> ?out s) ?E" for r
  proof (cases "encode_bounded_rows to_iso (rp_objects r) (max_result_bytes bytes_limit)
      (take (nat (max_rows rows_limit)) (rp_rows r))")
    case (Inl e)
    then show ?thesis by (auto intro: triple_throw)
  next
    case (Inr b)
    have "0 \<le> max_rows rows_limit" by (simp add: max_rows_def)
    then have "?ok b" using encoded_rows_bounded [OF Inr] by (auto simp: is_bounded_def)
    with Inr show ?thesis by (auto intro!: triple_ret)
  qed
  have block: "triple ?in (read_block srv faults to_iso (max_rows rows_limit) (max_result_bytes bytes_limit) (strip_statement sql))
      (\<lambda>b s. ?ok b \<and> ?out s) ?E"
    unfolding read_block_def
  proof (rule triple_then [where R = ?in])
    have "list_all (working srv) [Statement_timeout, Lock_timeout, Text (declare_text (strip_statement sql))]"
      using one_statement_working [OF assms(3) [OF False]] by (simp add: working_def)
    then show "triple ?in (for_each [Statement_timeout, Lock_timeout, Text (declare_text (strip_statement sql))]
        (send srv faults)) (\<lambda>_. ?in) ?E"
      by (rule work [OF send_all_working])
  qed (intro triple_bind [where R = "\<lambda>_. ?in"] triple_then [where R = ?out] finish answer work [OF send_working],
       simp add: working_def)
  have "triple ?out (execute_read_only srv parse faults to_iso rows_limit bytes_limit sql) (\<lambda>b s. ?ok b \<and> ?out s) (\<lambda>_. ?out)"
    unfolding execute_read_only_def if_not_P [OF False]
    by (rule triple_then [OF send_begin [where ro = True, simplified]], rule triple_catch [OF block],
        rule triple_then [OF send_rollback_anywhere]) (rule triple_throw)
  note t = this
  have start: "?out s" using assms(2) by (simp add: outside_def db_def flag_def)
  show ?thesis
  proof (cases result)
    case (Inl e)
    have "?out s'" by (rule triple_throws [OF t start]) (simp add: assms(1) Inl)
    with Inl show ?thesis by (simp add: outside_def db_def)
  next
    case (Inr b)
    have "?ok b \<and> ?out s'" by (rule triple_returns [OF t start]) (simp add: assms(1) Inr)
    with Inr show ?thesis by (simp add: outside_def db_def)
  qed
qed

section \<open>A preview answers what the statement would do\<close>

fun own_steps :: "('db, 'q) pg_server \<Rightarrow> worker_query list \<Rightarrow> 'db \<Rightarrow> 'db option" where
  "own_steps srv [] db = Some db"
| "own_steps srv (q # qs) db = (case pg_own srv q db of Inl _ \<Rightarrow> None | Inr (_, db') \<Rightarrow> own_steps srv qs db')"

text \<open>The reference: the statement run on the database, its count and the journal it leaves.\<close>

definition mutation_effect ::
  "('db, 'q) pg_server \<Rightarrow> (bytes \<Rightarrow> jstring) \<Rightarrow> mutation_input \<Rightarrow> 'q \<Rightarrow> 'db \<Rightarrow> (reply \<times> reply) option" where
  "mutation_effect srv sha256 i q db =
     (case own_steps srv (preamble sha256 i) db of
        None \<Rightarrow> None
      | Some db1 \<Rightarrow> (case pg_run srv q db1 of
          Inl _ \<Rightarrow> None
        | Inr (mutation, db2) \<Rightarrow>
            (case pg_own srv (Select_journal (mi_execution_id i) (max_changes (mi_max_changes i) + 1)) db2 of
               Inl _ \<Rightarrow> None | Inr (journal, _) \<Rightarrow> Some (mutation, journal))))"

definition reported :: "mutation_input \<Rightarrow> (reply \<times> reply) option \<Rightarrow> string + mutation_preview" where
  "reported i effect =
     (case effect of
        None \<Rightarrow> Inl ''SQL_MUTATION_PREVIEW_FAILED''
      | Some (mutation, journal) \<Rightarrow>
          (let n = max_changes (mi_max_changes i); changes = take (nat n) (rp_rows journal);
               affected = (case rp_count mutation of Some k \<Rightarrow> k | None \<Rightarrow> int (length changes)) in
           if affected > 0 \<and> changes = [] then Inl ''SQL_MUTATION_PREVIEW_FAILED''
           else Inr \<lparr> mp_affected = affected, mp_changes = changes,
                      mp_truncated = (int (length (rp_rows journal)) > n) \<rparr>))"

definition own_query :: "worker_query \<Rightarrow> bool" where
  "own_query q \<longleftrightarrow>
     (case q of Begin_tx \<Rightarrow> False | Begin_read_only \<Rightarrow> False | Rollback_tx \<Rightarrow> False | Text _ \<Rightarrow> False
      | Fetch_forward _ \<Rightarrow> False | _ \<Rightarrow> True)"

abbreviation sends :: "('db, 'q) pg_server \<Rightarrow> worker_query \<Rightarrow> (('db, 'q) session, string, reply) prog" where
  "sends srv \<equiv> send srv (\<lambda>_. Delivered)"

lemma send_own:
  assumes "own_query q" and "ss_status s = Open_tx False db"
  shows "sends srv q s = (let s1 = s\<lparr>ss_sent := ss_sent s @ [q]\<rparr> in
    case pg_own srv q db of Inl e \<Rightarrow> (Inl e, s1\<lparr>ss_status := Aborted\<rparr>)
    | Inr (r, db') \<Rightarrow> (Inr r, s1\<lparr>ss_status := Open_tx False db'\<rparr>))"
proof -
  have "perform srv q t = run_statement (pg_own srv q) t" for t
    using assms(1) by (cases q) (simp_all add: own_query_def)
  then show ?thesis by (simp add: send_def run_statement_def assms(2) Let_def split: sum.splits prod.splits)
qed

lemma send_all_own:
  assumes "list_all own_query qs" and "ss_status s = Open_tx False db"
  shows "(case own_steps srv qs db of
      None \<Rightarrow> \<exists>e s'. for_each qs (sends srv) s = (Inl e, s')
    | Some db' \<Rightarrow> \<exists>s'. for_each qs (sends srv) s = (Inr (), s') \<and> ss_status s' = Open_tx False db')"
  using assms
proof (induction qs arbitrary: s db)
  case (Cons q qs)
  show ?case
  proof (cases "pg_own srv q db")
    case (Inl e)
    then show ?thesis using Cons.prems by (simp add: send_own Let_def then_prog_def bind_prog_def)
  next
    case (Inr x)
    obtain r db' where x: "x = (r, db')" by fastforce
    obtain s' where "sends srv q s = (Inr r, s')" "ss_status s' = Open_tx False db'"
      using Cons.prems Inr x by (simp add: send_own Let_def)
    then show ?thesis
      using Cons.IH [of s' db'] Cons.prems Inr x by (simp add: then_prog_def bind_prog_def split: option.splits)
  qed
qed (simp add: ret_def)

lemma preamble_own: "list_all own_query (preamble sha256 i)"
  by (simp add: preamble_def own_query_def)

lemma preview_block_answers:
  assumes "ss_status s = Idle" and "pg_parse srv (strip_statement (mi_sql i)) = Some [Pg_other q]"
  shows "case reported i (mutation_effect srv sha256 i q (ss_committed s)) of
      Inr p \<Rightarrow> \<exists>s'. preview_block srv (\<lambda>_. Delivered) sha256 i s = (Inr p, s')
    | Inl _ \<Rightarrow> \<exists>e s'. preview_block srv (\<lambda>_. Delivered) sha256 i s = (Inl e, s')"
proof -
  define s0 where "s0 = s\<lparr>ss_sent := ss_sent s @ [Begin_tx], ss_status := Open_tx False (ss_committed s), ss_open := True\<rparr>"
  have s0: "ss_status s0 = Open_tx False (ss_committed s)" by (simp add: s0_def)
  have start: "preview_block srv (\<lambda>_. Delivered) sha256 i s =
      then_prog (for_each (preamble sha256 i) (sends srv))
        (bind_prog (sends srv (Text (strip_statement (mi_sql i)))) (\<lambda>mutation.
         bind_prog (sends srv (Select_journal (mi_execution_id i) (max_changes (mi_max_changes i) + 1))) (\<lambda>journal.
         then_prog (sends srv Rollback_tx)
        (then_prog (modify (\<lambda>s. s\<lparr>ss_open := False\<rparr>))
         (preview_of (max_changes (mi_max_changes i)) mutation journal))))) s0"
    using assms(1)
    by (simp add: preview_block_def then_prog_def bind_prog_def send_def begin_transaction_def modify_def s0_def)
  note before = send_all_own [OF preamble_own [of sha256 i] s0, of srv]
  show ?thesis
  proof (cases "own_steps srv (preamble sha256 i) (ss_committed s)")
    case None
    with before start show ?thesis
      by (auto simp: mutation_effect_def reported_def then_prog_def bind_prog_def)
  next
    case (Some db1)
    then obtain s1 where s1: "for_each (preamble sha256 i) (sends srv) s0 = (Inr (), s1)"
        "ss_status s1 = Open_tx False db1"
      using before by auto
    let ?j = "Select_journal (mi_execution_id i) (max_changes (mi_max_changes i) + 1)"
    show ?thesis
    proof (cases "pg_run srv q db1")
      case (Inl e)
      then have "\<exists>s'. sends srv (Text (strip_statement (mi_sql i))) s1 = (Inl e, s')"
        using s1(2) assms(2) by (simp add: send_def run_statement_def)
      with Inl Some start s1(1) show ?thesis
        by (auto simp: mutation_effect_def reported_def then_prog_def bind_prog_def)
    next
      case (Inr x)
      obtain mutation db2 where x: "x = (mutation, db2)" by fastforce
      obtain s2 where s2: "sends srv (Text (strip_statement (mi_sql i))) s1 = (Inr mutation, s2)"
          "ss_status s2 = Open_tx False db2"
        using s1(2) assms(2) Inr x by (simp add: send_def run_statement_def)
      have j: "own_query ?j" by (simp add: own_query_def)
      show ?thesis
      proof (cases "pg_own srv ?j db2")
        case (Inl e)
        with Inr x Some start s1(1) s2 show ?thesis
          by (auto simp: mutation_effect_def reported_def then_prog_def bind_prog_def send_own [OF j s2(2)] Let_def)
      next
        case (Inr y)
        obtain journal db3 where y: "y = (journal, db3)" by fastforce
        obtain s3 where s3: "sends srv ?j s2 = (Inr journal, s3)" "ss_status s3 = Open_tx False db3"
          using send_own [OF j s2(2)] Inr y by (simp add: Let_def)
        obtain s4 where s4: "sends srv Rollback_tx s3 = (Inr empty_reply, s4)"
          using s3(2) by (simp add: send_def end_transaction_def Let_def)
        have "preview_block srv (\<lambda>_. Delivered) sha256 i s =
            preview_of (max_changes (mi_max_changes i)) mutation journal (s4\<lparr>ss_open := False\<rparr>)"
          using start s1(1) s2(1) s3(1) s4 by (simp add: then_prog_def bind_prog_def modify_def)
        with \<open>pg_run srv q db1 = Inr x\<close> x Inr y Some show ?thesis
          by (auto simp: mutation_effect_def reported_def preview_of_def Let_def throw_def ret_def)
      qed
    qed
  qed
qed

text \<open>
  C25. A preview answers what the statement would do: when no query fails by itself, the preview of a
  mutation equals running the statement on the current database and reporting the rows it affects and
  the beginning of the journal it leaves, within the limit of changes. It fails exactly when one of
  these steps fails, or rows were affected without a trace in the journal.
\<close>

theorem preview_is_faithful:
  assumes "ss_status s = Idle" and "classify_mutation_sql parse (mi_sql i) \<noteq> SQL_DML_REQUIRED"
    and "pg_parse srv (strip_statement (mi_sql i)) = Some [Pg_other q]"
  shows "fst (preview_mutation srv parse (\<lambda>_. Delivered) sha256 i s) =
    reported i (mutation_effect srv sha256 i q (ss_committed s))"
proof -
  define s0 where "s0 = s\<lparr>ss_open := False\<rparr>"
  define handler where "handler = (\<lambda>_ :: string. bind_prog (gets ss_open) (\<lambda>b. then_prog (when_prog b
      (ignore_error (sends srv Rollback_tx))) (throw ''SQL_MUTATION_PREVIEW_FAILED'' ::
        (('a, 'b) session, string, mutation_preview) prog)))"
  have fails: "fst (handler e t) = Inl ''SQL_MUTATION_PREVIEW_FAILED''" for e t
    by (auto simp: handler_def bind_prog_def then_prog_def gets_def when_prog_def ignore_error_def
        throw_def ret_def split: prod.splits)
  have run: "preview_mutation srv parse (\<lambda>_. Delivered) sha256 i s =
      (case preview_block srv (\<lambda>_. Delivered) sha256 i s0 of (Inl e, s') \<Rightarrow> handler e s' | (Inr x, s') \<Rightarrow> (Inr x, s'))"
    using assms(2) by (simp add: preview_mutation_def then_prog_def bind_prog_def modify_def catch_prog_def s0_def handler_def
        split: prod.splits sum.splits)
  have block: "case reported i (mutation_effect srv sha256 i q (ss_committed s)) of
      Inr p \<Rightarrow> \<exists>s'. preview_block srv (\<lambda>_. Delivered) sha256 i s0 = (Inr p, s')
    | Inl _ \<Rightarrow> \<exists>e s'. preview_block srv (\<lambda>_. Delivered) sha256 i s0 = (Inl e, s')"
    using preview_block_answers [of s0 srv i q sha256] assms(1,3) by (simp add: s0_def)
  show ?thesis
  proof (cases "reported i (mutation_effect srv sha256 i q (ss_committed s))")
    case (Inl e)
    then have "e = ''SQL_MUTATION_PREVIEW_FAILED''"
      by (auto simp: reported_def Let_def split: option.splits if_splits)
    with Inl block show ?thesis by (auto simp: run fails)
  next
    case (Inr p)
    with block show ?thesis by (auto simp: run)
  qed
qed

end
