(* ===== verification/WorkerServer.thy ===== *)
theory WorkerServer
  imports SqlExecution
begin

text \<open>
  The protocol of the SQL worker: commandHandler.ts and protocol/server.ts of apps/sql-worker/src, the
  schemas of packages/contracts/src/databaseExplorerSchemas.ts, authenticateCommand.ts on the JSON value
  that arrives, and the client of the API (apps/api/src/modules/sql/workerClient.ts).

  The HMAC of a JSON text, \<open>Date.parse\<close>, \<open>Buffer.from\<close> of a value that is no string, \<open>JSON.parse\<close>, the
  store of nonces and the workers themselves are arguments. A chunk of the stream is handled as one
  step. A schema of the library zod is the predicate that it documents: an object that is strict has no
  other members, and an optional member may be absent.
\<close>

section \<open>Schemas\<close>

type_synonym schema = "js \<Rightarrow> bool"

definition text_schema :: "nat \<Rightarrow> nat option \<Rightarrow> schema" where
  "text_schema low high v =
     (case v of Str s \<Rightarrow> low \<le> length s \<and> (case high of None \<Rightarrow> True | Some n \<Rightarrow> length s \<le> n) | _ \<Rightarrow> False)"

definition enum_schema :: "string list \<Rightarrow> schema" where
  "enum_schema xs v = (v \<in> Str ` u ` set xs)"

definition flag_schema :: schema where
  "flag_schema v = (case v of Bool _ \<Rightarrow> True | _ \<Rightarrow> False)"

definition count_schema :: schema where
  "count_schema v = (case v of Num n \<Rightarrow> 0 \<le> n \<and> is_safe_integer n | _ \<Rightarrow> False)"

definition nullable :: "schema \<Rightarrow> schema" where
  "nullable p v = (v = Null \<or> p v)"

definition list_schema :: "schema \<Rightarrow> schema" where
  "list_schema p v = (case v of Arr vs \<Rightarrow> list_all p vs | _ \<Rightarrow> False)"

definition object_schema :: "(string \<times> schema) list \<Rightarrow> (string \<times> schema) list \<Rightarrow> schema" where
  "object_schema required optional v =
     (case v of
        Obj m \<Rightarrow> list_all (\<lambda>(k, _). k \<in> u ` fst ` set (required @ optional)) m
          \<and> list_all (\<lambda>(k, p). p (member m k)) required
          \<and> list_all (\<lambda>(k, p). member m k = Undefined \<or> p (member m k)) optional
      | _ \<Rightarrow> False)"

definition identifier_schema :: schema where "identifier_schema = text_schema 1 (Some 128)"
definition cursor_schema :: schema where "cursor_schema = text_schema 1 (Some 4096)"
definition target_ids :: "string list" where "target_ids = [''edutrack_production'', ''ops'']"
definition target_id_schema :: schema where "target_id_schema = enum_schema target_ids"
definition page_size_schema :: schema where "page_size_schema v = (v \<in> {Num 25, Num 50, Num 100})"
definition pii_mode_schema :: schema where "pii_mode_schema = enum_schema [''masked'', ''revealed'']"

definition operator_schema :: schema where
  "operator_schema =
     enum_schema [''eq'', ''neq'', ''contains'', ''gt'', ''gte'', ''lt'', ''lte'', ''is_null'', ''is_not_null'']"

definition targets_payload_schema :: schema where
  "targets_payload_schema = object_schema [] []"

definition schema_payload_schema :: schema where
  "schema_payload_schema = object_schema [(''targetId'', target_id_schema)] []"

definition filter_schema :: schema where
  "filter_schema =
     object_schema [(''column'', identifier_schema), (''operator'', operator_schema)] [(''value'', text_schema 0 (Some 200))]"

definition filters_schema :: schema where
  "filters_schema v = (list_schema filter_schema v \<and> (case v of Arr vs \<Rightarrow> length vs \<le> 5 | _ \<Rightarrow> False))"

definition sort_schema :: schema where
  "sort_schema = object_schema [(''column'', identifier_schema), (''direction'', enum_schema [''asc'', ''desc''])] []"

definition rows_payload_schema :: schema where
  "rows_payload_schema =
     object_schema [(''targetId'', target_id_schema), (''schema'', identifier_schema), (''relation'', identifier_schema),
        (''pageSize'', page_size_schema), (''filters'', filters_schema), (''piiMode'', pii_mode_schema)]
       [(''cursor'', cursor_schema), (''sort'', sort_schema)]"

definition related_rows_payload_schema :: schema where
  "related_rows_payload_schema =
     object_schema [(''targetId'', target_id_schema), (''schema'', identifier_schema), (''relation'', identifier_schema),
        (''constraint'', identifier_schema), (''rowRef'', cursor_schema), (''pageSize'', page_size_schema),
        (''piiMode'', pii_mode_schema)]
       [(''cursor'', cursor_schema)]"

subsection \<open>Results\<close>

definition target_summary_schema :: schema where
  "target_summary_schema =
     object_schema [(''id'', target_id_schema), (''label'', text_schema 1 (Some 128)),
        (''status'', enum_schema [''available'', ''unavailable'', ''disabled'']), (''readOnly'', (\<lambda>v. v = Bool True))]
       [(''description'', text_schema 0 (Some 512)), (''unavailableReason'', text_schema 1 (Some 80))]"

definition targets_result_schema :: schema where
  "targets_result_schema v =
     (case v of
        Arr vs \<Rightarrow> list_all target_summary_schema vs \<and> length vs = length target_ids
          \<and> (\<lambda>k. Str (u k)) ` set target_ids
              = set (map (\<lambda>t. case t of Obj m \<Rightarrow> member m ''id'' | _ \<Rightarrow> Undefined) vs)
      | _ \<Rightarrow> False)"

definition column_schema :: schema where
  "column_schema =
     object_schema [(''name'', identifier_schema), (''dataType'', text_schema 1 (Some 256)), (''nullable'', flag_schema),
        (''hasDefault'', flag_schema), (''identity'', nullable (enum_schema [''always'', ''by_default''])),
        (''generated'', flag_schema), (''classification'', enum_schema [''public'', ''internal'', ''pii'', ''blocked'']),
        (''selectable'', flag_schema), (''filterOperators'', list_schema operator_schema)] []"

definition referenced_schema :: schema where
  "referenced_schema =
     object_schema [(''schema'', identifier_schema), (''name'', identifier_schema), (''columns'', list_schema identifier_schema)] []"

definition constraint_schema :: schema where
  "constraint_schema =
     object_schema [(''name'', identifier_schema), (''kind'', enum_schema [''primary_key'', ''unique'', ''foreign_key'', ''check'']),
        (''columns'', list_schema identifier_schema), (''referencedRelation'', nullable referenced_schema),
        (''deferrable'', flag_schema), (''initiallyDeferred'', flag_schema)] []"

definition index_schema :: schema where
  "index_schema =
     object_schema [(''name'', identifier_schema), (''method'', text_schema 1 (Some 128)), (''columns'', list_schema identifier_schema),
        (''unique'', flag_schema), (''primary'', flag_schema), (''valid'', flag_schema), (''hasExpressions'', flag_schema),
        (''partial'', flag_schema)] []"

definition trigger_schema :: schema where
  "trigger_schema =
     object_schema [(''name'', identifier_schema), (''timing'', enum_schema [''before'', ''after'', ''instead_of'']),
        (''events'', list_schema (enum_schema [''insert'', ''update'', ''delete'', ''truncate''])),
        (''enabled'', enum_schema [''enabled'', ''disabled'', ''replica'', ''always''])] []"

definition policy_schema :: schema where
  "policy_schema =
     object_schema [(''name'', identifier_schema), (''command'', enum_schema [''all'', ''select'', ''insert'', ''update'', ''delete'']),
        (''permissive'', flag_schema), (''roles'', list_schema (text_schema 1 (Some 128)))] []"

definition edge_end_schema :: schema where
  "edge_end_schema =
     object_schema [(''schema'', identifier_schema), (''relation'', identifier_schema), (''columns'', list_schema identifier_schema)] []"

definition edge_schema :: schema where
  "edge_schema = object_schema [(''constraint'', identifier_schema), (''from'', edge_end_schema), (''to'', edge_end_schema)] []"

text \<open>A finite number that is not negative: of the texts of other numbers, those without a sign.\<close>

definition number_schema :: schema where
  "number_schema v = (case v of Num n \<Rightarrow> 0 \<le> n | Real t \<Rightarrow> \<not> starts_with ''-'' t | _ \<Rightarrow> False)"

definition relation_schema :: schema where
  "relation_schema =
     object_schema [(''name'', identifier_schema),
        (''kind'', enum_schema [''table'', ''partitioned_table'', ''view'', ''materialized_view'', ''foreign_table'']),
        (''rowLevelSecurity'', object_schema [(''enabled'', flag_schema), (''forced'', flag_schema)] []),
        (''columns'', list_schema column_schema), (''constraints'', list_schema constraint_schema),
        (''indexes'', list_schema index_schema), (''triggers'', list_schema trigger_schema),
        (''policies'', list_schema policy_schema), (''estimatedRows'', nullable number_schema), (''dataAvailable'', flag_schema),
        (''primaryKey'', nullable (list_schema identifier_schema)),
        (''paginationKey'', nullable (list_schema identifier_schema))] []"

definition checksum_schema :: schema where
  "checksum_schema v =
     (case v of
        Str s \<Rightarrow> length s = 64 \<and> list_all (\<lambda>c. 0x30 \<le> c \<and> c \<le> 0x39 \<or> 0x61 \<le> c \<and> c \<le> 0x66) s | _ \<Rightarrow> False)"

definition schema_result_schema :: schema where
  "schema_result_schema =
     object_schema [(''targetId'', target_id_schema), (''targetLabel'', text_schema 1 (Some 128)),
        (''checksum'', checksum_schema), (''policyVersion'', text_schema 1 (Some 128)),
        (''schemas'', list_schema (object_schema
           [(''name'', identifier_schema), (''relations'', list_schema relation_schema)] [])),
        (''edges'', list_schema edge_schema)] []"

definition cell_schema :: schema where
  "cell_schema v \<longleftrightarrow>
     object_schema [(''state'', (\<lambda>x. x = Str (u ''value''))), (''value'', json_value)] [] v
     \<or> object_schema [(''state'', (\<lambda>x. x = Str (u ''masked''))), (''display'', text_schema 0 None)] [] v
     \<or> object_schema [(''state'', (\<lambda>x. x = Str (u ''blocked'')))] [] v
     \<or> object_schema [(''state'', (\<lambda>x. x = Str (u ''truncated''))), (''display'', text_schema 0 None),
          (''originalBytes'', count_schema)] [] v"

definition cells_schema :: schema where
  "cells_schema v = (case v of Obj m \<Rightarrow> list_all (\<lambda>(_, c). cell_schema c) m | _ \<Rightarrow> False)"

definition rows_result_schema :: schema where
  "rows_result_schema =
     object_schema [(''targetId'', target_id_schema), (''schemaChecksum'', checksum_schema),
        (''policyVersion'', text_schema 1 (Some 128)), (''schema'', identifier_schema), (''relation'', identifier_schema),
        (''columns'', list_schema column_schema),
        (''rows'', list_schema (object_schema [(''rowRef'', nullable cursor_schema), (''cells'', cells_schema)] [])),
        (''nextCursor'', nullable cursor_schema), (''truncated'', flag_schema), (''encodedBytes'', count_schema),
        (''consistency'', enum_schema [''stable'', ''best_effort'']), (''piiMode'', pii_mode_schema)] []"

section \<open>The command handler\<close>

text \<open>An error carries a code or does not; \<open>commandFailure\<close> passes on the codes of the right form.\<close>

datatype worker_error = Coded jstring | Uncoded

abbreviation command_error :: "string \<Rightarrow> worker_error" where
  "command_error code \<equiv> Coded (u code)"

record 's workers =
  wk_read :: "((jstring \<Rightarrow> int option \<Rightarrow> ('s, worker_error, js) prog) \<times> ('s, worker_error, js) prog) option"
  wk_mutation :: "(mutation_input \<Rightarrow> ('s, worker_error, js) prog) option"
  wk_targets :: "('s, worker_error, js) prog option"
  wk_explorer :: "((js \<Rightarrow> ('s, worker_error, js) prog) \<times> (js \<Rightarrow> js \<Rightarrow> ('s, worker_error, js) prog)
    \<times> (js \<Rightarrow> js \<Rightarrow> ('s, worker_error, js) prog)) option"

text \<open>The text of a statement: not blank, of at most 65536 units. A bound: absent or from 1 to 500.\<close>

definition statement_text :: "js \<Rightarrow> jstring option" where
  "statement_text v =
     (case v of Str t \<Rightarrow> if trim_units t = [] \<or> length t > 65536 then None else Some t | _ \<Rightarrow> None)"

definition bound_of :: "js \<Rightarrow> int option option" where
  "bound_of v =
     (case v of Undefined \<Rightarrow> Some None | Num n \<Rightarrow> if n < 1 \<or> n > 500 then None else Some (Some n) | _ \<Rightarrow> None)"

definition read_payload :: "js \<Rightarrow> (jstring \<times> int option) option" where
  "read_payload v =
     (case is_record v of
        None \<Rightarrow> None
      | Some m \<Rightarrow> (case (statement_text (member m ''sql''), bound_of (member m ''maxRows'')) of
          (Some t, Some n) \<Rightarrow> Some (t, n) | _ \<Rightarrow> None))"

text \<open>The pattern of a UUID: hexadecimal digits of either case, a version and a variant.\<close>

definition hex_unit :: "16 word \<Rightarrow> bool" where
  "hex_unit c \<longleftrightarrow> 0x30 \<le> c \<and> c \<le> 0x39 \<or> 0x61 \<le> lower_unit c \<and> lower_unit c \<le> 0x66"

definition uuid_text :: "jstring \<Rightarrow> bool" where
  "uuid_text s \<longleftrightarrow>
     length s = 36 \<and>
     list_all (\<lambda>i. if i \<in> {8, 13, 18, 23} then s ! i = 0x2D else hex_unit (s ! i)) [0..<36] \<and>
     0x31 \<le> s ! 14 \<and> s ! 14 \<le> 0x38 \<and> lower_unit (s ! 19) \<in> {0x38, 0x39, 0x61, 0x62}"

definition mutation_payload :: "js \<Rightarrow> jstring \<Rightarrow> jstring \<Rightarrow> mutation_input option" where
  "mutation_payload v user session =
     (case is_record v of
        None \<Rightarrow> None
      | Some m \<Rightarrow>
          (case (member m ''executionId'', member m ''executionKey'', member m ''reason'',
                 statement_text (member m ''sql''), bound_of (member m ''maxChanges'')) of
             (Str execution, Str key, Str reason, Some t, Some n) \<Rightarrow>
               if \<not> uuid_text execution \<or> length key < 12 \<or> length key > 200
                 \<or> length (trim_units reason) < 3 \<or> length (trim_units reason) > 2000 then None
               else Some \<lparr> mi_execution_id = execution, mi_execution_key = key, mi_actor = user, mi_session = session,
                           mi_reason = trim_units reason, mi_sql = t, mi_max_changes = n \<rparr>
           | _ \<Rightarrow> None))"

definition check_payload :: "schema \<Rightarrow> bool \<Rightarrow> js \<Rightarrow> worker_error option" where
  "check_payload schema requires_target v =
     (let has = (case v of Obj m \<Rightarrow> u ''targetId'' \<in> fst ` set m | _ \<Rightarrow> False);
          target = (case v of Obj m \<Rightarrow> member m ''targetId'' | _ \<Rightarrow> Undefined) in
      if requires_target \<and> \<not> has \<or> has \<and> \<not> target_id_schema target
      then Some (command_error ''DATABASE_TARGET_INVALID'')
      else if \<not> schema v then Some (command_error ''WORKER_COMMAND_INVALID'') else None)"

definition checked :: "schema \<Rightarrow> ('s, worker_error, js) prog \<Rightarrow> ('s, worker_error, js) prog" where
  "checked schema m =
     bind_prog m (\<lambda>r. if schema r then ret r else throw (command_error ''WORKER_RESULT_INVALID''))"

definition explorer_call ::
  "schema \<Rightarrow> bool \<Rightarrow> schema \<Rightarrow> js \<Rightarrow> ('s, worker_error, js) prog option \<Rightarrow> ('s, worker_error, js) prog" where
  "explorer_call payload_schema requires_target result_schema payload worker =
     (case worker of
        None \<Rightarrow> throw (command_error ''DATABASE_EXPLORER_DISABLED'')
      | Some m \<Rightarrow> (case check_payload payload_schema requires_target payload of
          Some e \<Rightarrow> throw e | None \<Rightarrow> checked result_schema m))"

definition read_class_js :: "read_class \<Rightarrow> js" where
  "read_class_js c =
     (case c of
        Read_select \<Rightarrow> Obj [(u ''allowed'', Bool True), (u ''kind'', Str (u ''select''))]
      | Read_show \<Rightarrow> Obj [(u ''allowed'', Bool True), (u ''kind'', Str (u ''show''))]
      | SQL_READ_ONLY_REQUIRED \<Rightarrow> Obj [(u ''allowed'', Bool False), (u ''code'', Str (u ''SQL_READ_ONLY_REQUIRED''))])"

definition mutation_class_js :: "mutation_class \<Rightarrow> js" where
  "mutation_class_js c =
     (case c of
        Mutation k typed \<Rightarrow>
          Obj [(u ''allowed'', Bool True),
               (u ''kind'', Str (case k of Kind_insert \<Rightarrow> u ''insert'' | Kind_update \<Rightarrow> u ''update'' | Kind_delete \<Rightarrow> u ''delete'')),
               (u ''requiresTypedConfirmation'', Bool typed)]
      | SQL_DML_REQUIRED \<Rightarrow> Obj [(u ''allowed'', Bool False), (u ''code'', Str (u ''SQL_DML_REQUIRED''))])"

record actor =
  ac_user :: jstring
  ac_session :: jstring
  ac_role :: jstring

definition handle ::
  "(jstring \<Rightarrow> ast list option) \<Rightarrow> 's workers \<Rightarrow> actor \<Rightarrow> jstring \<Rightarrow> js \<Rightarrow> js \<Rightarrow> ('s, worker_error, js) prog" where
  "handle parse w a kind payload actor_js =
     (if kind = u ''schema.read'' then
        (case wk_read w of None \<Rightarrow> throw (command_error ''SQL_READ_DISABLED'') | Some (_, schema) \<Rightarrow> schema)
      else if kind = u ''sql.classify'' then
        (case read_payload payload of
           None \<Rightarrow> throw (command_error ''WORKER_COMMAND_INVALID'')
         | Some (sql, _) \<Rightarrow> ret (read_class_js (classify_read_only_sql parse sql)))
      else if kind = u ''sql.classifyMutation'' then
        (case read_payload payload of
           None \<Rightarrow> throw (command_error ''WORKER_COMMAND_INVALID'')
         | Some (sql, _) \<Rightarrow> ret (mutation_class_js (classify_mutation_sql parse sql)))
      else if kind = u ''sql.previewRead'' then
        (case wk_read w of
           None \<Rightarrow> throw (command_error ''SQL_READ_DISABLED'')
         | Some (preview, _) \<Rightarrow> (case read_payload payload of
             None \<Rightarrow> throw (command_error ''WORKER_COMMAND_INVALID'') | Some (sql, n) \<Rightarrow> preview sql n))
      else if kind = u ''sql.previewMutation'' then
        (case wk_mutation w of
           None \<Rightarrow> throw (command_error ''SQL_MUTATION_DISABLED'')
         | Some preview \<Rightarrow> (case mutation_payload payload (ac_user a) (ac_session a) of
             None \<Rightarrow> throw (command_error ''WORKER_COMMAND_INVALID'') | Some i \<Rightarrow> preview i))
      else if kind = u ''database.targets'' then
        explorer_call targets_payload_schema False targets_result_schema payload (wk_targets w)
      else if kind = u ''database.schema'' then
        explorer_call schema_payload_schema True schema_result_schema payload
          (map_option (\<lambda>(schema, _, _). schema (case payload of Obj m \<Rightarrow> member m ''targetId'' | _ \<Rightarrow> Undefined)) (wk_explorer w))
      else if kind = u ''database.rows'' then
        (if ac_role a = u ''ops_viewer'' then throw (command_error ''DATABASE_DATA_PERMISSION_DENIED'')
         else explorer_call rows_payload_schema True rows_result_schema payload
           (map_option (\<lambda>(_, rows, _). rows payload actor_js) (wk_explorer w)))
      else if kind = u ''database.relatedRows'' then
        (if ac_role a = u ''ops_viewer'' then throw (command_error ''DATABASE_DATA_PERMISSION_DENIED'')
         else explorer_call related_rows_payload_schema True rows_result_schema payload
           (map_option (\<lambda>(_, _, related). related payload actor_js) (wk_explorer w)))
      else throw (command_error ''WORKER_COMMAND_UNSUPPORTED''))"

section \<open>Authentication of a value\<close>

record 's protocol_env =
  pe_sign :: "js \<Rightarrow> jstring"
  pe_date :: "js \<Rightarrow> millis option"
  pe_bytes :: "js \<Rightarrow> bytes option"
  pe_now :: millis
  pe_consume :: "js \<Rightarrow> ('s, worker_error, bool) prog"
  pe_workers :: "'s workers"
  pe_parse_sql :: "jstring \<Rightarrow> ast list option"
  pe_iso :: "int \<Rightarrow> jstring"

definition signature_bytes :: "'s protocol_env \<Rightarrow> js \<Rightarrow> bytes option" where
  "signature_bytes env v = (case v of Str s \<Rightarrow> Some (utf8 s) | _ \<Rightarrow> pe_bytes env v)"

definition schema_read_kind :: "js \<Rightarrow> bool" where
  "schema_read_kind k \<longleftrightarrow> k \<in> {Str (u ''schema.read''), Str (u ''database.targets''), Str (u ''database.schema'')}"

definition maintainer_role :: "js \<Rightarrow> bool" where
  "maintainer_role r \<longleftrightarrow> r \<in> {Str (u ''ops_maintainer''), Str (u ''ops_owner'')}"

text \<open>
  A value that is no object, or has no actor, makes the code throw; so does a signature that
  \<open>Buffer.from\<close> refuses.
\<close>

definition authenticate_value :: "'s protocol_env \<Rightarrow> js \<Rightarrow> ('s, worker_error, bool) prog" where
  "authenticate_value env v =
     (case is_record v of
        None \<Rightarrow> throw Uncoded
      | Some m \<Rightarrow>
          (if member m ''actor'' = Undefined \<or> member m ''actor'' = Null then throw Uncoded
           else (let role = (case member m ''actor'' of Obj a \<Rightarrow> member a ''role'' | _ \<Rightarrow> Undefined) in
             if \<not> schema_read_kind (member m ''kind'') \<and> \<not> maintainer_role role then ret False
             else (case signature_bytes env (member m ''signature'') of
                 None \<Rightarrow> throw Uncoded
               | Some actual \<Rightarrow>
                   (case pe_date env (member m ''issuedAt'') of
                      None \<Rightarrow> ret False
                    | Some issued \<Rightarrow>
                        if \<bar>pe_now env - issued\<bar> > 60000
                          \<or> actual \<noteq> utf8 (pe_sign env (Obj (filter (\<lambda>(k, _). k \<noteq> u ''signature'') m)))
                        then ret False
                        else pe_consume env (member m ''nonce''))))))"

section \<open>The server\<close>

definition code_unit :: "16 word \<Rightarrow> bool" where
  "code_unit c \<longleftrightarrow> 0x41 \<le> c \<and> c \<le> 0x5A \<or> 0x30 \<le> c \<and> c \<le> 0x39 \<or> c = 0x5F"

definition failure_code :: "worker_error \<Rightarrow> jstring" where
  "failure_code e =
     (case e of
        Coded (c # cs) \<Rightarrow>
          if 0x41 \<le> c \<and> c \<le> 0x5A \<and> 2 \<le> length cs \<and> length cs \<le> 79 \<and> list_all code_unit cs then c # cs
          else u ''WORKER_COMMAND_FAILED''
      | _ \<Rightarrow> u ''WORKER_COMMAND_FAILED'')"

definition error_response :: "js \<Rightarrow> jstring \<Rightarrow> string \<Rightarrow> js" where
  "error_response command_id code message =
     Obj [(u ''protocolVersion'', Num 1), (u ''commandId'', command_id), (u ''ok'', Bool False),
          (u ''error'', Obj [(u ''code'', Str code), (u ''safeMessage'', Str (u message))])]"

definition ok_response :: "js \<Rightarrow> js \<Rightarrow> js" where
  "ok_response command_id result =
     Obj [(u ''protocolVersion'', Num 1), (u ''commandId'', command_id), (u ''ok'', Bool True), (u ''result'', result)]"

definition protocol_error :: js where
  "protocol_error =
     error_response (Str (u ''unknown'')) (u ''WORKER_PROTOCOL_ERROR'') ''Invalid worker protocol message''"

definition text_member :: "js \<Rightarrow> string \<Rightarrow> jstring" where
  "text_member v k = (case v of Obj m \<Rightarrow> (case member m k of Str s \<Rightarrow> s | _ \<Rightarrow> []) | _ \<Rightarrow> [])"

definition object_member :: "js \<Rightarrow> string \<Rightarrow> js" where
  "object_member v k = (case v of Obj m \<Rightarrow> member m k | _ \<Rightarrow> Undefined)"

definition actor_of :: "js \<Rightarrow> actor" where
  "actor_of v =
     (let a = object_member v ''actor'' in
      \<lparr> ac_user = text_member a ''userId'', ac_session = text_member a ''sessionId'', ac_role = text_member a ''role'' \<rparr>)"

definition handle_value :: "'s protocol_env \<Rightarrow> js \<Rightarrow> ('s, worker_error, js) prog" where
  "handle_value env v =
     handle (pe_parse_sql env) (pe_workers env) (actor_of v) (text_member v ''kind'') (object_member v ''payload'')
       (object_member v ''actor'')"

definition respond :: "'s protocol_env \<Rightarrow> js \<Rightarrow> ('s, worker_error, js) prog" where
  "respond env v =
     bind_prog (authenticate_value env v) (\<lambda>valid.
       let command_id = object_member v ''commandId'' in
       if \<not> valid then
         ret (error_response (if command_id = Undefined \<or> command_id = Null then Str (u ''unknown'') else command_id)
                (u ''WORKER_COMMAND_DENIED'') ''Command denied'')
       else catch_prog (bind_prog (handle_value env v) (\<lambda>r. ret (ok_response command_id r)))
         (\<lambda>e. ret (error_response command_id (failure_code e) ''Command could not be processed'')))"

definition stringify :: "'s protocol_env \<Rightarrow> js \<Rightarrow> bytes" where
  "stringify env v = utf8 (json_text (plain (pe_iso env) v))"

definition answer :: "'s protocol_env \<Rightarrow> js \<Rightarrow> ('s, worker_error, bytes) prog" where
  "answer env v =
     bind_prog (respond env v) (\<lambda>r.
       case worker_encode (stringify env) r of Inl _ \<Rightarrow> throw Uncoded | Inr f \<Rightarrow> ret f)"

definition protocol_error_frame :: "'s protocol_env \<Rightarrow> bytes" where
  "protocol_error_frame env =
     (case worker_encode (stringify env) protocol_error of Inl _ \<Rightarrow> [] | Inr f \<Rightarrow> f)"

text \<open>What a chunk makes the server write: an answer for each command, or an error that ends the chunk.\<close>

fun answer_all :: "'s protocol_env \<Rightarrow> js list \<Rightarrow> 's \<Rightarrow> bytes list \<times> 's" where
  "answer_all env [] s = ([], s)"
| "answer_all env (v # vs) s =
     (case answer env v s of
        (Inl _, s') \<Rightarrow> ([protocol_error_frame env], s')
      | (Inr f, s') \<Rightarrow> (case answer_all env vs s' of (fs, s'') \<Rightarrow> (f # fs, s'')))"

definition on_data ::
  "'s protocol_env \<Rightarrow> (bytes \<Rightarrow> js option) \<Rightarrow> bytes \<Rightarrow> bytes \<Rightarrow> 's \<Rightarrow> bytes list \<times> bytes \<times> 's" where
  "on_data env parse buffer chunk s =
     (case worker_push parse buffer chunk of
        (Inl _, buffer') \<Rightarrow> ([protocol_error_frame env], buffer', s)
      | (Inr vs, buffer') \<Rightarrow> (case answer_all env vs s of (fs, s') \<Rightarrow> (fs, buffer', s')))"

section \<open>The client of the API\<close>

datatype client_outcome = Waiting bytes | Resolved js | Rejected string

definition client_data :: "(bytes \<Rightarrow> js option) \<Rightarrow> jstring \<Rightarrow> bytes \<Rightarrow> bytes \<Rightarrow> client_outcome" where
  "client_data parse command_id buffer chunk =
     (let b = buffer @ chunk in
      if length b < 4 then Waiting b
      else (let n = read_uint32_be b in
        if n > 1048576 \<or> length b < n + 4 then Waiting b
        else (case parse (take n (drop 4 b)) of
            None \<Rightarrow> Rejected ''SyntaxError''
          | Some Null \<Rightarrow> Rejected ''TypeError''
          | Some r \<Rightarrow> if object_member r ''commandId'' \<noteq> Str command_id then Rejected ''SQL_WORKER_RESPONSE_MISMATCH''
                      else Resolved r)))"

text \<open>The chunks that arrive before the timeout; a promise settles once.\<close>

fun client_run :: "(bytes \<Rightarrow> js option) \<Rightarrow> jstring \<Rightarrow> bytes \<Rightarrow> bytes list \<Rightarrow> client_outcome" where
  "client_run parse command_id buffer [] = Rejected ''SQL_WORKER_TIMEOUT''"
| "client_run parse command_id buffer (c # cs) =
     (case client_data parse command_id buffer c of
        Waiting b \<Rightarrow> client_run parse command_id b cs | outcome \<Rightarrow> outcome)"

section \<open>What a command can reach\<close>

definition authentic :: "'s protocol_env \<Rightarrow> js \<Rightarrow> bool" where
  "authentic env v \<longleftrightarrow>
     (\<exists>m issued. v = Obj m \<and> pe_date env (member m ''issuedAt'') = Some issued \<and> \<bar>pe_now env - issued\<bar> \<le> 60000 \<and>
        signature_bytes env (member m ''signature'')
          = Some (utf8 (pe_sign env (Obj (filter (\<lambda>(k, _). k \<noteq> u ''signature'') m)))))"

definition from_maintainer :: "js \<Rightarrow> bool" where
  "from_maintainer v \<longleftrightarrow> maintainer_role (object_member (object_member v ''actor'') ''role'')"

text \<open>Signed, and with a nonce that the store accepts.\<close>

definition admitted :: "'s protocol_env \<Rightarrow> js \<Rightarrow> 's \<Rightarrow> bool" where
  "admitted env v s \<longleftrightarrow> authentic env v \<and> fst (pe_consume env (object_member v ''nonce'') s) = Inr True"

lemma authenticate_value_True:
  assumes "authenticate_value env v s = (Inr True, s')"
  shows "admitted env v s \<and> (schema_read_kind (object_member v ''kind'') \<or> from_maintainer v)"
proof -
  obtain m where m: "v = Obj m"
    using assms by (cases v) (simp_all add: authenticate_value_def is_record_def throw_def)
  show ?thesis
    using assms
    by (cases "member m ''actor''")
       (auto simp: m authenticate_value_def is_record_def admitted_def authentic_def from_maintainer_def object_member_def Let_def
          throw_def ret_def not_less split: if_splits option.splits)
qed

lemma keeps_ret_throw: "keeps I (\<lambda>s. (r, s))"
  by (simp add: keeps_def)

lemma authenticate_keeps:
  assumes "\<And>n. keeps I (pe_consume env n)"
  shows "keeps I (authenticate_value env v)"
  unfolding authenticate_value_def Let_def
  by (intro keeps_intros assms)

lemma keeps_checked: "keeps I m \<Longrightarrow> keeps I (checked p m)"
  unfolding checked_def by (intro keeps_intros) auto

lemma keeps_explorer:
  "(\<And>m. w = Some m \<Longrightarrow> keeps I m) \<Longrightarrow> keeps I (explorer_call p b r payload w)"
  unfolding explorer_call_def by (intro keeps_intros keeps_checked) auto

lemma text_member_eq: "text_member v k = x \<Longrightarrow> x \<noteq> [] \<Longrightarrow> object_member v k = Str x"
  by (auto simp: text_member_def object_member_def split: js.splits)

lemma kind_neq: "k \<noteq> k' \<Longrightarrow> u k \<noteq> u k'"
proof -
  have "inj (\<lambda>c :: char. of_nat (of_char c) :: 16 word)"
  proof (rule injI)
    fix c d :: char assume "(of_nat (of_char c) :: 16 word) = of_nat (of_char d)"
    then have "unat (of_nat (of_char c) :: 16 word) = unat (of_nat (of_char d) :: 16 word)" by simp
    moreover have "(of_char e :: nat) < 65536" for e by (rule order_less_trans [of _ 256]) simp_all
    ultimately show "c = d" by (simp add: unat_of_nat)
  qed
  then show "k \<noteq> k' \<Longrightarrow> u k \<noteq> u k'" by (simp add: u_def inj_map_eq_map)
qed

text \<open>
  C27. Only a signed command reaches a worker, and only a maintainer's reaches data. Whatever value arrives:
  unless it is signed, issued within the last minute and its nonce is accepted, answering it runs nothing but
  the store of nonces, so it keeps whatever that keeps, with no assumption about any worker. If it is
  all that but its role is neither maintainer nor owner, answering it runs besides only the readers of
  schemas, so it keeps whatever these keep too.
\<close>

theorem only_maintainers_reach_data:
  assumes "\<not> (admitted env v s \<and> from_maintainer v)"
    and "\<And>n. keeps I (pe_consume env n)"
    and "\<And>p m. admitted env v s \<Longrightarrow> wk_read (pe_workers env) = Some (p, m) \<Longrightarrow> keeps I m"
    and "\<And>m. admitted env v s \<Longrightarrow> wk_targets (pe_workers env) = Some m \<Longrightarrow> keeps I m"
    and "\<And>f g h t. admitted env v s \<Longrightarrow> wk_explorer (pe_workers env) = Some (f, g, h) \<Longrightarrow> keeps I (f t)"
    and "I s"
  shows "I (snd (answer env v s))"
proof -
  have schema: "keeps I (handle_value env v)"
    if kind: "schema_read_kind (object_member v ''kind'')" and ok: "admitted env v s"
  proof -
    have "text_member v ''kind'' \<in> {u ''schema.read'', u ''database.targets'', u ''database.schema''}"
      using kind by (auto simp: schema_read_kind_def text_member_def object_member_def split: js.splits)
    moreover have "keeps I (case wk_read (pe_workers env) of
        None \<Rightarrow> throw (command_error ''SQL_READ_DISABLED'') | Some (_, m) \<Rightarrow> m)"
      using assms(3) [OF ok] by (auto intro: keeps_intros split: option.split)
    moreover have "keeps I (explorer_call p b r payload (wk_targets (pe_workers env)))" for p b r payload
      by (rule keeps_explorer) (rule assms(4) [OF ok])
    moreover have "keeps I (explorer_call p b r payload
        (map_option (\<lambda>(f, _, _). f (t payload)) (wk_explorer (pe_workers env))))" for p b r payload t
      by (rule keeps_explorer) (auto intro: assms(5) [OF ok])
    ultimately show ?thesis
      unfolding handle_value_def handle_def by (auto simp: kind_neq)
  qed
  have "I (snd (respond env v s))"
  proof (cases "authenticate_value env v s")
    case (Pair r s1)
    have s1: "I s1" using authenticate_keeps [OF assms(2)] assms(6) Pair by (rule keepsD)
    show ?thesis
    proof (cases r)
      case (Inl e)
      with Pair s1 show ?thesis by (simp add: respond_def bind_prog_def)
    next
      case (Inr valid)
      show ?thesis
      proof (cases valid)
        case True
        have "schema_read_kind (object_member v ''kind'')" "admitted env v s"
          using authenticate_value_True [of env v s s1] Pair Inr True assms(1) by simp_all
        then have "keeps I (catch_prog (bind_prog (handle_value env v) f) g)"
          if "\<And>x. keeps I (f x)" "\<And>e. keeps I (g e)" for f g
          using schema that by (intro keeps_intros) auto
        from this [of "\<lambda>r. ret (ok_response (object_member v ''commandId'') r)"
            "\<lambda>e. ret (error_response (object_member v ''commandId'') (failure_code e) ''Command could not be processed'')"]
        show ?thesis
          using Pair Inr True s1 by (auto simp: respond_def bind_prog_def keeps_def keeps_ret Let_def ret_def)
      next
        case False
        with Pair Inr s1 show ?thesis by (simp add: respond_def bind_prog_def ret_def Let_def)
      qed
    qed
  qed
  then show ?thesis
    by (auto simp: answer_def bind_prog_def throw_def ret_def split: prod.splits sum.splits)
qed

section \<open>The way back\<close>

definition settle :: "(bytes \<Rightarrow> js option) \<Rightarrow> jstring \<Rightarrow> bytes \<Rightarrow> client_outcome" where
  "settle parse command_id body =
     (case parse body of
        None \<Rightarrow> Rejected ''SyntaxError''
      | Some Null \<Rightarrow> Rejected ''TypeError''
      | Some r \<Rightarrow> if object_member r ''commandId'' \<noteq> Str command_id then Rejected ''SQL_WORKER_RESPONSE_MISMATCH''
                  else Resolved r)"

lemma settle_settles: "settle parse command_id body \<noteq> Waiting b"
  by (auto simp: settle_def split: option.splits js.splits)

lemma client_data_settles:
  assumes "buffer @ chunk = write_uint32_be (length body) @ body @ rest" and "length body \<le> max_frame_bytes"
  shows "client_data parse command_id buffer chunk = settle parse command_id body"
  using assms by (simp add: client_data_def Let_def read_write_uint32 settle_def max_frame_bytes_def)

lemma client_data_waits:
  assumes "buffer @ chunk @ later = write_uint32_be (length body) @ body @ rest" and "length body \<le> max_frame_bytes"
    and "length (buffer @ chunk) < length body + 4"
  shows "client_data parse command_id buffer chunk = Waiting (buffer @ chunk)"
proof (cases "length (buffer @ chunk) < 4")
  case True
  then show ?thesis by (simp add: client_data_def)
next
  case False
  then have "read_uint32_be (buffer @ chunk) = read_uint32_be ((buffer @ chunk) @ later)"
    by (intro read_append [symmetric]) simp
  also have "\<dots> = length body" using assms(1,2) by (simp add: read_write_uint32)
  finally show ?thesis using assms(3) by (simp add: client_data_def Let_def)
qed

text \<open>However the stream is cut, the client settles on the first frame.\<close>

lemma client_settles:
  assumes "buffer @ concat cs = write_uint32_be (length body) @ body @ rest" and "length body \<le> max_frame_bytes"
    and "length buffer < length body + 4"
  shows "client_run parse command_id buffer cs = settle parse command_id body"
  using assms
proof (induction cs arbitrary: buffer)
  case Nil
  then have "length buffer = length (write_uint32_be (length body) @ body @ rest)" by simp
  with Nil.prems(3) show ?case by simp
next
  case (Cons c cs)
  show ?case
  proof (cases "length (buffer @ c) < length body + 4")
    case True
    then have "client_data parse command_id buffer c = Waiting (buffer @ c)"
      using Cons.prems by (intro client_data_waits) auto
    with True Cons show ?thesis by simp
  next
    case False
    define tail where "tail = drop (length body + 4) (buffer @ c)"
    have "buffer @ c = take (length (buffer @ c)) (write_uint32_be (length body) @ body @ rest)"
      using Cons.prems(1) by (metis append.assoc append_eq_conv_conj concat.simps(2))
    then have "buffer @ c = write_uint32_be (length body) @ body @ tail"
      using False by (simp add: tail_def)
    then have "client_data parse command_id buffer c = settle parse command_id body"
      using Cons.prems(2) by (rule client_data_settles)
    then show ?thesis using settle_settles by (auto split: client_outcome.split)
  qed
qed

lemma worker_encode_cases:
  "worker_encode f v = (if length (f v) > max_frame_bytes then Inl WORKER_FRAME_TOO_LARGE
     else Inr (write_uint32_be (length (f v)) @ f v))"
  by (simp add: worker_encode_def Let_def)

text \<open>
  The answer to a command arrives: whatever the worker responds, a response of at most one mebibyte
  of JSON resolves the call of the API with what \<open>JSON.parse\<close> reads from it, however the stream is cut
  into chunks, when it carries the identifier of the command.
\<close>

theorem response_arrives:
  assumes "respond env v s = (Inr r, s')" and "length (stringify env r) \<le> 1048576"
    and "parse (stringify env r) = Some (Obj m)" and "member m ''commandId'' = Str command_id"
    and "concat chunks = concat (fst (answer_all env [v] s))"
  shows "client_run parse command_id [] chunks = Resolved (Obj m)"
proof -
  have "concat chunks = write_uint32_be (length (stringify env r)) @ stringify env r @ []"
    using assms(1,2,5) by (simp add: answer_def bind_prog_def worker_encode_cases max_frame_bytes_def ret_def)
  then have "client_run parse command_id [] chunks = settle parse command_id (stringify env r)"
    using assms(2) by (intro client_settles) (simp_all add: max_frame_bytes_def)
  then show ?thesis using assms(3,4) by (simp add: settle_def object_member_def)
qed

section \<open>The workers of the runtime\<close>

definition bounded_rows_js :: "bounded_rows \<Rightarrow> js" where
  "bounded_rows_js b =
     Obj [(u ''rows'', Arr (br_rows b)), (u ''encodedBytes'', Num (br_bytes b)), (u ''truncated'', Bool (br_truncated b))]"

definition preview_js :: "mutation_preview \<Rightarrow> (driver_value \<Rightarrow> js) \<Rightarrow> js" where
  "preview_js p encode =
     Obj [(u ''affectedRows'', Num (mp_affected p)), (u ''changes'', Arr (map encode (mp_changes p))),
          (u ''truncated'', Bool (mp_truncated p))]"

text \<open>The errors of the execution are thrown without a code of the worker.\<close>

definition without_code :: "('s, string, 'a) prog \<Rightarrow> ('a \<Rightarrow> js) \<Rightarrow> ('s, worker_error, js) prog" where
  "without_code m f = (\<lambda>s. case m s of (Inl _, s') \<Rightarrow> (Inl Uncoded, s') | (Inr x, s') \<Rightarrow> (Inr (f x), s'))"

definition read_worker ::
  "('db, 'q) pg_server \<Rightarrow> (jstring \<Rightarrow> ast list option) \<Rightarrow> (nat \<Rightarrow> fault) \<Rightarrow> (int \<Rightarrow> jstring) \<Rightarrow> string option
     \<Rightarrow> jstring \<Rightarrow> int option \<Rightarrow> (('db, 'q) session, worker_error, js) prog" where
  "read_worker srv parse faults to_iso failure sql n =
     without_code (read_previewer srv parse faults to_iso failure sql n) bounded_rows_js"

definition mutation_worker ::
  "('db, 'q) pg_server \<Rightarrow> (jstring \<Rightarrow> ast list option) \<Rightarrow> (nat \<Rightarrow> fault) \<Rightarrow> (bytes \<Rightarrow> jstring) \<Rightarrow> (driver_value \<Rightarrow> js)
     \<Rightarrow> string option \<Rightarrow> mutation_input \<Rightarrow> (('db, 'q) session, worker_error, js) prog" where
  "mutation_worker srv parse faults sha256 encode failure i =
     without_code (mutation_previewer srv parse faults sha256 failure i) (\<lambda>p. preview_js p encode)"

lemma json_not_undefined: "json_value v \<Longrightarrow> v \<noteq> Undefined"
  by auto

lemma plain_json: "json_value v \<Longrightarrow> plain to_iso v = v"
proof (induction to_iso v rule: plain.induct)
  case (4 to_iso vs)
  then show ?case using json_not_undefined by (auto simp: list_all_iff intro!: map_idI)
next
  case (5 to_iso m)
  have "filter (\<lambda>(k, v). v \<noteq> Undefined) m = m"
    using 5(2) json_not_undefined by (auto simp: filter_id_conv list_all_iff)
  then show ?case using 5 by (auto simp: list_all_iff intro!: map_idI)
qed auto

lemma byte_length_infix: "\<not> starts_low ys \<Longrightarrow> \<not> starts_low zs \<Longrightarrow> byte_length ys \<le> byte_length (xs @ ys @ zs)"
  by (cases "ys = []") (simp_all add: byte_length_append byte_length_simps)

lemma commas_infix:
  "x \<in> set xs \<Longrightarrow> \<exists>a c. commas xs = a @ x @ c \<and> (c = [] \<or> hd c = 0x2C)"
proof (induction xs rule: commas.induct)
  case (2 y)
  then show ?case by (intro exI [of _ "[]"]) simp
next
  case (3 y z zs)
  show ?case
  proof (cases "x = y")
    case True
    then show ?thesis by (intro exI [of _ "[]"] exI [of _ "0x2C # commas (z # zs)"]) simp
  next
    case False
    with 3 obtain a c where "commas (z # zs) = a @ x @ c" "c = [] \<or> hd c = 0x2C" by auto
    then show ?thesis by (intro exI [of _ "y @ 0x2C # a"] exI [of _ c]) simp
  qed
qed auto

lemma byte_length_member:
  assumes "(k, v) \<in> set m"
  shows "byte_length (json_text v) \<le> byte_length (json_text (Obj m))"
proof -
  let ?xs = "map (\<lambda>(k, v). json_string k @ 0x3A # json_text v) m"
  have "json_string k @ 0x3A # json_text v \<in> set ?xs" using assms by force
  then obtain a c where c: "commas ?xs = a @ (json_string k @ 0x3A # json_text v) @ c" "c = [] \<or> hd c = 0x2C"
    using commas_infix by blast
  have "\<not> starts_low (c @ [0x7D])"
    using c(2) by (cases c) (auto simp: low_surrogate_def word_le_nat_alt)
  then have "byte_length (json_text v) \<le> byte_length (((0x7B # a) @ json_string k @ [0x3A]) @ json_text v @ c @ [0x7D])"
    by (intro byte_length_infix) simp_all
  also have "((0x7B # a) @ json_string k @ [0x3A]) @ json_text v @ c @ [0x7D] = json_text (Obj m)"
    by (simp add: c(1))
  finally show ?thesis .
qed

lemma byte_length_plain_member:
  assumes "(k, v) \<in> set m" and "v \<noteq> Undefined"
  shows "byte_length (json_text (plain to_iso v)) \<le> byte_length (json_text (plain to_iso (Obj m)))"
proof -
  have "(k, plain to_iso v) \<in> set (map (\<lambda>(k, v). (k, plain to_iso v)) (filter (\<lambda>(k, v). v \<noteq> Undefined) m))"
    using assms by force
  from byte_length_member [OF this] show ?thesis by simp
qed

lemma response_contains_rows:
  assumes "list_all json_value (br_rows b)"
  shows "array_bytes (br_rows b) \<le> int (length (stringify env (ok_response command_id (bounded_rows_js b))))"
proof -
  have "plain (pe_iso env) (Arr (br_rows b)) = Arr (br_rows b)"
    by (rule plain_json) (simp add: assms)
  then have "byte_length (json_text (Arr (br_rows b))) \<le> byte_length (json_text (plain (pe_iso env) (bounded_rows_js b)))"
    using byte_length_plain_member [of "u ''rows''" "Arr (br_rows b)" _ "pe_iso env"]
    by (metis bounded_rows_js_def js.distinct(17) list.set_intros(1))
  also have "\<dots> \<le> byte_length (json_text (plain (pe_iso env) (ok_response command_id (bounded_rows_js b))))"
    unfolding ok_response_def
    by (rule byte_length_plain_member [of "u ''result''"]) (simp_all add: bounded_rows_js_def)
  finally show ?thesis by (simp add: array_bytes_def stringify_def byte_length_def)
qed

lemma read_rows_json:
  assumes "read_previewer srv parse faults to_iso failure sql n s = (Inr b, s')"
  shows "list_all json_value (br_rows b) \<and> br_bytes b = array_bytes (br_rows b)"
proof -
  obtain objs m rows b0 where "encode_bounded_rows to_iso objs m rows = Inr b0"
      "br_rows b = br_rows b0" "br_bytes b = br_bytes b0"
    using assms
    by (auto simp: read_previewer_def with_connection_def execute_read_only_def read_block_def then_prog_def bind_prog_def
        catch_prog_def throw_def ret_def split: option.splits if_splits prod.splits sum.splits)
  then show ?thesis
    using encoded_rows_bounded [of to_iso objs m rows b0] encode_row_json
    by (auto simp: is_bounded_def list_all_iff)
qed

text \<open>
  C37. A large read never arrives: when the rows of a read take more than one mebibyte, although the
  worker keeps up to ten, its response does not fit into a frame, the server answers with a protocol
  error for an unknown command instead, and the call of the API is rejected, however the stream is cut.
\<close>

theorem large_read_never_arrives:
  assumes "authenticate_value env v s = (Inr True, s1)" and "text_member v ''kind'' = u ''sql.previewRead''"
    and "wk_read (pe_workers env) = Some (read_worker srv (pe_parse_sql env) faults to_iso None, schema)"
    and "read_payload (object_member v ''payload'') = Some (sql, n)"
    and "read_previewer srv (pe_parse_sql env) faults to_iso None sql n s1 = (Inr b, s2)"
    and "br_bytes b > 1048576"
    and "parse (stringify env protocol_error) = Some protocol_error" and "command_id \<noteq> u ''unknown''"
    and "concat chunks = concat (fst (answer_all env [v] s))"
  shows "client_run parse command_id [] chunks = Rejected ''SQL_WORKER_RESPONSE_MISMATCH''"
proof -
  have "handle_value env v s1 = (Inr (bounded_rows_js b), s2)"
    using assms(2-5) by (simp add: handle_value_def handle_def kind_neq read_worker_def without_code_def)
  then have "respond env v s = (Inr (ok_response (object_member v ''commandId'') (bounded_rows_js b)), s2)"
    using assms(1) by (simp add: respond_def bind_prog_def catch_prog_def ret_def Let_def)
  moreover have "length (stringify env (ok_response c (bounded_rows_js b))) > max_frame_bytes" for c
    using response_contains_rows [of b env c] read_rows_json [OF assms(5)] assms(6) by (simp add: max_frame_bytes_def)
  ultimately have "fst (answer_all env [v] s) = [protocol_error_frame env]"
    by (simp add: answer_def bind_prog_def worker_encode_cases throw_def)
  moreover have "string_of_nat (Suc 0) = ''1''"
    by (subst string_of_nat.simps) (simp add: char_of_def bit_0)
  then have small: "length (stringify env protocol_error) \<le> max_frame_bytes"
    by (simp add: stringify_def protocol_error_def error_response_def json_string_def json_unit_def high_surrogate_def
        low_surrogate_def max_frame_bytes_def utf8_Cons string_of_int_def)
  ultimately have "[] @ concat chunks = write_uint32_be (length (stringify env protocol_error)) @ stringify env protocol_error @ []"
    using assms(9) by (simp add: protocol_error_frame_def worker_encode_cases)
  then have "client_run parse command_id [] chunks = settle parse command_id (stringify env protocol_error)"
    using small by (rule client_settles) simp
  then show ?thesis
    using assms(7,8) by (auto simp: settle_def protocol_error_def error_response_def object_member_def member_def)
qed

end
