(* ===== verification/WorkerSample.thy ===== *)
theory WorkerSample
  imports WorkerServer
begin

text \<open>A sample database with one table behind the worker, and witnesses that use it.\<close>

definition delete_text :: jstring where "delete_text = u ''DELETE FROM a''"
definition select_text :: jstring where "select_text = u ''SELECT a''"

definition parse_sample :: "jstring \<Rightarrow> ast list option" where
  "parse_sample sql =
     (if sql = delete_text then Some [Ast_delete False] else if sql = select_text then Some [Ast_select False] else None)"

definition large_length :: nat where "large_length = 1048576"

definition large_row :: driver_value where "large_row = V_string (replicate large_length 0x61)"

text \<open>The database is a list of numbers; a delete empties it, a select answers one large row.\<close>

definition server_sample :: "(int list, bool) pg_server" where
  "server_sample =
     \<lparr> pg_parse = (\<lambda>t. if t = delete_text then Some [Pg_other True]
                       else if t = declare_text select_text then Some [Pg_declare False] else None),
       pg_run = (\<lambda>q db. if q then Inr (empty_reply\<lparr>rp_count := Some (int (length db))\<rparr>, [])
                        else Inr (empty_reply\<lparr>rp_rows := [large_row]\<rparr>, db)),
       pg_own = (\<lambda>q db. case q of
           Select_journal _ _ \<Rightarrow> Inr (empty_reply\<lparr>rp_rows := [V_integer 7]\<rparr>, db) | _ \<Rightarrow> Inr (empty_reply, db)) \<rparr>"

definition session_sample :: "(int list, bool) session" where
  "session_sample = \<lparr> ss_committed = [7], ss_status = Idle, ss_cursor = None, ss_sent = [], ss_open = False \<rparr>"

definition mutation_sample :: mutation_input where
  "mutation_sample =
     \<lparr> mi_execution_id = u ''e'', mi_execution_key = u ''k'', mi_actor = u ''a'', mi_session = u ''s'', mi_reason = u ''r'',
       mi_sql = delete_text, mi_max_changes = None \<rparr>"

lemma strip_samples: "strip_statement delete_text = delete_text" "strip_statement select_text = select_text"
  by (simp_all add: strip_statement_def delete_text_def select_text_def trim_units_def unit_white_def word_le_nat_alt)

lemma text_samples: "select_text \<noteq> delete_text" "declare_text select_text \<noteq> delete_text"
  by (simp_all add: select_text_def delete_text_def declare_text_def)

lemma classify_samples:
  "classify_mutation_sql parse_sample delete_text = Mutation Kind_delete True"
  "classify_read_only_sql parse_sample select_text = Read_select"
  by (simp_all add: classify_mutation_sql_def classify_read_only_sql_def parse_sample_def text_samples)

lemma parse_samples:
  "pg_parse server_sample delete_text = Some [Pg_other True]"
  "pg_parse server_sample (declare_text select_text) = Some [Pg_declare False]"
  by (simp_all add: server_sample_def text_samples)

lemma idle_sample: "ss_status session_sample = Idle" "ss_committed session_sample = [7]"
  by (simp_all add: session_sample_def)

theorem preview_leaves_database_witness:
  "ss_committed (snd (preview_mutation server_sample parse_sample (\<lambda>n. if n = 9 then Lost_answer else Delivered)
     (\<lambda>_. []) mutation_sample session_sample)) = [7]"
proof -
  have "classify_mutation_sql parse_sample (mi_sql mutation_sample) \<noteq> SQL_DML_REQUIRED \<Longrightarrow>
      one_statement server_sample (strip_statement (mi_sql mutation_sample))"
    by (simp add: mutation_sample_def strip_samples one_statement_def parse_samples)
  from preview_leaves_database [OF prod.collapse [symmetric] idle_sample(1) this] show ?thesis
    by (simp add: idle_sample)
qed

theorem preview_is_faithful_witness:
  "fst (preview_mutation server_sample parse_sample (\<lambda>_. Delivered) (\<lambda>_. []) mutation_sample session_sample) =
     Inr \<lparr> mp_affected = 1, mp_changes = [V_integer 7], mp_truncated = False \<rparr>"
proof -
  have "pg_parse server_sample (strip_statement (mi_sql mutation_sample)) = Some [Pg_other True]"
    "classify_mutation_sql parse_sample (mi_sql mutation_sample) \<noteq> SQL_DML_REQUIRED"
    by (simp_all add: mutation_sample_def strip_samples parse_samples classify_samples)
  from preview_is_faithful [OF idle_sample(1) this(2,1), of "\<lambda>_. []"] show ?thesis
    by (simp add: reported_def mutation_effect_def preamble_def server_sample_def idle_sample mutation_sample_def
        max_changes_def empty_reply_def Let_def)
qed

section \<open>A large read\<close>

lemma json_bytes_replicate: "json_bytes (replicate n 0x61) = int n"
proof (induction n rule: induct_nat_012)
  case (ge2 n)
  then show ?case by (simp add: high_surrogate_def low_surrogate_def unit_bytes_def)
qed (simp_all add: unit_bytes_def high_surrogate_def low_surrogate_def)

lemma large_row_bytes: "array_bytes [encode_row to_iso objs large_row] = 4 + int large_length"
  using array_bytes_snoc [of "[]" "encode_row to_iso objs large_row"]
  by (simp add: array_bytes_Nil encode_row_def large_row_def utf8_json_string json_bytes_replicate)

lemma large_row_encoded:
  "encode_bounded_rows to_iso objs (10 * 1024 * 1024) [large_row] =
     Inr \<lparr> br_rows = [encode_row to_iso objs large_row], br_bytes = 4 + int large_length, br_truncated = False \<rparr>"
  using large_row_bytes [of to_iso objs] array_bytes_snoc [of "[]" "encode_row to_iso objs large_row"]
  by (simp add: encode_bounded_rows_def is_safe_integer_def max_safe_integer_def Let_def large_length_def array_bytes_Nil)

definition to_iso_sample :: "int \<Rightarrow> jstring" where "to_iso_sample _ = []"

lemma read_sample:
  "\<exists>s'. read_previewer server_sample parse_sample (\<lambda>_. Delivered) to_iso_sample None select_text None session_sample =
     (Inr \<lparr> br_rows = [encode_row to_iso_sample (rp_objects empty_reply) large_row], br_bytes = 4 + int large_length,
            br_truncated = False \<rparr>, s')"
  by (simp add: read_previewer_def with_connection_def execute_read_only_def classify_samples read_block_def then_prog_def
      bind_prog_def catch_prog_def send_def session_sample_def begin_transaction_def run_statement_def end_transaction_def
      Let_def max_rows_def max_result_bytes_def strip_samples parse_samples fetch_rows_def ret_def)
     (simp add: server_sample_def empty_reply_def large_row_encoded [simplified] run_statement_def Let_def
       fetch_rows_def ret_def)

theorem read_leaves_database_witness:
  "ss_committed (snd (execute_read_only server_sample parse_sample (\<lambda>n. if n = 4 then Lost_unsent else Delivered)
     to_iso_sample None None select_text session_sample)) = [7]"
proof -
  have "classify_read_only_sql parse_sample select_text \<noteq> SQL_READ_ONLY_REQUIRED \<Longrightarrow>
      one_statement server_sample (declare_text (strip_statement select_text))"
    by (simp add: strip_samples one_statement_def parse_samples)
  from read_leaves_database [OF prod.collapse [symmetric] idle_sample(1) this] show ?thesis
    by (simp add: idle_sample)
qed

definition command_sample :: js where
  "command_sample =
     Obj [(u ''kind'', Str (u ''sql.previewRead'')), (u ''commandId'', Str (u ''c'')), (u ''issuedAt'', Str (u ''now'')),
          (u ''nonce'', Str (u ''n'')), (u ''actor'', Obj [(u ''role'', Str (u ''ops_maintainer''))]),
          (u ''payload'', Obj [(u ''sql'', Str select_text)]), (u ''signature'', Str (u ''x''))]"

definition env_sample :: "(int list, bool) session protocol_env" where
  "env_sample =
     \<lparr> pe_sign = (\<lambda>_. u ''x''), pe_date = (\<lambda>_. Some 0), pe_bytes = (\<lambda>_. None), pe_now = 0, pe_consume = (\<lambda>_. ret True),
       pe_workers = \<lparr> wk_read = Some (read_worker server_sample parse_sample (\<lambda>_. Delivered) to_iso_sample None, ret Null),
                      wk_mutation = None, wk_targets = None, wk_explorer = None \<rparr>,
       pe_parse_sql = parse_sample, pe_iso = to_iso_sample \<rparr>"

lemma command_members:
  "text_member command_sample ''kind'' = u ''sql.previewRead''"
  "object_member command_sample ''payload'' = Obj [(u ''sql'', Str select_text)]"
  "authenticate_value env_sample command_sample s = (Inr True, s)"
  by (simp_all add: command_sample_def text_member_def object_member_def member_def authenticate_value_def is_record_def
      env_sample_def maintainer_role_def signature_bytes_def ret_def del: u_simps add: kind_neq)

lemma payload_sample: "read_payload (Obj [(u ''sql'', Str select_text)]) = Some (select_text, None)"
proof -
  have "statement_text (Str select_text) = Some select_text"
    by (simp add: statement_text_def select_text_def trim_units_def unit_white_def word_le_nat_alt)
  then show ?thesis by (simp add: read_payload_def is_record_def member_def bound_of_def)
qed

theorem large_read_never_arrives_witness:
  "client_run (\<lambda>b. if b = stringify env_sample protocol_error then Some protocol_error else None) (u ''c'') []
     (fst (answer_all env_sample [command_sample] session_sample)) = Rejected ''SQL_WORKER_RESPONSE_MISMATCH''"
proof -
  obtain s2 where s2: "read_previewer server_sample (pe_parse_sql env_sample) (\<lambda>_. Delivered) to_iso_sample None select_text None
      session_sample = (Inr \<lparr> br_rows = [encode_row to_iso_sample (rp_objects empty_reply) large_row],
        br_bytes = 4 + int large_length, br_truncated = False \<rparr>, s2)"
    using read_sample by (auto simp: env_sample_def)
  have payload: "read_payload (object_member command_sample ''payload'') = Some (select_text, None)"
    unfolding command_members by (rule payload_sample)
  show ?thesis
    by (rule large_read_never_arrives [OF command_members(3,1) _ payload s2])
       (simp_all add: env_sample_def large_length_def)
qed

text \<open>A command of a maintainer with a wrong signature, to an environment whose worker reads a million rows.\<close>

definition forged_sample :: js where
  "forged_sample =
     Obj [(u ''kind'', Str (u ''sql.previewRead'')), (u ''actor'', Obj [(u ''role'', Str (u ''ops_maintainer''))]),
       (u ''signature'', Str (u ''y''))]"

lemma forged_not_authentic: "\<not> authentic env_sample forged_sample"
  by (simp add: authentic_def env_sample_def forged_sample_def signature_bytes_def member_def utf8_Cons utf8_unit_def)

theorem only_maintainers_reach_data_witness:
  "snd (answer env_sample forged_sample session_sample) = session_sample"
proof (rule only_maintainers_reach_data [where I = "\<lambda>s. s = session_sample"])
  show "\<not> (admitted env_sample forged_sample session_sample \<and> from_maintainer forged_sample)"
    by (simp add: admitted_def forged_not_authentic)
  show "keeps (\<lambda>s. s = session_sample) (pe_consume env_sample n)" for n by (simp add: env_sample_def keeps_ret)
qed (auto simp: admitted_def forged_not_authentic)

end
