(* ===== verification/ConfigService.thy ===== *)
theory ConfigService
  imports ConfigRuns "HOL-Library.Word"
begin

text \<open>
  The service of configuration changes (apps/api/src/modules/variables/configChangeService.ts) over the
  repository in PostgreSQL and the agent, wired as in apps/api/src/runtime/createOpsApiRuntime.ts, with
  the schema of its status answers (packages/config-contracts/src/changeProtocol.ts).

  An operation is a program over the tables, the incidents and the state of the agent. Before the n-th
  call of the database others may have changed the tables (\<open>ve_others\<close>), and the call may fail before
  it has an effect (\<open>ve_failing\<close>). The agent is a record of programs on its own state; its errors and
  those of the database are \<open>Failure\<close> with their message. SHA-256, the random identifiers, the clock and
  the keys of run rows are arguments. The watch over a run, which the code starts and does not await, is
  put into \<open>sv_watches\<close>; \<open>monitor_apply\<close> is that watch.
\<close>

section \<open>Errors and state\<close>

datatype service_code =
    CONFIG_CHANGE_NOT_FOUND | CONFIG_CHANGE_INVALID_STATE | CONFIG_SOURCE_CHANGED
  | CONFIG_APPLICATION_BLOCKED | CONFIG_CONTROL_DEGRADED | CONFIG_CHANGE_AGENT_ERROR

datatype service_error = Service service_code | Failure string

fun code_text :: "service_code \<Rightarrow> string" where
  "code_text CONFIG_CHANGE_NOT_FOUND = ''CONFIG_CHANGE_NOT_FOUND''"
| "code_text CONFIG_CHANGE_INVALID_STATE = ''CONFIG_CHANGE_INVALID_STATE''"
| "code_text CONFIG_SOURCE_CHANGED = ''CONFIG_SOURCE_CHANGED''"
| "code_text CONFIG_APPLICATION_BLOCKED = ''CONFIG_APPLICATION_BLOCKED''"
| "code_text CONFIG_CONTROL_DEGRADED = ''CONFIG_CONTROL_DEGRADED''"
| "code_text CONFIG_CHANGE_AGENT_ERROR = ''CONFIG_CHANGE_AGENT_ERROR''"

fun error_message :: "service_error \<Rightarrow> string" where
  "error_message (Service c) = code_text c"
| "error_message (Failure m) = m"

fun machine_message :: "change_error \<Rightarrow> string" where
  "machine_message CHANGE_TRANSITION_ID_INVALID = ''CHANGE_TRANSITION_ID_INVALID''"
| "machine_message CHANGE_VERSION_INVALID = ''CHANGE_VERSION_INVALID''"
| "machine_message CHANGE_STATE_INVALID = ''CHANGE_STATE_INVALID''"
| "machine_message CHANGE_TRANSITION_ID_DUPLICATE = ''CHANGE_TRANSITION_ID_DUPLICATE''"
| "machine_message CHANGE_EVENT_ID_DUPLICATE = ''CHANGE_EVENT_ID_DUPLICATE''"
| "machine_message CHANGE_SEQUENCE_NOT_MONOTONIC = ''CHANGE_SEQUENCE_NOT_MONOTONIC''"
| "machine_message CHANGE_EVENT_TRANSITION_INVALID = ''CHANGE_EVENT_TRANSITION_INVALID''"
| "machine_message CHANGE_SEQUENCE_INVALID = ''CHANGE_SEQUENCE_INVALID''"
| "machine_message CHANGE_EVENT_CHAIN_INVALID = ''CHANGE_EVENT_CHAIN_INVALID''"
| "machine_message CHANGE_STATE_EVENT_MISMATCH = ''CHANGE_STATE_EVENT_MISMATCH''"
| "machine_message CHANGE_VERSION_EXHAUSTED = ''CHANGE_VERSION_EXHAUSTED''"
| "machine_message CHANGE_IDEMPOTENCY_CONFLICT = ''CHANGE_IDEMPOTENCY_CONFLICT''"
| "machine_message CHANGE_VERSION_CONFLICT = ''CHANGE_VERSION_CONFLICT''"
| "machine_message CHANGE_TRANSITION_TERMINAL = ''CHANGE_TRANSITION_TERMINAL''"
| "machine_message CHANGE_TRANSITION_ILLEGAL = ''CHANGE_TRANSITION_ILLEGAL''"
| "machine_message CHANGE_TRANSITION_INPUT_INVALID = ''CHANGE_TRANSITION_INPUT_INVALID''"
| "machine_message CHANGE_TIMESTAMP_INVALID = ''CHANGE_TIMESTAMP_INVALID''"
| "machine_message CHANGE_ID_INVALID = ''CHANGE_ID_INVALID''"
| "machine_message CHANGE_SUPERSEDES_SELF = ''CHANGE_SUPERSEDES_SELF''"
| "machine_message CHANGE_SUPERSEDES_APPLICATION_MISMATCH = ''CHANGE_SUPERSEDES_APPLICATION_MISMATCH''"
| "machine_message CHANGE_SUPERSEDES_STATE_INVALID = ''CHANGE_SUPERSEDES_STATE_INVALID''"
| "machine_message CHANGE_APPLICATION_INVALID = ''CHANGE_APPLICATION_INVALID''"
| "machine_message CHANGE_ACTOR_INVALID = ''CHANGE_ACTOR_INVALID''"

fun config_message :: "config_error \<Rightarrow> string" where
  "config_message (Metadata_error m) = m"
| "config_message (Config_error m) = m"
| "config_message (Machine_error e) = machine_message e"
| "config_message Constraint_error = ''constraint violated''"

record principal =
  pr_user :: string
  pr_session :: string
  pr_role :: string
  pr_ip :: string
  pr_agent :: string

record apply_request =
  ar_change :: string
  ar_run :: string
  ar_digest :: string
  ar_key :: string

record 'a service_state =
  sv_db :: config_db
  sv_calls :: nat
  sv_incidents :: "(string \<times> string \<times> string) list"
  sv_watches :: "(principal \<times> apply_request) list"
  sv_agent :: 'a

type_synonym ('a, 'x) service_prog = "('a service_state, service_error, 'x) prog"

record service_env =
  ve_config :: config_env
  ve_others :: "nat \<Rightarrow> config_db \<Rightarrow> config_db"
  ve_failing :: "nat \<Rightarrow> string option"
  ve_sha256 :: "string \<Rightarrow> 8 word list"
  ve_run_key :: "run_row \<Rightarrow> string"
  ve_datetime :: "string \<Rightarrow> bool"
  ve_catalog :: string
  ve_manifest :: string
  ve_key_version :: string
  ve_draft :: bool
  ve_runtime :: bool
  ve_build :: bool

text \<open>A call of the database: others come first, then it fails or is executed.\<close>

definition before_call :: "service_env \<Rightarrow> 'a service_state \<Rightarrow> 'a service_state" where
  "before_call env s = s\<lparr>sv_db := ve_others env (sv_calls s) (sv_db s), sv_calls := sv_calls s + 1\<rparr>"

definition repository :: "service_env \<Rightarrow> 'x config_prog \<Rightarrow> ('a, 'x) service_prog" where
  "repository env m s =
     (let s1 = before_call env s in
      case ve_failing env (sv_calls s) of
        Some e \<Rightarrow> (Inl (Failure e), s1)
      | None \<Rightarrow> (case m (sv_db s1) of
          (Inl e, d) \<Rightarrow> (Inl (Failure (config_message e)), s1\<lparr>sv_db := d\<rparr>)
        | (Inr x, d) \<Rightarrow> (Inr x, s1\<lparr>sv_db := d\<rparr>)))"

definition create_incident :: "service_env \<Rightarrow> string \<Rightarrow> string \<Rightarrow> string \<Rightarrow> ('a, unit) service_prog" where
  "create_incident env actor title summary s =
     (let s1 = before_call env s in
      case ve_failing env (sv_calls s) of
        Some e \<Rightarrow> (Inl (Failure e), s1)
      | None \<Rightarrow> (Inr (), s1\<lparr>sv_incidents := sv_incidents s1 @ [(actor, title, summary)]\<rparr>))"

definition ask :: "('a, string, 'x) prog \<Rightarrow> ('a, 'x) service_prog" where
  "ask m s =
     (case m (sv_agent s) of
        (Inl e, g) \<Rightarrow> (Inl (Failure e), s\<lparr>sv_agent := g\<rparr>)
      | (Inr x, g) \<Rightarrow> (Inr x, s\<lparr>sv_agent := g\<rparr>))"

definition attempt :: "('a, 'x) service_prog \<Rightarrow> ('a, service_error + 'x) service_prog" where
  "attempt m s = (case m s of (r, s') \<Rightarrow> (Inr r, s'))"

definition refuse :: "service_code \<Rightarrow> ('a, 'x) service_prog" where
  "refuse c = throw (Service c)"

section \<open>Identifiers\<close>

definition hex_char :: "8 word \<Rightarrow> char" where
  "hex_char w = ''0123456789abcdef'' ! (unat w mod 16)"

definition byte_hex :: "8 word \<Rightarrow> string" where
  "byte_hex b = [hex_char (drop_bit 4 b), hex_char b]"

definition database_uuid :: "service_env \<Rightarrow> string \<Rightarrow> string" where
  "database_uuid env seed =
     (let bytes = ve_sha256 env seed;
          bytes = bytes[6 := or (and (bytes ! 6) 0x0F) 0x40];
          bytes = bytes[8 := or (and (bytes ! 8) 0x3F) 0x80];
          hex = concat (map byte_hex (take 16 bytes)) in
      take 8 hex @ ''-'' @ take 4 (drop 8 hex) @ ''-'' @ take 4 (drop 12 hex) @ ''-''
        @ take 4 (drop 16 hex) @ ''-'' @ drop 20 hex)"

section \<open>Records of changes\<close>

record change_view =
  cw_id :: string
  cw_application :: string
  cw_actor :: string
  cw_session :: string
  cw_state :: change_state
  cw_reason :: string
  cw_digest :: "string option"
  cw_catalog :: string
  cw_manifest :: string
  cw_plan :: impact_plan
  cw_version :: int
  cw_expires :: millis

definition empty_plan :: "string \<Rightarrow> impact_plan" where
  "empty_plan app =
     \<lparr> ip_keys = [''applicationId'', ''sourceIds'', ''actionIds'', ''checkIds'', ''strategies'', ''counts'',
         ''warnings'', ''expectedEffect''],
       ip_application = app, ip_sources = [], ip_actions = [], ip_checks = [], ip_strategies = [],
       ip_counts = \<lparr> ic_keys = [''items'', ''sets'', ''deletes'', ''sources''], ic_items = 0, ic_sets = 0,
                     ic_deletes = 0, ic_sources = 0 \<rparr>,
       ip_warnings = [], ip_effect = ''no_runtime_action'' \<rparr>"

definition view_of_row :: "change_row \<Rightarrow> change_view" where
  "view_of_row c =
     \<lparr> cw_id = cc_id c, cw_application = cc_application c, cw_actor = cc_actor c, cw_session = cc_session c,
       cw_state = cc_state c, cw_reason = cc_reason c, cw_digest = cc_digest c, cw_catalog = cc_catalog c,
       cw_manifest = cc_manifest c, cw_plan = cc_plan c, cw_version = cc_version c, cw_expires = cc_expires c \<rparr>"

definition view_of_transition :: "service_env \<Rightarrow> transition_input \<Rightarrow> transition_result \<Rightarrow> change_view" where
  "view_of_transition env i r =
     \<lparr> cw_id = tr_change r, cw_application = tr_application r, cw_actor = ti_actor i, cw_session = ti_session i,
       cw_state = tr_state r, cw_reason = [], cw_digest = None, cw_catalog = ve_catalog env,
       cw_manifest = ve_catalog env, cw_plan = empty_plan (tr_application r), cw_version = tr_version r,
       cw_expires = 0 \<rparr>"

definition find_by_id :: "service_env \<Rightarrow> string \<Rightarrow> ('a, change_view option) service_prog" where
  "find_by_id env i = bind_prog (repository env (get_change i)) (\<lambda>c. ret (map_option view_of_row c))"

definition require_record :: "change_view option \<Rightarrow> ('a, change_view) service_prog" where
  "require_record c = (case c of None \<Rightarrow> refuse CONFIG_CHANGE_NOT_FOUND | Some r \<Rightarrow> ret r)"

definition transition_call :: "service_env \<Rightarrow> transition_input \<Rightarrow> ('a, change_view) service_prog" where
  "transition_call env i =
     bind_prog (repository env (transition_row (ve_config env) i)) (\<lambda>r. ret (view_of_transition env i r))"

text \<open>The key of the last run of a change (\<open>findLatestRunId\<close> of the repository).\<close>

definition find_latest_run_id :: "(run_row \<Rightarrow> string) \<Rightarrow> string \<Rightarrow> string option config_prog" where
  "find_latest_run_id key i =
     checked (bad_uuid i ''CONFIG_CHANGE_ID_INVALID'') (\<lambda>db.
       (Inr (case sort_key rr_sequence (runs_of i db) of [] \<Rightarrow> None | r # rs \<Rightarrow> Some (key (last (r # rs)))), db))"

section \<open>Status answers\<close>

text \<open>A member that is not required: absent, null, or a text. A time: a text, or a Date of the driver.\<close>

datatype 'x member_value = Absent | Null_value | Value 'x

datatype occurred = Occurred_text string | Occurred_date

record status_event =
  se_event :: string
  se_change :: string
  se_sequence :: int
  se_state :: change_state
  se_reason :: string
  se_action :: "string member_value"
  se_check :: "string member_value"
  se_occurred :: occurred

record status_response =
  st_change :: string
  st_state :: change_state
  st_sequence :: int
  st_events :: "status_event list"
  st_plan :: "impact_plan option"
  st_digest :: "string option"

text \<open>\<open>stableIdPattern\<close>: groups of lower case letters and digits with single separators between them.\<close>

fun stable_tail :: "bool \<Rightarrow> string \<Rightarrow> bool" where
  "stable_tail after_group [] = after_group"
| "stable_tail after_group (c # cs) =
     (if is_lower c \<or> is_digit c then stable_tail True cs
      else after_group \<and> c \<in> set ''._-'' \<and> stable_tail False cs)"

definition stable_id :: "string \<Rightarrow> bool" where
  "stable_id s = stable_tail False s"

definition opaque_uuid :: "string \<Rightarrow> bool" where
  "opaque_uuid s \<longleftrightarrow>
     length s = 36 \<and>
     list_all (\<lambda>(i, c). if i \<in> {8, 13, 18, 23} then c = CHR ''-''
                        else if i = 14 then c \<in> set ''12345''
                        else if i = 19 then c \<in> set ''89ab''
                        else lower_hex c)
              (zip [0..<36] s)"

definition prefixed_id :: "string \<Rightarrow> string \<Rightarrow> bool" where
  "prefixed_id prefix s \<longleftrightarrow>
     opaque_uuid s \<or> starts_with prefix s \<and> length s > 4 \<and> list_all (\<lambda>c. is_alnum c \<or> c = CHR ''_'') (drop 4 s)"

definition status_plan_schema :: "impact_plan \<Rightarrow> bool" where
  "status_plan_schema p \<longleftrightarrow>
     set (ip_keys p) = set [''applicationId'', ''sourceIds'', ''actionIds'', ''checkIds'', ''strategies'', ''counts'',
       ''warnings'', ''expectedEffect''] \<and>
     stable_id (ip_application p) \<and> list_all (\<lambda>x. x \<in> set strategies) (ip_strategies p) \<and>
     list_all stable_id (ip_sources p @ ip_actions p @ ip_checks p) \<and>
     set (ic_keys (ip_counts p)) = set [''items'', ''sets'', ''deletes'', ''sources''] \<and>
     0 \<le> ic_items (ip_counts p) \<and> 0 \<le> ic_sets (ip_counts p) \<and> 0 \<le> ic_deletes (ip_counts p) \<and>
     0 \<le> ic_sources (ip_counts p) \<and> list_all (\<lambda>w. w \<noteq> [] \<and> length w \<le> 512) (ip_warnings p) \<and>
     ip_effect p \<in> set strategies"

definition status_event_schema :: "service_env \<Rightarrow> status_event \<Rightarrow> bool" where
  "status_event_schema env e \<longleftrightarrow>
     prefixed_id ''EVT_'' (se_event e) \<and> prefixed_id ''CHG_'' (se_change e) \<and> 0 < se_sequence e \<and>
     stable_id (se_reason e) \<and>
     (case se_action e of Absent \<Rightarrow> True | Null_value \<Rightarrow> False | Value a \<Rightarrow> stable_id a) \<and>
     (case se_check e of Absent \<Rightarrow> True | Null_value \<Rightarrow> False | Value a \<Rightarrow> stable_id a) \<and>
     (case se_occurred e of Occurred_text t \<Rightarrow> ve_datetime env t | Occurred_date \<Rightarrow> False)"

definition status_schema :: "service_env \<Rightarrow> status_response \<Rightarrow> bool" where
  "status_schema env r \<longleftrightarrow>
     prefixed_id ''CHG_'' (st_change r) \<and> 0 \<le> st_sequence r \<and> list_all (status_event_schema env) (st_events r) \<and>
     (case st_plan r of None \<Rightarrow> True | Some p \<Rightarrow> status_plan_schema p) \<and>
     (case st_digest r of None \<Rightarrow> True | Some d \<Rightarrow> fingerprint_pattern d)"

definition parse_status :: "service_env \<Rightarrow> status_response \<Rightarrow> ('a, status_response) service_prog" where
  "parse_status env r = (if status_schema env r then ret r else throw (Failure ''ZodError''))"

text \<open>An event as the database answers it: a missing action or check is null, the time is a Date.\<close>

definition event_of_row :: "string \<Rightarrow> event_record \<Rightarrow> status_event" where
  "event_of_row i e =
     \<lparr> se_event = er_event e, se_change = i, se_sequence = er_sequence e, se_state = er_state e,
       se_reason = er_reason e, se_action = (case er_action e of None \<Rightarrow> Null_value | Some a \<Rightarrow> Value a),
       se_check = (case er_check e of None \<Rightarrow> Null_value | Some a \<Rightarrow> Value a), se_occurred = Occurred_date \<rparr>"

section \<open>The agent\<close>

record request_item =
  qi_source :: string
  qi_catalog :: string
  qi_operation :: string
  qi_requirement :: string
  qi_strategy :: string
  qi_fingerprint :: string
  qi_value :: "string option"

record validate_request =
  vr_change :: string
  vr_application :: string
  vr_reason :: string
  vr_items :: "request_item list"
  vr_replace :: bool
  vr_catalog :: string
  vr_manifest :: string

record item_fingerprint =
  if_catalog :: string
  if_source :: string
  if_old :: "string option"
  if_new :: "string option"

record validation_response =
  vp_change :: string
  vp_state :: change_state
  vp_digest :: string
  vp_fingerprints :: "item_fingerprint list"
  vp_plan :: impact_plan
  vp_rules :: "string list"
  vp_warnings :: "string list"

record save_request =
  sr_change :: string
  sr_digest :: string
  sr_catalog :: string
  sr_manifest :: string

record saved_response =
  sp_change :: string
  sp_digest :: string
  sp_expires :: string

record clear_request =
  cq_application :: string
  cq_confirmation :: string
  cq_remediation :: string
  cq_incident :: string
  cq_event :: string

record 'a config_agent =
  ag_validate :: "principal \<Rightarrow> validate_request \<Rightarrow> ('a, string, validation_response) prog"
  ag_save :: "principal \<Rightarrow> save_request \<Rightarrow> ('a, string, saved_response) prog"
  ag_apply :: "principal \<Rightarrow> apply_request \<Rightarrow> ('a, string, string \<times> string) prog"
  ag_cancel :: "principal \<Rightarrow> string \<Rightarrow> string \<Rightarrow> ('a, string, string) prog"
  ag_status :: "principal \<Rightarrow> string \<Rightarrow> string option \<Rightarrow> ('a, string, status_response) prog"
  ag_clear :: "principal \<Rightarrow> clear_request \<Rightarrow> ('a, string, string) prog"

section \<open>Following a run\<close>

definition to_upper :: "string \<Rightarrow> string" where
  "to_upper s = map (\<lambda>c. if is_lower c then char_of ((of_char c :: nat) - 32) else c) s"

definition transition_keys :: "string list" where
  "transition_keys = [''changeId'', ''applicationId'', ''transitionId'', ''eventId'', ''runId'', ''actorUserId'',
     ''actorSessionId'', ''expectedVersion'', ''to'']"

definition reconcile_input :: "service_env \<Rightarrow> change_view \<Rightarrow> change_state \<Rightarrow> string \<Rightarrow> string option \<Rightarrow> transition_input" where
  "reconcile_input env c state seed reason =
     (let code = truthy reason in
      \<lparr> ti_keys = transition_keys @ (case code of None \<Rightarrow> [] | Some _ \<Rightarrow> [''resultCode'']),
        ti_change = cw_id c, ti_application = cw_application c,
        ti_transition = database_uuid env (''config-reconcile-transition:'' @ seed),
        ti_event = database_uuid env (''config-reconcile-event:'' @ seed),
        ti_run = database_uuid env (''config-reconcile-run:'' @ cw_id c),
        ti_actor = cw_actor c, ti_session = cw_session c, ti_expected = cw_version c, ti_to = state,
        ti_action = None, ti_check = None, ti_code = map_option to_upper code, ti_summary = None,
        ti_snapshot = None, ti_rollback = None \<rparr>)"

definition transition_database ::
  "service_env \<Rightarrow> change_view \<Rightarrow> change_state \<Rightarrow> string \<Rightarrow> string option \<Rightarrow> ('a, change_view) service_prog" where
  "transition_database env c state seed reason =
     (if cw_state c = state then ret c else transition_call env (reconcile_input env c state seed reason))"

fun reconcile_events ::
  "service_env \<Rightarrow> string \<Rightarrow> status_event list \<Rightarrow> change_view \<Rightarrow> ('a, change_view) service_prog" where
  "reconcile_events env i [] current = ret current"
| "reconcile_events env i (e # es) current =
     (if se_state e = cw_state current then reconcile_events env i es current
      else bind_prog
        (catch_prog (transition_database env current (se_state e) (i @ '':'' @ se_event e) (Some (se_reason e)))
          (\<lambda>err. bind_prog (find_by_id env i) (\<lambda>refreshed.
             case refreshed of
               None \<Rightarrow> throw err
             | Some c \<Rightarrow> if cw_state c \<noteq> se_state e then throw err else ret c)))
        (reconcile_events env i es))"

definition block_after_failure ::
  "service_env \<Rightarrow> change_view \<Rightarrow> string \<Rightarrow> string \<Rightarrow> string \<Rightarrow> string \<Rightarrow> ('a, unit) service_prog" where
  "block_after_failure env c fallback reason title summary =
     bind_prog (repository env (find_latest_run_id (ve_run_key env) (cw_id c))) (\<lambda>latest.
     bind_prog (repository env (block_application_row (cw_application c)
       (case latest of None \<Rightarrow> database_uuid env fallback | Some k \<Rightarrow> k) (cw_id c) reason (cw_actor c))) (\<lambda>blocked.
     when_prog blocked (create_incident env (cw_actor c) (title @ cw_application c) summary)))"

definition reconcile_agent_status ::
  "service_env \<Rightarrow> change_view \<Rightarrow> status_response \<Rightarrow> ('a, change_view) service_prog" where
  "reconcile_agent_status env c r =
     bind_prog (reconcile_events env (cw_id c) (st_events r) c) (\<lambda>current.
     then_prog (when_prog (st_state r = ROLLBACK_FAILED)
       (block_after_failure env c (''config-failed-run:'' @ cw_id c @ '':'' @ string_of_int (st_sequence r))
          ''ROLLBACK_FAILED'' ''Configuration rollback failed for ''
          ''Automatic configuration rollback failed; remediation is required.''))
     (ret current))"

definition finish_dispatch_failure :: "service_env \<Rightarrow> change_view \<Rightarrow> change_view \<Rightarrow> ('a, unit) service_prog" where
  "finish_dispatch_failure env c current =
     when_prog (cw_state current = ROLLBACK_FAILED)
       (block_after_failure env c (''config-failed-run:'' @ cw_id c @ '':dispatch'') ''DISPATCH_FAILED''
          ''Configuration dispatch failed for ''
          ''Config Agent dispatch failed after database apply state was recorded.'')"

definition recover_dispatch_failure :: "service_env \<Rightarrow> change_view \<Rightarrow> change_view \<Rightarrow> ('a, unit) service_prog" where
  "recover_dispatch_failure env c current =
     bind_prog (find_by_id env (cw_id c)) (\<lambda>refreshed.
       let now = (case refreshed of None \<Rightarrow> current | Some r \<Rightarrow> r) in
       if cw_state now = ROLLING_BACK then
         bind_prog (attempt (transition_database env now ROLLBACK_FAILED (cw_id c @ '':dispatch:failed:retry'') None)) (\<lambda>r.
           case r of
             Inr d \<Rightarrow> finish_dispatch_failure env c d
           | Inl _ \<Rightarrow> bind_prog (find_by_id env (cw_id c)) (\<lambda>again.
               finish_dispatch_failure env c (case again of None \<Rightarrow> now | Some d \<Rightarrow> d)))
       else finish_dispatch_failure env c now)"

definition persist_dispatch_failure :: "service_env \<Rightarrow> change_view \<Rightarrow> ('a, unit) service_prog" where
  "persist_dispatch_failure env c =
     when_prog (cw_state c = APPLYING)
       (bind_prog (attempt (transition_database env c ROLLING_BACK (cw_id c @ '':dispatch:rollback'') None)) (\<lambda>r1.
          case r1 of
            Inl _ \<Rightarrow> recover_dispatch_failure env c c
          | Inr c1 \<Rightarrow>
              bind_prog (attempt (transition_database env c1 ROLLBACK_FAILED (cw_id c @ '':dispatch:failed'') None)) (\<lambda>r2.
                case r2 of
                  Inl _ \<Rightarrow> recover_dispatch_failure env c c1
                | Inr c2 \<Rightarrow> finish_dispatch_failure env c c2)))"

definition terminal_states :: "change_state list" where
  "terminal_states = [COMPLETED, ROLLED_BACK, ROLLBACK_FAILED, CANCELLED, EXPIRED, INVALID]"

text \<open>One poll of the watch answers whether the run has ended.\<close>

definition poll :: "service_env \<Rightarrow> 'a config_agent \<Rightarrow> principal \<Rightarrow> string \<Rightarrow> ('a, bool) service_prog" where
  "poll env agent p i =
     catch_prog
       (bind_prog (ask (ag_status agent p i None)) (\<lambda>answer.
        bind_prog (parse_status env answer) (\<lambda>r.
        bind_prog (find_by_id env i) (\<lambda>c.
        then_prog (case c of None \<Rightarrow> ret () | Some v \<Rightarrow> bind_prog (reconcile_agent_status env v r) (\<lambda>_. ret ()))
          (ret (st_state r \<in> set terminal_states))))))
       (\<lambda>_. ret False)"

fun poll_loop :: "nat \<Rightarrow> service_env \<Rightarrow> 'a config_agent \<Rightarrow> principal \<Rightarrow> string \<Rightarrow> ('a, bool) service_prog" where
  "poll_loop 0 env agent p i = ret False"
| "poll_loop (Suc n) env agent p i =
     bind_prog (poll env agent p i) (\<lambda>ended. if ended then ret True else poll_loop n env agent p i)"

definition monitor_apply :: "service_env \<Rightarrow> 'a config_agent \<Rightarrow> principal \<Rightarrow> string \<Rightarrow> ('a, unit) service_prog" where
  "monitor_apply env agent p i =
     bind_prog (poll_loop 300 env agent p i) (\<lambda>ended.
       if ended then ret ()
       else bind_prog (find_by_id env i) (\<lambda>c.
         case c of
           None \<Rightarrow> ret ()
         | Some v \<Rightarrow> when_prog (cw_state v = APPLYING) (persist_dispatch_failure env v)))"

section \<open>Operations\<close>

definition create_draft ::
  "service_env \<Rightarrow> principal \<Rightarrow> string \<Rightarrow> string \<Rightarrow> string option \<Rightarrow> string \<Rightarrow> millis
     \<Rightarrow> ('a, string \<times> millis) service_prog" where
  "create_draft env p app reason supersedes new_id now =
     (if \<not> ve_draft env then refuse CONFIG_CONTROL_DEGRADED
      else if \<not> application_column app then refuse CONFIG_CHANGE_AGENT_ERROR
      else then_prog (repository env (create_change (ve_config env)
        \<lparr> ci_keys = [''id'', ''actorUserId'', ''actorSessionId'', ''applicationId'', ''reason''] @
            (case truthy supersedes of None \<Rightarrow> [] | Some _ \<Rightarrow> [''supersedesChangeId'']) @
            [''catalogVersion'', ''manifestVersion'', ''keyVersion'', ''expiresAt'', ''impactPlan''],
          ci_id = new_id, ci_supersedes = truthy supersedes, ci_actor = pr_user p, ci_session = pr_session p,
          ci_application = app, ci_reason = reason, ci_digest = None, ci_catalog = ve_catalog env,
          ci_manifest = ve_manifest env, ci_key_version = ve_key_version env, ci_plan = empty_plan app,
          ci_envelope = None, ci_expires = Some (now + 86400000) \<rparr>))
        (ret (new_id, now + 86400000)))"

definition item_key :: "string \<Rightarrow> string \<Rightarrow> string" where
  "item_key source catalog = source @ [CHR 0x00] @ catalog"

definition validated_item :: "(string \<rightharpoonup> request_item) \<Rightarrow> item_fingerprint \<Rightarrow> service_error + change_item" where
  "validated_item requested f =
     (case requested (item_key (if_source f) (if_catalog f)) of
        None \<Rightarrow> Inl (Service CONFIG_CHANGE_AGENT_ERROR)
      | Some q \<Rightarrow> Inr
          \<lparr> it_keys = [''catalogId'', ''sourceId'', ''operation'', ''requirement'', ''strategy'', ''oldValueFingerprint'',
              ''newValueFingerprint'', ''observedSourceFingerprint''],
            it_catalog = if_catalog f, it_source = if_source f, it_operation = qi_operation q,
            it_requirement = (if qi_requirement q = ''unknown'' then ''optional'' else qi_requirement q),
            it_strategy = qi_strategy q, it_old = if_old f,
            it_new = (if qi_operation q = ''delete'' then None else if_new f), it_observed = Some (qi_fingerprint q) \<rparr>)"

fun validated_items :: "(string \<rightharpoonup> request_item) \<Rightarrow> item_fingerprint list \<Rightarrow> service_error + change_item list" where
  "validated_items requested [] = Inr []"
| "validated_items requested (f # fs) =
     (case validated_item requested f of
        Inl e \<Rightarrow> Inl e
      | Inr x \<Rightarrow> (case validated_items requested fs of Inl e \<Rightarrow> Inl e | Inr xs \<Rightarrow> Inr (x # xs)))"

text \<open>The runtime checks the fingerprints (\<open>configFingerprint\<close>) and makes empty ones null.\<close>

definition adapted_item :: "change_item \<Rightarrow> change_item" where
  "adapted_item i = i\<lparr>it_old := truthy (it_old i), it_new := truthy (it_new i)\<rparr>"

definition adapted_checks :: "change_item \<Rightarrow> config_checks" where
  "adapted_checks i =
     when_truthy (it_old i) (\<lambda>f. bad_fingerprint f ''CONFIG_FINGERPRINT_INVALID'') @
     when_truthy (it_new i) (\<lambda>f. bad_fingerprint f ''CONFIG_FINGERPRINT_INVALID'') @
     when_some (it_observed i) (\<lambda>f. bad_fingerprint f ''CONFIG_FINGERPRINT_INVALID'')"

text \<open>\<open>updateValidation\<close> of the repository is three transactions.\<close>

definition store_validation ::
  "service_env \<Rightarrow> string \<Rightarrow> string \<Rightarrow> impact_plan \<Rightarrow> change_item list \<Rightarrow> change_state \<Rightarrow> ('a, unit) service_prog" where
  "store_validation env i digest plan items state =
     (case run_checks (concat (map adapted_checks items)) of
        Inl e \<Rightarrow> throw (Failure (config_message e))
      | Inr _ \<Rightarrow>
          then_prog (repository env (begin_validation i digest plan (map adapted_item items)))
          (then_prog (repository env (replace_items i (map adapted_item items)))
          (repository env (finish_validation i digest plan state))))"

definition validate ::
  "service_env \<Rightarrow> 'a config_agent \<Rightarrow> principal \<Rightarrow> validate_request \<Rightarrow> ('a, validation_response) service_prog" where
  "validate env agent p body =
     (if \<not> ve_draft env then refuse CONFIG_CONTROL_DEGRADED
      else bind_prog (bind_prog (find_by_id env (vr_change body)) require_record) (\<lambda>c.
        if cw_actor c \<noteq> pr_user p \<or> cw_session c \<noteq> pr_session p then refuse CONFIG_CHANGE_NOT_FOUND
        else catch_prog
          (bind_prog (ask (ag_validate agent p body)) (\<lambda>result.
             case validated_items (map_of (rev (map (\<lambda>q. (item_key (qi_source q) (qi_catalog q), q)) (vr_items body))))
                    (vp_fingerprints result) of
               Inl e \<Rightarrow> throw e
             | Inr items \<Rightarrow>
                 then_prog (store_validation env (vr_change body) (vp_digest result) (vp_plan result) items
                   (if vp_state result = READY then READY else INVALID)) (ret result)))
          (\<lambda>e. case e of
             Service c \<Rightarrow> refuse c
           | Failure m \<Rightarrow> if contains_str ''CONFIG_SOURCE_CHANGED'' m then refuse CONFIG_SOURCE_CHANGED
                          else refuse CONFIG_CHANGE_AGENT_ERROR)))"

definition replace_draft_items ::
  "service_env \<Rightarrow> 'a config_agent \<Rightarrow> principal \<Rightarrow> string \<Rightarrow> validate_request \<Rightarrow> ('a, validation_response) service_prog" where
  "replace_draft_items env agent p i body = validate env agent p (body\<lparr>vr_change := i, vr_replace := True\<rparr>)"

definition save ::
  "service_env \<Rightarrow> 'a config_agent \<Rightarrow> principal \<Rightarrow> save_request \<Rightarrow> ('a, saved_response) service_prog" where
  "save env agent p body =
     (if \<not> ve_draft env then refuse CONFIG_CONTROL_DEGRADED
      else bind_prog (bind_prog (find_by_id env (sr_change body)) require_record) (\<lambda>c.
        if cw_state c \<noteq> READY \<or> cw_actor c \<noteq> pr_user p \<or> cw_session c \<noteq> pr_session p
        then refuse CONFIG_CHANGE_INVALID_STATE
        else bind_prog (ask (ag_save agent p body)) (\<lambda>saved.
          then_prog (repository env (mark_saved (sp_change saved) (sp_digest saved) None)) (ret saved))))"

definition apply_input :: "service_env \<Rightarrow> change_view \<Rightarrow> principal \<Rightarrow> apply_request \<Rightarrow> transition_input" where
  "apply_input env c p body =
     \<lparr> ti_keys = transition_keys, ti_change = cw_id c, ti_application = cw_application c,
       ti_transition = database_uuid env
         (''config-transition:'' @ ar_change body @ '':'' @ ar_run body @ '':'' @ ar_key body),
       ti_event = database_uuid env (''config-event:'' @ ar_change body @ '':'' @ ar_key body),
       ti_run = database_uuid env (''config-run:'' @ ar_change body @ '':'' @ ar_run body),
       ti_actor = pr_user p, ti_session = pr_session p, ti_expected = cw_version c, ti_to = APPLYING,
       ti_action = None, ti_check = None, ti_code = None, ti_summary = None, ti_snapshot = None,
       ti_rollback = None \<rparr>"

definition refused_state :: "string \<Rightarrow> bool" where
  "refused_state m \<longleftrightarrow> list_ex (\<lambda>w. contains_str w m) [''INVALID_STATE'', ''VERSION_CONFLICT'', ''TERMINAL'']"

definition apply_failed :: "service_error \<Rightarrow> service_code" where
  "apply_failed e =
     (if contains_str ''CONFIG_APPLICATION_BLOCKED'' (error_message e) then CONFIG_APPLICATION_BLOCKED
      else if refused_state (error_message e) then CONFIG_CHANGE_INVALID_STATE
      else CONFIG_CHANGE_AGENT_ERROR)"

text \<open>The transition of the runtime always answers a record, so the fallback of the code is not needed.\<close>

definition apply_change ::
  "service_env \<Rightarrow> 'a config_agent \<Rightarrow> principal \<Rightarrow> apply_request \<Rightarrow> ('a, string \<times> string) service_prog" where
  "apply_change env agent p body =
     (if \<not> ve_runtime env \<and> \<not> ve_build env then refuse CONFIG_CONTROL_DEGRADED
      else bind_prog (bind_prog (find_by_id env (ar_change body)) require_record) (\<lambda>c.
        if cw_state c \<noteq> SAVED \<or> cw_digest c \<noteq> Some (ar_digest body) \<or> cw_actor c \<noteq> pr_user p
           \<or> cw_session c \<noteq> pr_session p
        then refuse CONFIG_CHANGE_INVALID_STATE
        else bind_prog (attempt (transition_call env (apply_input env c p body))) (\<lambda>moved.
          case moved of
            Inl e \<Rightarrow> refuse (apply_failed e)
          | Inr v \<Rightarrow> bind_prog (attempt (ask (ag_apply agent p body))) (\<lambda>started.
              case started of
                Inl e \<Rightarrow> then_prog (persist_dispatch_failure env v) (refuse (apply_failed e))
              | Inr r \<Rightarrow> then_prog (modify (\<lambda>s. s\<lparr>sv_watches := sv_watches s @ [(p, body)]\<rparr>)) (ret r)))))"

definition database_status :: "service_env \<Rightarrow> string \<Rightarrow> string option \<Rightarrow> ('a, status_response) service_prog" where
  "database_status env i after =
     bind_prog (bind_prog (find_by_id env i) require_record) (\<lambda>c.
     bind_prog (repository env (list_change_events i after)) (\<lambda>events.
     parse_status env
       \<lparr> st_change = cw_id c, st_state = cw_state c, st_sequence = cw_version c,
         st_events = map (event_of_row i) events, st_plan = Some (cw_plan c), st_digest = truthy (cw_digest c) \<rparr>))"

definition status ::
  "service_env \<Rightarrow> 'a config_agent \<Rightarrow> principal \<Rightarrow> string \<Rightarrow> string option \<Rightarrow> ('a, status_response) service_prog" where
  "status env agent p i after =
     catch_prog
       (bind_prog (ask (ag_status agent p i after)) (\<lambda>answer.
        bind_prog (parse_status env answer) (\<lambda>r.
        bind_prog (bind_prog (find_by_id env i) require_record) (\<lambda>c.
        then_prog (reconcile_agent_status env c r) (ret r)))))
       (\<lambda>_. database_status env i after)"

text \<open>\<open>cancel\<close> of the repository is a read and a transaction.\<close>

definition cancel ::
  "service_env \<Rightarrow> 'a config_agent \<Rightarrow> principal \<Rightarrow> string \<Rightarrow> string \<Rightarrow> ('a, string) service_prog" where
  "cancel env agent p i event =
     bind_prog (bind_prog (find_by_id env i) require_record) (\<lambda>c.
       if cw_actor c \<noteq> pr_user p \<or> cw_session c \<noteq> pr_session p \<or> cw_state c \<notin> {DRAFT, READY, SAVED}
       then refuse CONFIG_CHANGE_INVALID_STATE
       else catch_prog
         (bind_prog (ask (ag_cancel agent p i event)) (\<lambda>r.
          bind_prog (repository env (begin_cancel i (pr_user p) (pr_session p))) (\<lambda>row.
          then_prog (repository env (finish_cancel i row)) (ret r))))
         (\<lambda>e. if contains_str ''CONFIG_CHANGE_NOT_FOUND'' (error_message e) then refuse CONFIG_CHANGE_NOT_FOUND
              else if refused_state (error_message e) then refuse CONFIG_CHANGE_INVALID_STATE
              else refuse CONFIG_CHANGE_AGENT_ERROR))"

definition clear_apply_block ::
  "service_env \<Rightarrow> 'a config_agent \<Rightarrow> principal \<Rightarrow> clear_request \<Rightarrow> ('a, string) service_prog" where
  "clear_apply_block env agent p body =
     (if pr_role p \<noteq> ''ops_owner'' then refuse CONFIG_APPLICATION_BLOCKED
      else bind_prog (repository env (clear_block_row (ve_config env) (cq_application body) (pr_user p)
          (cq_remediation body) (cq_incident body))) (\<lambda>cleared.
        if \<not> cleared then refuse CONFIG_CHANGE_INVALID_STATE else ask (ag_clear agent p body)))"

end
