(* ===== verification/ConfigServiceProps.thy ===== *)
theory ConfigServiceProps
  imports ConfigService ConfigProps
begin

text \<open>
  Properties of the service of configuration changes: it acts on the tables only by the transactions of
  the repository, so that what holds of their histories holds of the histories of the service; five of its
  operations are refused to everybody but the owner of a change in its session; and what becomes of a run that the agent has started.
\<close>

section \<open>The service is a client of the repository\<close>

text \<open>
  An invariant of the tables that others and the transactions of the repository keep is kept by every
  operation of the service, whatever the agent does and whichever call fails.
\<close>

locale service_client =
  fixes env :: service_env and I :: "config_db \<Rightarrow> bool"
  assumes others: "I db \<Longrightarrow> I (ve_others env n db)"
    and steps: "config_step (ve_config env) op db db' \<Longrightarrow> I db \<Longrightarrow> I db'"
begin

definition holds :: "'a service_state \<Rightarrow> bool" where
  "holds s \<longleftrightarrow> I (sv_db s)"

lemma repository_keeps:
  assumes "\<And>db r db'. m db = (r, db') \<Longrightarrow> I db \<Longrightarrow> I db'"
  shows "keeps holds (repository env m)"
  using others assms
  by (fastforce simp: keeps_def holds_def repository_def before_call_def Let_def
      split: option.splits prod.splits sum.splits)

lemma repository_step:
  assumes "\<And>db r db'. m db = (r, db') \<Longrightarrow> config_step (ve_config env) op db db'"
  shows "keeps holds (repository env m)"
  using assms steps by (blast intro: repository_keeps)

lemma repository_read:
  assumes "\<And>db r db'. m db = (r, db') \<Longrightarrow> db' = db"
  shows "keeps holds (repository env m)"
  using assms by (auto intro: repository_keeps)

lemma repository_then:
  assumes "\<And>db r db'. m db = (r, db') \<Longrightarrow> db' = db"
    and "\<And>x db db'. m db = (Inr x, db') \<Longrightarrow> keeps holds (k x)"
  shows "keeps holds (bind_prog (repository env m) k)"
  using repository_read [OF assms(1)] assms(2)
  by (fastforce simp: keeps_def bind_prog_def repository_def Let_def split: option.splits prod.splits sum.splits)

lemma incident_keeps [keeps_intros]: "keeps holds (create_incident env a t m)"
  using others by (auto simp: keeps_def holds_def create_incident_def before_call_def Let_def split: option.splits)

lemma ask_keeps [keeps_intros]: "keeps holds (ask m)"
  by (auto simp: keeps_def holds_def ask_def split: prod.splits sum.splits)

lemma attempt_keeps [keeps_intros]: "keeps holds m \<Longrightarrow> keeps holds (attempt m)"
  by (fastforce simp: keeps_def attempt_def split: prod.splits)

lemma refuse_keeps [keeps_intros]: "keeps holds (refuse c)"
  by (simp add: refuse_def keeps_throw)

lemma when_keeps [keeps_intros]: "keeps holds m \<Longrightarrow> keeps holds (when_prog b m)"
  by (simp add: when_prog_def keeps_ret)

lemma get_change_reads: "get_change i db = (r, db') \<Longrightarrow> db' = db"
  by (auto simp: get_change_def checked_def map_change_def split: option.splits sum.splits)

lemma find_by_id_keeps [keeps_intros]: "keeps holds (find_by_id env i)"
  unfolding find_by_id_def by (intro keeps_intros repository_read) (rule get_change_reads)

lemma require_record_keeps [keeps_intros]: "keeps holds (require_record c)"
  unfolding require_record_def by (intro keeps_intros)

lemma transition_call_keeps [keeps_intros]: "keeps holds (transition_call env i)"
  unfolding transition_call_def by (intro keeps_intros repository_step) (rule moving)

lemma transition_database_keeps [keeps_intros]: "keeps holds (transition_database env c state seed reason)"
  unfolding transition_database_def by (intro keeps_intros)

lemma reconcile_events_keeps [keeps_intros]: "keeps holds (reconcile_events env i es c)"
  by (induction es arbitrary: c) (auto intro!: keeps_intros)

lemma block_after_failure_keeps [keeps_intros]: "keeps holds (block_after_failure env c f r t m)"
  unfolding block_after_failure_def
proof (intro keeps_intros)
  show "keeps holds (repository env (find_latest_run_id (ve_run_key env) (cw_id c)))"
    by (rule repository_read) (auto simp: find_latest_run_id_def checked_def split: sum.splits)
  show "keeps holds (repository env (block_application_row a run change reason actor))" for a run change reason actor
    by (rule repository_step) (rule blocking)
qed

lemma reconcile_agent_status_keeps [keeps_intros]: "keeps holds (reconcile_agent_status env c r)"
  unfolding reconcile_agent_status_def by (intro keeps_intros)

lemma finish_dispatch_keeps [keeps_intros]: "keeps holds (finish_dispatch_failure env c d)"
  unfolding finish_dispatch_failure_def by (intro keeps_intros)

lemma recover_dispatch_keeps [keeps_intros]: "keeps holds (recover_dispatch_failure env c d)"
  unfolding recover_dispatch_failure_def Let_def by (intro keeps_intros)

lemma persist_dispatch_keeps [keeps_intros]: "keeps holds (persist_dispatch_failure env c)"
  unfolding persist_dispatch_failure_def by (intro keeps_intros)

lemma parse_status_keeps [keeps_intros]: "keeps holds (parse_status env r)"
  unfolding parse_status_def by (intro keeps_intros)

lemma poll_loop_keeps [keeps_intros]: "keeps holds (poll_loop n env agent p i)"
  by (induction n) (auto simp: poll_def intro!: keeps_intros)

lemma monitor_keeps: "keeps holds (monitor_apply env agent p i)"
  unfolding monitor_apply_def by (intro keeps_intros)

lemma create_draft_keeps: "keeps holds (create_draft env p app reason supersedes new_id now)"
  unfolding create_draft_def by (intro keeps_intros repository_step) (rule creating)

lemma begin_validation_reads: "begin_validation i d p xs db = (r, db') \<Longrightarrow> db' = db"
  using get_change_reads by (fastforce simp: begin_validation_def checked_def split: sum.splits prod.splits option.splits if_splits)

lemma store_validation_keeps [keeps_intros]:
  "state \<in> {READY, INVALID} \<Longrightarrow> keeps holds (store_validation env i digest plan items state)"
  unfolding store_validation_def
proof (intro keeps_intros)
  show "keeps holds (repository env (begin_validation i digest plan (map adapted_item items)))"
    by (rule repository_read) (rule begin_validation_reads)
  show "keeps holds (repository env (replace_items i (map adapted_item items)))"
    by (rule repository_step) (rule replacing)
  show "keeps holds (repository env (finish_validation i digest plan state))" if "state \<in> {READY, INVALID}"
    by (rule repository_step) (rule validating [OF _ that])
qed

lemma validate_keeps: "keeps holds (validate env agent p body)"
  unfolding validate_def by (intro keeps_intros) (auto intro!: keeps_intros split: service_error.split)

lemma save_keeps: "keeps holds (save env agent p body)"
  unfolding save_def by (intro keeps_intros repository_step) (rule saving)

lemma watch_keeps [keeps_intros]: "keeps holds (modify (\<lambda>s. s\<lparr>sv_watches := f s\<rparr>))"
  by (simp add: keeps_def modify_def holds_def)

lemma apply_change_keeps: "keeps holds (apply_change env agent p body)"
  unfolding apply_change_def by (intro keeps_intros)

lemma status_keeps: "keeps holds (status env agent p i after)"
  unfolding status_def database_status_def
  by (intro keeps_intros repository_read)
     (auto simp: list_change_events_def checked_def Let_def split: sum.splits)

lemma begin_cancel_reads: "begin_cancel i a n db = (r, db') \<Longrightarrow> db' = db"
  using get_change_reads by (fastforce simp: begin_cancel_def split: sum.splits prod.splits option.splits if_splits)

lemma cancel_keeps: "keeps holds (cancel env agent p i event)"
proof -
  have finish: "keeps holds (bind_prog (repository env (begin_cancel i a n)) (\<lambda>row.
      then_prog (repository env (finish_cancel i row)) (ret x)))" for a n and x :: string
  proof (rule repository_then)
    show "\<And>db r db'. begin_cancel i a n db = (r, db') \<Longrightarrow> db' = db" by (rule begin_cancel_reads)
    show "keeps holds (then_prog (repository env (finish_cancel i row)) (ret x))"
      if "begin_cancel i a n db = (Inr row, db')" for row db db'
    proof -
      have "cc_state row \<in> {DRAFT, READY, SAVED}"
        using that by (auto simp: begin_cancel_def split: sum.splits prod.splits option.splits if_splits)
      then show ?thesis
        by (intro keeps_intros repository_step) (erule cancelling, assumption)
    qed
  qed
  show ?thesis unfolding cancel_def by (intro keeps_intros finish)
qed

lemma clear_apply_block_keeps: "keeps holds (clear_apply_block env agent p body)"
  unfolding clear_apply_block_def by (intro keeps_intros repository_step) (rule clearing)

end

text \<open>The operations, with the watch over the oldest run that was started.\<close>

datatype service_op =
    Op_create principal string string "string option" string millis | Op_validate principal validate_request
  | Op_replace principal string validate_request | Op_save principal save_request
  | Op_apply principal apply_request | Op_status principal string "string option"
  | Op_cancel principal string string | Op_clear principal clear_request | Op_watch

fun perform_op :: "service_env \<Rightarrow> 'a config_agent \<Rightarrow> service_op \<Rightarrow> 'a service_state \<Rightarrow> 'a service_state" where
  "perform_op env agent (Op_create p app reason supersedes new_id now) s =
     snd (create_draft env p app reason supersedes new_id now s)"
| "perform_op env agent (Op_validate p body) s = snd (validate env agent p body s)"
| "perform_op env agent (Op_replace p i body) s = snd (replace_draft_items env agent p i body s)"
| "perform_op env agent (Op_save p body) s = snd (save env agent p body s)"
| "perform_op env agent (Op_apply p body) s = snd (apply_change env agent p body s)"
| "perform_op env agent (Op_status p i after) s = snd (status env agent p i after s)"
| "perform_op env agent (Op_cancel p i event) s = snd (cancel env agent p i event s)"
| "perform_op env agent (Op_clear p body) s = snd (clear_apply_block env agent p body s)"
| "perform_op env agent Op_watch s =
     (case sv_watches s of
        [] \<Rightarrow> s
      | (p, body) # rest \<Rightarrow> snd (monitor_apply env agent p (ar_change body) (s\<lparr>sv_watches := rest\<rparr>)))"

context service_client
begin

lemma after: "keeps holds m \<Longrightarrow> holds s \<Longrightarrow> holds (snd (m s))"
  by (simp add: keeps_def)

lemma perform_op_keeps: "holds s \<Longrightarrow> holds (perform_op env agent op s)"
proof (cases op)
  case Op_watch
  assume "holds s"
  then have "holds (s\<lparr>sv_watches := ws\<rparr>)" for ws by (simp add: holds_def)
  with \<open>holds s\<close> Op_watch show ?thesis by (auto intro!: after monitor_keeps split: list.splits)
qed (auto simp: replace_draft_items_def intro!: after create_draft_keeps validate_keeps save_keeps apply_change_keeps
       status_keeps cancel_keeps clear_apply_block_keeps)

lemma history_keeps: "holds s \<Longrightarrow> holds (fold (perform_op env agent) ops s)"
  by (induction ops arbitrary: s) (auto simp: perform_op_keeps)

end

definition follows :: "config_env \<Rightarrow> config_db \<Rightarrow> config_db \<Rightarrow> bool" where
  "follows env db db' \<longleftrightarrow> (\<exists>ops. op_run (config_step env) ops db db')"

lemma op_run_append: "op_run step bs t u \<Longrightarrow> op_run step as s t \<Longrightarrow> op_run step (as @ bs) s u"
  by (induction rule: op_run.induct) (auto intro: run_more simp flip: append_assoc)

lemma follows_step: "follows env db u \<Longrightarrow> config_step env op u v \<Longrightarrow> follows env db v"
  unfolding follows_def by (blast intro: run_more)

lemma follows_trans: "follows env db u \<Longrightarrow> follows env u v \<Longrightarrow> follows env db v"
  unfolding follows_def by (blast intro: op_run_append)

lemma follows_refl: "follows env db db"
  unfolding follows_def by (blast intro: run_nothing)

definition others_follow :: "service_env \<Rightarrow> bool" where
  "others_follow env \<longleftrightarrow> (\<forall>n db. follows (ve_config env) db (ve_others env n db))"

interpretation tracked: service_client env "\<lambda>db. others_follow env \<longrightarrow> follows (ve_config env) start db"
  for env start
  by unfold_locales (auto simp: others_follow_def intro: follows_step follows_trans)

text \<open>
  The service refines the repository: whatever operations the service performs, in any order, with
  any agent, with calls of the database failing and with others working on the tables between its calls,
  the tables have moved by a sequence of transactions of the repository, provided that the others move
  them by such transactions too. What is shown of all histories of the repository therefore holds behind
  the service.
\<close>

theorem service_refines_repository:
  assumes "\<forall>n db. \<exists>steps. op_run (config_step (ve_config env)) steps db (ve_others env n db)"
  shows "\<exists>steps. op_run (config_step (ve_config env)) steps (sv_db s) (sv_db (fold (perform_op env agent) ops s))"
proof -
  have others: "others_follow env" using assms by (simp add: others_follow_def follows_def)
  have "others_follow env \<longrightarrow> follows (ve_config env) (sv_db s) (sv_db (fold (perform_op env agent) ops s))"
    using tracked.history_keeps [of env "sv_db s" s agent ops] follows_refl unfolding tracked.holds_def by blast
  with others show ?thesis by (simp add: follows_def)
qed

section \<open>Only the owner of a change acts on it\<close>

definition another :: "principal \<Rightarrow> string \<Rightarrow> config_db \<Rightarrow> bool" where
  "another p i db \<longleftrightarrow>
     (\<forall>c. find_change i db = Some c \<longrightarrow> cc_actor c \<noteq> pr_user p \<or> cc_session c \<noteq> pr_session p)"

lemma find_by_id_cases:
  obtains (failed) e where "find_by_id env i s = (Inl e, before_call env s)"
  | (missing) "find_by_id env i s = (Inr None, before_call env s)"
      "find_change i (ve_others env (sv_calls s) (sv_db s)) = None"
  | (found) c where "find_by_id env i s = (Inr (Some (view_of_row c)), before_call env s)"
      "find_change i (ve_others env (sv_calls s) (sv_db s)) = Some c"
proof -
  let ?db = "ve_others env (sv_calls s) (sv_db s)"
  obtain r where r: "get_change i ?db = (r, ?db)" using service_client.get_change_reads
    by (metis (no_types, opaque_lifting) prod.exhaust_sel tracked.get_change_reads)
  have db: "sv_db (before_call env s) = ?db" by (simp add: before_call_def)
  have same: "(before_call env s)\<lparr>sv_db := ?db\<rparr> = before_call env s" by (simp add: before_call_def)
  show ?thesis
  proof (cases "ve_failing env (sv_calls s)")
    case (Some e)
    then show ?thesis by (intro failed) (simp add: find_by_id_def bind_prog_def repository_def Let_def)
  next
    case None
    then show ?thesis
      using r same db failed missing found
      by (cases "find_change i ?db")
         (auto simp: find_by_id_def bind_prog_def repository_def Let_def ret_def get_change_def ConfigRepository.checked_def
            map_change_def split: sum.splits if_splits)
  qed
qed

text \<open>
  C18. Only the owner acts on a change: when a change belongs to another user or was made in another
  session, its validation, the replacement of its items, its saving, its apply and its cancellation are
  refused, and nothing is asked of the agent, written to the tables, reported or watched: at most the
  change was read. Two further operations do not look at the owner and are not covered: \<open>status\<close>, which
  answers for the change of anybody, asks the agent and may write what the agent reports, and
  \<open>clear_apply_block\<close>.
\<close>

theorem only_owner_acts:
  assumes "another p i (ve_others env (sv_calls s) (sv_db s))"
    and "vr_change v = i" and "sr_change w = i" and "ar_change a = i"
  shows "\<forall>(refused, s') \<in>
     {(isl (fst (validate env agent p v s)), snd (validate env agent p v s)),
      (isl (fst (replace_draft_items env agent p i v s)), snd (replace_draft_items env agent p i v s)),
      (isl (fst (save env agent p w s)), snd (save env agent p w s)),
      (isl (fst (apply_change env agent p a s)), snd (apply_change env agent p a s)),
      (isl (fst (cancel env agent p i event s)), snd (cancel env agent p i event s))}.
     refused \<and> (s' = s \<or> s' = before_call env s)"
  using assms
  by (cases rule: find_by_id_cases [of env i s])
     (auto simp: validate_def replace_draft_items_def save_def apply_change_def cancel_def bind_prog_def refuse_def throw_def
        require_record_def ret_def another_def view_of_row_def)

end
