(* ===== verification/ConfigServiceFaults.thy ===== *)
theory ConfigServiceFaults
  imports ConfigServiceProps
begin

text \<open>
  What becomes of a run of a configuration change in the tables: a run that the agent refuses is recorded
  as failed and blocks its application, and so is, at the end of the watch, a run that the agent completes.
\<close>

section \<open>Identifiers\<close>

lemma hex_char_hex: "lower_hex (hex_char w)"
proof -
  have "n < 16 \<Longrightarrow> lower_hex (''0123456789abcdef'' ! n)" for n :: nat
    by (auto simp: less_Suc_eq numeral_eq_Suc lower_hex_def)
  then show ?thesis by (simp add: hex_char_def)
qed

lemma lower_hex_is_hex: "lower_hex c \<Longrightarrow> is_hex c"
  by (auto simp: lower_hex_def is_hex_def to_lower_char_def)

lemma version_digit: "hex_char (drop_bit 4 (or (and w 0x0F) 0x40)) = CHR ''4''"
proof -
  have "drop_bit 4 (or (and w 0x0F) 0x40) = (4 :: 8 word)" by (simp add: drop_bit_or drop_bit_and)
  then show ?thesis by (simp add: hex_char_def)
qed

lemma variant_digit: "to_lower_char (hex_char (drop_bit 4 (or (and w 0x3F) 0x80))) \<in> set ''89ab''"
proof -
  have "drop_bit 4 (or (and w 0x3F) 0x80) = or (and (drop_bit 4 w) 3) (8 :: 8 word)"
    by (simp add: drop_bit_or drop_bit_and)
  moreover have "and (drop_bit 4 w) 3 \<le> (3 :: 8 word)" by (rule word_and_le1)
  then have "unat (and (drop_bit 4 w) 3 :: 8 word) \<in> {0, 1, 2, 3}" by (auto simp: word_le_nat_alt)
  then have "and (drop_bit 4 w) 3 \<in> {0, 1, 2, 3 :: 8 word}" by (auto simp: word_unat_eq_iff)
  ultimately show ?thesis by (auto simp: hex_char_def to_lower_char_def)
qed

definition full_digests :: "service_env \<Rightarrow> bool" where
  "full_digests env \<longleftrightarrow> (\<forall>t. length (ve_sha256 env t) = 32)"

lemma database_uuid_pattern:
  assumes "full_digests env"
  shows "uuid_pattern (database_uuid env seed)"
proof -
  define bs where "bs = ve_sha256 env seed"
  have bs: "length bs = 32" "ve_sha256 env seed = bs" using assms by (simp_all add: full_digests_def bs_def)
  define cs where "cs = (bs[6 := or (and (bs ! 6) 0x0F) 0x40])[8 := or (and (bs ! 8) 0x3F) 0x80]"
  have at: "length cs = 32" "cs ! 6 = or (and (bs ! 6) 0x0F) 0x40" "cs ! 8 = or (and (bs ! 8) 0x3F) 0x80"
    using bs(1) by (simp_all add: cs_def)
  have cs_eq: "cs = (ve_sha256 env seed)[6 := or (and (ve_sha256 env seed ! 6) 0x0F) 0x40,
      8 := or (and ((ve_sha256 env seed)[6 := or (and (ve_sha256 env seed ! 6) 0x0F) 0x40] ! 8) 0x3F) 0x80]"
    by (simp add: cs_def bs(2) [symmetric])
  have "take 16 cs = map ((!) cs) [0..<16]"
    using at(1) by (simp add: map_nth take_map [symmetric] list_eq_iff_nth_eq)
  also have "\<dots> = [cs ! 0, cs ! 1, cs ! 2, cs ! 3, cs ! 4, cs ! 5, cs ! 6, cs ! 7, cs ! 8, cs ! 9, cs ! 10, cs ! 11,
      cs ! 12, cs ! 13, cs ! 14, cs ! 15]"
    by (simp add: upt_rec numeral_eq_Suc)
  finally have bytes: "take 16 cs = \<dots>" .
  then have uuid: "database_uuid env seed =
      byte_hex (cs ! 0) @ byte_hex (cs ! 1) @ byte_hex (cs ! 2) @ byte_hex (cs ! 3) @ ''-'' @ byte_hex (cs ! 4) @
      byte_hex (cs ! 5) @ ''-'' @ byte_hex (cs ! 6) @ byte_hex (cs ! 7) @ ''-'' @ byte_hex (cs ! 8) @ byte_hex (cs ! 9) @
      ''-'' @ byte_hex (cs ! 10) @ byte_hex (cs ! 11) @ byte_hex (cs ! 12) @ byte_hex (cs ! 13) @ byte_hex (cs ! 14) @
      byte_hex (cs ! 15)"
    unfolding database_uuid_def Let_def cs_eq [symmetric] bytes by (simp add: byte_hex_def)
  show ?thesis
    unfolding uuid
    by (simp add: uuid_pattern_def upt_rec byte_hex_def at version_digit [simplified] variant_digit [simplified]
        lower_hex_is_hex [OF hex_char_hex])
qed

section \<open>Transitions that are accepted, and that are refused\<close>

lemma transition_refused:
  assumes "recorded_run i db = None"
    and "\<And>c. c \<in> set (cd_changes db) \<Longrightarrow> cc_id c = ti_change i \<Longrightarrow> ti_to i \<notin> set (legal_transitions (cc_state c))"
  shows "\<exists>e. transition_row env i db = (Inl e, db)"
proof (cases "transition_row env i db")
  case (Pair r db')
  then show ?thesis
  proof (cases rule: transition_row_cases)
    case same
    have "r \<noteq> Inr x" for x
    proof
      assume "r = Inr x"
      with Pair have "transition_row env i db = (Inr x, db)" using same by simp
      then have "transition_body env i db = (Inr x, db)"
        by (auto simp: transition_row_def ConfigRepository.checked_def in_transaction_def split: sum.splits prod.splits)
      then obtain c s where "find (\<lambda>c. cc_id c = ti_change i \<and> cc_application c = ti_application i) (cd_changes db) = Some c"
          "transition_change (\<lambda>_. True) (snapshot_of c) (request_of i) = Inr s"
        using assms(1) by (auto simp: transition_body_def split: option.splits if_splits sum.splits)
      moreover from this(2) have "ti_to i \<in> set (legal_transitions (cc_state c))"
        by (auto simp: transition_change_def snapshot_of_def request_of_def split: if_splits sum.splits option.splits)
      ultimately show False using assms(2) by (auto simp: find_Some_iff)
    qed
    with Pair same show ?thesis by (cases r) auto
  next
    case (moved c x)
    then show ?thesis using assms(2) by (auto simp: moves_def)
  qed
qed

definition moved_db :: "transition_input \<Rightarrow> change_row \<Rightarrow> config_db \<Rightarrow> config_db" where
  "moved_db i c db =
     db\<lparr>cd_changes := map (\<lambda>x. if cc_id x = cc_id c then x\<lparr>cc_state := ti_to i, cc_version := cc_version c + 1\<rparr> else x)
          (cd_changes db),
        cd_runs := cd_runs db @ [run_of i c (snapshot_of c\<lparr>ch_state := ti_to i, ch_version := cc_version c + 1\<rparr>)]\<rparr>"

lemma transition_accepted:
  assumes "run_checks (transition_checks i) = Inr ()" and "recorded_run i db = None"
    and c: "c \<in> set (cd_changes db)" "cc_id c = ti_change i" "cc_application c = ti_application i"
    and "keys_ok db" and "log_ok db c" and "run_checks (map_change_checks c) = Inr ()"
    and "\<not> (ti_to i = APPLYING \<and> blocked (ti_application i) db)"
    and "ti_expected i = cc_version c" and "ti_to i \<in> set (legal_transitions (cc_state c))"
    and "one_active (cd_changes (moved_db i c db))"
    and "cv_actor_exists env (ti_actor i) (ti_session i)" and "is_safe_integer (cc_version c + 1)"
  shows "\<exists>r. transition_row env i db = (Inr r, moved_db i c db) \<and> tr_change r = ti_change i \<and>
    tr_application r = ti_application i \<and> tr_state r = ti_to i \<and> tr_version r = cc_version c + 1"
proof -
  have same: "x = c" if "x \<in> set (cd_changes db)" "cc_id x = cc_id c" for x
    using same_id [OF assms(6)] that c(1) by blast
  have found: "find (\<lambda>c. cc_id c = ti_change i \<and> cc_application c = ti_application i) (cd_changes db) = Some c"
  proof -
    have "find (\<lambda>c. cc_id c = ti_change i \<and> cc_application c = ti_application i) (cd_changes db) \<noteq> None"
      using c by (auto simp: find_None_iff)
    then show ?thesis using same c(2) by (auto simp: find_Some_iff) (metis nth_mem)
  qed
  have version: "0 \<le> cc_version c" "is_safe_integer (cc_version c)"
    using assms(8) by (simp_all add: run_checks_ok map_change_checks_def)
  have ids: "uuid_pattern (ti_transition i)" "uuid_pattern (ti_event i)" "uuid_pattern (ti_actor i)"
    using assms(1) by (simp_all add: run_checks_ok transition_checks_def bad_uuid_def)
  have machine: "transition_change (\<lambda>_. True) (snapshot_of c) (request_of i)
      = Inr (snapshot_of c\<lparr>ch_state := ti_to i, ch_version := cc_version c + 1,
               ch_events := [next_event (snapshot_of c) (request_of i)]\<rparr>)"
  proof -
    have "cc_state c \<notin> set terminal_change_states"
      using assms(11) by (auto simp: terminal_change_states_def)
    moreover have "ti_actor i \<noteq> []" using ids(3) by (auto simp: uuid_pattern_def)
    moreover have "validate_snapshot (snapshot_of c) = Inr ()"
      using version assms(14) by (auto simp: validate_snapshot_def snapshot_of_def is_safe_integer_def)
    ultimately show ?thesis
      using ids version assms(10,11) by (simp add: transition_change_def request_of_def snapshot_of_def)
  qed
  let ?p = "\<lambda>x. cc_id x = ti_change i \<and> cc_application x = ti_application i \<and> cc_state x = cc_state c \<and> cc_version x = cc_version c"
  have rows: "map (\<lambda>x. if ?p x then x\<lparr>cc_state := ti_to i, cc_version := cc_version c + 1\<rparr> else x) (cd_changes db)
      = cd_changes (moved_db i c db)"
  proof -
    have "?p x \<longleftrightarrow> cc_id x = cc_id c" if "x \<in> set (cd_changes db)" for x
      using same [OF that] c by metis
    then show ?thesis unfolding moved_db_def by (auto intro: map_cong)
  qed
  have "c \<in> set (filter ?p (cd_changes db))" using c by simp
  then have some: "filter ?p (cd_changes db) \<noteq> []" by (metis empty_iff empty_set)
  have fresh: "\<forall>q \<in> set (cd_runs db). rr_change q = ti_change i \<longrightarrow>
      rr_transition q \<noteq> ti_transition i \<and> rr_event q \<noteq> ti_event i \<and> rr_sequence q \<noteq> cc_version c + 1"
  proof (intro ballI impI conjI)
    fix q assume q: "q \<in> set (cd_runs db)" "rr_change q = ti_change i"
    show "rr_transition q \<noteq> ti_transition i" "rr_event q \<noteq> ti_event i"
      using assms(2) q by (auto simp: recorded_run_def find_None_iff)
    have "q \<in> set (runs_of (cc_id c) db)" using q c(2) by (simp add: runs_of_def)
    then have "rr_sequence q \<le> cc_version c" using assms(7) by (simp add: log_ok_def Let_def)
    then show "rr_sequence q \<noteq> cc_version c + 1" by simp
  qed
  let ?s = "snapshot_of c\<lparr>ch_state := ti_to i, ch_version := cc_version c + 1,
      ch_events := [next_event (snapshot_of c) (request_of i)]\<rparr>"
  have run: "run_of i c ?s = run_of i c (snapshot_of c\<lparr>ch_state := ti_to i, ch_version := cc_version c + 1\<rparr>)"
    by (simp add: run_of_def)
  let ?d = "db\<lparr>cd_changes := cd_changes (moved_db i c db)\<rparr>"
  have insert: "insert_run (env) (run_of i c ?s) ?d = Some (moved_db i c db)"
  proof -
    have "\<not> (\<exists>q \<in> set (cd_runs ?d). rr_change q = rr_change (run_of i c ?s) \<and> (rr_transition q = rr_transition (run_of i c ?s) \<or>
        rr_event q = rr_event (run_of i c ?s) \<or> rr_sequence q = rr_sequence (run_of i c ?s)))"
      using fresh by (simp add: run_of_def)
    moreover have "cv_actor_exists env (rr_actor (run_of i c ?s)) (rr_session (run_of i c ?s))"
      using assms(13) by (simp add: run_of_def)
    moreover have "?d\<lparr>cd_runs := cd_runs ?d @ [run_of i c ?s]\<rparr> = moved_db i c db"
      unfolding run by (simp add: moved_db_def)
    ultimately show ?thesis unfolding insert_run_def by simp
  qed
  have "transition_body env i db = (Inr \<lparr> tr_change = ti_change i, tr_application = ti_application i,
      tr_state = ti_to i, tr_version = cc_version c + 1, tr_sequence = cc_version c + 1, tr_transition = ti_transition i,
      tr_event = ti_event i, tr_idempotent = False \<rparr>, moved_db i c db)"
    using assms(2,8,9,12) found machine some insert rows
    by (simp add: transition_body_def update_changes_def)
  then show ?thesis
    using assms(1) by (simp add: transition_row_def ConfigRepository.checked_def in_transaction_def)
qed

section \<open>A failure of the dispatch is recorded\<close>

definition calm :: "service_env \<Rightarrow> bool" where
  "calm env \<longleftrightarrow> (\<forall>n db. ve_others env n db = db) \<and> (\<forall>n. ve_failing env n = None)"

lemma repository_calm:
  "calm env \<Longrightarrow> repository env m s =
     (case m (sv_db s) of
        (Inl e, d) \<Rightarrow> (Inl (Failure (config_message e)), s\<lparr>sv_db := d, sv_calls := sv_calls s + 1\<rparr>)
      | (Inr x, d) \<Rightarrow> (Inr x, s\<lparr>sv_db := d, sv_calls := sv_calls s + 1\<rparr>))"
  by (simp add: calm_def repository_def before_call_def Let_def split: prod.split sum.split)

text \<open>A state of the tables that the repository can reach.\<close>

definition reachable_db :: "config_env \<Rightarrow> config_db \<Rightarrow> bool" where
  "reachable_db env db \<longleftrightarrow> follows env empty_config_db db"

lemma reachable_ok:
  assumes "reachable_db env db"
  shows "keys_ok db" and "c \<in> set (cd_changes db) \<Longrightarrow> log_ok db c" and "one_active (cd_changes db)"
proof -
  obtain ops where run: "op_run (config_step env) ops empty_config_db db"
    using assms by (auto simp: reachable_db_def follows_def)
  show "keys_ok db" "c \<in> set (cd_changes db) \<Longrightarrow> log_ok db c" using run_log [OF run] by blast+
  show "one_active (cd_changes db)"
    using run
    by (rule op_run_invariant)
       (blast intro: one_active_step config_step_shape | simp add: empty_config_db_def one_active_def)+
qed

lemma reachable_step: "reachable_db env db \<Longrightarrow> config_step env op db db' \<Longrightarrow> reachable_db env db'"
  unfolding reachable_db_def by (rule follows_step)

text \<open>The rows of changes whose columns have the form that the repository checks.\<close>

definition usable :: "service_env \<Rightarrow> change_row \<Rightarrow> bool" where
  "usable env c \<longleftrightarrow>
     uuid_pattern (cc_id c) \<and> uuid_pattern (cc_actor c) \<and> uuid_pattern (cc_session c) \<and>
     identifier_pattern (cc_application c) \<and> run_checks (map_change_checks c) = Inr () \<and>
     is_safe_integer (cc_version c + 1) \<and> cv_actor_exists (ve_config env) (cc_actor c) (cc_session c)"

definition seed_id :: "service_env \<Rightarrow> string \<Rightarrow> string" where
  "seed_id env seed = database_uuid env (''config-reconcile-transition:'' @ seed)"

definition seed_event :: "service_env \<Rightarrow> string \<Rightarrow> string" where
  "seed_event env seed = database_uuid env (''config-reconcile-event:'' @ seed)"

definition unrecorded :: "service_env \<Rightarrow> string \<Rightarrow> string \<Rightarrow> config_db \<Rightarrow> bool" where
  "unrecorded env i seed db \<longleftrightarrow>
     (\<forall>r \<in> set (cd_runs db). rr_change r = i \<longrightarrow> rr_transition r \<noteq> seed_id env seed \<and> rr_event r \<noteq> seed_event env seed)"

lemma unrecorded_run:
  "unrecorded env (cw_id v) seed db \<Longrightarrow> recorded_run (reconcile_input env v state seed reason) db = None"
  by (auto simp: unrecorded_def recorded_run_def find_None_iff reconcile_input_def seed_id_def seed_event_def Let_def)

text \<open>A view of a change in the tables: what the service knows of it while a run goes on.\<close>

definition views :: "change_view \<Rightarrow> change_row \<Rightarrow> bool" where
  "views v c \<longleftrightarrow>
     cw_id v = cc_id c \<and> cw_application v = cc_application c \<and> cw_actor v = cc_actor c \<and>
     cw_session v = cc_session c \<and> cw_state v = cc_state c \<and> cw_version v = cc_version c"

lemma one_active_moved:
  assumes "one_active cs" and "\<And>x. x \<in> set cs \<Longrightarrow> cc_application (f x) = cc_application x"
    and "\<And>x. x \<in> set cs \<Longrightarrow> cc_state (f x) \<in> set active_states \<Longrightarrow> cc_state x \<in> set active_states"
  shows "one_active (map f cs)"
  using assms
proof (induction cs)
  case (Cons x cs)
  have "cc_application ` {y \<in> f ` set cs. cc_state y \<in> set active_states}
      \<subseteq> cc_application ` {y \<in> set cs. cc_state y \<in> set active_states}"
    using Cons.prems by force
  with Cons show ?case by (auto simp: one_active_def split: if_splits)
qed (simp add: one_active_def)

lemma reconcile_accepted:
  assumes "calm env" and "full_digests env" and "reachable_db (ve_config env) (sv_db s)"
    and "c \<in> set (cd_changes (sv_db s))" and "views v c" and "usable env c" and "cc_state c \<in> set active_states"
    and "state \<noteq> APPLYING" and "state \<in> set (legal_transitions (cc_state c))"
    and "unrecorded env (cc_id c) seed (sv_db s)"
  shows "\<exists>v' c' s'. transition_database env v state seed None s = (Inr v', s') \<and> views v' c' \<and>
    c' = c\<lparr>cc_state := state, cc_version := cc_version c + 1\<rparr> \<and> c' \<in> set (cd_changes (sv_db s')) \<and>
    sv_db s' = moved_db (reconcile_input env v state seed None) c (sv_db s) \<and>
    reachable_db (ve_config env) (sv_db s')"
proof -
  let ?i = "reconcile_input env v state seed None"
  note v = assms(5) [unfolded views_def]
  have i: "ti_change ?i = cc_id c" "ti_application ?i = cc_application c" "ti_actor ?i = cc_actor c"
      "ti_session ?i = cc_session c" "ti_expected ?i = cc_version c" "ti_to ?i = state"
    using v by (simp_all add: reconcile_input_def truthy_def)
  note uuid = database_uuid_pattern [OF assms(2)]
  have ok: "0 \<le> cc_version c" "is_safe_integer (cc_version c)"
    using assms(6) by (simp_all add: usable_def run_checks_ok map_change_checks_def)
  have checks: "run_checks (transition_checks ?i) = Inr ()"
    using assms(6) ok uuid v
    by (simp add: run_checks_ok transition_checks_def reconcile_input_def truthy_def usable_def bad_uuid_def
        bad_identifier_def bad_keys_def transition_keys_def forbidden_metadata_keys_def when_truthy_def)
  have active: "one_active (cd_changes (moved_db ?i c (sv_db s)))"
  proof -
    have "cc_state x = cc_state c" if "x \<in> set (cd_changes (sv_db s))" "cc_id x = cc_id c" for x
      using same_id [OF reachable_ok(1) [OF assms(3)] that(1) assms(4) that(2)] by simp
    then show ?thesis
      unfolding moved_db_def i using assms(7)
      by (auto intro!: one_active_moved [OF reachable_ok(3) [OF assms(3)]] split: if_splits)
  qed
  have safe: "is_safe_integer (cc_version c + 1)"
    using assms(6) ok(1) by (auto simp: usable_def is_safe_integer_def)
  have rec: "recorded_run ?i (sv_db s) = None" using unrecorded_run assms(10) v by simp
  have map_ok: "run_checks (map_change_checks c) = Inr ()" "cv_actor_exists (ve_config env) (cc_actor c) (cc_session c)"
    using assms(6) by (simp_all add: usable_def)
  have "\<exists>r. transition_row (ve_config env) ?i (sv_db s) = (Inr r, moved_db ?i c (sv_db s)) \<and> tr_change r = ti_change ?i \<and>
      tr_application r = ti_application ?i \<and> tr_state r = ti_to ?i \<and> tr_version r = cc_version c + 1"
    by (rule transition_accepted [OF checks rec assms(4) _ _ reachable_ok(1) [OF assms(3)] reachable_ok(2) [OF assms(3,4)]
          map_ok(1) _ _ _ active _ safe]) (use assms(8,9) map_ok(2) in \<open>simp_all add: i\<close>)
  then obtain r where r: "transition_row (ve_config env) ?i (sv_db s) = (Inr r, moved_db ?i c (sv_db s))"
      "tr_change r = cc_id c" "tr_application r = cc_application c" "tr_state r = state" "tr_version r = cc_version c + 1"
    unfolding i by blast
  let ?c = "c\<lparr>cc_state := state, cc_version := cc_version c + 1\<rparr>"
  have "state \<noteq> cc_state c" using assms(9) by (cases "cc_state c") auto
  then have "transition_database env v state seed None s =
      (Inr (view_of_transition env ?i r), s\<lparr>sv_db := moved_db ?i c (sv_db s), sv_calls := sv_calls s + 1\<rparr>)"
    using v
    by (simp add: repository_calm [OF assms(1)] r(1) transition_database_def transition_call_def bind_prog_def ret_def)
  moreover have "views (view_of_transition env ?i r) ?c"
    using r i by (simp add: views_def view_of_transition_def)
  moreover have "?c \<in> set (cd_changes (moved_db ?i c (sv_db s)))"
    using assms(4) i by (force simp: moved_db_def)
  moreover have "reachable_db (ve_config env) (moved_db ?i c (sv_db s))"
    by (rule reachable_step [OF assms(3) moving [OF r(1)]])
  ultimately show ?thesis by (intro exI conjI) auto
qed

lemma block_row_blocks:
  assumes "identifier_pattern a" and "uuid_pattern run" and "uuid_pattern change" and "uuid_pattern actor"
    and "upper_code 3 reason"
  shows "\<exists>b db. block_application_row a run change reason actor d = (Inr b, db) \<and> cd_changes db = cd_changes d \<and>
    cd_runs db = cd_runs d \<and> blocked a db"
  using assms
  by (cases "blocked a d")
     (force simp: block_application_row_def ConfigRepository.checked_def run_checks_def bad_uuid_def bad_identifier_def
        blocked_def)+

lemma blocks_application:
  assumes "calm env" and "full_digests env" and "usable env c" and "views v c" and "upper_code 3 reason"
    and "\<forall>r. uuid_pattern (ve_run_key env r)"
  shows "\<exists>s'. block_after_failure env v fallback reason title summary s = (Inr (), s') \<and>
    cd_changes (sv_db s') = cd_changes (sv_db s) \<and> cd_runs (sv_db s') = cd_runs (sv_db s) \<and>
    blocked (cc_application c) (sv_db s')"
proof -
  note v = assms(4) [unfolded views_def]
  have ids: "uuid_pattern (cw_id v)" "uuid_pattern (cw_actor v)" "identifier_pattern (cw_application v)"
    using assms(3) v by (simp_all add: usable_def)
  obtain latest where latest: "find_latest_run_id (ve_run_key env) (cw_id v) (sv_db s) = (Inr latest, sv_db s)"
      "latest \<noteq> None \<Longrightarrow> uuid_pattern (the latest)"
    using ids(1) assms(6)
    by (cases "sort_key rr_sequence (runs_of (cw_id v) (sv_db s))")
       (auto simp: find_latest_run_id_def ConfigRepository.checked_def bad_uuid_def run_checks_def)
  define s1 where "s1 = s\<lparr>sv_calls := sv_calls s + 1\<rparr>"
  define key where "key = (case latest of None \<Rightarrow> database_uuid env fallback | Some k \<Rightarrow> k)"
  have key: "uuid_pattern key"
    using latest(2) database_uuid_pattern [OF assms(2)] by (cases latest) (simp_all add: key_def)
  obtain b db where b: "block_application_row (cw_application v) key (cw_id v) reason (cw_actor v) (sv_db s1) = (Inr b, db)"
      "cd_changes db = cd_changes (sv_db s1)" "cd_runs db = cd_runs (sv_db s1)" "blocked (cw_application v) db"
    using block_row_blocks [OF ids(3) key ids(1,2) assms(5)] by blast
  have s1: "sv_db s1 = sv_db s" by (simp add: s1_def)
  have "create_incident env a t m s2 = (Inr (), s2\<lparr>sv_calls := sv_calls s2 + 1, sv_incidents := sv_incidents s2 @ [(a, t, m)]\<rparr>)"
    for a t m and s2 :: "'a service_state"
    using assms(1) by (simp add: create_incident_def before_call_def Let_def calm_def)
  then show ?thesis
    using latest(1) b v s1
    by (auto simp: repository_calm [OF assms(1)] block_after_failure_def bind_prog_def key_def [symmetric] s1_def [symmetric] when_prog_def ret_def)
qed

definition dispatch_unrecorded :: "service_env \<Rightarrow> string \<Rightarrow> config_db \<Rightarrow> bool" where
  "dispatch_unrecorded env i db \<longleftrightarrow>
     unrecorded env i (i @ '':dispatch:rollback'') db \<and> unrecorded env i (i @ '':dispatch:failed'') db \<and>
     seed_id env (i @ '':dispatch:rollback'') \<noteq> seed_id env (i @ '':dispatch:failed'') \<and>
     seed_event env (i @ '':dispatch:rollback'') \<noteq> seed_event env (i @ '':dispatch:failed'')"

lemma dispatch_failure_recorded:
  assumes "calm env" and "full_digests env" and "\<forall>r. uuid_pattern (ve_run_key env r)"
    and "reachable_db (ve_config env) (sv_db s)" and "c \<in> set (cd_changes (sv_db s))" and "views v c"
    and "usable env c" and "cc_state c = APPLYING" and "dispatch_unrecorded env (cc_id c) (sv_db s)"
    and "is_safe_integer (cc_version c + 2)"
  shows "\<exists>s' d. persist_dispatch_failure env v s = (Inr (), s') \<and> d \<in> set (cd_changes (sv_db s')) \<and>
    cc_id d = cc_id c \<and> cc_state d = ROLLBACK_FAILED \<and> blocked (cc_application c) (sv_db s')"
proof -
  have fresh: "unrecorded env (cc_id c) (cc_id c @ '':dispatch:rollback'') (sv_db s)"
    using assms(9) by (simp add: dispatch_unrecorded_def)
  obtain v1 c1 s1 where one: "transition_database env v ROLLING_BACK (cc_id c @ '':dispatch:rollback'') None s = (Inr v1, s1)"
      "views v1 c1" "c1 = c\<lparr>cc_state := ROLLING_BACK, cc_version := cc_version c + 1\<rparr>" "c1 \<in> set (cd_changes (sv_db s1))"
      "sv_db s1 = moved_db (reconcile_input env v ROLLING_BACK (cc_id c @ '':dispatch:rollback'') None) c (sv_db s)"
      "reachable_db (ve_config env) (sv_db s1)"
    using reconcile_accepted [OF assms(1,2,4-7) _ _ _ fresh, of ROLLING_BACK] assms(8)
    by (auto simp: active_states_def)
  have usable: "usable env c1"
    using assms(7,10) by (auto simp: usable_def run_checks_ok map_change_checks_def one(3) is_safe_integer_def)
  have fresh1: "unrecorded env (cc_id c1) (cc_id c1 @ '':dispatch:failed'') (sv_db s1)"
    using assms(6,9) one(3)
    by (auto simp: dispatch_unrecorded_def unrecorded_def one(5) moved_db_def run_of_def reconcile_input_def seed_id_def
        seed_event_def Let_def)
  obtain v2 c2 s2 where two: "transition_database env v1 ROLLBACK_FAILED (cc_id c1 @ '':dispatch:failed'') None s1 = (Inr v2, s2)"
      "views v2 c2" "c2 = c1\<lparr>cc_state := ROLLBACK_FAILED, cc_version := cc_version c1 + 1\<rparr>" "c2 \<in> set (cd_changes (sv_db s2))"
    using reconcile_accepted [OF assms(1,2) one(6) one(4) one(2) usable _ _ _ fresh1, of ROLLBACK_FAILED] one(3)
    by (auto simp: active_states_def)
  have code: "upper_code 3 ''DISPATCH_FAILED''" by code_simp
  obtain s3 where "block_after_failure env v (''config-failed-run:'' @ cw_id v @ '':dispatch'') ''DISPATCH_FAILED''
          ''Configuration dispatch failed for ''
          ''Config Agent dispatch failed after database apply state was recorded.'' s2 = (Inr (), s3)"
      "cd_changes (sv_db s3) = cd_changes (sv_db s2)" "blocked (cc_application c) (sv_db s3)"
    using blocks_application [OF assms(1,2,7,6) code assms(3)] by blast
  then show ?thesis
    using one(1,3) two assms(6,8)
    by (intro exI [of _ s3] exI [of _ c2])
       (auto simp: persist_dispatch_failure_def when_prog_def bind_prog_def attempt_def finish_dispatch_failure_def views_def)
qed

section \<open>What becomes of a run that the agent completes\<close>

text \<open>
  An answer of the agent that cannot be followed: its first event is a state that the change is not in
  and cannot move to, and no run of the tables was made for it. Without \<open>afterEventId\<close>, and for an event
  that it does not know, the agent answers all events from the validation on (\<open>events_after\<close> of
  runtimeHandlers.ts), so the first one is READY.
\<close>

definition starts_over :: "service_env \<Rightarrow> string \<Rightarrow> config_db \<Rightarrow> status_response \<Rightarrow> bool" where
  "starts_over env i db r \<longleftrightarrow>
     (case st_events r of
        [] \<Rightarrow> False
      | e # _ \<Rightarrow> se_state e \<noteq> APPLYING \<and> se_state e \<notin> set (legal_transitions APPLYING) \<and>
          unrecorded env i (i @ '':'' @ se_event e) db)"

lemma get_change_usable:
  assumes "keys_ok db" and "c \<in> set (cd_changes db)" and "usable env c"
  shows "get_change (cc_id c) db = (Inr (Some c), db)"
proof -
  have "find_change (cc_id c) db \<noteq> None" using assms(2) by (auto simp: find_change_def find_None_iff)
  then have "find_change (cc_id c) db = Some c"
    using same_id [OF assms(1)] assms(2) by (auto simp: find_change_def find_Some_iff)
  then show ?thesis
    using assms(3) by (simp add: get_change_def ConfigRepository.checked_def usable_def bad_uuid_def map_change_def run_checks_def)
qed

lemma find_by_id_usable:
  assumes "calm env" and "keys_ok (sv_db s)" and "c \<in> set (cd_changes (sv_db s))" and "usable env c"
  shows "find_by_id env (cc_id c) s = (Inr (Some (view_of_row c)), s\<lparr>sv_calls := sv_calls s + 1\<rparr>)"
  using assms by (simp add: find_by_id_def bind_prog_def repository_calm get_change_usable ret_def)

lemma views_row: "views (view_of_row c) c"
  by (simp add: views_def view_of_row_def)

text \<open>Following such an answer throws and leaves the tables as they are.\<close>

lemma reconcile_starts_over:
  assumes "calm env" and "keys_ok (sv_db s)" and "c \<in> set (cd_changes (sv_db s))" and "usable env c"
    and "cc_state c = APPLYING" and "starts_over env (cc_id c) (sv_db s) r"
  shows "\<exists>e s'. reconcile_agent_status env (view_of_row c) r s = (Inl e, s') \<and> sv_db s' = sv_db s"
proof -
  obtain e es where e: "st_events r = e # es" "se_state e \<noteq> APPLYING" "se_state e \<notin> set (legal_transitions APPLYING)"
      "unrecorded env (cc_id c) (cc_id c @ '':'' @ se_event e) (sv_db s)"
    using assms(6) by (auto simp: starts_over_def split: list.splits)
  let ?v = "view_of_row c"
  let ?i = "reconcile_input env ?v (se_state e) (cc_id c @ '':'' @ se_event e) (Some (se_reason e))"
  have v: "cw_id ?v = cc_id c" "cw_state ?v = APPLYING" using assms(5) by (simp_all add: view_of_row_def)
  have "ti_to ?i \<notin> set (legal_transitions (cc_state d))" if "d \<in> set (cd_changes (sv_db s))" "cc_id d = ti_change ?i" for d
  proof -
    have "d = c" using same_id [OF assms(2)] that assms(3) v by (simp add: reconcile_input_def Let_def)
    then show ?thesis using assms(5) e(3) by (simp add: reconcile_input_def Let_def)
  qed
  then obtain err where "transition_row (ve_config env) ?i (sv_db s) = (Inl err, sv_db s)"
    using transition_refused [OF unrecorded_run] e(4) v by metis
  then have "transition_database env ?v (se_state e) (cc_id c @ '':'' @ se_event e) (Some (se_reason e)) s =
      (Inl (Failure (config_message err)), s\<lparr>sv_calls := sv_calls s + 1\<rparr>)"
    using e(2) v by (simp add: transition_database_def transition_call_def bind_prog_def repository_calm [OF assms(1)])
  then show ?thesis
    using find_by_id_usable [OF assms(1), of "s\<lparr>sv_calls := sv_calls s + 1\<rparr>" c] assms(2-5) e(1,2) v
    by (simp add: reconcile_agent_status_def bind_prog_def catch_prog_def throw_def)
qed

lemma poll_starts_over:
  assumes "calm env" and "keys_ok (sv_db s)" and "c \<in> set (cd_changes (sv_db s))" and "usable env c"
    and "cc_state c = APPLYING"
    and "\<And>g r g'. ag_status agent p (cc_id c) None g = (Inr r, g') \<Longrightarrow> starts_over env (cc_id c) (sv_db s) r"
  shows "\<exists>s'. poll env agent p (cc_id c) s = (Inr False, s') \<and> sv_db s' = sv_db s"
proof (cases "ag_status agent p (cc_id c) None (sv_agent s)")
  case (Pair answer g)
  define s1 where "s1 = s\<lparr>sv_agent := g\<rparr>"
  show ?thesis
  proof (cases answer)
    case (Inl e)
    with Pair show ?thesis by (simp add: poll_def catch_prog_def bind_prog_def ask_def ret_def)
  next
    case (Inr r)
    show ?thesis
    proof (cases "status_schema env r")
      case False
      with Pair Inr show ?thesis by (simp add: poll_def catch_prog_def bind_prog_def ask_def ret_def parse_status_def throw_def)
    next
      case True
      have s1: "sv_db (s1\<lparr>sv_calls := n\<rparr>) = sv_db s" "sv_db s1 = sv_db s" for n by (simp_all add: s1_def)
      obtain e s2 where "reconcile_agent_status env (view_of_row c) r (s1\<lparr>sv_calls := sv_calls s1 + 1\<rparr>) = (Inl e, s2)"
          "sv_db s2 = sv_db s"
        using reconcile_starts_over [OF assms(1), of "s1\<lparr>sv_calls := sv_calls s1 + 1\<rparr>" c r] assms Pair Inr s1 by auto
      then show ?thesis
        using Pair Inr True find_by_id_usable [OF assms(1), of s1 c] assms(2-4) s1
        by (simp add: poll_def catch_prog_def bind_prog_def ask_def ret_def parse_status_def then_prog_def s1_def [symmetric])
    qed
  qed
qed

lemma poll_loop_starts_over:
  assumes "calm env" and "keys_ok (sv_db s)" and "c \<in> set (cd_changes (sv_db s))" and "usable env c"
    and "cc_state c = APPLYING"
    and "\<And>g r g'. ag_status agent p (cc_id c) None g = (Inr r, g') \<Longrightarrow> starts_over env (cc_id c) (sv_db s) r"
  shows "\<exists>s'. poll_loop n env agent p (cc_id c) s = (Inr False, s') \<and> sv_db s' = sv_db s"
  using assms
proof (induction n arbitrary: s)
  case (Suc n)
  have "\<exists>s1. poll env agent p (cc_id c) s = (Inr False, s1) \<and> sv_db s1 = sv_db s"
    by (rule poll_starts_over [OF Suc.prems(1-5)]) (rule Suc.prems(6))
  then obtain s1 where s1: "poll env agent p (cc_id c) s = (Inr False, s1)" "sv_db s1 = sv_db s" by blast
  then show ?case using Suc.IH [of s1] Suc.prems by (simp add: bind_prog_def)
qed (simp add: ret_def)

text \<open>
  C19. A run that the agent carries out is recorded as failed: while the agent answers each poll of the
  watch with its events from the validation on, as it does whatever becomes of the run, the change stays
  APPLYING in the tables, and after the last poll it is recorded as ROLLBACK_FAILED and its application
  is blocked, although the agent may have completed the run and no call failed.
\<close>

theorem completed_run_recorded_as_failed:
  assumes "op_run (config_step (ve_config env)) ops empty_config_db (sv_db s)"
    and "\<forall>n db. ve_others env n db = db" and "\<forall>n. ve_failing env n = None"
    and "\<forall>t. length (ve_sha256 env t) = 32" and "\<forall>r. uuid_pattern (ve_run_key env r)"
    and "c \<in> set (cd_changes (sv_db s))" and "cc_state c = APPLYING" and "usable env c"
    and "is_safe_integer (cc_version c + 2)" and "dispatch_unrecorded env (cc_id c) (sv_db s)"
    and "\<And>g r g'. ag_status agent p (cc_id c) None g = (Inr r, g') \<Longrightarrow> starts_over env (cc_id c) (sv_db s) r"
  shows "\<exists>s' d. monitor_apply env agent p (cc_id c) s = (Inr (), s') \<and> d \<in> set (cd_changes (sv_db s')) \<and>
    cc_id d = cc_id c \<and> cc_state d = ROLLBACK_FAILED \<and> blocked (cc_application c) (sv_db s')"
proof -
  have calm: "calm env" using assms(2,3) by (simp add: calm_def)
  have full: "full_digests env" using assms(4) by (simp add: full_digests_def)
  have reach: "reachable_db (ve_config env) (sv_db s)" using assms(1) by (auto simp: reachable_db_def follows_def)
  have keys: "keys_ok (sv_db s)" by (rule reachable_ok(1) [OF reach])
  have "\<exists>s1. poll_loop 300 env agent p (cc_id c) s = (Inr False, s1) \<and> sv_db s1 = sv_db s"
    by (rule poll_loop_starts_over [OF calm keys assms(6,8,7)]) (rule assms(11))
  then obtain s1 where s1: "poll_loop 300 env agent p (cc_id c) s = (Inr False, s1)" "sv_db s1 = sv_db s" by blast
  define s2 where "s2 = s1\<lparr>sv_calls := sv_calls s1 + 1\<rparr>"
  have db: "sv_db s2 = sv_db s" using s1(2) by (simp add: s2_def)
  have "find_by_id env (cc_id c) s1 = (Inr (Some (view_of_row c)), s2)"
    using find_by_id_usable [OF calm, of s1 c] keys assms(6,8) s1(2) by (simp add: s2_def)
  moreover have "cw_state (view_of_row c) = APPLYING" using assms(7) by (simp add: view_of_row_def)
  ultimately have "monitor_apply env agent p (cc_id c) s = persist_dispatch_failure env (view_of_row c) s2"
    using s1(1) unfolding monitor_apply_def by (simp add: bind_prog_def when_prog_def)
  then show ?thesis
    using dispatch_failure_recorded [OF calm full assms(5), of s2 c "view_of_row c"] reach assms(6-10) views_row
    unfolding db by simp
qed

section \<open>The status of a run\<close>

lemma applying_has_runs:
  assumes "log_ok db c" and "cc_state c = APPLYING"
  shows "runs_of (cc_id c) db \<noteq> []"
  using assms by (auto simp: log_ok_def Let_def run_phase_def active_states_def)

lemma list_change_events_answer:
  assumes "uuid_pattern i"
  shows "\<exists>es. list_change_events i None db = (Inr es, db) \<and> length es = length (runs_of i db)"
  using assms by (simp add: list_change_events_def ConfigRepository.checked_def bad_uuid_def run_checks_def when_some_def)

text \<open>
  C38. The status of a run cannot be read: while a change is APPLYING in the tables and the agent fails, or
  answers with its events from the validation on, a request for the status of the change is answered with
  an error. The answer of the agent cannot be followed, and the answer from the tables, which is made
  instead, never passes its own schema, because its events have a Date as their time.
\<close>

theorem status_unreadable_during_run:
  assumes "op_run (config_step (ve_config env)) ops empty_config_db (sv_db s)"
    and "\<forall>n db. ve_others env n db = db" and "\<forall>n. ve_failing env n = None"
    and "c \<in> set (cd_changes (sv_db s))" and "cc_state c = APPLYING" and "usable env c"
    and "\<And>g r g'. ag_status agent p (cc_id c) None g = (Inr r, g') \<Longrightarrow> starts_over env (cc_id c) (sv_db s) r"
  shows "\<exists>s'. status env agent p (cc_id c) None s = (Inl (Failure ''ZodError''), s') \<and> sv_db s' = sv_db s"
proof -
  have calm: "calm env" using assms(2,3) by (simp add: calm_def)
  have reach: "reachable_db (ve_config env) (sv_db s)" using assms(1) by (auto simp: reachable_db_def follows_def)
  note keys = reachable_ok(1) [OF reach]
  have fallback: "\<exists>s'. database_status env (cc_id c) None t = (Inl (Failure ''ZodError''), s') \<and> sv_db s' = sv_db s"
    if "sv_db t = sv_db s" for t :: "'a service_state"
  proof -
    have "uuid_pattern (cc_id c)" using assms(6) by (simp add: usable_def)
    then obtain es where es: "list_change_events (cc_id c) None (sv_db s) = (Inr es, sv_db s)"
        "length es = length (runs_of (cc_id c) (sv_db s))"
      using list_change_events_answer by blast
    have "es \<noteq> []" using es(2) applying_has_runs [OF reachable_ok(2) [OF reach assms(4)] assms(5)] by auto
    then have bad: "\<not> list_all (status_event_schema env) (map (event_of_row i) es)" for i
      by (cases es) (simp_all add: status_event_schema_def event_of_row_def)
    show ?thesis
      using find_by_id_usable [OF calm, of t c] keys assms(4,6) that es(1) bad
      by (simp add: database_status_def bind_prog_def require_record_def ret_def repository_calm [OF calm] parse_status_def
          status_schema_def throw_def view_of_row_def)
  qed
  obtain answer g where g: "ag_status agent p (cc_id c) None (sv_agent s) = (answer, g)" by fastforce
  define s1 where "s1 = s\<lparr>sv_agent := g\<rparr>"
  have s1: "sv_db s1 = sv_db s" "sv_db (s1\<lparr>sv_calls := n\<rparr>) = sv_db s" for n by (simp_all add: s1_def)
  show ?thesis
  proof (cases "\<exists>r. answer = Inr r \<and> status_schema env r")
    case False
    then have "\<exists>e. bind_prog (ask (ag_status agent p (cc_id c) None)) (\<lambda>answer. bind_prog (parse_status env answer) (\<lambda>r.
        bind_prog (bind_prog (find_by_id env (cc_id c)) require_record) (\<lambda>d.
        then_prog (reconcile_agent_status env d r) (ret r)))) s = (Inl e, s1)"
      using g by (cases answer) (auto simp: bind_prog_def ask_def parse_status_def throw_def s1_def)
    then show ?thesis using fallback [OF s1(1)] unfolding status_def catch_prog_def by auto
  next
    case True
    then obtain r where r: "answer = Inr r" "status_schema env r" by blast
    obtain e s2 where s2: "reconcile_agent_status env (view_of_row c) r (s1\<lparr>sv_calls := sv_calls s1 + 1\<rparr>) = (Inl e, s2)"
        "sv_db s2 = sv_db s"
      using reconcile_starts_over [OF calm, of "s1\<lparr>sv_calls := sv_calls s1 + 1\<rparr>" c r] assms(4-7) g r(1) keys s1 by auto
    then have "bind_prog (ask (ag_status agent p (cc_id c) None)) (\<lambda>answer. bind_prog (parse_status env answer) (\<lambda>r.
        bind_prog (bind_prog (find_by_id env (cc_id c)) require_record) (\<lambda>d.
        then_prog (reconcile_agent_status env d r) (ret r)))) s = (Inl e, s2)"
      using g r find_by_id_usable [OF calm, of s1 c] assms(4,6) keys s1
      by (simp add: bind_prog_def ask_def parse_status_def ret_def require_record_def then_prog_def s1_def [symmetric])
    then show ?thesis using fallback [OF s2(2)] unfolding status_def catch_prog_def by auto
  qed
qed

end
