(* ===== verification/ConfigServiceSample.thy ===== *)
theory ConfigServiceSample
  imports ConfigServiceFaults
begin

text \<open>
  The properties of the service of configuration changes at a concrete input: the sample history of the
  repository, and an agent that has completed the run.
\<close>

definition sample_digest_bytes :: "string \<Rightarrow> 8 word list" where
  "sample_digest_bytes t = map of_char (take 32 (rev t @ replicate 32 (CHR ''0'')))"

definition sample_service_env :: service_env where
  "sample_service_env =
     \<lparr> ve_config = sample_env, ve_others = (\<lambda>_ db. db), ve_failing = (\<lambda>_. None), ve_sha256 = sample_digest_bytes,
       ve_run_key = (\<lambda>_. sample_id), ve_datetime = (\<lambda>_. True), ve_catalog = ''c1'', ve_manifest = ''m1'',
       ve_key_version = ''v1'', ve_draft = True, ve_runtime = True, ve_build = False \<rparr>"

definition sample_event :: "string \<Rightarrow> int \<Rightarrow> change_state \<Rightarrow> status_event" where
  "sample_event i n st =
     \<lparr> se_event = ''EVT_'' @ i, se_change = sample_id, se_sequence = n, se_state = st, se_reason = ''ok'',
       se_action = Absent, se_check = Absent, se_occurred = Occurred_text ''2026-01-01T00:00:00Z'' \<rparr>"

definition sample_completed :: status_response where
  "sample_completed =
     \<lparr> st_change = sample_id, st_state = COMPLETED, st_sequence = 3,
       st_events = [sample_event ''1'' 1 READY, sample_event ''2'' 2 SAVED, sample_event ''3'' 3 APPLYING],
       st_plan = None, st_digest = None \<rparr>"

definition sample_config_agent :: "unit config_agent" where
  "sample_config_agent =
     \<lparr> ag_validate = (\<lambda>_ _. throw ''CONFIG_AGENT_REJECTED''), ag_save = (\<lambda>_ _. throw ''CONFIG_AGENT_REJECTED''),
       ag_apply = (\<lambda>_ _. throw ''CONFIG_AGENT_REJECTED''), ag_cancel = (\<lambda>_ _ _. throw ''CONFIG_AGENT_REJECTED''),
       ag_status = (\<lambda>_ _ _. ret sample_completed), ag_clear = (\<lambda>_ _. throw ''CONFIG_AGENT_REJECTED'') \<rparr>"

definition sample_principal :: "string \<Rightarrow> principal" where
  "sample_principal user =
     \<lparr> pr_user = user, pr_session = sample_id, pr_role = ''ops_maintainer'', pr_ip = ''sha256:0'', pr_agent = ''sha256:0'' \<rparr>"

definition sample_service :: "unit service_state" where
  "sample_service = \<lparr> sv_db = last sample_history, sv_calls = 0, sv_incidents = [], sv_watches = [], sv_agent = () \<rparr>"

definition sample_apply_request :: apply_request where
  "sample_apply_request = \<lparr> ar_change = sample_id, ar_run = ''RUN_1'', ar_digest = sample_digest, ar_key = ''EVT_9'' \<rparr>"

definition sample_validate_request :: validate_request where
  "sample_validate_request =
     \<lparr> vr_change = sample_id, vr_application = ''crm'', vr_reason = ''rotate'', vr_items = [], vr_replace = False,
       vr_catalog = ''c1'', vr_manifest = ''m1'' \<rparr>"

definition sample_save_request :: save_request where
  "sample_save_request = \<lparr> sr_change = sample_id, sr_digest = sample_digest, sr_catalog = ''c1'', sr_manifest = ''m1'' \<rparr>"

lemma sample_env_fields [simp]:
  "ve_config sample_service_env = sample_env" "ve_others sample_service_env n db = db"
  "ve_failing sample_service_env n = None" "ve_sha256 sample_service_env = sample_digest_bytes"
  "ve_run_key sample_service_env r = sample_id"
  by (simp_all add: sample_service_env_def)

lemma sample_digest_length: "length (sample_digest_bytes t) = 32"
  by (simp add: sample_digest_bytes_def)

lemma sample_run_service: "op_run (config_step (ve_config sample_service_env))
    [Created, Validated, Saved_change, Moved sample_transition] empty_config_db (sv_db sample_service)"
  using sample_run by (simp add: sample_service_env_def sample_service_def)

lemma sample_change_id: "cc_id sample_change = sample_id"
  by (simp add: sample_change_row stored_change_def)

lemma sample_change_row_stored: "sample_change \<in> set (cd_changes (sv_db sample_service))"
  using sample_change_stored by (simp add: sample_service_def)

lemma sample_version: "cc_version sample_change = 3"
  by (simp add: sample_change_row stored_change_def)

lemma sample_fields:
  "cc_plan sample_change = sample_plan" "cc_digest sample_change = Some sample_digest" "cc_actor sample_change = sample_id"
  "cc_session sample_change = sample_id" "cc_application sample_change = ''crm''"
  by (simp_all add: sample_change_row stored_change_def)

lemma sample_checks: "run_checks (map_change_checks sample_change) = Inr ()"
proof -
  have "fingerprint_pattern sample_digest" "identifier_pattern ''crm''" by code_simp+
  then show ?thesis
    by (simp add: run_checks_def map_change_checks_def sample_fields sample_version sample_plan_def impact_plan_checks_def
        bad_keys_def bad_identifier_def bad_fingerprint_def when_truthy_def forbidden_metadata_keys_def strategies_def
        is_safe_integer_def max_safe_integer_def)
qed

lemma sample_usable: "usable sample_service_env sample_change"
proof -
  have "uuid_pattern sample_id" "identifier_pattern ''crm''" by code_simp+
  then show ?thesis
    by (simp add: usable_def sample_fields sample_checks sample_change_id sample_version is_safe_integer_def
        max_safe_integer_def sample_env_def)
qed

lemma sample_runs: "map rr_transition (cd_runs (last sample_history)) = [sample_id] \<and>
    map rr_event (cd_runs (last sample_history)) = [sample_id]"
  by (simp add: sample_last_db stored_db_def stored_run_def)

lemma sample_unrecorded:
  assumes "seed_id sample_service_env seed \<noteq> sample_id" and "seed_event sample_service_env seed \<noteq> sample_id"
  shows "unrecorded sample_service_env i seed (sv_db sample_service)"
  using assms sample_runs by (auto simp: unrecorded_def sample_service_def map_eq_Cons_conv)

text \<open>A digest of the sample starts with the last character of the text, and so does the identifier.\<close>

lemma database_uuid_start:
  assumes "ve_sha256 env seed = b # bs"
  shows "take 2 (database_uuid env seed) = byte_hex b"
  using assms by (simp add: database_uuid_def Let_def byte_hex_def numeral_eq_Suc)

lemma sample_uuid_start:
  "take 2 (database_uuid sample_service_env (t @ [c])) = byte_hex (of_char c)"
  by (rule database_uuid_start) (simp add: sample_service_env_def sample_digest_bytes_def)

lemma sample_seed_start:
  "take 2 (seed_id sample_service_env (t @ [c])) = byte_hex (of_char c)"
  "take 2 (seed_event sample_service_env (t @ [c])) = byte_hex (of_char c)"
  using sample_uuid_start [of "''config-reconcile-transition:'' @ t"] sample_uuid_start [of "''config-reconcile-event:'' @ t"]
  by (simp_all add: seed_id_def seed_event_def)

lemma sample_hex: "byte_hex (of_char (CHR ''k'')) = ''6b''" "byte_hex (of_char (CHR ''d'')) = ''64''"
    "byte_hex (of_char (CHR ''1'')) = ''31''"
  by (simp_all add: byte_hex_def hex_char_def)

lemma sample_ends:
  "sample_id @ '':dispatch:rollback'' = (sample_id @ '':dispatch:rollbac'') @ ''k''"
  "sample_id @ '':dispatch:failed'' = (sample_id @ '':dispatch:faile'') @ ''d''"
  "sample_id @ '':EVT_1'' = (sample_id @ '':EVT_'') @ ''1''"
  by simp_all

lemma sample_seeds:
  "take 2 (seed_id sample_service_env (sample_id @ '':dispatch:rollback'')) = ''6b''"
  "take 2 (seed_event sample_service_env (sample_id @ '':dispatch:rollback'')) = ''6b''"
  "take 2 (seed_id sample_service_env (sample_id @ '':dispatch:failed'')) = ''64''"
  "take 2 (seed_event sample_service_env (sample_id @ '':dispatch:failed'')) = ''64''"
  "take 2 (seed_id sample_service_env (sample_id @ '':EVT_1'')) = ''31''"
  "take 2 (seed_event sample_service_env (sample_id @ '':EVT_1'')) = ''31''"
  unfolding sample_ends sample_seed_start sample_hex by (rule refl)+

lemma sample_id_start: "take 2 sample_id = ''11''"
  by (simp add: sample_id_def)

lemma sample_seeds_fresh:
  "unrecorded sample_service_env sample_id (sample_id @ '':dispatch:rollback'') (sv_db sample_service)"
  "unrecorded sample_service_env sample_id (sample_id @ '':dispatch:failed'') (sv_db sample_service)"
  "unrecorded sample_service_env sample_id (sample_id @ '':EVT_1'') (sv_db sample_service)"
  by (rule sample_unrecorded; use sample_seeds sample_id_start in force)+

lemma sample_dispatch: "dispatch_unrecorded sample_service_env sample_id (sv_db sample_service)"
proof -
  have "seed_id sample_service_env (sample_id @ '':dispatch:rollback'')
      \<noteq> seed_id sample_service_env (sample_id @ '':dispatch:failed'')"
    "seed_event sample_service_env (sample_id @ '':dispatch:rollback'')
      \<noteq> seed_event sample_service_env (sample_id @ '':dispatch:failed'')"
    using sample_seeds(1-4) by force+
  then show ?thesis using sample_seeds_fresh(1,2) by (simp add: dispatch_unrecorded_def)
qed

lemma sample_answers:
  assumes "ag_status sample_config_agent p i None g = (Inr r, g')"
  shows "starts_over sample_service_env sample_id (sv_db sample_service) r"
proof -
  have "r = sample_completed" using assms by (simp add: sample_config_agent_def ret_def)
  then show ?thesis
    using sample_seeds_fresh(3) by (simp add: starts_over_def sample_completed_def sample_event_def)
qed

section \<open>Witnesses\<close>

lemma completed_run_recorded_as_failed_witness:
  "st_state sample_completed = COMPLETED \<and>
   (\<exists>s' d. monitor_apply sample_service_env sample_config_agent (sample_principal sample_id) sample_id sample_service
        = (Inr (), s') \<and> d \<in> set (cd_changes (sv_db s')) \<and> cc_id d = sample_id \<and> cc_state d = ROLLBACK_FAILED \<and>
      blocked (cc_application sample_change) (sv_db s'))"
proof
  show "st_state sample_completed = COMPLETED" by (simp add: sample_completed_def)
  note run = completed_run_recorded_as_failed [OF sample_run_service _ _ _ _ sample_change_row_stored, of sample_config_agent
      "sample_principal sample_id", unfolded sample_change_id]
  have uuid: "uuid_pattern sample_id" by code_simp
  show "\<exists>s' d. monitor_apply sample_service_env sample_config_agent (sample_principal sample_id) sample_id sample_service
        = (Inr (), s') \<and> d \<in> set (cd_changes (sv_db s')) \<and> cc_id d = sample_id \<and> cc_state d = ROLLBACK_FAILED \<and>
      blocked (cc_application sample_change) (sv_db s')"
  proof (rule run)
    show "cc_state sample_change = APPLYING" using sample_change_stored by simp
    show "is_safe_integer (cc_version sample_change + 2)"
      by (simp add: sample_version is_safe_integer_def max_safe_integer_def)
  qed (use uuid sample_digest_length sample_usable sample_dispatch sample_answers in auto)
qed

lemma status_unreadable_during_run_witness:
  "\<exists>s'. status sample_service_env sample_config_agent (sample_principal sample_id) sample_id None sample_service
     = (Inl (Failure ''ZodError''), s') \<and> sv_db s' = sv_db sample_service"
proof (rule status_unreadable_during_run [OF sample_run_service _ _ sample_change_row_stored, unfolded sample_change_id])
  show "cc_state sample_change = APPLYING" using sample_change_stored by simp
qed (use sample_usable sample_answers in auto)

lemma service_refines_repository_witness:
  "\<exists>steps. op_run (config_step sample_env) steps (sv_db sample_service)
     (sv_db (fold (perform_op sample_service_env sample_config_agent)
       [Op_apply (sample_principal sample_id) sample_apply_request, Op_watch,
        Op_status (sample_principal sample_id) sample_id None] sample_service))"
proof -
  have "\<forall>n db. \<exists>steps. op_run (config_step (ve_config sample_service_env)) steps db (ve_others sample_service_env n db)"
    by (simp, blast intro: run_nothing)
  from service_refines_repository [OF this] show ?thesis unfolding sample_env_fields(1) .
qed

lemma only_owner_acts_witness:
  "isl (fst (apply_change sample_service_env sample_config_agent (sample_principal ''another'') sample_apply_request sample_service))
     \<and> isl (fst (cancel sample_service_env sample_config_agent (sample_principal ''another'') sample_id ''EVT_1'' sample_service))"
proof -
  have "map cc_actor (cd_changes (last sample_history)) = [sample_id]"
    by (simp add: sample_last_db stored_db_def stored_change_def)
  then have "another (sample_principal ''another'') sample_id
      (ve_others sample_service_env (sv_calls sample_service) (sv_db sample_service))"
    by (auto simp: another_def sample_principal_def sample_service_env_def sample_service_def find_change_def find_Some_iff
        map_eq_Cons_conv sample_id_def)
  from only_owner_acts [OF this, of sample_validate_request sample_save_request sample_apply_request] show ?thesis
    by (simp add: sample_validate_request_def sample_save_request_def sample_apply_request_def split_def)
qed

end
