(* ===== verification/Spec2Isabelle.thy ===== *)
theory Spec2Isabelle
  imports RuntimeApply Framing WorkerGate SqlRisk StepUp Accounts StatusMachine ConfigProps PipelineFaults
    ExplorerSample IngestSample WorkerSample ConfigServiceSample
begin

text \<open>
  Verification development of the operations tooling: root theory. Paths are relative to src/.

  \<^bold>\<open>The program.\<close> An operations API (apps/api) administers accounts, runs production SQL through a worker
  (apps/sql-worker) and records configuration changes, which an agent on the host
  (apps/config-agent) applies: it takes a snapshot, writes the sources, runs actions, checks health
  and rolls back when something fails. Errors of the applications reach the API as telemetry
  envelopes; a processor (apps/processor) turns them into issues and a notifier (apps/notifier) plans
  alerts. A collector (apps/web/src/server) watches hosts and databases and raises alerts of its own.

  \<^bold>\<open>Theories and the code they model.\<close>
  \<^item> Prelude: integers, text, programs with state and errors, their Hoare triples, transactions
    (apps/api/src/runtime/poolDatabase.ts), runs of labelled steps (\<open>op_run\<close>) and the contract of
    tokens that are spent once. Lifecycle: the contract of a life cycle (states, legal moves, rank).
  \<^item> ChangeMachine: apps/api/src/modules/variables/changeStateMachine.ts. ConfigChecks and
    ConfigRepository: postgresConfigChangeRepository.ts beside it, each method of one transaction as a
    step on the tables and each longer method as the composition of its steps. ConfigRuns: those steps
    in any order, and what the log of runs says of a change. ConfigProps: its other properties.
  \<^item> ApplyMachine: apps/config-agent/src/changes/applyStateMachine.ts. ApplyCoordinator:
    applyCoordinator.ts, whose dependencies are programs over a world that may answer or throw
    anything. ApplyJournal, ApplyOutcome, ApplyComplete, ApplyLocks, ApplyWorld: what every run of the
    coordinator guarantees.
  \<^item> RuntimeJournal, RuntimeHandlers: runtimeHandlers.ts and changeRecovery.ts, the journal of the agent
    and the handlers that wire the coordinator to it. RuntimeInvariants, RuntimeProps, RuntimeApply: what
    holds of every handler, and what becomes of an apply run with that journal.
  \<^item> Framing: the frame codecs of apps/sql-worker/src/protocol/framing.ts and
    packages/config-contracts/src/framing.ts. WorkerGate: nonceStore.ts and authenticateCommand.ts of the
    worker. SqlRisk: riskPolicy.ts, packages/contracts/src/sqlRisk.ts and confirmationPolicy.ts.
  \<^item> Sessions: packages/security/src/sessions.ts. StepUp: stepUpService.ts over
    postgresStepUpRepository.ts. Accounts: accountService.ts over postgresAccountRepository.ts.
  \<^item> StatusMachine: apps/web/src/server/collector/statusMachine.ts and \<open>remember\<close> of collector.ts.
  \<^item> JsonText, Base64: text as JavaScript has it (UTF-16 code units, UTF-8, JSON, base64).
    Then apps/sql-worker/src/explorer, which lets operators browse a database page by page.
    CursorCodec: the sealed cursors and row references of cursorCodec.ts; CursorProps: their properties.
    ExplorerSchema: columnPolicy.ts (packages/security/src/database) and schemaReader.ts.
    ExplorerQuery: filterSql.ts, the keyset condition of rowReader.ts, and what PostgreSQL answers to
    these statements. ExplorerRows: valueEncoding.ts, rowReader.ts, relatedRowReader.ts. ExplorerPages:
    the pages a client reads by following the cursors. ExplorerSafety: what does not reach a client, and
    what goes wrong. ExplorerSample: a sample target.
  \<^item> Telemetry: the tables of error telemetry, the acceptance of envelopes (postgresIngestStore.ts) and the
    queue (postgresProcessorQueue.ts). Issues: normalizeEvent.ts, fingerprint.ts, processEnvelope.ts,
    postgresIssueRepository.ts, index.ts of the processor, and postgresIssueWorkflow.ts. Alerts:
    alertPolicy.ts, scheduleAlerts.ts, postgresAlertOutbox.ts, postgresAlertScheduler.ts. Pipeline: all of
    them on the same tables in any order. PipelineFaults: a sample history and what goes wrong.
  \<^item> Regex: regular expressions with the greedy, leftmost semantics of JavaScript. Sanitizer:
    packages/security/src/telemetry/sanitizer.ts. IngestGate: hmac.ts, postgresNonceStore.ts and
    postgresBrowserRateLimiter.ts of apps/api/src/modules/ingest, and contextToken.ts. Ingest:
    serverIngest.ts and browserIngest.ts, whose texts are stored in the tables of Telemetry as UTF-8.
    IngestProps, IngestSample: their properties, and a sample client.
  \<^item> ResultEncoding, SqlExecution: classification, preview and reading of SQL in the worker
    (apps/sql-worker/src/execution, readPool.ts, mutationPool.ts). WorkerServer: commandHandler.ts and
    protocol/server.ts of the worker with the schemas of databaseExplorerSchemas.ts, and workerClient.ts
    of the API. WorkerSample: a sample database.

  \<^bold>\<open>How state and operations correspond.\<close> A closure or an object with state is a record that the operations
  take and return. A table is a list of rows in a record, a statement or a transaction one step on it
  (PostgreSQL executes it atomically, or holds the row locks the transaction takes), and what throws
  rolls back. Concurrency is the interleaving of such steps: an inductive step relation, runs of it and
  invariants by induction on runs. Every raise and early return is a branch of a sum or option.
  Numbers the code uses as integers are \<open>int\<close> with the checks of the code; frame headers are 32 bit words.
  Cryptography, the clock, random identifiers, JSON and Unicode normalisation are arguments. In the
  explorer, texts are lists of 16 bit code units and JSON is written out, while JSON.parse, AES-GCM,
  HKDF, SHA-256, String(), localeCompare and the driver of PostgreSQL are arguments; a number of
  JavaScript that is not an integer is kept as its text, lower case is that of ASCII, and the
  placeholders of a cursor are numbered on the syntax of the condition, not on its text. A session of
  PostgreSQL in the worker is the committed database, a transaction that works on a copy, and a cursor;
  any query can fail, and the connection can break before or after a query is executed. Values of the
  driver refer to a heap of objects, which are encoded to a depth of ten.

  \<^bold>\<open>What the lemmas show.\<close> Of an apply run: nothing is written before the snapshot is recorded, a completed
  run did everything in order, a rolled back one restored what it wrote, the journal is well formed and
  the locks are released. Of the change records: every run is a legal move, blocked applications wait,
  and retries answer the recorded result (that an application has one apply at a time is the promise of
  the unique index of migration 0017, \<open>one_active\<close>, which the model takes over). Of accounts and
  grants: an active owner remains, a locked account has no access and gets none, every mutation spends a
  grant, a grant is spent once, personal data needs an audit. Of the pipeline: no accepted envelope is
  lost, counts are exact, failures end, alerts are planned once and delivered as what they are. Of the
  ingestion: what is answered with 202 is kept, the texts that are sanitised hold no credentials (others
  are stored as they were sent), retries are duplicates, rates are limited per minute, and a context
  token identifies its user for fifteen minutes. Of the worker: previews and reads leave the database as
  it was, a preview tells what the statement would do, and what is not admitted reaches no worker. Of the
  service of changes: it touches the tables by the transactions of the repository only, and five of its
  operations are refused to everybody but the owner of the change (\<open>status\<close> and \<open>clear_apply_block\<close> do not
  look at the owner). Of the explorer: while rows and schema stand still and the driver is exact,
  following the cursors delivers every row once or fails; the keyset condition is the order of the
  statement, blocked columns do not flow into a page, tokens are bound to their context, and the preflight
  of a row reference is exact. Of codecs and gates: streams decode however they are cut, and a command is
  accepted once, but for one millisecond at the end of its window. Theorems of kind error state where
  the code does not keep what it means to.

  \<^bold>\<open>Bounds and fuel.\<close> Loops of the code run over lists or shrink a buffer, and their functions terminate
  by structure or by the length of their argument. Only the client of the explorer, which reads pages
  until there is no cursor, has fuel (\<open>read_pages\<close>); one call more than there are rows is proved to be
  enough. Bounds are those of the
  code (frames of at most 1 MiB, ten attempts of the queue, a hundred activities per turn).

  \<^bold>\<open>Not modelled.\<close> The web interface, the parsers of configuration files, their catalogue and manifest,
  sockets, files, processes and probes, encryption, login and enrolment, the delivery of alerts, the
  telemetry SDK, the SQLite store of the collector, HTTP routes, recovery by restore points, migrations
  as such, and the deployment scripts: mostly input and output, or code that only calls libraries.
\<close>

end
